(* ===== verification/Wrela_Prelude.thy ===== *)
theory Wrela_Prelude
  imports "HOL-Library.Word"
begin

text \<open>
  Shared vocabulary of the development: machine integers, checked arithmetic, the
  little-endian byte layout of integers, the chunked traversal the sources use, and
  the computations of the toolchain.

  Every long-running function of the sources takes a callback \<open>is_cancelled\<close> and
  allocates with \<open>try_reserve\<close>. Both are questions to the host which the host may
  answer, at that very point, with ``stop''; any other answer lets the function go on
  with no further effect. A computation is therefore its sequence of interruption points,
  each with the error that an interruption there would return, together with the outcome it
  reaches when no point is interrupted. \<open>exec\<close> runs a computation against a host.
\<close>

unbundle bit_operations_syntax

named_theorems comp_simps \<open>evaluation of computations\<close>
named_theorems point_simps \<open>interruption points of computations\<close>

subsection \<open>Machine integers and text\<close>

type_synonym u8 = "8 word"
type_synonym u32 = "32 word"
type_synonym u64 = "64 word"

text \<open>A Rust \<open>String\<close> or \<open>&str\<close> is its UTF-8 bytes; \<open>usize\<close> values are naturals below
  \<open>usize_limit\<close>, and every operation that may leave that range says so.\<close>

type_synonym text_bytes = "u8 list"

definition usize_limit :: nat where
  "usize_limit = 2 ^ 64"

definition usize_max :: nat where
  "usize_max = usize_limit - 1"

definition checked_add_usize :: "nat \<Rightarrow> nat \<Rightarrow> nat option" where
  "checked_add_usize a b = (if a + b < usize_limit then Some (a + b) else None)"

definition checked_mul_usize :: "nat \<Rightarrow> nat \<Rightarrow> nat option" where
  "checked_mul_usize a b = (if a * b < usize_limit then Some (a * b) else None)"

definition saturating_add_usize :: "nat \<Rightarrow> nat \<Rightarrow> nat" where
  "saturating_add_usize a b = min (a + b) usize_max"

definition checked_add_u32 :: "u32 \<Rightarrow> u32 \<Rightarrow> u32 option" where
  "checked_add_u32 a b = (if unat a + unat b < 2 ^ 32 then Some (a + b) else None)"

definition checked_add_u64 :: "u64 \<Rightarrow> u64 \<Rightarrow> u64 option" where
  "checked_add_u64 a b = (if unat a + unat b < 2 ^ 64 then Some (a + b) else None)"

definition checked_mul_u64 :: "u64 \<Rightarrow> u64 \<Rightarrow> u64 option" where
  "checked_mul_u64 a b = (if unat a * unat b < 2 ^ 64 then Some (a * b) else None)"

definition u32_try_from :: "nat \<Rightarrow> u32 option" where
  "u32_try_from n = (if n < 2 ^ 32 then Some (word_of_nat n) else None)"

definition u64_try_from :: "nat \<Rightarrow> u64 option" where
  "u64_try_from n = (if n < 2 ^ 64 then Some (word_of_nat n) else None)"

definition u64_of_u32 :: "u32 \<Rightarrow> u64" where
  "u64_of_u32 x = ucast x"

text \<open>The idiom \<open>total.checked_add(u64::try_from(length)?).filter(|n| *n <= limit)\<close>.\<close>

definition bounded_add :: "u64 \<Rightarrow> nat \<Rightarrow> u64 \<Rightarrow> u64 option" where
  "bounded_add t n limit =
     (case u64_try_from n of
        None \<Rightarrow> None
      | Some m \<Rightarrow> (case checked_add_u64 t m of
            None \<Rightarrow> None
          | Some s \<Rightarrow> if s \<le> limit then Some s else None))"

text \<open>\<open>u32::rotate_right\<close>, for a distance below the width.\<close>

definition rotate_right_u32 :: "nat \<Rightarrow> u32 \<Rightarrow> u32" where
  "rotate_right_u32 n x = drop_bit n x OR push_bit (32 - n) x"

definition str :: "string \<Rightarrow> text_bytes" where
  "str s = map of_char s"

subsection \<open>Little-endian integers\<close>

primrec to_le_bytes :: "nat \<Rightarrow> 'a::len word \<Rightarrow> u8 list" where
  "to_le_bytes 0 w = []"
| "to_le_bytes (Suc n) w = ucast w # to_le_bytes n (drop_bit 8 w)"

primrec from_le_bytes :: "u8 list \<Rightarrow> 'a::len word" where
  "from_le_bytes [] = 0"
| "from_le_bytes (b # bs) = ucast b OR push_bit 8 (from_le_bytes bs)"

subsection \<open>Slices\<close>

definition slice_get :: "'a list \<Rightarrow> nat \<Rightarrow> nat \<Rightarrow> 'a list option" where
  "slice_get xs a b = (if a \<le> b \<and> b \<le> length xs then Some (take (b - a) (drop a xs)) else None)"

definition list_get :: "'a list \<Rightarrow> nat \<Rightarrow> 'a option" where
  "list_get xs i = (if i < length xs then Some (xs ! i) else None)"

function chunks :: "nat \<Rightarrow> 'a list \<Rightarrow> 'a list list" where
  "chunks n xs = (if n = 0 \<or> xs = [] then [] else take n xs # chunks n (drop n xs))"
  by pat_completeness auto
termination
  by (relation "measure (\<lambda>(n, xs). length xs)") auto

declare chunks.simps [simp del]

subsection \<open>Computations\<close>

datatype ('e, 'a) comp = Comp (points: "'e list") (outcome: "'e + 'a")

definition ok :: "'a \<Rightarrow> ('e, 'a) comp" where
  "ok x = Comp [] (Inr x)"

definition err :: "'e \<Rightarrow> ('e, 'a) comp" where
  "err e = Comp [] (Inl e)"

definition lift_result :: "'e + 'a \<Rightarrow> ('e, 'a) comp" where
  "lift_result r = Comp [] r"

text \<open>\<open>ask e\<close> is one question to the host: a poll of \<open>is_cancelled\<close> or a \<open>try_reserve\<close>.\<close>

definition ask :: "'e \<Rightarrow> ('e, unit) comp" where
  "ask e = Comp [e] (Inr ())"

fun and_then :: "('e, 'a) comp \<Rightarrow> ('a \<Rightarrow> ('e, 'b) comp) \<Rightarrow> ('e, 'b) comp" where
  "and_then (Comp ps (Inl e)) f = Comp ps (Inl e)"
| "and_then (Comp ps (Inr x)) f = Comp (ps @ points (f x)) (outcome (f x))"

lemma and_then_cong [fundef_cong]:
  "c = c' \<Longrightarrow> (\<And>x. outcome c' = Inr x \<Longrightarrow> f x = f' x) \<Longrightarrow> and_then c f = and_then c' f'"
  by (cases c'; cases "outcome c'") auto

definition or_err :: "'a option \<Rightarrow> 'e \<Rightarrow> ('e, 'a) comp" where
  "or_err x e = (case x of None \<Rightarrow> err e | Some v \<Rightarrow> ok v)"

definition guard_err :: "bool \<Rightarrow> 'e \<Rightarrow> ('e, unit) comp" where
  "guard_err b e = (if b then err e else ok ())"

primrec for_each :: "('s \<Rightarrow> 'x \<Rightarrow> ('e, 's) comp) \<Rightarrow> 's \<Rightarrow> 'x list \<Rightarrow> ('e, 's) comp" where
  "for_each f s [] = ok s"
| "for_each f s (x # xs) = and_then (f s x) (\<lambda>s'. for_each f s' xs)"

definition map_err :: "('e \<Rightarrow> 'f) \<Rightarrow> ('e, 'a) comp \<Rightarrow> ('f, 'a) comp" where
  "map_err g c = Comp (map g (points c)) (map_sum g id (outcome c))"

text \<open>A host answers the \<open>n\<close>-th question it is asked with \<open>h n\<close>; \<open>True\<close> is ``stop''.\<close>

type_synonym host = "nat \<Rightarrow> bool"

fun interruption :: "host \<Rightarrow> 'e list \<Rightarrow> 'e option" where
  "interruption h [] = None"
| "interruption h (e # es) = (if h 0 then Some e else interruption (\<lambda>n. h (Suc n)) es)"

definition exec :: "host \<Rightarrow> ('e, 'a) comp \<Rightarrow> 'e + 'a" where
  "exec h c = (case interruption h (points c) of Some e \<Rightarrow> Inl e | None \<Rightarrow> outcome c)"

subsection \<open>Laws of computations\<close>

lemma comp_basic [comp_simps, simp]:
  "outcome (ok x) = Inr x"
  "outcome (err e) = Inl e"
  "outcome (lift_result r) = r"
  "outcome (ask e) = Inr ()"
  by (simp_all add: ok_def err_def lift_result_def ask_def)

lemma points_basic [point_simps, simp]:
  "points (ok x) = []"
  "points (err e) = []"
  "points (lift_result r) = []"
  "points (ask e) = [e]"
  by (simp_all add: ok_def err_def lift_result_def ask_def)

lemma outcome_and_then [comp_simps, simp]:
  "outcome (and_then c f) = (case outcome c of Inl e \<Rightarrow> Inl e | Inr x \<Rightarrow> outcome (f x))"
  by (cases c; cases "outcome c") auto

lemma and_then_Inr:
  "outcome (and_then c f) = Inr y \<longleftrightarrow> (\<exists>x. outcome c = Inr x \<and> outcome (f x) = Inr y)"
  by (auto split: sum.splits)

lemma points_and_then [point_simps]:
  "points (and_then c f) =
     points c @ (case outcome c of Inl e \<Rightarrow> [] | Inr x \<Rightarrow> points (f x))"
  by (cases c; cases "outcome c") auto

lemma outcome_or_err [comp_simps, simp]:
  "outcome (or_err x e) = (case x of None \<Rightarrow> Inl e | Some v \<Rightarrow> Inr v)"
  by (cases x) (simp_all add: or_err_def)

lemma points_or_err [point_simps, simp]: "points (or_err x e) = []"
  by (cases x) (simp_all add: or_err_def)

lemma outcome_guard_err [comp_simps, simp]:
  "outcome (guard_err b e) = (if b then Inl e else Inr ())"
  by (simp add: guard_err_def)

lemma points_guard_err [point_simps, simp]: "points (guard_err b e) = []"
  by (simp add: guard_err_def)

lemma outcome_map_err [comp_simps, simp]: "outcome (map_err g c) = map_sum g id (outcome c)"
  by (simp add: map_err_def)

lemma points_map_err [point_simps, simp]: "points (map_err g c) = map g (points c)"
  by (simp add: map_err_def)

text \<open>Sequencing in the model is sequencing against the host: the second computation is asked
  the questions that follow those of the first.\<close>

lemma interruption_append:
  "interruption h (es @ fs) =
     (case interruption h es of Some e \<Rightarrow> Some e
      | None \<Rightarrow> interruption (\<lambda>n. h (n + length es)) fs)"
proof (induction h es rule: interruption.induct)
  case (2 h e es)
  have "(\<lambda>n. h (n + length (e # es))) = (\<lambda>n. h (Suc (n + length es)))" by simp
  with 2 show ?case by (simp split: option.splits)
qed simp

lemma exec_and_then:
  "exec h (and_then c f) =
     (case exec h c of Inl e \<Rightarrow> Inl e
      | Inr x \<Rightarrow> exec (\<lambda>n. h (n + length (points c))) (f x))"
  by (cases "outcome c") (auto simp: exec_def points_and_then interruption_append split: option.splits)

lemma interruption_in: "interruption h es = Some e \<Longrightarrow> e \<in> set es"
  by (induction h es rule: interruption.induct) (auto split: if_splits)

text \<open>Whatever the host answers, a computation ends in its undisturbed outcome or with the
  error of one of its interruption points.\<close>

lemma exec_cases: "exec h c = outcome c \<or> (\<exists>e \<in> set (points c). exec h c = Inl e)"
  by (auto simp: exec_def split: option.splits dest: interruption_in)

lemma exec_Inr: "exec h c = Inr x \<Longrightarrow> outcome c = Inr x"
  using exec_cases [of h c] by auto

lemma exec_quiet: "exec (\<lambda>_. False) c = outcome c"
proof -
  have "interruption (\<lambda>_. False) es = None" for es :: "'a list"
    by (induction es) auto
  then show ?thesis by (simp add: exec_def)
qed

lemma exec_stop: "exec (\<lambda>_. True) c = (case points c of [] \<Rightarrow> outcome c | e # _ \<Rightarrow> Inl e)"
  by (cases "points c") (simp_all add: exec_def)

lemma outcome_for_each_append:
  "outcome (for_each f s (xs @ ys)) =
     (case outcome (for_each f s xs) of Inl e \<Rightarrow> Inl e | Inr t \<Rightarrow> outcome (for_each f t ys))"
  by (induction xs arbitrary: s) (auto split: sum.splits)

lemma points_for_each:
  assumes "\<And>s x. set (points (f s x)) \<subseteq> E"
  shows "set (points (for_each f s xs)) \<subseteq> E"
  using assms by (induction xs arbitrary: s) (auto simp: point_simps split: sum.splits)

lemma points_and_then_subset:
  assumes "set (points c) \<subseteq> E" and "\<And>x. set (points (f x)) \<subseteq> E"
  shows "set (points (and_then c f)) \<subseteq> E"
  using assms by (auto simp: point_simps split: sum.splits)

subsection \<open>Arithmetic and slices\<close>

lemma checked_add_usize_Some [simp]:
  "checked_add_usize a b = Some c \<longleftrightarrow> a + b < usize_limit \<and> c = a + b"
  by (auto simp: checked_add_usize_def)

lemma checked_add_usize_None [simp]: "checked_add_usize a b = None \<longleftrightarrow> usize_limit \<le> a + b"
  by (auto simp: checked_add_usize_def)

lemma checked_add_u32_Some:
  "checked_add_u32 a b = Some c \<longleftrightarrow> unat c = unat a + unat b"
proof
  assume "checked_add_u32 a b = Some c"
  then show "unat c = unat a + unat b"
    by (auto simp: checked_add_u32_def unat_word_ariths split: if_splits)
next
  assume c: "unat c = unat a + unat b"
  with unsigned_less [of c, where 'a = nat] have "unat a + unat b < 2 ^ 32" by simp
  moreover from this c have "c = a + b"
    by (simp add: word_unat_eq_iff unat_word_ariths)
  ultimately show "checked_add_u32 a b = Some c"
    by (simp add: checked_add_u32_def)
qed

lemma u32_bound: "unat (w :: u32) < 4294967296"
  using unsigned_less [of w, where 'a = nat] by simp

lemma u64_bound: "unat (w :: u64) < 18446744073709551616"
  using unsigned_less [of w, where 'a = nat] by simp

lemma unat_of_nat_u32: "n < 2 ^ 32 \<Longrightarrow> unat (word_of_nat n :: u32) = n"
  by (simp add: unsigned_of_nat take_bit_nat_eq_self)

lemma unat_of_nat_u64: "n < 2 ^ 64 \<Longrightarrow> unat (word_of_nat n :: u64) = n"
  by (simp add: unsigned_of_nat take_bit_nat_eq_self)

lemma u32_below_usize [simp]: "unat (w :: u32) < usize_limit"
  using u32_bound [of w] by (simp add: usize_limit_def)

lemma u32_try_from_unat [simp]: "u32_try_from (unat w) = Some w"
  using u32_bound [of w] by (simp add: u32_try_from_def)

lemma u32_try_from_Some: "u32_try_from n = Some w \<longleftrightarrow> n = unat w"
  using u32_bound [of w] by (auto simp: u32_try_from_def unat_of_nat take_bit_nat_eq_self)

lemma unat_u64_of_u32 [simp]: "unat (u64_of_u32 w) = unat w"
proof -
  have "unat w < 2 ^ 64" using u32_bound [of w] by simp
  then show ?thesis by (simp add: u64_of_u32_def unsigned_ucast_eq take_bit_nat_eq_self)
qed

lemma bounded_add_Some:
  "bounded_add t n limit = Some s \<longleftrightarrow> unat s = unat t + n \<and> unat s \<le> unat limit"
proof
  assume "bounded_add t n limit = Some s"
  then have n: "n < 2 ^ 64" "unat t + n < 2 ^ 64" "s = t + word_of_nat n" "s \<le> limit"
    by (auto simp: bounded_add_def u64_try_from_def checked_add_u64_def unat_of_nat_u64
        split: option.splits if_splits)
  then have "unat s = unat t + n" by (simp add: unat_word_ariths unat_of_nat_u64)
  with n(4) show "unat s = unat t + n \<and> unat s \<le> unat limit" by (simp add: word_le_nat_alt)
next
  assume a: "unat s = unat t + n \<and> unat s \<le> unat limit"
  have "unat t + n < 2 ^ 64" using a u64_bound [of s] by simp
  moreover from this have "n < 2 ^ 64" by simp
  moreover have "t + word_of_nat n = s"
    using a calculation by (simp add: word_unat_eq_iff unat_word_ariths unat_of_nat_u64)
  ultimately show "bounded_add t n limit = Some s"
    using a by (simp add: bounded_add_def u64_try_from_def checked_add_u64_def unat_of_nat_u64
        word_le_nat_alt)
qed

lemma bounded_add_None: "bounded_add t n limit = None \<longleftrightarrow> unat limit < unat t + n"
proof
  assume none: "bounded_add t n limit = None"
  show "unat limit < unat t + n"
  proof (rule ccontr)
    assume le: "\<not> unat limit < unat t + n"
    then have "unat (word_of_nat (unat t + n) :: u64) = unat t + n"
      using u64_bound [of limit] by (intro unat_of_nat_u64) simp
    with le have "bounded_add t n limit = Some (word_of_nat (unat t + n))"
      by (subst bounded_add_Some) simp
    with none show False by simp
  qed
next
  assume "unat limit < unat t + n"
  then show "bounded_add t n limit = None"
    by (cases "bounded_add t n limit") (simp_all add: bounded_add_Some)
qed

lemma slice_get_Some:
  "slice_get xs a b = Some ys \<longleftrightarrow> a \<le> b \<and> b \<le> length xs \<and> ys = take (b - a) (drop a xs)"
  by (auto simp: slice_get_def)

lemma length_str [simp]: "length (str s) = length s"
  by (simp add: str_def)

subsection \<open>Chunks\<close>

lemma chunks_Nil [simp]: "chunks n [] = []"
  by (simp add: chunks.simps)

lemma chunks_step: "0 < n \<Longrightarrow> xs \<noteq> [] \<Longrightarrow> chunks n xs = take n xs # chunks n (drop n xs)"
  by (simp add: chunks.simps [of n xs])

lemma concat_chunks: "0 < n \<Longrightarrow> concat (chunks n xs) = xs"
proof (induction n xs rule: chunks.induct)
  case (1 n xs)
  then show ?case by (cases "xs = []") (auto simp: chunks_step)
qed

lemma length_chunks: "0 < n \<Longrightarrow> length (chunks n xs) = (length xs + n - 1) div n"
proof (induction n xs rule: chunks.induct)
  case (1 n xs)
  show ?case
  proof (cases "xs = []")
    case True
    with "1.prems" show ?thesis by simp
  next
    case False
    with "1.prems" have step: "length (chunks n xs) = Suc (length (chunks n (drop n xs)))"
      by (simp add: chunks_step)
    also have "\<dots> = Suc ((length xs - n + n - 1) div n)"
      using "1.IH" "1.prems" False by simp
    also have "\<dots> = (length xs + n - 1) div n"
    proof (cases "length xs \<le> n")
      case True
      have "(length xs + n - 1) div n = 1"
        using True False "1.prems" by (intro div_nat_eqI) (auto simp: Suc_le_eq neq_Nil_conv)
      with True "1.prems" show ?thesis by simp
    next
      case c: False
      then have "length xs + n - 1 = (length xs - n + n - 1) + n" by simp
      with "1.prems" show ?thesis by (metis Suc_eq_plus1 div_add_self2 neq0_conv)
    qed
    finally show ?thesis .
  qed
qed

lemma chunks_length_le: "c \<in> set (chunks n xs) \<Longrightarrow> length c \<le> n"
proof (induction n xs rule: chunks.induct)
  case (1 n xs)
  then show ?case by (cases "n = 0 \<or> xs = []") (auto simp: chunks.simps [of n xs])
qed

subsection \<open>The little-endian layout is a bijection\<close>

lemma length_to_le_bytes [simp]: "length (to_le_bytes n w) = n"
  by (induction n arbitrary: w) auto

lemma from_to_le_bytes: "from_le_bytes (to_le_bytes n w) = take_bit (8 * n) w"
proof (induction n arbitrary: w)
  case 0
  show ?case by simp
next
  case (Suc n)
  have "ucast (ucast w :: u8) OR push_bit 8 (take_bit (8 * n) (drop_bit 8 w)) =
        take_bit (8 * Suc n) w"
    by (rule bit_eqI)
      (auto simp: bit_simps; metis add.commute add_diff_inverse_nat bit_imp_le_length not_le)
  with Suc show ?case by simp
qed

lemma to_from_le_bytes:
  "8 * length bs \<le> LENGTH('a::len) \<Longrightarrow> to_le_bytes (length bs) (from_le_bytes bs :: 'a word) = bs"
proof (induction bs)
  case Nil
  show ?case by simp
next
  case (Cons b bs)
  let ?r = "from_le_bytes bs :: 'a word"
  have bound: "take_bit (LENGTH('a) - 8) ?r = ?r"
  proof -
    have "to_le_bytes (length bs) ?r = bs" using Cons by simp
    then have "?r = take_bit (8 * length bs) ?r"
      by (metis from_to_le_bytes)
    moreover have "8 * length bs \<le> LENGTH('a) - 8" using Cons.prems by simp
    ultimately show ?thesis
      by (metis min.absorb2 take_bit_take_bit min.commute)
  qed
  have low: "ucast (ucast b OR push_bit 8 ?r :: 'a word) = b"
    using Cons.prems by (intro bit_eqI) (auto simp: bit_simps)
  have high: "drop_bit 8 (ucast b OR push_bit 8 ?r :: 'a word) = ?r"
  proof (rule bit_eqI)
    fix i
    have "bit ?r i \<Longrightarrow> i < LENGTH('a) - 8"
      using bound by (metis bit_take_bit_iff)
    moreover have "\<not> bit b (8 + i)" by (simp add: bit_word.rep_eq impossible_bit)
    ultimately show "bit (drop_bit 8 (ucast b OR push_bit 8 ?r :: 'a word)) i = bit ?r i"
      by (auto simp: bit_simps)
  qed
  show ?case using Cons low high by simp
qed

lemma le_bytes_32:
  "from_le_bytes (to_le_bytes 4 (w :: u32)) = w"
  "length bs = 4 \<Longrightarrow> to_le_bytes 4 (from_le_bytes bs :: u32) = bs"
  using from_to_le_bytes [of 4 w] to_from_le_bytes [of bs, where 'a = 32]
  by (simp_all add: take_bit_word_eq_self)

lemma le_bytes_64:
  "from_le_bytes (to_le_bytes 8 (w :: u64)) = w"
  "length bs = 8 \<Longrightarrow> to_le_bytes 8 (from_le_bytes bs :: u64) = bs"
  using from_to_le_bytes [of 8 w] to_from_le_bytes [of bs, where 'a = 64]
  by (simp_all add: take_bit_word_eq_self)

lemma to_le_bytes_unfold:
  "to_le_bytes 4 w = [ucast w, ucast (drop_bit 8 w), ucast (drop_bit 16 w), ucast (drop_bit 24 w)]"
  "to_le_bytes 8 w = [ucast w, ucast (drop_bit 8 w), ucast (drop_bit 16 w), ucast (drop_bit 24 w),
     ucast (drop_bit 32 w), ucast (drop_bit 40 w), ucast (drop_bit 48 w), ucast (drop_bit 56 w)]"
proof -
  have n: "(4 :: nat) = Suc (Suc (Suc (Suc 0)))"
    "(8 :: nat) = Suc (Suc (Suc (Suc (Suc (Suc (Suc (Suc 0)))))))" by simp_all
  show "to_le_bytes 4 w = [ucast w, ucast (drop_bit 8 w), ucast (drop_bit 16 w), ucast (drop_bit 24 w)]"
    by (subst n(1)) (simp add: drop_bit_drop_bit)
  show "to_le_bytes 8 w = [ucast w, ucast (drop_bit 8 w), ucast (drop_bit 16 w), ucast (drop_bit 24 w),
     ucast (drop_bit 32 w), ucast (drop_bit 40 w), ucast (drop_bit 48 w), ucast (drop_bit 56 w)]"
    by (subst n(2)) (simp only: to_le_bytes.simps drop_bit_drop_bit, simp)
qed

end
