(* ===== verification/Utf8.thy ===== *)
theory Utf8
  imports Wrela_Prelude
begin

text \<open>
  The part of Rust's \<open>str\<close> that the sources rely on: validation by
  \<open>std::str::from_utf8\<close> (the well-formed byte sequences of the Unicode standard, which
  exclude overlong forms, surrogates and code points above \<open>0x10FFFF\<close>), \<open>char_indices\<close>,
  \<open>is_char_boundary\<close>, and the two fixed character classes \<open>char::is_whitespace\<close> and
  \<open>char::is_control\<close>. The lemmas are about cutting a text at a character boundary.
\<close>

subsection \<open>Definitions\<close>

definition byte_in :: "u8 \<Rightarrow> u8 \<Rightarrow> u8 \<Rightarrow> bool" where
  "byte_in lo hi b \<longleftrightarrow> lo \<le> b \<and> b \<le> hi"

definition is_continuation :: "u8 \<Rightarrow> bool" where
  "is_continuation b \<longleftrightarrow> byte_in 0x80 0xBF b"

definition second_of_three :: "u8 \<Rightarrow> u8 \<Rightarrow> bool" where
  "second_of_three a b \<longleftrightarrow>
     (if a = 0xE0 then byte_in 0xA0 0xBF b
      else if a = 0xED then byte_in 0x80 0x9F b
      else is_continuation b)"

definition second_of_four :: "u8 \<Rightarrow> u8 \<Rightarrow> bool" where
  "second_of_four a b \<longleftrightarrow>
     (if a = 0xF0 then byte_in 0x90 0xBF b
      else if a = 0xF4 then byte_in 0x80 0x8F b
      else is_continuation b)"

text \<open>The first character of a text and what follows it.\<close>

fun utf8_step :: "u8 list \<Rightarrow> (nat \<times> u8 list) option" where
  "utf8_step [] = None"
| "utf8_step (a # bs) =
     (if a < 0x80 then Some (unat a, bs)
      else if byte_in 0xC2 0xDF a then
        (case bs of
           b # r \<Rightarrow> if is_continuation b
             then Some ((unat a - 0xC0) * 64 + (unat b - 0x80), r) else None
         | _ \<Rightarrow> None)
      else if byte_in 0xE0 0xEF a then
        (case bs of
           b # c # r \<Rightarrow> if second_of_three a b \<and> is_continuation c
             then Some (((unat a - 0xE0) * 64 + (unat b - 0x80)) * 64 + (unat c - 0x80), r)
             else None
         | _ \<Rightarrow> None)
      else if byte_in 0xF0 0xF4 a then
        (case bs of
           b # c # d # r \<Rightarrow> if second_of_four a b \<and> is_continuation c \<and> is_continuation d
             then Some ((((unat a - 0xF0) * 64 + (unat b - 0x80)) * 64 + (unat c - 0x80)) * 64
                        + (unat d - 0x80), r)
             else None
         | _ \<Rightarrow> None)
      else None)"

lemma utf8_step_shorter: "utf8_step bs = Some (c, r) \<Longrightarrow> length r < length bs"
  by (cases bs) (auto split: if_splits list.splits)

function valid_utf8 :: "u8 list \<Rightarrow> bool" where
  "valid_utf8 bs =
     (bs = [] \<or> (case utf8_step bs of None \<Rightarrow> False | Some (c, r) \<Rightarrow> valid_utf8 r))"
  by pat_completeness auto
termination
  by (relation "measure length") (auto dest: utf8_step_shorter)

text \<open>\<open>char_indices\<close>: each character with the byte offset it starts at.\<close>

function char_indices :: "nat \<Rightarrow> u8 list \<Rightarrow> (nat \<times> nat) list" where
  "char_indices i bs =
     (case utf8_step bs of None \<Rightarrow> []
      | Some (c, r) \<Rightarrow> (i, c) # char_indices (i + (length bs - length r)) r)"
  by pat_completeness auto
termination
  by (relation "measure (\<lambda>(i, bs). length bs)") (auto dest: utf8_step_shorter)

declare valid_utf8.simps [simp del] char_indices.simps [simp del]

definition utf8_chars :: "u8 list \<Rightarrow> nat list" where
  "utf8_chars bs = map snd (char_indices 0 bs)"

definition is_char_boundary :: "u8 list \<Rightarrow> nat \<Rightarrow> bool" where
  "is_char_boundary bs i \<longleftrightarrow>
     i = 0 \<or> i = length bs \<or> (i < length bs \<and> \<not> is_continuation (bs ! i))"

definition char_is_whitespace :: "nat \<Rightarrow> bool" where
  "char_is_whitespace c \<longleftrightarrow>
     (9 \<le> c \<and> c \<le> 13) \<or> c = 0x20 \<or> c = 0x85 \<or> c = 0xA0 \<or> c = 0x1680 \<or>
     (0x2000 \<le> c \<and> c \<le> 0x200A) \<or> c = 0x2028 \<or> c = 0x2029 \<or> c = 0x202F \<or> c = 0x205F \<or> c = 0x3000"

definition char_is_control :: "nat \<Rightarrow> bool" where
  "char_is_control c \<longleftrightarrow> c \<le> 0x1F \<or> (0x7F \<le> c \<and> c \<le> 0x9F)"

subsection \<open>Continuation bytes\<close>

lemma is_continuation_unat: "is_continuation b \<longleftrightarrow> 128 \<le> unat b \<and> unat b < 192"
  by (auto simp: is_continuation_def byte_in_def word_le_nat_alt)

text \<open>The mask test used by the sources is membership in \<open>0x80 .. 0xBF\<close>.\<close>

lemma continuation_mask: "b AND 0xC0 = 0x80 \<longleftrightarrow> is_continuation b"
proof -
  have "b AND 0xC0 = push_bit 6 (drop_bit 6 b)"
  proof (rule bit_word_eqI)
    fix n assume "n < LENGTH(8)"
    then have "n \<in> {0, 1, 2, 3, 4, 5, 6, 7}" by auto
    then show "bit (b AND 0xC0) n = bit (push_bit 6 (drop_bit 6 b)) n"
      by (auto simp: bit_simps)
  qed
  moreover have "push_bit 6 (drop_bit 6 b) = 0x80 \<longleftrightarrow> unat (drop_bit 6 b) = 2"
  proof -
    have d: "unat (drop_bit 6 b) < 4"
      using unsigned_less [of b, where 'a = nat] by (simp add: unat_drop_bit_eq drop_bit_nat_def)
    have "unat (push_bit 6 (drop_bit 6 b)) = unat (drop_bit 6 b) * 64"
      using d by (simp add: push_bit_eq_mult unat_word_ariths)
    moreover have "push_bit 6 (drop_bit 6 b) = 0x80 \<longleftrightarrow> unat (push_bit 6 (drop_bit 6 b)) = 128"
      by (simp add: word_unat_eq_iff)
    ultimately show ?thesis by auto
  qed
  moreover have "unat (drop_bit 6 b) = 2 \<longleftrightarrow> 128 \<le> unat b \<and> unat b < 192"
    by (simp add: unat_drop_bit_eq drop_bit_nat_def) arith
  ultimately show ?thesis by (simp add: is_continuation_unat)
qed

lemma second_continuation:
  "second_of_three a b \<Longrightarrow> is_continuation b"
  "second_of_four a b \<Longrightarrow> is_continuation b"
  by (auto simp: second_of_three_def second_of_four_def is_continuation_unat byte_in_def
      word_le_nat_alt split: if_splits)

lemma lead_not_continuation:
  "a < 0x80 \<Longrightarrow> \<not> is_continuation a"
  "byte_in 0xC2 0xDF a \<Longrightarrow> \<not> is_continuation a"
  "byte_in 0xE0 0xEF a \<Longrightarrow> \<not> is_continuation a"
  "byte_in 0xF0 0xF4 a \<Longrightarrow> \<not> is_continuation a"
  by (auto simp: is_continuation_unat byte_in_def word_le_nat_alt word_less_nat_alt)

subsection \<open>One character\<close>

lemma utf8_step_lead: "utf8_step (a # bs) = Some (c, r) \<Longrightarrow> \<not> is_continuation a"
  by (auto simp: lead_not_continuation split: if_splits)

lemma utf8_step_append:
  "utf8_step bs = Some (c, r) \<Longrightarrow> utf8_step (bs @ ys) = Some (c, r @ ys)"
  by (cases bs) (auto split: if_splits list.splits)

text \<open>Before a byte that starts a character (or the end), a character is complete.\<close>

lemma utf8_step_cut:
  assumes "utf8_step (xs @ ys) = Some (c, r)" and "xs \<noteq> []"
    and "ys = [] \<or> \<not> is_continuation (hd ys)"
  shows "\<exists>r'. r = r' @ ys \<and> utf8_step xs = Some (c, r')"
proof -
  obtain a bs where xs: "xs = a # bs" using assms(2) by (cases xs) auto
  show ?thesis
  proof (cases ys)
    case Nil
    with assms(1) show ?thesis by simp
  next
    case (Cons y zs)
    with assms(3) have "\<not> is_continuation y" by simp
    with assms(1) xs Cons show ?thesis
      by (cases bs; cases "tl bs"; cases "tl (tl bs)")
        (auto split: if_splits list.splits dest: second_continuation)
  qed
qed

subsection \<open>Whole texts\<close>

lemma valid_utf8_Nil [simp]: "valid_utf8 []"
  by (simp add: valid_utf8.simps)

lemma valid_utf8_step:
  "bs \<noteq> [] \<Longrightarrow>
   valid_utf8 bs = (case utf8_step bs of None \<Rightarrow> False | Some (c, r) \<Rightarrow> valid_utf8 r)"
  by (subst valid_utf8.simps) simp

lemma valid_utf8_append: "valid_utf8 xs \<Longrightarrow> valid_utf8 (xs @ ys) = valid_utf8 ys"
proof (induction xs rule: valid_utf8.induct)
  case (1 xs)
  show ?case
  proof (cases "xs = []")
    case False
    with "1.prems" obtain c r where step: "utf8_step xs = Some (c, r)" and r: "valid_utf8 r"
      by (auto simp: valid_utf8_step split: option.splits)
    with "1.IH" False have "valid_utf8 (r @ ys) = valid_utf8 ys" by simp
    moreover have "valid_utf8 (xs @ ys) = valid_utf8 (r @ ys)"
      using False utf8_step_append [OF step] by (simp add: valid_utf8_step)
    ultimately show ?thesis by simp
  qed simp
qed

lemma valid_utf8_cut:
  "valid_utf8 (xs @ ys) \<Longrightarrow> ys = [] \<or> \<not> is_continuation (hd ys) \<Longrightarrow> valid_utf8 xs"
proof (induction xs rule: valid_utf8.induct)
  case (1 xs)
  show ?case
  proof (cases "xs = []")
    case False
    with "1.prems"(1) obtain c r where step: "utf8_step (xs @ ys) = Some (c, r)"
      and r: "valid_utf8 r"
      by (auto simp: valid_utf8_step split: option.splits)
    from utf8_step_cut [OF step False "1.prems"(2)] obtain r' where
      "r = r' @ ys" and "utf8_step xs = Some (c, r')" by blast
    with "1.IH" "1.prems"(2) False r show ?thesis by (simp add: valid_utf8_step)
  qed simp
qed

lemma valid_utf8_boundary:
  assumes "ys = [] \<or> \<not> is_continuation (hd ys)"
  shows "valid_utf8 (xs @ ys) \<longleftrightarrow> valid_utf8 xs \<and> valid_utf8 ys"
  using assms valid_utf8_append valid_utf8_cut by metis

lemma valid_utf8_hd: "valid_utf8 bs \<Longrightarrow> bs \<noteq> [] \<Longrightarrow> \<not> is_continuation (hd bs)"
  by (cases bs)
    (auto simp: valid_utf8_step simp del: utf8_step.simps dest: utf8_step_lead split: option.splits)

lemma valid_utf8_ascii: "\<forall>b \<in> set bs. b < 0x80 \<Longrightarrow> valid_utf8 bs"
  by (induction bs) (auto simp: valid_utf8_step)

lemma str_ascii: "\<forall>c \<in> set s. of_char c < (128::nat) \<Longrightarrow> \<forall>b \<in> set (str s). b < 0x80"
proof
  fix b assume s: "\<forall>c \<in> set s. of_char c < (128::nat)" and "b \<in> set (str s)"
  then obtain c where c: "c \<in> set s" and b: "b = of_char c" by (auto simp: str_def)
  have "(of_char c :: u8) = word_of_nat (of_char c)" by (simp add: of_char_def of_nat_of_char)
  with s c b show "b < 0x80"
    by (simp add: word_less_nat_alt unsigned_of_nat take_bit_nat_eq_self)
qed

lemma valid_utf8_str: "\<forall>c \<in> set s. of_char c < (128::nat) \<Longrightarrow> valid_utf8 (str s)"
  by (rule valid_utf8_ascii [OF str_ascii])

lemma utf8_chars_d: "utf8_chars [0x64] = [0x64]"
proof -
  have "(0x64 :: u8) < 0x80" by simp
  then have "utf8_step [0x64] = Some (unat (0x64 :: u8), [])" by (simp only: utf8_step.simps if_True)
  then show ?thesis
    by (simp add: utf8_chars_def char_indices.simps [of 0 "[0x64]"] char_indices.simps [of _ "[]"])
qed

declare utf8_step.simps(2) [simp del]

end
