(* ===== verification/Source.thy ===== *)
theory Source
  imports Utf8 "HOL-Library.List_Lexorder"
begin

text \<open>
  \<open>crates/wrela-source\<close>: source files with stable dense identities, validated ranges, the
  line index and the canonical source database. Unicode normalisation is the third-party
  crate \<open>unicode_normalization\<close>; it is the parameter \<open>nfc\<close> (on sequences of code points) of
  the definitions that call it.
\<close>

subsection \<open>Definitions\<close>

type_synonym file_id = u32
type_synonym sha256_digest = "u8 list"

definition max_source_path_bytes :: nat where
  "max_source_path_bytes = 4096"

record text_range =
  start :: u32
  range_end :: u32

record span =
  span_file :: file_id
  span_range :: text_range

record source_position =
  line :: u32
  byte_column :: u32

datatype source_error =
    InvalidRange u32 u32
  | InvalidPath string
  | PortablePathCollision text_bytes
  | NonCanonicalPathOrder text_bytes text_bytes
  | FileTooLarge nat
  | TooManyFiles
  | TooManyLines
  | ResourceExhausted string

definition text_range_new :: "u32 \<Rightarrow> u32 \<Rightarrow> source_error + text_range" where
  "text_range_new s e =
     (if s > e then Inl (InvalidRange s e) else Inr \<lparr>start = s, range_end = e\<rparr>)"

record source_file =
  ident :: file_id
  path :: text_bytes
  source_text :: text_bytes
  digest :: sha256_digest
  line_starts :: "u32 list"

record source_database =
  files :: "source_file list"
  portable_paths :: "text_bytes set"

record source_input =
  input_path :: text_bytes
  input_text :: text_bytes
  input_digest :: sha256_digest

definition empty_database :: source_database where
  "empty_database = \<lparr>files = [], portable_paths = {}\<rparr>"

definition full_span :: "source_file \<Rightarrow> span" where
  "full_span f =
     \<lparr>span_file = ident f, span_range = \<lparr>start = 0, range_end = word_of_nat (length (source_text f))\<rparr>\<rparr>"

text \<open>\<open>slice\<close> indexes the text with \<open>start..end\<close> once both ends are in range and on
  character boundaries; Rust panics there when \<open>start\<close> exceeds \<open>end\<close>, which
  \<open>Inl ()\<close> records.\<close>

definition slice :: "source_file \<Rightarrow> text_range \<Rightarrow> unit + text_bytes option" where
  "slice f r =
     (let s = unat (start r); e = unat (range_end r); t = source_text f in
      if e \<le> length t \<and> is_char_boundary t s \<and> is_char_boundary t e
      then (case slice_get t s e of None \<Rightarrow> Inl () | Some v \<Rightarrow> Inr (Some v))
      else Inr None)"

definition partition_point :: "('a \<Rightarrow> bool) \<Rightarrow> 'a list \<Rightarrow> nat" where
  "partition_point p xs = length (takeWhile p xs)"

definition position :: "source_file \<Rightarrow> u32 \<Rightarrow> source_position option" where
  "position f offset =
     (if unat offset > length (source_text f) \<or> \<not> is_char_boundary (source_text f) (unat offset)
      then None
      else let line_index = partition_point (\<lambda>s. s \<le> offset) (line_starts f) - 1 in
        Some \<lparr>line = word_of_nat (line_index + 1),
              byte_column = offset - line_starts f ! line_index + 1\<rparr>)"

fun split_on :: "'a \<Rightarrow> 'a list \<Rightarrow> 'a list list" where
  "split_on c [] = [[]]"
| "split_on c (x # xs) =
     (if x = c then [] # split_on c xs
      else (case split_on c xs of [] \<Rightarrow> [[x]] | y # ys \<Rightarrow> (x # y) # ys))"

definition bad_component :: "text_bytes \<Rightarrow> bool" where
  "bad_component c \<longleftrightarrow> c = [] \<or> c = str ''.'' \<or> c = str ''..''"

definition validate_source_path ::
  "(nat list \<Rightarrow> nat list) \<Rightarrow> text_bytes \<Rightarrow> source_error + unit" where
  "validate_source_path nfc v =
     (if v = [] then Inl (InvalidPath ''path is empty'')
      else if length v > max_source_path_bytes
      then Inl (InvalidPath ''path exceeds 4096 UTF-8 bytes'')
      else if nfc (utf8_chars v) \<noteq> utf8_chars v
      then Inl (InvalidPath ''path is not in Unicode NFC'')
      else if take 1 v = str ''/'' \<or> take 1 v = [0x5C]
        \<or> (\<exists>c \<in> set (utf8_chars v). c = 0 \<or> c = 0x5C \<or> c = 0x3A \<or> char_is_control c)
        \<or> (\<exists>c \<in> set (split_on 0x2F v). bad_component c)
      then Inl (InvalidPath ''path must be a portable canonical relative UTF-8 path'')
      else Inr ())"

definition ascii_lowercase_byte :: "u8 \<Rightarrow> u8" where
  "ascii_lowercase_byte b = (if byte_in 0x41 0x5A b then b + 0x20 else b)"

definition to_ascii_lowercase :: "text_bytes \<Rightarrow> text_bytes" where
  "to_ascii_lowercase = map ascii_lowercase_byte"

fun line_starts_from :: "nat \<Rightarrow> nat \<Rightarrow> text_bytes \<Rightarrow> u32 list" where
  "line_starts_from len i [] = []"
| "line_starts_from len i (b # bs) =
     (if b = 0x0A \<and> i + 1 \<le> len then word_of_nat (i + 1) # line_starts_from len (i + 1) bs
      else line_starts_from len (i + 1) bs)"

definition add_source ::
  "(nat list \<Rightarrow> nat list) \<Rightarrow> source_database \<Rightarrow> source_input
    \<Rightarrow> (source_error, source_database \<times> file_id) comp" where
  "add_source nfc db inp =
     (let p = input_path inp; t = input_text inp in
      and_then (lift_result (validate_source_path nfc p)) (\<lambda>_.
      and_then (ask (ResourceExhausted ''portable source path'')) (\<lambda>_.
      let portable_path = to_ascii_lowercase p in
      and_then (guard_err (portable_path \<in> portable_paths db) (PortablePathCollision p)) (\<lambda>_.
      and_then (guard_err (files db \<noteq> [] \<and> path (last (files db)) \<ge> p)
                 (NonCanonicalPathOrder (path (last (files db))) p)) (\<lambda>_.
      and_then (or_err (u32_try_from (length t)) (FileTooLarge (length t))) (\<lambda>len.
      and_then (or_err (u32_try_from (length (files db))) TooManyFiles) (\<lambda>i.
      and_then (or_err (checked_add_usize (length (filter (\<lambda>b. b = 0x0A) t)) 1) TooManyLines)
        (\<lambda>line_start_count.
      and_then (guard_err (line_start_count > 4294967295) TooManyLines) (\<lambda>_.
      and_then (ask (ResourceExhausted ''source line index'')) (\<lambda>_.
      and_then (ask (ResourceExhausted ''source file table'')) (\<lambda>_.
      ok (\<lparr>files = files db @ [\<lparr>ident = i, path = p, source_text = t, digest = input_digest inp,
                                line_starts = 0 # line_starts_from (unat len) 0 t\<rparr>],
           portable_paths = insert portable_path (portable_paths db)\<rparr>, i))))))))))))"

definition get_file :: "source_database \<Rightarrow> file_id \<Rightarrow> source_file option" where
  "get_file db i = list_get (files db) (unat i)"

definition span_text :: "source_database \<Rightarrow> span \<Rightarrow> unit + text_bytes option" where
  "span_text db sp =
     (case get_file db (span_file sp) of None \<Rightarrow> Inr None | Some f \<Rightarrow> slice f (span_range sp))"

text \<open>What the database promises: dense identities in insertion order, paths valid and strictly
  ordered, no two paths equal up to ASCII case, and an exact line index.\<close>

definition good_file :: "(nat list \<Rightarrow> nat list) \<Rightarrow> nat \<Rightarrow> source_file \<Rightarrow> bool" where
  "good_file nfc i f \<longleftrightarrow>
     unat (ident f) = i \<and> validate_source_path nfc (path f) = Inr () \<and>
     length (source_text f) < 2 ^ 32 \<and>
     line_starts f = 0 # line_starts_from (length (source_text f)) 0 (source_text f) \<and>
     length (line_starts f) < 2 ^ 32"

definition good_database :: "(nat list \<Rightarrow> nat list) \<Rightarrow> source_database \<Rightarrow> bool" where
  "good_database nfc db \<longleftrightarrow>
     (\<forall>i < length (files db). good_file nfc i (files db ! i)) \<and>
     sorted_wrt (<) (map path (files db)) \<and>
     portable_paths db = (to_ascii_lowercase \<circ> path) ` set (files db) \<and>
     distinct (map (to_ascii_lowercase \<circ> path) (files db))"

subsection \<open>Adding a file\<close>

lemma add_source_Inr:
  assumes "outcome (add_source nfc db inp) = Inr (db', i)"
  shows "validate_source_path nfc (input_path inp) = Inr ()"
    and "to_ascii_lowercase (input_path inp) \<notin> portable_paths db"
    and "files db = [] \<or> path (last (files db)) < input_path inp"
    and "length (input_text inp) < 2 ^ 32"
    and "unat i = length (files db)"
    and "files db' = files db @ [\<lparr>ident = i, path = input_path inp, source_text = input_text inp,
           digest = input_digest inp,
           line_starts = 0 # line_starts_from (length (input_text inp)) 0 (input_text inp)\<rparr>]"
    and "portable_paths db' = insert (to_ascii_lowercase (input_path inp)) (portable_paths db)"
    and "Suc (length (filter (\<lambda>b. b = 0x0A) (input_text inp))) < 2 ^ 32"
  using assms
  by (auto simp: add_source_def Let_def u32_try_from_Some u32_bound
      split: sum.splits if_splits option.splits)

lemma length_line_starts_from:
  "i + length bs \<le> len \<Longrightarrow>
   length (line_starts_from len i bs) = length (filter (\<lambda>b. b = 0x0A) bs)"
  by (induction len i bs rule: line_starts_from.induct) auto

lemma sorted_wrt_snoc:
  "sorted_wrt (<) (xs @ [x :: 'a::linorder]) \<longleftrightarrow>
     sorted_wrt (<) xs \<and> (xs = [] \<or> last xs < x)"
proof (induction xs)
  case (Cons a xs)
  then show ?case by (cases "xs = []") (auto simp: last_in_set dest: order.strict_trans)
qed simp

lemma good_database_empty: "good_database nfc empty_database"
  by (simp add: good_database_def empty_database_def)

lemma add_source_good:
  assumes good: "good_database nfc db" and add: "outcome (add_source nfc db inp) = Inr (db', i)"
  shows "good_database nfc db'"
proof -
  note a = add_source_Inr [OF add]
  have "\<forall>j < length (files db'). good_file nfc j (files db' ! j)"
    using good a
    by (auto simp: good_database_def good_file_def nth_append less_Suc_eq length_line_starts_from)
  moreover have "sorted_wrt (<) (map path (files db'))"
    using good a by (auto simp: good_database_def sorted_wrt_snoc last_map)
  moreover have "portable_paths db' = (to_ascii_lowercase \<circ> path) ` set (files db')"
    using good a by (simp add: good_database_def)
  moreover have "distinct (map (to_ascii_lowercase \<circ> path) (files db'))"
    using good a by (auto simp: good_database_def)
  ultimately show ?thesis by (simp add: good_database_def)
qed

subsection \<open>The line index\<close>

lemma line_starts_from_map:
  "i + length bs \<le> len \<Longrightarrow>
   line_starts_from len i bs =
     map (\<lambda>j. word_of_nat (i + j + 1)) (filter (\<lambda>j. bs ! j = 0x0A) [0..<length bs])"
proof (induction len i bs rule: line_starts_from.induct)
  case (2 len i b bs)
  have "[0..<length (b # bs)] = 0 # map Suc [0..<length bs]"
    by (metis length_Cons map_Suc_upt upt_conv_Cons zero_less_Suc)
  then have "filter (\<lambda>j. (b # bs) ! j = 0x0A) [0..<length (b # bs)] =
      (if b = 0x0A then [0] else []) @ map Suc (filter (\<lambda>j. bs ! j = 0x0A) [0..<length bs])"
    by (simp add: filter_map comp_def)
  with 2 show ?case by (simp add: comp_def)
qed simp

text \<open>The newlines before an offset, in order.\<close>

definition newlines_before :: "text_bytes \<Rightarrow> nat \<Rightarrow> nat list" where
  "newlines_before t n = filter (\<lambda>j. t ! j = 0x0A) [0..<n]"

lemma takeWhile_filter_upt:
  "n \<le> m \<Longrightarrow> takeWhile (\<lambda>j. j < n) (filter P [0..<m]) = filter P [0..<n]"
proof -
  assume "n \<le> m"
  then have "[0..<m] = [0..<n] @ [n..<m]" by (metis le0 le_add_diff_inverse upt_add_eq_append)
  moreover have "takeWhile (\<lambda>j. j < n) (filter P [n..<m]) = []"
    by (simp add: takeWhile_eq_Nil_iff)
      (metis atLeastLessThan_iff filter_is_subset hd_in_set leD set_upt subsetD)
  ultimately show ?thesis by (simp add: takeWhile_append)
qed

lemma line_starts_before:
  assumes "good_file nfc i f" and "unat offset \<le> length (source_text f)"
  shows "takeWhile (\<lambda>s. s \<le> offset) (line_starts f) =
     0 # map (\<lambda>j. word_of_nat (j + 1)) (newlines_before (source_text f) (unat offset))"
proof -
  let ?t = "source_text f"
  let ?N = "filter (\<lambda>j. ?t ! j = 0x0A) [0..<length ?t]"
  have ls: "line_starts f = 0 # map (\<lambda>j. word_of_nat (j + 1)) ?N"
    using assms(1) by (simp add: good_file_def line_starts_from_map)
  have "takeWhile ((\<lambda>s. s \<le> offset) \<circ> (\<lambda>j. word_of_nat (j + 1))) ?N =
        takeWhile (\<lambda>j. j < unat offset) ?N"
  proof (rule takeWhile_cong)
    fix j assume "j \<in> set ?N"
    then have "j + 1 < 2 ^ 32" using assms(1) by (auto simp: good_file_def)
    from unat_of_nat_u32 [OF this]
    show "((\<lambda>s. s \<le> offset) \<circ> (\<lambda>j. word_of_nat (j + 1))) j = (j < unat offset)"
      by (simp add: word_le_nat_alt Suc_le_eq del: of_nat_Suc)
  qed simp
  then show ?thesis
    using takeWhile_filter_upt [OF assms(2)]
    by (simp add: ls takeWhile_map newlines_before_def)
qed

lemma length_newlines_before:
  "n \<le> length t \<Longrightarrow>
   length (newlines_before t n) = length (filter (\<lambda>b. b = 0x0A) (take n t))"
proof -
  assume "n \<le> length t"
  then have "take n t = map ((!) t) [0..<n]" by (intro nth_equalityI) auto
  then have "filter (\<lambda>b. b = 0x0A) (take n t) = map ((!) t) (newlines_before t n)"
    by (simp add: newlines_before_def filter_map comp_def)
  then show ?thesis by simp
qed

text \<open>Where the line that holds an offset begins.\<close>

definition line_begin :: "text_bytes \<Rightarrow> nat \<Rightarrow> nat" where
  "line_begin t n = (let js = newlines_before t n in if js = [] then 0 else Suc (last js))"

lemma line_begin_spec:
  "line_begin t n \<le> n"
  "line_begin t n = 0 \<or> t ! (line_begin t n - 1) = 0x0A"
  "line_begin t n \<le> k \<Longrightarrow> k < n \<Longrightarrow> t ! k \<noteq> 0x0A"
proof -
  let ?N = "newlines_before t n"
  have mem: "j \<in> set ?N \<longleftrightarrow> j < n \<and> t ! j = 0x0A" for j
    by (auto simp: newlines_before_def)
  have sorted: "j \<le> last ?N" if "j \<in> set ?N" for j
  proof -
    have "sorted ?N" by (simp add: newlines_before_def sorted_wrt_filter)
    with that show ?thesis
      by (cases ?N rule: rev_cases) (auto simp: sorted_append)
  qed
  have last: "?N \<noteq> [] \<Longrightarrow> last ?N < n \<and> t ! last ?N = 0x0A"
    using mem last_in_set by blast
  show "line_begin t n \<le> n" "line_begin t n = 0 \<or> t ! (line_begin t n - 1) = 0x0A"
    using last by (auto simp: line_begin_def Let_def)
  show "t ! k \<noteq> 0x0A" if "line_begin t n \<le> k" "k < n" 
    using that mem [of k] sorted [of k]
    by (auto simp: line_begin_def Let_def split: if_splits)
qed

lemma position_some:
  assumes good: "good_file nfc i f"
    and bound: "unat offset \<le> length (source_text f)"
    and boundary: "is_char_boundary (source_text f) (unat offset)"
  shows "position f offset = Some
     \<lparr>line = word_of_nat (length (filter (\<lambda>b. b = 0x0A) (take (unat offset) (source_text f))) + 1),
      byte_column = offset - word_of_nat (line_begin (source_text f) (unat offset)) + 1\<rparr>"
proof -
  let ?N = "newlines_before (source_text f) (unat offset)"
  let ?starts = "0 # map (\<lambda>j. word_of_nat (j + 1)) ?N :: u32 list"
  have tw: "takeWhile (\<lambda>s. s \<le> offset) (line_starts f) = ?starts"
    by (rule line_starts_before [OF good bound])
  then have split: "line_starts f = ?starts @ dropWhile (\<lambda>s. s \<le> offset) (line_starts f)"
    by (metis takeWhile_dropWhile_id)
  from arg_cong [OF split, of "\<lambda>xs. xs ! length ?N"]
  have "line_starts f ! length ?N = ?starts ! length ?N" by (simp add: nth_append nth_Cons split: nat.splits)
  also have "\<dots> = word_of_nat (line_begin (source_text f) (unat offset))"
    by (cases ?N rule: rev_cases) (auto simp: line_begin_def Let_def nth_append)
  finally show ?thesis
    using bound boundary
    by (simp add: position_def partition_point_def tw Let_def length_newlines_before)
qed


text \<open>The column of an offset, at its width: it wraps around only for the largest offset in a line
  that begins with the text.\<close>

lemma column_word:
  assumes "b \<le> unat offset"
  shows "unat (offset - word_of_nat b + 1 :: u32) =
    (if b = 0 \<and> unat offset = 2 ^ 32 - 1 then 0 else unat offset - b + 1)"
proof -
  have "unat (word_of_nat b :: u32) = b"
    using assms u32_bound [of offset] by (intro unat_of_nat_u32) simp
  with assms have d: "unat (offset - word_of_nat b) = unat offset - b"
    by (simp add: unat_sub word_le_nat_alt)
  show ?thesis
  proof (cases "b = 0 \<and> unat offset = 2 ^ 32 - 1")
    case False
    then have "unat offset - b + 1 < 2 ^ 32" using u32_bound [of offset] assms by auto
    with d False show ?thesis by (simp add: unat_word_ariths)
  qed (use d in \<open>simp add: unat_word_ariths\<close>)
qed

subsection \<open>Cutting text at character boundaries\<close>

lemma boundary_hd:
  assumes "valid_utf8 t" and "is_char_boundary t n"
  shows "drop n t = [] \<or> \<not> is_continuation (hd (drop n t))"
  using assms valid_utf8_hd [of t]
  by (cases "n < length t") (auto simp: is_char_boundary_def hd_drop_conv_nth hd_conv_nth)

lemma valid_utf8_take_drop:
  assumes "valid_utf8 t" and "is_char_boundary t n"
  shows "valid_utf8 (take n t)" and "valid_utf8 (drop n t)"
  using valid_utf8_boundary [OF boundary_hd [OF assms], of "take n t"] assms(1) by simp_all

lemma valid_utf8_slice:
  assumes "valid_utf8 t" and "is_char_boundary t a" and "is_char_boundary t b"
    and "a \<le> b" and "b \<le> length t"
  shows "valid_utf8 (take (b - a) (drop a t))"
proof -
  have t: "take b t = take a t @ take (b - a) (drop a t)"
    using assms(4) by (metis le_add_diff_inverse take_add)
  have "valid_utf8 (take b t)" using assms by (simp add: valid_utf8_take_drop)
  moreover have "valid_utf8 (take a t)" using assms by (simp add: valid_utf8_take_drop)
  ultimately show ?thesis using t valid_utf8_append by metis
qed

subsection \<open>Properties\<close>

text \<open>C15. Adding a file keeps the database canonical under every host: identities stay dense and
  in insertion order, paths stay valid, strictly ordered and free of collisions up to ASCII case,
  the new identity resolves to exactly the given path, text and digest, and every identity given
  out before still resolves to the same file.\<close>

theorem add_source_canonical:
  assumes "good_database nfc db"
    and "exec h (add_source nfc db inp) = Inr (db', i)"
  shows "good_database nfc db' \<and>
    (\<exists>f. get_file db' i = Some f \<and> path f = input_path inp \<and>
           source_text f = input_text inp \<and> digest f = input_digest inp) \<and>
    (\<forall>j f. get_file db j = Some f \<longrightarrow> get_file db' j = Some f)"
proof (intro conjI)
  have add: "outcome (add_source nfc db inp) = Inr (db', i)"
    using assms(2) by (rule exec_Inr)
  note a = add_source_Inr [OF add]
  show "good_database nfc db'" using assms(1) add by (rule add_source_good)
  show "\<exists>f. get_file db' i = Some f \<and> path f = input_path inp \<and>
           source_text f = input_text inp \<and> digest f = input_digest inp"
    using a by (simp add: get_file_def list_get_def)
  show "\<forall>j f. get_file db j = Some f \<longrightarrow> get_file db' j = Some f"
    using a by (auto simp: get_file_def list_get_def nth_append split: if_splits)
qed

text \<open>C16. \<open>position\<close> resolves an offset on a character boundary to its line and column: the line
  number is one more than the newlines before the offset, the column counts from the byte after
  the last of them, and no newline lies between. It holds for every file the database accepts
  whose text is shorter than \<open>u32::MAX\<close> bytes.\<close>

theorem position_exact:
  assumes "good_file nfc i f" and "length (source_text f) < 2 ^ 32 - 1"
    and "unat offset \<le> length (source_text f)" and "is_char_boundary (source_text f) (unat offset)"
  shows "\<exists>p b. position f offset = Some p \<and>
     unat (line p) = 1 + length (filter (\<lambda>c. c = 0x0A) (take (unat offset) (source_text f))) \<and>
     b \<le> unat offset \<and> unat (byte_column p) = unat offset - b + 1 \<and>
     (b = 0 \<or> source_text f ! (b - 1) = 0x0A) \<and>
     (\<forall>k. b \<le> k \<and> k < unat offset \<longrightarrow> source_text f ! k \<noteq> 0x0A)"
proof -
  let ?t = "source_text f" and ?n = "unat offset"
  let ?b = "line_begin ?t ?n" and ?c = "length (filter (\<lambda>c. c = 0x0A) (take ?n ?t))"
  have "?c + 1 < 2 ^ 32"
    using assms(2) length_filter_le [of "\<lambda>c. c = 0x0A" "take ?n ?t"] by simp
  then have line: "unat (word_of_nat (?c + 1) :: u32) = ?c + 1" by (rule unat_of_nat_u32)
  have col: "unat (offset - word_of_nat ?b + 1) = ?n - ?b + 1"
    using column_word [OF line_begin_spec(1) [of ?t ?n]] assms(2,3) by simp
  show ?thesis
    using position_some [OF assms(1,3,4)] line col line_begin_spec [of ?t ?n]
    by (intro exI [of _ "\<lparr>line = word_of_nat (?c + 1),
          byte_column = offset - word_of_nat ?b + 1\<rparr>"] exI [of _ ?b]) (simp del: of_nat_Suc)
qed


text \<open>C17. \<open>slice\<close> on a range made by \<open>TextRange::new\<close> never panics, and the text it returns is again
  well-formed UTF-8, namely exactly the bytes between the two offsets.\<close>

theorem slice_well_formed:
  assumes "valid_utf8 (source_text f)" and "text_range_new s e = Inr r"
  shows "slice f r \<noteq> Inl () \<and>
    (\<forall>v. slice f r = Inr (Some v) \<longrightarrow>
           valid_utf8 v \<and> v = take (unat e - unat s) (drop (unat s) (source_text f)))"
proof (intro conjI)
  have r: "start r = s" "range_end r = e" "unat s \<le> unat e"
    using assms(2) by (auto simp: text_range_new_def word_le_nat_alt not_less split: if_splits)
  show "slice f r \<noteq> Inl ()"
    using r by (auto simp: slice_def Let_def slice_get_def)
  show "\<forall>v. slice f r = Inr (Some v) \<longrightarrow>
           valid_utf8 v \<and> v = take (unat e - unat s) (drop (unat s) (source_text f))"
    using r assms(1) valid_utf8_slice [of "source_text f" "unat s" "unat e"]
    by (auto simp: slice_def Let_def slice_get_def split: if_splits)
qed

subsection \<open>Witnesses\<close>

text \<open>Normalisation that changes nothing is the behaviour of \<open>nfc\<close> on ASCII text.\<close>

lemma ascii_chars: "utf8_chars [0x61] = [0x61]"
proof -
  have "(0x61 :: u8) < 0x80" by simp
  then have "utf8_step [0x61] = Some (unat (0x61 :: u8), [])" by (simp only: utf8_step.simps if_True)
  then show ?thesis
    by (simp add: utf8_chars_def char_indices.simps [of 0 "[0x61]"] char_indices.simps [of _ "[]"])
qed

lemma sample_path: "validate_source_path (\<lambda>cs. cs) [0x61] = Inr ()"
  by (simp add: validate_source_path_def ascii_chars max_source_path_bytes_def str_def
      char_is_control_def bad_component_def)

definition sample_file :: "text_bytes \<Rightarrow> source_file" where
  "sample_file t = \<lparr>ident = 0, path = [0x61], source_text = t, digest = [],
     line_starts = 0 # line_starts_from (length t) 0 t\<rparr>"

lemma sample_file_good:
  "length t < 2 ^ 32 - 1 \<or> (length t < 2 ^ 32 \<and> 0x0A \<notin> set t) \<Longrightarrow>
   good_file (\<lambda>cs. cs) 0 (sample_file t)"
proof -
  assume a: "length t < 2 ^ 32 - 1 \<or> (length t < 2 ^ 32 \<and> 0x0A \<notin> set t)"
  then have "length (filter (\<lambda>b. b = 0x0A) t) < 2 ^ 32 - 1"
  proof
    assume "length t < 2 ^ 32 - 1"
    then show ?thesis by (rule le_less_trans [OF length_filter_le])
  next
    assume "length t < 2 ^ 32 \<and> 0x0A \<notin> set t"
    then have "filter (\<lambda>b. b = 0x0A) t = []" by (auto simp: filter_empty_conv)
    then show ?thesis by simp
  qed
  then have "length (line_starts_from (length t) 0 t) < 2 ^ 32 - 1"
    by (simp add: length_line_starts_from)
  with a show ?thesis
    by (auto simp: good_file_def sample_file_def sample_path)
qed

theorem add_source_canonical_witness:
  "\<exists>db i. exec (\<lambda>_. False) (add_source (\<lambda>cs. cs) empty_database
       \<lparr>input_path = [0x61], input_text = [0x0A], input_digest = []\<rparr>) = Inr (db, i) \<and>
     good_database (\<lambda>cs. cs) db"
proof -
  have out: "\<exists>db i. exec (\<lambda>_. False) (add_source (\<lambda>cs. cs) empty_database
       \<lparr>input_path = [0x61], input_text = [0x0A], input_digest = []\<rparr>) = Inr (db, i)"
    by (simp add: exec_quiet add_source_def Let_def sample_path empty_database_def u32_try_from_def
        usize_limit_def checked_add_usize_def)
  then obtain db i where "exec (\<lambda>_. False) (add_source (\<lambda>cs. cs) empty_database
       \<lparr>input_path = [0x61], input_text = [0x0A], input_digest = []\<rparr>) = Inr (db, i)" by blast
  with add_source_canonical [OF good_database_empty this] show ?thesis by blast
qed

theorem position_exact_witness:
  "\<exists>p. position (sample_file [0x61, 0x0A, 0x62]) 2 = Some p \<and> unat (line p) = 2"
proof -
  have "good_file (\<lambda>cs. cs) 0 (sample_file [0x61, 0x0A, 0x62])" by (rule sample_file_good) simp
  moreover have "is_char_boundary (source_text (sample_file [0x61, 0x0A, 0x62])) (unat (2 :: u32))"
    by (simp add: sample_file_def is_char_boundary_def is_continuation_unat)
  ultimately obtain p where "position (sample_file [0x61, 0x0A, 0x62]) 2 = Some p"
    and "unat (line p) = 1 + length (filter (\<lambda>c. c = 0x0A)
      (take (unat (2 :: u32)) (source_text (sample_file [0x61, 0x0A, 0x62]))))"
    using position_exact [of "\<lambda>cs. cs" 0 "sample_file [0x61, 0x0A, 0x62]" 2]
    by (auto simp: sample_file_def)
  then show ?thesis by (simp add: sample_file_def)
qed

text \<open>The one place where the column wraps around exists: the end of the largest text on one line.\<close>

lemma largest_offset_column:
  "\<exists>f. good_file (\<lambda>cs. cs) 0 f \<and> length (source_text f) = 2 ^ 32 - 1 \<and>
     position f (word_of_nat (2 ^ 32 - 1)) = Some \<lparr>line = 1, byte_column = 0\<rparr>"
proof -
  define t :: text_bytes where "t = replicate (2 ^ 32 - 1) 0x61"
  have len: "length t = 4294967295" and none: "0x0A \<notin> set t"
    unfolding t_def length_replicate set_replicate_conv_if by simp_all
  then have good: "good_file (\<lambda>cs. cs) 0 (sample_file t)" by (intro sample_file_good) simp
  have same: "source_text (sample_file t) = t" by (simp add: sample_file_def)
  have "newlines_before t 4294967295 = []"
    using len none by (auto simp: newlines_before_def filter_empty_conv in_set_conv_nth)
  moreover have "filter (\<lambda>c. c = 0x0A) (take 4294967295 t) = []"
    using none in_set_takeD [of _ 4294967295 t] by (auto simp: filter_empty_conv)
  ultimately have "position (sample_file t) 4294967295 = Some \<lparr>line = 1, byte_column = 0\<rparr>"
    using position_some [OF good, of 4294967295]
    by (simp add: same len line_begin_def is_char_boundary_def)
  with good len same show ?thesis by (intro exI [of _ "sample_file t"]) simp
qed


theorem slice_well_formed_witness:
  "slice (sample_file [0x61, 0x62]) \<lparr>start = 0, range_end = 1\<rparr> \<noteq> Inl ()"
proof -
  have "text_range_new 0 1 = Inr \<lparr>start = 0, range_end = 1\<rparr>" by (simp add: text_range_new_def)
  moreover have "valid_utf8 (source_text (sample_file [0x61, 0x62]))"
    by (simp add: sample_file_def valid_utf8_ascii)
  ultimately show ?thesis using slice_well_formed by blast
qed

end
