(* ===== verification/Test_Events.thy ===== *)
theory Test_Events
  imports Source
begin

text \<open>
  The data of the host/guest test protocol: the event types of \<open>crates/wrela-test-model\<close> and
  the limits, headers and errors of \<open>crates/wrela-test-protocol\<close>. Strings are their UTF-8
  bytes, so the type invariant of a Rust \<open>String\<close> is the predicate \<open>wf_event\<close>.
\<close>

subsection \<open>Events\<close>

type_synonym test_id = u32

datatype log_level = Trace | Debug | Info | Warning | Error

datatype language_fatal_cause = CheckedShiftResultLoss | InvalidShiftCount

datatype guest_test_outcome =
    Passed
  | Failed text_bytes
  | TimedOut u64
  | LanguageFatal language_fatal_cause

record assertion_failure =
  expression :: text_bytes
  message :: "text_bytes option"
  source :: "span option"
  expected :: "text_bytes option"
  actual :: "text_bytes option"

datatype test_event_kind =
    RunStarted u32
  | TestStarted test_id
  | Log "test_id option" log_level text_bytes
  | AssertionFailed test_id assertion_failure
  | TestFinished test_id guest_test_outcome
  | Heartbeat u64
  | RunFinished u32 u32

record test_event =
  protocol :: u32
  sequence :: u64
  kind :: test_event_kind

definition texts_of_kind :: "test_event_kind \<Rightarrow> text_bytes list" where
  "texts_of_kind k =
     (case k of
        Log t l m \<Rightarrow> [m]
      | AssertionFailed t f \<Rightarrow>
          expression f # List.map_filter (\<lambda>x. x) [message f, expected f, actual f]
      | TestFinished t (Failed m) \<Rightarrow> [m]
      | _ \<Rightarrow> [])"

definition wf_event :: "test_event \<Rightarrow> bool" where
  "wf_event e \<longleftrightarrow> (\<forall>t \<in> set (texts_of_kind (kind e)). valid_utf8 t)"

subsection \<open>Protocol constants, limits and errors\<close>

definition TEST_PROTOCOL_VERSION :: u32 where "TEST_PROTOCOL_VERSION = 3"
definition MAX_TEST_EVENT_BYTES :: nat where "MAX_TEST_EVENT_BYTES = 1024 * 1024"
definition MAX_RUNTIME_TEST_EVENTS :: u32 where "MAX_RUNTIME_TEST_EVENTS = 1000000"

definition TEST_FRAME_MAGIC :: "u8 list" where
  "TEST_FRAME_MAGIC = str ''WRELTST'' @ [0]"

definition TEST_FRAME_VERSION :: u32 where "TEST_FRAME_VERSION = 1"
definition TEST_EVENT_VERSION :: u32 where "TEST_EVENT_VERSION = 3"
definition TEST_FRAME_HEADER_BYTES :: nat where "TEST_FRAME_HEADER_BYTES = 32"
definition MAX_PROTOCOL_FRAME_BYTES :: u32 where "MAX_PROTOCOL_FRAME_BYTES = 1024 * 1024"
definition MAX_PROTOCOL_STRING_BYTES :: u32 where "MAX_PROTOCOL_STRING_BYTES = 256 * 1024"
definition MAX_PROTOCOL_EVENTS :: u32 where "MAX_PROTOCOL_EVENTS = MAX_RUNTIME_TEST_EVENTS"
definition MAX_PROTOCOL_STREAM_BYTES :: u64 where
  "MAX_PROTOCOL_STREAM_BYTES = 1024 * 1024 * 1024"
definition CANCELLATION_POLL_BYTES :: nat where "CANCELLATION_POLL_BYTES = 4096"
definition CANCELLATION_POLL_ENTRIES :: nat where "CANCELLATION_POLL_ENTRIES = 1024"

lemmas protocol_constants =
  TEST_PROTOCOL_VERSION_def MAX_TEST_EVENT_BYTES_def MAX_RUNTIME_TEST_EVENTS_def
  TEST_FRAME_VERSION_def TEST_EVENT_VERSION_def TEST_FRAME_HEADER_BYTES_def
  MAX_PROTOCOL_FRAME_BYTES_def MAX_PROTOCOL_STRING_BYTES_def MAX_PROTOCOL_EVENTS_def
  MAX_PROTOCOL_STREAM_BYTES_def CANCELLATION_POLL_BYTES_def CANCELLATION_POLL_ENTRIES_def

record protocol_limits =
  frame_bytes :: u32
  string_bytes :: u32
  events :: u32

record frame_header =
  frame_version :: u32
  event_version :: u32
  header_sequence :: u64
  payload_bytes :: u32
  checksum :: u32

record encoded_event =
  header :: frame_header
  encoded_bytes :: "u8 list"

datatype protocol_error =
    Cancelled
  | InvalidLimits
  | ProtocolContractMismatch string
  | LimitTooLarge string u64 u64
  | ResourceLimit string u64
  | InvalidMagic
  | UnsupportedFrameVersion u32
  | UnsupportedEventVersion u32
  | UnexpectedEnd
  | InvalidUtf8
  | InvalidSourceRange u32 u32
  | InvalidTag string u64
  | InvalidChecksum
  | FrameTooLarge u32 nat
  | StreamTooLarge u64 u64
  | StringTooLarge u32 nat
  | EventLimit u32 u64
  | SequenceMismatch u64 u64
  | StreamSequenceMismatch u64 u64
  | InvalidStreamOrder u64 string
  | DuplicateTestStart u64 u32
  | InvalidTestReference u64 u32 string
  | TestCountExceeded u64 u32 u32
  | NonMonotonicHeartbeat u64 u64 u64
  | StreamSummaryMismatch u64 u32 u32 u32 u32 u32 u32 u32
  | TrailingBytes
  | NonCanonical string

type_synonym 'a pcomp = "(protocol_error, 'a) comp"

definition limits_standard :: protocol_limits where
  "limits_standard = \<lparr>frame_bytes = MAX_PROTOCOL_FRAME_BYTES,
     string_bytes = MAX_PROTOCOL_STRING_BYTES, events = MAX_PROTOCOL_EVENTS\<rparr>"

definition check_limit :: "string \<Rightarrow> u64 \<Rightarrow> u64 \<Rightarrow> protocol_error + unit" where
  "check_limit resource act maximum =
     (if act > maximum then Inl (LimitTooLarge resource maximum act) else Inr ())"

definition limits_validate :: "protocol_limits \<Rightarrow> unit pcomp" where
  "limits_validate l =
     (if unat (frame_bytes l) < TEST_FRAME_HEADER_BYTES \<or> string_bytes l = 0 \<or> events l = 0
         \<or> string_bytes l > frame_bytes l
      then err InvalidLimits
      else
      and_then (lift_result (check_limit ''frame bytes'' (u64_of_u32 (frame_bytes l))
                               (u64_of_u32 MAX_PROTOCOL_FRAME_BYTES))) (\<lambda>_.
      and_then (lift_result (check_limit ''string bytes'' (u64_of_u32 (string_bytes l))
                               (u64_of_u32 MAX_PROTOCOL_STRING_BYTES))) (\<lambda>_.
      and_then (lift_result (check_limit ''events'' (u64_of_u32 (events l))
                               (u64_of_u32 MAX_PROTOCOL_EVENTS))) (\<lambda>_.
      and_then (guard_err (u64_of_u32 MAX_PROTOCOL_FRAME_BYTES \<noteq> word_of_nat MAX_TEST_EVENT_BYTES)
        (ProtocolContractMismatch ''frame ceiling differs from the test model event ceiling'')) (\<lambda>_.
      guard_err (TEST_EVENT_VERSION \<noteq> TEST_PROTOCOL_VERSION)
        (ProtocolContractMismatch
          ''frame schema event version differs from the test model protocol version''))))))"

definition maximum_stream_bytes :: "protocol_limits \<Rightarrow> u64 pcomp" where
  "maximum_stream_bytes l =
     and_then (limits_validate l) (\<lambda>_.
     or_err (map_option (\<lambda>b. min b MAX_PROTOCOL_STREAM_BYTES)
              (checked_mul_u64 (u64_of_u32 (frame_bytes l)) (u64_of_u32 (events l))))
       InvalidLimits)"

subsection \<open>Lemmas\<close>

definition limits_ok :: "protocol_limits \<Rightarrow> bool" where
  "limits_ok l \<longleftrightarrow>
     32 \<le> unat (frame_bytes l) \<and> unat (frame_bytes l) \<le> 1048576 \<and>
     0 < unat (string_bytes l) \<and> unat (string_bytes l) \<le> unat (frame_bytes l) \<and>
     unat (string_bytes l) \<le> 262144 \<and>
     0 < unat (events l) \<and> unat (events l) \<le> 1000000"

lemma protocol_contract:
  "word_of_nat MAX_TEST_EVENT_BYTES = u64_of_u32 MAX_PROTOCOL_FRAME_BYTES"
  "TEST_EVENT_VERSION = TEST_PROTOCOL_VERSION"
  by (simp_all add: protocol_constants u64_of_u32_def)

lemma unat_constants [simp]:
  "unat MAX_PROTOCOL_FRAME_BYTES = 1048576" "unat MAX_PROTOCOL_STRING_BYTES = 262144"
  "unat MAX_PROTOCOL_EVENTS = 1000000" "TEST_FRAME_HEADER_BYTES = 32"
  by (simp_all add: protocol_constants)

lemma limits_validate_Inr: "outcome (limits_validate l) = Inr u \<longleftrightarrow> limits_ok l"
  by (auto simp: limits_validate_def limits_ok_def check_limit_def protocol_contract
      word_less_nat_alt unat_gt_0 not_less split: if_splits sum.splits)

lemma points_limits_validate [simp, point_simps]: "points (limits_validate l) = []"
  by (simp add: limits_validate_def points_and_then split: sum.splits)

lemma limits_standard_ok: "limits_ok limits_standard"
  by (simp add: limits_ok_def limits_standard_def protocol_constants)

end
