(* ===== verification/Event_Wire.thy ===== *)
theory Event_Wire
  imports Test_Events
begin

text \<open>
  The payload layer of \<open>crates/wrela-test-protocol\<close>: the bounded \<open>PayloadWriter\<close>, the
  \<open>PayloadReader\<close>, the chunked UTF-8 copy, and the encoder and decoder of event kinds.
  \<open>kind_bytes\<close> is the reference layout of a kind. The locale \<open>wire_field\<close> is the contract
  between a reader operation and a layout; every reader operation of the crate is an instance.
\<close>

subsection \<open>PayloadWriter\<close>

record payload_writer =
  pw_bytes :: "u8 list"
  payload_limit :: nat
  frame_limit :: u32

definition pw_new :: "nat \<Rightarrow> u32 \<Rightarrow> payload_writer" where
  "pw_new pl fl = \<lparr>pw_bytes = [], payload_limit = pl, frame_limit = fl\<rparr>"

definition pw_extend :: "payload_writer \<Rightarrow> u8 list \<Rightarrow> payload_writer pcomp" where
  "pw_extend w v =
     and_then (or_err (checked_add_usize (length (pw_bytes w)) (length v))
                (FrameTooLarge (frame_limit w) usize_max)) (\<lambda>act.
     and_then (guard_err (act > payload_limit w)
                (FrameTooLarge (frame_limit w) (saturating_add_usize TEST_FRAME_HEADER_BYTES act))) (\<lambda>_.
     and_then (ask (ResourceLimit ''encoded payload bytes'' (u64_of_u32 (frame_limit w)))) (\<lambda>_.
     for_each (\<lambda>w chunk. and_then (ask Cancelled) (\<lambda>_. ok (w\<lparr>pw_bytes := pw_bytes w @ chunk\<rparr>)))
       w (chunks CANCELLATION_POLL_BYTES v))))"

definition pw_u8 :: "payload_writer \<Rightarrow> u8 \<Rightarrow> payload_writer pcomp" where
  "pw_u8 w v = pw_extend w [v]"

definition pw_u32 :: "payload_writer \<Rightarrow> u32 \<Rightarrow> payload_writer pcomp" where
  "pw_u32 w v = pw_extend w (to_le_bytes 4 v)"

definition pw_u64 :: "payload_writer \<Rightarrow> u64 \<Rightarrow> payload_writer pcomp" where
  "pw_u64 w v = pw_extend w (to_le_bytes 8 v)"

definition pw_string ::
  "payload_writer \<Rightarrow> text_bytes \<Rightarrow> protocol_limits \<Rightarrow> payload_writer pcomp" where
  "pw_string w v l =
     and_then (or_err (u32_try_from (length v)) (StringTooLarge (string_bytes l) (length v))) (\<lambda>len.
     and_then (guard_err (len > string_bytes l) (StringTooLarge (string_bytes l) (length v))) (\<lambda>_.
     and_then (pw_u32 w len) (\<lambda>w.
     pw_extend w v)))"

definition pw_optional_string ::
  "payload_writer \<Rightarrow> text_bytes option \<Rightarrow> protocol_limits \<Rightarrow> payload_writer pcomp" where
  "pw_optional_string w v l =
     (case v of
        None \<Rightarrow> pw_u8 w 0
      | Some t \<Rightarrow> and_then (pw_u8 w 1) (\<lambda>w. pw_string w t l))"

subsection \<open>PayloadReader\<close>

record payload_reader =
  pr_bytes :: "u8 list"
  offset :: nat
  pr_limits :: protocol_limits

definition pr_new :: "u8 list \<Rightarrow> protocol_limits \<Rightarrow> payload_reader" where
  "pr_new bs l = \<lparr>pr_bytes = bs, offset = 0, pr_limits = l\<rparr>"

definition pr_take :: "payload_reader \<Rightarrow> nat \<Rightarrow> (u8 list \<times> payload_reader) pcomp" where
  "pr_take r count =
     and_then (ask Cancelled) (\<lambda>_.
     and_then (or_err (checked_add_usize (offset r) count) UnexpectedEnd) (\<lambda>e.
     and_then (or_err (slice_get (pr_bytes r) (offset r) e) UnexpectedEnd) (\<lambda>v.
     ok (v, r\<lparr>offset := e\<rparr>))))"

definition pr_u8 :: "payload_reader \<Rightarrow> (u8 \<times> payload_reader) pcomp" where
  "pr_u8 r =
     and_then (pr_take r 1) (\<lambda>(v, r).
     and_then (or_err (list_get v 0) UnexpectedEnd) (\<lambda>b. ok (b, r)))"

definition pr_u32 :: "payload_reader \<Rightarrow> (u32 \<times> payload_reader) pcomp" where
  "pr_u32 r = and_then (pr_take r 4) (\<lambda>(v, r). ok (from_le_bytes v, r))"

definition pr_u64 :: "payload_reader \<Rightarrow> (u64 \<times> payload_reader) pcomp" where
  "pr_u64 r = and_then (pr_take r 8) (\<lambda>(v, r). ok (from_le_bytes v, r))"

function char_end :: "u8 list \<Rightarrow> nat \<Rightarrow> nat" where
  "char_end bs e =
     (if e < length bs \<and> bs ! e AND 0xC0 = 0x80 then char_end bs (Suc e) else e)"
  by pat_completeness auto
termination
  by (relation "measure (\<lambda>(bs, e). length bs - e)") auto

declare char_end.simps [simp del]

definition chunk_end :: "u8 list \<Rightarrow> nat \<Rightarrow> nat" where
  "chunk_end bs off =
     char_end bs (min (case checked_add_usize off CANCELLATION_POLL_BYTES of
                         None \<Rightarrow> length bs | Some e \<Rightarrow> e) (length bs))"

lemma char_end_ge: "e \<le> char_end bs e"
proof (induction bs e rule: char_end.induct)
  case (1 bs e)
  then show ?case
    by (cases "e < length bs \<and> bs ! e AND 0xC0 = 0x80") (auto simp: char_end.simps [of bs e])
qed

lemma chunk_end_gt: "off < length bs \<Longrightarrow> off < chunk_end bs off"
  using char_end_ge [of "min (case checked_add_usize off CANCELLATION_POLL_BYTES of
      None \<Rightarrow> length bs | Some e \<Rightarrow> e) (length bs)" bs]
  by (auto simp: chunk_end_def CANCELLATION_POLL_BYTES_def split: option.splits)

function copy_utf8_from :: "u8 list \<Rightarrow> nat \<Rightarrow> text_bytes \<Rightarrow> text_bytes pcomp" where
  "copy_utf8_from bs off out =
     (if off < length bs then
        and_then (ask Cancelled) (\<lambda>_.
        and_then (or_err (slice_get bs off (chunk_end bs off)) UnexpectedEnd) (\<lambda>chunk.
        if valid_utf8 chunk then copy_utf8_from bs (chunk_end bs off) (out @ chunk)
        else err InvalidUtf8))
      else and_then (ask Cancelled) (\<lambda>_. ok out))"
  by pat_completeness auto
termination
  by (relation "measure (\<lambda>(bs, off, out). length bs - off)") (auto dest: chunk_end_gt intro: diff_less_mono2)

declare copy_utf8_from.simps [simp del]

definition copy_utf8 :: "u8 list \<Rightarrow> text_bytes pcomp" where
  "copy_utf8 bs =
     and_then (ask (ResourceLimit ''decoded string bytes'' (word_of_nat (length bs)))) (\<lambda>_.
     copy_utf8_from bs 0 [])"

definition pr_string :: "payload_reader \<Rightarrow> (text_bytes \<times> payload_reader) pcomp" where
  "pr_string r =
     and_then (pr_u32 r) (\<lambda>(len, r).
     and_then (guard_err (unat len > unat (string_bytes (pr_limits r)))
                (StringTooLarge (string_bytes (pr_limits r)) (unat len))) (\<lambda>_.
     and_then (pr_take r (unat len)) (\<lambda>(v, r).
     and_then (copy_utf8 v) (\<lambda>t. ok (t, r)))))"

definition pr_optional_string ::
  "payload_reader \<Rightarrow> string \<Rightarrow> (text_bytes option \<times> payload_reader) pcomp" where
  "pr_optional_string r k =
     and_then (pr_u8 r) (\<lambda>(tag, r).
     if tag = 0 then ok (None, r)
     else if tag = 1 then and_then (pr_string r) (\<lambda>(t, r). ok (Some t, r))
     else err (InvalidTag k (ucast tag)))"

definition pr_finish :: "payload_reader \<Rightarrow> unit pcomp" where
  "pr_finish r =
     and_then (ask Cancelled) (\<lambda>_. guard_err (offset r \<noteq> length (pr_bytes r)) TrailingBytes)"

subsection \<open>Event kinds\<close>

fun log_level_tag :: "log_level \<Rightarrow> u8" where
  "log_level_tag Trace = 0"
| "log_level_tag Debug = 1"
| "log_level_tag Info = 2"
| "log_level_tag Warning = 3"
| "log_level_tag Error = 4"

definition decode_log_level :: "u8 \<Rightarrow> log_level pcomp" where
  "decode_log_level tag =
     (if tag = 0 then ok Trace else if tag = 1 then ok Debug else if tag = 2 then ok Info
      else if tag = 3 then ok Warning else if tag = 4 then ok Error
      else err (InvalidTag ''log level'' (ucast tag)))"

fun language_fatal_cause_tag :: "language_fatal_cause \<Rightarrow> u8" where
  "language_fatal_cause_tag CheckedShiftResultLoss = 0"
| "language_fatal_cause_tag InvalidShiftCount = 1"

definition decode_language_fatal_cause :: "u8 \<Rightarrow> language_fatal_cause pcomp" where
  "decode_language_fatal_cause tag =
     (if tag = 0 then ok CheckedShiftResultLoss else if tag = 1 then ok InvalidShiftCount
      else err (InvalidTag ''language fatal cause'' (ucast tag)))"

definition encode_event_kind ::
  "payload_writer \<Rightarrow> test_event_kind \<Rightarrow> protocol_limits \<Rightarrow> payload_writer pcomp" where
  "encode_event_kind w k l =
     and_then (ask Cancelled) (\<lambda>_.
     case k of
       RunStarted test_count \<Rightarrow>
         and_then (pw_u8 w 0) (\<lambda>w. pw_u32 w test_count)
     | TestStarted test \<Rightarrow>
         and_then (pw_u8 w 1) (\<lambda>w. pw_u32 w test)
     | Log test level msg \<Rightarrow>
         and_then (pw_u8 w 2) (\<lambda>w.
         and_then (case test of
                     None \<Rightarrow> pw_u8 w 0
                   | Some t \<Rightarrow> and_then (pw_u8 w 1) (\<lambda>w. pw_u32 w t)) (\<lambda>w.
         and_then (pw_u8 w (log_level_tag level)) (\<lambda>w.
         pw_string w msg l)))
     | AssertionFailed test failure \<Rightarrow>
         and_then (pw_u8 w 3) (\<lambda>w.
         and_then (pw_u32 w test) (\<lambda>w.
         and_then (pw_string w (expression failure) l) (\<lambda>w.
         and_then (pw_optional_string w (message failure) l) (\<lambda>w.
         and_then (case source failure of
                     None \<Rightarrow> pw_u8 w 0
                   | Some s \<Rightarrow>
                       and_then (pw_u8 w 1) (\<lambda>w.
                       and_then (pw_u32 w (span_file s)) (\<lambda>w.
                       and_then (pw_u32 w (start (span_range s))) (\<lambda>w.
                       pw_u32 w (range_end (span_range s)))))) (\<lambda>w.
         and_then (pw_optional_string w (expected failure) l) (\<lambda>w.
         pw_optional_string w (actual failure) l))))))
     | TestFinished test test_outcome \<Rightarrow>
         and_then (pw_u8 w 4) (\<lambda>w.
         and_then (pw_u32 w test) (\<lambda>w.
         case test_outcome of
           Passed \<Rightarrow> pw_u8 w 0
         | Failed msg \<Rightarrow> and_then (pw_u8 w 1) (\<lambda>w. pw_string w msg l)
         | TimedOut timeout_ns \<Rightarrow> and_then (pw_u8 w 2) (\<lambda>w. pw_u64 w timeout_ns)
         | LanguageFatal cause \<Rightarrow>
             and_then (pw_u8 w 3) (\<lambda>w. pw_u8 w (language_fatal_cause_tag cause))))
     | Heartbeat ticks \<Rightarrow>
         and_then (pw_u8 w 5) (\<lambda>w. pw_u64 w ticks)
     | RunFinished passed failed \<Rightarrow>
         and_then (pw_u8 w 6) (\<lambda>w. and_then (pw_u32 w passed) (\<lambda>w. pw_u32 w failed)))"

definition pr_optional_test :: "payload_reader \<Rightarrow> (test_id option \<times> payload_reader) pcomp" where
  "pr_optional_test r =
     and_then (pr_u8 r) (\<lambda>(tag, r).
     if tag = 0 then ok (None, r)
     else if tag = 1 then and_then (pr_u32 r) (\<lambda>(t, r). ok (Some t, r))
     else err (InvalidTag ''optional test'' (ucast tag)))"

definition pr_span :: "payload_reader \<Rightarrow> (span \<times> payload_reader) pcomp" where
  "pr_span r =
     and_then (pr_u32 r) (\<lambda>(f, r).
     and_then (pr_u32 r) (\<lambda>(s, r).
     and_then (pr_u32 r) (\<lambda>(e, r).
     case text_range_new s e of
       Inl _ \<Rightarrow> err (InvalidSourceRange s e)
     | Inr rng \<Rightarrow> ok (\<lparr>span_file = f, span_range = rng\<rparr>, r))))"

definition pr_optional_source :: "payload_reader \<Rightarrow> (span option \<times> payload_reader) pcomp" where
  "pr_optional_source r =
     and_then (pr_u8 r) (\<lambda>(tag, r).
     if tag = 0 then ok (None, r)
     else if tag = 1 then and_then (pr_span r) (\<lambda>(s, r). ok (Some s, r))
     else err (InvalidTag ''optional assertion source'' (ucast tag)))"

definition pr_outcome :: "payload_reader \<Rightarrow> (guest_test_outcome \<times> payload_reader) pcomp" where
  "pr_outcome r =
     and_then (pr_u8 r) (\<lambda>(tag, r).
     if tag = 0 then ok (Passed, r)
     else if tag = 1 then and_then (pr_string r) (\<lambda>(m, r). ok (Failed m, r))
     else if tag = 2 then and_then (pr_u64 r) (\<lambda>(t, r). ok (TimedOut t, r))
     else if tag = 3 then
       and_then (pr_u8 r) (\<lambda>(c, r).
       and_then (decode_language_fatal_cause c) (\<lambda>cause. ok (LanguageFatal cause, r)))
     else err (InvalidTag ''guest outcome'' (ucast tag)))"

definition decode_event_kind ::
  "payload_reader \<Rightarrow> (test_event_kind \<times> payload_reader) pcomp" where
  "decode_event_kind r =
     and_then (pr_u8 r) (\<lambda>(tag, r).
     if tag = 0 then and_then (pr_u32 r) (\<lambda>(n, r). ok (RunStarted n, r))
     else if tag = 1 then and_then (pr_u32 r) (\<lambda>(t, r). ok (TestStarted t, r))
     else if tag = 2 then
       and_then (pr_optional_test r) (\<lambda>(test, r).
       and_then (pr_u8 r) (\<lambda>(lt, r).
       and_then (decode_log_level lt) (\<lambda>level.
       and_then (pr_string r) (\<lambda>(msg, r).
       ok (Log test level msg, r)))))
     else if tag = 3 then
       and_then (pr_u32 r) (\<lambda>(test, r).
       and_then (pr_string r) (\<lambda>(expr, r).
       and_then (pr_optional_string r ''optional assertion message'') (\<lambda>(msg, r).
       and_then (pr_optional_source r) (\<lambda>(src, r).
       and_then (pr_optional_string r ''optional expected value'') (\<lambda>(exp, r).
       and_then (pr_optional_string r ''optional actual value'') (\<lambda>(act, r).
       ok (AssertionFailed test \<lparr>expression = expr, message = msg, source = src,
                                 expected = exp, actual = act\<rparr>, r)))))))
     else if tag = 4 then
       and_then (pr_u32 r) (\<lambda>(test, r).
       and_then (pr_outcome r) (\<lambda>(out, r). ok (TestFinished test out, r)))
     else if tag = 5 then and_then (pr_u64 r) (\<lambda>(t, r). ok (Heartbeat t, r))
     else if tag = 6 then
       and_then (pr_u32 r) (\<lambda>(p, r). and_then (pr_u32 r) (\<lambda>(f, r). ok (RunFinished p f, r)))
     else err (InvalidTag ''event'' (ucast tag)))"

subsection \<open>Chunked validation is validation\<close>

lemma char_end_stop:
  "e \<le> length bs \<Longrightarrow>
   char_end bs e \<le> length bs \<and>
   (char_end bs e = length bs \<or> \<not> is_continuation (bs ! char_end bs e))"
proof (induction bs e rule: char_end.induct)
  case (1 bs e)
  then show ?case
    by (cases "e < length bs \<and> bs ! e AND 0xC0 = 0x80")
      (auto simp: char_end.simps [of bs e] continuation_mask)
qed

lemma chunk_end_stop:
  "chunk_end bs off \<le> length bs"
  "drop (chunk_end bs off) bs = [] \<or> \<not> is_continuation (hd (drop (chunk_end bs off) bs))"
  using char_end_stop [of "min (case checked_add_usize off CANCELLATION_POLL_BYTES of
      None \<Rightarrow> length bs | Some e \<Rightarrow> e) (length bs)" bs]
  by (auto simp: chunk_end_def hd_drop_conv_nth)

lemma copy_utf8_from_outcome:
  "outcome (copy_utf8_from bs off out) =
     (if valid_utf8 (drop off bs) then Inr (out @ drop off bs) else Inl InvalidUtf8)"
proof (induction bs off out rule: copy_utf8_from.induct)
  case (1 bs off out)
  show ?case
  proof (cases "off < length bs")
    case False
    then show ?thesis by (simp add: copy_utf8_from.simps [of bs off out])
  next
    case True
    let ?e = "chunk_end bs off"
    let ?c = "take (?e - off) (drop off bs)"
    have e: "off < ?e" using True by (rule chunk_end_gt)
    have get: "slice_get bs off ?e = Some ?c"
      using e chunk_end_stop(1) [of bs off] by (simp add: slice_get_def)
    have split: "drop off bs = ?c @ drop ?e bs"
      using e by (metis add.commute append_take_drop_id drop_drop le_add_diff_inverse2 less_imp_le)
    have valid: "valid_utf8 (drop off bs) \<longleftrightarrow> valid_utf8 ?c \<and> valid_utf8 (drop ?e bs)"
      using valid_utf8_boundary [OF chunk_end_stop(2) [of bs off], of ?c] split by simp
    have step: "outcome (copy_utf8_from bs off out) =
        (if valid_utf8 ?c then outcome (copy_utf8_from bs ?e (out @ ?c)) else Inl InvalidUtf8)"
      using True get by (simp add: copy_utf8_from.simps [of bs off out])
    show ?thesis
    proof (cases "valid_utf8 ?c")
      case c: True
      have "outcome (copy_utf8_from bs ?e (out @ ?c)) =
          (if valid_utf8 (drop ?e bs) then Inr ((out @ ?c) @ drop ?e bs) else Inl InvalidUtf8)"
        using "1.IH" [OF True, of "()" ?c] get c by simp
      then show ?thesis using step c valid split by (metis append_assoc)
    qed (use step valid in simp)
  qed
qed

lemma outcome_copy_utf8 [comp_simps]:
  "outcome (copy_utf8 bs) = (if valid_utf8 bs then Inr bs else Inl InvalidUtf8)"
  by (simp add: copy_utf8_def copy_utf8_from_outcome)

subsection \<open>What the writer appends\<close>

definition pw_append :: "payload_writer \<Rightarrow> u8 list \<Rightarrow> payload_writer" where
  "pw_append w v = w\<lparr>pw_bytes := pw_bytes w @ v\<rparr>"

text \<open>\<open>writes c w v\<close>: the computation \<open>c\<close> appends \<open>v\<close> to \<open>w\<close> if it fits below the payload limit,
  and otherwise reports the frame as too large.\<close>

definition writes :: "payload_writer pcomp \<Rightarrow> payload_writer \<Rightarrow> u8 list \<Rightarrow> bool" where
  "writes c w v \<longleftrightarrow>
     (if length (pw_bytes w) + length v \<le> payload_limit w then outcome c = Inr (pw_append w v)
      else \<exists>n. outcome c = Inl (FrameTooLarge (frame_limit w) n))"

lemma pw_append_simps [simp]:
  "pw_bytes (pw_append w v) = pw_bytes w @ v"
  "payload_limit (pw_append w v) = payload_limit w"
  "frame_limit (pw_append w v) = frame_limit w"
  "pw_append (pw_append w u) v = pw_append w (u @ v)"
  by (simp_all add: pw_append_def)

lemma pw_append_Nil [simp]: "pw_append w [] = w"
  by (simp add: pw_append_def)

lemma extend_loop:
  "outcome (for_each (\<lambda>w chunk. and_then (ask Cancelled)
       (\<lambda>_. ok (w\<lparr>pw_bytes := pw_bytes w @ chunk\<rparr>))) w cs) = Inr (pw_append w (concat cs))"
  by (induction cs arbitrary: w) (simp_all add: pw_append_def)

lemma writes_extend:
  assumes "payload_limit w < usize_limit"
  shows "writes (pw_extend w v) w v"
  using assms
  by (auto simp: writes_def pw_extend_def extend_loop concat_chunks CANCELLATION_POLL_BYTES_def
      split: option.splits)

lemma writes_and_then:
  assumes "writes c w u" and "writes (f (pw_append w u)) (pw_append w u) v"
  shows "writes (and_then c f) w (u @ v)"
  using assms by (auto simp: writes_def split: if_splits)

lemma writes_scalars:
  assumes "payload_limit w < usize_limit"
  shows "writes (pw_u8 w b) w [b]" and "writes (pw_u32 w x) w (to_le_bytes 4 x)"
    and "writes (pw_u64 w y) w (to_le_bytes 8 y)"
  using writes_extend [OF assms] by (simp_all add: pw_u8_def pw_u32_def pw_u64_def)

subsection \<open>The reference layout\<close>

definition text_field :: "text_bytes \<Rightarrow> u8 list" where
  "text_field t = to_le_bytes 4 (word_of_nat (length t) :: u32) @ t"

definition option_field :: "('a \<Rightarrow> u8 list) \<Rightarrow> 'a option \<Rightarrow> u8 list" where
  "option_field enc x = (case x of None \<Rightarrow> [0] | Some v \<Rightarrow> 1 # enc v)"

definition span_field :: "span \<Rightarrow> u8 list" where
  "span_field s = to_le_bytes 4 (span_file s) @ to_le_bytes 4 (start (span_range s)) @
     to_le_bytes 4 (range_end (span_range s))"

fun outcome_field :: "guest_test_outcome \<Rightarrow> u8 list" where
  "outcome_field Passed = [0]"
| "outcome_field (Failed m) = 1 # text_field m"
| "outcome_field (TimedOut t) = 2 # to_le_bytes 8 t"
| "outcome_field (LanguageFatal c) = [3, language_fatal_cause_tag c]"

fun kind_bytes :: "test_event_kind \<Rightarrow> u8 list" where
  "kind_bytes (RunStarted n) = 0 # to_le_bytes 4 n"
| "kind_bytes (TestStarted t) = 1 # to_le_bytes 4 t"
| "kind_bytes (Log t l m) = 2 # option_field (to_le_bytes 4) t @ log_level_tag l # text_field m"
| "kind_bytes (AssertionFailed t f) =
     3 # to_le_bytes 4 t @ text_field (expression f) @ option_field text_field (message f) @
     option_field span_field (source f) @ option_field text_field (expected f) @
     option_field text_field (actual f)"
| "kind_bytes (TestFinished t out) = 4 # to_le_bytes 4 t @ outcome_field out"
| "kind_bytes (Heartbeat t) = 5 # to_le_bytes 8 t"
| "kind_bytes (RunFinished p f) = 6 # to_le_bytes 4 p @ to_le_bytes 4 f"

definition fits_text :: "protocol_limits \<Rightarrow> text_bytes \<Rightarrow> bool" where
  "fits_text l t \<longleftrightarrow> length t \<le> unat (string_bytes l)"

definition fits_kind :: "protocol_limits \<Rightarrow> test_event_kind \<Rightarrow> bool" where
  "fits_kind l k \<longleftrightarrow> (\<forall>t \<in> set (texts_of_kind k). fits_text l t)"

lemma writes_string:
  assumes "payload_limit w < usize_limit" and "fits_text l t"
  shows "writes (pw_string w t l) w (text_field t)"
proof -
  have len: "u32_try_from (length t) = Some (word_of_nat (length t))"
    using assms(2) u32_bound [of "string_bytes l"] by (simp add: u32_try_from_def fits_text_def)
  then have le: "word_of_nat (length t) \<le> string_bytes l"
    using assms(2) by (simp add: u32_try_from_Some word_le_nat_alt fits_text_def)
  have "writes (and_then (pw_u32 w (word_of_nat (length t))) (\<lambda>w. pw_extend w t)) w (text_field t)"
    unfolding text_field_def using assms(1)
    by (intro writes_and_then writes_scalars writes_extend) simp_all
  then show ?thesis
    using len le by (simp add: writes_def pw_string_def not_less split: if_splits)
qed

lemma writes_optional_string:
  assumes "payload_limit w < usize_limit" and "\<forall>t. x = Some t \<longrightarrow> fits_text l t"
  shows "writes (pw_optional_string w x l) w (option_field text_field x)"
proof (cases x)
  case None
  then show ?thesis
    using assms writes_scalars(1) by (simp add: pw_optional_string_def option_field_def)
next
  case (Some t)
  have "writes (and_then (pw_u8 w 1) (\<lambda>w. pw_string w t l)) w ([1] @ text_field t)"
    using assms Some by (intro writes_and_then writes_scalars writes_string) auto
  with Some show ?thesis by (simp add: pw_optional_string_def option_field_def)
qed

lemma writes_ask: "writes c w v \<Longrightarrow> writes (and_then (ask e) (\<lambda>_. c)) w v"
  by (simp add: writes_def)

lemma writes_tag:
  assumes "payload_limit w < usize_limit" and "writes (f (pw_append w [b])) (pw_append w [b]) v"
  shows "writes (and_then (pw_u8 w b) f) w (b # v)"
  using writes_and_then [of "pw_u8 w b" w "[b]" f v] writes_scalars(1) [OF assms(1)] assms(2) by simp

lemmas writes_intros =
  writes_ask writes_tag writes_and_then writes_scalars writes_string writes_optional_string

lemma writes_optional_test:
  "payload_limit w < usize_limit \<Longrightarrow>
   writes (case test of None \<Rightarrow> pw_u8 w 0
      | Some t \<Rightarrow> and_then (pw_u8 w 1) (\<lambda>w. pw_u32 w t)) w (option_field (to_le_bytes 4) test)"
  by (cases test) (auto simp: option_field_def intro!: writes_intros)

lemma writes_optional_source:
  "payload_limit w < usize_limit \<Longrightarrow>
   writes (case src of None \<Rightarrow> pw_u8 w 0
      | Some s \<Rightarrow>
          and_then (pw_u8 w 1) (\<lambda>w.
          and_then (pw_u32 w (span_file s)) (\<lambda>w.
          and_then (pw_u32 w (start (span_range s))) (\<lambda>w.
          pw_u32 w (range_end (span_range s)))))) w (option_field span_field src)"
  by (cases src) (auto simp: option_field_def span_field_def intro!: writes_intros)

lemma writes_outcome:
  "payload_limit w < usize_limit \<Longrightarrow> fits_kind l (TestFinished test out) \<Longrightarrow>
   writes (case out of
       Passed \<Rightarrow> pw_u8 w 0
     | Failed msg \<Rightarrow> and_then (pw_u8 w 1) (\<lambda>w. pw_string w msg l)
     | TimedOut timeout_ns \<Rightarrow> and_then (pw_u8 w 2) (\<lambda>w. pw_u64 w timeout_ns)
     | LanguageFatal cause \<Rightarrow>
         and_then (pw_u8 w 3) (\<lambda>w. pw_u8 w (language_fatal_cause_tag cause)))
   w (outcome_field out)"
  by (cases out) (auto simp: fits_kind_def texts_of_kind_def intro!: writes_intros)

lemma fits_assertion:
  "fits_kind l (AssertionFailed t f) \<Longrightarrow>
   fits_text l (expression f) \<and> (\<forall>m. message f = Some m \<longrightarrow> fits_text l m) \<and>
   (\<forall>m. expected f = Some m \<longrightarrow> fits_text l m) \<and> (\<forall>m. actual f = Some m \<longrightarrow> fits_text l m)"
  by (auto simp: fits_kind_def texts_of_kind_def map_filter_simps split: option.splits)

lemma writes_kind:
  assumes "payload_limit w < usize_limit" and "fits_kind l k"
  shows "writes (encode_event_kind w k l) w (kind_bytes k)"
proof (cases k)
  case (Log t lv m)
  with assms show ?thesis
    by (auto simp: encode_event_kind_def fits_kind_def texts_of_kind_def
        intro!: writes_intros writes_optional_test)
next
  case (AssertionFailed t f)
  with assms show ?thesis
    by (auto simp: encode_event_kind_def dest!: fits_assertion
        intro!: writes_intros writes_optional_source)
next
  case (TestFinished t out)
  with assms show ?thesis
    by (auto simp: encode_event_kind_def intro!: writes_intros writes_outcome [where test = t])
qed (use assms in \<open>auto simp: encode_event_kind_def intro!: writes_intros\<close>)

subsection \<open>What the reader consumes\<close>

definition wf_reader :: "payload_reader \<Rightarrow> bool" where
  "wf_reader r \<longleftrightarrow> offset r \<le> length (pr_bytes r) \<and> length (pr_bytes r) < usize_limit"

definition rest :: "payload_reader \<Rightarrow> u8 list" where
  "rest r = drop (offset r) (pr_bytes r)"

text \<open>\<open>moved r v r'\<close>: reading exactly \<open>v\<close> takes the reader from \<open>r\<close> to \<open>r'\<close>.\<close>

definition moved :: "payload_reader \<Rightarrow> u8 list \<Rightarrow> payload_reader \<Rightarrow> bool" where
  "moved r v r' \<longleftrightarrow>
     r' = r\<lparr>offset := offset r + length v\<rparr> \<and> (\<exists>t. rest r = v @ t) \<and> wf_reader r"

lemma moved_wf: "moved r v r' \<Longrightarrow> wf_reader r'"
  by (auto simp: moved_def wf_reader_def rest_def) (metis length_append length_drop add_leE
      le_add_diff_inverse nat_add_left_cancel_le le_add1)

lemma moved_limits: "moved r v r' \<Longrightarrow> pr_limits r' = pr_limits r"
  by (auto simp: moved_def)

lemma moved_rest: "moved r v r' \<Longrightarrow> rest r = v @ rest r'"
  by (auto simp: moved_def rest_def) (metis add.commute append_eq_conv_conj drop_drop)

lemma moved_Nil [simp]: "moved r [] r' \<longleftrightarrow> r' = r \<and> wf_reader r"
  by (auto simp: moved_def)

lemma moved_append: "moved r (u @ v) r' \<longleftrightarrow> (\<exists>r1. moved r u r1 \<and> moved r1 v r')"
proof
  assume m: "moved r (u @ v) r'"
  then obtain t where t: "rest r = u @ v @ t" by (auto simp: moved_def)
  let ?r1 = "r\<lparr>offset := offset r + length u\<rparr>"
  have 1: "moved r u ?r1" using m t by (auto simp: moved_def)
  have "rest ?r1 = v @ t" using moved_rest [OF 1] t by simp
  then have "moved ?r1 v r'" using m moved_wf [OF 1] by (auto simp: moved_def add.assoc)
  with 1 show "\<exists>r1. moved r u r1 \<and> moved r1 v r'" by blast
next
  assume "\<exists>r1. moved r u r1 \<and> moved r1 v r'"
  then obtain r1 where 1: "moved r u r1" and 2: "moved r1 v r'" by blast
  have "rest r = u @ v @ rest r'" using moved_rest [OF 1] moved_rest [OF 2] by simp
  with 1 2 show "moved r (u @ v) r'" by (auto simp: moved_def add.assoc)
qed

lemma moved_Cons: "moved r (b # v) r' \<longleftrightarrow> (\<exists>r1. moved r [b] r1 \<and> moved r1 v r')"
  using moved_append [of r "[b]" v r'] by simp

lemma pr_take_iff:
  "wf_reader r \<Longrightarrow>
   outcome (pr_take r n) = Inr (v, r') \<longleftrightarrow> moved r v r' \<and> length v = n"
proof
  assume wf: "wf_reader r" and "outcome (pr_take r n) = Inr (v, r')"
  then have v: "v = take n (rest r)" "r' = r\<lparr>offset := offset r + n\<rparr>" "offset r + n \<le> length (pr_bytes r)"
    by (auto simp: pr_take_def slice_get_def rest_def split: option.splits if_splits)
  moreover from v wf have "length v = n" by (simp add: rest_def)
  moreover have "\<exists>t. rest r = v @ t" using v by (metis append_take_drop_id)
  ultimately show "moved r v r' \<and> length v = n" using wf by (simp add: moved_def)
next
  assume wf: "wf_reader r" and m: "moved r v r' \<and> length v = n"
  then obtain t where t: "drop (offset r) (pr_bytes r) = v @ t" by (auto simp: moved_def rest_def)
  from arg_cong [OF this, of length] wf m have "offset r + n \<le> length (pr_bytes r)"
    by (auto simp: wf_reader_def)
  with wf m t show "outcome (pr_take r n) = Inr (v, r')"
    by (auto simp: pr_take_def slice_get_def moved_def wf_reader_def split: option.splits)
qed

subsection \<open>Fields: the contract between a reader operation and a layout\<close>

locale wire_field =
  fixes rd :: "payload_reader \<Rightarrow> ('a \<times> payload_reader) pcomp"
    and enc :: "'a \<Rightarrow> u8 list"
    and admitted :: "protocol_limits \<Rightarrow> 'a \<Rightarrow> bool"
  assumes reads_layout:
    "moved r (enc x) r' \<Longrightarrow> admitted (pr_limits r) x \<Longrightarrow> outcome (rd r) = Inr (x, r')"
    and reads_only_layout:
    "wf_reader r \<Longrightarrow> outcome (rd r) = Inr (x, r') \<Longrightarrow>
     moved r (enc x) r' \<and> admitted (pr_limits r) x"
begin

lemma rd_iff:
  "wf_reader r \<Longrightarrow>
   outcome (rd r) = Inr (x, r') \<longleftrightarrow> moved r (enc x) r' \<and> admitted (pr_limits r) x"
  using reads_layout reads_only_layout by blast

lemma layout_prefix_free:
  assumes "admitted l x" and "admitted l y" and "enc x @ s = enc y @ t"
    and "length (enc x @ s) < usize_limit"
  shows "x = y \<and> s = t"
proof -
  let ?r = "pr_new (enc x @ s) l"
  have r: "wf_reader ?r" "pr_limits ?r = l" "rest ?r = enc x @ s"
    using assms(4) by (simp_all add: pr_new_def wf_reader_def rest_def)
  then have "moved ?r (enc x) (?r\<lparr>offset := length (enc x)\<rparr>)"
    and "moved ?r (enc y) (?r\<lparr>offset := length (enc y)\<rparr>)"
    using assms(3) by (auto simp: moved_def pr_new_def intro: sym)
  from reads_layout [OF this(1)] reads_layout [OF this(2)] r(2) assms(1,2)
  have "x = y" by simp
  with assms(3) show ?thesis by simp
qed

end

lemma pr_u8_iff:
  "wf_reader r \<Longrightarrow> outcome (pr_u8 r) = Inr (b, r') \<longleftrightarrow> moved r [b] r'"
proof
  assume wf: "wf_reader r" and "outcome (pr_u8 r) = Inr (b, r')"
  then obtain v where "moved r v r'" "length v = 1" "list_get v 0 = Some b"
    by (auto simp: pr_u8_def and_then_Inr pr_take_iff simp del: outcome_and_then
        split: option.splits)
  moreover from this have "v = [b]" by (cases v) (auto simp: list_get_def)
  ultimately show "moved r [b] r'" by simp
next
  assume wf: "wf_reader r" and "moved r [b] r'"
  then have "outcome (pr_take r 1) = Inr ([b], r')" by (simp add: pr_take_iff)
  then show "outcome (pr_u8 r) = Inr (b, r')" by (simp add: pr_u8_def list_get_def)
qed

lemma pr_u32_iff:
  "wf_reader r \<Longrightarrow> outcome (pr_u32 r) = Inr (x, r') \<longleftrightarrow> moved r (to_le_bytes 4 x) r'"
proof
  assume wf: "wf_reader r" and "outcome (pr_u32 r) = Inr (x, r')"
  then show "moved r (to_le_bytes 4 x) r'"
    by (auto simp: pr_u32_def and_then_Inr pr_take_iff le_bytes_32 simp del: outcome_and_then)
next
  assume wf: "wf_reader r" and "moved r (to_le_bytes 4 x) r'"
  then have "outcome (pr_take r 4) = Inr (to_le_bytes 4 x, r')" by (simp add: pr_take_iff)
  then show "outcome (pr_u32 r) = Inr (x, r')" by (simp add: pr_u32_def le_bytes_32)
qed

lemma pr_u64_iff:
  "wf_reader r \<Longrightarrow> outcome (pr_u64 r) = Inr (x, r') \<longleftrightarrow> moved r (to_le_bytes 8 x) r'"
proof
  assume wf: "wf_reader r" and "outcome (pr_u64 r) = Inr (x, r')"
  then show "moved r (to_le_bytes 8 x) r'"
    by (auto simp: pr_u64_def and_then_Inr pr_take_iff le_bytes_64 simp del: outcome_and_then)
next
  assume wf: "wf_reader r" and "moved r (to_le_bytes 8 x) r'"
  then have "outcome (pr_take r 8) = Inr (to_le_bytes 8 x, r')" by (simp add: pr_take_iff)
  then show "outcome (pr_u64 r) = Inr (x, r')" by (simp add: pr_u64_def le_bytes_64)
qed

interpretation u8_field: wire_field pr_u8 "\<lambda>b. [b]" "\<lambda>_ _. True"
  by unfold_locales (auto simp: pr_u8_iff moved_def)

interpretation u32_field: wire_field pr_u32 "to_le_bytes 4" "\<lambda>_ _. True"
  by unfold_locales (auto simp: pr_u32_iff moved_def)

interpretation u64_field: wire_field pr_u64 "to_le_bytes 8" "\<lambda>_ _. True"
  by unfold_locales (auto simp: pr_u64_iff moved_def)

definition admitted_text :: "protocol_limits \<Rightarrow> text_bytes \<Rightarrow> bool" where
  "admitted_text l t \<longleftrightarrow> fits_text l t \<and> valid_utf8 t"

lemma text_length_word:
  "fits_text l t \<Longrightarrow> unat (word_of_nat (length t) :: u32) = length t"
  using u32_bound [of "string_bytes l"] by (intro unat_of_nat_u32) (simp add: fits_text_def)

lemma pr_string_iff:
  assumes wf: "wf_reader r"
  shows "outcome (pr_string r) = Inr (t, r') \<longleftrightarrow>
     moved r (text_field t) r' \<and> admitted_text (pr_limits r) t"
proof
  assume "outcome (pr_string r) = Inr (t, r')"
  then obtain len r1 where 1: "outcome (pr_u32 r) = Inr (len, r1)"
    and fit: "unat len \<le> unat (string_bytes (pr_limits r1))"
    and 2: "outcome (pr_take r1 (unat len)) = Inr (t, r')" and t: "valid_utf8 t"
    by (auto simp: pr_string_def and_then_Inr outcome_copy_utf8 not_less
        simp del: outcome_and_then split: if_splits)
  have m1: "moved r (to_le_bytes 4 len) r1" using 1 wf by (simp add: pr_u32_iff)
  have m2: "moved r1 t r'" "length t = unat len" using 2 moved_wf [OF m1] by (simp_all add: pr_take_iff)
  then have "moved r (to_le_bytes 4 len @ t) r'" using m1 by (auto simp: moved_append)
  with m2 fit t moved_limits [OF m1] show
    "moved r (text_field t) r' \<and> admitted_text (pr_limits r) t"
    by (simp add: text_field_def admitted_text_def fits_text_def)
next
  assume a: "moved r (text_field t) r' \<and> admitted_text (pr_limits r) t"
  then obtain r1 where m1: "moved r (to_le_bytes 4 (word_of_nat (length t) :: u32)) r1"
    and m2: "moved r1 t r'" by (auto simp: text_field_def moved_append)
  have len: "unat (word_of_nat (length t) :: u32) = length t"
    using a text_length_word by (auto simp: admitted_text_def)
  have 1: "outcome (pr_u32 r) = Inr (word_of_nat (length t), r1)"
    using m1 wf by (simp add: pr_u32_iff)
  have "outcome (pr_take r1 (length t)) = Inr (t, r')"
    using m2 moved_wf [OF m1] by (simp add: pr_take_iff)
  with 1 len a moved_limits [OF m1] show "outcome (pr_string r) = Inr (t, r')"
    by (simp add: pr_string_def outcome_copy_utf8 admitted_text_def fits_text_def)
qed

interpretation text_field: wire_field pr_string text_field admitted_text
  by unfold_locales (auto simp: pr_string_iff moved_def)

lemma decode_log_level_iff: "outcome (decode_log_level b) = Inr l \<longleftrightarrow> b = log_level_tag l"
  by (cases l) (auto simp: decode_log_level_def)

lemma decode_language_fatal_cause_iff:
  "outcome (decode_language_fatal_cause b) = Inr c \<longleftrightarrow> b = language_fatal_cause_tag c"
  by (cases c) (auto simp: decode_language_fatal_cause_def)

lemma text_range_new_iff:
  "text_range_new s e = Inr rng \<longleftrightarrow> s \<le> e \<and> rng = \<lparr>start = s, range_end = e\<rparr>"
  by (auto simp: text_range_new_def)

definition admitted_option :: "(protocol_limits \<Rightarrow> 'a \<Rightarrow> bool) \<Rightarrow> protocol_limits \<Rightarrow> 'a option \<Rightarrow> bool" where
  "admitted_option P l x \<longleftrightarrow> (\<forall>v. x = Some v \<longrightarrow> P l v)"

definition admitted_span :: "protocol_limits \<Rightarrow> span \<Rightarrow> bool" where
  "admitted_span l s \<longleftrightarrow> start (span_range s) \<le> range_end (span_range s)"

fun admitted_outcome :: "protocol_limits \<Rightarrow> guest_test_outcome \<Rightarrow> bool" where
  "admitted_outcome l (Failed m) = admitted_text l m"
| "admitted_outcome l _ = True"

fun admitted_kind :: "protocol_limits \<Rightarrow> test_event_kind \<Rightarrow> bool" where
  "admitted_kind l (Log t lv m) = admitted_text l m"
| "admitted_kind l (AssertionFailed t f) =
     (admitted_text l (expression f) \<and> admitted_option admitted_text l (message f) \<and>
      admitted_option admitted_span l (source f) \<and> admitted_option admitted_text l (expected f) \<and>
      admitted_option admitted_text l (actual f))"
| "admitted_kind l (TestFinished t out) = admitted_outcome l out"
| "admitted_kind l _ = True"

lemma tagged_iff:
  "wf_reader r \<Longrightarrow> outcome (and_then (pr_u8 r) f) = Inr (x, r') \<longleftrightarrow>
     (\<exists>b r1. moved r [b] r1 \<and> outcome (f (b, r1)) = Inr (x, r'))"
  by (auto simp: and_then_Inr pr_u8_iff simp del: outcome_and_then)

text \<open>An optional field is a tag byte and the field: one argument for every optional field of
  the protocol, over any field that satisfies the contract.\<close>

context wire_field
begin

lemma optional_iff:
  assumes wf: "wf_reader r"
  shows "outcome (and_then (pr_u8 r) (\<lambda>(tag, r).
           if tag = 0 then ok (None, r)
           else if tag = 1 then and_then (rd r) (\<lambda>(t, r). ok (Some t, r))
           else err (E tag))) = Inr (x, r') \<longleftrightarrow>
     moved r (option_field enc x) r' \<and> admitted_option admitted (pr_limits r) x"
proof (cases x)
  case None
  have "outcome (and_then (rd r1) (\<lambda>(t, r). ok (Some t, r))) \<noteq> Inr (None, r')" for r1
    by (auto simp: and_then_Inr simp del: outcome_and_then)
  with None wf show ?thesis
    by (auto simp: tagged_iff option_field_def admitted_option_def simp del: outcome_and_then
        split: if_splits intro!: exI [of _ "0 :: u8"])
next
  case (Some v)
  have some: "outcome (and_then (rd r1) (\<lambda>(t, r). ok (Some t, r))) = Inr (Some v, r') \<longleftrightarrow>
      moved r1 (enc v) r' \<and> admitted (pr_limits r) v" if "moved r [1] r1" for r1
    using rd_iff [OF moved_wf [OF that]] moved_limits [OF that]
    by (auto simp: and_then_Inr simp del: outcome_and_then)
  have "outcome (and_then (pr_u8 r) (\<lambda>(tag, r).
           if tag = 0 then ok (None, r)
           else if tag = 1 then and_then (rd r) (\<lambda>(t, r). ok (Some t, r))
           else err (E tag))) = Inr (x, r') \<longleftrightarrow>
        (\<exists>r1. moved r [1] r1 \<and>
           outcome (and_then (rd r1) (\<lambda>(t, r). ok (Some t, r))) = Inr (Some v, r'))"
    using wf Some
    by (auto simp: tagged_iff simp del: outcome_and_then split: if_split_asm
        intro!: exI [of _ "1 :: u8"])
  also have "\<dots> \<longleftrightarrow> moved r (1 # enc v) r' \<and> admitted (pr_limits r) v"
    unfolding moved_Cons [of r 1 "enc v"] using some by blast
  finally show ?thesis using Some by (simp add: option_field_def admitted_option_def)
qed

end

lemma pr_span_iff:
  assumes wf: "wf_reader r"
  shows "outcome (pr_span r) = Inr (s, r') \<longleftrightarrow>
     moved r (span_field s) r' \<and> admitted_span (pr_limits r) s"
proof
  assume "outcome (pr_span r) = Inr (s, r')"
  then obtain r1 r2 where 1: "outcome (pr_u32 r) = Inr (span_file s, r1)"
    and 2: "outcome (pr_u32 r1) = Inr (start (span_range s), r2)"
    and 3: "outcome (pr_u32 r2) = Inr (range_end (span_range s), r')"
    and ord: "start (span_range s) \<le> range_end (span_range s)"
    by (auto simp: pr_span_def and_then_Inr text_range_new_def simp del: outcome_and_then
        split: if_splits)
  have m1: "moved r (to_le_bytes 4 (span_file s)) r1" using 1 wf by (simp add: pr_u32_iff)
  have m2: "moved r1 (to_le_bytes 4 (start (span_range s))) r2"
    using 2 moved_wf [OF m1] by (simp add: pr_u32_iff)
  have m3: "moved r2 (to_le_bytes 4 (range_end (span_range s))) r'"
    using 3 moved_wf [OF m2] by (simp add: pr_u32_iff)
  from m1 m2 m3 ord show "moved r (span_field s) r' \<and> admitted_span (pr_limits r) s"
    by (auto simp: span_field_def moved_append admitted_span_def)
next
  assume "moved r (span_field s) r' \<and> admitted_span (pr_limits r) s"
  then obtain r1 r2 where m1: "moved r (to_le_bytes 4 (span_file s)) r1"
    and m2: "moved r1 (to_le_bytes 4 (start (span_range s))) r2"
    and m3: "moved r2 (to_le_bytes 4 (range_end (span_range s))) r'"
    and ord: "start (span_range s) \<le> range_end (span_range s)"
    by (auto simp: span_field_def moved_append admitted_span_def)
  from ord have rng: "text_range_new (start (span_range s)) (range_end (span_range s)) =
      Inr (span_range s)" by (simp add: text_range_new_iff)
  show "outcome (pr_span r) = Inr (s, r')"
    using u32_field.reads_layout [OF m1] u32_field.reads_layout [OF m2]
      u32_field.reads_layout [OF m3] rng by (simp add: pr_span_def)
qed

interpretation span_field: wire_field pr_span span_field admitted_span
  by unfold_locales (auto simp: pr_span_iff moved_def)

lemmas optional_iffs =
  u32_field.optional_iff text_field.optional_iff span_field.optional_iff

lemma pr_optional_iffs:
  assumes "wf_reader r"
  shows "outcome (pr_optional_test r) = Inr (t, r') \<longleftrightarrow> moved r (option_field (to_le_bytes 4) t) r'"
    and "outcome (pr_optional_string r e) = Inr (x, r') \<longleftrightarrow>
       moved r (option_field text_field x) r' \<and> admitted_option admitted_text (pr_limits r) x"
    and "outcome (pr_optional_source r) = Inr (s, r') \<longleftrightarrow>
       moved r (option_field span_field s) r' \<and> admitted_option admitted_span (pr_limits r) s"
  using optional_iffs [OF assms]
  by (simp_all add: pr_optional_test_def pr_optional_string_def pr_optional_source_def
      admitted_option_def del: outcome_and_then)

text \<open>Rules that turn a tagged reader into a disjunction over its tags.\<close>

lemma moved_wf_cond: "moved r v r' \<Longrightarrow> wf_reader r' = True"
  by (simp add: moved_wf)

lemma outcome_if_Inr:
  "outcome (if b then c else d) = Inr x \<longleftrightarrow> b \<and> outcome c = Inr x \<or> \<not> b \<and> outcome d = Inr x"
  by simp

lemma moved_tag_then:
  "moved r (b # to_le_bytes n w) r' \<longleftrightarrow> (\<exists>r1. moved r [b] r1 \<and> moved r1 (to_le_bytes n w) r')"
  "moved r (b # text_field t) r' \<longleftrightarrow> (\<exists>r1. moved r [b] r1 \<and> moved r1 (text_field t) r')"
  "moved r (b # u @ v) r' \<longleftrightarrow> (\<exists>r1. moved r [b] r1 \<and> moved r1 (u @ v) r')"
  "moved r [b, c] r' \<longleftrightarrow> (\<exists>r1. moved r [b] r1 \<and> moved r1 [c] r')"
  by (rule moved_Cons)+

lemmas field_iffs = pr_u8_iff pr_u32_iff pr_u64_iff pr_string_iff pr_optional_iffs
  decode_log_level_iff decode_language_fatal_cause_iff

lemmas reader_iffs = and_then_Inr outcome_if_Inr field_iffs moved_wf_cond moved_limits
  moved_tag_then moved_append conj_disj_distribL ex_disj_distrib

lemma pr_outcome_iff:
  assumes "wf_reader r"
  shows "outcome (pr_outcome r) = Inr (out, r') \<longleftrightarrow>
     moved r (outcome_field out) r' \<and> admitted_outcome (pr_limits r) out"
  unfolding pr_outcome_def tagged_iff [OF assms]
  by (cases out) (auto simp add: reader_iffs simp del: outcome_and_then cong: conj_cong)

lemma decode_event_kind_iff:
  assumes "wf_reader r"
  shows "outcome (decode_event_kind r) = Inr (k, r') \<longleftrightarrow>
     moved r (kind_bytes k) r' \<and> admitted_kind (pr_limits r) k"
proof (cases k)
  case (AssertionFailed t f)
  then show ?thesis
    by (cases f) (simp add: decode_event_kind_def assms reader_iffs del: outcome_and_then
        cong: conj_cong, blast)
next
  case (Log t lv m)
  then show ?thesis
    by (simp add: decode_event_kind_def assms reader_iffs del: outcome_and_then cong: conj_cong, blast)
next
  case (TestFinished t out)
  then show ?thesis
    by (simp add: decode_event_kind_def assms reader_iffs pr_outcome_iff del: outcome_and_then
        cong: conj_cong, blast)
qed (simp_all add: decode_event_kind_def assms reader_iffs del: outcome_and_then cong: conj_cong)

interpretation kind_field: wire_field decode_event_kind kind_bytes admitted_kind
  by unfold_locales (auto simp: decode_event_kind_iff moved_def)

end
