(* ===== verification/Crc32c.thy ===== *)
theory Crc32c
  imports Test_Events
begin

text \<open>
  The checksum of \<open>crates/wrela-test-protocol\<close>, CRC32C over 4096-byte chunks. The register is a
  linear map over the bits with an inverse, which gives the error detection the frame format
  relies on: any corruption confined to four consecutive bytes changes the checksum.
\<close>

subsection \<open>CRC32C\<close>

definition crc32c_bit :: "u32 \<Rightarrow> u32" where
  "crc32c_bit c = drop_bit 1 c XOR (0x82F63B78 AND (0 - (c AND 1)))"

definition crc32c_byte :: "u32 \<Rightarrow> u8 \<Rightarrow> u32" where
  "crc32c_byte c b = (crc32c_bit ^^ 8) (c XOR ucast b)"

definition crc32c_cancellable :: "u8 list \<Rightarrow> u32 pcomp" where
  "crc32c_cancellable bs =
     and_then (for_each (\<lambda>c chunk. and_then (ask Cancelled) (\<lambda>_. ok (foldl crc32c_byte c chunk)))
                (NOT 0) (chunks CANCELLATION_POLL_BYTES bs)) (\<lambda>c.
     and_then (ask Cancelled) (\<lambda>_. ok (NOT c)))"


definition crc32c :: "u8 list \<Rightarrow> u32" where
  "crc32c bs = NOT (foldl crc32c_byte (NOT 0) bs)"

lemma outcome_crc32c [simp, comp_simps]: "outcome (crc32c_cancellable bs) = Inr (crc32c bs)"
proof -
  have loop: "outcome (for_each (\<lambda>c chunk. and_then (ask Cancelled)
      (\<lambda>_. ok (foldl crc32c_byte c chunk))) s cs) = Inr (foldl crc32c_byte s (concat cs))" for s cs
    by (induction cs arbitrary: s) simp_all
  show ?thesis
    by (simp add: crc32c_cancellable_def crc32c_def loop concat_chunks CANCELLATION_POLL_BYTES_def)
qed

lemma points_crc32c: "set (points (crc32c_cancellable bs)) \<subseteq> {Cancelled}"
  unfolding crc32c_cancellable_def
  by (intro points_and_then_subset points_for_each) auto

subsection \<open>The register is linear and reversible\<close>

lemma crc32c_bit_cases:
  "crc32c_bit c = (if bit c 0 then drop_bit 1 c XOR 0x82F63B78 else drop_bit 1 c)"
proof -
  have "c AND 1 = (if bit c 0 then 1 else 0)"
    by (simp add: and_one_eq bit_0 mod_2_eq_odd)
  then show ?thesis by (simp add: crc32c_bit_def)
qed

lemma crc32c_bit_xor: "crc32c_bit (a XOR b) = crc32c_bit a XOR crc32c_bit b"
  by (rule bit_word_eqI) (auto simp: crc32c_bit_cases bit_simps)

lemma crc32c_bit_zero [simp]: "crc32c_bit 0 = 0"
  by (simp add: crc32c_bit_def)

lemma crc32c_bits_xor: "(crc32c_bit ^^ n) (a XOR b) = (crc32c_bit ^^ n) a XOR (crc32c_bit ^^ n) b"
  by (induction n) (simp_all add: crc32c_bit_xor)

lemma crc32c_bit_eq_0: "crc32c_bit c = 0 \<Longrightarrow> c = 0"
proof -
  assume z: "crc32c_bit c = 0"
  have low: "\<not> bit c 0"
  proof
    assume "bit c 0"
    then have "bit (crc32c_bit c) 31"
      using bit_imp_le_length [of c 32] by (auto simp: crc32c_bit_cases bit_simps)
    with z show False by simp
  qed
  with z have "drop_bit 1 c = 0" by (simp add: crc32c_bit_cases)
  have "\<not> bit c n" for n
  proof (cases n)
    case (Suc m)
    have "\<not> bit (drop_bit 1 c) m" using \<open>drop_bit 1 c = 0\<close> by simp
    with Suc show ?thesis by (simp add: bit_drop_bit_eq)
  qed (use low in simp)
  then show "c = 0" by (intro bit_word_eqI) simp
qed

lemma crc32c_bits_eq_0: "(crc32c_bit ^^ n) c = 0 \<Longrightarrow> c = 0"
  by (induction n) (auto dest: crc32c_bit_eq_0)

lemma crc32c_bits_shift:
  assumes "\<And>i. 32 - n \<le> i \<Longrightarrow> \<not> bit y i" and "n \<le> 32"
  shows "(crc32c_bit ^^ n) (push_bit n y) = y"
  using assms
proof (induction n arbitrary: y)
  case (Suc n)
  define z where "z = push_bit 1 y"
  have z: "bit z i \<longleftrightarrow> 0 < i \<and> i < 32 \<and> bit y (i - 1)" for i
    unfolding z_def bit_push_bit_iff by (auto simp: bit_imp_le_length)
  have top: "\<not> bit y 31" using Suc.prems by simp
  have "(crc32c_bit ^^ n) (push_bit n z) = z"
    by (rule Suc.IH) (use Suc.prems in \<open>auto simp: z\<close>)
  moreover have "drop_bit 1 z = y"
  proof (rule bit_word_eqI)
    fix i assume "i < LENGTH(32)"
    then show "bit (drop_bit 1 z) i = bit y i"
      using top by (cases "i = 31") (simp_all only: bit_drop_bit_eq comp_apply z, auto)
  qed
  then have "crc32c_bit z = y" by (simp add: crc32c_bit_cases z)
  moreover have "push_bit (Suc n) y = push_bit n z"
    by (simp only: z_def push_bit_push_bit) simp
  ultimately show ?case by simp
qed simp

text \<open>Up to four bytes enter the register as one little-endian word.\<close>

lemma from_le_bytes_bound:
  "8 * length bs \<le> i \<Longrightarrow> \<not> bit (from_le_bytes bs :: 'a::len word) i"
proof (induction bs arbitrary: i)
  case (Cons b bs)
  have "\<not> bit (ucast b :: 'a word) i"
    using Cons.prems by (auto simp: bit_simps impossible_bit)
  with Cons show ?case by (auto simp: bit_simps)
qed simp

lemma crc32c_bytes_word:
  "length bs \<le> 4 \<Longrightarrow>
   foldl crc32c_byte c bs = (crc32c_bit ^^ (8 * length bs)) (c XOR from_le_bytes bs)"
proof (induction bs arbitrary: c)
  case (Cons b bs)
  let ?y = "from_le_bytes bs :: u32"
  have shift: "(crc32c_bit ^^ 8) (push_bit 8 ?y) = ?y"
    by (rule crc32c_bits_shift) (use Cons.prems in \<open>auto intro!: from_le_bytes_bound\<close>)
  have word: "from_le_bytes (b # bs) = ucast b XOR push_bit 8 ?y"
    by (rule bit_word_eqI) (auto simp: bit_simps impossible_bit)
  have "(crc32c_bit ^^ 8) (c XOR from_le_bytes (b # bs)) = crc32c_byte c b XOR ?y"
    by (simp only: word crc32c_byte_def crc32c_bits_xor shift xor.assoc)
  moreover have "8 * length (b # bs) = 8 * length bs + 8" by simp
  ultimately have "(crc32c_bit ^^ (8 * length (b # bs))) (c XOR from_le_bytes (b # bs)) =
      (crc32c_bit ^^ (8 * length bs)) (crc32c_byte c b XOR ?y)"
    by (simp only: funpow_add comp_apply)
  with Cons show ?case by simp
qed simp

lemma xor_cancel:
  assumes "(a XOR x) XOR (b XOR x) = (0 :: 'a::len word)"
  shows "a = b"
proof -
  have "a XOR b = 0" using assms by (metis xor.assoc xor.commute xor_self_eq xor.right_neutral)
  then show ?thesis by (metis xor.assoc xor_self_eq xor.right_neutral xor.left_neutral)
qed

lemma not_eq_iff: "NOT a = NOT b \<longleftrightarrow> a = (b :: 'a::len word)"
  by (metis bit.double_compl)

lemma crc32c_register_inj:
  "foldl crc32c_byte c bs = foldl crc32c_byte d bs \<Longrightarrow> c = d"
proof (induction bs arbitrary: c d)
  case (Cons b bs)
  then have "crc32c_byte c b = crc32c_byte d b" by simp
  then have "(crc32c_bit ^^ 8) ((c XOR ucast b) XOR (d XOR ucast b)) = 0"
    by (simp only: crc32c_bits_xor [of _ "c XOR ucast b"] crc32c_byte_def xor_self_eq)
  then have "(c XOR ucast b) XOR (d XOR ucast b) = 0" by (rule crc32c_bits_eq_0)
  then show ?case by (rule xor_cancel)
qed simp

text \<open>Two texts of the same length that differ only within four consecutive bytes.\<close>

lemma crc32c_burst:
  assumes "crc32c (p @ u @ s) = crc32c (p @ v @ s)" and "length u = length v" and "length v \<le> 4"
  shows "u = v"
proof -
  define c where "c = foldl crc32c_byte (NOT 0) p"
  have "foldl crc32c_byte c u = foldl crc32c_byte c v"
    by (rule crc32c_register_inj [of _ s])
      (use assms(1) in \<open>simp only: crc32c_def c_def foldl_append not_eq_iff\<close>)
  then have "(crc32c_bit ^^ (8 * length v)) (from_le_bytes u XOR c) =
      (crc32c_bit ^^ (8 * length v)) (from_le_bytes v XOR c)"
    using assms by (simp only: crc32c_bytes_word xor.commute [of _ c])
  then have "(crc32c_bit ^^ (8 * length v)) ((from_le_bytes u XOR c) XOR (from_le_bytes v XOR c)) = 0"
    by (simp only: crc32c_bits_xor [of _ "from_le_bytes u XOR c"] xor_self_eq)
  then have "(from_le_bytes u XOR c) XOR (from_le_bytes v XOR c) = (0 :: u32)"
    by (rule crc32c_bits_eq_0)
  then have "from_le_bytes u = (from_le_bytes v :: u32)" by (rule xor_cancel)
  moreover have "to_le_bytes (length u) (from_le_bytes u :: u32) = u"
    and "to_le_bytes (length v) (from_le_bytes v :: u32) = v"
    by (rule to_from_le_bytes, use assms(2,3) in simp)+
  ultimately show "u = v" using assms(2) by metis
qed

end
