(* ===== verification/Event_Frame.thy ===== *)
theory Event_Frame
  imports Event_Wire Crc32c
begin

text \<open>
  The frame layer of \<open>crates/wrela-test-protocol\<close>: the fixed header, event and frame
  validation, the canonical codec, and the two functions that use a codec through the trait
  \<open>TestEventCodec\<close>, \<open>seal_encoded_event\<close> and \<open>decode_and_verify_event\<close>. The trait is the record
  \<open>test_event_codec\<close>; the locale \<open>lawful_codec\<close> states what its users rely on, and the canonical
  codec is shown to satisfy it.
\<close>

subsection \<open>Header\<close>

definition fixed_u32 :: "u8 list \<Rightarrow> nat \<Rightarrow> u32 pcomp" where
  "fixed_u32 bs off =
     and_then (or_err (checked_add_usize off 4) UnexpectedEnd) (\<lambda>e.
     and_then (or_err (slice_get bs off e) UnexpectedEnd) (\<lambda>v. ok (from_le_bytes v)))"

definition fixed_u64 :: "u8 list \<Rightarrow> nat \<Rightarrow> u64 pcomp" where
  "fixed_u64 bs off =
     and_then (or_err (checked_add_usize off 8) UnexpectedEnd) (\<lambda>e.
     and_then (or_err (slice_get bs off e) UnexpectedEnd) (\<lambda>v. ok (from_le_bytes v)))"

definition parse_header :: "u8 list \<Rightarrow> frame_header pcomp" where
  "parse_header frame =
     and_then (guard_err (length frame < TEST_FRAME_HEADER_BYTES) UnexpectedEnd) (\<lambda>_.
     and_then (guard_err (slice_get frame 0 (length TEST_FRAME_MAGIC) \<noteq> Some TEST_FRAME_MAGIC)
                InvalidMagic) (\<lambda>_.
     and_then (fixed_u32 frame 8) (\<lambda>fv.
     and_then (fixed_u32 frame 12) (\<lambda>ev.
     and_then (fixed_u64 frame 16) (\<lambda>sq.
     and_then (fixed_u32 frame 24) (\<lambda>pb.
     and_then (fixed_u32 frame 28) (\<lambda>cs.
     ok \<lparr>frame_version = fv, event_version = ev, header_sequence = sq, payload_bytes = pb,
          checksum = cs\<rparr>)))))))"

subsection \<open>Validation\<close>

fun contains_non_whitespace_from :: "(nat \<times> nat) list \<Rightarrow> bool pcomp" where
  "contains_non_whitespace_from [] = and_then (ask Cancelled) (\<lambda>_. ok False)"
| "contains_non_whitespace_from ((i, c) # cs) =
     and_then (if i AND (CANCELLATION_POLL_BYTES - 1) = 0 then ask Cancelled else ok ()) (\<lambda>_.
     if \<not> char_is_whitespace c then ok True else contains_non_whitespace_from cs)"

definition contains_non_whitespace :: "text_bytes \<Rightarrow> bool pcomp" where
  "contains_non_whitespace v = contains_non_whitespace_from (char_indices 0 v)"

definition validate_string :: "protocol_limits \<Rightarrow> text_bytes \<Rightarrow> unit pcomp" where
  "validate_string l v =
     guard_err (length v > unat (string_bytes l)) (StringTooLarge (string_bytes l) (length v))"

definition validate_failure :: "protocol_limits \<Rightarrow> assertion_failure \<Rightarrow> unit pcomp" where
  "validate_failure l failure =
     and_then (validate_string l (expression failure)) (\<lambda>_.
     and_then (contains_non_whitespace (expression failure)) (\<lambda>b.
     and_then (guard_err (\<not> b) (NonCanonical ''assertion expression is empty'')) (\<lambda>_.
     and_then (for_each (\<lambda>_ v. validate_string l v) ()
                (List.map_filter (\<lambda>x. x) [message failure, expected failure, actual failure])) (\<lambda>_.
     and_then (guard_err (case message failure of None \<Rightarrow> False
                 | Some m \<Rightarrow> \<not> (\<exists>c \<in> set (utf8_chars m). \<not> char_is_whitespace c))
                (NonCanonical ''assertion message is empty'')) (\<lambda>_.
     case source failure of
       None \<Rightarrow> ok ()
     | Some s \<Rightarrow> guard_err (start (span_range s) > range_end (span_range s))
         (InvalidSourceRange (start (span_range s)) (range_end (span_range s))))))))"

definition validate_event :: "test_event \<Rightarrow> protocol_limits \<Rightarrow> unit pcomp" where
  "validate_event e l =
     and_then (ask Cancelled) (\<lambda>_.
     and_then (limits_validate l) (\<lambda>_.
     and_then (guard_err (protocol e \<noteq> TEST_EVENT_VERSION) (UnsupportedEventVersion (protocol e))) (\<lambda>_.
     and_then (guard_err (sequence e \<ge> u64_of_u32 (events l)) (EventLimit (events l) (sequence e))) (\<lambda>_.
     case kind e of
       Log t lv m \<Rightarrow>
         and_then (validate_string l m) (\<lambda>_.
         guard_err (m = []) (NonCanonical ''log message is empty''))
     | AssertionFailed t failure \<Rightarrow> validate_failure l failure
     | TestFinished t out \<Rightarrow>
         (case out of
            Failed m \<Rightarrow>
              and_then (validate_string l m) (\<lambda>_.
              and_then (contains_non_whitespace m) (\<lambda>b.
              guard_err (\<not> b) (NonCanonical ''failed test message is empty'')))
          | TimedOut timeout_ns \<Rightarrow>
              guard_err (timeout_ns = 0) (NonCanonical ''test timeout must be nonzero'')
          | _ \<Rightarrow> ok ())
     | RunFinished passed failed \<Rightarrow>
         guard_err (case checked_add_u32 passed failed of None \<Rightarrow> True | Some sum_tests \<Rightarrow> sum_tests > events l)
           (ResourceLimit ''terminal test count'' (u64_of_u32 (events l)))
     | _ \<Rightarrow> ok ()))))"

definition validate_frame_shape ::
  "u8 list \<Rightarrow> frame_header \<Rightarrow> protocol_limits \<Rightarrow> unit pcomp" where
  "validate_frame_shape frame h l =
     and_then (ask Cancelled) (\<lambda>_.
     and_then (limits_validate l) (\<lambda>_.
     let fb = unat (frame_bytes l) in
     and_then (guard_err (length frame < TEST_FRAME_HEADER_BYTES) UnexpectedEnd) (\<lambda>_.
     and_then (guard_err (length frame > fb) (FrameTooLarge (frame_bytes l) (length frame))) (\<lambda>_.
     and_then (parse_header frame) (\<lambda>observed.
     and_then (guard_err (observed \<noteq> h) (NonCanonical ''reported header differs from frame bytes'')) (\<lambda>_.
     and_then (guard_err (frame_version h \<noteq> TEST_FRAME_VERSION)
                (UnsupportedFrameVersion (frame_version h))) (\<lambda>_.
     and_then (guard_err (event_version h \<noteq> TEST_EVENT_VERSION)
                (UnsupportedEventVersion (event_version h))) (\<lambda>_.
     and_then (guard_err (header_sequence h \<ge> u64_of_u32 (events l))
                (EventLimit (events l) (header_sequence h))) (\<lambda>_.
     and_then (or_err (checked_add_usize TEST_FRAME_HEADER_BYTES (unat (payload_bytes h)))
                (FrameTooLarge (frame_bytes l) usize_max)) (\<lambda>expected_frame_bytes.
     and_then (guard_err (expected_frame_bytes > length frame) UnexpectedEnd) (\<lambda>_.
     and_then (guard_err (expected_frame_bytes < length frame) TrailingBytes) (\<lambda>_.
     and_then (guard_err (expected_frame_bytes > fb)
                (FrameTooLarge (frame_bytes l) expected_frame_bytes)) (\<lambda>_.
     and_then (or_err (slice_get frame TEST_FRAME_HEADER_BYTES expected_frame_bytes) UnexpectedEnd) (\<lambda>payload.
     and_then (crc32c_cancellable payload) (\<lambda>crc.
     guard_err (crc \<noteq> checksum h) InvalidChecksum)))))))))))))))"

subsection \<open>The canonical codec\<close>

definition encode_event :: "test_event \<Rightarrow> protocol_limits \<Rightarrow> encoded_event pcomp" where
  "encode_event e l =
     and_then (ask Cancelled) (\<lambda>_.
     and_then (validate_event e l) (\<lambda>_.
     let fl = unat (frame_bytes l) in
     and_then (guard_err (fl < TEST_FRAME_HEADER_BYTES) InvalidLimits) (\<lambda>_.
     and_then (pw_u32 (pw_new (fl - TEST_FRAME_HEADER_BYTES) (frame_bytes l)) (protocol e)) (\<lambda>w.
     and_then (pw_u64 w (sequence e)) (\<lambda>w.
     and_then (encode_event_kind w (kind e) l) (\<lambda>w.
     and_then (ask Cancelled) (\<lambda>_.
     let payload = pw_bytes w in
     and_then (or_err (u32_try_from (length payload))
                (FrameTooLarge (frame_bytes l) (length payload))) (\<lambda>pb.
     and_then (crc32c_cancellable payload) (\<lambda>cs.
     let h = \<lparr>frame_version = TEST_FRAME_VERSION, event_version = TEST_EVENT_VERSION,
              header_sequence = sequence e, payload_bytes = pb, checksum = cs\<rparr> in
     and_then (or_err (checked_add_usize TEST_FRAME_HEADER_BYTES (length payload))
                (FrameTooLarge (frame_bytes l) usize_max)) (\<lambda>capacity.
     and_then (guard_err (capacity > fl) (FrameTooLarge (frame_bytes l) capacity)) (\<lambda>_.
     and_then (ask (ResourceLimit ''encoded frame bytes'' (u64_of_u32 (frame_bytes l)))) (\<lambda>_.
     ok \<lparr>header = h,
          encoded_bytes = TEST_FRAME_MAGIC @ to_le_bytes 4 (frame_version h) @
            to_le_bytes 4 (event_version h) @ to_le_bytes 8 (header_sequence h) @
            to_le_bytes 4 (payload_bytes h) @ to_le_bytes 4 (checksum h) @ payload\<rparr>))))))))))))"

definition inspect_frame_header :: "u8 list \<Rightarrow> frame_header pcomp" where
  "inspect_frame_header frame = and_then (ask Cancelled) (\<lambda>_. parse_header frame)"

definition decode_event :: "u8 list \<Rightarrow> protocol_limits \<Rightarrow> test_event pcomp" where
  "decode_event frame l =
     and_then (ask Cancelled) (\<lambda>_.
     and_then (limits_validate l) (\<lambda>_.
     and_then (parse_header frame) (\<lambda>h.
     and_then (validate_frame_shape frame h l) (\<lambda>_.
     and_then (or_err (slice_get frame TEST_FRAME_HEADER_BYTES (length frame)) UnexpectedEnd) (\<lambda>payload.
     and_then (pr_u32 (pr_new payload l)) (\<lambda>(proto, r).
     and_then (pr_u64 r) (\<lambda>(sq, r).
     and_then (decode_event_kind r) (\<lambda>(k, r).
     and_then (pr_finish r) (\<lambda>_.
     let e = \<lparr>protocol = proto, sequence = sq, kind = k\<rparr> in
     and_then (validate_event e l) (\<lambda>_.
     and_then (guard_err (protocol e \<noteq> event_version h \<or> sequence e \<noteq> header_sequence h)
                (SequenceMismatch (header_sequence h) (sequence e))) (\<lambda>_.
     ok e)))))))))))"

record test_event_codec =
  encode :: "test_event \<Rightarrow> protocol_limits \<Rightarrow> encoded_event pcomp"
  inspect_header :: "u8 list \<Rightarrow> frame_header pcomp"
  decode :: "u8 list \<Rightarrow> protocol_limits \<Rightarrow> test_event pcomp"

definition canonical_codec :: test_event_codec where
  "canonical_codec =
     \<lparr>encode = encode_event, inspect_header = inspect_frame_header, decode = decode_event\<rparr>"

subsection \<open>Comparing events under cancellation\<close>

fun equal_chunks :: "(u8 list \<times> u8 list) list \<Rightarrow> bool pcomp" where
  "equal_chunks [] = and_then (ask Cancelled) (\<lambda>_. ok True)"
| "equal_chunks ((a, b) # ps) =
     and_then (ask Cancelled) (\<lambda>_. if a \<noteq> b then ok False else equal_chunks ps)"

definition bytes_equal :: "u8 list \<Rightarrow> u8 list \<Rightarrow> bool pcomp" where
  "bytes_equal a b =
     and_then (ask Cancelled) (\<lambda>_.
     if length a \<noteq> length b then ok False
     else equal_chunks (zip (chunks CANCELLATION_POLL_BYTES a) (chunks CANCELLATION_POLL_BYTES b)))"

definition optional_strings_equal :: "text_bytes option \<Rightarrow> text_bytes option \<Rightarrow> bool pcomp" where
  "optional_strings_equal a b =
     (case (a, b) of
        (Some x, Some y) \<Rightarrow> bytes_equal x y
      | (None, None) \<Rightarrow> ok True
      | _ \<Rightarrow> ok False)"

definition outcomes_equal :: "guest_test_outcome \<Rightarrow> guest_test_outcome \<Rightarrow> bool pcomp" where
  "outcomes_equal a b =
     (case (a, b) of
        (Passed, Passed) \<Rightarrow> ok True
      | (Failed x, Failed y) \<Rightarrow> bytes_equal x y
      | (TimedOut x, TimedOut y) \<Rightarrow> ok (x = y)
      | (LanguageFatal x, LanguageFatal y) \<Rightarrow> ok (x = y)
      | _ \<Rightarrow> ok False)"

text \<open>Rust's \<open>&&\<close> over a fallible right operand.\<close>

definition and_also :: "('e, bool) comp \<Rightarrow> ('e, bool) comp \<Rightarrow> ('e, bool) comp" where
  "and_also c d = and_then c (\<lambda>b. if b then d else ok False)"

definition events_equal :: "test_event \<Rightarrow> test_event \<Rightarrow> bool pcomp" where
  "events_equal a b =
     and_then (ask Cancelled) (\<lambda>_.
     if protocol a \<noteq> protocol b \<or> sequence a \<noteq> sequence b then ok False
     else case (kind a, kind b) of
       (RunStarted x, RunStarted y) \<Rightarrow> ok (x = y)
     | (TestStarted x, TestStarted y) \<Rightarrow> ok (x = y)
     | (Log t lv m, Log t' lv' m') \<Rightarrow> and_also (ok (t = t' \<and> lv = lv')) (bytes_equal m m')
     | (AssertionFailed t f, AssertionFailed t' f') \<Rightarrow>
         and_also (ok (t = t' \<and> source f = source f'))
           (and_also (bytes_equal (expression f) (expression f'))
           (and_also (optional_strings_equal (message f) (message f'))
           (and_also (optional_strings_equal (expected f) (expected f'))
           (optional_strings_equal (actual f) (actual f')))))
     | (TestFinished t out, TestFinished t' out') \<Rightarrow>
         and_also (ok (t = t')) (outcomes_equal out out')
     | (Heartbeat x, Heartbeat y) \<Rightarrow> ok (x = y)
     | (RunFinished p f, RunFinished p' f') \<Rightarrow> ok (p = p' \<and> f = f')
     | _ \<Rightarrow> ok False)"

subsection \<open>Users of a codec\<close>

definition decode_and_verify_event ::
  "test_event_codec \<Rightarrow> u8 list \<Rightarrow> protocol_limits \<Rightarrow> test_event pcomp" where
  "decode_and_verify_event codec frame l =
     and_then (ask Cancelled) (\<lambda>_.
     and_then (limits_validate l) (\<lambda>_.
     and_then (guard_err (length frame > unat (frame_bytes l))
                (FrameTooLarge (frame_bytes l) (length frame))) (\<lambda>_.
     and_then (inspect_header codec frame) (\<lambda>h.
     and_then (validate_frame_shape frame h l) (\<lambda>_.
     and_then (decode codec frame l) (\<lambda>e.
     and_then (validate_event e l) (\<lambda>_.
     and_then (guard_err (header_sequence h \<noteq> sequence e)
                (SequenceMismatch (header_sequence h) (sequence e))) (\<lambda>_.
     and_then (encode codec e l) (\<lambda>canonical.
     and_then (validate_frame_shape (encoded_bytes canonical) (header canonical) l) (\<lambda>_.
     and_then (if header canonical \<noteq> h then ok True
               else and_then (bytes_equal (encoded_bytes canonical) frame) (\<lambda>b. ok (\<not> b))) (\<lambda>differs.
     and_then (guard_err differs
                (NonCanonical ''decoded event does not reproduce its complete frame'')) (\<lambda>_.
     ok e))))))))))))"

definition seal_encoded_event ::
  "test_event_codec \<Rightarrow> test_event \<Rightarrow> protocol_limits \<Rightarrow> encoded_event pcomp" where
  "seal_encoded_event codec e l =
     and_then (ask Cancelled) (\<lambda>_.
     and_then (validate_event e l) (\<lambda>_.
     and_then (encode codec e l) (\<lambda>candidate.
     and_then (validate_frame_shape (encoded_bytes candidate) (header candidate) l) (\<lambda>_.
     and_then (inspect_header codec (encoded_bytes candidate)) (\<lambda>h.
     and_then (guard_err (h \<noteq> header candidate)
                (NonCanonical ''encoded header differs from its bytes'')) (\<lambda>_.
     and_then (decode_and_verify_event codec (encoded_bytes candidate) l) (\<lambda>decoded.
     and_then (events_equal e decoded) (\<lambda>b.
     and_then (guard_err (\<not> b) (NonCanonical ''encoded event differs from its input'')) (\<lambda>_.
     ok candidate)))))))))"

subsection \<open>The frame of an event\<close>

definition header_bytes :: "frame_header \<Rightarrow> u8 list" where
  "header_bytes h = TEST_FRAME_MAGIC @ to_le_bytes 4 (frame_version h) @
     to_le_bytes 4 (event_version h) @ to_le_bytes 8 (header_sequence h) @
     to_le_bytes 4 (payload_bytes h) @ to_le_bytes 4 (checksum h)"

definition event_payload :: "test_event \<Rightarrow> u8 list" where
  "event_payload e =
     to_le_bytes 4 (protocol e) @ to_le_bytes 8 (sequence e) @ kind_bytes (kind e)"

definition header_of :: "test_event \<Rightarrow> frame_header" where
  "header_of e = \<lparr>frame_version = TEST_FRAME_VERSION, event_version = TEST_EVENT_VERSION,
     header_sequence = sequence e, payload_bytes = word_of_nat (length (event_payload e)),
     checksum = crc32c (event_payload e)\<rparr>"

definition frame_of :: "test_event \<Rightarrow> u8 list" where
  "frame_of e = header_bytes (header_of e) @ event_payload e"

definition encoded_of :: "test_event \<Rightarrow> encoded_event" where
  "encoded_of e = \<lparr>header = header_of e, encoded_bytes = frame_of e\<rparr>"

lemma length_magic [simp]: "length TEST_FRAME_MAGIC = 8"
  by (simp add: TEST_FRAME_MAGIC_def)

lemma length_header_bytes [simp]: "length (header_bytes h) = 32"
  by (simp add: header_bytes_def)

lemma fixed_get:
  "off + 4 \<le> length f \<Longrightarrow> off \<le> 32 \<Longrightarrow>
     outcome (fixed_u32 f off) = Inr (from_le_bytes (take 4 (drop off f)))"
  "off + 8 \<le> length f \<Longrightarrow> off \<le> 32 \<Longrightarrow>
     outcome (fixed_u64 f off) = Inr (from_le_bytes (take 8 (drop off f)))"
  by (auto simp: fixed_u32_def fixed_u64_def slice_get_def usize_limit_def split: option.splits)

lemma split_at_offsets:
  "32 \<le> length f \<Longrightarrow>
   f = take 8 f @ take 4 (drop 8 f) @ take 4 (drop 12 f) @ take 8 (drop 16 f) @
       take 4 (drop 24 f) @ take 4 (drop 28 f) @ drop 32 f"
proof -
  have step: "drop a f = take n (drop a f) @ drop (a + n) f" for a n
    by (metis add.commute append_take_drop_id drop_drop)
  show ?thesis
    using step [of 0 8] step [of 8 4] step [of 12 4] step [of 16 8] step [of 24 4] step [of 28 4]
    by simp
qed

lemma parse_header_iff:
  "outcome (parse_header f) = Inr h \<longleftrightarrow> (\<exists>p. f = header_bytes h @ p)"
proof
  assume "outcome (parse_header f) = Inr h"
  moreover from this have len: "32 \<le> length f"
    by (auto simp: parse_header_def split: if_splits)
  ultimately have magic: "take 8 f = TEST_FRAME_MAGIC"
    and h: "h = \<lparr>frame_version = from_le_bytes (take 4 (drop 8 f)),
          event_version = from_le_bytes (take 4 (drop 12 f)),
          header_sequence = from_le_bytes (take 8 (drop 16 f)),
          payload_bytes = from_le_bytes (take 4 (drop 24 f)),
          checksum = from_le_bytes (take 4 (drop 28 f))\<rparr>"
    by (auto simp: parse_header_def fixed_get slice_get_def split: if_splits)
  have "header_bytes h @ drop 32 f = f"
    using len split_at_offsets [OF len]
    by (simp add: header_bytes_def h magic le_bytes_32 le_bytes_64)
  then show "\<exists>p. f = header_bytes h @ p" by metis
next
  assume "\<exists>p. f = header_bytes h @ p"
  then obtain p where "f = header_bytes h @ p" ..
  then show "outcome (parse_header f) = Inr h"
    by (simp add: parse_header_def fixed_get slice_get_def header_bytes_def le_bytes_32 le_bytes_64)
qed

lemma header_bytes_inject: "header_bytes h @ p = header_bytes h' @ p' \<longleftrightarrow> h = h' \<and> p = p'"
proof
  assume eq: "header_bytes h @ p = header_bytes h' @ p'"
  then have "outcome (parse_header (header_bytes h @ p)) = Inr h"
    and "outcome (parse_header (header_bytes h @ p)) = Inr h'"
    using parse_header_iff by metis+
  with eq show "h = h' \<and> p = p'" by simp
qed simp

subsection \<open>What validation accepts\<close>

definition nonblank :: "text_bytes \<Rightarrow> bool" where
  "nonblank t \<longleftrightarrow> (\<exists>c \<in> set (utf8_chars t). \<not> char_is_whitespace c)"

lemma outcome_contains_non_whitespace [simp, comp_simps]:
  "outcome (contains_non_whitespace t) = Inr (nonblank t)"
proof -
  have "outcome (contains_non_whitespace_from cs) =
      Inr (\<exists>c \<in> snd ` set cs. \<not> char_is_whitespace c)" for cs
    by (induction cs rule: contains_non_whitespace_from.induct) auto
  then show ?thesis by (simp add: contains_non_whitespace_def nonblank_def utf8_chars_def)
qed

fun kind_ok :: "protocol_limits \<Rightarrow> test_event_kind \<Rightarrow> bool" where
  "kind_ok l (Log t lv m) = (m \<noteq> [])"
| "kind_ok l (AssertionFailed t f) =
     (nonblank (expression f) \<and> (\<forall>m. message f = Some m \<longrightarrow> nonblank m) \<and>
      admitted_option admitted_span l (source f))"
| "kind_ok l (TestFinished t (Failed m)) = nonblank m"
| "kind_ok l (TestFinished t (TimedOut n)) = (n \<noteq> 0)"
| "kind_ok l (RunFinished p f) = (unat p + unat f \<le> unat (events l))"
| "kind_ok l _ = True"

definition event_ok :: "protocol_limits \<Rightarrow> test_event \<Rightarrow> bool" where
  "event_ok l e \<longleftrightarrow>
     limits_ok l \<and> protocol e = TEST_EVENT_VERSION \<and> unat (sequence e) < unat (events l) \<and>
     fits_kind l (kind e) \<and> kind_ok l (kind e)"

lemma validate_string_Inr: "outcome (validate_string l v) = Inr u \<longleftrightarrow> fits_text l v"
  by (auto simp: validate_string_def fits_text_def)

lemma validate_strings_Inr:
  "outcome (for_each (\<lambda>_ v. validate_string l v) u vs) = Inr u' \<longleftrightarrow>
     (\<forall>v \<in> set vs. fits_text l v)"
  by (induction vs arbitrary: u)
    (auto simp: and_then_Inr validate_string_Inr simp del: outcome_and_then)

lemma checked_sum_within:
  "(case checked_add_u32 a b of None \<Rightarrow> True | Some s \<Rightarrow> s > m) \<longleftrightarrow> \<not> unat a + unat b \<le> unat m"
proof (cases "checked_add_u32 a b")
  case None
  then have "2 ^ 32 \<le> unat a + unat b" by (auto simp: checked_add_u32_def split: if_splits)
  with None u32_bound [of m] show ?thesis by simp
next
  case (Some s)
  then have "unat s = unat a + unat b" by (simp add: checked_add_u32_Some)
  with Some show ?thesis by (simp add: word_less_nat_alt not_le)
qed

lemma validate_failure_Inr:
  "outcome (validate_failure l f) = Inr u \<longleftrightarrow>
     fits_kind l (AssertionFailed t f) \<and> kind_ok l (AssertionFailed t f)"
  by (auto simp: validate_failure_def and_then_Inr validate_string_Inr validate_strings_Inr
      fits_kind_def texts_of_kind_def nonblank_def admitted_option_def admitted_span_def not_le
      simp del: outcome_and_then split: option.splits if_splits)

lemma validate_event_Inr: "outcome (validate_event e l) = Inr u \<longleftrightarrow> event_ok l e"
proof (cases "kind e")
  case (AssertionFailed t f)
  then show ?thesis
    by (auto simp: validate_event_def event_ok_def and_then_Inr limits_validate_Inr
        validate_failure_Inr [of l f _ t] word_le_nat_alt not_le simp del: outcome_and_then
        split: if_splits)
next
  case (TestFinished t out)
  then show ?thesis
    by (cases out; auto simp: validate_event_def event_ok_def and_then_Inr limits_validate_Inr
        validate_string_Inr fits_kind_def texts_of_kind_def word_le_nat_alt not_le
        simp del: outcome_and_then split: if_splits)
qed (auto simp: validate_event_def event_ok_def and_then_Inr limits_validate_Inr
        validate_string_Inr fits_kind_def texts_of_kind_def word_le_nat_alt not_le checked_sum_within
        simp del: outcome_and_then split: if_splits)

lemma validate_frame_shape_iff:
  "outcome (validate_frame_shape f h l) = Inr u \<longleftrightarrow>
     limits_ok l \<and> length f \<le> unat (frame_bytes l) \<and>
     frame_version h = TEST_FRAME_VERSION \<and> event_version h = TEST_EVENT_VERSION \<and>
     unat (header_sequence h) < unat (events l) \<and>
     (\<exists>p. f = header_bytes h @ p \<and> unat (payload_bytes h) = length p \<and> checksum h = crc32c p)"
proof -
  have room: "32 + unat (payload_bytes h) < usize_limit"
    using u32_bound [of "payload_bytes h"] by (simp add: usize_limit_def)
  have shape: "(32 \<le> length f \<and> (\<exists>p. f = header_bytes h @ p) \<and>
       32 + unat (payload_bytes h) = length f \<and> crc32c (drop 32 f) = checksum h) \<longleftrightarrow>
     (\<exists>p. f = header_bytes h @ p \<and> unat (payload_bytes h) = length p \<and> checksum h = crc32c p)"
    by auto
  have "outcome (validate_frame_shape f h l) = Inr u \<longleftrightarrow>
     limits_ok l \<and> length f \<le> unat (frame_bytes l) \<and>
     frame_version h = TEST_FRAME_VERSION \<and> event_version h = TEST_EVENT_VERSION \<and>
     unat (header_sequence h) < unat (events l) \<and>
     (32 \<le> length f \<and> (\<exists>p. f = header_bytes h @ p) \<and>
      32 + unat (payload_bytes h) = length f \<and> crc32c (drop 32 f) = checksum h)"
    using room
    by (auto simp: validate_frame_shape_def and_then_Inr limits_validate_Inr parse_header_iff Let_def
        slice_get_def word_le_nat_alt not_less not_le header_bytes_inject checked_add_usize_def
        simp del: outcome_and_then split: if_splits option.splits)
  then show ?thesis unfolding shape .
qed

lemma admitted_iff: "admitted_kind l k \<longleftrightarrow>
    fits_kind l k \<and> (\<forall>t \<in> set (texts_of_kind k). valid_utf8 t) \<and>
    (\<forall>t f. k = AssertionFailed t f \<longrightarrow> admitted_option admitted_span l (source f))"
proof (cases k)
  case (AssertionFailed t f)
  then show ?thesis
    by (auto simp: admitted_text_def fits_kind_def texts_of_kind_def admitted_option_def
        map_filter_simps split: option.splits)
next
  case (TestFinished t out)
  then show ?thesis
    by (cases out) (auto simp: admitted_text_def fits_kind_def texts_of_kind_def)
qed (auto simp: admitted_text_def fits_kind_def texts_of_kind_def)

lemma event_ok_admitted: "event_ok l e \<Longrightarrow> wf_event e \<Longrightarrow> admitted_kind l (kind e)"
  by (auto simp: event_ok_def wf_event_def admitted_iff)

lemma admitted_wf: "admitted_kind l (kind e) \<Longrightarrow> wf_event e"
  by (simp add: admitted_iff wf_event_def)

subsection \<open>Encoding and decoding characterised\<close>

lemma limits_room: "limits_ok l \<Longrightarrow> unat (frame_bytes l) - 32 < usize_limit"
  by (auto simp: limits_ok_def usize_limit_def)

lemma pw_new_simps [simp]:
  "pw_bytes (pw_new pl fl) = []" "payload_limit (pw_new pl fl) = pl" "frame_limit (pw_new pl fl) = fl"
  by (simp_all add: pw_new_def)

lemma frame_of_length [simp]: "length (frame_of e) = 32 + length (event_payload e)"
  by (simp add: frame_of_def)

lemma encode_payload:
  assumes "event_ok l e"
  shows "writes (and_then (pw_u32 (pw_new (unat (frame_bytes l) - 32) (frame_bytes l)) (protocol e)) (\<lambda>w.
       and_then (pw_u64 w (sequence e)) (\<lambda>w. encode_event_kind w (kind e) l)))
     (pw_new (unat (frame_bytes l) - 32) (frame_bytes l)) (event_payload e)"
  unfolding event_payload_def
  using assms limits_room [of l]
  by (intro writes_and_then writes_scalars writes_kind) (simp_all add: pw_new_def event_ok_def)

text \<open>The encoder with the payload written in one piece.\<close>

lemma encode_event_alt:
  "outcome (encode_event e l) =
     (case outcome (validate_event e l) of Inl x \<Rightarrow> Inl x | Inr u \<Rightarrow>
      case outcome (and_then (pw_u32 (pw_new (unat (frame_bytes l) - 32) (frame_bytes l)) (protocol e)) (\<lambda>w.
       and_then (pw_u64 w (sequence e)) (\<lambda>w. encode_event_kind w (kind e) l))) of
        Inl x \<Rightarrow> Inl (if unat (frame_bytes l) < 32 then InvalidLimits else x)
      | Inr w \<Rightarrow> outcome (
         and_then (guard_err (unat (frame_bytes l) < 32) InvalidLimits) (\<lambda>_.
         let payload = pw_bytes w in
         and_then (or_err (u32_try_from (length payload))
                (FrameTooLarge (frame_bytes l) (length payload))) (\<lambda>pb.
         let h = \<lparr>frame_version = TEST_FRAME_VERSION, event_version = TEST_EVENT_VERSION,
              header_sequence = sequence e, payload_bytes = pb, checksum = crc32c payload\<rparr> in
         and_then (or_err (checked_add_usize 32 (length payload))
                (FrameTooLarge (frame_bytes l) usize_max)) (\<lambda>capacity.
         and_then (guard_err (capacity > unat (frame_bytes l)) (FrameTooLarge (frame_bytes l) capacity)) (\<lambda>_.
         ok \<lparr>header = h, encoded_bytes = header_bytes h @ payload\<rparr>))))))"
  by (simp add: encode_event_def Let_def header_bytes_def split: sum.splits)

lemma encode_event_outcome:
  assumes "event_ok l e"
  shows "if length (frame_of e) \<le> unat (frame_bytes l) then outcome (encode_event e l) = Inr (encoded_of e)
     else \<exists>n. outcome (encode_event e l) = Inl (FrameTooLarge (frame_bytes l) n)"
proof -
  let ?w = "pw_new (unat (frame_bytes l) - 32) (frame_bytes l)"
  let ?p = "event_payload e"
  let ?c = "and_then (pw_u32 ?w (protocol e)) (\<lambda>w. and_then (pw_u64 w (sequence e))
      (\<lambda>w. encode_event_kind w (kind e) l))"
  have lim: "32 \<le> unat (frame_bytes l)" "unat (frame_bytes l) \<le> 1048576"
    using assms by (simp_all add: event_ok_def limits_ok_def)
  have valid: "outcome (validate_event e l) = Inr ()"
    using assms by (simp add: validate_event_Inr)
  have w: "if length ?p \<le> unat (frame_bytes l) - 32 then outcome ?c = Inr (pw_append ?w ?p)
      else \<exists>n. outcome ?c = Inl (FrameTooLarge (frame_bytes l) n)"
    using encode_payload [OF assms] by (simp add: writes_def del: outcome_and_then split: if_splits)
  show ?thesis
  proof (cases "length ?p \<le> unat (frame_bytes l) - 32")
    case True
    with w have c: "outcome ?c = Inr (pw_append ?w ?p)" by (simp del: outcome_and_then)
    have len: "u32_try_from (length ?p) = Some (word_of_nat (length ?p))"
      using True lim by (simp add: u32_try_from_def)
    have "32 + length ?p < usize_limit" using True lim by (simp add: usize_limit_def)
    with True lim len show ?thesis
      unfolding encode_event_alt valid c
      by (simp add: Let_def pw_new_def encoded_of_def frame_of_def header_of_def checked_add_usize_def)
  next
    case False
    with w obtain n where c: "outcome ?c = Inl (FrameTooLarge (frame_bytes l) n)"
      by (auto simp del: outcome_and_then)
    with False lim show ?thesis unfolding encode_event_alt valid c by simp
  qed
qed

lemma encode_event_Inr:
  "outcome (encode_event e l) = Inr c \<longleftrightarrow>
     event_ok l e \<and> length (frame_of e) \<le> unat (frame_bytes l) \<and> c = encoded_of e"
proof (cases "event_ok l e")
  case True
  with encode_event_outcome [OF True] show ?thesis by (auto split: if_splits)
next
  case False
  then have "outcome (validate_event e l) \<noteq> Inr ()" by (simp add: validate_event_Inr)
  then obtain x where "outcome (validate_event e l) = Inl x"
    by (cases "outcome (validate_event e l)") auto
  then show ?thesis using False unfolding encode_event_alt by simp
qed

lemma frame_of_shape:
  assumes "event_ok l e" and "length (frame_of e) \<le> unat (frame_bytes l)"
  shows "outcome (validate_frame_shape (frame_of e) (header_of e) l) = Inr ()"
proof -
  have "length (event_payload e) < 2 ^ 32"
    using assms(2) u32_bound [of "frame_bytes l"] by simp
  then have "unat (payload_bytes (header_of e)) = length (event_payload e)"
    by (simp add: header_of_def unat_of_nat_u32)
  then show ?thesis
    using assms
    by (auto simp: validate_frame_shape_iff event_ok_def frame_of_def header_of_def)
qed

lemma read_payload_iff:
  assumes "length p < usize_limit"
  shows "outcome (and_then (pr_u32 (pr_new p l)) (\<lambda>(proto, r). and_then (pr_u64 r) (\<lambda>(sq, r).
       and_then (decode_event_kind r) (\<lambda>(k, r). and_then (pr_finish r) (\<lambda>_.
       ok \<lparr>protocol = proto, sequence = sq, kind = k\<rparr>))))) = Inr e \<longleftrightarrow>
     p = event_payload e \<and> admitted_kind l (kind e)"
    (is "outcome ?c = Inr e \<longleftrightarrow> _")
proof -
  let ?r = "pr_new p l"
  have wf: "wf_reader ?r" and lim: "pr_limits ?r = l" and rest: "rest ?r = p"
    using assms by (simp_all add: wf_reader_def pr_new_def rest_def)
  have fin: "outcome (pr_finish r') = Inr u \<longleftrightarrow> rest r' = []" if "wf_reader r'" for r' u
    using that by (auto simp: pr_finish_def rest_def wf_reader_def)
  have "outcome ?c = Inr e \<longleftrightarrow> (\<exists>r1 r2 r3. moved ?r (to_le_bytes 4 (protocol e)) r1 \<and>
      moved r1 (to_le_bytes 8 (sequence e)) r2 \<and> moved r2 (kind_bytes (kind e)) r3 \<and>
      admitted_kind l (kind e) \<and> rest r3 = [])"
    using wf
    by (cases e) (auto simp: and_then_Inr pr_u32_iff pr_u64_iff decode_event_kind_iff
        moved_wf_cond moved_limits lim fin simp del: outcome_and_then cong: conj_cong, blast)
  also have "\<dots> \<longleftrightarrow> (\<exists>r3. moved ?r (event_payload e) r3 \<and> rest r3 = []) \<and> admitted_kind l (kind e)"
    unfolding event_payload_def moved_append by blast
  also have "(\<exists>r3. moved ?r (event_payload e) r3 \<and> rest r3 = []) \<longleftrightarrow> p = event_payload e"
  proof
    show "\<exists>r3. moved ?r (event_payload e) r3 \<and> rest r3 = [] \<Longrightarrow> p = event_payload e"
      using moved_rest rest by fastforce
    assume p: "p = event_payload e"
    then have m: "moved ?r (event_payload e) (?r\<lparr>offset := length p\<rparr>)"
      using wf rest by (auto simp: moved_def pr_new_def)
    from moved_rest [OF m] rest p show "\<exists>r3. moved ?r (event_payload e) r3 \<and> rest r3 = []"
      using m by auto
  qed
  finally show ?thesis .
qed

lemma decode_event_Inr:
  "outcome (decode_event f l) = Inr e \<longleftrightarrow>
     event_ok l e \<and> wf_event e \<and> length f \<le> unat (frame_bytes l) \<and> f = frame_of e"
proof -
  let ?read = "\<lambda>p. and_then (pr_u32 (pr_new p l)) (\<lambda>(proto, r). and_then (pr_u64 r) (\<lambda>(sq, r).
       and_then (decode_event_kind r) (\<lambda>(k, r). and_then (pr_finish r) (\<lambda>_.
       ok \<lparr>protocol = proto, sequence = sq, kind = k\<rparr>))))"
  have alt: "outcome (decode_event f l) = Inr e \<longleftrightarrow>
      (\<exists>h. limits_ok l \<and> outcome (parse_header f) = Inr h \<and>
         outcome (validate_frame_shape f h l) = Inr () \<and>
         outcome (?read (drop 32 f)) = Inr e \<and> event_ok l e \<and>
         protocol e = event_version h \<and> sequence e = header_sequence h)"
    by (cases e) (auto simp: decode_event_def and_then_Inr limits_validate_Inr validate_event_Inr
        Let_def slice_get_def validate_frame_shape_iff simp del: outcome_and_then
        split: if_splits option.splits; blast)
  have word: "(word_of_nat (length p) :: u32) = w" if "unat w = length p" for w :: u32 and p :: "u8 list"
    using that [symmetric] by simp
  show ?thesis
  proof
    assume "outcome (decode_event f l) = Inr e"
    then obtain h where h: "outcome (validate_frame_shape f h l) = Inr ()"
        "outcome (?read (drop 32 f)) = Inr e" "event_ok l e"
        "protocol e = event_version h" "sequence e = header_sequence h"
      unfolding alt by blast
    from h(1) obtain p where p: "f = header_bytes h @ p" "unat (payload_bytes h) = length p"
        "checksum h = crc32c p" "frame_version h = TEST_FRAME_VERSION"
        "event_version h = TEST_EVENT_VERSION" "length f \<le> unat (frame_bytes l)"
      unfolding validate_frame_shape_iff by blast
    have "length p < usize_limit"
      using p(6) u32_bound [of "frame_bytes l"] by (simp add: p(1) usize_limit_def)
    from read_payload_iff [OF this, of l e] h(2) p(1)
    have ep: "p = event_payload e" and adm: "admitted_kind l (kind e)"
      by (simp_all del: outcome_and_then)
    have "h = header_of e"
      using p h ep word by (cases h) (simp add: header_of_def)
    then show "event_ok l e \<and> wf_event e \<and> length f \<le> unat (frame_bytes l) \<and> f = frame_of e"
      using h(3) p ep admitted_wf [OF adm] by (simp add: frame_of_def)
  next
    assume e: "event_ok l e \<and> wf_event e \<and> length f \<le> unat (frame_bytes l) \<and> f = frame_of e"
    then have shape: "outcome (validate_frame_shape f (header_of e) l) = Inr ()"
      using frame_of_shape by blast
    have "length (event_payload e) < usize_limit"
      using e u32_bound [of "frame_bytes l"] by (auto simp: usize_limit_def)
    from read_payload_iff [OF this, of l e] e event_ok_admitted
    have "outcome (?read (drop 32 f)) = Inr e" by (simp add: frame_of_def del: outcome_and_then)
    moreover have "outcome (parse_header f) = Inr (header_of e)"
      using e by (auto simp: parse_header_iff frame_of_def)
    ultimately show "outcome (decode_event f l) = Inr e"
      unfolding alt using shape e
      by (intro exI [of _ "header_of e"]) (simp add: event_ok_def header_of_def del: outcome_and_then)
  qed
qed

subsection \<open>Comparison is equality\<close>

lemma zip_chunks_equal:
  "length a = length b \<Longrightarrow> 0 < n \<Longrightarrow>
   (\<forall>(x, y) \<in> set (zip (chunks n a) (chunks n b)). x = y) \<longleftrightarrow> a = b"
proof (induction n a arbitrary: b rule: chunks.induct)
  case (1 n a)
  show ?case
  proof (cases "a = []")
    case False
    with "1.prems" have b: "b \<noteq> []" by auto
    have "(\<forall>(x, y) \<in> set (zip (chunks n (drop n a)) (chunks n (drop n b))). x = y) \<longleftrightarrow>
        drop n a = drop n b"
      using "1.prems" False by (intro "1.IH") auto
    moreover have "a = b \<longleftrightarrow> take n a = take n b \<and> drop n a = drop n b"
      by (metis append_take_drop_id)
    ultimately show ?thesis using "1.prems" False b by (simp add: chunks_step)
  qed (use "1.prems" in simp)
qed

lemma outcome_bytes_equal [simp, comp_simps]: "outcome (bytes_equal a b) = Inr (a = b)"
proof -
  have eq: "outcome (equal_chunks ps) = Inr (\<forall>(x, y) \<in> set ps. x = y)" for ps
    by (induction ps rule: equal_chunks.induct) auto
  show ?thesis
    using zip_chunks_equal [of a b CANCELLATION_POLL_BYTES]
    by (auto simp: bytes_equal_def eq CANCELLATION_POLL_BYTES_def)
qed

lemma outcome_optional_strings_equal [simp]:
  "outcome (optional_strings_equal a b) = Inr (a = b)"
  by (auto simp: optional_strings_equal_def split: option.splits)

lemma outcome_and_also [simp]:
  "outcome c = Inr p \<Longrightarrow> outcome d = Inr q \<Longrightarrow> outcome (and_also c d) = Inr (p \<and> q)"
  by (simp add: and_also_def)

lemma outcome_outcomes_equal [simp]: "outcome (outcomes_equal a b) = Inr (a = b)"
  by (cases a; cases b) (simp_all add: outcomes_equal_def)

lemma outcome_events_equal [simp]: "outcome (events_equal a b) = Inr (a = b)"
proof (cases "protocol a = protocol b \<and> sequence a = sequence b")
  case True
  then have eq: "a = b \<longleftrightarrow> kind a = kind b" by (cases a; cases b) simp
  show ?thesis
  proof (cases "\<exists>t f t' f'. kind a = AssertionFailed t f \<and> kind b = AssertionFailed t' f'")
    case c: True
    then obtain t f t' f' where k: "kind a = AssertionFailed t f" "kind b = AssertionFailed t' f'"
      by blast
    have "outcome (events_equal a b) = Inr ((t = t' \<and> source f = source f') \<and>
        expression f = expression f' \<and> message f = message f' \<and> expected f = expected f' \<and>
        actual f = actual f')"
      using True k by (auto simp: events_equal_def and_also_def)
    then show ?thesis by (cases f; cases f') (auto simp: eq k)
  next
    case False
    with True show ?thesis
      by (cases "kind a"; cases "kind b") (auto simp: events_equal_def eq and_also_def)
  qed
qed (auto simp: events_equal_def)

subsection \<open>Interruption points\<close>

text \<open>The errors with which the host can end an operation of the protocol: cancellation, or an
  allocation it refuses.\<close>

definition host_errors :: "protocol_error set" where
  "host_errors = insert Cancelled (range (\<lambda>(r, n). ResourceLimit r n))"

lemma host_errors_simps [simp]:
  "Cancelled \<in> host_errors" "ResourceLimit r n \<in> host_errors"
  by (auto simp: host_errors_def)

definition quiet :: "'a pcomp \<Rightarrow> bool" where
  "quiet c \<longleftrightarrow> set (points c) \<subseteq> host_errors"

lemma quiet_basic [simp]:
  "quiet (ok x)" "quiet (err e)" "quiet (or_err y e)" "quiet (guard_err b e)"
  "quiet (limits_validate l)" "quiet (ask e) = (e \<in> host_errors)"
  by (simp_all add: quiet_def)

lemma quiet_and_then: "quiet c \<Longrightarrow> (\<And>x. quiet (f x)) \<Longrightarrow> quiet (and_then c f)"
  unfolding quiet_def by (rule points_and_then_subset)

lemma quiet_for_each: "(\<And>s x. quiet (f s x)) \<Longrightarrow> quiet (for_each f s xs)"
  unfolding quiet_def by (rule points_for_each)

lemma quiet_crc: "quiet (crc32c_cancellable bs)"
  using points_crc32c [of bs] by (auto simp: quiet_def)

lemma quiet_non_whitespace: "quiet (contains_non_whitespace v)"
proof -
  have "quiet (contains_non_whitespace_from cs)" for cs
    by (induction cs rule: contains_non_whitespace_from.induct) (auto intro!: quiet_and_then)
  then show ?thesis by (simp add: contains_non_whitespace_def)
qed

lemma quiet_copy_utf8: "quiet (copy_utf8 bs)"
proof -
  have "quiet (copy_utf8_from bs off out)" for off out
  proof (induction bs off out rule: copy_utf8_from.induct)
    case (1 bs off out)
    show ?case
      by (cases "off < length bs")
        (auto simp: copy_utf8_from.simps [of bs off out] quiet_def points_and_then
          split: sum.splits option.splits dest: "1.IH" [unfolded quiet_def])
  qed
  then show ?thesis by (auto simp: copy_utf8_def intro!: quiet_and_then)
qed

lemma quiet_bytes_equal: "quiet (bytes_equal a b)"
proof -
  have "quiet (equal_chunks ps)" for ps
    by (induction ps rule: equal_chunks.induct) (auto intro!: quiet_and_then)
  then show ?thesis by (auto simp: bytes_equal_def intro!: quiet_and_then)
qed

lemma quiet_take: "quiet (pr_take r n)"
  by (auto simp: pr_take_def intro!: quiet_and_then)

lemma quiet_extend: "quiet (pw_extend w v)"
  by (auto simp: pw_extend_def intro!: quiet_and_then quiet_for_each)

lemma quiet_scalars:
  "quiet (pr_u8 r)" "quiet (pr_u32 r)" "quiet (pr_u64 r)" "quiet (pr_finish r)"
  "quiet (pw_u8 w b)" "quiet (pw_u32 w x)" "quiet (pw_u64 w y)"
  by (auto simp: pr_u8_def pr_u32_def pr_u64_def pr_finish_def pw_u8_def pw_u32_def pw_u64_def
      quiet_extend intro!: quiet_and_then quiet_take)

lemma quiet_strings: "quiet (pr_string r)" "quiet (pw_string w t l)" "quiet (pw_optional_string w x l)"
  by (auto simp: pr_string_def pw_string_def pw_optional_string_def quiet_extend quiet_copy_utf8
      intro!: quiet_and_then quiet_take quiet_scalars split: option.splits)

lemmas quiet_intros = quiet_and_then quiet_for_each quiet_crc quiet_non_whitespace quiet_copy_utf8
  quiet_bytes_equal quiet_take quiet_extend quiet_scalars quiet_strings

lemma quiet_optionals:
  "quiet (pr_optional_string r k)" "quiet (pr_optional_test r)" "quiet (pr_optional_source r)"
  "quiet (pr_outcome r)"
  by (auto simp: pr_optional_string_def pr_optional_test_def pr_optional_source_def pr_span_def
      pr_outcome_def decode_language_fatal_cause_def intro!: quiet_intros split: sum.splits)

lemma quiet_kinds: "quiet (decode_event_kind r)" "quiet (encode_event_kind w k l)"
  by (auto simp: decode_event_kind_def encode_event_kind_def decode_log_level_def
      intro!: quiet_intros quiet_optionals
      split: test_event_kind.splits option.splits guest_test_outcome.splits)

lemma quiet_header: "quiet (parse_header f)" "quiet (validate_frame_shape f h l)"
  by (auto simp: parse_header_def fixed_u32_def fixed_u64_def validate_frame_shape_def Let_def
      intro!: quiet_intros)

lemma quiet_validate_event: "quiet (validate_event e l)"
  by (auto simp: validate_event_def validate_failure_def validate_string_def intro!: quiet_intros
      split: test_event_kind.splits option.splits guest_test_outcome.splits)

lemma quiet_codec: "quiet (encode_event e l)" "quiet (decode_event f l)" "quiet (inspect_frame_header f)"
  by (auto simp: encode_event_def decode_event_def inspect_frame_header_def Let_def
      intro!: quiet_intros quiet_kinds quiet_header quiet_validate_event)

lemma quiet_exec: "quiet c \<Longrightarrow> exec h c = outcome c \<or> (\<exists>x \<in> host_errors. exec h c = Inl x)"
  using exec_cases [of h c] by (auto simp: quiet_def)

subsection \<open>Codecs through the trait\<close>

text \<open>What the users of \<open>TestEventCodec\<close> rely on: the encoder only produces well-shaped frames of
  valid events, the header it reports is the header in its bytes, and its frames decode.\<close>

locale lawful_codec =
  fixes codec :: test_event_codec
  assumes encode_valid: "outcome (encode codec e l) = Inr c \<Longrightarrow> event_ok l e"
    and encode_shape: "outcome (encode codec e l) = Inr c \<Longrightarrow>
      outcome (validate_frame_shape (encoded_bytes c) (header c) l) = Inr ()"
    and encode_header: "outcome (encode codec e l) = Inr c \<Longrightarrow>
      outcome (inspect_header codec (encoded_bytes c)) = Inr (header c) \<and>
      header_sequence (header c) = sequence e"
    and decode_encode: "wf_event e \<Longrightarrow> outcome (encode codec e l) = Inr c \<Longrightarrow>
      outcome (decode codec (encoded_bytes c) l) = Inr e"
begin

lemma verify_encoded:
  assumes "wf_event e" and "outcome (encode codec e l) = Inr c"
  shows "outcome (decode_and_verify_event codec (encoded_bytes c) l) = Inr e"
proof -
  have ok: "event_ok l e" and shape: "outcome (validate_frame_shape (encoded_bytes c) (header c) l) = Inr ()"
    using encode_valid encode_shape assms by blast+
  then have "outcome (limits_validate l) = Inr ()" "outcome (validate_event e l) = Inr ()"
    "length (encoded_bytes c) \<le> unat (frame_bytes l)"
    by (auto simp: limits_validate_Inr validate_event_Inr event_ok_def validate_frame_shape_iff)
  then show ?thesis
    using assms shape encode_header [OF assms(2)] decode_encode [OF assms]
    by (simp add: decode_and_verify_event_def)
qed

lemma seal_encoded:
  assumes "wf_event e"
  shows "outcome (seal_encoded_event codec e l) = Inr c \<longleftrightarrow> outcome (encode codec e l) = Inr c"
proof
  assume c: "outcome (encode codec e l) = Inr c"
  have "outcome (validate_event e l) = Inr ()"
    using encode_valid [OF c] by (simp add: validate_event_Inr)
  then show "outcome (seal_encoded_event codec e l) = Inr c"
    using c encode_shape [OF c] encode_header [OF c] verify_encoded [OF assms c]
    by (simp add: seal_encoded_event_def)
qed (auto simp: seal_encoded_event_def split: sum.splits if_splits)

end

lemma canonical_codec_simps [simp]:
  "encode canonical_codec = encode_event" "decode canonical_codec = decode_event"
  "inspect_header canonical_codec = inspect_frame_header"
  by (simp_all add: canonical_codec_def)

interpretation canonical: lawful_codec canonical_codec
proof
  fix e l c
  assume "outcome (encode canonical_codec e l) = Inr c"
  then have c: "event_ok l e" "length (frame_of e) \<le> unat (frame_bytes l)" "c = encoded_of e"
    by (simp_all add: encode_event_Inr)
  show "event_ok l e" by (rule c(1))
  show "outcome (validate_frame_shape (encoded_bytes c) (header c) l) = Inr ()"
    using frame_of_shape [OF c(1,2)] by (simp add: c(3) encoded_of_def)
  show "outcome (inspect_header canonical_codec (encoded_bytes c)) = Inr (header c) \<and>
      header_sequence (header c) = sequence e"
    by (auto simp: c(3) encoded_of_def inspect_frame_header_def parse_header_iff frame_of_def
        header_of_def)
  show "wf_event e \<Longrightarrow> outcome (decode canonical_codec (encoded_bytes c) l) = Inr e"
    using c by (simp add: decode_event_Inr encoded_of_def)
qed

lemma verify_sound:
  assumes "outcome (decode_and_verify_event codec f l) = Inr e"
  shows "event_ok l e \<and> outcome (decode codec f l) = Inr e \<and>
    (\<exists>c. outcome (encode codec e l) = Inr c \<and> encoded_bytes c = f \<and>
       outcome (validate_frame_shape f (header c) l) = Inr () \<and> header_sequence (header c) = sequence e)"
  using assms
  by (auto simp: decode_and_verify_event_def and_then_Inr validate_event_Inr simp del: outcome_and_then
      split: if_splits)

subsection \<open>Properties\<close>

text \<open>C5. The canonical codec is a bijection between well-formed events within the limits and the
  byte strings it decodes: a frame decodes to an event exactly when that event is made of valid
  UTF-8 text and encodes to that very frame. Every frame the encoder produces decodes to the
  event it came from, and there is no second, non-canonical spelling that decodes.\<close>

theorem codec_canonical:
  "outcome (decode_event f l) = Inr e \<longleftrightarrow>
     wf_event e \<and> (\<exists>c. outcome (encode_event e l) = Inr c \<and> encoded_bytes c = f)"
  by (auto simp: decode_event_Inr encode_event_Inr encoded_of_def)

text \<open>C11. Sealing then verifying returns the event: whenever \<open>seal_encoded_event\<close> accepts an event
  under some host, its frame is the canonical encoding, is no longer than the frame limit, and
  \<open>decode_and_verify_event\<close> gives the event back, for every host that does not interrupt it.\<close>

theorem seal_then_verify:
  assumes "wf_event e" and "exec h (seal_encoded_event canonical_codec e l) = Inr c"
  shows "outcome (encode_event e l) = Inr c \<and>
    length (encoded_bytes c) \<le> unat (frame_bytes l) \<and>
    exec (\<lambda>_. False) (decode_and_verify_event canonical_codec (encoded_bytes c) l) = Inr e"
proof -
  have c: "outcome (encode canonical_codec e l) = Inr c"
    using canonical.seal_encoded [OF assms(1)] exec_Inr [OF assms(2)] by blast
  with canonical.verify_encoded [OF assms(1) c] show ?thesis
    by (auto simp: exec_quiet encode_event_Inr encoded_of_def)
qed

text \<open>C12. \<open>decode_and_verify_event\<close> trusts no codec: whatever the codec behind the trait does, an
  event it returns is valid under the limits, the frame has the fixed header, the stated length
  and the right checksum, and two frames that verify to the same event are the same bytes.\<close>

theorem verify_any_codec:
  assumes "exec h (decode_and_verify_event codec f l) = Inr e"
  shows "outcome (validate_event e l) = Inr () \<and>
    (\<exists>fh. outcome (parse_header f) = Inr fh \<and> header_sequence fh = sequence e \<and>
       32 + unat (payload_bytes fh) = length f \<and> checksum fh = crc32c (drop 32 f)) \<and>
    (\<forall>h' f'. exec h' (decode_and_verify_event codec f' l) = Inr e \<longrightarrow> f' = f)"
proof (intro conjI allI impI)
  from verify_sound [OF exec_Inr [OF assms]] obtain c where ok: "event_ok l e"
    and c: "outcome (encode codec e l) = Inr c" "encoded_bytes c = f"
      "outcome (validate_frame_shape f (header c) l) = Inr ()" "header_sequence (header c) = sequence e"
    by blast
  show "outcome (validate_event e l) = Inr ()" using ok by (simp add: validate_event_Inr)
  show "\<exists>fh. outcome (parse_header f) = Inr fh \<and> header_sequence fh = sequence e \<and>
       32 + unat (payload_bytes fh) = length f \<and> checksum fh = crc32c (drop 32 f)"
    using c(3,4) by (auto simp: validate_frame_shape_iff parse_header_iff intro!: exI [of _ "header c"])
  fix h' f' assume "exec h' (decode_and_verify_event codec f' l) = Inr e"
  from verify_sound [OF exec_Inr [OF this]] c(1,2) show "f' = f" by auto
qed

lemma shape_bad_checksum:
  assumes "limits_ok l" and "length (header_bytes h @ p) \<le> unat (frame_bytes l)"
    and "frame_version h = TEST_FRAME_VERSION" and "event_version h = TEST_EVENT_VERSION"
    and "unat (header_sequence h) < unat (events l)" and "unat (payload_bytes h) = length p"
    and "checksum h \<noteq> crc32c p"
  shows "outcome (decode_event (header_bytes h @ p) l) = Inl InvalidChecksum"
proof -
  have "outcome (limits_validate l) = Inr ()" using assms(1) by (simp add: limits_validate_Inr)
  moreover have "outcome (parse_header (header_bytes h @ p)) = Inr h"
    by (auto simp: parse_header_iff)
  moreover have "32 + length p < usize_limit"
    using assms(2) u32_bound [of "frame_bytes l"] by (simp add: usize_limit_def)
  ultimately show ?thesis
    using assms
    by (simp add: decode_event_def validate_frame_shape_def Let_def slice_get_def
        checked_add_usize_def word_le_nat_alt)
qed

text \<open>C9. Corruption is detected: if a frame decodes, then no frame that differs from it inside the
  payload, within any four consecutive bytes, is accepted under any host. A decoding that runs to its
  end rejects it with \<open>InvalidChecksum\<close>; a host that interrupts the decoding first gets its own
  error, the cancellation or the refused allocation, and these are the only results.\<close>

theorem payload_burst_detected:
  assumes "outcome (decode_event (hb @ p @ u @ s) l) = Inr e" and "length hb = 32"
    and "length v = length u" and "length u \<le> 4" and "v \<noteq> u"
  shows "outcome (decode_event (hb @ p @ v @ s) l) = Inl InvalidChecksum \<and>
    (\<exists>x \<in> insert InvalidChecksum host_errors. exec h (decode_event (hb @ p @ v @ s) l) = Inl x)"
proof -
  have ok: "event_ok l e" "hb @ p @ u @ s = frame_of e" "length (hb @ p @ u @ s) \<le> unat (frame_bytes l)"
    using assms(1) unfolding decode_event_Inr by blast+
  then have hb: "hb = header_bytes (header_of e)" and pay: "p @ u @ s = event_payload e"
    using assms(2) by (simp_all add: frame_of_def)
  have len: "length (p @ v @ s) = length (event_payload e)" using assms(3) pay [symmetric] by simp
  have "crc32c (p @ v @ s) \<noteq> crc32c (p @ u @ s)" using crc32c_burst assms(3-5) by metis
  moreover have "length (event_payload e) < 2 ^ 32"
    using ok(2,3) u32_bound [of "frame_bytes l"] by simp
  ultimately have "outcome (decode_event (header_bytes (header_of e) @ p @ v @ s) l) = Inl InvalidChecksum"
    using ok len pay
    by (intro shape_bad_checksum) (auto simp: event_ok_def header_of_def unat_of_nat_u32)
  with quiet_exec [OF quiet_codec(2), of h "hb @ p @ v @ s" l] show ?thesis by (auto simp: hb)
qed

text \<open>C14. Encoding a valid event is total: it yields a frame of exactly 32 bytes more than the
  payload when that is within the frame limit and \<open>FrameTooLarge\<close> otherwise; under any host the
  only other results are the host's own errors, cancellation and refused allocations.\<close>

theorem encode_event_total:
  assumes "outcome (validate_event e l) = Inr ()"
  shows "\<exists>r. outcome (encode_event e l) = r \<and>
    (if 32 + length (event_payload e) \<le> unat (frame_bytes l)
     then \<exists>c. r = Inr c \<and> encoded_bytes c = header_bytes (header c) @ event_payload e
     else \<exists>n. r = Inl (FrameTooLarge (frame_bytes l) n)) \<and>
    (exec h (encode_event e l) = r \<or> (\<exists>x \<in> host_errors. exec h (encode_event e l) = Inl x))"
  using encode_event_outcome [of l e] quiet_exec [OF quiet_codec(1), of h e l] assms
  by (auto simp: validate_event_Inr encoded_of_def frame_of_def split: if_splits)

subsection \<open>Witnesses\<close>

definition sample_event :: test_event where
  "sample_event = \<lparr>protocol = 3, sequence = 2, kind = Log (Some 7) Info (str ''hi'')\<rparr>"

lemma sample_event_ok: "event_ok limits_standard sample_event"
  using limits_standard_ok
  by (simp add: event_ok_def sample_event_def protocol_constants fits_kind_def
      texts_of_kind_def fits_text_def limits_standard_def str_def)

lemma sample_event_wf: "wf_event sample_event"
  by (simp add: sample_event_def wf_event_def texts_of_kind_def valid_utf8_str)

lemma sample_payload:
  "event_payload sample_event = [3,0,0,0, 2,0,0,0,0,0,0,0, 2,1,7,0,0,0,2,2,0,0,0,0x68,0x69]"
  by (simp add: event_payload_def sample_event_def option_field_def text_field_def str_def
      to_le_bytes_unfold)

lemma sample_encodes: "outcome (encode_event sample_event limits_standard) = Inr (encoded_of sample_event)"
  using sample_event_ok by (simp add: encode_event_Inr sample_payload limits_standard_def)

theorem seal_then_verify_witness:
  "exec (\<lambda>_. False) (decode_and_verify_event canonical_codec (frame_of sample_event) limits_standard) =
     Inr sample_event"
proof -
  have "exec (\<lambda>_. False) (seal_encoded_event canonical_codec sample_event limits_standard) =
      Inr (encoded_of sample_event)"
    using canonical.seal_encoded [OF sample_event_wf] sample_encodes by (simp add: exec_quiet)
  from seal_then_verify [OF sample_event_wf this] show ?thesis by (simp add: encoded_of_def)
qed

theorem verify_any_codec_witness:
  "exec (\<lambda>_. False) (decode_and_verify_event canonical_codec (frame_of sample_event) limits_standard) =
     Inr sample_event \<and> outcome (validate_event sample_event limits_standard) = Inr ()"
proof -
  have "exec (\<lambda>_. False) (decode_and_verify_event canonical_codec (frame_of sample_event) limits_standard) =
     Inr sample_event"
    using canonical.verify_encoded [OF sample_event_wf, of limits_standard "encoded_of sample_event"]
      sample_encodes by (simp add: exec_quiet encoded_of_def)
  with verify_any_codec [OF this] show ?thesis by blast
qed

theorem payload_burst_detected_witness:
  "outcome (decode_event (header_bytes (header_of sample_event) @
     [3,0,0,0, 2,0,0,0,0,0,0,0, 2,1,7,0,0,0,2,2,0,0,0] @ [0x68,0x6F] @ []) limits_standard) = Inl InvalidChecksum \<and>
   (\<exists>x \<in> insert InvalidChecksum host_errors. exec (\<lambda>_. True) (decode_event (header_bytes (header_of sample_event) @
     [3,0,0,0, 2,0,0,0,0,0,0,0, 2,1,7,0,0,0,2,2,0,0,0] @ [0x68,0x6F] @ []) limits_standard) = Inl x)"
proof -
  have "frame_of sample_event = header_bytes (header_of sample_event) @
     [3,0,0,0, 2,0,0,0,0,0,0,0, 2,1,7,0,0,0,2,2,0,0,0] @ [0x68,0x69] @ []"
    by (simp add: frame_of_def sample_payload)
  moreover have "outcome (decode_event (frame_of sample_event) limits_standard) = Inr sample_event"
    using sample_event_ok sample_event_wf
    by (simp add: decode_event_Inr sample_payload limits_standard_def)
  ultimately have "outcome (decode_event (header_bytes (header_of sample_event) @
     [3,0,0,0, 2,0,0,0,0,0,0,0, 2,1,7,0,0,0,2,2,0,0,0] @ [0x68,0x69] @ []) limits_standard) = Inr sample_event"
    by simp
  from payload_burst_detected [OF this, of "[0x68,0x6F]" "\<lambda>_. True"] show ?thesis by simp
qed

theorem encode_event_total_witness:
  "\<exists>c. outcome (encode_event sample_event limits_standard) = Inr c \<and>
     encoded_bytes c = header_bytes (header c) @ event_payload sample_event"
proof -
  have "outcome (validate_event sample_event limits_standard) = Inr ()"
    using sample_event_ok by (simp add: validate_event_Inr)
  from encode_event_total [OF this] show ?thesis
    by (simp add: sample_payload limits_standard_def)
qed

end
