(* ===== verification/Test_Table.thy ===== *)
theory Test_Table
  imports Event_Frame "HOL-Library.Multiset"
begin

text \<open>
  The open-addressing hash table \<open>TestStateTable\<close> of \<open>crates/wrela-test-protocol\<close>, in which the
  stream checker keeps the state of every test. The locale \<open>state_table\<close> is the contract of a
  table of test states as its client uses it: an insertion fails only on a test already present
  or past the maximum, and every operation acts on a finite map. The hash table is shown to
  satisfy it, rehashing and probing included.
\<close>

subsection \<open>Definitions\<close>

datatype tracked_test_state = Active | Finished

record test_state_slot =
  slot_test :: test_id
  slot_state :: tracked_test_state

record test_state_table =
  slots :: "test_state_slot option list"
  entries :: nat
  maximum :: u32

definition table_new :: "u32 \<Rightarrow> test_state_table" where
  "table_new m = \<lparr>slots = [], entries = 0, maximum = m\<rparr>"

definition set_maximum :: "test_state_table \<Rightarrow> u32 \<Rightarrow> test_state_table" where
  "set_maximum tb m = tb\<lparr>maximum := m\<rparr>"

definition test_slot_start :: "test_id \<Rightarrow> nat \<Rightarrow> nat" where
  "test_slot_start test m = unat (test * 0x9E3779B9 XOR rotate_right_u32 16 test) AND m"

definition poll_entries :: "nat \<Rightarrow> unit pcomp" where
  "poll_entries i = (if i AND (CANCELLATION_POLL_ENTRIES - 1) = 0 then ask Cancelled else ok ())"

text \<open>The probing loops; the last argument counts the iterations left of \<open>0..slots.len()\<close>.\<close>

fun find_from :: "test_state_slot option list \<Rightarrow> test_id \<Rightarrow> nat \<Rightarrow> nat \<Rightarrow> nat \<Rightarrow> nat option pcomp" where
  "find_from s test index probe 0 = ok None"
| "find_from s test index probe (Suc n) =
     and_then (poll_entries probe) (\<lambda>_.
     case list_get s index of
       Some (Some slot) \<Rightarrow>
         if slot_test slot = test then ok (Some index)
         else find_from s test ((index + 1) AND (length s - 1)) (probe + 1) n
     | _ \<Rightarrow> ok None)"

definition find_test :: "test_state_table \<Rightarrow> test_id \<Rightarrow> nat option pcomp" where
  "find_test tb test =
     (if slots tb = [] then ok None
      else find_from (slots tb) test (test_slot_start test (length (slots tb) - 1)) 0 (length (slots tb)))"

fun place_from ::
  "test_state_slot option list \<Rightarrow> test_state_slot \<Rightarrow> nat \<Rightarrow> nat \<Rightarrow> nat
    \<Rightarrow> (test_state_slot option list \<times> bool) pcomp" where
  "place_from s slot index probe 0 = ok (s, False)"
| "place_from s slot index probe (Suc n) =
     and_then (poll_entries probe) (\<lambda>_.
     case list_get s index of
       Some None \<Rightarrow> ok (s[index := Some slot], True)
     | Some (Some _) \<Rightarrow> place_from s slot ((index + 1) AND (length s - 1)) (probe + 1) n
     | None \<Rightarrow> ok (s, False))"

definition place_test_slot ::
  "test_state_slot option list \<Rightarrow> test_state_slot \<Rightarrow> (test_state_slot option list \<times> bool) pcomp" where
  "place_test_slot s slot =
     (if s = [] then ok (s, False)
      else place_from s slot (test_slot_start (slot_test slot) (length s - 1)) 0 (length s))"

function next_power_of_two_from :: "nat \<Rightarrow> nat \<Rightarrow> nat" where
  "next_power_of_two_from p n = (if n \<le> p \<or> p = 0 then p else next_power_of_two_from (2 * p) n)"
  by pat_completeness auto
termination
  by (relation "measure (\<lambda>(p, n). n - p)") auto

declare next_power_of_two_from.simps [simp del]

definition checked_next_power_of_two :: "nat \<Rightarrow> nat option" where
  "checked_next_power_of_two n =
     (let p = next_power_of_two_from 1 n in if p < usize_limit then Some p else None)"

definition slot_list :: "test_state_slot option list \<Rightarrow> test_state_slot list" where
  "slot_list s = List.map_filter (\<lambda>x. x) s"

definition rehash_step ::
  "test_state_slot option list \<Rightarrow> nat \<times> test_state_slot \<Rightarrow> test_state_slot option list pcomp" where
  "rehash_step new = (\<lambda>(index, slot).
       and_then (poll_entries index) (\<lambda>_.
       and_then (place_test_slot new slot) (\<lambda>(new, placed).
       and_then (guard_err (\<not> placed) (ProtocolContractMismatch ''test-state table rehash failed'')) (\<lambda>_.
       ok new))))"

definition rehash ::
  "test_state_slot option list \<Rightarrow> nat \<Rightarrow> test_state_slot option list pcomp" where
  "rehash s capacity = for_each rehash_step (replicate capacity None) (enumerate 0 (slot_list s))"

definition ensure_insert_capacity :: "test_state_table \<Rightarrow> test_state_table pcomp" where
  "ensure_insert_capacity tb =
     (let full = ResourceLimit ''test-state entries'' (u64_of_u32 (maximum tb));
          no_slots = ResourceLimit ''test-state table slots'' (u64_of_u32 (maximum tb));
          m = unat (maximum tb) in
      and_then (or_err (checked_add_usize (entries tb) 1) full) (\<lambda>required.
      and_then (guard_err (required > m) full) (\<lambda>_.
      if slots tb \<noteq> [] \<and> required \<le> length (slots tb) div 2 then ok tb
      else
      and_then (or_err (Option.bind (checked_mul_usize m 2) checked_next_power_of_two) no_slots)
        (\<lambda>maximum_capacity.
      and_then (if slots tb = [] then ok 2
                else or_err (checked_mul_usize (length (slots tb)) 2) no_slots) (\<lambda>proposed.
      let capacity = min proposed maximum_capacity in
      and_then (guard_err (capacity \<le> length (slots tb) \<or> capacity < required) no_slots) (\<lambda>_.
      and_then (ask no_slots) (\<lambda>_.
      and_then (rehash (slots tb) capacity) (\<lambda>new.
      ok (tb\<lparr>slots := new\<rparr>)))))))))"

definition table_state :: "test_state_table \<Rightarrow> test_id \<Rightarrow> tracked_test_state option pcomp" where
  "table_state tb test =
     and_then (find_test tb test) (\<lambda>found.
     ok (case found of None \<Rightarrow> None
         | Some i \<Rightarrow> (case list_get (slots tb) i of
             Some (Some slot) \<Rightarrow> Some (slot_state slot)
           | _ \<Rightarrow> None)))"

definition insert_active :: "test_state_table \<Rightarrow> test_id \<Rightarrow> (test_state_table \<times> bool) pcomp" where
  "insert_active tb test =
     and_then (find_test tb test) (\<lambda>found.
     if found \<noteq> None then ok (tb, False)
     else
     and_then (ensure_insert_capacity tb) (\<lambda>tb.
     and_then (place_test_slot (slots tb) \<lparr>slot_test = test, slot_state = Active\<rparr>) (\<lambda>(new, placed).
     and_then (guard_err (\<not> placed)
                (ProtocolContractMismatch ''test-state table has no insertion slot'')) (\<lambda>_.
     and_then (or_err (checked_add_usize (entries tb) 1)
                (ResourceLimit ''test-state entries'' (u64_of_u32 (maximum tb)))) (\<lambda>n.
     ok (tb\<lparr>slots := new, entries := n\<rparr>, True))))))"

definition mark_finished :: "test_state_table \<Rightarrow> test_id \<Rightarrow> (test_state_table \<times> bool) pcomp" where
  "mark_finished tb test =
     and_then (find_test tb test) (\<lambda>found.
     case found of
       None \<Rightarrow> ok (tb, False)
     | Some i \<Rightarrow>
         (case list_get (slots tb) i of
            Some (Some slot) \<Rightarrow>
              if slot_state slot \<noteq> Active then ok (tb, False)
              else ok (tb\<lparr>slots := (slots tb)[i := Some (slot\<lparr>slot_state := Finished\<rparr>)]\<rparr>, True)
          | _ \<Rightarrow> ok (tb, False)))"

subsection \<open>Slots\<close>

definition slots_map :: "test_state_slot option list \<Rightarrow> test_id \<rightharpoonup> tracked_test_state" where
  "slots_map s = map_of (map (\<lambda>sl. (slot_test sl, slot_state sl)) (slot_list s))"

text \<open>The \<open>j\<close>-th cell of the probe sequence that starts at \<open>h\<close>.\<close>

definition probe_index :: "test_state_slot option list \<Rightarrow> nat \<Rightarrow> nat \<Rightarrow> nat" where
  "probe_index s h j = (h + j) mod length s"

abbreviation cell :: "test_state_slot option list \<Rightarrow> nat \<Rightarrow> nat \<Rightarrow> test_state_slot option" where
  "cell s h j \<equiv> s ! probe_index s h j"

definition home :: "test_state_slot option list \<Rightarrow> test_id \<Rightarrow> nat" where
  "home s t = test_slot_start t (length s - 1)"

text \<open>Every stored test is reachable from its home through occupied cells.\<close>

definition reachable_slots :: "test_state_slot option list \<Rightarrow> bool" where
  "reachable_slots s \<longleftrightarrow> (\<forall>i < length s. \<forall>sl. s ! i = Some sl \<longrightarrow>
     (\<exists>d < length s. i = probe_index s (home s (slot_test sl)) d \<and>
        (\<forall>j < d. cell s (home s (slot_test sl)) j \<noteq> None)))"

definition slots_ok :: "test_state_slot option list \<Rightarrow> bool" where
  "slots_ok s \<longleftrightarrow> (\<exists>k. length s = 2 ^ k) \<and> distinct (map slot_test (slot_list s)) \<and> reachable_slots s"

lemma and_power_mask: "x AND (2 ^ k - 1) = x mod (2 ^ k :: nat)"
  by (metis mask_eq_exp_minus_1 take_bit_eq_mask take_bit_eq_mod)

lemmas and_power_mask_Suc = and_power_mask [unfolded One_nat_def]

lemma home_less: "length s = 2 ^ k \<Longrightarrow> home s t < length s"
  by (simp add: home_def test_slot_start_def and_power_mask_Suc)

lemma probe_index_less: "0 < length s \<Longrightarrow> probe_index s h j < length s"
  by (simp add: probe_index_def)

lemma probe_index_Suc:
  "length s = 2 ^ k \<Longrightarrow> (probe_index s h j + 1) AND (length s - 1) = probe_index s h (Suc j)"
  by (simp add: probe_index_def and_power_mask_Suc mod_Suc_eq)

lemma probe_index_surj:
  assumes "h < length s" and "i < length s"
  shows "\<exists>q < length s. probe_index s h q = i"
proof (cases "h \<le> i")
  case True
  with assms show ?thesis by (intro exI [of _ "i - h"]) (simp add: probe_index_def)
next
  case False
  with assms show ?thesis
    by (intro exI [of _ "i + length s - h"]) (auto simp: probe_index_def)
qed

lemma slot_list_set: "sl \<in> set (slot_list s) \<longleftrightarrow> (\<exists>i < length s. s ! i = Some sl)"
  by (force simp: slot_list_def map_filter_def in_set_conv_nth image_iff)

lemma slot_list_append [simp]: "slot_list (xs @ ys) = slot_list xs @ slot_list ys"
  by (simp add: slot_list_def map_filter_def)

lemma slot_list_Cons [simp]:
  "slot_list (x # xs) = (case x of None \<Rightarrow> slot_list xs | Some sl \<Rightarrow> sl # slot_list xs)"
  by (simp add: slot_list_def map_filter_def split: option.splits)

lemma slot_list_Nil [simp]: "slot_list [] = []"
  by (simp add: slot_list_def map_filter_def)

lemma slot_list_replicate [simp]: "slot_list (replicate n None) = []"
  by (induction n) simp_all

lemma slot_list_at:
  assumes "i < length s"
  shows "slot_list s = slot_list (take i s) @ slot_list [s ! i] @ slot_list (drop (Suc i) s)"
    and "slot_list (s[i := x]) = slot_list (take i s) @ slot_list [x] @ slot_list (drop (Suc i) s)"
  using assms by (metis id_take_nth_drop slot_list_append append_Cons append_Nil,
      metis upd_conv_take_nth_drop slot_list_append append_Cons append_Nil)

lemma slot_list_fill:
  "i < length s \<Longrightarrow> s ! i = None \<Longrightarrow>
   mset (slot_list (s[i := Some sl])) = add_mset sl (mset (slot_list s))"
  using slot_list_at [of i s] by simp

lemma slot_list_full: "length (slot_list s) < length s \<Longrightarrow> \<exists>i < length s. s ! i = None"
proof (induction s)
  case (Cons x s)
  then show ?case
  proof (cases x)
    case (Some sl)
    with Cons obtain i where "i < length s" "s ! i = None" by auto
    then show ?thesis by (intro exI [of _ "Suc i"]) simp
  qed auto
qed simp

lemma distinct_mset_tests:
  "mset xs = mset ys \<Longrightarrow> distinct (map slot_test xs) = distinct (map slot_test ys)"
  by (metis distinct_count_atmost_1 mset_map mset_eq_imp_distinct_iff)

lemma slots_map_iff:
  "distinct (map slot_test (slot_list s)) \<Longrightarrow>
   slots_map s t = Some st \<longleftrightarrow> (\<exists>sl \<in> set (slot_list s). slot_test sl = t \<and> slot_state sl = st)"
  by (auto simp: slots_map_def comp_def map_of_eq_Some_iff)

lemma slots_map_None: "slots_map s t = None \<longleftrightarrow> t \<notin> slot_test ` set (slot_list s)"
  by (auto simp: slots_map_def map_of_eq_None_iff image_comp comp_def)

lemma dom_slots_map: "dom (slots_map s) = slot_test ` set (slot_list s)"
  by (auto simp: slots_map_def dom_map_of_conv_image_fst image_comp)

lemma slots_map_mset:
  assumes "distinct (map slot_test (slot_list s))"
    and "mset (slot_list s') = add_mset sl (mset (slot_list s))"
    and "slot_test sl \<notin> slot_test ` set (slot_list s)"
  shows "distinct (map slot_test (slot_list s'))"
    and "slots_map s' = (slots_map s)(slot_test sl \<mapsto> slot_state sl)"
proof -
  have set: "set (slot_list s') = insert sl (set (slot_list s))"
    using arg_cong [OF assms(2), of set_mset] by simp
  show d: "distinct (map slot_test (slot_list s'))"
    using distinct_mset_tests [of "slot_list s'" "sl # slot_list s"] assms by simp
  show "slots_map s' = (slots_map s)(slot_test sl \<mapsto> slot_state sl)"
  proof (rule ext)
    fix t
    have "slots_map s' t = Some st \<longleftrightarrow> ((slots_map s)(slot_test sl \<mapsto> slot_state sl)) t = Some st" for st
      using assms(3) by (auto simp: slots_map_iff [OF d] slots_map_iff [OF assms(1)] set image_iff)
    then show "slots_map s' t = ((slots_map s)(slot_test sl \<mapsto> slot_state sl)) t"
      by (metis option.exhaust)
  qed
qed

subsection \<open>Probing\<close>

lemma outcome_poll_entries [simp]: "outcome (poll_entries i) = Inr ()"
  by (simp add: poll_entries_def)

lemma find_from_spec:
  assumes "length s = 2 ^ k" and "p + n = length s"
    and "\<forall>j < p. \<exists>sl. cell s h j = Some sl \<and> slot_test sl \<noteq> t"
  shows "\<exists>r. outcome (find_from s t (probe_index s h p) p n) = Inr r \<and>
    (case r of
       Some i \<Rightarrow> i < length s \<and> (\<exists>sl. s ! i = Some sl \<and> slot_test sl = t)
     | None \<Rightarrow> \<exists>q \<le> length s. (\<forall>j < q. \<exists>sl. cell s h j = Some sl \<and> slot_test sl \<noteq> t) \<and>
         (q < length s \<longrightarrow> cell s h q = None))"
  using assms(2,3)
proof (induction n arbitrary: p)
  case 0
  then show ?case by auto
next
  case (Suc n)
  have bound: "probe_index s h p < length s" by (rule probe_index_less) (simp add: assms(1))
  show ?case
  proof (cases "\<exists>sl. cell s h p = Some sl \<and> slot_test sl \<noteq> t")
    case True
    then have "\<forall>j < Suc p. \<exists>sl. cell s h j = Some sl \<and> slot_test sl \<noteq> t"
      using Suc.prems(2) by (auto simp: less_Suc_eq)
    from Suc.IH [OF _ this] Suc.prems(1) True bound show ?thesis
      using probe_index_Suc [OF assms(1), of h p] by (auto simp: list_get_def)
  next
    case False
    with Suc.prems bound show ?thesis
      by (cases "cell s h p") (auto simp: list_get_def intro!: exI [of _ p])
  qed
qed

lemma find_test_spec:
  assumes "slots_ok (slots tb)"
  shows "\<exists>r. outcome (find_test tb t) = Inr r \<and>
    (case r of
       Some i \<Rightarrow> i < length (slots tb) \<and> (\<exists>sl. slots tb ! i = Some sl \<and> slot_test sl = t)
     | None \<Rightarrow> t \<notin> slot_test ` set (slot_list (slots tb)))"
proof -
  let ?s = "slots tb"
  obtain k where k: "length ?s = 2 ^ k" using assms by (auto simp: slots_ok_def)
  then have ne: "?s \<noteq> []" by auto
  have h: "probe_index ?s (home ?s t) 0 = test_slot_start t (length ?s - 1)"
    using home_less [OF k, of t] by (simp add: probe_index_def home_def)
  have absent: "t \<notin> slot_test ` set (slot_list ?s)"
    if q: "\<forall>j < q. \<exists>sl. cell ?s (home ?s t) j = Some sl \<and> slot_test sl \<noteq> t"
      "q < length ?s \<longrightarrow> cell ?s (home ?s t) q = None" for q
  proof
    assume "t \<in> slot_test ` set (slot_list ?s)"
    then obtain i sl where i: "i < length ?s" "?s ! i = Some sl" "slot_test sl = t"
      by (auto simp: slot_list_set)
    then obtain d where d: "d < length ?s" "i = probe_index ?s (home ?s t) d"
      "\<forall>j < d. cell ?s (home ?s t) j \<noteq> None"
      using assms unfolding slots_ok_def reachable_slots_def by blast
    consider "q < d" | "q = d" | "d < q" by linarith
    then show False using q d i by cases auto
  qed
  obtain r where "outcome (find_from ?s t (probe_index ?s (home ?s t) 0) 0 (length ?s)) = Inr r"
    and "(case r of
       Some i \<Rightarrow> i < length ?s \<and> (\<exists>sl. ?s ! i = Some sl \<and> slot_test sl = t)
     | None \<Rightarrow> \<exists>q \<le> length ?s. (\<forall>j < q. \<exists>sl. cell ?s (home ?s t) j = Some sl \<and> slot_test sl \<noteq> t) \<and>
         (q < length ?s \<longrightarrow> cell ?s (home ?s t) q = None))"
    using find_from_spec [OF k, of 0 "length ?s" "home ?s t" t] by auto
  with absent ne show ?thesis
    by (intro exI [of _ r]) (auto simp: find_test_def h split: option.splits)
qed

lemma place_from_spec:
  assumes "length s = 2 ^ k" and "p + n = length s" and "\<forall>j < p. cell s h j \<noteq> None"
    and "\<exists>q < length s. cell s h q = None"
  shows "\<exists>q < length s. (\<forall>j < q. cell s h j \<noteq> None) \<and> cell s h q = None \<and>
    outcome (place_from s sl (probe_index s h p) p n) = Inr (s[probe_index s h q := Some sl], True)"
  using assms(2,3)
proof (induction n arbitrary: p)
  case 0
  with assms(4) show ?case by auto
next
  case (Suc n)
  have bound: "probe_index s h p < length s" by (rule probe_index_less) (simp add: assms(1))
  show ?case
  proof (cases "cell s h p")
    case None
    with Suc.prems bound show ?thesis by (intro exI [of _ p]) (auto simp: list_get_def)
  next
    case (Some x)
    then have "\<forall>j < Suc p. cell s h j \<noteq> None" using Suc.prems(2) by (auto simp: less_Suc_eq)
    from Suc.IH [OF _ this] Suc.prems(1) Some bound show ?thesis
      using probe_index_Suc [OF assms(1), of h p] by (auto simp: list_get_def)
  qed
qed

lemma place_test_slot_spec:
  assumes ok: "slots_ok s" and room: "length (slot_list s) < length s"
    and new: "slot_test sl \<notin> slot_test ` set (slot_list s)"
  shows "\<exists>s'. outcome (place_test_slot s sl) = Inr (s', True) \<and> slots_ok s' \<and> length s' = length s \<and>
    length (slot_list s') = Suc (length (slot_list s)) \<and>
    slots_map s' = (slots_map s)(slot_test sl \<mapsto> slot_state sl)"
proof -
  let ?h = "home s (slot_test sl)"
  obtain k where k: "length s = 2 ^ k" using ok by (auto simp: slots_ok_def)
  have h: "probe_index s ?h 0 = test_slot_start (slot_test sl) (length s - 1)"
    using home_less [OF k, of "slot_test sl"] by (simp add: probe_index_def home_def)
  have free: "\<exists>q < length s. cell s ?h q = None"
    using slot_list_full [OF room] probe_index_surj [OF home_less [OF k]] by metis
  obtain q where q: "q < length s" "\<forall>j < q. cell s ?h j \<noteq> None" "cell s ?h q = None"
    and out: "outcome (place_from s sl (probe_index s ?h 0) 0 (length s)) =
      Inr (s[probe_index s ?h q := Some sl], True)"
    using place_from_spec [OF k, of 0 "length s" ?h sl] free by auto
  define i where "i = probe_index s ?h q"
  define s' where "s' = s[i := Some sl]"
  have i: "i < length s" "s ! i = None" using q by (auto simp: i_def intro!: probe_index_less)
  have list: "mset (slot_list s') = add_mset sl (mset (slot_list s))"
    unfolding s'_def using slot_list_fill [OF i] .
  note map = slots_map_mset [OF _ list new]
  have d: "distinct (map slot_test (slot_list s))" using ok by (simp add: slots_ok_def)
  have idx: "probe_index s' = probe_index s" "home s' = home s" "length s' = length s"
    by (auto simp: s'_def probe_index_def home_def fun_eq_iff)
  have kept: "s ! j \<noteq> None \<Longrightarrow> s' ! j \<noteq> None" for j
    using i by (cases "j = i") (auto simp: s'_def nth_list_update)
  have "reachable_slots s'"
    unfolding reachable_slots_def idx
  proof (intro allI impI)
    fix j x assume j: "j < length s" "s' ! j = Some x"
    show "\<exists>d < length s. j = probe_index s (home s (slot_test x)) d \<and>
        (\<forall>j < d. s' ! probe_index s (home s (slot_test x)) j \<noteq> None)"
    proof (cases "j = i")
      case True
      with j i have "x = sl" by (simp add: s'_def)
      with True q kept show ?thesis by (intro exI [of _ q]) (auto simp: i_def)
    next
      case False
      with j have "s ! j = Some x" by (simp add: s'_def)
      with j ok kept show ?thesis unfolding slots_ok_def reachable_slots_def by blast
    qed
  qed
  moreover have "length (slot_list s') = Suc (length (slot_list s))"
    using list by (metis size_add_mset size_mset)
  moreover have "s \<noteq> []" using k by auto
  ultimately show ?thesis
    using out map [OF d] k idx
    by (auto simp: place_test_slot_def h slots_ok_def i_def s'_def)
qed

subsection \<open>Rehashing\<close>

abbreviation slot_pair :: "test_state_slot \<Rightarrow> test_id \<times> tracked_test_state" where
  "slot_pair sl \<equiv> (slot_test sl, slot_state sl)"

lemma rehash_loop:
  assumes "slots_ok s" and "length (slot_list s) + length xs \<le> length s"
    and "distinct (map slot_test (slot_list s @ xs))"
  shows "\<exists>s'. outcome (for_each rehash_step s (enumerate i xs)) = Inr s' \<and> slots_ok s' \<and>
    length s' = length s \<and> length (slot_list s') = length (slot_list s) + length xs \<and>
    slots_map s' = slots_map s ++ map_of (map slot_pair xs)"
  using assms
proof (induction xs arbitrary: s i)
  case (Cons sl xs)
  have new: "slot_test sl \<notin> slot_test ` set (slot_list s)"
    and rest: "slot_test sl \<notin> slot_test ` set xs"
    using Cons.prems(3) by auto
  have room: "length (slot_list s) < length s" using Cons.prems(2) by simp
  obtain s1 where s1: "outcome (place_test_slot s sl) = Inr (s1, True)" "slots_ok s1"
      "length s1 = length s" "length (slot_list s1) = Suc (length (slot_list s))"
      "slots_map s1 = (slots_map s)(slot_test sl \<mapsto> slot_state sl)"
    using place_test_slot_spec [OF Cons.prems(1) room new] by blast
  have dom: "slot_test ` set (slot_list s1) = insert (slot_test sl) (slot_test ` set (slot_list s))"
    using s1(5) dom_slots_map [of s1] dom_slots_map [of s] by simp
  have d: "distinct (map slot_test (slot_list s1 @ xs))"
    using Cons.prems(3) s1(2) dom rest by (auto simp: slots_ok_def)
  obtain s' where s': "outcome (for_each rehash_step s1 (enumerate (Suc i) xs)) = Inr s'"
      "slots_ok s'" "length s' = length s1"
      "length (slot_list s') = length (slot_list s1) + length xs"
      "slots_map s' = slots_map s1 ++ map_of (map slot_pair xs)"
    using Cons.IH [OF s1(2) _ d, of "Suc i"] Cons.prems(2) s1(3,4) by auto
  have "slot_test sl \<notin> dom (map_of (map slot_pair xs))"
    using rest by (auto simp: dom_map_of_conv_image_fst image_comp comp_def)
  then have m: "slots_map s' = slots_map s ++ map_of (map slot_pair (sl # xs))"
    unfolding s'(5) s1(5)
    by (simp only: map_add_upd_left not_False_eq_True list.map map_of.simps fst_conv snd_conv map_add_upd)
  have "outcome (rehash_step s (i, sl)) = Inr s1"
    using s1(1) by (simp add: rehash_step_def)
  with s' have "outcome (for_each rehash_step s (enumerate i (sl # xs))) = Inr s'" by simp
  moreover have "length s' = length s" "length (slot_list s') = length (slot_list s) + length (sl # xs)"
    using s1(3,4) s'(3,4) by simp_all
  ultimately show ?case using m s'(2) by blast
qed auto

lemma slots_ok_replicate: "slots_ok (replicate (2 ^ k) None)"
  by (auto simp: slots_ok_def reachable_slots_def)

lemma rehash_spec:
  assumes "distinct (map slot_test (slot_list s))" and "length (slot_list s) \<le> 2 ^ k"
  shows "\<exists>s'. outcome (rehash s (2 ^ k)) = Inr s' \<and> slots_ok s' \<and> length s' = 2 ^ k \<and>
    length (slot_list s') = length (slot_list s) \<and> slots_map s' = slots_map s"
  using rehash_loop [OF slots_ok_replicate [of k], of "slot_list s" 0] assms
  by (auto simp: rehash_def slots_map_def [of s]
      slots_map_def [of "replicate (2 ^ k) None"])

lemma next_power_of_two_from_spec:
  assumes "p = 2 ^ a" and "a = 0 \<or> p < 2 * n"
  shows "\<exists>b. next_power_of_two_from p n = 2 ^ b \<and> n \<le> 2 ^ b \<and> (b = 0 \<or> 2 ^ b < 2 * n)"
  using assms
proof (induction p n arbitrary: a rule: next_power_of_two_from.induct)
  case (1 p n)
  show ?case
  proof (cases "n \<le> p")
    case True
    then have "next_power_of_two_from p n = p" by (simp add: next_power_of_two_from.simps [of p n])
    with True "1.prems" show ?thesis by auto
  next
    case False
    with 1 have "\<exists>b. next_power_of_two_from (2 * p) n = 2 ^ b \<and> n \<le> 2 ^ b \<and> (b = 0 \<or> 2 ^ b < 2 * n)"
      by (intro "1.IH" [of "Suc a"]) auto
    moreover have "next_power_of_two_from p n = next_power_of_two_from (2 * p) n"
      using False "1.prems"(1) by (subst next_power_of_two_from.simps) auto
    ultimately show ?thesis by simp
  qed
qed

lemma checked_next_power_of_two_spec:
  assumes "0 < n" and "n < 2 ^ 40"
  shows "\<exists>b. checked_next_power_of_two n = Some (2 ^ b) \<and> n \<le> 2 ^ b"
proof -
  obtain b where b: "next_power_of_two_from 1 n = 2 ^ b" "n \<le> 2 ^ b" "b = 0 \<or> 2 ^ b < 2 * n"
    using next_power_of_two_from_spec [of 1 0 n] by auto
  then have "2 ^ b < usize_limit" using assms by (auto simp: usize_limit_def)
  with b show ?thesis by (auto simp: checked_next_power_of_two_def Let_def)
qed

subsection \<open>The table as a map\<close>

definition table_inv :: "test_state_table \<Rightarrow> bool" where
  "table_inv tb \<longleftrightarrow> entries tb = length (slot_list (slots tb)) \<and>
     (slots tb = [] \<or> slots_ok (slots tb) \<and> 2 * entries tb \<le> length (slots tb))"

definition table_map :: "test_state_table \<Rightarrow> test_id \<rightharpoonup> tracked_test_state" where
  "table_map tb = slots_map (slots tb)"

lemma table_distinct: "table_inv tb \<Longrightarrow> distinct (map slot_test (slot_list (slots tb)))"
  by (auto simp: table_inv_def slots_ok_def)

lemma table_entries: "table_inv tb \<Longrightarrow> entries tb = card (dom (table_map tb))"
proof -
  assume inv: "table_inv tb"
  have "dom (table_map tb) = slot_test ` set (slot_list (slots tb))"
    by (simp add: table_map_def dom_slots_map)
  also have "card \<dots> = length (slot_list (slots tb))"
    using table_distinct [OF inv] by (metis distinct_card length_map list.set_map)
  finally show ?thesis using inv by (simp add: table_inv_def)
qed

lemma find_test_map:
  assumes "table_inv tb"
  shows "\<exists>r. outcome (find_test tb t) = Inr r \<and>
    (case r of
       None \<Rightarrow> table_map tb t = None
     | Some i \<Rightarrow> i < length (slots tb) \<and> (\<exists>sl. slots tb ! i = Some sl \<and> slot_test sl = t \<and>
         table_map tb t = Some (slot_state sl)))"
proof (cases "slots tb = []")
  case True
  then show ?thesis
    by (intro exI [of _ None]) (simp add: find_test_def table_map_def slots_map_def)
next
  case False
  then have ok: "slots_ok (slots tb)" using assms by (simp add: table_inv_def)
  from find_test_spec [OF this, of t] obtain r where r: "outcome (find_test tb t) = Inr r"
    "case r of Some i \<Rightarrow> i < length (slots tb) \<and> (\<exists>sl. slots tb ! i = Some sl \<and> slot_test sl = t)
     | None \<Rightarrow> t \<notin> slot_test ` set (slot_list (slots tb))" by blast
  have "table_map tb (slot_test sl) = Some (slot_state sl)"
    if "i < length (slots tb)" "slots tb ! i = Some sl" for i sl
    using that by (auto simp: table_map_def slots_map_iff [OF table_distinct [OF assms]] slot_list_set
        intro!: bexI [of _ sl])
  with r show ?thesis
    by (intro exI [of _ r]) (auto simp: table_map_def slots_map_None split: option.splits)
qed

lemma table_state_map: "table_inv tb \<Longrightarrow> outcome (table_state tb t) = Inr (table_map tb t)"
  using find_test_map [of tb t] by (auto simp: table_state_def list_get_def split: option.splits)

lemma ensure_capacity_full:
  "unat (maximum tb) \<le> entries tb \<Longrightarrow>
   outcome (ensure_insert_capacity tb) =
     Inl (ResourceLimit ''test-state entries'' (u64_of_u32 (maximum tb)))"
  by (auto simp: ensure_insert_capacity_def Let_def split: option.splits)

lemma ensure_capacity_room:
  assumes inv: "table_inv tb" and room: "entries tb < unat (maximum tb)"
  shows "\<exists>s. outcome (ensure_insert_capacity tb) = Inr (tb\<lparr>slots := s\<rparr>) \<and> slots_ok s \<and>
    slots_map s = table_map tb \<and> length (slot_list s) = entries tb \<and> 2 * Suc (entries tb) \<le> length s"
proof -
  let ?n = "length (slots tb)"
  let ?m = "unat (maximum tb)"
  have req: "Suc (entries tb) < usize_limit" "Suc (entries tb) \<le> ?m"
    using room u32_bound [of "maximum tb"] by (auto simp: usize_limit_def)
  have ent: "entries tb = length (slot_list (slots tb))" using inv by (simp add: table_inv_def)
  show ?thesis
  proof (cases "slots tb \<noteq> [] \<and> Suc (entries tb) \<le> ?n div 2")
    case True
    have "tb\<lparr>slots := slots tb\<rparr> = tb" by simp
    then have "outcome (ensure_insert_capacity tb) = Inr (tb\<lparr>slots := slots tb\<rparr>)"
      using True req by (simp add: ensure_insert_capacity_def Let_def checked_add_usize_def)
    then show ?thesis
      using True inv ent by (intro exI [of _ "slots tb"]) (auto simp: table_inv_def table_map_def)
  next
    case grow: False
    define cap where "cap = (if slots tb = [] then 2 else 2 * ?n)"
    obtain c where c: "cap = 2 ^ c"
    proof (cases "slots tb = []")
      case True
      with that [of 1] show ?thesis by (simp add: cap_def)
    next
      case False
      then obtain k where "?n = 2 ^ k" using inv by (auto simp: table_inv_def slots_ok_def)
      with False that [of "Suc k"] show ?thesis by (simp add: cap_def)
    qed
    have half: "?n \<le> 2 * entries tb + 1" "2 * entries tb \<le> ?n" "slots tb = [] \<Longrightarrow> entries tb = 0"
      using grow inv by (auto simp: table_inv_def)
    have small: "2 * ?n < usize_limit" "?m * 2 < usize_limit" "?m * 2 < 2 ^ 40" "0 < ?m"
      using half req u32_bound [of "maximum tb"] by (auto simp: usize_limit_def)
    obtain b where b: "checked_next_power_of_two (?m * 2) = Some (2 ^ b)" "?m * 2 \<le> 2 ^ b"
      using checked_next_power_of_two_spec [of "?m * 2"] small by auto
    have "cap \<le> 2 ^ b"
    proof -
      have "cap < 2 * 2 ^ b"
        using half req(2) b(2) by (auto simp: cap_def split: if_splits)
      then have "2 ^ c < (2 :: nat) ^ Suc b" by (simp add: c)
      then have "c \<le> b" by (metis less_Suc_eq_le power_less_imp_less_exp one_less_numeral_iff semiring_norm(76))
      then show ?thesis by (simp add: c)
    qed
    then have capacity: "min (2 ^ c) (2 ^ b) = (2 ^ c :: nat)" by (simp add: c)
    have enough: "?n < cap \<and> 2 * Suc (entries tb) \<le> cap"
    proof (cases "slots tb = []")
      case False
      then have "1 \<le> ?n" by (cases "slots tb") auto
      with half(2) have "?n < 2 * ?n \<and> 2 * Suc (entries tb) \<le> 2 * ?n" by presburger
      with False show ?thesis by (simp add: cap_def)
    qed (use half in \<open>simp add: cap_def\<close>)
    obtain s where s: "outcome (rehash (slots tb) (2 ^ c)) = Inr s" "slots_ok s" "length s = 2 ^ c"
        "length (slot_list s) = entries tb" "slots_map s = table_map tb"
      using rehash_spec [OF table_distinct [OF inv], of c] ent enough c by (auto simp: table_map_def)
    have proposed: "outcome (if slots tb = [] then ok 2
        else or_err (checked_mul_usize ?n 2) e) = Inr cap" for e :: protocol_error
      using small by (simp add: cap_def checked_mul_usize_def mult.commute)
    have "outcome (ensure_insert_capacity tb) = Inr (tb\<lparr>slots := s\<rparr>)"
      using grow req small b(1) enough c s(1)
      by (auto simp: ensure_insert_capacity_def Let_def proposed capacity checked_mul_usize_def
          checked_add_usize_def)
    then show ?thesis using s enough c by auto
  qed
qed

lemma insert_active_present:
  "table_inv tb \<Longrightarrow> table_map tb t \<noteq> None \<Longrightarrow> outcome (insert_active tb t) = Inr (tb, False)"
  using find_test_map [of tb t] by (auto simp: insert_active_def split: option.splits)

lemma insert_active_full:
  assumes "table_inv tb" and "table_map tb t = None" and "unat (maximum tb) \<le> entries tb"
  shows "outcome (insert_active tb t) =
     Inl (ResourceLimit ''test-state entries'' (u64_of_u32 (maximum tb)))"
  using find_test_map [OF assms(1), of t] assms(2) ensure_capacity_full [OF assms(3)]
  by (auto simp: insert_active_def split: option.splits)

lemma insert_active_room:
  assumes inv: "table_inv tb" and new: "table_map tb t = None" and room: "entries tb < unat (maximum tb)"
  shows "\<exists>tb'. outcome (insert_active tb t) = Inr (tb', True) \<and> table_inv tb' \<and>
    table_map tb' = (table_map tb)(t \<mapsto> Active) \<and> maximum tb' = maximum tb"
proof -
  let ?sl = "\<lparr>slot_test = t, slot_state = Active\<rparr>"
  obtain s where s: "outcome (ensure_insert_capacity tb) = Inr (tb\<lparr>slots := s\<rparr>)" "slots_ok s"
      "slots_map s = table_map tb" "length (slot_list s) = entries tb" "2 * Suc (entries tb) \<le> length s"
    using ensure_capacity_room [OF inv room] by blast
  have "length (slot_list s) < length s" using s(4,5) by simp
  moreover have "slot_test ?sl \<notin> slot_test ` set (slot_list s)"
    using s(3) new slots_map_None [of s t] by simp
  ultimately obtain s' where s': "outcome (place_test_slot s ?sl) = Inr (s', True)" "slots_ok s'"
      "length s' = length s" "length (slot_list s') = Suc (length (slot_list s))"
      "slots_map s' = (slots_map s)(t \<mapsto> Active)"
    using place_test_slot_spec [OF s(2), of ?sl] by auto
  have find: "outcome (find_test tb t) = Inr None"
    using find_test_map [OF inv, of t] new by (auto split: option.splits)
  have "entries tb + 1 < usize_limit"
    using room u32_bound [of "maximum tb"] by (simp add: usize_limit_def)
  then have "outcome (insert_active tb t) =
      Inr (tb\<lparr>slots := s', entries := Suc (entries tb)\<rparr>, True)"
    using find s(1) s'(1) by (simp add: insert_active_def checked_add_usize_def)
  with s s' show ?thesis by (auto simp: table_inv_def table_map_def)
qed

lemma mark_finished_other:
  "table_inv tb \<Longrightarrow> table_map tb t \<noteq> Some Active \<Longrightarrow> outcome (mark_finished tb t) = Inr (tb, False)"
  using find_test_map [of tb t] by (auto simp: mark_finished_def list_get_def split: option.splits)

lemma slots_ok_update:
  assumes "slots_ok s" and "i < length s" and "s ! i = Some sl" and "slot_test sl' = slot_test sl"
  shows "slots_ok (s[i := Some sl'])"
    and "slots_map (s[i := Some sl']) = (slots_map s)(slot_test sl \<mapsto> slot_state sl')"
    and "length (slot_list (s[i := Some sl'])) = length (slot_list s)"
proof -
  let ?s = "s[i := Some sl']"
  let ?a = "slot_list (take i s)" and ?b = "slot_list (drop (Suc i) s)"
  have lists: "slot_list s = ?a @ sl # ?b" "slot_list ?s = ?a @ sl' # ?b"
    using slot_list_at [OF assms(2)] assms(3) by simp_all
  have d: "distinct (map slot_test (slot_list s))" "distinct (map slot_test (slot_list ?s))"
    using assms(1,4) by (simp_all add: slots_ok_def lists)
  have idx: "probe_index ?s = probe_index s" "home ?s = home s"
    by (auto simp: probe_index_def home_def fun_eq_iff)
  have occupied: "?s ! j = None \<longleftrightarrow> s ! j = None" for j
    using assms(2,3) by (cases "j = i") auto
  have "\<exists>sl0. s ! j = Some sl0 \<and> slot_test sl0 = slot_test x" if "?s ! j = Some x" for j x
    using that assms(2-4) by (cases "j = i") auto
  then have "reachable_slots ?s"
    using assms(1) unfolding slots_ok_def reachable_slots_def idx occupied length_list_update
    by metis
  then show "slots_ok ?s" using assms(1) d by (simp add: slots_ok_def)
  show "length (slot_list ?s) = length (slot_list s)" by (simp add: lists)
  show "slots_map ?s = (slots_map s)(slot_test sl \<mapsto> slot_state sl')"
  proof (rule ext)
    fix t
    show "slots_map ?s t = ((slots_map s)(slot_test sl \<mapsto> slot_state sl')) t"
    proof (cases "t = slot_test sl")
      case True
      have "sl' \<in> set (slot_list ?s)" by (simp add: lists)
      with True assms(4) slots_map_iff [OF d(2), of t "slot_state sl'"] show ?thesis by auto
    next
      case False
      with assms(4) show ?thesis by (simp add: slots_map_def lists map_add_def split: option.splits)
    qed
  qed
qed

lemma mark_finished_active:
  assumes "table_inv tb" and "table_map tb t = Some Active"
  shows "\<exists>tb'. outcome (mark_finished tb t) = Inr (tb', True) \<and> table_inv tb' \<and>
    table_map tb' = (table_map tb)(t \<mapsto> Finished) \<and> maximum tb' = maximum tb"
proof -
  obtain i sl where f: "outcome (find_test tb t) = Inr (Some i)" "i < length (slots tb)"
      "slots tb ! i = Some sl" "slot_test sl = t" "slot_state sl = Active"
    using find_test_map [OF assms(1), of t] assms(2) by (auto split: option.splits)
  then have "slots tb \<noteq> []" by auto
  then have ok: "slots_ok (slots tb)" using assms(1) by (simp add: table_inv_def)
  note upd = slots_ok_update [OF ok f(2,3), of "sl\<lparr>slot_state := Finished\<rparr>"]
  have "outcome (mark_finished tb t) =
      Inr (tb\<lparr>slots := (slots tb)[i := Some (sl\<lparr>slot_state := Finished\<rparr>)]\<rparr>, True)"
    using f by (simp add: mark_finished_def list_get_def)
  then show ?thesis using upd f assms(1) by (auto simp: table_inv_def table_map_def)
qed

subsection \<open>The contract of a table of test states\<close>

definition started_tests :: "(test_id \<rightharpoonup> tracked_test_state) \<Rightarrow> nat" where
  "started_tests m = card (dom m)"

definition finished_tests :: "(test_id \<rightharpoonup> tracked_test_state) \<Rightarrow> nat" where
  "finished_tests m = card {k. m k = Some Finished}"

locale state_table =
  fixes inv :: "'t \<Rightarrow> bool"
    and abs :: "'t \<Rightarrow> test_id \<rightharpoonup> tracked_test_state"
    and bound :: "'t \<Rightarrow> u32"
    and create :: "u32 \<Rightarrow> 't"
    and rebound :: "'t \<Rightarrow> u32 \<Rightarrow> 't"
    and lookup :: "'t \<Rightarrow> test_id \<Rightarrow> tracked_test_state option pcomp"
    and start_test :: "'t \<Rightarrow> test_id \<Rightarrow> ('t \<times> bool) pcomp"
    and finish_test :: "'t \<Rightarrow> test_id \<Rightarrow> ('t \<times> bool) pcomp"
  assumes create_law: "inv (create m) \<and> abs (create m) = Map.empty \<and> bound (create m) = m"
    and rebound_law: "inv t \<Longrightarrow> inv (rebound t m) \<and> abs (rebound t m) = abs t \<and> bound (rebound t m) = m"
    and finite_law: "inv t \<Longrightarrow> finite (dom (abs t))"
    and lookup_law: "inv t \<Longrightarrow> outcome (lookup t k) = Inr (abs t k)"
    and start_present: "inv t \<Longrightarrow> abs t k \<noteq> None \<Longrightarrow> outcome (start_test t k) = Inr (t, False)"
    and start_full: "inv t \<Longrightarrow> abs t k = None \<Longrightarrow> unat (bound t) \<le> card (dom (abs t)) \<Longrightarrow>
      outcome (start_test t k) = Inl (ResourceLimit ''test-state entries'' (u64_of_u32 (bound t)))"
    and start_room: "inv t \<Longrightarrow> abs t k = None \<Longrightarrow> card (dom (abs t)) < unat (bound t) \<Longrightarrow>
      \<exists>t'. outcome (start_test t k) = Inr (t', True) \<and> inv t' \<and>
        abs t' = (abs t)(k \<mapsto> Active) \<and> bound t' = bound t"
    and finish_other: "inv t \<Longrightarrow> abs t k \<noteq> Some Active \<Longrightarrow> outcome (finish_test t k) = Inr (t, False)"
    and finish_active: "inv t \<Longrightarrow> abs t k = Some Active \<Longrightarrow>
      \<exists>t'. outcome (finish_test t k) = Inr (t', True) \<and> inv t' \<and>
        abs t' = (abs t)(k \<mapsto> Finished) \<and> bound t' = bound t"
begin

lemma finished_le_started: "inv t \<Longrightarrow> finished_tests (abs t) \<le> started_tests (abs t)"
  unfolding finished_tests_def started_tests_def
  by (rule card_mono) (auto simp: finite_law)

lemma create_counts: "started_tests (abs (create m)) = 0" "finished_tests (abs (create m)) = 0"
  using create_law by (simp_all add: started_tests_def finished_tests_def)

lemma start_counts:
  assumes "inv t" and "abs t k = None" and "abs t' = (abs t)(k \<mapsto> Active)"
  shows "started_tests (abs t') = Suc (started_tests (abs t))" and "finished_tests (abs t') = finished_tests (abs t)"
proof -
  show "started_tests (abs t') = Suc (started_tests (abs t))"
    using assms finite_law [OF assms(1)] by (simp add: started_tests_def domIff)
  have "{j. abs t' j = Some Finished} = {j. abs t j = Some Finished}"
    using assms(2,3) by auto
  then show "finished_tests (abs t') = finished_tests (abs t)" by (simp add: finished_tests_def)
qed

lemma finish_counts:
  assumes "inv t" and "abs t k = Some Active" and "abs t' = (abs t)(k \<mapsto> Finished)"
  shows "started_tests (abs t') = started_tests (abs t)" and "finished_tests (abs t') = Suc (finished_tests (abs t))"
proof -
  have "dom (abs t') = dom (abs t)" using assms(2,3) by auto
  then show "started_tests (abs t') = started_tests (abs t)" by (simp add: started_tests_def)
  have "{j. abs t' j = Some Finished} = insert k {j. abs t j = Some Finished}"
    using assms(3) by auto
  moreover have "finite {j. abs t j = Some Finished}"
    by (rule finite_subset [OF _ finite_law [OF assms(1)]]) auto
  ultimately show "finished_tests (abs t') = Suc (finished_tests (abs t))"
    using assms(2) by (simp add: finished_tests_def)
qed

text \<open>An unfinished test keeps the number of finished tests below the number of started ones.\<close>

lemma active_gap:
  assumes "inv t" and "abs t k = Some Active"
  shows "finished_tests (abs t) < started_tests (abs t)"
  unfolding finished_tests_def started_tests_def
proof (rule psubset_card_mono)
  have "k \<in> dom (abs t)" "k \<notin> {j. abs t j = Some Finished}" using assms(2) by auto
  then show "{j. abs t j = Some Finished} \<subset> dom (abs t)" by blast
qed (simp add: finite_law assms(1))

lemma all_finished:
  assumes "inv t" and "finished_tests (abs t) = started_tests (abs t)" and "abs t k = Some s"
  shows "s = Finished"
  using active_gap [OF assms(1), of k] assms(2,3) by (cases s) auto

end

interpretation table: state_table table_inv table_map maximum table_new set_maximum table_state
  insert_active mark_finished
proof
  show "table_inv (table_new m) \<and> table_map (table_new m) = Map.empty \<and> maximum (table_new m) = m" for m
    by (simp add: table_new_def table_inv_def table_map_def slots_map_def)
  show "table_inv t \<Longrightarrow> table_inv (set_maximum t m) \<and> table_map (set_maximum t m) = table_map t \<and>
      maximum (set_maximum t m) = m" for t m
    by (auto simp: set_maximum_def table_inv_def table_map_def)
  show "finite (dom (table_map t))" for t
    by (simp add: table_map_def slots_map_def finite_dom_map_of)
qed (use table_entries in \<open>auto simp: table_state_map insert_active_present insert_active_full
    insert_active_room mark_finished_other mark_finished_active\<close>)

subsection \<open>Properties\<close>

datatype table_op = Start test_id | Finish test_id | Query test_id

datatype table_answer = Changed bool | State "tracked_test_state option"

fun table_step :: "test_state_table \<Rightarrow> table_op \<Rightarrow> (test_state_table \<times> table_answer) pcomp" where
  "table_step tb (Start k) = and_then (insert_active tb k) (\<lambda>(tb, b). ok (tb, Changed b))"
| "table_step tb (Finish k) = and_then (mark_finished tb k) (\<lambda>(tb, b). ok (tb, Changed b))"
| "table_step tb (Query k) = and_then (table_state tb k) (\<lambda>s. ok (tb, State s))"

fun run_table :: "test_state_table \<Rightarrow> table_op list \<Rightarrow> (test_state_table \<times> table_answer list) pcomp" where
  "run_table tb [] = ok (tb, [])"
| "run_table tb (x # xs) =
     and_then (table_step tb x) (\<lambda>(tb, a). and_then (run_table tb xs) (\<lambda>(tb, as). ok (tb, a # as)))"

text \<open>The specification: a finite map with at most \<open>m\<close> keys.\<close>

type_synonym spec_table = "test_id \<rightharpoonup> tracked_test_state"

fun spec_step :: "u32 \<Rightarrow> spec_table \<Rightarrow> table_op \<Rightarrow> protocol_error + (spec_table \<times> table_answer)" where
  "spec_step m t (Start k) =
     (if t k \<noteq> None then Inr (t, Changed False)
      else if unat m \<le> card (dom t)
      then Inl (ResourceLimit ''test-state entries'' (u64_of_u32 m))
      else Inr (t(k \<mapsto> Active), Changed True))"
| "spec_step m t (Finish k) =
     (if t k = Some Active then Inr (t(k \<mapsto> Finished), Changed True) else Inr (t, Changed False))"
| "spec_step m t (Query k) = Inr (t, State (t k))"

fun run_spec :: "u32 \<Rightarrow> spec_table \<Rightarrow> table_op list \<Rightarrow> protocol_error + (spec_table \<times> table_answer list)" where
  "run_spec m t [] = Inr (t, [])"
| "run_spec m t (x # xs) =
     (case spec_step m t x of Inl e \<Rightarrow> Inl e
      | Inr (t, a) \<Rightarrow> (case run_spec m t xs of Inl e \<Rightarrow> Inl e | Inr (t, as) \<Rightarrow> Inr (t, a # as)))"

lemma table_step_spec:
  assumes "table_inv tb"
  shows "case outcome (table_step tb x) of
      Inl e \<Rightarrow> spec_step (maximum tb) (table_map tb) x = Inl e
    | Inr (tb', a) \<Rightarrow> spec_step (maximum tb) (table_map tb) x = Inr (table_map tb', a) \<and>
        table_inv tb' \<and> maximum tb' = maximum tb"
proof (cases x)
  case (Start k)
  show ?thesis
  proof (cases "table_map tb k = None \<and> card (dom (table_map tb)) < unat (maximum tb)")
    case True
    with table.start_room [OF assms, of k] Start show ?thesis by auto
  next
    case False
    with table.start_present [OF assms, of k] table.start_full [OF assms, of k] Start assms
    show ?thesis by (cases "table_map tb k") auto
  qed
next
  case (Finish k)
  with table.finish_active [OF assms, of k] table.finish_other [OF assms, of k] assms
  show ?thesis by (cases "table_map tb k = Some Active") auto
qed (use table.lookup_law [OF assms] assms in auto)

lemma run_table_spec:
  "table_inv tb \<Longrightarrow>
   map_sum id (map_prod table_map id) (outcome (run_table tb xs)) =
     run_spec (maximum tb) (table_map tb) xs"
proof (induction xs arbitrary: tb)
  case (Cons x xs)
  show ?case
  proof (cases "outcome (table_step tb x)")
    case (Inl e)
    with table_step_spec [OF Cons.prems, of x] show ?thesis by simp
  next
    case (Inr r)
    then obtain tb' a where r: "outcome (table_step tb x) = Inr (tb', a)" by (cases r) auto
    with table_step_spec [OF Cons.prems, of x]
    have step: "spec_step (maximum tb) (table_map tb) x = Inr (table_map tb', a)" "table_inv tb'"
      "maximum tb' = maximum tb" by auto
    from Cons.IH [OF step(2)] step(1,3) r show ?thesis
      by (cases "outcome (run_table tb' xs)") (auto simp: prod.case_eq_if split: sum.splits)
  qed
qed simp

text \<open>C7. The hash table is a finite map: every sequence of insertions, completions and queries on a
  new table gives, answer by answer and error by error, what a map with at most \<open>m\<close> keys gives.
  Probing always ends at the right slot, rehashing loses nothing, and an insertion is refused
  only when the declared number of tests is reached.\<close>

theorem table_refines_map:
  "map_sum id (map_prod table_map id) (outcome (run_table (table_new m) xs)) =
     run_spec m Map.empty xs"
  using run_table_spec [of "table_new m" xs] table.create_law [of m] by simp

end
