(* ===== verification/Event_Stream.thy ===== *)
theory Event_Stream
  imports Test_Table
begin

text \<open>
  The stream layer of \<open>crates/wrela-test-protocol\<close>: \<open>StreamState\<close>, which checks that a guest's
  events tell the story of one test run, and \<open>decode_and_verify_stream\<close>. The specification is
  the inductive predicate \<open>valid_run\<close> on histories, which does not mention counters, tables or
  flags; \<open>tracks\<close> relates a \<open>StreamState\<close> to the history it has seen.
\<close>

subsection \<open>Definitions\<close>

record stream_state =
  declared_tests :: "u32 option"
  tests :: test_state_table
  started :: u32
  finished :: u32
  passed :: u32
  failed :: u32
  language_fatal :: bool
  pending_assertion :: "(test_id \<times> text_bytes) option"
  last_heartbeat :: "u64 option"
  terminal :: bool

definition stream_new :: "u32 \<Rightarrow> stream_state" where
  "stream_new maximum_tests =
     \<lparr>declared_tests = None, tests = table_new maximum_tests, started = 0, finished = 0, passed = 0,
      failed = 0, language_fatal = False, pending_assertion = None, last_heartbeat = None,
      terminal = False\<rparr>"

definition require_active :: "stream_state \<Rightarrow> u64 \<Rightarrow> test_id \<Rightarrow> string \<Rightarrow> unit pcomp" where
  "require_active st sq test ev =
     and_then (table_state (tests st) test) (\<lambda>s.
     if s = Some Active then ok () else err (InvalidTestReference sq test ev))"

definition checked_stream_count :: "u32 \<Rightarrow> u32 \<Rightarrow> string \<Rightarrow> u32 pcomp" where
  "checked_stream_count v limit resource =
     or_err (case checked_add_u32 v 1 of
               Some n \<Rightarrow> if n \<le> limit then Some n else None
             | None \<Rightarrow> None)
       (ResourceLimit resource (u64_of_u32 limit))"

text \<open>The message the failed test must repeat after an assertion failure.\<close>

definition terminal_message :: "assertion_failure \<Rightarrow> text_bytes" where
  "terminal_message f = (case message f of Some m \<Rightarrow> m | None \<Rightarrow> str ''assertion failed'')"

fun is_run_finished :: "test_event_kind \<Rightarrow> bool" where
  "is_run_finished (RunFinished p f) = True"
| "is_run_finished _ = False"

definition finishes_assertion :: "test_id \<times> text_bytes \<Rightarrow> test_event_kind \<Rightarrow> bool" where
  "finishes_assertion pending k =
     (case k of TestFinished test (Failed m) \<Rightarrow> test = fst pending \<and> m = snd pending | _ \<Rightarrow> False)"

definition observe_run_started :: "stream_state \<Rightarrow> u64 \<Rightarrow> u32 \<Rightarrow> stream_state pcomp" where
  "observe_run_started st sq test_count =
     and_then (guard_err (declared_tests st \<noteq> None \<or> sq \<noteq> 0)
       (InvalidStreamOrder sq ''RunStarted must appear exactly once at sequence zero'')) (\<lambda>_.
     and_then (guard_err (test_count > maximum (tests st))
       (TestCountExceeded sq (maximum (tests st)) test_count)) (\<lambda>_.
     ok (st\<lparr>declared_tests := Some test_count, tests := set_maximum (tests st) test_count\<rparr>)))"

definition observe_test_started ::
  "stream_state \<Rightarrow> u64 \<Rightarrow> u32 \<Rightarrow> test_id \<Rightarrow> stream_state pcomp" where
  "observe_test_started st sq declared test =
     and_then (or_err (checked_add_u32 (started st) 1)
                (ResourceLimit ''started test count'' (u64_of_u32 declared))) (\<lambda>act.
     and_then (guard_err (act > declared) (TestCountExceeded sq declared act)) (\<lambda>_.
     and_then (insert_active (tests st) test) (\<lambda>(tb, fresh).
     and_then (guard_err (\<not> fresh) (DuplicateTestStart sq test)) (\<lambda>_.
     ok (st\<lparr>tests := tb, started := act\<rparr>)))))"

definition observe_test_finished ::
  "stream_state \<Rightarrow> u64 \<Rightarrow> u32 \<Rightarrow> test_id \<Rightarrow> guest_test_outcome \<Rightarrow> stream_state pcomp" where
  "observe_test_finished st sq declared test out =
     and_then (require_active st sq test ''TestFinished'') (\<lambda>_.
     and_then (mark_finished (tests st) test) (\<lambda>(tb, changed).
     and_then (guard_err (\<not> changed) (InvalidTestReference sq test ''TestFinished'')) (\<lambda>_.
     and_then (checked_stream_count (finished st) declared ''finished tests'') (\<lambda>fin.
     and_then (case out of
         Passed \<Rightarrow>
           and_then (checked_stream_count (passed st) declared ''passed tests'') (\<lambda>n.
           ok (st\<lparr>tests := tb, finished := fin, passed := n\<rparr>))
       | LanguageFatal _ \<Rightarrow>
           and_then (checked_stream_count (failed st) declared ''failed tests'') (\<lambda>n.
           ok (st\<lparr>tests := tb, finished := fin, failed := n, language_fatal := True\<rparr>))
       | _ \<Rightarrow>
           and_then (checked_stream_count (failed st) declared ''failed tests'') (\<lambda>n.
           ok (st\<lparr>tests := tb, finished := fin, failed := n\<rparr>))) (\<lambda>st.
     ok (st\<lparr>pending_assertion := None\<rparr>))))))"

definition observe_run_finished ::
  "stream_state \<Rightarrow> u64 \<Rightarrow> u32 \<Rightarrow> u32 \<Rightarrow> u32 \<Rightarrow> stream_state pcomp" where
  "observe_run_finished st sq declared p f =
     and_then (guard_err (started st \<noteq> declared \<or> finished st \<noteq> declared \<or> passed st \<noteq> p \<or>
                 failed st \<noteq> f \<or> checked_add_u32 p f \<noteq> Some declared)
       (StreamSummaryMismatch sq declared (started st) (finished st) (passed st) (failed st) p f)) (\<lambda>_.
     ok (st\<lparr>terminal := True\<rparr>))"

definition observe_heartbeat :: "stream_state \<Rightarrow> u64 \<Rightarrow> u64 \<Rightarrow> stream_state pcomp" where
  "observe_heartbeat st sq ticks =
     and_then (case last_heartbeat st of
         None \<Rightarrow> ok ()
       | Some previous \<Rightarrow> guard_err (previous \<ge> ticks) (NonMonotonicHeartbeat sq previous ticks)) (\<lambda>_.
     ok (st\<lparr>last_heartbeat := Some ticks\<rparr>))"

definition observe :: "stream_state \<Rightarrow> test_event \<Rightarrow> stream_state pcomp" where
  "observe st e =
     and_then (ask Cancelled) (\<lambda>_.
     let sq = sequence e in
     case kind e of RunStarted test_count \<Rightarrow> observe_run_started st sq test_count
     | _ \<Rightarrow>
     and_then (or_err (declared_tests st)
       (InvalidStreamOrder sq ''RunStarted must precede every other event'')) (\<lambda>declared.
     and_then (guard_err (terminal st) (InvalidStreamOrder sq ''no event may follow RunFinished'')) (\<lambda>_.
     and_then (guard_err (language_fatal st \<and> \<not> is_run_finished (kind e))
       (InvalidStreamOrder sq ''LanguageFatal must be followed immediately by RunFinished'')) (\<lambda>_.
     and_then (guard_err (case pending_assertion st of None \<Rightarrow> False
                 | Some pending \<Rightarrow> \<not> finishes_assertion pending (kind e))
       (InvalidStreamOrder sq
         ''AssertionFailed must be followed immediately by its exact failed TestFinished'')) (\<lambda>_.
     case kind e of
       TestStarted test \<Rightarrow> observe_test_started st sq declared test
     | Log (Some test) _ _ \<Rightarrow> and_then (require_active st sq test ''Log'') (\<lambda>_. ok st)
     | Log None _ _ \<Rightarrow> ok st
     | AssertionFailed test failure \<Rightarrow>
         and_then (require_active st sq test ''AssertionFailed'') (\<lambda>_.
         ok (st\<lparr>pending_assertion := Some (test, terminal_message failure)\<rparr>))
     | TestFinished test out \<Rightarrow> observe_test_finished st sq declared test out
     | Heartbeat ticks \<Rightarrow> observe_heartbeat st sq ticks
     | RunFinished p f \<Rightarrow> observe_run_finished st sq declared p f
     | RunStarted _ \<Rightarrow> err (InvalidStreamOrder sq ''RunStarted must appear exactly once''))))))"

definition next_frame ::
  "test_event_codec \<Rightarrow> u8 list \<Rightarrow> protocol_limits \<Rightarrow> nat \<Rightarrow> (nat \<times> u8 list) pcomp" where
  "next_frame codec stream l off =
     and_then (or_err (slice_get stream off (length stream)) UnexpectedEnd) (\<lambda>remaining.
     and_then (inspect_header codec remaining) (\<lambda>h.
     and_then (or_err (checked_add_usize TEST_FRAME_HEADER_BYTES (unat (payload_bytes h)))
                (FrameTooLarge (frame_bytes l) usize_max)) (\<lambda>fb.
     and_then (guard_err (fb > unat (frame_bytes l)) (FrameTooLarge (frame_bytes l) fb)) (\<lambda>_.
     and_then (or_err (checked_add_usize off fb) UnexpectedEnd) (\<lambda>e.
     and_then (or_err (slice_get stream off e) UnexpectedEnd) (\<lambda>frame.
     ok (e, frame)))))))"

lemma next_frame_advances:
  "outcome (next_frame codec stream l off) = Inr (e, frame) \<Longrightarrow>
   off + 32 \<le> e \<and> e \<le> length stream \<and> frame = take (e - off) (drop off stream)"
  by (auto simp: next_frame_def and_then_Inr slice_get_def simp del: outcome_and_then
      split: option.splits if_splits)

function stream_from ::
  "test_event_codec \<Rightarrow> u8 list \<Rightarrow> protocol_limits \<Rightarrow> nat \<Rightarrow> test_event list \<Rightarrow> stream_state
    \<Rightarrow> test_event list pcomp" where
  "stream_from codec stream l off evs st =
     (if off < length stream then
        and_then (ask Cancelled) (\<lambda>_.
        and_then (or_err (u64_try_from (length evs)) (EventLimit (events l) (NOT 0))) (\<lambda>expected_sequence.
        and_then (guard_err (expected_sequence \<ge> u64_of_u32 (events l))
                   (EventLimit (events l) expected_sequence)) (\<lambda>_.
        and_then (next_frame codec stream l off) (\<lambda>(e, frame).
        and_then (decode_and_verify_event codec frame l) (\<lambda>event.
        and_then (guard_err (sequence event \<noteq> expected_sequence)
                   (StreamSequenceMismatch expected_sequence (sequence event))) (\<lambda>_.
        and_then (observe st event) (\<lambda>st.
        and_then (ask (ResourceLimit ''decoded event entries'' (u64_of_u32 (events l)))) (\<lambda>_.
        stream_from codec stream l e (evs @ [event]) st))))))))
      else and_then (ask Cancelled) (\<lambda>_. ok evs))"
  by pat_completeness auto
termination
  by (relation "measure (\<lambda>(codec, stream, l, off, evs, st). length stream - off)")
    (auto dest: next_frame_advances)

declare stream_from.simps [simp del]

definition decode_and_verify_stream ::
  "test_event_codec \<Rightarrow> u8 list \<Rightarrow> protocol_limits \<Rightarrow> test_event list pcomp" where
  "decode_and_verify_stream codec stream l =
     and_then (ask Cancelled) (\<lambda>_.
     and_then (maximum_stream_bytes l) (\<lambda>mx.
     and_then (or_err (u64_try_from (length stream)) (StreamTooLarge mx (NOT 0))) (\<lambda>act.
     and_then (guard_err (act > mx) (StreamTooLarge mx act)) (\<lambda>_.
     stream_from codec stream l 0 [] (stream_new (events l))))))"

subsection \<open>What a run looks like\<close>

definition started_ids :: "test_event_kind list \<Rightarrow> test_id list" where
  "started_ids ks = List.map_filter (\<lambda>k. case k of TestStarted t \<Rightarrow> Some t | _ \<Rightarrow> None) ks"

definition finished_ids :: "test_event_kind list \<Rightarrow> test_id list" where
  "finished_ids ks = List.map_filter (\<lambda>k. case k of TestFinished t out \<Rightarrow> Some t | _ \<Rightarrow> None) ks"

definition passed_ids :: "test_event_kind list \<Rightarrow> test_id list" where
  "passed_ids ks = List.map_filter (\<lambda>k. case k of TestFinished t Passed \<Rightarrow> Some t | _ \<Rightarrow> None) ks"

definition heartbeats :: "test_event_kind list \<Rightarrow> u64 list" where
  "heartbeats ks = List.map_filter (\<lambda>k. case k of Heartbeat t \<Rightarrow> Some t | _ \<Rightarrow> None) ks"

definition test_status :: "test_event_kind list \<Rightarrow> test_id \<rightharpoonup> tracked_test_state" where
  "test_status ks t =
     (if t \<in> set (finished_ids ks) then Some Finished
      else if t \<in> set (started_ids ks) then Some Active else None)"

definition declared_of :: "test_event_kind list \<Rightarrow> u32 option" where
  "declared_of ks = (case ks of RunStarted n # _ \<Rightarrow> Some n | _ \<Rightarrow> None)"

definition saw_fatal :: "test_event_kind list \<Rightarrow> bool" where
  "saw_fatal ks \<longleftrightarrow> (\<exists>t c. TestFinished t (LanguageFatal c) \<in> set ks)"

definition saw_end :: "test_event_kind list \<Rightarrow> bool" where
  "saw_end ks \<longleftrightarrow> (\<exists>p f. RunFinished p f \<in> set ks)"

definition pending_of :: "test_event_kind list \<Rightarrow> (test_id \<times> text_bytes) option" where
  "pending_of ks =
     (if ks = [] then None
      else case last ks of AssertionFailed t f \<Rightarrow> Some (t, terminal_message f) | _ \<Rightarrow> None)"

text \<open>When event \<open>k\<close> may follow the history \<open>ks\<close> of a run that declared \<open>n\<close> tests.\<close>

fun may_follow :: "u32 \<Rightarrow> test_event_kind list \<Rightarrow> test_event_kind \<Rightarrow> bool" where
  "may_follow n ks (TestStarted t) =
     (t \<notin> set (started_ids ks) \<and> length (started_ids ks) < unat n)"
| "may_follow n ks (Log (Some t) lv m) = (test_status ks t = Some Active)"
| "may_follow n ks (AssertionFailed t f) = (test_status ks t = Some Active)"
| "may_follow n ks (TestFinished t out) = (test_status ks t = Some Active)"
| "may_follow n ks (Heartbeat x) = (heartbeats ks \<noteq> [] \<longrightarrow> last (heartbeats ks) < x)"
| "may_follow n ks (RunFinished p f) =
     (length (started_ids ks) = unat n \<and> length (finished_ids ks) = unat n \<and>
      length (passed_ids ks) = unat p \<and> unat p + unat f = unat n)"
| "may_follow n ks (RunStarted m) = False"
| "may_follow n ks (Log None lv m) = True"

inductive valid_run :: "u32 \<Rightarrow> test_event_kind list \<Rightarrow> bool" for bound :: u32 where
  empty: "valid_run bound []"
| begin_run: "n \<le> bound \<Longrightarrow> valid_run bound [RunStarted n]"
| extend: "valid_run bound ks \<Longrightarrow> declared_of ks = Some n \<Longrightarrow> \<not> saw_end ks \<Longrightarrow>
    (saw_fatal ks \<Longrightarrow> is_run_finished k) \<Longrightarrow>
    (\<And>t m. pending_of ks = Some (t, m) \<Longrightarrow> k = TestFinished t (Failed m)) \<Longrightarrow>
    may_follow n ks k \<Longrightarrow> valid_run bound (ks @ [k])"

inductive_simps valid_run_snoc: "valid_run bound (ks @ [k])"

subsection \<open>Histories\<close>

lemma history_append [simp]:
  "started_ids (ks @ ks') = started_ids ks @ started_ids ks'"
  "finished_ids (ks @ ks') = finished_ids ks @ finished_ids ks'"
  "passed_ids (ks @ ks') = passed_ids ks @ passed_ids ks'"
  "heartbeats (ks @ ks') = heartbeats ks @ heartbeats ks'"
  by (simp_all add: started_ids_def finished_ids_def passed_ids_def heartbeats_def map_filter_def)

lemma history_Nil [simp]:
  "started_ids [] = []" "finished_ids [] = []" "passed_ids [] = []" "heartbeats [] = []"
  by (simp_all add: started_ids_def finished_ids_def passed_ids_def heartbeats_def map_filter_def)

lemma history_single:
  "started_ids [k] = (case k of TestStarted t \<Rightarrow> [t] | _ \<Rightarrow> [])"
  "finished_ids [k] = (case k of TestFinished t out \<Rightarrow> [t] | _ \<Rightarrow> [])"
  "passed_ids [k] = (case k of TestFinished t Passed \<Rightarrow> [t] | _ \<Rightarrow> [])"
  "heartbeats [k] = (case k of Heartbeat x \<Rightarrow> [x] | _ \<Rightarrow> [])"
  by (simp_all add: started_ids_def finished_ids_def passed_ids_def heartbeats_def map_filter_def
      split: test_event_kind.splits guest_test_outcome.splits)

lemma saw_snoc:
  "saw_fatal (ks @ [k]) \<longleftrightarrow> saw_fatal ks \<or> (\<exists>t c. k = TestFinished t (LanguageFatal c))"
  "saw_end (ks @ [k]) \<longleftrightarrow> saw_end ks \<or> is_run_finished k"
  by (auto simp: saw_fatal_def saw_end_def) (cases k; auto)+

lemma pending_snoc: "pending_of (ks @ [k]) =
    (case k of AssertionFailed t f \<Rightarrow> Some (t, terminal_message f) | _ \<Rightarrow> None)"
  by (simp add: pending_of_def)

lemma declared_snoc: "ks \<noteq> [] \<Longrightarrow> declared_of (ks @ [k]) = declared_of ks"
  by (cases ks) (auto simp: declared_of_def)

lemma test_status_snoc:
  "test_status (ks @ [TestStarted t]) = (if t \<in> set (finished_ids ks) then test_status ks
     else (test_status ks)(t \<mapsto> Active))"
  "test_status (ks @ [TestFinished t out]) = (test_status ks)(t \<mapsto> Finished)"
  "(\<And>t. k \<noteq> TestStarted t) \<Longrightarrow> (\<And>t out. k \<noteq> TestFinished t out) \<Longrightarrow>
     test_status (ks @ [k]) = test_status ks"
  by (auto simp: test_status_def history_single fun_eq_iff split: test_event_kind.splits)

definition consistent :: "u32 \<Rightarrow> test_event_kind list \<Rightarrow> bool" where
  "consistent n ks \<longleftrightarrow>
     distinct (started_ids ks) \<and> distinct (finished_ids ks) \<and>
     set (finished_ids ks) \<subseteq> set (started_ids ks) \<and> length (started_ids ks) \<le> unat n \<and>
     length (passed_ids ks) \<le> length (finished_ids ks) \<and> sorted_wrt (<) (heartbeats ks)"

lemma sorted_wrt_less_snoc:
  "sorted_wrt (<) (xs @ [x :: 'a::linorder]) \<longleftrightarrow> sorted_wrt (<) xs \<and> (xs = [] \<or> last xs < x)"
  by (rule sorted_wrt_snoc)

lemma consistent_step:
  "consistent n ks \<Longrightarrow> may_follow n ks k \<Longrightarrow> consistent n (ks @ [k])"
  by (cases "(n, ks, k)" rule: may_follow.cases)
    (auto simp: consistent_def history_single sorted_wrt_less_snoc test_status_def
      split: if_splits guest_test_outcome.splits)

lemma valid_run_consistent:
  "valid_run bound ks \<Longrightarrow> ks = [] \<or> (\<exists>n. declared_of ks = Some n \<and> n \<le> bound \<and> consistent n ks)"
proof (induction rule: valid_run.induct)
  case (begin_run n)
  then show ?case by (simp add: declared_of_def consistent_def history_single)
next
  case (extend ks n k)
  then have "ks \<noteq> []" "consistent n ks" by (auto simp: declared_of_def)
  with extend show ?case by (auto simp: declared_snoc consistent_step)
qed simp

lemma valid_run_prefix: "valid_run bound (ks @ ks') \<Longrightarrow> valid_run bound ks"
proof (induction ks' rule: rev_induct)
  case (snoc k ks')
  then have "valid_run bound ((ks @ ks') @ [k])" by simp
  then have "valid_run bound (ks @ ks')"
    unfolding valid_run_snoc by (auto intro: valid_run.empty)
  with snoc.IH show ?case .
qed simp

subsection \<open>The state tracks the history\<close>

definition tracks :: "u32 \<Rightarrow> test_event_kind list \<Rightarrow> stream_state \<Rightarrow> bool" where
  "tracks bound ks st \<longleftrightarrow>
     table_inv (tests st) \<and> table_map (tests st) = test_status ks \<and>
     maximum (tests st) = (case declared_of ks of None \<Rightarrow> bound | Some n \<Rightarrow> n) \<and>
     declared_tests st = declared_of ks \<and>
     unat (started st) = length (started_ids ks) \<and> unat (finished st) = length (finished_ids ks) \<and>
     unat (passed st) = length (passed_ids ks) \<and>
     unat (failed st) + length (passed_ids ks) = length (finished_ids ks) \<and>
     language_fatal st = saw_fatal ks \<and> pending_assertion st = pending_of ks \<and>
     last_heartbeat st = (if heartbeats ks = [] then None else Some (last (heartbeats ks))) \<and>
     terminal st = saw_end ks"

lemma tracks_new: "tracks bound [] (stream_new bound)"
  using table.create_law [of bound]
  by (simp add: tracks_def stream_new_def declared_of_def saw_fatal_def saw_end_def pending_of_def
      test_status_def fun_eq_iff)

lemma status_counts:
  assumes "consistent n ks"
  shows "started_tests (test_status ks) = length (started_ids ks)"
    and "finished_tests (test_status ks) = length (finished_ids ks)"
proof -
  have "dom (test_status ks) = set (started_ids ks)"
    using assms by (auto simp: test_status_def consistent_def split: if_splits)
  then show "started_tests (test_status ks) = length (started_ids ks)"
    using assms by (simp add: started_tests_def consistent_def distinct_card)
  have "{t. test_status ks t = Some Finished} = set (finished_ids ks)"
    by (auto simp: test_status_def split: if_splits)
  then show "finished_tests (test_status ks) = length (finished_ids ks)"
    using assms by (simp add: finished_tests_def consistent_def distinct_card)
qed

lemma checked_stream_count_ok:
  "unat v < unat n \<Longrightarrow> \<exists>w. outcome (checked_stream_count v n r) = Inr w \<and> unat w = Suc (unat v)"
proof -
  assume v: "unat v < unat n"
  have w: "unat (word_of_nat (Suc (unat v)) :: u32) = Suc (unat v)"
    using v u32_bound [of n] by (intro unat_of_nat_u32) simp
  then have "checked_add_u32 v 1 = Some (word_of_nat (Suc (unat v)))"
    by (simp add: checked_add_u32_Some)
  with v w show ?thesis
    by (intro exI [of _ "word_of_nat (Suc (unat v))"])
      (simp add: checked_stream_count_def word_le_nat_alt del: of_nat_Suc)
qed

text \<open>\<open>refines\<close>: the computation succeeds exactly when the history may be extended, and then
  leads to a state that tracks the longer history.\<close>

definition refines ::
  "stream_state pcomp \<Rightarrow> u32 \<Rightarrow> test_event_kind list \<Rightarrow> test_event_kind \<Rightarrow> bool \<Rightarrow> bool" where
  "refines c bound ks k P \<longleftrightarrow>
     (if P then \<exists>st'. outcome c = Inr st' \<and> tracks bound (ks @ [k]) st' else \<exists>x. outcome c = Inl x)"

lemma refines_test_started:
  assumes tr: "tracks bound ks st" and d: "declared_of ks = Some n" and c: "consistent n ks"
    and guards: "\<not> saw_end ks" "\<not> saw_fatal ks" "pending_of ks = None"
  shows "refines (observe_test_started st sq n t) bound ks (TestStarted t)
    (may_follow n ks (TestStarted t))"
proof -
  let ?c = "observe_test_started st sq n t"
  have inv: "table_inv (tests st)" and map: "table_map (tests st) = test_status ks"
    and mx: "maximum (tests st) = n" and len: "unat (started st) = length (started_ids ks)"
    using tr d by (simp_all add: tracks_def)
  have count: "card (dom (test_status ks)) = length (started_ids ks)"
    using status_counts [OF c] by (simp add: started_tests_def)
  have fresh: "test_status ks t = None \<longleftrightarrow> t \<notin> set (started_ids ks)"
    using c by (auto simp: test_status_def consistent_def)
  show ?thesis
  proof (cases "length (started_ids ks) < unat n")
    case room: True
    have w: "unat (word_of_nat (Suc (unat (started st))) :: u32) = Suc (unat (started st))"
      using room len u32_bound [of n] by (intro unat_of_nat_u32) simp
    define w where "w = (word_of_nat (Suc (unat (started st))) :: u32)"
    have w: "unat w = Suc (unat (started st))" using w by (simp add: w_def)
    then have add: "checked_add_u32 (started st) 1 = Some w" by (simp add: checked_add_u32_Some)
    have le: "\<not> n < w" using w room len by (simp add: word_less_nat_alt)
    show ?thesis
    proof (cases "t \<in> set (started_ids ks)")
      case True
      then have "outcome (insert_active (tests st) t) = Inr (tests st, False)"
        using table.start_present [OF inv] map fresh by simp
      with True add le show ?thesis by (simp add: refines_def observe_test_started_def)
    next
      case False
      then obtain tb where tb: "outcome (insert_active (tests st) t) = Inr (tb, True)" "table_inv tb"
          "table_map tb = (test_status ks)(t \<mapsto> Active)" "maximum tb = n"
        using table.start_room [OF inv, of t] map fresh count room mx by auto
      have "t \<notin> set (finished_ids ks)" using False c by (auto simp: consistent_def)
      moreover have "ks \<noteq> []" using d by (auto simp: declared_of_def)
      ultimately have "tracks bound (ks @ [TestStarted t]) (st\<lparr>tests := tb, started := w\<rparr>)"
        using tr tb w d guards
        by (simp add: tracks_def test_status_snoc history_single declared_snoc saw_snoc pending_snoc)
      with False room add le tb show ?thesis by (simp add: refines_def observe_test_started_def)
    qed
  next
    case False
    then have "checked_add_u32 (started st) 1 = None \<or>
        (\<exists>w. checked_add_u32 (started st) 1 = Some w \<and> n < w)"
      using len by (cases "checked_add_u32 (started st) 1")
        (auto simp: checked_add_u32_Some word_less_nat_alt)
    with False show ?thesis by (auto simp: refines_def observe_test_started_def)
  qed
qed

lemma require_active_outcome:
  assumes "tracks bound ks st"
  shows "outcome (require_active st sq t ev) =
    (if test_status ks t = Some Active then Inr () else Inl (InvalidTestReference sq t ev))"
proof -
  have "outcome (table_state (tests st) t) = Inr (test_status ks t)"
    using assms table.lookup_law [of "tests st" t] by (simp add: tracks_def)
  then show ?thesis by (simp add: require_active_def)
qed

lemma refines_test_finished:
  assumes tr: "tracks bound ks st" and d: "declared_of ks = Some n" and c: "consistent n ks"
    and guards: "\<not> saw_end ks" "\<not> saw_fatal ks"
  shows "refines (observe_test_finished st sq n t out) bound ks (TestFinished t out)
    (may_follow n ks (TestFinished t out))"
proof (cases "test_status ks t = Some Active")
  case False
  then show ?thesis
    using require_active_outcome [OF tr, of sq t]
    by (simp add: refines_def observe_test_finished_def)
next
  case True
  have inv: "table_inv (tests st)" and map: "table_map (tests st) = test_status ks"
    using tr by (simp_all add: tracks_def)
  obtain tb where tb: "outcome (mark_finished (tests st) t) = Inr (tb, True)" "table_inv tb"
      "table_map tb = (test_status ks)(t \<mapsto> Finished)" "maximum tb = maximum (tests st)"
    using table.finish_active [OF inv, of t] map True by auto
  have gap: "length (finished_ids ks) < length (started_ids ks)"
    using table.active_gap [OF inv, of t] map True status_counts [OF c] by simp
  then have small: "unat (finished st) < unat n" "unat (passed st) < unat n" "unat (failed st) < unat n"
    using tr c by (auto simp: tracks_def consistent_def)
  obtain a where a: "outcome (checked_stream_count (finished st) n ''finished tests'') = Inr a"
      "unat a = Suc (unat (finished st))"
    using checked_stream_count_ok [OF small(1)] by blast
  obtain b where b: "outcome (checked_stream_count (passed st) n ''passed tests'') = Inr b"
      "unat b = Suc (unat (passed st))"
    using checked_stream_count_ok [OF small(2)] by blast
  obtain f where f: "outcome (checked_stream_count (failed st) n ''failed tests'') = Inr f"
      "unat f = Suc (unat (failed st))"
    using checked_stream_count_ok [OF small(3)] by blast
  have "ks \<noteq> []" using d by (auto simp: declared_of_def)
  then show ?thesis
    using True tr tb a b f d guards require_active_outcome [OF tr, of sq t]
    by (cases out) (simp_all add: refines_def observe_test_finished_def tracks_def test_status_snoc
        history_single declared_snoc saw_snoc pending_snoc)
qed

lemma refines_heartbeat:
  assumes tr: "tracks bound ks st" and ne: "ks \<noteq> []" and guards: "pending_of ks = None"
  shows "refines (observe_heartbeat st sq x) bound ks (Heartbeat x) (may_follow n ks (Heartbeat x))"
  using assms test_status_snoc(3) [of "Heartbeat x" ks]
  by (auto simp: refines_def observe_heartbeat_def tracks_def history_single declared_snoc saw_snoc
      pending_snoc not_le)

lemma refines_run_finished:
  assumes tr: "tracks bound ks st" and d: "declared_of ks = Some n" and guards: "pending_of ks = None"
  shows "refines (observe_run_finished st sq n p f) bound ks (RunFinished p f)
    (may_follow n ks (RunFinished p f))"
proof -
  have ne: "ks \<noteq> []" using d by (auto simp: declared_of_def)
  have "(started st = n \<and> finished st = n \<and> passed st = p \<and> failed st = f \<and>
      checked_add_u32 p f = Some n) \<longleftrightarrow> may_follow n ks (RunFinished p f)"
    using tr unfolding tracks_def may_follow.simps checked_add_u32_Some word_unat_eq_iff by auto
  then show ?thesis
    using tr ne guards test_status_snoc(3) [of "RunFinished p f" ks]
    by (auto simp: refines_def observe_run_finished_def tracks_def history_single declared_snoc saw_snoc
      pending_snoc)
qed

lemma tracks_log:
  "tracks bound ks st \<Longrightarrow> ks \<noteq> [] \<Longrightarrow> pending_of ks = None \<Longrightarrow> tracks bound (ks @ [Log t lv m]) st"
  using test_status_snoc(3) [of "Log t lv m" ks]
  by (simp add: tracks_def history_single declared_snoc saw_snoc pending_snoc)

lemma tracks_assertion:
  "tracks bound ks st \<Longrightarrow> ks \<noteq> [] \<Longrightarrow>
   tracks bound (ks @ [AssertionFailed t f]) (st\<lparr>pending_assertion := Some (t, terminal_message f)\<rparr>)"
  using test_status_snoc(3) [of "AssertionFailed t f" ks]
  by (simp add: tracks_def history_single declared_snoc saw_snoc pending_snoc)

lemma refines_run_started:
  assumes tr: "tracks bound ks st" and sq: "sq = 0 \<longleftrightarrow> ks = []" and wf: "ks \<noteq> [] \<longrightarrow> declared_of ks \<noteq> None"
  shows "refines (observe_run_started st sq n) bound ks (RunStarted n) (ks = [] \<and> n \<le> bound)"
proof (cases "ks = []")
  case False
  with tr wf show ?thesis
    by (cases "declared_of ks") (auto simp: refines_def observe_run_started_def tracks_def)
next
  case True
  have inv: "table_inv (tests st)" using tr by (simp add: tracks_def)
  have "test_status [RunStarted n] = test_status []"
    using test_status_snoc(3) [of "RunStarted n" "[]"] by simp
  moreover have "saw_fatal [RunStarted n] = saw_fatal []" "saw_end [RunStarted n] = saw_end []"
    using saw_snoc [of "[]" "RunStarted n"] by auto
  moreover have "pending_of [RunStarted n] = pending_of []" by (simp add: pending_of_def)
  ultimately have "tracks bound [RunStarted n]
      (st\<lparr>declared_tests := Some n, tests := set_maximum (tests st) n\<rparr>)"
    using tr table.rebound_law [OF inv, of n] True
    by (simp add: tracks_def history_single declared_of_def)
  with tr sq True show ?thesis
    by (auto simp: refines_def observe_run_started_def tracks_def declared_of_def not_le)
qed

lemma finishes_assertion_iff: "finishes_assertion (t, m) k \<longleftrightarrow> k = TestFinished t (Failed m)"
  by (auto simp: finishes_assertion_def split: test_event_kind.splits guest_test_outcome.splits)

definition order_ok :: "test_event_kind list \<Rightarrow> test_event_kind \<Rightarrow> bool" where
  "order_ok ks k \<longleftrightarrow> \<not> saw_end ks \<and> (saw_fatal ks \<longrightarrow> is_run_finished k) \<and>
     (\<forall>t m. pending_of ks = Some (t, m) \<longrightarrow> k = TestFinished t (Failed m))"

lemma valid_run_snoc_iff:
  assumes "valid_run bound ks" and "declared_of ks = Some n"
  shows "valid_run bound (ks @ [k]) \<longleftrightarrow> order_ok ks k \<and> may_follow n ks k"
  using assms by (auto simp: valid_run_snoc order_ok_def declared_of_def)

lemma observe_later:
  assumes tr: "tracks bound ks st" and d: "declared_of ks = Some n" and k: "\<forall>m. kind e \<noteq> RunStarted m"
  shows "(order_ok ks (kind e) \<longrightarrow> outcome (observe st e) = outcome (case kind e of
       TestStarted test \<Rightarrow> observe_test_started st (sequence e) n test
     | Log (Some test) _ _ \<Rightarrow> and_then (require_active st (sequence e) test ''Log'') (\<lambda>_. ok st)
     | Log None _ _ \<Rightarrow> ok st
     | AssertionFailed test failure \<Rightarrow>
         and_then (require_active st (sequence e) test ''AssertionFailed'') (\<lambda>_.
         ok (st\<lparr>pending_assertion := Some (test, terminal_message failure)\<rparr>))
     | TestFinished test out \<Rightarrow> observe_test_finished st (sequence e) n test out
     | Heartbeat ticks \<Rightarrow> observe_heartbeat st (sequence e) ticks
     | RunFinished p f \<Rightarrow> observe_run_finished st (sequence e) n p f
     | RunStarted _ \<Rightarrow> err Cancelled)) \<and>
    (\<not> order_ok ks (kind e) \<longrightarrow> (\<exists>x. outcome (observe st e) = Inl x))"
proof -
  have st: "declared_tests st = Some n" "terminal st = saw_end ks" "language_fatal st = saw_fatal ks"
    "pending_assertion st = pending_of ks"
    using tr d by (simp_all add: tracks_def)
  show ?thesis
    using k by (cases "kind e"; cases "pending_of ks")
      (auto simp: observe_def Let_def st order_ok_def finishes_assertion_iff split: if_splits)
qed

lemma observe_refines:
  assumes run: "valid_run bound ks" and tr: "tracks bound ks st" and sq: "sequence e = 0 \<longleftrightarrow> ks = []"
  shows "refines (observe st e) bound ks (kind e) (valid_run bound (ks @ [kind e]))"
proof (cases "\<exists>n. kind e = RunStarted n")
  case True
  then obtain n where k: "kind e = RunStarted n" ..
  have "valid_run bound (ks @ [RunStarted n]) \<longleftrightarrow> ks = [] \<and> n \<le> bound"
    by (auto simp: valid_run_snoc intro: valid_run.begin_run)
  moreover have "ks \<noteq> [] \<longrightarrow> declared_of ks \<noteq> None" using valid_run_consistent [OF run] by auto
  moreover have "outcome (observe st e) = outcome (observe_run_started st (sequence e) n)"
    using k by (simp add: observe_def Let_def)
  ultimately show ?thesis
    using refines_run_started [OF tr sq, of n] k by (auto simp: refines_def split: if_splits)
next
  case k: False
  show ?thesis
  proof (cases "declared_of ks")
    case None
    then have ks: "ks = []" using valid_run_consistent [OF run] by auto
    have "\<not> valid_run bound [kind e]"
      using k valid_run_snoc [of bound "[]" "kind e"] by (auto simp: declared_of_def)
    moreover have "\<exists>x. outcome (observe st e) = Inl x"
      using tr None k by (cases "kind e") (auto simp: observe_def Let_def tracks_def)
    ultimately show ?thesis using ks by (simp add: refines_def)
  next
    case (Some n)
    then have ne: "ks \<noteq> []" by (auto simp: declared_of_def)
    have c: "consistent n ks" using valid_run_consistent [OF run] Some ne by auto
    note later = observe_later [OF tr Some, of e]
    show ?thesis
    proof (cases "order_ok ks (kind e)")
      case False
      with later k valid_run_snoc_iff [OF run Some] show ?thesis by (auto simp: refines_def)
    next
      case ord: True
      have valid: "valid_run bound (ks @ [kind e]) \<longleftrightarrow> may_follow n ks (kind e)"
        using valid_run_snoc_iff [OF run Some] ord by simp
      have guards: "\<not> saw_end ks"
        "\<not> is_run_finished (kind e) \<Longrightarrow> \<not> saw_fatal ks"
        "(\<forall>t m. kind e \<noteq> TestFinished t (Failed m)) \<Longrightarrow> pending_of ks = None"
        using ord by (cases "pending_of ks"; auto simp: order_ok_def)+
      show ?thesis
        unfolding valid
        using k later ord ne tr guards refines_test_started [OF tr Some c]
          refines_test_finished [OF tr Some c] refines_heartbeat [OF tr ne, of _ _ n]
          refines_run_finished [OF tr Some] require_active_outcome [OF tr]
          tracks_log [OF tr ne] tracks_assertion [OF tr ne]
        by (cases "kind e") (auto simp: refines_def split: option.splits)
    qed
  qed
qed

subsection \<open>Whole streams\<close>

definition dense :: "test_event list \<Rightarrow> bool" where
  "dense es \<longleftrightarrow> map (unat \<circ> sequence) es = [0..<length es]"

lemma dense_snoc: "dense (es @ [e]) \<longleftrightarrow> dense es \<and> unat (sequence e) = length es"
  by (auto simp: dense_def)

lemma dense_nth: "dense es \<Longrightarrow> i < length es \<Longrightarrow> unat (sequence (es ! i)) = i"
  unfolding dense_def by (metis (no_types, lifting) add_0 comp_apply length_map nth_map nth_upt)

lemma u64_try_from_Some: "u64_try_from n = Some w \<longleftrightarrow> n = unat w"
  using u64_bound [of w] by (auto simp: u64_try_from_def unat_of_nat take_bit_nat_eq_self)

text \<open>One iteration of the loop that succeeds.\<close>

lemma stream_from_step:
  assumes "outcome (stream_from codec s l off evs st) = Inr es" and "off < length s"
  shows "\<exists>e frame event st'. outcome (next_frame codec s l off) = Inr (e, frame) \<and>
    outcome (decode_and_verify_event codec frame l) = Inr event \<and>
    unat (sequence event) = length evs \<and> outcome (observe st event) = Inr st' \<and>
    outcome (stream_from codec s l e (evs @ [event]) st') = Inr es"
  using assms
  by (subst (asm) stream_from.simps)
    (auto simp: and_then_Inr u64_try_from_Some simp del: outcome_and_then
      split: option.splits if_splits)

lemma stream_from_sound:
  assumes "outcome (stream_from codec s l off evs st) = Inr es" and "off \<le> length s"
    and "valid_run bound (map kind evs)" and "tracks bound (map kind evs) st" and "dense evs"
  shows "\<exists>frames new. es = evs @ new \<and> drop off s = concat frames \<and>
    list_all2 (\<lambda>f e. outcome (decode_and_verify_event codec f l) = Inr e) frames new \<and>
    valid_run bound (map kind es) \<and> dense es"
  using assms
proof (induction "length s - off" arbitrary: off evs st rule: less_induct)
  case less
  show ?case
  proof (cases "off < length s")
    case False
    then have "es = evs" using less.prems(1) by (simp add: stream_from.simps [of _ s])
    with False less.prems show ?thesis by (intro exI [of _ "[]"]) auto
  next
    case True
    from stream_from_step [OF less.prems(1) True] obtain e frame event st' where
      nf: "outcome (next_frame codec s l off) = Inr (e, frame)"
      and dec: "outcome (decode_and_verify_event codec frame l) = Inr event"
      and sq: "unat (sequence event) = length evs" and obs: "outcome (observe st event) = Inr st'"
      and rest: "outcome (stream_from codec s l e (evs @ [event]) st') = Inr es" by blast
    have adv: "off + 32 \<le> e" "e \<le> length s" "frame = take (e - off) (drop off s)"
      using next_frame_advances [OF nf] by auto
    have "sequence event = 0 \<longleftrightarrow> map kind evs = []"
      using sq by (metis length_0_conv map_is_Nil_conv unat_0 unat_eq_0)
    from observe_refines [OF less.prems(3,4) this] obs
    have "valid_run bound (map kind (evs @ [event]))" "tracks bound (map kind (evs @ [event])) st'"
      by (auto simp: refines_def split: if_splits)
    moreover have "dense (evs @ [event])" using less.prems(5) sq by (simp add: dense_snoc)
    moreover have "length s - e < length s - off" using adv True by simp
    ultimately obtain frames new where ih: "es = (evs @ [event]) @ new" "drop e s = concat frames"
        "list_all2 (\<lambda>f e. outcome (decode_and_verify_event codec f l) = Inr e) frames new"
        "valid_run bound (map kind es)" "dense es"
      using less.hyps [OF _ rest adv(2)] by blast
    have "drop off s = frame @ drop e s"
      unfolding adv(3) using adv(1)
      by (metis add.commute add_leD1 append_take_drop_id drop_drop le_add_diff_inverse2)
    with ih dec show ?thesis
      by (intro exI [of _ "frame # frames"] exI [of _ "event # new"]) auto
  qed
qed

lemma next_frame_canonical:
  assumes "drop off s = frame_of e @ tail" and "off \<le> length s" and "length s < usize_limit"
    and "length (frame_of e) \<le> unat (frame_bytes l)"
  shows "outcome (next_frame canonical_codec s l off) = Inr (off + length (frame_of e), frame_of e)"
proof -
  have "outcome (parse_header (drop off s)) = Inr (header_of e)"
    using assms(1) by (auto simp: parse_header_iff frame_of_def)
  moreover have pb: "32 + unat (payload_bytes (header_of e)) = length (frame_of e)"
  proof -
    have "length (event_payload e) < 2 ^ 32" using assms(4) u32_bound [of "frame_bytes l"] by simp
    then show ?thesis by (simp add: header_of_def unat_of_nat_u32)
  qed
  moreover have fits: "off + length (frame_of e) \<le> length s"
    using arg_cong [OF assms(1), of length] assms(2) by auto
  moreover have "take (length (frame_of e)) (drop off s) = frame_of e"
    unfolding assms(1) by simp
  ultimately show ?thesis
    using assms(2-4)
    by (simp add: next_frame_def inspect_frame_header_def slice_get_def checked_add_usize_def
        del: frame_of_length)
qed

lemma stream_from_complete:
  assumes "drop off s = concat (map frame_of new)" and "off \<le> length s" and "length s < usize_limit"
    and "valid_run bound (map kind (evs @ new))" and "tracks bound (map kind evs) st"
    and "dense (evs @ new)"
    and "\<forall>e \<in> set new. wf_event e \<and> event_ok l e \<and> length (frame_of e) \<le> unat (frame_bytes l)"
  shows "outcome (stream_from canonical_codec s l off evs st) = Inr (evs @ new)"
  using assms
proof (induction new arbitrary: off evs st)
  case Nil
  then show ?case by (simp add: stream_from.simps [of _ s])
next
  case (Cons e new)
  let ?off = "off + length (frame_of e)"
  have e: "wf_event e" "event_ok l e" "length (frame_of e) \<le> unat (frame_bytes l)"
    using Cons.prems(7) by auto
  have d: "drop off s = frame_of e @ concat (map frame_of new)" using Cons.prems(1) by simp
  then have "length (drop off s) \<ge> 32" by simp
  then have more: "off < length s" by auto
  have seq: "unat (sequence e) = length evs"
    using dense_nth [OF Cons.prems(6), of "length evs"] by simp
  have seq_word: "u64_try_from (length evs) = Some (sequence e)" using seq by (simp add: u64_try_from_Some)
  have lim: "\<not> u64_of_u32 (events l) \<le> sequence e"
    using e(2) by (simp add: event_ok_def word_le_nat_alt)
  have "outcome (encode canonical_codec e l) = Inr (encoded_of e)"
    using e by (simp add: encode_event_Inr)
  from canonical.verify_encoded [OF e(1) this]
  have dec: "outcome (decode_and_verify_event canonical_codec (frame_of e) l) = Inr e"
    by (simp add: encoded_of_def)
  have prefix: "valid_run bound (map kind evs @ [kind e])" "valid_run bound (map kind evs)"
    using valid_run_prefix [of bound "map kind evs @ [kind e]" "map kind new"]
      valid_run_prefix [of bound "map kind evs" "kind e # map kind new"] Cons.prems(4) by simp_all
  have zero: "sequence e = 0 \<longleftrightarrow> map kind evs = []"
    using seq by (metis length_0_conv map_is_Nil_conv unat_0 unat_eq_0)
  from observe_refines [OF prefix(2) Cons.prems(5) zero] prefix(1)
  obtain st' where obs: "outcome (observe st e) = Inr st'" "tracks bound (map kind (evs @ [e])) st'"
    by (auto simp: refines_def)
  have "length (drop off s) = length s - off" by simp
  with d have fits: "?off \<le> length s" using Cons.prems(2) by auto
  have "drop ?off s = concat (map frame_of new)"
    using d by (metis add.commute append_eq_conv_conj drop_drop)
  from Cons.IH [OF this fits Cons.prems(3) _ obs(2)] Cons.prems(4,6,7)
  have "outcome (stream_from canonical_codec s l ?off (evs @ [e]) st') = Inr (evs @ e # new)" by simp
  with more seq_word lim next_frame_canonical [OF d Cons.prems(2,3) e(3)] dec obs(1) show ?case
    by (simp add: stream_from.simps [of _ s l off] del: frame_of_length)
qed

lemma maximum_stream_bytes_Inr:
  "outcome (maximum_stream_bytes l) = Inr mx \<longleftrightarrow>
     limits_ok l \<and> unat mx = min (unat (frame_bytes l) * unat (events l)) 1073741824"
proof (cases "limits_ok l")
  case True
  have "unat (frame_bytes l) * unat (events l) \<le> 1048576 * 1000000"
    using True by (intro mult_le_mono) (auto simp: limits_ok_def)
  then have bound: "unat (u64_of_u32 (frame_bytes l)) * unat (u64_of_u32 (events l)) < 2 ^ 64" by simp
  then have mult: "unat (u64_of_u32 (frame_bytes l) * u64_of_u32 (events l)) =
      unat (frame_bytes l) * unat (events l)"
    by (simp add: unat_word_ariths)
  have "unat (min x y) = min (unat x) (unat y)" for x y :: u64
    by (simp add: min_def word_le_nat_alt)
  with True bound mult show ?thesis
    by (auto simp: maximum_stream_bytes_def and_then_Inr limits_validate_Inr checked_mul_u64_def
        MAX_PROTOCOL_STREAM_BYTES_def word_unat_eq_iff simp del: outcome_and_then)
next
  case False
  then show ?thesis
    by (simp add: maximum_stream_bytes_def and_then_Inr limits_validate_Inr del: outcome_and_then)
qed

lemma decode_stream_Inr:
  "outcome (decode_and_verify_stream codec s l) = Inr es \<longleftrightarrow>
     limits_ok l \<and> length s \<le> min (unat (frame_bytes l) * unat (events l)) 1073741824 \<and>
     outcome (stream_from codec s l 0 [] (stream_new (events l))) = Inr es"
proof (cases "limits_ok l")
  case True
  let ?m = "min (unat (frame_bytes l) * unat (events l)) 1073741824"
  define mx where "mx = (word_of_nat ?m :: u64)"
  have "?m < 2 ^ 64" by simp
  then have mx: "unat mx = ?m" unfolding mx_def by (rule unat_of_nat_u64)
  with True have out: "outcome (maximum_stream_bytes l) = Inr mx"
    by (simp add: maximum_stream_bytes_Inr)
  show ?thesis
  proof (cases "u64_try_from (length s)")
    case None
    then have "\<not> length s \<le> ?m" by (auto simp: u64_try_from_def split: if_splits)
    with None out True show ?thesis by (auto simp: decode_and_verify_stream_def)
  next
    case (Some w)
    then have "w > mx \<longleftrightarrow> \<not> length s \<le> ?m"
      using mx by (simp add: u64_try_from_Some word_less_nat_alt not_le min_less_iff_disj)
    with Some out True show ?thesis by (auto simp: decode_and_verify_stream_def)
  qed
next
  case False
  then obtain x where "outcome (maximum_stream_bytes l) = Inl x"
    using maximum_stream_bytes_Inr [of l] by (cases "outcome (maximum_stream_bytes l)") auto
  with False show ?thesis by (simp add: decode_and_verify_stream_def)
qed

lemma decode_stream_sound:
  assumes "exec h (decode_and_verify_stream codec s l) = Inr es"
  shows "\<exists>frames. s = concat frames \<and>
    list_all2 (\<lambda>f e. outcome (decode_and_verify_event codec f l) = Inr e) frames es \<and>
    valid_run (events l) (map kind es) \<and> dense es \<and> length s \<le> 1073741824"
proof -
  have "outcome (stream_from codec s l 0 [] (stream_new (events l))) = Inr es" "length s \<le> 1073741824"
    using exec_Inr [OF assms] by (simp_all add: decode_stream_Inr)
  moreover have "valid_run (events l) (map kind [])" "dense []"
    by (simp_all add: valid_run.empty dense_def)
  ultimately show ?thesis
    using stream_from_sound [of codec s l 0 "[]" "stream_new (events l)" es "events l"]
      tracks_new [of "events l"] by auto
qed

lemma run_end:
  assumes "valid_run bound ks" and "RunFinished p f \<in> set ks"
  shows "\<exists>n mid. ks = RunStarted n # mid @ [RunFinished p f] \<and> n \<le> bound \<and>
    consistent n ks \<and> may_follow n (RunStarted n # mid) (RunFinished p f)"
  using assms
proof (induction rule: valid_run.induct)
  case (extend ks n k)
  have new: "k = RunFinished p f" using extend.prems extend.hyps(3) by (auto simp: saw_end_def)
  obtain ms where ks: "ks = RunStarted n # ms"
    using extend.hyps(2) by (auto simp: declared_of_def split: list.splits test_event_kind.splits)
  have "consistent n ks" "n \<le> bound"
    using valid_run_consistent [OF extend.hyps(1)] extend.hyps(2) ks by auto
  with consistent_step [OF _ extend.hyps(6)] extend.hyps(6) new ks show ?case by auto
qed auto

lemma assertion_followed:
  assumes "valid_run bound ks" and "ks ! i = AssertionFailed t f" and "Suc i < length ks"
  shows "ks ! Suc i = TestFinished t (Failed (terminal_message f))"
  using assms
proof (induction rule: valid_run.induct)
  case (extend ks n k)
  show ?case
  proof (cases "Suc i < length ks")
    case True
    with extend show ?thesis by (simp add: nth_append)
  next
    case False
    with extend.prems have i: "Suc i = length ks" by simp
    then have ne: "ks \<noteq> []" and at: "length ks - 1 = i" by auto
    have "last ks = AssertionFailed t f"
      using extend.prems(1) i unfolding last_conv_nth [OF ne] at by (simp add: nth_append)
    with ne have "pending_of ks = Some (t, terminal_message f)" by (simp add: pending_of_def)
    with extend.hyps(5) i show ?thesis by (simp add: nth_append)
  qed
qed auto

lemma observe_history:
  "dense es \<Longrightarrow>
   (\<exists>st. outcome (for_each observe (stream_new bound) es) = Inr st) = valid_run bound (map kind es) \<and>
   (\<forall>st. outcome (for_each observe (stream_new bound) es) = Inr st \<longrightarrow> tracks bound (map kind es) st)"
proof (induction es rule: rev_induct)
  case Nil
  show ?case by (simp add: tracks_new valid_run.empty)
next
  case (snoc e es)
  then have d: "dense es" and sq: "unat (sequence e) = length es" by (simp_all add: dense_snoc)
  have zero: "sequence e = 0 \<longleftrightarrow> map kind es = []"
    using sq by (metis length_0_conv map_is_Nil_conv unat_0 unat_eq_0)
  show ?case
  proof (cases "outcome (for_each observe (stream_new bound) es)")
    case (Inl x)
    with snoc.IH [OF d] have "\<not> valid_run bound (map kind es)" by auto
    then have "\<not> valid_run bound (map kind es @ [kind e])" using valid_run_prefix by blast
    with Inl show ?thesis by (simp add: outcome_for_each_append)
  next
    case (Inr st)
    with snoc.IH [OF d] have "valid_run bound (map kind es)" "tracks bound (map kind es) st" by auto
    from observe_refines [OF this zero] Inr show ?thesis
      by (auto simp: outcome_for_each_append refines_def split: if_splits sum.splits)
  qed
qed

subsection \<open>Properties\<close>

text \<open>C8. \<open>StreamState\<close> implements the specification of a run: fed the events of a stream in order,
  it accepts all of them exactly when their history is a valid run, and it then knows the run
  precisely (\<open>tracks\<close>): its counters, flags and hash table are those of the history. No valid run
  is refused through a counter, the capacity of the table or a rehash.\<close>

theorem observe_exact:
  assumes "dense es"
  shows "((\<exists>st. outcome (for_each observe (stream_new bound) es) = Inr st) \<longleftrightarrow>
      valid_run bound (map kind es)) \<and>
    (\<forall>st. outcome (for_each observe (stream_new bound) es) = Inr st \<longrightarrow> tracks bound (map kind es) st)"
  using observe_history [OF assms] by blast

text \<open>C6. A byte stream is accepted exactly when it is the concatenation of frames that each decode
  to an event, the sequence numbers are 0, 1, 2, ..., the events form a valid run within the
  event limit, and the stream is within the byte limit. Nothing else is accepted, and every
  stream of that shape is.\<close>

theorem stream_exact:
  "outcome (decode_and_verify_stream canonical_codec s l) = Inr es \<longleftrightarrow>
     limits_ok l \<and> length s \<le> min (unat (frame_bytes l) * unat (events l)) 1073741824 \<and>
     (\<exists>frames. s = concat frames \<and> list_all2 (\<lambda>f e. outcome (decode_event f l) = Inr e) frames es) \<and>
     map (unat \<circ> sequence) es = [0..<length es] \<and> valid_run (events l) (map kind es)"
proof
  assume a: "outcome (decode_and_verify_stream canonical_codec s l) = Inr es"
  then have "exec (\<lambda>_. False) (decode_and_verify_stream canonical_codec s l) = Inr es"
    by (simp add: exec_quiet)
  from decode_stream_sound [OF this] obtain frames where f: "s = concat frames"
    "list_all2 (\<lambda>f e. outcome (decode_and_verify_event canonical_codec f l) = Inr e) frames es"
    "valid_run (events l) (map kind es)" "dense es" by blast
  have "list_all2 (\<lambda>f e. outcome (decode_event f l) = Inr e) frames es"
    using f(2) by (rule list_all2_mono) (use verify_sound in fastforce)
  with f a show "limits_ok l \<and> length s \<le> min (unat (frame_bytes l) * unat (events l)) 1073741824 \<and>
     (\<exists>frames. s = concat frames \<and> list_all2 (\<lambda>f e. outcome (decode_event f l) = Inr e) frames es) \<and>
     map (unat \<circ> sequence) es = [0..<length es] \<and> valid_run (events l) (map kind es)"
    by (auto simp: decode_stream_Inr dense_def)
next
  assume a: "limits_ok l \<and> length s \<le> min (unat (frame_bytes l) * unat (events l)) 1073741824 \<and>
     (\<exists>frames. s = concat frames \<and> list_all2 (\<lambda>f e. outcome (decode_event f l) = Inr e) frames es) \<and>
     map (unat \<circ> sequence) es = [0..<length es] \<and> valid_run (events l) (map kind es)"
  then obtain frames where f: "s = concat frames"
    and d: "list_all2 (\<lambda>f e. outcome (decode_event f l) = Inr e) frames es" by blast
  from d have "frames = map frame_of es \<and>
      (\<forall>e \<in> set es. wf_event e \<and> event_ok l e \<and> length (frame_of e) \<le> unat (frame_bytes l))"
    by (induction frames es rule: list_all2_induct) (auto simp: decode_event_Inr)
  moreover have "length s < usize_limit" using a by (simp add: usize_limit_def)
  ultimately have "outcome (stream_from canonical_codec s l 0 [] (stream_new (events l))) = Inr ([] @ es)"
    using a f by (intro stream_from_complete [of _ _ _ "events l"]) (auto simp: tracks_new dense_def)
  with a show "outcome (decode_and_verify_stream canonical_codec s l) = Inr es"
    by (simp add: decode_stream_Inr)
qed

text \<open>C10. What a completed run says is true of its events: if any codec's stream verifies and holds a
  \<open>RunFinished p f\<close>, then that is the last event, the first is \<open>RunStarted n\<close> with \<open>n = p + f\<close>,
  exactly \<open>n\<close> distinct tests were started, the same tests were finished, each once, and \<open>p\<close> of
  them passed.\<close>

theorem finished_run_summary:
  assumes "exec h (decode_and_verify_stream codec s l) = Inr es"
    and "RunFinished p f \<in> set (map kind es)"
  shows "\<exists>n mid. map kind es = RunStarted n # mid @ [RunFinished p f] \<and> n \<le> events l \<and>
    unat p + unat f = unat n \<and> distinct (started_ids mid) \<and> length (started_ids mid) = unat n \<and>
    distinct (finished_ids mid) \<and> set (finished_ids mid) = set (started_ids mid) \<and>
    length (passed_ids mid) = unat p"
proof -
  have "valid_run (events l) (map kind es)" using decode_stream_sound [OF assms(1)] by blast
  from run_end [OF this assms(2)] obtain n mid where
    ks: "map kind es = RunStarted n # mid @ [RunFinished p f]" and n: "n \<le> events l"
    and c: "consistent n (map kind es)" and last: "may_follow n (RunStarted n # mid) (RunFinished p f)"
    by (elim exE conjE) (rule that)
  have ids: "started_ids (RunStarted n # mid) = started_ids mid"
    "finished_ids (RunStarted n # mid) = finished_ids mid"
    "passed_ids (RunStarted n # mid) = passed_ids mid"
    using history_append [of "[RunStarted n]" mid] by (simp_all add: history_single)
  have all: "started_ids (map kind es) = started_ids mid" "finished_ids (map kind es) = finished_ids mid"
    unfolding ks using history_append [of "RunStarted n # mid" "[RunFinished p f]"]
    by (simp_all add: ids history_single)
  have d: "distinct (started_ids mid)" "distinct (finished_ids mid)"
    "set (finished_ids mid) \<subseteq> set (started_ids mid)"
    using c by (simp_all add: consistent_def all)
  have len: "length (started_ids mid) = unat n" "length (finished_ids mid) = unat n"
    "length (passed_ids mid) = unat p" "unat p + unat f = unat n"
    using last by (simp_all add: ids)
  have eq: "set (finished_ids mid) = set (started_ids mid)"
    using d len by (intro card_subset_eq) (simp_all add: distinct_card)
  show ?thesis
    by (intro exI [of _ n] exI [of _ mid] conjI) (rule ks n d(1,2) len(1,3,4) eq)+
qed

text \<open>C13. Ordering inside a verified stream of any codec: heartbeats strictly increase, and an
  assertion failure is followed at once by the failed completion of the same test with the same
  message. The only assertion failure without its completion is one that the stream breaks off at:
  it is the last event, and then the stream has no \<open>RunFinished\<close>.\<close>

theorem stream_ordering:
  assumes "exec h (decode_and_verify_stream codec s l) = Inr es"
  shows "sorted_wrt (<) (heartbeats (map kind es)) \<and>
    (\<forall>i t f. i < length es \<longrightarrow> kind (es ! i) = AssertionFailed t f \<longrightarrow>
       (if Suc i < length es then kind (es ! Suc i) = TestFinished t (Failed (terminal_message f))
        else \<forall>p q. RunFinished p q \<notin> set (map kind es)))"
proof -
  have v: "valid_run (events l) (map kind es)" using decode_stream_sound [OF assms] by blast
  have "RunFinished p q \<notin> set (map kind es)"
    if i: "i < length es" "kind (es ! i) = AssertionFailed t f" "\<not> Suc i < length es" for i t f p q
  proof
    assume "RunFinished p q \<in> set (map kind es)"
    from run_end [OF v this] obtain n mid where "map kind es = RunStarted n # mid @ [RunFinished p q]"
      by (elim exE conjE) (rule that)
    then have "last (map kind es) = RunFinished p q" by simp
    moreover have "es \<noteq> []" "length es - 1 = i" using i by auto
    ultimately show False using i(2) by (simp add: last_conv_nth last_map)
  qed
  moreover have "sorted_wrt (<) (heartbeats (map kind es))"
    using valid_run_consistent [OF v] by (auto simp: consistent_def)
  ultimately show ?thesis using assertion_followed [OF v] by simp
qed

subsection \<open>Witnesses\<close>

definition sample_failure :: assertion_failure where
  "sample_failure = \<lparr>expression = [0x78], message = Some [0x6E], source = None,
     expected = None, actual = None\<rparr>"

definition sample_run :: "test_event list" where
  "sample_run =
     [\<lparr>protocol = 3, sequence = 0, kind = RunStarted 2\<rparr>,
      \<lparr>protocol = 3, sequence = 1, kind = TestStarted 5\<rparr>,
      \<lparr>protocol = 3, sequence = 2, kind = Heartbeat 10\<rparr>,
      \<lparr>protocol = 3, sequence = 3, kind = TestFinished 5 Passed\<rparr>,
      \<lparr>protocol = 3, sequence = 4, kind = TestStarted 6\<rparr>,
      \<lparr>protocol = 3, sequence = 5, kind = AssertionFailed 6 sample_failure\<rparr>,
      \<lparr>protocol = 3, sequence = 6, kind = TestFinished 6 (Failed [0x6E])\<rparr>,
      \<lparr>protocol = 3, sequence = 7, kind = Heartbeat 20\<rparr>,
      \<lparr>protocol = 3, sequence = 8, kind = RunFinished 1 1\<rparr>]"

lemma nonblank_ascii: "x < 0x80 \<Longrightarrow> nonblank [x] \<longleftrightarrow> \<not> char_is_whitespace (unat x)"
proof -
  assume "x < 0x80"
  then have "utf8_step [x] = Some (unat x, [])" by (simp only: utf8_step.simps if_True)
  then show ?thesis
    by (simp add: nonblank_def utf8_chars_def char_indices.simps [of 0 "[x]"] char_indices.simps [of _ "[]"])
qed

lemma sample_run_dense: "dense sample_run"
  by (simp add: dense_def sample_run_def)

lemma sample_run_valid: "valid_run 1000000 (map kind sample_run)"
proof -
  note facts = declared_of_def saw_end_def saw_fatal_def pending_of_def test_status_def
    started_ids_def finished_ids_def passed_ids_def heartbeats_def map_filter_simps
    terminal_message_def sample_failure_def
  have "valid_run 1000000 [RunStarted 2]" by (rule valid_run.begin_run) simp
  from valid_run.extend [OF this, of 2 "TestStarted 5"]
  have "valid_run 1000000 [RunStarted 2, TestStarted 5]" by (simp add: facts)
  from valid_run.extend [OF this, of 2 "Heartbeat 10"]
  have "valid_run 1000000 [RunStarted 2, TestStarted 5, Heartbeat 10]" by (simp add: facts)
  from valid_run.extend [OF this, of 2 "TestFinished 5 Passed"]
  have "valid_run 1000000 [RunStarted 2, TestStarted 5, Heartbeat 10, TestFinished 5 Passed]"
    by (simp add: facts)
  from valid_run.extend [OF this, of 2 "TestStarted 6"]
  have "valid_run 1000000 [RunStarted 2, TestStarted 5, Heartbeat 10, TestFinished 5 Passed,
      TestStarted 6]" by (simp add: facts)
  from valid_run.extend [OF this, of 2 "AssertionFailed 6 sample_failure"]
  have "valid_run 1000000 [RunStarted 2, TestStarted 5, Heartbeat 10, TestFinished 5 Passed,
      TestStarted 6, AssertionFailed 6 sample_failure]" by (simp add: facts)
  then have "valid_run 1000000 ([RunStarted 2, TestStarted 5, Heartbeat 10, TestFinished 5 Passed,
      TestStarted 6, AssertionFailed 6 sample_failure] @ [TestFinished 6 (Failed [0x6E])])"
    by (rule valid_run.extend [where n = 2]) (auto simp: facts)
  then have "valid_run 1000000 [RunStarted 2, TestStarted 5, Heartbeat 10, TestFinished 5 Passed,
      TestStarted 6, AssertionFailed 6 sample_failure, TestFinished 6 (Failed [0x6E])]" by simp
  from valid_run.extend [OF this, of 2 "Heartbeat 20"]
  have "valid_run 1000000 [RunStarted 2, TestStarted 5, Heartbeat 10, TestFinished 5 Passed,
      TestStarted 6, AssertionFailed 6 sample_failure, TestFinished 6 (Failed [0x6E]),
      Heartbeat 20]" by (simp add: facts)
  from valid_run.extend [OF this, of 2 "RunFinished 1 1"] show ?thesis
    by (simp add: sample_run_def facts)
qed

theorem observe_exact_witness:
  "\<exists>st. outcome (for_each observe (stream_new 1000000) sample_run) = Inr st \<and>
     tracks 1000000 (map kind sample_run) st"
  using observe_exact [OF sample_run_dense, of 1000000] sample_run_valid by blast

lemma sample_stream:
  "outcome (decode_and_verify_stream canonical_codec (concat (map frame_of sample_run)) limits_standard) =
     Inr sample_run"
proof -
  have "\<forall>e \<in> set sample_run. event_ok limits_standard e \<and> wf_event e \<and> length (frame_of e) \<le> 100"
    using limits_standard_ok
    by (simp add: sample_run_def event_ok_def limits_standard_def protocol_constants fits_kind_def
        texts_of_kind_def wf_event_def event_payload_def sample_failure_def
        fits_text_def map_filter_simps valid_utf8_ascii nonblank_ascii char_is_whitespace_def
        admitted_option_def option_field_def text_field_def)
  moreover from this have "length (concat (map frame_of sample_run)) \<le> 900"
    by (simp add: sample_run_def)
  moreover have "outcome (stream_from canonical_codec (concat (map frame_of sample_run)) limits_standard 0 []
      (stream_new 1000000)) = Inr ([] @ sample_run)"
    using calculation sample_run_dense sample_run_valid
    by (intro stream_from_complete [of _ _ _ 1000000])
      (auto simp: tracks_new usize_limit_def limits_standard_def protocol_constants)
  ultimately show ?thesis
    using limits_standard_ok by (simp add: decode_stream_Inr limits_standard_def protocol_constants)
qed

theorem finished_run_summary_witness:
  "\<exists>n mid. map kind sample_run = RunStarted n # mid @ [RunFinished 1 1] \<and> length (passed_ids mid) = 1"
proof -
  have "exec (\<lambda>_. False) (decode_and_verify_stream canonical_codec
      (concat (map frame_of sample_run)) limits_standard) = Inr sample_run"
    using sample_stream by (simp add: exec_quiet)
  moreover have "RunFinished 1 1 \<in> set (map kind sample_run)" by (simp add: sample_run_def)
  ultimately have "\<exists>n mid. map kind sample_run = RunStarted n # mid @ [RunFinished 1 1] \<and>
      length (passed_ids mid) = unat (1 :: u32)"
    by (rule finished_run_summary [elim_format]) (elim exE conjE, intro exI conjI)
  then show ?thesis by simp
qed

theorem stream_ordering_witness:
  "heartbeats (map kind sample_run) = [10, 20] \<and> sorted_wrt (<) (heartbeats (map kind sample_run)) \<and>
   kind (sample_run ! 5) = AssertionFailed 6 sample_failure \<and>
   kind (sample_run ! Suc 5) = TestFinished 6 (Failed (terminal_message sample_failure))"
proof -
  have "exec (\<lambda>_. False) (decode_and_verify_stream canonical_codec
      (concat (map frame_of sample_run)) limits_standard) = Inr sample_run"
    using sample_stream by (simp add: exec_quiet)
  note ordered = stream_ordering [OF this]
  have run: "heartbeats (map kind sample_run) = [10, 20]" "5 < length sample_run"
    "Suc 5 < length sample_run" "kind (sample_run ! 5) = AssertionFailed 6 sample_failure"
    by (simp_all add: sample_run_def heartbeats_def map_filter_simps)
  from ordered have "kind (sample_run ! Suc 5) = TestFinished 6 (Failed (terminal_message sample_failure))"
    using run(2-4) by (metis (no_types, lifting))
  with ordered run show ?thesis by blast
qed

end
