(* ===== verification/Byte_Codec.thy ===== *)
theory Byte_Codec
  imports Utf8
begin

text \<open>
  Two contracts shared by the byte formats of the toolchain. \<open>prefix_code\<close> is a layout that can be
  told apart from what follows it: it is what makes a concatenation of fields injective, and with
  it every digest that is taken over such a concatenation. \<open>byte_field\<close> is a reader that accepts
  exactly such a layout.
\<close>

subsection \<open>Layouts\<close>

definition bool_byte :: "bool \<Rightarrow> u8" where
  "bool_byte b = (if b then 1 else 0)"

definition wf_digest :: "u8 list \<Rightarrow> bool" where
  "wf_digest d \<longleftrightarrow> length d = 32"

definition length_prefixed :: "u8 list \<Rightarrow> u8 list" where
  "length_prefixed t = to_le_bytes 4 (word_of_nat (length t) :: u32) @ t"

definition short_text :: "u8 list \<Rightarrow> bool" where
  "short_text t \<longleftrightarrow> length t < 2 ^ 32"

subsection \<open>Prefix codes\<close>

locale prefix_code =
  fixes enc :: "'a \<Rightarrow> u8 list" and dom :: "'a \<Rightarrow> bool"
  assumes unique: "dom x \<Longrightarrow> dom y \<Longrightarrow> enc x @ s = enc y @ t \<Longrightarrow> x = y \<and> s = t"
begin

lemma enc_iff: "dom x \<Longrightarrow> dom y \<Longrightarrow> enc x @ s = enc y @ t \<longleftrightarrow> x = y \<and> s = t"
  using unique by blast

lemma enc_inj: "dom x \<Longrightarrow> dom y \<Longrightarrow> enc x = enc y \<Longrightarrow> x = y"
  using unique [of x y "[]" "[]"] by simp

text \<open>A sequence of fields, each of them told apart from the rest, is told apart as a whole once its
  length is known.\<close>

lemma concat_unique:
  "list_all dom xs \<Longrightarrow> list_all dom ys \<Longrightarrow> length xs = length ys \<Longrightarrow>
   concat (map enc xs) @ s = concat (map enc ys) @ t \<Longrightarrow> xs = ys \<and> s = t"
proof (induction xs arbitrary: ys)
  case (Cons x xs)
  then obtain y ys' where ys: "ys = y # ys'" by (cases ys) auto
  with Cons.prems have "enc x @ (concat (map enc xs) @ s) = enc y @ (concat (map enc ys') @ t)" by simp
  with unique Cons.prems ys have "x = y" "concat (map enc xs) @ s = concat (map enc ys') @ t"
    by auto
  with Cons ys show ?case by auto
qed simp

end

lemma fixed_length_unique: "length u = length v \<Longrightarrow> u @ s = v @ t \<Longrightarrow> u = v \<and> s = t"
  by simp

lemma le_bytes_inject:
  "to_le_bytes 4 (a :: u32) = to_le_bytes 4 b \<longleftrightarrow> a = b"
  "to_le_bytes 8 (c :: u64) = to_le_bytes 8 d \<longleftrightarrow> c = d"
  by (metis le_bytes_32(1), metis le_bytes_64(1))

interpretation byte_code: prefix_code "\<lambda>b. [b]" "\<lambda>_. True"
  by unfold_locales auto

interpretation bool_code: prefix_code "\<lambda>b. [bool_byte b]" "\<lambda>_. True"
  by unfold_locales (auto simp: bool_byte_def split: if_splits)

interpretation u32_code: prefix_code "to_le_bytes 4 :: u32 \<Rightarrow> u8 list" "\<lambda>_. True"
  by unfold_locales (auto simp: le_bytes_inject)

interpretation u64_code: prefix_code "to_le_bytes 8 :: u64 \<Rightarrow> u8 list" "\<lambda>_. True"
  by unfold_locales (auto simp: le_bytes_inject)

interpretation digest_code: prefix_code "\<lambda>d. d" wf_digest
  by unfold_locales (auto simp: wf_digest_def)

interpretation text_code: prefix_code length_prefixed short_text
proof
  fix x y s t :: "u8 list"
  assume x: "short_text x" and y: "short_text y"
    and eq: "length_prefixed x @ s = length_prefixed y @ t"
  have "to_le_bytes 4 (word_of_nat (length x) :: u32) @ (x @ s) =
      to_le_bytes 4 (word_of_nat (length y) :: u32) @ (y @ t)"
    using eq by (simp only: length_prefixed_def append_assoc)
  from u32_code.unique [OF TrueI TrueI this]
  have w: "(word_of_nat (length x) :: u32) = word_of_nat (length y)" and rest: "x @ s = y @ t"
    by blast+
  from w have "length x = length y"
    using x y unat_of_nat_u32 unfolding short_text_def by metis
  with rest show "x = y \<and> s = t" by simp
qed

subsection \<open>Readers\<close>

locale byte_field =
  fixes rd :: "u8 list \<Rightarrow> ('e, 'a \<times> u8 list) comp"
    and enc :: "'a \<Rightarrow> u8 list" and dom :: "'a \<Rightarrow> bool"
  assumes reads: "dom x \<Longrightarrow> outcome (rd (enc x @ s)) = Inr (x, s)"
    and reads_only: "outcome (rd bs) = Inr (x, s) \<Longrightarrow> dom x \<and> bs = enc x @ s"
begin

lemma rd_iff: "outcome (rd bs) = Inr (x, s) \<longleftrightarrow> dom x \<and> bs = enc x @ s"
  using reads reads_only by blast

end

sublocale byte_field \<subseteq> prefix_code enc dom
proof
  fix x y s t
  assume "dom x" "dom y" "enc x @ s = enc y @ t"
  then have "Inr (x, s) = (Inr (y, t) :: 'e + 'a \<times> u8 list)" using reads by metis
  then show "x = y \<and> s = t" by simp
qed

end
