(* ===== verification/Build_Model.thy ===== *)
theory Build_Model
  imports Source Byte_Codec
begin

text \<open>
  \<open>crates/wrela-build-model\<close>: build profiles, their validation, the canonical encoding that build
  identities are hashed from, and the sealing of a build configuration.
\<close>

subsection \<open>Definitions\<close>

definition PROFILE_ENCODING_VERSION :: u32 where "PROFILE_ENCODING_VERSION = 2"
definition MAX_PROFILE_ATOM_BYTES :: nat where "MAX_PROFILE_ATOM_BYTES = 4096"
definition PROFILE_MAGIC :: "u8 list" where "PROFILE_MAGIC = str ''WRELPRF'' @ [0]"

datatype language_revision = Design0_1

fun language_as_str :: "language_revision \<Rightarrow> text_bytes" where
  "language_as_str Design0_1 = str ''0.1-design''"

datatype atom_error = EmptyAtom | TooLong nat nat | ForbiddenCharacter nat

datatype identity_error = InvalidTargetAtom atom_error

datatype profile_error =
    InvalidName atom_error
  | ZeroComptimeLimit
  | InvalidMemoryLimits
  | ZeroResetTimeout
  | MissingEventLogCapacity
  | ProfileDigestMismatch sha256_digest sha256_digest
  | ZeroBuildDigest

definition forbidden_in_atom :: "nat \<Rightarrow> bool" where
  "forbidden_in_atom c \<longleftrightarrow>
     char_is_control c \<or> char_is_whitespace c \<or> c = 0x5C \<or> c = 0x2F \<or> c = 0x3A"

definition validate_atom :: "text_bytes \<Rightarrow> atom_error + unit" where
  "validate_atom v =
     (if v = [] then Inl EmptyAtom
      else if length v > MAX_PROFILE_ATOM_BYTES then Inl (TooLong (length v) MAX_PROFILE_ATOM_BYTES)
      else case find forbidden_in_atom (utf8_chars v) of
        Some c \<Rightarrow> Inl (ForbiddenCharacter c)
      | None \<Rightarrow> Inr ())"

definition target_identity_new :: "text_bytes \<Rightarrow> identity_error + text_bytes" where
  "target_identity_new v = map_sum InvalidTargetAtom (\<lambda>_. v) (validate_atom v)"

definition aarch64_qemu_virt_uefi :: text_bytes where
  "aarch64_qemu_virt_uefi = str ''aarch64-qemu-virt-uefi''"

definition hex_digits :: text_bytes where
  "hex_digits = str ''0123456789abcdef''"

definition to_hex :: "sha256_digest \<Rightarrow> text_bytes" where
  "to_hex d = concat (map (\<lambda>b. [hex_digits ! unat (drop_bit 4 b), hex_digits ! unat (b AND 0x0F)]) d)"

datatype build_mode = Development | Release

datatype recording_mode = Disabled | Record | Replay

datatype optimization_level = NoOptimization | DevelopmentLevel | Performance | Size

record comptime_limits =
  steps :: u64
  memory_bytes :: u64
  call_depth :: u32

record memory_limits =
  static_bytes :: u64
  peak_bytes :: u64
  event_log_bytes :: u64

record dma_policy =
  coherent :: bool
  require_iommu :: bool

record recovery_policy =
  reset_timeout_ns :: u64
  quarantine_bytes :: u64

record optimization_policy =
  level :: optimization_level
  profile_data :: "sha256_digest option"

record diagnostic_policy =
  sealed_deployment :: bool
  warnings_as_errors :: bool
  watchdogs :: bool

record build_profile =
  profile_name :: text_bytes
  mode :: build_mode
  comptime :: comptime_limits
  memory :: memory_limits
  dma :: dma_policy
  recovery :: recovery_policy
  recording :: recording_mode
  optimization :: optimization_policy
  diagnostics :: diagnostic_policy

definition with_defaults :: "text_bytes \<Rightarrow> build_mode \<Rightarrow> build_profile" where
  "with_defaults n m =
     \<lparr>profile_name = n, mode = m,
      comptime = \<lparr>steps = 10000000, memory_bytes = 64 * 1024 * 1024, call_depth = 256\<rparr>,
      memory = \<lparr>static_bytes = 256 * 1024 * 1024, peak_bytes = 512 * 1024 * 1024,
                event_log_bytes = 0\<rparr>,
      dma = \<lparr>coherent = False, require_iommu = False\<rparr>,
      recovery = \<lparr>reset_timeout_ns = 5000000000, quarantine_bytes = 16 * 1024 * 1024\<rparr>,
      recording = Disabled,
      optimization = \<lparr>level = DevelopmentLevel, profile_data = None\<rparr>,
      diagnostics = \<lparr>sealed_deployment = False, warnings_as_errors = False, watchdogs = True\<rparr>\<rparr>"

definition development :: build_profile where
  "development = with_defaults (str ''development'') Development"

definition profile_validate :: "build_profile \<Rightarrow> profile_error + unit" where
  "profile_validate p =
     (case validate_atom (profile_name p) of Inl e \<Rightarrow> Inl (InvalidName e)
      | Inr _ \<Rightarrow>
        if steps (comptime p) = 0 \<or> memory_bytes (comptime p) = 0 \<or> call_depth (comptime p) = 0
        then Inl ZeroComptimeLimit
        else if static_bytes (memory p) = 0 \<or> peak_bytes (memory p) < static_bytes (memory p)
        then Inl InvalidMemoryLimits
        else if reset_timeout_ns (recovery p) = 0 then Inl ZeroResetTimeout
        else if recording p \<noteq> Disabled \<and> event_log_bytes (memory p) = 0
        then Inl MissingEventLogCapacity
        else Inr ())"

fun mode_tag :: "build_mode \<Rightarrow> u8" where
  "mode_tag Development = 1"
| "mode_tag Release = 2"

fun recording_tag :: "recording_mode \<Rightarrow> u8" where
  "recording_tag Disabled = 0"
| "recording_tag Record = 1"
| "recording_tag Replay = 2"

fun optimization_tag :: "optimization_level \<Rightarrow> u8" where
  "optimization_tag NoOptimization = 0"
| "optimization_tag DevelopmentLevel = 1"
| "optimization_tag Performance = 2"
| "optimization_tag Size = 3"

definition push_u8 :: "u8 list \<Rightarrow> u8 \<Rightarrow> u8 list" where "push_u8 bs v = bs @ [v]"
definition push_bool :: "u8 list \<Rightarrow> bool \<Rightarrow> u8 list" where "push_bool bs v = push_u8 bs (bool_byte v)"
definition push_u32 :: "u8 list \<Rightarrow> u32 \<Rightarrow> u8 list" where "push_u32 bs v = bs @ to_le_bytes 4 v"
definition push_u64 :: "u8 list \<Rightarrow> u64 \<Rightarrow> u8 list" where "push_u64 bs v = bs @ to_le_bytes 8 v"
definition push_string :: "u8 list \<Rightarrow> text_bytes \<Rightarrow> u8 list" where
  "push_string bs v = push_u32 bs (word_of_nat (length v)) @ v"

definition canonical_bytes :: "build_profile \<Rightarrow> profile_error + u8 list" where
  "canonical_bytes p =
     (case profile_validate p of Inl e \<Rightarrow> Inl e
      | Inr _ \<Rightarrow>
        (let b = PROFILE_MAGIC;
             b = push_u32 b PROFILE_ENCODING_VERSION;
             b = push_string b (profile_name p);
             b = push_u8 b (mode_tag (mode p));
             b = push_u64 b (steps (comptime p));
             b = push_u64 b (memory_bytes (comptime p));
             b = push_u32 b (call_depth (comptime p));
             b = push_u64 b (static_bytes (memory p));
             b = push_u64 b (peak_bytes (memory p));
             b = push_u64 b (event_log_bytes (memory p));
             b = push_bool b (coherent (dma p));
             b = push_bool b (require_iommu (dma p));
             b = push_u64 b (reset_timeout_ns (recovery p));
             b = push_u64 b (quarantine_bytes (recovery p));
             b = push_u8 b (recording_tag (recording p));
             b = push_u8 b (optimization_tag (level (optimization p)));
             b = (case profile_data (optimization p) of
                    Some d \<Rightarrow> push_bool b True @ d
                  | None \<Rightarrow> push_bool b False);
             b = push_bool b (sealed_deployment (diagnostics p));
             b = push_bool b (warnings_as_errors (diagnostics p));
             b = push_bool b (watchdogs (diagnostics p))
         in Inr b))"

record build_identity =
  compiler :: sha256_digest
  language :: language_revision
  target :: text_bytes
  target_package_digest :: sha256_digest
  standard_library :: sha256_digest
  source_graph :: sha256_digest
  request_digest :: sha256_digest
  profile_digest :: sha256_digest

record build_configuration =
  identity :: build_identity
  profile :: build_profile

definition configuration_validate :: "build_configuration \<Rightarrow> profile_error + unit" where
  "configuration_validate c = profile_validate (profile c)"

definition zero_digest :: "sha256_digest \<Rightarrow> bool" where
  "zero_digest d \<longleftrightarrow> (\<forall>b \<in> set d. b = 0)"

definition seal_build_configuration ::
  "build_configuration \<Rightarrow> sha256_digest \<Rightarrow> profile_error + build_configuration" where
  "seal_build_configuration c observed =
     (case configuration_validate c of Inl e \<Rightarrow> Inl e
      | Inr _ \<Rightarrow>
        if profile_digest (identity c) \<noteq> observed
        then Inl (ProfileDigestMismatch (profile_digest (identity c)) observed)
        else if list_ex zero_digest [compiler (identity c), target_package_digest (identity c),
            standard_library (identity c), source_graph (identity c), request_digest (identity c),
            profile_digest (identity c)]
        then Inl ZeroBuildDigest
        else Inr c)"

subsection \<open>The canonical encoding is injective\<close>

definition wf_optional_digest :: "sha256_digest option \<Rightarrow> bool" where
  "wf_optional_digest x \<longleftrightarrow> (\<forall>d. x = Some d \<longrightarrow> wf_digest d)"

definition wf_profile :: "build_profile \<Rightarrow> bool" where
  "wf_profile p \<longleftrightarrow> wf_optional_digest (profile_data (optimization p))"

definition optional_digest :: "sha256_digest option \<Rightarrow> u8 list" where
  "optional_digest x = (case x of None \<Rightarrow> [bool_byte False] | Some d \<Rightarrow> bool_byte True # d)"

text \<open>The fields of a profile in the order of the encoding.\<close>

definition profile_fields :: "build_profile \<Rightarrow> u8 list" where
  "profile_fields p =
     length_prefixed (profile_name p) @ [mode_tag (mode p)] @
     to_le_bytes 8 (steps (comptime p)) @ to_le_bytes 8 (memory_bytes (comptime p)) @
     to_le_bytes 4 (call_depth (comptime p)) @ to_le_bytes 8 (static_bytes (memory p)) @
     to_le_bytes 8 (peak_bytes (memory p)) @ to_le_bytes 8 (event_log_bytes (memory p)) @
     [bool_byte (coherent (dma p))] @ [bool_byte (require_iommu (dma p))] @
     to_le_bytes 8 (reset_timeout_ns (recovery p)) @ to_le_bytes 8 (quarantine_bytes (recovery p)) @
     [recording_tag (recording p)] @ [optimization_tag (level (optimization p))] @
     optional_digest (profile_data (optimization p)) @
     [bool_byte (sealed_deployment (diagnostics p))] @
     [bool_byte (warnings_as_errors (diagnostics p))] @ [bool_byte (watchdogs (diagnostics p))]"

lemmas push_defs = push_u8_def push_bool_def push_u32_def push_u64_def push_string_def

lemma map_sum_eq_Inr: "map_sum f g x = Inr y \<longleftrightarrow> (\<exists>z. x = Inr z \<and> y = g z)"
  by (cases x) auto

lemma canonical_bytes_fields:
  "canonical_bytes p = map_sum id (\<lambda>_. PROFILE_MAGIC @ to_le_bytes 4 PROFILE_ENCODING_VERSION @
     profile_fields p) (profile_validate p)"
  by (cases "profile_validate p"; cases "profile_data (optimization p)")
    (simp_all add: canonical_bytes_def Let_def push_defs profile_fields_def length_prefixed_def
      optional_digest_def)

lemma mode_tag_inject: "mode_tag a = mode_tag b \<longleftrightarrow> a = b"
  by (cases a; cases b) simp_all

lemma recording_tag_inject: "recording_tag a = recording_tag b \<longleftrightarrow> a = b"
  by (cases a; cases b) simp_all

lemma optimization_tag_inject: "optimization_tag a = optimization_tag b \<longleftrightarrow> a = b"
  by (cases a; cases b) simp_all

interpretation optional_digest_code: prefix_code optional_digest wf_optional_digest
  by unfold_locales (auto simp: optional_digest_def bool_byte_def wf_digest_def wf_optional_digest_def
      split: option.splits)

lemma profile_validate_name: "profile_validate p = Inr u \<Longrightarrow> validate_atom (profile_name p) = Inr ()"
  by (auto simp: profile_validate_def split: sum.splits)

lemma validate_atom_Inr:
  "validate_atom v = Inr u \<longleftrightarrow>
     v \<noteq> [] \<and> length v \<le> 4096 \<and> (\<forall>c \<in> set (utf8_chars v). \<not> forbidden_in_atom c)"
  by (auto simp: validate_atom_def MAX_PROFILE_ATOM_BYTES_def find_None_iff find_Some_iff not_less
      split: option.splits if_splits dest: nth_mem)

lemma atom_short: "validate_atom v = Inr u \<Longrightarrow> short_text v"
  by (simp add: validate_atom_Inr short_text_def)

lemmas field_codes = text_code.enc_iff byte_code.enc_iff [OF TrueI TrueI]
  u64_code.enc_iff [OF TrueI TrueI] u32_code.enc_iff [OF TrueI TrueI] optional_digest_code.enc_iff
  mode_tag_inject recording_tag_inject optimization_tag_inject

lemma bool_byte_inject: "bool_byte a = bool_byte b \<longleftrightarrow> a = b"
  by (simp add: bool_byte_def)

definition profile_dom :: "build_profile \<Rightarrow> bool" where
  "profile_dom p \<longleftrightarrow> wf_profile p \<and> short_text (profile_name p)"

interpretation profile_code: prefix_code profile_fields profile_dom
proof
  fix p q s t
  assume dom: "profile_dom p" "profile_dom q" and eq: "profile_fields p @ s = profile_fields q @ t"
  have 1: "profile_name p = profile_name q \<and> mode p = mode q \<and> comptime p = comptime q \<and>
      memory p = memory q \<and> dma p = dma q \<and> recovery p = recovery q \<and> recording p = recording q \<and>
      optimization p = optimization q \<and> diagnostics p = diagnostics q \<and> s = t"
    using eq dom unfolding profile_fields_def append_assoc profile_dom_def wf_profile_def
    by (simp only: field_codes bool_byte_inject) simp
  then show "p = q \<and> s = t" by (cases p; cases q) simp
qed

subsection \<open>Hexadecimal digests\<close>

definition byte_hex :: "u8 \<Rightarrow> text_bytes" where
  "byte_hex b = [hex_digits ! unat (drop_bit 4 b), hex_digits ! unat (b AND 0x0F)]"

lemma to_hex_bytes: "to_hex d = concat (map byte_hex d)"
  by (simp add: to_hex_def byte_hex_def cong: map_cong)

lemma hex_digits_distinct: "distinct hex_digits" "length hex_digits = 16"
  by (simp_all add: hex_digits_def str_def)

lemma nibbles:
  "unat (drop_bit 4 b) < 16" "unat (b AND 0x0F) < 16"
  "(b :: u8) = push_bit 4 (drop_bit 4 b) OR (b AND 0x0F)"
proof -
  show "unat (drop_bit 4 b) < 16"
    using unsigned_less [of b, where 'a = nat] by (simp add: drop_bit_eq_div unat_div_distrib less_mult_imp_div_less)
  have low: "b AND 0x0F = take_bit 4 b" by (simp add: take_bit_eq_mask mask_eq_exp_minus_1)
  then show "unat (b AND 0x0F) < 16"
    by (simp add: take_bit_eq_mod unat_mod_distrib)
  show "b = push_bit 4 (drop_bit 4 b) OR (b AND 0x0F)"
    unfolding low by (rule bit_word_eqI) (auto simp: bit_simps)
qed

interpretation hex_code: prefix_code byte_hex "\<lambda>_. True"
proof
  fix x y :: u8 and s t
  assume "byte_hex x @ s = byte_hex y @ t"
  then have "hex_digits ! unat (drop_bit 4 x) = hex_digits ! unat (drop_bit 4 y)"
    "hex_digits ! unat (x AND 0x0F) = hex_digits ! unat (y AND 0x0F)" "s = t"
    by (simp_all add: byte_hex_def)
  moreover have "i = j" if "hex_digits ! i = hex_digits ! j" "i < 16" "j < 16" for i j
    using that hex_digits_distinct by (simp add: nth_eq_iff_index_eq)
  ultimately have "unat (drop_bit 4 x) = unat (drop_bit 4 y)" "unat (x AND 0x0F) = unat (y AND 0x0F)"
      "s = t"
    using nibbles(1,2) by blast+
  then have "drop_bit 4 x = drop_bit 4 y" "x AND 0x0F = y AND 0x0F" "s = t"
    by (simp_all only: word_unat_eq_iff)
  then show "x = y \<and> s = t" using nibbles(3) by metis
qed

lemma to_hex_spec: "length (to_hex d) = 2 * length d" "set (to_hex d) \<subseteq> set hex_digits"
proof -
  show "length (to_hex d) = 2 * length d"
    by (induction d) (simp_all add: to_hex_bytes byte_hex_def)
  show "set (to_hex d) \<subseteq> set hex_digits"
    using nibbles hex_digits_distinct(2) by (auto simp: to_hex_bytes byte_hex_def)
qed

subsection \<open>Properties\<close>

text \<open>C27. The canonical encoding of a profile determines the profile: two valid profiles whose
  encodings agree, even when followed by arbitrary other bytes, are the same in every field. So a
  hash of the encoding binds every policy field of the build.\<close>

theorem canonical_bytes_injective:
  assumes "wf_profile p" and "wf_profile q"
    and "canonical_bytes p = Inr bp" and "canonical_bytes q = Inr bq" and "bp @ s = bq @ t"
  shows "p = q \<and> s = t"
proof -
  have p: "profile_validate p = Inr ()" "bp = PROFILE_MAGIC @ to_le_bytes 4 PROFILE_ENCODING_VERSION @ profile_fields p"
    and q: "profile_validate q = Inr ()" "bq = PROFILE_MAGIC @ to_le_bytes 4 PROFILE_ENCODING_VERSION @ profile_fields q"
    using assms(3,4) by (auto simp: canonical_bytes_fields map_sum_eq_Inr)
  have "profile_dom p" "profile_dom q"
    using assms(1,2) profile_validate_name [OF p(1)] profile_validate_name [OF q(1)]
    by (simp_all add: profile_dom_def atom_short)
  moreover have "profile_fields p @ s = profile_fields q @ t" using assms(5) p(2) q(2) by simp
  ultimately show ?thesis by (rule profile_code.unique)
qed

text \<open>C29. The hexadecimal form of a digest has 64 lowercase hexadecimal digits and determines the
  digest.\<close>

theorem to_hex_faithful:
  assumes "wf_digest a" and "wf_digest b"
  shows "length (to_hex a) = 64 \<and> set (to_hex a) \<subseteq> set (str ''0123456789abcdef'') \<and>
    (to_hex a = to_hex b \<longleftrightarrow> a = b)"
proof -
  have "to_hex a = to_hex b \<Longrightarrow> a = b"
    using hex_code.concat_unique [of a b "[]" "[]"] assms
    by (simp add: to_hex_bytes wf_digest_def list_all_iff)
  then show ?thesis
    using to_hex_spec [of a] assms(1) by (auto simp: wf_digest_def hex_digits_def)
qed

subsection \<open>Witnesses\<close>

lemma sample_profile_valid: "profile_validate (with_defaults [0x64] m) = Inr ()"
  by (simp add: profile_validate_def with_defaults_def validate_atom_def utf8_chars_d
      MAX_PROFILE_ATOM_BYTES_def forbidden_in_atom_def char_is_control_def char_is_whitespace_def)

theorem canonical_bytes_injective_witness:
  "\<exists>b. canonical_bytes (with_defaults [0x64] Release) = Inr b \<and>
     (\<forall>p. wf_profile p \<longrightarrow> canonical_bytes p = Inr b \<longrightarrow> p = with_defaults [0x64] Release)"
proof -
  have wf: "wf_profile (with_defaults [0x64] Release)"
    by (simp add: wf_profile_def wf_optional_digest_def with_defaults_def)
  obtain b where b: "canonical_bytes (with_defaults [0x64] Release) = Inr b"
    by (simp add: canonical_bytes_fields sample_profile_valid)
  from canonical_bytes_injective [OF _ wf _ b, of _ _ "[]" "[]"] b show ?thesis by auto
qed

theorem to_hex_faithful_witness:
  "length (to_hex (replicate 32 0xAB)) = 64 \<and> to_hex (replicate 32 0xAB) \<noteq> to_hex (replicate 32 0xBA)"
  using to_hex_faithful [of "replicate 32 0xAB" "replicate 32 0xBA"] by (simp add: wf_digest_def)

end
