(* ===== verification/Backend_Protocol.thy ===== *)
theory Backend_Protocol
  imports Build_Model
begin

text \<open>
  \<open>crates/wrela-backend-protocol\<close>: the framed messages between the driver and the private backend.
  Error values that the sources carry as rendered text (\<open>InvalidTarget\<close>, \<open>InvalidProfile\<close>) carry
  the error that was rendered. Nothing here polls for cancellation, so no computation of this
  theory has an interruption point.
\<close>

subsection \<open>Definitions\<close>

definition PROTOCOL_VERSION :: u32 where "PROTOCOL_VERSION = 5"
definition MAX_FRAME_BYTES :: nat where "MAX_FRAME_BYTES = 16 * 1024 * 1024"
definition MAX_TEXT_BYTES :: nat where "MAX_TEXT_BYTES = 1024 * 1024"
definition MAGIC :: "u8 list" where "MAGIC = str ''WRELBEP'' @ [0]"

datatype target_fault = Identity identity_error | RuntimeEvidence

datatype backend_error =
    BackendInvalidMagic
  | UnsupportedVersion u32
  | UnexpectedMessageKind u8
  | BackendFrameTooLarge nat
  | FrameLengthMismatch nat nat
  | BackendUnexpectedEnd
  | BackendTrailingBytes
  | BackendInvalidUtf8
  | TextTooLong nat
  | InvalidBoolean u8
  | InvalidEnumTag string u8
  | InvalidOutcomeTag u8
  | InvalidBackendPath string
  | InvalidTarget target_fault
  | InvalidProfile profile_error
  | BuildConfigurationMismatch

type_synonym 'a bcomp = "(backend_error, 'a) comp"
type_synonym backend_path = text_bytes

definition backend_path_new :: "text_bytes \<Rightarrow> backend_path bcomp" where
  "backend_path_new v =
     (if v = [] then err (InvalidBackendPath ''path is empty'')
      else if 0 \<in> set v then err (InvalidBackendPath ''path contains NUL'')
      else if hd v = 0x2F \<or> hd v = 0x5C \<or> 0x3A \<in> set v
      then err (InvalidBackendPath ''path must be relative to the private build directory'')
      else if 0x5C \<in> set v
      then err (InvalidBackendPath ''path must use canonical forward-slash separators'')
      else if list_ex bad_component (split_on 0x2F v)
      then err (InvalidBackendPath ''path contains an empty, current-directory, or parent component'')
      else ok v)"

record backend_request =
  request_id :: u64
  build :: build_configuration
  wir :: backend_path
  wir_digest :: sha256_digest
  target_runtime_digest :: sha256_digest
  target_runtime_bytes :: u64
  target_package :: backend_path
  out_path :: backend_path
  report :: backend_path

record backend_success =
  artifact :: backend_path
  artifact_digest :: sha256_digest
  success_report :: backend_path
  report_digest :: sha256_digest

datatype backend_failure_kind =
    Protocol | Input | Target | Verification | Codegen | Link | Report | Internal

record backend_failure =
  failure_kind :: backend_failure_kind
  failure_message :: text_bytes

datatype backend_outcome = Success backend_success | Failure backend_failure

record backend_response =
  response_id :: u64
  response_outcome :: backend_outcome

datatype message_kind = Request | Response

fun message_kind_byte :: "message_kind \<Rightarrow> u8" where
  "message_kind_byte Request = 1"
| "message_kind_byte Response = 2"

text \<open>Writing: \<open>push_u8\<close>, \<open>push_bool\<close>, \<open>push_u32\<close> and \<open>push_u64\<close> are those of the build model,
  which the two crates have in common.\<close>

definition push_digest :: "u8 list \<Rightarrow> sha256_digest \<Rightarrow> u8 list" where
  "push_digest bs d = bs @ d"

definition push_text :: "u8 list \<Rightarrow> text_bytes \<Rightarrow> u8 list bcomp" where
  "push_text bs v =
     and_then (guard_err (length v > MAX_TEXT_BYTES) (TextTooLong (length v))) (\<lambda>_.
     and_then (or_err (u32_try_from (length v)) (TextTooLong (length v))) (\<lambda>len.
     ok (push_u32 bs len @ v)))"

definition frame :: "message_kind \<Rightarrow> u8 list \<Rightarrow> u8 list bcomp" where
  "frame k payload =
     and_then (guard_err (length payload > MAX_FRAME_BYTES) (BackendFrameTooLarge (length payload))) (\<lambda>_.
     and_then (or_err (u32_try_from (length payload)) (BackendFrameTooLarge (length payload))) (\<lambda>len.
     ok (push_u32 (push_u8 (push_u32 MAGIC PROTOCOL_VERSION) (message_kind_byte k)) len @ payload)))"

fun language_tag :: "language_revision \<Rightarrow> u8" where
  "language_tag Design0_1 = 1"

definition decode_language :: "u8 \<Rightarrow> language_revision bcomp" where
  "decode_language t = (if t = 1 then ok Design0_1 else err (InvalidEnumTag ''language revision'' t))"

definition decode_mode :: "u8 \<Rightarrow> build_mode bcomp" where
  "decode_mode t = (if t = 1 then ok Development else if t = 2 then ok Release
     else err (InvalidEnumTag ''build mode'' t))"

definition decode_recording :: "u8 \<Rightarrow> recording_mode bcomp" where
  "decode_recording t = (if t = 0 then ok Disabled else if t = 1 then ok Record
     else if t = 2 then ok Replay else err (InvalidEnumTag ''recording mode'' t))"

definition decode_optimization :: "u8 \<Rightarrow> optimization_level bcomp" where
  "decode_optimization t = (if t = 0 then ok NoOptimization else if t = 1 then ok DevelopmentLevel
     else if t = 2 then ok Performance else if t = 3 then ok Size
     else err (InvalidEnumTag ''optimization level'' t))"

fun failure_kind_tag :: "backend_failure_kind \<Rightarrow> u8" where
  "failure_kind_tag Protocol = 0"
| "failure_kind_tag Input = 1"
| "failure_kind_tag Target = 2"
| "failure_kind_tag Verification = 3"
| "failure_kind_tag Codegen = 4"
| "failure_kind_tag Link = 5"
| "failure_kind_tag Report = 6"
| "failure_kind_tag Internal = 7"

definition decode_failure_kind :: "u8 \<Rightarrow> backend_failure_kind bcomp" where
  "decode_failure_kind t =
     (if t = 0 then ok Protocol else if t = 1 then ok Input else if t = 2 then ok Target
      else if t = 3 then ok Verification else if t = 4 then ok Codegen else if t = 5 then ok Link
      else if t = 6 then ok Report else if t = 7 then ok Internal
      else err (InvalidEnumTag ''backend failure kind'' t))"

text \<open>Reading: a \<open>Reader\<close> is its remaining bytes.\<close>

definition rd_take :: "nat \<Rightarrow> u8 list \<Rightarrow> (u8 list \<times> u8 list) bcomp" where
  "rd_take n r = (if length r < n then err BackendUnexpectedEnd else ok (take n r, drop n r))"

definition rd_u8 :: "u8 list \<Rightarrow> (u8 \<times> u8 list) bcomp" where
  "rd_u8 r = and_then (rd_take 1 r) (\<lambda>(v, r). ok (v ! 0, r))"

definition rd_boolean :: "u8 list \<Rightarrow> (bool \<times> u8 list) bcomp" where
  "rd_boolean r = and_then (rd_u8 r) (\<lambda>(t, r).
     if t = 0 then ok (False, r) else if t = 1 then ok (True, r) else err (InvalidBoolean t))"

definition rd_u32 :: "u8 list \<Rightarrow> (u32 \<times> u8 list) bcomp" where
  "rd_u32 r = and_then (rd_take 4 r) (\<lambda>(v, r). ok (from_le_bytes v, r))"

definition rd_u64 :: "u8 list \<Rightarrow> (u64 \<times> u8 list) bcomp" where
  "rd_u64 r = and_then (rd_take 8 r) (\<lambda>(v, r). ok (from_le_bytes v, r))"

definition rd_digest :: "u8 list \<Rightarrow> (sha256_digest \<times> u8 list) bcomp" where
  "rd_digest r = rd_take 32 r"

definition rd_string :: "u8 list \<Rightarrow> (text_bytes \<times> u8 list) bcomp" where
  "rd_string r =
     and_then (rd_u32 r) (\<lambda>(len, r).
     and_then (guard_err (unat len > MAX_TEXT_BYTES) (TextTooLong (unat len))) (\<lambda>_.
     and_then (rd_take (unat len) r) (\<lambda>(v, r).
     and_then (guard_err (\<not> valid_utf8 v) BackendInvalidUtf8) (\<lambda>_.
     ok (v, r)))))"

definition rd_finish :: "u8 list \<Rightarrow> unit bcomp" where
  "rd_finish r = guard_err (r \<noteq> []) BackendTrailingBytes"

definition unframe :: "u8 list \<Rightarrow> message_kind \<Rightarrow> u8 list bcomp" where
  "unframe bs k =
     and_then (guard_err (length bs > MAX_FRAME_BYTES + length MAGIC + 9)
                (BackendFrameTooLarge (length bs))) (\<lambda>_.
     and_then (rd_take (length MAGIC) bs) (\<lambda>(m, r).
     and_then (guard_err (m \<noteq> MAGIC) BackendInvalidMagic) (\<lambda>_.
     and_then (rd_u32 r) (\<lambda>(version, r).
     and_then (guard_err (version \<noteq> PROTOCOL_VERSION) (UnsupportedVersion version)) (\<lambda>_.
     and_then (rd_u8 r) (\<lambda>(kd, r).
     and_then (guard_err (kd \<noteq> message_kind_byte k) (UnexpectedMessageKind kd)) (\<lambda>_.
     and_then (rd_u32 r) (\<lambda>(len, r).
     and_then (guard_err (unat len > MAX_FRAME_BYTES) (BackendFrameTooLarge (unat len))) (\<lambda>_.
     and_then (guard_err (length r \<noteq> unat len) (FrameLengthMismatch (unat len) (length r))) (\<lambda>_.
     ok r))))))))))"

definition encode_identity :: "u8 list \<Rightarrow> build_identity \<Rightarrow> u8 list bcomp" where
  "encode_identity bs i =
     and_then (push_text (push_u8 (push_digest bs (compiler i)) (language_tag (language i)))
                (target i)) (\<lambda>bs.
     ok (push_digest (push_digest (push_digest (push_digest (push_digest bs
       (target_package_digest i)) (standard_library i)) (source_graph i)) (request_digest i))
       (profile_digest i)))"

definition decode_identity :: "u8 list \<Rightarrow> (build_identity \<times> u8 list) bcomp" where
  "decode_identity r =
     and_then (rd_digest r) (\<lambda>(c, r).
     and_then (rd_u8 r) (\<lambda>(t, r).
     and_then (decode_language t) (\<lambda>l.
     and_then (rd_string r) (\<lambda>(v, r).
     and_then (map_err (\<lambda>e. InvalidTarget (Identity e)) (lift_result (target_identity_new v))) (\<lambda>tgt.
     and_then (rd_digest r) (\<lambda>(tp, r).
     and_then (rd_digest r) (\<lambda>(sl, r).
     and_then (rd_digest r) (\<lambda>(sg, r).
     and_then (rd_digest r) (\<lambda>(rq, r).
     and_then (rd_digest r) (\<lambda>(pf, r).
     ok (\<lparr>compiler = c, language = l, target = tgt, target_package_digest = tp,
          standard_library = sl, source_graph = sg, request_digest = rq,
          profile_digest = pf\<rparr>, r)))))))))))"

definition encode_profile :: "u8 list \<Rightarrow> build_profile \<Rightarrow> u8 list bcomp" where
  "encode_profile bs p =
     and_then (push_text bs (profile_name p)) (\<lambda>b.
     let b = push_u8 b (mode_tag (mode p));
         b = push_u64 b (steps (comptime p));
         b = push_u64 b (memory_bytes (comptime p));
         b = push_u32 b (call_depth (comptime p));
         b = push_u64 b (static_bytes (memory p));
         b = push_u64 b (peak_bytes (memory p));
         b = push_u64 b (event_log_bytes (memory p));
         b = push_bool b (coherent (dma p));
         b = push_bool b (require_iommu (dma p));
         b = push_u64 b (reset_timeout_ns (recovery p));
         b = push_u64 b (quarantine_bytes (recovery p));
         b = push_u8 b (recording_tag (recording p));
         b = push_u8 b (optimization_tag (level (optimization p)));
         b = (case profile_data (optimization p) of
                Some d \<Rightarrow> push_digest (push_bool b True) d
              | None \<Rightarrow> push_bool b False);
         b = push_bool b (sealed_deployment (diagnostics p));
         b = push_bool b (warnings_as_errors (diagnostics p));
         b = push_bool b (watchdogs (diagnostics p))
     in ok b)"

definition rd_optional_digest :: "u8 list \<Rightarrow> (sha256_digest option \<times> u8 list) bcomp" where
  "rd_optional_digest r =
     and_then (rd_boolean r) (\<lambda>(has, r).
     if has then and_then (rd_digest r) (\<lambda>(d, r). ok (Some d, r)) else ok (None, r))"

definition decode_profile :: "u8 list \<Rightarrow> (build_profile \<times> u8 list) bcomp" where
  "decode_profile r =
     and_then (rd_string r) (\<lambda>(nm, r).
     and_then (rd_u8 r) (\<lambda>(t, r).
     and_then (decode_mode t) (\<lambda>md.
     and_then (rd_u64 r) (\<lambda>(st, r).
     and_then (rd_u64 r) (\<lambda>(mb, r).
     and_then (rd_u32 r) (\<lambda>(cd, r).
     and_then (rd_u64 r) (\<lambda>(sb, r).
     and_then (rd_u64 r) (\<lambda>(pb, r).
     and_then (rd_u64 r) (\<lambda>(el, r).
     and_then (rd_boolean r) (\<lambda>(co, r).
     and_then (rd_boolean r) (\<lambda>(io, r).
     and_then (rd_u64 r) (\<lambda>(rt, r).
     and_then (rd_u64 r) (\<lambda>(qb, r).
     and_then (rd_u8 r) (\<lambda>(t, r).
     and_then (decode_recording t) (\<lambda>rec.
     and_then (rd_u8 r) (\<lambda>(t, r).
     and_then (decode_optimization t) (\<lambda>lv.
     and_then (rd_optional_digest r) (\<lambda>(pd, r).
     and_then (rd_boolean r) (\<lambda>(sd, r).
     and_then (rd_boolean r) (\<lambda>(we, r).
     and_then (rd_boolean r) (\<lambda>(wd, r).
     ok (\<lparr>profile_name = nm, mode = md,
          comptime = \<lparr>steps = st, memory_bytes = mb, call_depth = cd\<rparr>,
          memory = \<lparr>static_bytes = sb, peak_bytes = pb, event_log_bytes = el\<rparr>,
          dma = \<lparr>coherent = co, require_iommu = io\<rparr>,
          recovery = \<lparr>reset_timeout_ns = rt, quarantine_bytes = qb\<rparr>,
          recording = rec, optimization = \<lparr>level = lv, profile_data = pd\<rparr>,
          diagnostics = \<lparr>sealed_deployment = sd, warnings_as_errors = we, watchdogs = wd\<rparr>\<rparr>, r)
     )))))))))))))))))))))"

definition encode_configuration :: "u8 list \<Rightarrow> build_configuration \<Rightarrow> u8 list bcomp" where
  "encode_configuration bs c =
     and_then (encode_identity bs (identity c)) (\<lambda>bs. encode_profile bs (profile c))"

definition decode_configuration :: "u8 list \<Rightarrow> (build_configuration \<times> u8 list) bcomp" where
  "decode_configuration r =
     and_then (decode_identity r) (\<lambda>(i, r).
     and_then (decode_profile r) (\<lambda>(p, r).
     ok (\<lparr>identity = i, profile = p\<rparr>, r)))"

definition validate_runtime_evidence :: "sha256_digest \<Rightarrow> u64 \<Rightarrow> unit bcomp" where
  "validate_runtime_evidence d n =
     guard_err (n = 0 \<or> (\<forall>b \<in> set d. b = 0)) (InvalidTarget RuntimeEvidence)"

text \<open>The second argument of \<open>encode_request\<close> is the sealed configuration.\<close>

definition encode_request :: "backend_request \<Rightarrow> build_configuration \<Rightarrow> u8 list bcomp" where
  "encode_request rq sealed =
     and_then (guard_err (build rq \<noteq> sealed) BuildConfigurationMismatch) (\<lambda>_.
     and_then (map_err InvalidProfile (lift_result (configuration_validate (build rq)))) (\<lambda>_.
     and_then (validate_runtime_evidence (target_runtime_digest rq) (target_runtime_bytes rq)) (\<lambda>_.
     and_then (encode_configuration (push_u64 [] (request_id rq)) (build rq)) (\<lambda>b.
     and_then (for_each push_text
                (push_u64 (push_digest (push_digest b (wir_digest rq)) (target_runtime_digest rq))
                  (target_runtime_bytes rq))
                [wir rq, target_package rq, out_path rq, report rq]) (\<lambda>b.
     frame Request b)))))"

definition rd_path :: "u8 list \<Rightarrow> (backend_path \<times> u8 list) bcomp" where
  "rd_path r = and_then (rd_string r) (\<lambda>(v, r). and_then (backend_path_new v) (\<lambda>p. ok (p, r)))"

definition decode_request :: "u8 list \<Rightarrow> backend_request bcomp" where
  "decode_request bs =
     and_then (unframe bs Request) (\<lambda>r.
     and_then (rd_u64 r) (\<lambda>(i, r).
     and_then (decode_configuration r) (\<lambda>(c, r).
     and_then (rd_digest r) (\<lambda>(wd, r).
     and_then (rd_digest r) (\<lambda>(td, r).
     and_then (rd_u64 r) (\<lambda>(tb, r).
     and_then (rd_path r) (\<lambda>(w, r).
     and_then (rd_path r) (\<lambda>(tp, r).
     and_then (rd_path r) (\<lambda>(out, r).
     and_then (rd_path r) (\<lambda>(rep, r).
     and_then (rd_finish r) (\<lambda>_.
     and_then (map_err InvalidProfile (lift_result (configuration_validate c))) (\<lambda>_.
     and_then (validate_runtime_evidence td tb) (\<lambda>_.
     ok \<lparr>request_id = i, build = c, wir = w, wir_digest = wd, target_runtime_digest = td,
         target_runtime_bytes = tb, target_package = tp, out_path = out,
         report = rep\<rparr>)))))))))))))"

definition encode_response :: "backend_response \<Rightarrow> u8 list bcomp" where
  "encode_response rs =
     (let b = push_u64 [] (response_id rs) in
      and_then (case response_outcome rs of
          Success s \<Rightarrow>
            and_then (push_text (push_u8 b 0) (artifact s)) (\<lambda>b.
            and_then (push_text (push_digest b (artifact_digest s)) (success_report s)) (\<lambda>b.
            ok (push_digest b (report_digest s))))
        | Failure f \<Rightarrow>
            push_text (push_u8 (push_u8 b 1) (failure_kind_tag (failure_kind f))) (failure_message f)) (\<lambda>b.
      frame Response b))"

definition rd_outcome :: "u8 list \<Rightarrow> (backend_outcome \<times> u8 list) bcomp" where
  "rd_outcome r =
     and_then (rd_u8 r) (\<lambda>(t, r).
     if t = 0 then
       and_then (rd_path r) (\<lambda>(a, r).
       and_then (rd_digest r) (\<lambda>(ad, r).
       and_then (rd_path r) (\<lambda>(rp, r).
       and_then (rd_digest r) (\<lambda>(rd, r).
       ok (Success \<lparr>artifact = a, artifact_digest = ad, success_report = rp, report_digest = rd\<rparr>, r)))))
     else if t = 1 then
       and_then (rd_u8 r) (\<lambda>(k, r).
       and_then (decode_failure_kind k) (\<lambda>k.
       and_then (rd_string r) (\<lambda>(m, r).
       ok (Failure \<lparr>failure_kind = k, failure_message = m\<rparr>, r))))
     else err (InvalidOutcomeTag t))"

definition decode_response :: "u8 list \<Rightarrow> backend_response bcomp" where
  "decode_response bs =
     and_then (unframe bs Response) (\<lambda>r.
     and_then (rd_u64 r) (\<lambda>(i, r).
     and_then (rd_outcome r) (\<lambda>(out, r).
     and_then (rd_finish r) (\<lambda>_.
     ok \<lparr>response_id = i, response_outcome = out\<rparr>))))"

subsection \<open>Fields\<close>

definition text_dom :: "text_bytes \<Rightarrow> bool" where
  "text_dom t \<longleftrightarrow> length t \<le> MAX_TEXT_BYTES \<and> valid_utf8 t"

definition path_dom :: "backend_path \<Rightarrow> bool" where
  "path_dom p \<longleftrightarrow> text_dom p \<and> outcome (backend_path_new p) = Inr p"

lemma rd_take_iff: "outcome (rd_take n r) = Inr (v, s) \<longleftrightarrow> length v = n \<and> r = v @ s"
  by (auto simp: rd_take_def)

interpretation rd_u8: byte_field rd_u8 "\<lambda>b. [b]" "\<lambda>_. True"
proof
  fix x s bs
  show "outcome (rd_u8 ([x] @ s)) = Inr (x, s)" by (simp add: rd_u8_def rd_take_def)
  show "outcome (rd_u8 bs) = Inr (x, s) \<Longrightarrow> True \<and> bs = [x] @ s"
    by (cases bs) (auto simp: rd_u8_def rd_take_def)
qed

interpretation rd_boolean: byte_field rd_boolean "\<lambda>b. [bool_byte b]" "\<lambda>_. True"
  by unfold_locales (auto simp: rd_boolean_def and_then_Inr rd_u8.rd_iff bool_byte_def
      simp del: outcome_and_then split: if_splits)

interpretation rd_u32: byte_field rd_u32 "to_le_bytes 4" "\<lambda>_. True"
proof
  fix x s bs
  show "outcome (rd_u32 (to_le_bytes 4 x @ s)) = Inr (x, s)"
    by (simp add: rd_u32_def rd_take_def le_bytes_32)
  show "outcome (rd_u32 bs) = Inr (x, s) \<Longrightarrow> True \<and> bs = to_le_bytes 4 x @ s"
    by (auto simp: rd_u32_def and_then_Inr rd_take_iff le_bytes_32 simp del: outcome_and_then)
qed

interpretation rd_u64: byte_field rd_u64 "to_le_bytes 8" "\<lambda>_. True"
proof
  fix x s bs
  show "outcome (rd_u64 (to_le_bytes 8 x @ s)) = Inr (x, s)"
    by (simp add: rd_u64_def rd_take_def le_bytes_64)
  show "outcome (rd_u64 bs) = Inr (x, s) \<Longrightarrow> True \<and> bs = to_le_bytes 8 x @ s"
    by (auto simp: rd_u64_def and_then_Inr rd_take_iff le_bytes_64 simp del: outcome_and_then)
qed

interpretation rd_digest: byte_field rd_digest "\<lambda>d. d" wf_digest
  by unfold_locales (auto simp: rd_digest_def rd_take_iff wf_digest_def)

lemma text_dom_length: "text_dom t \<Longrightarrow> unat (word_of_nat (length t) :: u32) = length t"
  by (rule unat_of_nat_u32) (simp add: text_dom_def MAX_TEXT_BYTES_def)

interpretation rd_string: byte_field rd_string length_prefixed text_dom
proof
  fix x s
  assume x: "text_dom x"
  have "outcome (rd_u32 (length_prefixed x @ s)) = Inr (word_of_nat (length x), x @ s)"
    by (simp add: rd_u32.rd_iff length_prefixed_def)
  with x text_dom_length [OF x] show "outcome (rd_string (length_prefixed x @ s)) = Inr (x, s)"
    by (simp add: rd_string_def rd_take_def text_dom_def)
next
  fix bs x s
  assume "outcome (rd_string bs) = Inr (x, s)"
  then obtain len :: u32 where "bs = to_le_bytes 4 len @ x @ s" "unat len \<le> MAX_TEXT_BYTES"
      "length x = unat len" "valid_utf8 x"
    by (auto simp: rd_string_def and_then_Inr rd_u32.rd_iff rd_take_iff not_less le_bytes_inject
        simp del: outcome_and_then split: if_splits)
  then show "text_dom x \<and> bs = length_prefixed x @ s"
    by (simp add: text_dom_def length_prefixed_def)
qed

lemma backend_path_same: "outcome (backend_path_new v) = Inr p \<Longrightarrow> p = v"
  by (auto simp: backend_path_new_def split: if_splits)

interpretation rd_path: byte_field rd_path length_prefixed path_dom
  by unfold_locales (auto simp: rd_path_def path_dom_def and_then_Inr rd_string.rd_iff
      simp del: outcome_and_then dest: backend_path_same)

lemma decode_tags:
  "outcome (decode_language t) = Inr l \<longleftrightarrow> t = language_tag l"
  "outcome (decode_mode t) = Inr m \<longleftrightarrow> t = mode_tag m"
  "outcome (decode_recording t) = Inr c \<longleftrightarrow> t = recording_tag c"
  "outcome (decode_optimization t) = Inr v \<longleftrightarrow> t = optimization_tag v"
  "outcome (decode_failure_kind t) = Inr k \<longleftrightarrow> t = failure_kind_tag k"
  subgoal by (cases l) (auto simp: decode_language_def)
  subgoal by (cases m) (auto simp: decode_mode_def)
  subgoal by (cases c) (auto simp: decode_recording_def)
  subgoal by (cases v) (auto simp: decode_optimization_def)
  subgoal by (cases k) (auto simp: decode_failure_kind_def)
  done

lemmas rd_iffs = rd_u8.rd_iff rd_boolean.rd_iff rd_u32.rd_iff rd_u64.rd_iff rd_digest.rd_iff
  rd_string.rd_iff rd_path.rd_iff decode_tags

text \<open>The reference layouts of the composite messages.\<close>

definition identity_bytes :: "build_identity \<Rightarrow> u8 list" where
  "identity_bytes i = compiler i @ [language_tag (language i)] @ length_prefixed (target i) @
     target_package_digest i @ standard_library i @ source_graph i @ request_digest i @ profile_digest i"

definition identity_dom :: "build_identity \<Rightarrow> bool" where
  "identity_dom i \<longleftrightarrow> wf_digest (compiler i) \<and> text_dom (target i) \<and> validate_atom (target i) = Inr () \<and>
     wf_digest (target_package_digest i) \<and> wf_digest (standard_library i) \<and>
     wf_digest (source_graph i) \<and> wf_digest (request_digest i) \<and> wf_digest (profile_digest i)"

lemma target_identity_new_Inr: "target_identity_new v = Inr t \<longleftrightarrow> validate_atom v = Inr () \<and> t = v"
  by (auto simp: target_identity_new_def map_sum_eq_Inr)

lemma decode_identity_iff:
  "outcome (decode_identity bs) = Inr (i, s) \<longleftrightarrow> identity_dom i \<and> bs = identity_bytes i @ s"
  by (cases i) (auto simp: decode_identity_def and_then_Inr rd_iffs map_sum_eq_Inr
      target_identity_new_Inr identity_dom_def identity_bytes_def simp del: outcome_and_then)

interpretation rd_identity: byte_field decode_identity identity_bytes identity_dom
  by unfold_locales (auto simp: decode_identity_iff)

definition profile_wire_dom :: "build_profile \<Rightarrow> bool" where
  "profile_wire_dom p \<longleftrightarrow> wf_profile p \<and> text_dom (profile_name p)"

interpretation rd_optional_digest: byte_field rd_optional_digest optional_digest wf_optional_digest
proof
  fix x s
  assume "wf_optional_digest x"
  then show "outcome (rd_optional_digest (optional_digest x @ s)) = Inr (x, s)"
    using rd_boolean.reads [of True] rd_boolean.reads [of False] rd_digest.reads
    by (cases x) (simp_all add: rd_optional_digest_def optional_digest_def wf_optional_digest_def)
next
  fix bs x s
  assume "outcome (rd_optional_digest bs) = Inr (x, s)"
  then show "wf_optional_digest x \<and> bs = optional_digest x @ s"
    by (auto simp: rd_optional_digest_def and_then_Inr rd_iffs optional_digest_def
        wf_optional_digest_def simp del: outcome_and_then split: if_splits)
qed

lemma decode_profile_iff:
  "outcome (decode_profile bs) = Inr (p, s) \<longleftrightarrow> profile_wire_dom p \<and> bs = profile_fields p @ s"
proof (cases p)
  case (fields nm md ct me dm rc rec op di)
  then show ?thesis
    by (cases ct; cases me; cases dm; cases rc; cases op; cases di)
      (simp add: decode_profile_def and_then_Inr rd_iffs rd_optional_digest.rd_iff
        profile_wire_dom_def wf_profile_def profile_fields_def del: outcome_and_then, blast)
qed

interpretation rd_profile: byte_field decode_profile profile_fields profile_wire_dom
  by unfold_locales (auto simp: decode_profile_iff)

subsection \<open>Frames\<close>

definition frame_bytes_of :: "message_kind \<Rightarrow> u8 list \<Rightarrow> u8 list" where
  "frame_bytes_of k p = MAGIC @ to_le_bytes 4 PROTOCOL_VERSION @ [message_kind_byte k] @ length_prefixed p"

lemma length_MAGIC [simp]: "length MAGIC = 8"
  by (simp add: MAGIC_def)

lemma frame_outcome:
  "outcome (frame k p) = (if length p \<le> MAX_FRAME_BYTES then Inr (frame_bytes_of k p)
     else Inl (BackendFrameTooLarge (length p)))"
  by (simp add: frame_def u32_try_from_def MAX_FRAME_BYTES_def push_defs frame_bytes_of_def
      length_prefixed_def)

lemma unframe_iff:
  "outcome (unframe bs k) = Inr p \<longleftrightarrow> length p \<le> MAX_FRAME_BYTES \<and> bs = frame_bytes_of k p"
proof
  assume "outcome (unframe bs k) = Inr p"
  then obtain len :: u32 where b: "bs = MAGIC @ to_le_bytes 4 PROTOCOL_VERSION @ [message_kind_byte k] @
      to_le_bytes 4 len @ p" "unat len \<le> MAX_FRAME_BYTES" "length p = unat len"
    by (auto simp: unframe_def and_then_Inr rd_iffs rd_take_iff not_less le_bytes_inject
        simp del: outcome_and_then split: if_splits)
  then show "length p \<le> MAX_FRAME_BYTES \<and> bs = frame_bytes_of k p"
    by (simp add: frame_bytes_of_def length_prefixed_def)
next
  assume a: "length p \<le> MAX_FRAME_BYTES \<and> bs = frame_bytes_of k p"
  then have len: "unat (word_of_nat (length p) :: u32) = length p"
    by (intro unat_of_nat_u32) (simp add: MAX_FRAME_BYTES_def)
  have "outcome (rd_take (length MAGIC) bs) = Inr (MAGIC, to_le_bytes 4 PROTOCOL_VERSION @
      [message_kind_byte k] @ to_le_bytes 4 (word_of_nat (length p) :: u32) @ p)"
    using a by (simp add: rd_take_iff frame_bytes_of_def length_prefixed_def)
  then show "outcome (unframe bs k) = Inr p"
    using a len rd_u32.reads [OF TrueI] rd_u8.reads [OF TrueI, of "message_kind_byte k"]
    by (simp add: unframe_def frame_bytes_of_def length_prefixed_def)
qed

subsection \<open>Writing\<close>

lemma push_text_outcome:
  "outcome (push_text bs t) =
     (if length t \<le> MAX_TEXT_BYTES then Inr (bs @ length_prefixed t) else Inl (TextTooLong (length t)))"
  by (simp add: push_text_def u32_try_from_def MAX_TEXT_BYTES_def push_defs length_prefixed_def)

lemma encode_identity_outcome:
  "outcome (encode_identity bs i) =
     (if length (target i) \<le> MAX_TEXT_BYTES then Inr (bs @ identity_bytes i)
      else Inl (TextTooLong (length (target i))))"
  by (simp add: encode_identity_def push_text_outcome push_defs push_digest_def identity_bytes_def)

lemma encode_profile_outcome:
  "outcome (encode_profile bs p) =
     (if length (profile_name p) \<le> MAX_TEXT_BYTES then Inr (bs @ profile_fields p)
      else Inl (TextTooLong (length (profile_name p))))"
  by (simp add: encode_profile_def push_text_outcome push_defs push_digest_def Let_def
      profile_fields_def optional_digest_def split: option.splits)

definition configuration_bytes :: "build_configuration \<Rightarrow> u8 list" where
  "configuration_bytes c = identity_bytes (identity c) @ profile_fields (profile c)"

definition configuration_dom :: "build_configuration \<Rightarrow> bool" where
  "configuration_dom c \<longleftrightarrow> identity_dom (identity c) \<and> profile_wire_dom (profile c)"

interpretation rd_configuration: byte_field decode_configuration configuration_bytes configuration_dom
proof
  fix c s
  assume "configuration_dom c"
  then show "outcome (decode_configuration (configuration_bytes c @ s)) = Inr (c, s)"
    using rd_identity.reads [of "identity c"] rd_profile.reads [of "profile c"]
    by (simp add: decode_configuration_def configuration_bytes_def configuration_dom_def)
next
  fix bs c s
  assume "outcome (decode_configuration bs) = Inr (c, s)"
  then show "configuration_dom c \<and> bs = configuration_bytes c @ s"
    by (auto simp: decode_configuration_def and_then_Inr decode_identity_iff decode_profile_iff
        configuration_dom_def configuration_bytes_def simp del: outcome_and_then)
qed

definition request_payload :: "backend_request \<Rightarrow> u8 list" where
  "request_payload q = to_le_bytes 8 (request_id q) @ configuration_bytes (build q) @ wir_digest q @
     target_runtime_digest q @ to_le_bytes 8 (target_runtime_bytes q) @ length_prefixed (wir q) @
     length_prefixed (target_package q) @ length_prefixed (out_path q) @ length_prefixed (report q)"

text \<open>What the types of the sources guarantee of a request: strings are UTF-8, paths and target
  identities went through their constructors, digests have 32 bytes.\<close>

definition wf_path :: "backend_path \<Rightarrow> bool" where
  "wf_path p \<longleftrightarrow> valid_utf8 p \<and> outcome (backend_path_new p) = Inr p"

definition wf_configuration :: "build_configuration \<Rightarrow> bool" where
  "wf_configuration c \<longleftrightarrow> wf_profile (profile c) \<and> valid_utf8 (profile_name (profile c)) \<and>
     valid_utf8 (target (identity c)) \<and> validate_atom (target (identity c)) = Inr () \<and>
     wf_digest (compiler (identity c)) \<and> wf_digest (target_package_digest (identity c)) \<and>
     wf_digest (standard_library (identity c)) \<and> wf_digest (source_graph (identity c)) \<and>
     wf_digest (request_digest (identity c)) \<and> wf_digest (profile_digest (identity c))"

definition wf_request :: "backend_request \<Rightarrow> bool" where
  "wf_request q \<longleftrightarrow> wf_configuration (build q) \<and> wf_digest (wir_digest q) \<and>
     wf_digest (target_runtime_digest q) \<and> wf_path (wir q) \<and> wf_path (target_package q) \<and>
     wf_path (out_path q) \<and> wf_path (report q)"

fun wf_outcome :: "backend_outcome \<Rightarrow> bool" where
  "wf_outcome (Success s) = (wf_path (artifact s) \<and> wf_digest (artifact_digest s) \<and>
     wf_path (success_report s) \<and> wf_digest (report_digest s))"
| "wf_outcome (Failure f) = valid_utf8 (failure_message f)"

definition request_ok :: "backend_request \<Rightarrow> bool" where
  "request_ok q \<longleftrightarrow> profile_validate (profile (build q)) = Inr () \<and>
     target_runtime_bytes q \<noteq> 0 \<and> (\<exists>b \<in> set (target_runtime_digest q). b \<noteq> 0) \<and>
     (\<forall>t \<in> {target (identity (build q)), profile_name (profile (build q)), wir q, target_package q,
        out_path q, report q}. length t \<le> MAX_TEXT_BYTES) \<and>
     length (request_payload q) \<le> MAX_FRAME_BYTES"

lemma validate_runtime_evidence_Inr:
  "outcome (validate_runtime_evidence d n) = Inr u \<longleftrightarrow> n \<noteq> 0 \<and> (\<exists>b \<in> set d. b \<noteq> 0)"
  by (simp add: validate_runtime_evidence_def)

lemma rd_finish_Inr: "outcome (rd_finish r) = Inr u \<longleftrightarrow> r = []"
  by (simp add: rd_finish_def)

lemma encode_request_Inr:
  "outcome (encode_request q sealed) = Inr b \<longleftrightarrow>
     build q = sealed \<and> request_ok q \<and> b = frame_bytes_of Request (request_payload q)"
  by (auto simp: encode_request_def and_then_Inr encode_configuration_def encode_identity_outcome
      encode_profile_outcome push_text_outcome frame_outcome configuration_validate_def
      map_sum_eq_Inr validate_runtime_evidence_Inr request_ok_def request_payload_def
      configuration_bytes_def push_defs push_digest_def simp del: outcome_and_then
      split: if_splits)

lemma decode_request_Inr:
  "outcome (decode_request b) = Inr q \<longleftrightarrow>
     wf_request q \<and> request_ok q \<and> b = frame_bytes_of Request (request_payload q)"
proof -
  have "outcome (decode_request b) = Inr q \<longleftrightarrow>
      (configuration_dom (build q) \<and> wf_digest (wir_digest q) \<and> wf_digest (target_runtime_digest q) \<and>
       path_dom (wir q) \<and> path_dom (target_package q) \<and> path_dom (out_path q) \<and> path_dom (report q) \<and>
       profile_validate (profile (build q)) = Inr () \<and> target_runtime_bytes q \<noteq> 0 \<and>
       (\<exists>x \<in> set (target_runtime_digest q). x \<noteq> 0) \<and> length (request_payload q) \<le> MAX_FRAME_BYTES \<and>
       b = frame_bytes_of Request (request_payload q))"
    by (cases q) (simp add: decode_request_def and_then_Inr unframe_iff rd_iffs rd_configuration.rd_iff
        rd_finish_Inr validate_runtime_evidence_Inr configuration_validate_def map_sum_eq_Inr
        request_payload_def del: outcome_and_then, blast)
  then show ?thesis
    by (auto simp: wf_request_def request_ok_def configuration_dom_def identity_dom_def
        profile_wire_dom_def wf_configuration_def path_dom_def wf_path_def text_dom_def)
qed

fun outcome_bytes :: "backend_outcome \<Rightarrow> u8 list" where
  "outcome_bytes (Success s) = [0] @ length_prefixed (artifact s) @ artifact_digest s @
     length_prefixed (success_report s) @ report_digest s"
| "outcome_bytes (Failure f) = [1] @ [failure_kind_tag (failure_kind f)] @ length_prefixed (failure_message f)"

fun outcome_texts :: "backend_outcome \<Rightarrow> text_bytes list" where
  "outcome_texts (Success s) = [artifact s, success_report s]"
| "outcome_texts (Failure f) = [failure_message f]"

definition outcome_dom :: "backend_outcome \<Rightarrow> bool" where
  "outcome_dom r \<longleftrightarrow> wf_outcome r \<and> (\<forall>t \<in> set (outcome_texts r). length t \<le> MAX_TEXT_BYTES)"

lemma rd_outcome_iff:
  "outcome (rd_outcome bs) = Inr (r, s) \<longleftrightarrow> outcome_dom r \<and> bs = outcome_bytes r @ s"
proof (cases r)
  case (Success x)
  then show ?thesis
    by (cases x) (auto simp: rd_outcome_def and_then_Inr rd_iffs outcome_dom_def path_dom_def wf_path_def
        text_dom_def simp del: outcome_and_then split: if_splits intro: exI [of _ "0 :: u8"])
next
  case (Failure x)
  then show ?thesis
    by (cases x) (auto simp: rd_outcome_def and_then_Inr rd_iffs outcome_dom_def text_dom_def
        simp del: outcome_and_then split: if_splits intro: exI [of _ "1 :: u8"])
qed

interpretation rd_outcome: byte_field rd_outcome outcome_bytes outcome_dom
  by unfold_locales (auto simp: rd_outcome_iff)

definition response_payload :: "backend_response \<Rightarrow> u8 list" where
  "response_payload r = to_le_bytes 8 (response_id r) @ outcome_bytes (response_outcome r)"

definition response_ok :: "backend_response \<Rightarrow> bool" where
  "response_ok r \<longleftrightarrow> (\<forall>t \<in> set (outcome_texts (response_outcome r)). length t \<le> MAX_TEXT_BYTES) \<and>
     length (response_payload r) \<le> MAX_FRAME_BYTES"

lemma encode_response_Inr:
  "outcome (encode_response r) = Inr b \<longleftrightarrow>
     response_ok r \<and> b = frame_bytes_of Response (response_payload r)"
  by (cases "response_outcome r") (auto simp: encode_response_def Let_def and_then_Inr
      push_text_outcome frame_outcome response_ok_def response_payload_def push_defs push_digest_def
      simp del: outcome_and_then split: if_splits)

lemma decode_response_Inr:
  "outcome (decode_response b) = Inr r \<longleftrightarrow>
     wf_outcome (response_outcome r) \<and> response_ok r \<and>
     b = frame_bytes_of Response (response_payload r)"
  by (cases r) (auto simp: decode_response_def and_then_Inr unframe_iff rd_iffs rd_outcome_iff
      rd_finish_Inr response_ok_def response_payload_def outcome_dom_def simp del: outcome_and_then)

subsection \<open>Path components\<close>

fun join_with :: "'a \<Rightarrow> 'a list list \<Rightarrow> 'a list" where
  "join_with c [] = []"
| "join_with c [x] = x"
| "join_with c (x # y # zs) = x @ c # join_with c (y # zs)"

lemma split_on_not_Nil: "split_on c xs \<noteq> []"
  by (induction xs) (auto split: list.splits)

lemma join_split: "join_with c (split_on c xs) = xs"
proof (induction xs)
  case (Cons x xs)
  show ?case
  proof (cases "split_on c xs")
    case (Cons y ys)
    with Cons.IH show ?thesis by (cases ys) auto
  qed (simp add: split_on_not_Nil)
qed simp

lemma split_on_parts: "y \<in> set (split_on c xs) \<Longrightarrow> c \<notin> set y"
  by (induction xs arbitrary: y) (auto split: if_splits list.splits)

lemma split_on_join:
  "c \<notin> set x \<Longrightarrow> split_on c (x @ c # ys) = x # split_on c ys" "c \<notin> set x \<Longrightarrow> split_on c x = [x]"
  by (induction x) auto

lemma split_join: "cs \<noteq> [] \<Longrightarrow> \<forall>y \<in> set cs. c \<notin> set y \<Longrightarrow> split_on c (join_with c cs) = cs"
  by (induction c cs rule: join_with.induct) (auto simp: split_on_join)

lemma set_join: "set (join_with c cs) \<subseteq> insert c (\<Union> (set ` set cs))"
  by (induction c cs rule: join_with.induct) auto

lemma set_split: "y \<in> set (split_on c xs) \<Longrightarrow> set y \<subseteq> set xs"
  by (induction xs arbitrary: y) (auto split: if_splits list.splits, blast)

definition clean_component :: "text_bytes \<Rightarrow> bool" where
  "clean_component c \<longleftrightarrow> c \<noteq> [] \<and> c \<noteq> str ''.'' \<and> c \<noteq> str ''..'' \<and>
     0 \<notin> set c \<and> 0x2F \<notin> set c \<and> 0x3A \<notin> set c \<and> 0x5C \<notin> set c"

subsection \<open>Properties\<close>

text \<open>C23. Requests travel unchanged and have one spelling: bytes decode to a request exactly when the
  request satisfies the invariants of its types and encoding it, with its own configuration as the
  sealed one, yields these very bytes. In particular the decoder accepts nothing the driver could
  not have written.\<close>

theorem request_canonical:
  "outcome (decode_request b) = Inr q \<longleftrightarrow>
     wf_request q \<and> outcome (encode_request q (build q)) = Inr b"
  by (auto simp: decode_request_Inr encode_request_Inr)

text \<open>C24. Responses likewise: bytes decode to a response exactly when it is well-formed and encodes to
  these bytes, for successes and for every kind of failure.\<close>

theorem response_canonical:
  "outcome (decode_response b) = Inr r \<longleftrightarrow>
     wf_outcome (response_outcome r) \<and> outcome (encode_response r) = Inr b"
  by (auto simp: decode_response_Inr encode_response_Inr)

text \<open>C25. A message is bounded and is never taken for the other kind: whatever is encoded has at most
  the frame limit plus the 17 bytes of the header, and a request never decodes as a response nor a
  response as a request.\<close>

theorem messages_disjoint:
  "(outcome (encode_request q c) = Inr b \<longrightarrow>
      length b \<le> MAX_FRAME_BYTES + 17 \<and> outcome (decode_response b) = Inl (UnexpectedMessageKind 1)) \<and>
   (outcome (encode_response r) = Inr b \<longrightarrow>
      length b \<le> MAX_FRAME_BYTES + 17 \<and> outcome (decode_request b) = Inl (UnexpectedMessageKind 2))"
proof -
  have bound: "length (frame_bytes_of k p) = length p + 17" for k p
    by (simp add: frame_bytes_of_def length_prefixed_def)
  have other: "outcome (unframe (frame_bytes_of k p) k') = Inl (UnexpectedMessageKind (message_kind_byte k))"
    if "length p \<le> MAX_FRAME_BYTES" "k \<noteq> k'" for k k' p
  proof -
    have "outcome (rd_take (length MAGIC) (frame_bytes_of k p)) =
        Inr (MAGIC, to_le_bytes 4 PROTOCOL_VERSION @ [message_kind_byte k] @ length_prefixed p)"
      by (simp add: rd_take_iff frame_bytes_of_def)
    with that bound rd_u32.reads [OF TrueI] rd_u8.reads [OF TrueI, of "message_kind_byte k"]
    show ?thesis by (cases k; cases k') (simp_all add: unframe_def)
  qed
  show ?thesis
    using other [of "request_payload q" Request Response] other [of "response_payload r" Response Request]
    by (auto simp: encode_request_Inr encode_response_Inr request_ok_def response_ok_def bound
        decode_response_def decode_request_def)
qed

text \<open>C26. A path that \<open>BackendPath::new\<close> accepts stays inside the private build directory: it is
  accepted exactly when it is one or more components joined by single slashes, where a component is
  not empty, not \<open>.\<close> and not \<open>..\<close>, and has no NUL, slash, colon or backslash; and it is kept
  unchanged.\<close>

theorem backend_path_confined:
  "outcome (backend_path_new v) = Inr p \<longleftrightarrow>
     p = v \<and> (\<exists>cs. cs \<noteq> [] \<and> list_all clean_component cs \<and> v = join_with 0x2F cs)"
proof
  assume a: "outcome (backend_path_new v) = Inr p"
  let ?cs = "split_on 0x2F v"
  have "clean_component c" if c: "c \<in> set ?cs" for c
  proof -
    have "\<not> bad_component c" and "0 \<notin> set v" "0x3A \<notin> set v" "0x5C \<notin> set v"
      using a c by (auto simp: backend_path_new_def list_ex_iff split: if_splits)
    with split_on_parts [OF c] set_split [OF c] show ?thesis
      by (auto simp: clean_component_def bad_component_def)
  qed
  moreover have "p = v" using a by (rule backend_path_same)
  ultimately show "p = v \<and> (\<exists>cs. cs \<noteq> [] \<and> list_all clean_component cs \<and> v = join_with 0x2F cs)"
    using split_on_not_Nil [of "0x2F" v] join_split [of "0x2F" v]
    by (auto simp: list_all_iff intro!: exI [of _ ?cs])
next
  assume "p = v \<and> (\<exists>cs. cs \<noteq> [] \<and> list_all clean_component cs \<and> v = join_with 0x2F cs)"
  then obtain cs where p: "p = v" and cs: "cs \<noteq> []" "list_all clean_component cs" "v = join_with 0x2F cs"
    by blast
  have parts: "split_on 0x2F v = cs"
    using cs by (auto simp: list_all_iff clean_component_def intro!: split_join)
  have bytes: "0 \<notin> set v" "0x3A \<notin> set v" "0x5C \<notin> set v"
    using set_join [of "0x2F" cs] cs(2,3) by (auto simp: list_all_iff clean_component_def)
  have "v \<noteq> []" using parts cs(2) by (auto simp: clean_component_def)
  moreover have "hd v \<noteq> 0x2F"
  proof
    assume "hd v = 0x2F"
    then obtain w where "v = 0x2F # w" using \<open>v \<noteq> []\<close> by (cases v) auto
    then have "[] \<in> set cs" using parts by auto
    with cs(2) show False by (auto simp: list_all_iff clean_component_def)
  qed
  moreover have "hd v \<noteq> 0x5C" using bytes(3) \<open>v \<noteq> []\<close> by (metis list.set_sel(1))
  moreover have "\<not> list_ex bad_component (split_on 0x2F v)"
    using cs(2) by (auto simp: parts list_ex_iff list_all_iff clean_component_def bad_component_def)
  ultimately show "outcome (backend_path_new v) = Inr p"
    using bytes p by (simp add: backend_path_new_def)
qed

subsection \<open>Witnesses\<close>

theorem messages_disjoint_witness:
  "\<exists>b. outcome (encode_response \<lparr>response_id = 1, response_outcome =
       Failure \<lparr>failure_kind = Link, failure_message = []\<rparr>\<rparr>) = Inr b \<and>
     length b \<le> MAX_FRAME_BYTES + 17 \<and> outcome (decode_request b) = Inl (UnexpectedMessageKind 2)"
proof -
  let ?r = "\<lparr>response_id = 1, response_outcome = Failure \<lparr>failure_kind = Link, failure_message = []\<rparr>\<rparr>"
  have "response_ok ?r"
    by (simp add: response_ok_def response_payload_def length_prefixed_def MAX_FRAME_BYTES_def)
  then obtain b where "outcome (encode_response ?r) = Inr b" by (simp add: encode_response_Inr)
  with messages_disjoint [of _ _ b ?r] show ?thesis by blast
qed

end
