(* ===== verification/Backend_Process.thy ===== *)
theory Backend_Process
  imports Backend_Protocol
begin

text \<open>
  \<open>crates/wrela-backend/src/main.rs\<close>: how the private backend process receives a request. It reads one
  frame from standard input, decodes it, seals the build configuration against the digest of the
  canonical profile that it computes itself, and compares the frame with the canonical encoding. What
  follows in \<open>process_request\<close> (files, target package, lowering, code generation, linking) is not
  modelled; \<open>admit_request\<close> stops where it begins.

  Standard input is a list of what successive reads meet: a byte, an interruption (\<open>EINTR\<close>), or a
  failure; at the end of the list is the end of the stream. Reads of the standard library may return
  any number of bytes at a time; \<open>read_exact\<close> collects them, so only their order matters. \<open>Sha256\<close> is
  the one of the \<open>sha2\<close> package and a parameter.
\<close>

subsection \<open>Definitions\<close>

definition FRAME_HEADER_BYTES :: nat where "FRAME_HEADER_BYTES = 8 + 4 + 1 + 4"
definition REQUEST_MAGIC :: "u8 list" where "REQUEST_MAGIC = str ''WRELBEP'' @ [0]"
definition REQUEST_MESSAGE_KIND :: u8 where "REQUEST_MESSAGE_KIND = 1"

datatype process_error =
    Usage
  | InvalidPrivateRoot
  | InputError
  | TruncatedProtocol
  | OversizedProtocol
  | TrailingProtocol
  | InvalidProtocol
  | RequestValidation
  | ResponseEncoding
  | ResourceExhausted
  | OutputError

datatype input_item = Byte u8 | Interrupted | Broken

datatype io_fault = UnexpectedEof | OtherFault

text \<open>\<open>Read::read_exact\<close>: interruptions are retried, an early end of the stream is \<open>UnexpectedEof\<close>.\<close>

fun read_exact :: "nat \<Rightarrow> input_item list \<Rightarrow> io_fault + u8 list \<times> input_item list" where
  "read_exact 0 xs = Inr ([], xs)"
| "read_exact (Suc n) [] = Inl UnexpectedEof"
| "read_exact (Suc n) (Byte b # xs) = map_sum id (\<lambda>(bs, ys). (b # bs, ys)) (read_exact n xs)"
| "read_exact (Suc n) (Interrupted # xs) = read_exact (Suc n) xs"
| "read_exact (Suc n) (Broken # xs) = Inl OtherFault"

fun read_failure :: "io_fault \<Rightarrow> process_error" where
  "read_failure UnexpectedEof = TruncatedProtocol"
| "read_failure OtherFault = InputError"

fun expect_end :: "input_item list \<Rightarrow> process_error + unit" where
  "expect_end [] = Inr ()"
| "expect_end (Byte b # xs) = Inl TrailingProtocol"
| "expect_end (Interrupted # xs) = expect_end xs"
| "expect_end (Broken # xs) = Inl InputError"

definition read_request_frame :: "input_item list \<Rightarrow> (process_error, u8 list) comp" where
  "read_request_frame input =
     and_then (map_err read_failure (lift_result (read_exact FRAME_HEADER_BYTES input))) (\<lambda>(header, input).
     and_then (guard_err (take 8 header \<noteq> REQUEST_MAGIC \<or>
                 from_le_bytes (take 4 (drop 8 header)) \<noteq> PROTOCOL_VERSION \<or>
                 header ! 12 \<noteq> REQUEST_MESSAGE_KIND) InvalidProtocol) (\<lambda>_.
     let payload_bytes = unat (from_le_bytes (drop (FRAME_HEADER_BYTES - 4) header) :: u32) in
     and_then (guard_err (payload_bytes > MAX_FRAME_BYTES) OversizedProtocol) (\<lambda>_.
     and_then (or_err (checked_add_usize FRAME_HEADER_BYTES payload_bytes) OversizedProtocol) (\<lambda>total.
     and_then (ask ResourceExhausted) (\<lambda>_.
     and_then (map_err read_failure (lift_result (read_exact (total - FRAME_HEADER_BYTES) input))) (\<lambda>(payload, input).
     and_then (lift_result (expect_end input)) (\<lambda>_.
     ok (header @ payload))))))))"

definition failure_response ::
  "u64 \<Rightarrow> backend_failure_kind \<Rightarrow> text_bytes \<Rightarrow> (process_error, backend_response) comp" where
  "failure_response i k m =
     and_then (ask ResourceExhausted) (\<lambda>_.
     ok \<lparr>response_id = i, response_outcome = Failure \<lparr>failure_kind = k, failure_message = m\<rparr>\<rparr>)"

definition profile_refusal :: text_bytes where
  "profile_refusal = str ''backend request profile digest does not match the canonical profile''"

definition frame_refusal :: text_bytes where
  "frame_refusal = str ''backend request frame is not the canonical protocol encoding''"

text \<open>The result is the response of a refusal, or the sealed configuration to go on with.\<close>

definition admit_request ::
  "(u8 list \<Rightarrow> sha256_digest) \<Rightarrow> u8 list \<Rightarrow> backend_request \<Rightarrow>
   (process_error, backend_response + build_configuration) comp" where
  "admit_request sha256 frm rq =
     and_then (map_err (\<lambda>_. RequestValidation) (lift_result (canonical_bytes (profile (build rq))))) (\<lambda>bytes.
     case seal_build_configuration (build rq) (sha256 bytes) of
       Inl _ \<Rightarrow> and_then (failure_response (request_id rq) Verification profile_refusal) (\<lambda>r. ok (Inl r))
     | Inr validated \<Rightarrow>
         and_then (map_err (\<lambda>_. RequestValidation) (encode_request rq validated)) (\<lambda>canonical.
         if canonical \<noteq> frm
         then and_then (failure_response (request_id rq) Protocol frame_refusal) (\<lambda>r. ok (Inl r))
         else ok (Inr validated)))"

definition receive_request ::
  "(u8 list \<Rightarrow> sha256_digest) \<Rightarrow> input_item list \<Rightarrow>
   (process_error, backend_request \<times> (backend_response + build_configuration)) comp" where
  "receive_request sha256 input =
     and_then (read_request_frame input) (\<lambda>frm.
     and_then (map_err (\<lambda>_. InvalidProtocol) (decode_request frm)) (\<lambda>rq.
     and_then (admit_request sha256 frm rq) (\<lambda>r.
     ok (rq, r))))"

subsection \<open>Reading the frame\<close>

text \<open>What the writer of the pipe sent: the items without the interruptions.\<close>

definition delivered :: "input_item list \<Rightarrow> input_item list" where
  "delivered xs = filter (\<lambda>x. x \<noteq> Interrupted) xs"

lemma delivered_simps [simp]:
  "delivered [] = []"
  "delivered (Byte b # xs) = Byte b # delivered xs"
  "delivered (Interrupted # xs) = delivered xs"
  "delivered (Broken # xs) = Broken # delivered xs"
  by (simp_all add: delivered_def)

lemma read_exact_sound:
  "read_exact n xs = Inr (bs, ys) \<Longrightarrow> length bs = n \<and> delivered xs = map Byte bs @ delivered ys"
  by (induction n xs arbitrary: bs rule: read_exact.induct) (auto simp: map_sum_eq_Inr)

lemma read_exact_complete:
  "length bs = n \<Longrightarrow> delivered xs = map Byte bs @ ds \<Longrightarrow>
   \<exists>ys. read_exact n xs = Inr (bs, ys) \<and> delivered ys = ds"
proof (induction n xs arbitrary: bs rule: read_exact.induct)
  case (3 n b xs)
  then show ?case by (cases bs) (force simp: map_sum_eq_Inr)+
qed (auto simp: Cons_eq_append_conv Cons_eq_map_conv)

lemma expect_end_iff: "expect_end xs = Inr u \<longleftrightarrow> delivered xs = []"
  by (induction xs rule: expect_end.induct) auto

definition header_for :: "nat \<Rightarrow> u8 list" where
  "header_for n = MAGIC @ to_le_bytes 4 PROTOCOL_VERSION @ [message_kind_byte Request] @
     to_le_bytes 4 (word_of_nat n :: u32)"

lemma length_header_for [simp]: "length (header_for n) = 17"
  by (simp add: header_for_def)

lemma header_check:
  assumes "length h = 17" and "n \<le> MAX_FRAME_BYTES"
  shows "take 8 h = REQUEST_MAGIC \<and> from_le_bytes (take 4 (drop 8 h)) = PROTOCOL_VERSION \<and>
      h ! 12 = REQUEST_MESSAGE_KIND \<and> unat (from_le_bytes (drop 13 h) :: u32) = n \<longleftrightarrow> h = header_for n"
proof -
  define m v k l where parts: "m = take 8 h" "v = take 4 (drop 8 h)" "k = h ! 12" "l = drop 13 h"
  have "drop 12 h = h ! 12 # drop 13 h" using assms(1) Cons_nth_drop_Suc [of 12 h] by simp
  moreover have "drop 8 h = take 4 (drop 8 h) @ drop 12 h"
    using append_take_drop_id [of 4 "drop 8 h"] by simp
  ultimately have h: "h = m @ v @ k # l" unfolding parts by (metis append_take_drop_id)
  have len: "length m = 8" "length v = 4" "length l = 4" using assms(1) by (simp_all add: parts)
  have n: "unat (word_of_nat n :: u32) = n"
    using assms(2) by (intro unat_of_nat_u32) (simp add: MAX_FRAME_BYTES_def)
  have "(from_le_bytes v :: u32) = PROTOCOL_VERSION \<longleftrightarrow> v = to_le_bytes 4 PROTOCOL_VERSION"
    using le_bytes_32 len(2) by metis
  moreover have "unat (from_le_bytes l :: u32) = n \<longleftrightarrow> l = to_le_bytes 4 (word_of_nat n :: u32)"
    using le_bytes_32 len(3) n by (metis word_unat_eq_iff)
  moreover have "h = header_for n \<longleftrightarrow> m = MAGIC \<and> v = to_le_bytes 4 PROTOCOL_VERSION \<and>
      k = message_kind_byte Request \<and> l = to_le_bytes 4 (word_of_nat n :: u32)"
    unfolding h header_for_def using len by simp
  ultimately show ?thesis
    unfolding parts by (auto simp: REQUEST_MAGIC_def MAGIC_def REQUEST_MESSAGE_KIND_def)
qed

lemma frame_header: "frame_bytes_of Request p = header_for (length p) @ p"
  by (simp add: frame_bytes_of_def header_for_def length_prefixed_def)

lemma read_request_frame_Inr:
  "outcome (read_request_frame input) = Inr frm \<longleftrightarrow>
     delivered input = map Byte frm \<and>
     (\<exists>p. frm = frame_bytes_of Request p \<and> length p \<le> MAX_FRAME_BYTES)"
proof
  assume "outcome (read_request_frame input) = Inr frm"
  then obtain h rest p where r: "read_exact 17 input = Inr (h, rest)" 
    "take 8 h = REQUEST_MAGIC" "from_le_bytes (take 4 (drop 8 h)) = PROTOCOL_VERSION"
    "h ! 12 = REQUEST_MESSAGE_KIND" "unat (from_le_bytes (drop 13 h) :: u32) \<le> MAX_FRAME_BYTES"
    "\<exists>left. read_exact (unat (from_le_bytes (drop 13 h) :: u32)) rest = Inr (p, left) \<and> delivered left = []"
    "frm = h @ p"
    by (auto simp: read_request_frame_def Let_def FRAME_HEADER_BYTES_def checked_add_usize_def
        expect_end_iff map_sum_eq_Inr split: sum.splits if_splits)
  then have "length h = 17" "length p = unat (from_le_bytes (drop 13 h) :: u32)"
    "delivered input = map Byte (h @ p)"
    using read_exact_sound [of 17 input] read_exact_sound [of _ rest] by fastforce+
  with r header_check [of h "length p"] show "delivered input = map Byte frm \<and>
     (\<exists>p. frm = frame_bytes_of Request p \<and> length p \<le> MAX_FRAME_BYTES)"
    by (auto simp: frame_header)
next
  assume "delivered input = map Byte frm \<and>
     (\<exists>p. frm = frame_bytes_of Request p \<and> length p \<le> MAX_FRAME_BYTES)"
  then obtain p where d: "delivered input = map Byte (header_for (length p)) @ map Byte p"
    and p: "length p \<le> MAX_FRAME_BYTES" "frm = header_for (length p) @ p"
    by (auto simp: frame_header)
  obtain rest where "read_exact 17 input = Inr (header_for (length p), rest)" "delivered rest = map Byte p @ []"
    using read_exact_complete [OF length_header_for d] by auto
  moreover from read_exact_complete [OF refl this(2)] obtain left where
    "read_exact (length p) rest = Inr (p, left)" "expect_end left = Inr ()" by (auto simp: expect_end_iff)
  ultimately show "outcome (read_request_frame input) = Inr frm"
    using header_check [of "header_for (length p)" "length p"] p
    by (simp add: read_request_frame_def Let_def FRAME_HEADER_BYTES_def checked_add_usize_def
        usize_limit_def MAX_FRAME_BYTES_def)
qed

subsection \<open>Admission\<close>

text \<open>A configuration that carries the digest of its profile and leaves no digest at zero.\<close>

definition genuine_build :: "build_configuration \<Rightarrow> sha256_digest \<Rightarrow> bool" where
  "genuine_build c d \<longleftrightarrow> profile_digest (identity c) = d \<and>
     list_all (\<lambda>x. \<exists>b \<in> set x. b \<noteq> 0)
       [compiler (identity c), target_package_digest (identity c), standard_library (identity c),
        source_graph (identity c), request_digest (identity c), profile_digest (identity c)]"

definition refused :: "backend_request \<Rightarrow> backend_response" where
  "refused q = \<lparr>response_id = request_id q, response_outcome =
     Failure \<lparr>failure_kind = Verification, failure_message = profile_refusal\<rparr>\<rparr>"

lemma seal_build_configuration_cases:
  assumes "profile_validate (profile c) = Inr ()"
  shows "\<exists>e. seal_build_configuration c d = (if genuine_build c d then Inr c else Inl e)"
  using assms
  by (auto simp: seal_build_configuration_def configuration_validate_def genuine_build_def zero_digest_def)

text \<open>For a request that was decoded from the frame, the computation of the canonical bytes and the
  encoding succeed, and the comparison with the frame never fails.\<close>

lemma admit_decoded:
  assumes "outcome (decode_request frm) = Inr q"
  shows "\<exists>p. canonical_bytes (profile (build q)) = Inr p \<and> outcome (admit_request sha256 frm q) =
    Inr (if genuine_build (build q) (sha256 p) then Inr (build q) else Inl (refused q))"
proof -
  have v: "profile_validate (profile (build q)) = Inr ()" and e: "outcome (encode_request q (build q)) = Inr frm"
    using assms by (auto simp: decode_request_Inr encode_request_Inr request_ok_def)
  then obtain p where p: "canonical_bytes (profile (build q)) = Inr p" by (simp add: canonical_bytes_fields)
  with e seal_build_configuration_cases [OF v, of "sha256 p"] show ?thesis
    by (auto simp: admit_request_def failure_response_def refused_def split: if_splits)
qed

subsection \<open>Properties\<close>

text \<open>C28. What the backend process takes from the pipe, end to end: a request is received exactly when
  the bytes of the pipe, however the reads are cut and interrupted, are the canonical encoding of that
  request and nothing follows. It is then admitted, with its own configuration as the sealed one, when
  the profile digest it carries is the digest of its canonical profile and none of its six digests
  is zero, and refused with a verification failure otherwise. So once a frame decodes, neither the
  error \<open>RequestValidation\<close> nor the refusal of a frame that is not canonical occurs. (The
  reservations of memory are granted here.)\<close>

theorem receive_request_exact:
  "outcome (receive_request sha256 input) = Inr (q, r) \<longleftrightarrow>
     (\<exists>frm p. filter (\<lambda>x. x \<noteq> Interrupted) input = map Byte frm \<and>
        wf_request q \<and> outcome (encode_request q (build q)) = Inr frm \<and>
        canonical_bytes (profile (build q)) = Inr p \<and>
        r = (if genuine_build (build q) (sha256 p) then Inr (build q) else Inl (refused q)))"
proof -
  have "outcome (receive_request sha256 input) = Inr (q, r) \<longleftrightarrow>
      (\<exists>frm. outcome (read_request_frame input) = Inr frm \<and> outcome (decode_request frm) = Inr q \<and>
       outcome (admit_request sha256 frm q) = Inr r)"
    by (auto simp: receive_request_def and_then_Inr map_sum_eq_Inr simp del: outcome_and_then)
  also have "\<dots> \<longleftrightarrow> (\<exists>frm. delivered input = map Byte frm \<and> outcome (decode_request frm) = Inr q \<and>
      outcome (admit_request sha256 frm q) = Inr r)"
    by (auto simp: read_request_frame_Inr decode_request_Inr request_ok_def)
  also have "\<dots> \<longleftrightarrow> (\<exists>frm p. delivered input = map Byte frm \<and> outcome (decode_request frm) = Inr q \<and>
      canonical_bytes (profile (build q)) = Inr p \<and>
      r = (if genuine_build (build q) (sha256 p) then Inr (build q) else Inl (refused q)))"
    using admit_decoded [of _ q sha256] by fastforce
  finally show ?thesis by (auto simp: delivered_def decode_request_Inr encode_request_Inr)
qed

end
