(* ===== verification/Sha256.thy ===== *)
theory Sha256
  imports Byte_Codec
begin

text \<open>
  The two SHA-256 implementations of the toolchain: \<open>SoftwareSha256\<close> of
  \<open>crates/wrela-package-loader\<close> and \<open>Sha256\<close> of \<open>crates/wrela-test-runner\<close>. The reference is
  FIPS 180-4: the padded message cut into 64-byte blocks, the message schedule as its recurrence.
  The locale \<open>content_digest\<close> is what clients rely on: the result of a sequence of updates is a
  function of the concatenated bytes.
\<close>

subsection \<open>Shared constants\<close>

definition to_be_bytes :: "nat \<Rightarrow> 'a::len word \<Rightarrow> u8 list" where
  "to_be_bytes n w = rev (to_le_bytes n w)"

definition from_be_bytes :: "u8 list \<Rightarrow> 'a::len word" where
  "from_be_bytes bs = from_le_bytes (rev bs)"

type_synonym u128 = "128 word"

definition saturating_add_u128 :: "u128 \<Rightarrow> u128 \<Rightarrow> u128" where
  "saturating_add_u128 a b = (if unat a + unat b < 2 ^ 128 then a + b else NOT 0)"

definition INITIAL_STATE :: "u32 list" where
  "INITIAL_STATE = [0x6a09e667, 0xbb67ae85, 0x3c6ef372, 0xa54ff53a, 0x510e527f, 0x9b05688c,
     0x1f83d9ab, 0x5be0cd19]"

text \<open>The source spells the constants with a separator, \<open>0x428a_2f98\<close>: two halves.\<close>

definition u32_lit :: "u32 \<Rightarrow> u32 \<Rightarrow> u32" where
  "u32_lit high low = high * 0x10000 + low"

definition ROUND_CONSTANTS :: "u32 list" where
  "ROUND_CONSTANTS = [
     u32_lit 0x428a 0x2f98, u32_lit 0x7137 0x4491, u32_lit 0xb5c0 0xfbcf, u32_lit 0xe9b5 0xdba5,
     u32_lit 0x3956 0xc25b, u32_lit 0x59f1 0x11f1, u32_lit 0x923f 0x82a4, u32_lit 0xab1c 0x5ed5,
     u32_lit 0xd807 0xaa98, u32_lit 0x1283 0x5b01, u32_lit 0x2431 0x85be, u32_lit 0x550c 0x7dc3,
     u32_lit 0x72be 0x5d74, u32_lit 0x80de 0xb1fe, u32_lit 0x9bdc 0x06a7, u32_lit 0xc19b 0xf174,
     u32_lit 0xe49b 0x69c1, u32_lit 0xefbe 0x4786, u32_lit 0x0fc1 0x9dc6, u32_lit 0x240c 0xa1cc,
     u32_lit 0x2de9 0x2c6f, u32_lit 0x4a74 0x84aa, u32_lit 0x5cb0 0xa9dc, u32_lit 0x76f9 0x88da,
     u32_lit 0x983e 0x5152, u32_lit 0xa831 0xc66d, u32_lit 0xb003 0x27c8, u32_lit 0xbf59 0x7fc7,
     u32_lit 0xc6e0 0x0bf3, u32_lit 0xd5a7 0x9147, u32_lit 0x06ca 0x6351, u32_lit 0x1429 0x2967,
     u32_lit 0x27b7 0x0a85, u32_lit 0x2e1b 0x2138, u32_lit 0x4d2c 0x6dfc, u32_lit 0x5338 0x0d13,
     u32_lit 0x650a 0x7354, u32_lit 0x766a 0x0abb, u32_lit 0x81c2 0xc92e, u32_lit 0x9272 0x2c85,
     u32_lit 0xa2bf 0xe8a1, u32_lit 0xa81a 0x664b, u32_lit 0xc24b 0x8b70, u32_lit 0xc76c 0x51a3,
     u32_lit 0xd192 0xe819, u32_lit 0xd699 0x0624, u32_lit 0xf40e 0x3585, u32_lit 0x106a 0xa070,
     u32_lit 0x19a4 0xc116, u32_lit 0x1e37 0x6c08, u32_lit 0x2748 0x774c, u32_lit 0x34b0 0xbcb5,
     u32_lit 0x391c 0x0cb3, u32_lit 0x4ed8 0xaa4a, u32_lit 0x5b9c 0xca4f, u32_lit 0x682e 0x6ff3,
     u32_lit 0x748f 0x82ee, u32_lit 0x78a5 0x636f, u32_lit 0x84c8 0x7814, u32_lit 0x8cc7 0x0208,
     u32_lit 0x90be 0xfffa, u32_lit 0xa450 0x6ceb, u32_lit 0xbef9 0xa3f7, u32_lit 0xc671 0x78f2]"

subsection \<open>\<open>SoftwareSha256\<close> of the package loader\<close>

record sha256_state =
  state :: "u32 list"
  buffer :: "u8 list"
  buffer_len :: nat
  total_bytes :: u128

definition sha256_new :: sha256_state where
  "sha256_new = \<lparr>state = INITIAL_STATE, buffer = replicate 64 0, buffer_len = 0, total_bytes = 0\<rparr>"

definition schedule_word :: "u32 list \<Rightarrow> nat \<Rightarrow> u32" where
  "schedule_word w i =
     (let s0 = rotate_right_u32 7 (w ! (i - 15)) XOR rotate_right_u32 18 (w ! (i - 15)) XOR
            drop_bit 3 (w ! (i - 15));
          s1 = rotate_right_u32 17 (w ! (i - 2)) XOR rotate_right_u32 19 (w ! (i - 2)) XOR
            drop_bit 10 (w ! (i - 2))
      in w ! (i - 16) + s0 + w ! (i - 7) + s1)"

definition schedule :: "u8 list \<Rightarrow> u32 list" where
  "schedule block =
     foldl (\<lambda>w i. w[i := schedule_word w i])
       (map from_be_bytes (chunks 4 block) @ replicate (64 - length (chunks 4 block)) 0) [16..<64]"

type_synonym working = "u32 \<times> u32 \<times> u32 \<times> u32 \<times> u32 \<times> u32 \<times> u32 \<times> u32"

fun sha256_round :: "u32 list \<Rightarrow> working \<Rightarrow> nat \<Rightarrow> working" where
  "sha256_round w (a, b, c, d, e, f, g, h) i =
     (let sum1 = rotate_right_u32 6 e XOR rotate_right_u32 11 e XOR rotate_right_u32 25 e;
          choice = (e AND f) XOR (NOT e AND g);
          temporary1 = h + sum1 + choice + ROUND_CONSTANTS ! i + w ! i;
          sum0 = rotate_right_u32 2 a XOR rotate_right_u32 13 a XOR rotate_right_u32 22 a;
          majority = (a AND b) XOR (a AND c) XOR (b AND c);
          temporary2 = sum0 + majority
      in (temporary1 + temporary2, a, b, c, d + temporary1, e, f, g))"

definition compress_block :: "u32 list \<Rightarrow> u8 list \<Rightarrow> u32 list" where
  "compress_block s block =
     (case foldl (sha256_round (schedule block))
             (s ! 0, s ! 1, s ! 2, s ! 3, s ! 4, s ! 5, s ! 6, s ! 7) [0..<64] of
        (a, b, c, d, e, f, g, h) \<Rightarrow>
          [s ! 0 + a, s ! 1 + b, s ! 2 + c, s ! 3 + d, s ! 4 + e, s ! 5 + f, s ! 6 + g, s ! 7 + h])"

definition compress :: "sha256_state \<Rightarrow> u8 list \<Rightarrow> sha256_state" where
  "compress st block = st\<lparr>state := compress_block (state st) block\<rparr>"

function update_blocks :: "sha256_state \<Rightarrow> u8 list \<Rightarrow> sha256_state \<times> u8 list" where
  "update_blocks st bs =
     (if length bs \<ge> 64 then update_blocks (compress st (take 64 bs)) (drop 64 bs) else (st, bs))"
  by pat_completeness auto
termination
  by (relation "measure (\<lambda>(st, bs). length bs)") auto

declare update_blocks.simps [simp del]

definition fill_buffer :: "sha256_state \<Rightarrow> u8 list \<Rightarrow> sha256_state \<times> u8 list" where
  "fill_buffer st bs =
     (if buffer_len st \<noteq> 0 then
        let available = 64 - buffer_len st;
            n = min available (length bs);
            e = buffer_len st + n;
            st = st\<lparr>buffer := take (buffer_len st) (buffer st) @ take n bs @ drop e (buffer st),
                    buffer_len := e\<rparr>;
            bs = drop n bs
        in if buffer_len st = 64 then ((compress st (buffer st))\<lparr>buffer_len := 0\<rparr>, bs) else (st, bs)
      else (st, bs))"

definition update_bytes :: "sha256_state \<Rightarrow> u8 list \<Rightarrow> sha256_state" where
  "update_bytes st bs =
     (let st = st\<lparr>total_bytes := saturating_add_u128 (total_bytes st) (word_of_nat (length bs))\<rparr>;
          (st, bs) = fill_buffer st bs;
          (st, bs) = update_blocks st bs
      in if bs \<noteq> [] then st\<lparr>buffer := bs @ drop (length bs) (buffer st), buffer_len := length bs\<rparr>
         else st)"

definition finalize :: "sha256_state \<Rightarrow> u8 list" where
  "finalize st =
     (let bit_length = (ucast (total_bytes st * 8) :: u64);
          st = st\<lparr>buffer := (buffer st)[buffer_len st := 0x80], buffer_len := buffer_len st + 1\<rparr>;
          st = (if buffer_len st > 56 then
                  let st = st\<lparr>buffer := take (buffer_len st) (buffer st) @ replicate (64 - buffer_len st) 0\<rparr>;
                      st = compress st (buffer st)
                  in st\<lparr>buffer := replicate 64 0, buffer_len := 0\<rparr>
                else st);
          st = st\<lparr>buffer := take (buffer_len st) (buffer st) @ replicate (56 - buffer_len st) 0 @
                   drop 56 (buffer st)\<rparr>;
          st = st\<lparr>buffer := take 56 (buffer st) @ to_be_bytes 8 bit_length\<rparr>;
          st = compress st (buffer st)
      in concat (map (to_be_bytes 4) (state st)))"

definition sha256 :: "u8 list \<Rightarrow> u8 list" where
  "sha256 bs = finalize (update_bytes sha256_new bs)"

subsection \<open>\<open>Sha256\<close> of the test runner\<close>

record runner_sha256 =
  rs_state :: "u32 list"
  rs_buffer :: "u8 list"
  rs_buffer_len :: nat
  rs_total_bytes :: u128

definition runner_new :: runner_sha256 where
  "runner_new = \<lparr>rs_state = INITIAL_STATE, rs_buffer = replicate 64 0, rs_buffer_len = 0,
     rs_total_bytes = 0\<rparr>"

text \<open>\<open>let [a, b, ...] = self.state\<close> matches all eight words of the array.\<close>

definition runner_compress :: "runner_sha256 \<Rightarrow> u8 list \<Rightarrow> runner_sha256" where
  "runner_compress st block =
     (case rs_state st of
        [a0, b0, c0, d0, e0, f0, g0, h0] \<Rightarrow>
          (case foldl (sha256_round (schedule block)) (a0, b0, c0, d0, e0, f0, g0, h0) [0..<64] of
             (a, b, c, d, e, f, g, h) \<Rightarrow>
               st\<lparr>rs_state := [a0 + a, b0 + b, c0 + c, d0 + d, e0 + e, f0 + f, g0 + g, h0 + h]\<rparr>)
      | _ \<Rightarrow> st)"

function runner_blocks :: "runner_sha256 \<Rightarrow> u8 list \<Rightarrow> runner_sha256 \<times> u8 list" where
  "runner_blocks st bs =
     (if length bs \<ge> 64 then runner_blocks (runner_compress st (take 64 bs)) (drop 64 bs)
      else (st, bs))"
  by pat_completeness auto
termination
  by (relation "measure (\<lambda>(st, bs). length bs)") auto

declare runner_blocks.simps [simp del]

definition runner_update :: "runner_sha256 \<Rightarrow> u8 list \<Rightarrow> runner_sha256" where
  "runner_update st bs =
     (let st = st\<lparr>rs_total_bytes := saturating_add_u128 (rs_total_bytes st) (word_of_nat (length bs))\<rparr>;
          (st, bs) =
            (if rs_buffer_len st \<noteq> 0 then
               let n = min (64 - rs_buffer_len st) (length bs);
                   e = rs_buffer_len st + n;
                   st = st\<lparr>rs_buffer := take (rs_buffer_len st) (rs_buffer st) @ take n bs @
                            drop e (rs_buffer st),
                          rs_buffer_len := e\<rparr>
               in if rs_buffer_len st = 64
                  then ((runner_compress st (rs_buffer st))\<lparr>rs_buffer_len := 0\<rparr>, drop n bs)
                  else (st, drop n bs)
             else (st, bs));
          (st, bs) = runner_blocks st bs
      in if bs \<noteq> []
         then st\<lparr>rs_buffer := bs @ drop (length bs) (rs_buffer st), rs_buffer_len := length bs\<rparr>
         else st)"

definition runner_finish :: "runner_sha256 \<Rightarrow> u8 list" where
  "runner_finish st =
     (let bit_length = (ucast (rs_total_bytes st * 8) :: u64);
          st = st\<lparr>rs_buffer := (rs_buffer st)[rs_buffer_len st := 0x80],
                  rs_buffer_len := rs_buffer_len st + 1\<rparr>;
          st = (if rs_buffer_len st > 56 then
                  (runner_compress st (take (rs_buffer_len st) (rs_buffer st) @
                     replicate (64 - rs_buffer_len st) 0))
                    \<lparr>rs_buffer := replicate 64 0, rs_buffer_len := 0\<rparr>
                else st);
          st = runner_compress st (take (rs_buffer_len st) (rs_buffer st) @
                 replicate (56 - rs_buffer_len st) 0 @ to_be_bytes 8 bit_length)
      in concat (map (to_be_bytes 4) (rs_state st)))"

text \<open>\<open>digest_file\<close>: the outcome of opening the file, then the outcomes of its reads; the end of
  the list is the end of the file, where every read returns no bytes.\<close>

definition saturating_add_u64 :: "u64 \<Rightarrow> u64 \<Rightarrow> u64" where
  "saturating_add_u64 a b = (if unat a + unat b < 2 ^ 64 then a + b else NOT 0)"

fun digest_reads :: "runner_sha256 \<Rightarrow> u64 \<Rightarrow> ('e + u8 list) list \<Rightarrow> 'e + runner_sha256 \<times> u64" where
  "digest_reads st n [] = Inr (st, n)"
| "digest_reads st n (Inl e # cs) = Inl e"
| "digest_reads st n (Inr c # cs) =
     (if c = [] then Inr (st, n)
      else digest_reads (runner_update st c) (saturating_add_u64 n (word_of_nat (length c))) cs)"

definition digest_file :: "'e + ('e + u8 list) list \<Rightarrow> 'e + u8 list \<times> u64" where
  "digest_file opened =
     (case opened of
        Inl e \<Rightarrow> Inl e
      | Inr reads \<Rightarrow> (case digest_reads runner_new 0 reads of
            Inl e \<Rightarrow> Inl e
          | Inr (st, n) \<Rightarrow> Inr (runner_finish st, n)))"

subsection \<open>The reference: FIPS 180-4\<close>

fun fips_w :: "u8 list \<Rightarrow> nat \<Rightarrow> u32" where
  "fips_w block t =
     (if t < 16 then from_be_bytes (take 4 (drop (4 * t) block))
      else
        (let x = fips_w block (t - 2); y = fips_w block (t - 15) in
         (rotate_right_u32 17 x XOR rotate_right_u32 19 x XOR drop_bit 10 x) + fips_w block (t - 7) +
         (rotate_right_u32 7 y XOR rotate_right_u32 18 y XOR drop_bit 3 y) + fips_w block (t - 16)))"

declare fips_w.simps [simp del]

definition fips_ch :: "u32 \<Rightarrow> u32 \<Rightarrow> u32 \<Rightarrow> u32" where
  "fips_ch x y z = (x AND y) XOR (NOT x AND z)"

definition fips_maj :: "u32 \<Rightarrow> u32 \<Rightarrow> u32 \<Rightarrow> u32" where
  "fips_maj x y z = (x AND y) XOR (x AND z) XOR (y AND z)"

definition fips_sigma :: "nat \<Rightarrow> nat \<Rightarrow> nat \<Rightarrow> u32 \<Rightarrow> u32" where
  "fips_sigma i j k x = rotate_right_u32 i x XOR rotate_right_u32 j x XOR rotate_right_u32 k x"

fun fips_round :: "(nat \<Rightarrow> u32) \<Rightarrow> working \<Rightarrow> nat \<Rightarrow> working" where
  "fips_round w (a, b, c, d, e, f, g, h) t =
     (let t1 = ROUND_CONSTANTS ! t + w t + h + fips_sigma 6 11 25 e + fips_ch e f g;
          t2 = fips_sigma 2 13 22 a + fips_maj a b c
      in (t1 + t2, a, b, c, d + t1, e, f, g))"

text \<open>\<open>root_fraction n p k\<close>: \<open>k\<close> is the first 32 bits of the fractional part of the \<open>n\<close>-th root
  of \<open>p\<close>; its integer part is the number of positive integers whose \<open>n\<close>-th power is at most \<open>p\<close>, and
  is at most 6 for the primes below.\<close>

definition root_fraction :: "nat \<Rightarrow> nat \<Rightarrow> u32 \<Rightarrow> bool" where
  "root_fraction n p k \<longleftrightarrow>
     (let r = length (filter (\<lambda>i. i ^ n \<le> p) [1, 2, 3, 4, 5, 6]) * 2 ^ 32 + unat k in
      r ^ n \<le> p * 2 ^ (32 * n) \<and> p * 2 ^ (32 * n) < (r + 1) ^ n)"

text \<open>The first 64 primes.\<close>

definition small_primes :: "nat list" where
  "small_primes = [2, 3, 5, 7, 11, 13, 17, 19, 23, 29, 31, 37, 41, 43, 47, 53, 59, 61, 67, 71, 73, 79,
     83, 89, 97, 101, 103, 107, 109, 113, 127, 131, 137, 139, 149, 151, 157, 163, 167, 173, 179, 181,
     191, 193, 197, 199, 211, 223, 227, 229, 233, 239, 241, 251, 257, 263, 269, 271, 277, 281, 283,
     293, 307, 311]"

definition fips_block :: "u32 list \<Rightarrow> u8 list \<Rightarrow> u32 list" where
  "fips_block s block =
     (case foldl (fips_round (fips_w block))
             (s ! 0, s ! 1, s ! 2, s ! 3, s ! 4, s ! 5, s ! 6, s ! 7) [0..<64] of
        (a, b, c, d, e, f, g, h) \<Rightarrow>
          [s ! 0 + a, s ! 1 + b, s ! 2 + c, s ! 3 + d, s ! 4 + e, s ! 5 + f, s ! 6 + g, s ! 7 + h])"

text \<open>The shortest padding that makes the length a multiple of 64 bytes.\<close>

definition fips_pad :: "u8 list \<Rightarrow> u8 list" where
  "fips_pad m = m @ [0x80] @ replicate ((119 - length m mod 64) mod 64) 0 @
     to_be_bytes 8 (word_of_nat (8 * length m) :: u64)"

definition fips_sha256 :: "u8 list \<Rightarrow> u8 list" where
  "fips_sha256 m =
     concat (map (to_be_bytes 4) (foldl fips_block INITIAL_STATE (chunks 64 (fips_pad m))))"

subsection \<open>The message schedule\<close>

lemma chunks_nth:
  "n < length (chunks k xs) \<Longrightarrow> chunks k xs ! n = take k (drop (k * n) xs)"
proof (induction k xs arbitrary: n rule: chunks.induct)
  case (1 k xs)
  then have ne: "\<not> (k = 0 \<or> xs = [])" by (auto simp: chunks.simps [of k xs] split: if_splits)
  then have c: "chunks k xs = take k xs # chunks k (drop k xs)" by (simp add: chunks.simps [of k xs])
  show ?case
  proof (cases n)
    case (Suc j)
    then have "chunks k (drop k xs) ! j = take k (drop (k * j) (drop k xs))"
      using 1 ne c by simp
    with Suc c show ?thesis by (simp add: add.commute)
  qed (simp add: c)
qed

lemma length_chunks_64: "length block = 64 \<Longrightarrow> length (chunks 4 block) = 16"
  by (simp add: length_chunks)

definition schedule_prefix :: "u8 list \<Rightarrow> nat \<Rightarrow> u32 list" where
  "schedule_prefix block n =
     foldl (\<lambda>w i. w[i := schedule_word w i])
       (map from_be_bytes (chunks 4 block) @ replicate (64 - length (chunks 4 block)) 0) [16..<n]"

lemma schedule_prefix_spec:
  assumes "length block = 64" and "16 \<le> n" and "n \<le> 64"
  shows "length (schedule_prefix block n) = 64 \<and> (\<forall>t < n. schedule_prefix block n ! t = fips_w block t)"
  using assms(2,3)
proof (induction n rule: dec_induct)
  case base
  have "(map from_be_bytes (chunks 4 block) @ replicate 48 0) ! t = fips_w block t" if "t < 16" for t
    using that assms(1) chunks_nth [of t 4 block]
    by (simp add: nth_append length_chunks_64 fips_w.simps [of block t])
  then show ?case by (simp add: schedule_prefix_def length_chunks_64 assms(1))
next
  case (step n)
  let ?w = "schedule_prefix block n"
  have ih: "length ?w = 64" "\<And>t. t < n \<Longrightarrow> ?w ! t = fips_w block t" using step by auto
  have suc: "schedule_prefix block (Suc n) = ?w[n := schedule_word ?w n]"
    using step.hyps by (simp add: schedule_prefix_def)
  have "schedule_word ?w n = fips_w block n"
    using step.hyps ih by (simp add: schedule_word_def fips_w.simps [of block n] Let_def ac_simps)
  with suc ih step.prems show ?case by (auto simp: less_Suc_eq nth_list_update)
qed

lemma eq_map_upt: "length xs = n \<Longrightarrow> (\<And>t. t < n \<Longrightarrow> xs ! t = f t) \<Longrightarrow> xs = map f [0..<n]"
  by (rule nth_equalityI) simp_all

lemma schedule_fips:
  assumes "length block = 64"
  shows "schedule block = map (fips_w block) [0..<64]"
proof (rule eq_map_upt)
  have s: "schedule block = schedule_prefix block 64"
    by (simp only: schedule_def schedule_prefix_def)
  have p: "length (schedule_prefix block 64) = 64 \<and>
      (\<forall>t < 64. schedule_prefix block 64 ! t = fips_w block t)"
    using assms by (rule schedule_prefix_spec) (simp_all only: numeral_le_iff semiring_norm order_refl)
  from p show "length (schedule block) = 64" unfolding s by (rule conjunct1)
  from p show "schedule block ! t = fips_w block t" if "t < 64" for t
    unfolding s using that by blast
qed

lemma sha256_round_fips:
  "t < 64 \<Longrightarrow> sha256_round (map w [0..<64]) x t = fips_round w x t"
proof -
  assume "t < 64"
  then have "map w [0..<64] ! t = w t" by (subst nth_map_upt) (simp_all only: minus_nat.diff_0 add_0)
  moreover obtain a b c d e f g h where "x = (a, b, c, d, e, f, g, h)" by (metis surj_pair)
  ultimately show ?thesis
    by (simp only: sha256_round.simps fips_round.simps fips_sigma_def fips_ch_def
        fips_maj_def Let_def ac_simps)
qed

lemma compress_block_fips:
  assumes "length block = 64"
  shows "compress_block s block = fips_block s block"
proof -
  have "foldl (sha256_round (schedule block)) x [0..<64] = foldl (fips_round (fips_w block)) x [0..<64]" for x
    unfolding schedule_fips [OF assms]
    by (rule foldl_cong) (simp_all only: sha256_round_fips set_upt atLeastLessThan_iff)
  then show ?thesis unfolding compress_block_def fips_block_def by (simp only:)
qed

subsection \<open>Absorbing bytes\<close>

text \<open>All whole blocks of a message absorbed, and what is left.\<close>

function absorb :: "u32 list \<Rightarrow> u8 list \<Rightarrow> u32 list \<times> u8 list" where
  "absorb s bs = (if length bs \<ge> 64 then absorb (compress_block s (take 64 bs)) (drop 64 bs) else (s, bs))"
  by pat_completeness auto
termination
  by (relation "measure (\<lambda>(s, bs). length bs)") auto

declare absorb.simps [simp del]

lemma absorb_short: "length bs < 64 \<Longrightarrow> absorb s bs = (s, bs)"
  by (simp add: absorb.simps)

lemma absorb_block: "length b = 64 \<Longrightarrow> absorb s (b @ bs) = absorb (compress_block s b) bs"
  by (simp add: absorb.simps [of s "b @ bs"])

lemma absorb_one: "length b = 64 \<Longrightarrow> absorb s b = (compress_block s b, [])"
  using absorb_block [of b s "[]"] by (simp add: absorb_short)

lemma absorb_two:
  "length b = 64 \<Longrightarrow> length c = 64 \<Longrightarrow> absorb s (b @ c) = (compress_block (compress_block s b) c, [])"
  by (simp add: absorb_block absorb_one)

lemma absorb_rest: "absorb s bs = (s', t) \<Longrightarrow> length t < 64 \<and> length t = length bs mod 64"
proof (induction s bs rule: absorb.induct)
  case (1 s bs)
  then show ?case
    by (cases "64 \<le> length bs") (auto simp: absorb.simps [of s bs] le_mod_geq split: if_splits)
qed

lemma absorb_append: "absorb s (m @ n) = (case absorb s m of (s', t) \<Rightarrow> absorb s' (t @ n))"
proof (induction s m rule: absorb.induct)
  case (1 s m)
  show ?case
  proof (cases "64 \<le> length m")
    case True
    have "absorb s (m @ n) = absorb (compress_block s (take 64 m)) (drop 64 m @ n)"
      using True by (subst absorb.simps) simp
    with 1 True show ?thesis by (simp add: absorb.simps [of s m])
  qed (simp add: absorb_short)
qed

lemma absorb_whole: "64 dvd length bs \<Longrightarrow> absorb s bs = (foldl compress_block s (chunks 64 bs), [])"
proof (induction s bs rule: absorb.induct)
  case (1 s bs)
  show ?case
  proof (cases "64 \<le> length bs")
    case True
    then have "64 dvd length (drop 64 bs)" using "1.prems" by (simp add: dvd_minus_self)
    moreover have "bs \<noteq> []" using True by auto
    ultimately show ?thesis
      using 1 True by (subst absorb.simps) (simp add: chunks_step)
  next
    case False
    with "1.prems" have "bs = []" by (metis dvd_imp_le length_greater_0_conv not_le)
    then show ?thesis by (simp add: absorb_short)
  qed
qed

lemma update_blocks_absorb:
  "update_blocks st bs = (case absorb (state st) bs of (s, t) \<Rightarrow> (st\<lparr>state := s\<rparr>, t))"
proof (induction st bs rule: update_blocks.induct)
  case (1 st bs)
  show ?case
  proof (cases "64 \<le> length bs")
    case True
    with 1 show ?thesis
      by (simp add: update_blocks.simps [of st bs] absorb.simps [of "state st" bs] compress_def
          split: prod.splits)
  qed (simp add: update_blocks.simps [of st bs] absorb_short)
qed

text \<open>\<open>absorbed m st\<close>: the state after the message \<open>m\<close>.\<close>

definition absorbed :: "u8 list \<Rightarrow> sha256_state \<Rightarrow> bool" where
  "absorbed m st \<longleftrightarrow> length (buffer st) = 64 \<and> buffer_len st < 64 \<and>
     absorb INITIAL_STATE m = (state st, take (buffer_len st) (buffer st)) \<and>
     unat (total_bytes st) = length m"

lemma absorbed_new: "absorbed [] sha256_new"
  by (simp add: absorbed_def sha256_new_def absorb_short)

lemma saturating_add_small:
  assumes "unat a + n < 2 ^ 128"
  shows "unat (saturating_add_u128 a (word_of_nat n)) = unat a + n"
proof -
  have "n < 2 ^ 128" using assms by simp
  then have n: "unat (word_of_nat n :: u128) = n" by (simp add: unat_of_nat take_bit_nat_eq_self)
  with assms show ?thesis by (simp add: saturating_add_u128_def unat_word_ariths)
qed

lemma fill_buffer_absorb:
  assumes "length (buffer st) = 64" and "buffer_len st < 64"
    and "fill_buffer st bs = (st', bs')"
  shows "length (buffer st') = 64 \<and> buffer_len st' < 64 \<and> total_bytes st' = total_bytes st \<and>
    absorb (state st) (take (buffer_len st) (buffer st) @ bs) =
      absorb (state st') (take (buffer_len st') (buffer st') @ bs') \<and>
    (buffer_len st' = 0 \<or> bs' = [])"
proof (cases "buffer_len st = 0")
  case True
  with assms show ?thesis by (simp add: fill_buffer_def)
next
  case False
  let ?l = "buffer_len st"
  let ?n = "min (64 - ?l) (length bs)"
  let ?b = "take ?l (buffer st) @ take ?n bs @ drop (?l + ?n) (buffer st)"
  have len: "length ?b = 64" "take (?l + ?n) ?b = take ?l (buffer st) @ take ?n bs"
    using assms(1,2) by simp_all
  show ?thesis
  proof (cases "?l + ?n = 64")
    case True
    then have whole: "?b = take ?l (buffer st) @ take ?n bs" using assms(1) by simp
    have st': "st' = (compress (st\<lparr>buffer := ?b, buffer_len := 64\<rparr>) ?b)\<lparr>buffer_len := 0\<rparr>" "bs' = drop ?n bs"
      using assms(3) False True by (auto simp: fill_buffer_def Let_def)
    have "absorb (state st) (take ?l (buffer st) @ bs) = absorb (state st) (?b @ drop ?n bs)"
      unfolding whole by simp
    also have "\<dots> = absorb (compress_block (state st) ?b) (drop ?n bs)"
      using len(1) by (rule absorb_block)
    finally show ?thesis using st' len(1) by (simp add: compress_def)
  next
    case part: False
    then have n: "?n = length bs" using assms(2) by (simp add: min_def split: if_splits)
    have st': "st' = st\<lparr>buffer := ?b, buffer_len := ?l + ?n\<rparr>" "bs' = drop ?n bs"
      using assms(3) False part by (auto simp: fill_buffer_def Let_def)
    have "?l + ?n < 64" using part assms(2) by (simp add: min_def split: if_splits)
    with st' len n assms(1,2) show ?thesis by simp
  qed
qed

lemma absorbed_update:
  assumes "absorbed m st" and "length (m @ bs) < 2 ^ 128"
  shows "absorbed (m @ bs) (update_bytes st bs)"
proof -
  let ?st = "st\<lparr>total_bytes := saturating_add_u128 (total_bytes st) (word_of_nat (length bs))\<rparr>"
  obtain st1 b1 where f: "fill_buffer ?st bs = (st1, b1)" by (cases "fill_buffer ?st bs")
  obtain s b2 where a: "absorb (state st1) b1 = (s, b2)" by (cases "absorb (state st1) b1")
  have st: "length (buffer st) = 64" "buffer_len st < 64"
    "absorb INITIAL_STATE m = (state st, take (buffer_len st) (buffer st))"
    "unat (total_bytes st) = length m"
    using assms(1) by (auto simp: absorbed_def)
  have fill: "length (buffer st1) = 64" "buffer_len st1 < 64"
    "total_bytes st1 = saturating_add_u128 (total_bytes st) (word_of_nat (length bs))"
    "absorb (state st) (take (buffer_len st) (buffer st) @ bs) =
      absorb (state st1) (take (buffer_len st1) (buffer st1) @ b1)"
    "buffer_len st1 = 0 \<or> b1 = []"
    using fill_buffer_absorb [OF _ _ f] st(1,2) by simp_all
  have total: "unat (saturating_add_u128 (total_bytes st) (word_of_nat (length bs))) = length (m @ bs)"
    using saturating_add_small [of "total_bytes st" "length bs"] assms(2) st(4)
    by (simp only: length_append)
  have all: "absorb INITIAL_STATE (m @ bs) =
      absorb (state st1) (take (buffer_len st1) (buffer st1) @ b1)"
    by (subst absorb_append) (simp only: st(3) prod.case fill(4))
  have upd: "update_bytes st bs = (if b2 \<noteq> [] then st1\<lparr>state := s, buffer := b2 @ drop (length b2) (buffer st1),
      buffer_len := length b2\<rparr> else st1\<lparr>state := s\<rparr>)"
    by (simp add: update_bytes_def Let_def f update_blocks_absorb a)
  show ?thesis
  proof (cases "buffer_len st1 = 0")
    case True
    with all a have "absorb INITIAL_STATE (m @ bs) = (s, b2)" by simp
    with absorb_rest [OF a] upd True fill total show ?thesis by (auto simp: absorbed_def)
  next
    case False
    then have "b1 = []" using fill by simp
    then have "s = state st1" "b2 = []" using a by (simp_all add: absorb_short)
    with upd fill all total \<open>b1 = []\<close> show ?thesis
      by (auto simp: absorbed_def absorb_short)
  qed
qed

subsection \<open>Finishing\<close>

lemma length_to_be_bytes [simp]: "length (to_be_bytes n w) = n"
  by (simp add: to_be_bytes_def)

lemma ucast_word_of_nat: "(ucast (word_of_nat j :: u128) :: u64) = word_of_nat j"
  by (simp add: unsigned_of_nat word_of_nat_eq_iff)

lemma bit_length_word:
  assumes "unat (n :: u128) = k"
  shows "(ucast (n * 8) :: u64) = word_of_nat (8 * k)"
proof -
  have "n = word_of_nat k" using assms by auto
  then have "n * 8 = word_of_nat (8 * k)" by simp
  then show ?thesis by (simp only: ucast_word_of_nat)
qed

lemma finalize_absorb:
  assumes "length (buffer st) = 64" and "buffer_len st < 64"
  shows "finalize st = concat (map (to_be_bytes 4) (fst (absorb (state st)
    (take (buffer_len st) (buffer st) @ [0x80] @ replicate ((119 - buffer_len st) mod 64) 0 @
     to_be_bytes 8 (ucast (total_bytes st * 8) :: u64)))))"
proof -
  let ?l = "buffer_len st" and ?b = "buffer st" and ?z = "to_be_bytes 8 (ucast (total_bytes st * 8) :: u64)"
  have t: "take (Suc ?l) (?b[?l := 0x80]) = take ?l ?b @ [0x80]"
    using assms by (simp add: take_Suc_conv_app_nth)
  show ?thesis
  proof (cases "?l < 56")
    case True
    let ?c = "take ?l ?b @ [0x80] @ replicate (55 - ?l) 0 @ ?z"
    have "(119 - ?l) mod 64 = 55 - ?l" using True by (simp add: mod_if)
    moreover have "finalize st = concat (map (to_be_bytes 4) (compress_block (state st) ?c))"
      using True t assms by (simp add: finalize_def Let_def compress_def)
    moreover have "absorb (state st) ?c = (compress_block (state st) ?c, [])"
      using True assms by (intro absorb_one) simp
    ultimately show ?thesis by simp
  next
    case False
    let ?c = "take ?l ?b @ [0x80] @ replicate (63 - ?l) 0" and ?d = "replicate 56 0 @ ?z"
    have "(119 - ?l) mod 64 = (63 - ?l) + 56" using False assms by simp
    then have "replicate ((119 - ?l) mod 64) (0 :: u8) = replicate (63 - ?l) 0 @ replicate 56 0"
      by (simp only: replicate_add)
    moreover have "finalize st =
        concat (map (to_be_bytes 4) (compress_block (compress_block (state st) ?c) ?d))"
      using False t assms by (simp add: finalize_def Let_def compress_def)
    moreover have "absorb (state st) (?c @ ?d) = (compress_block (compress_block (state st) ?c) ?d, [])"
      using False assms by (intro absorb_two) simp_all
    ultimately show ?thesis by (simp only: append_assoc fst_conv)
  qed
qed

lemma length_in_chunks: "64 dvd length bs \<Longrightarrow> c \<in> set (chunks 64 bs) \<Longrightarrow> length c = 64"
proof (induction "length bs" arbitrary: bs rule: less_induct)
  case less
  then have "bs \<noteq> []" by (auto simp: chunks.simps)
  then have "64 \<le> length bs" using less.prems(1) by (simp add: dvd_imp_le)
  moreover have "64 dvd length (drop 64 bs)"
    using less.prems(1) \<open>64 \<le> length bs\<close> by (simp add: dvd_minus_self)
  moreover have "c = take 64 bs \<or> c \<in> set (chunks 64 (drop 64 bs))"
    using less.prems(2) \<open>bs \<noteq> []\<close> by (simp add: chunks_step)
  ultimately show ?case using less.hyps [of "drop 64 bs"] \<open>bs \<noteq> []\<close> by auto
qed

lemma fips_pad_dvd: "64 dvd length (fips_pad m)"
proof -
  define r where "r = length m mod 64"
  have "r < 64" by (simp add: r_def)
  then have "(119 - r) mod 64 = (if r < 56 then 55 - r else 119 - r)" by (simp add: mod_if)
  then have "64 dvd r + 9 + (119 - r) mod 64" using \<open>r < 64\<close> by auto
  then have "64 dvd 64 * (length m div 64) + (r + 9 + (119 - r) mod 64)" by simp
  moreover have "length (fips_pad m) = 64 * (length m div 64) + (r + 9 + (119 - r) mod 64)"
    by (simp add: fips_pad_def r_def)
  ultimately show ?thesis by (simp only:)
qed

lemma foldl_compress_fips:
  "64 dvd length bs \<Longrightarrow> foldl compress_block s (chunks 64 bs) = foldl fips_block s (chunks 64 bs)"
  by (rule foldl_cong) (simp_all add: length_in_chunks compress_block_fips)

lemma absorbed_finalize:
  assumes "absorbed m st"
  shows "finalize st = fips_sha256 m"
proof -
  have st: "length (buffer st) = 64" "buffer_len st < 64"
    "absorb INITIAL_STATE m = (state st, take (buffer_len st) (buffer st))"
    "unat (total_bytes st) = length m"
    using assms by (auto simp: absorbed_def)
  have l: "length m mod 64 = buffer_len st" using absorb_rest [OF st(3)] st(1,2) by simp
  have "absorb INITIAL_STATE (fips_pad m) = absorb (state st)
      (take (buffer_len st) (buffer st) @ [0x80] @ replicate ((119 - buffer_len st) mod 64) 0 @
       to_be_bytes 8 (ucast (total_bytes st * 8) :: u64))"
    unfolding fips_pad_def bit_length_word [OF st(4)] l by (subst absorb_append) (simp only: st(3) prod.case)
  then have "finalize st = concat (map (to_be_bytes 4) (fst (absorb INITIAL_STATE (fips_pad m))))"
    using finalize_absorb [OF st(1,2)] by (simp only:)
  then show ?thesis
    by (simp only: absorb_whole [OF fips_pad_dvd] foldl_compress_fips [OF fips_pad_dvd] fst_conv
        fips_sha256_def)
qed

subsection \<open>The runner computes on the same states\<close>

definition of_runner :: "runner_sha256 \<Rightarrow> sha256_state" where
  "of_runner st = \<lparr>state = rs_state st, buffer = rs_buffer st, buffer_len = rs_buffer_len st,
     total_bytes = rs_total_bytes st\<rparr>"

lemma of_runner_sel [simp]:
  "state (of_runner st) = rs_state st" "buffer (of_runner st) = rs_buffer st"
  "buffer_len (of_runner st) = rs_buffer_len st" "total_bytes (of_runner st) = rs_total_bytes st"
  by (simp_all add: of_runner_def)

lemma of_runner_upd [simp]:
  "of_runner (st\<lparr>rs_buffer := b\<rparr>) = (of_runner st)\<lparr>buffer := b\<rparr>"
  "of_runner (st\<lparr>rs_buffer_len := n\<rparr>) = (of_runner st)\<lparr>buffer_len := n\<rparr>"
  "of_runner (st\<lparr>rs_total_bytes := k\<rparr>) = (of_runner st)\<lparr>total_bytes := k\<rparr>"
  "of_runner (st\<lparr>rs_state := s\<rparr>) = (of_runner st)\<lparr>state := s\<rparr>"
  by (simp_all add: of_runner_def)

lemma length_compress_block: "length (compress_block s b) = 8"
  by (simp add: compress_block_def split: prod.split)

lemma runner_compress_sim:
  assumes "length (rs_state st) = 8"
  shows "of_runner (runner_compress st b) = compress (of_runner st) b"
    and "length (rs_state (runner_compress st b)) = 8"
proof -
  obtain a0 b0 c0 d0 e0 f0 g0 h0 where s: "rs_state st = [a0, b0, c0, d0, e0, f0, g0, h0]"
    using assms by (auto simp: length_Suc_conv eval_nat_numeral)
  have "runner_compress st b = st\<lparr>rs_state := compress_block (rs_state st) b\<rparr>"
    by (simp add: s runner_compress_def compress_block_def split: prod.split del: upt_rec_numeral)
  then show "of_runner (runner_compress st b) = compress (of_runner st) b"
    "length (rs_state (runner_compress st b)) = 8"
    by (simp_all add: compress_def length_compress_block)
qed

lemma runner_blocks_sim:
  assumes "length (rs_state st) = 8" and "runner_blocks st bs = (st', t)"
  shows "update_blocks (of_runner st) bs = (of_runner st', t)" and "length (rs_state st') = 8"
proof -
  have "update_blocks (of_runner st) bs = (of_runner st', t) \<and> length (rs_state st') = 8"
    using assms
  proof (induction st bs rule: runner_blocks.induct)
    case (1 st bs)
    show ?case
    proof (cases "64 \<le> length bs")
      case True
      with 1 show ?thesis
        by (simp add: runner_blocks.simps [of st bs] update_blocks.simps [of "of_runner st" bs]
            runner_compress_sim)
    next
      case False
      then have "update_blocks (of_runner st) bs = (of_runner st, bs)" "runner_blocks st bs = (st, bs)"
        by (simp_all add: runner_blocks.simps update_blocks.simps)
      with "1.prems" show ?thesis by simp
    qed
  qed
  then show "update_blocks (of_runner st) bs = (of_runner st', t)" "length (rs_state st') = 8"
    by simp_all
qed

definition runner_fill :: "runner_sha256 \<Rightarrow> u8 list \<Rightarrow> runner_sha256 \<times> u8 list" where
  "runner_fill st bs =
     (if rs_buffer_len st \<noteq> 0 then
        let n = min (64 - rs_buffer_len st) (length bs);
            e = rs_buffer_len st + n;
            st = st\<lparr>rs_buffer := take (rs_buffer_len st) (rs_buffer st) @ take n bs @
                     drop e (rs_buffer st),
                   rs_buffer_len := e\<rparr>
        in if rs_buffer_len st = 64
           then ((runner_compress st (rs_buffer st))\<lparr>rs_buffer_len := 0\<rparr>, drop n bs)
           else (st, drop n bs)
      else (st, bs))"

lemma runner_update_fill:
  "runner_update st bs =
     (let (st, bs) = runner_fill
            (st\<lparr>rs_total_bytes := saturating_add_u128 (rs_total_bytes st) (word_of_nat (length bs))\<rparr>) bs;
          (st, bs) = runner_blocks st bs
      in if bs \<noteq> []
         then st\<lparr>rs_buffer := bs @ drop (length bs) (rs_buffer st), rs_buffer_len := length bs\<rparr>
         else st)"
  by (simp add: runner_update_def runner_fill_def Let_def)

lemma runner_fill_sim:
  assumes "length (rs_state st) = 8" and "runner_fill st bs = (st', t)"
  shows "fill_buffer (of_runner st) bs = (of_runner st', t)" and "length (rs_state st') = 8"
proof -
  have "fill_buffer (of_runner st) bs = (of_runner st', t) \<and> length (rs_state st') = 8"
    using assms
    by (auto simp: runner_fill_def fill_buffer_def Let_def runner_compress_sim split: if_splits)
  then show "fill_buffer (of_runner st) bs = (of_runner st', t)" "length (rs_state st') = 8"
    by simp_all
qed

lemma runner_update_sim:
  assumes "length (rs_state st) = 8"
  shows "of_runner (runner_update st bs) = update_bytes (of_runner st) bs"
    and "length (rs_state (runner_update st bs)) = 8"
proof -
  let ?st = "st\<lparr>rs_total_bytes := saturating_add_u128 (rs_total_bytes st) (word_of_nat (length bs))\<rparr>"
  obtain st1 b1 where f: "runner_fill ?st bs = (st1, b1)" by (cases "runner_fill ?st bs")
  obtain st2 b2 where b: "runner_blocks st1 b1 = (st2, b2)" by (cases "runner_blocks st1 b1")
  have f': "fill_buffer ((of_runner st)\<lparr>total_bytes := saturating_add_u128 (rs_total_bytes st)
      (word_of_nat (length bs))\<rparr>) bs = (of_runner st1, b1)" and l1: "length (rs_state st1) = 8"
    using runner_fill_sim [OF _ f] assms by simp_all
  note b' = runner_blocks_sim [OF l1 b]
  have u: "runner_update st bs =
      (if b2 \<noteq> [] then st2\<lparr>rs_buffer := b2 @ drop (length b2) (rs_buffer st2), rs_buffer_len := length b2\<rparr>
       else st2)"
    unfolding runner_update_fill f Let_def prod.case b ..
  show "length (rs_state (runner_update st bs)) = 8" using b'(2) by (simp add: u)
  show "of_runner (runner_update st bs) = update_bytes (of_runner st) bs"
    by (simp add: u update_bytes_def Let_def f' b'(1))
qed

lemma runner_finish_sim:
  assumes "length (rs_state st) = 8" and "length (rs_buffer st) = 64" and "rs_buffer_len st < 64"
  shows "runner_finish st = finalize (of_runner st)"
proof -
  have c: "rs_state (runner_compress s b) = state (compress (of_runner s) b)"
    if "length (rs_state s) = 8" for s b
    by (simp add: runner_compress_sim(1) [OF that, symmetric])
  have o: "of_runner (runner_compress s b) = compress (of_runner s) b"
    if "length (rs_state s) = 8" for s b
    using that by (rule runner_compress_sim(1))
  show ?thesis
  proof (cases "rs_buffer_len st < 56")
    case True
    then show ?thesis using assms
      by (simp add: runner_finish_def finalize_def Let_def c compress_def)
  next
    case False
    then show ?thesis using assms
      by (simp add: runner_finish_def finalize_def Let_def c o compress_def length_compress_block
          runner_compress_sim(2))
  qed
qed

subsection \<open>The contract of a content digest\<close>

text \<open>\<open>ContentDigest\<close>: a fresh state, updates, a result. \<open>holds m st\<close> says that \<open>st\<close> is what the
  bytes \<open>m\<close> lead to; messages stay below \<open>2 ^ 128\<close> bytes, the range of the byte counter.\<close>

locale content_digest =
  fixes create :: "'s"
    and feed :: "'s \<Rightarrow> u8 list \<Rightarrow> 's"
    and finish :: "'s \<Rightarrow> u8 list"
    and holds :: "u8 list \<Rightarrow> 's \<Rightarrow> bool"
    and spec :: "u8 list \<Rightarrow> u8 list"
  assumes holds_create: "holds [] create"
    and holds_feed: "holds m st \<Longrightarrow> length (m @ bs) < 2 ^ 128 \<Longrightarrow> holds (m @ bs) (feed st bs)"
    and finish_spec: "holds m st \<Longrightarrow> finish st = spec m"
begin

lemma holds_feeds:
  "holds m st \<Longrightarrow> length (m @ concat cs) < 2 ^ 128 \<Longrightarrow> holds (m @ concat cs) (foldl feed st cs)"
proof (induction cs arbitrary: m st)
  case (Cons c cs)
  have "length (m @ c) < 2 ^ 128" using Cons.prems(2) by (rule le_less_trans [rotated]) simp
  then have "holds (m @ c) (feed st c)" using Cons.prems(1) by (intro holds_feed)
  then have "holds ((m @ c) @ concat cs) (foldl feed (feed st c) cs)"
    using Cons.prems(2) by (intro Cons.IH) simp_all
  then show ?case by simp
qed simp

lemma finish_feeds: "length (concat cs) < 2 ^ 128 \<Longrightarrow> finish (foldl feed create cs) = spec (concat cs)"
  using holds_feeds [OF holds_create, of cs] by (simp add: finish_spec)

lemma chunking_irrelevant:
  "concat cs = concat ds \<Longrightarrow> length (concat cs) < 2 ^ 128 \<Longrightarrow>
    finish (foldl feed create cs) = finish (foldl feed create ds)"
  by (simp only: finish_feeds)

end

definition runner_absorbed :: "u8 list \<Rightarrow> runner_sha256 \<Rightarrow> bool" where
  "runner_absorbed m st \<longleftrightarrow> length (rs_state st) = 8 \<and> absorbed m (of_runner st)"

lemma runner_absorbed_finish: "runner_absorbed m st \<Longrightarrow> runner_finish st = fips_sha256 m"
  using runner_finish_sim [of st] absorbed_finalize [of m "of_runner st"]
  by (simp add: runner_absorbed_def absorbed_def)

interpretation loader: content_digest sha256_new update_bytes finalize absorbed fips_sha256
  by unfold_locales (fact absorbed_new absorbed_update absorbed_finalize)+

interpretation runner: content_digest runner_new runner_update runner_finish runner_absorbed fips_sha256
proof unfold_locales
  show "runner_absorbed [] runner_new"
    by (simp add: runner_absorbed_def absorbed_def runner_new_def absorb_short)
      (simp add: INITIAL_STATE_def)
  show "runner_absorbed (m @ bs) (runner_update st bs)"
    if "runner_absorbed m st" "length (m @ bs) < 2 ^ 128" for m st bs
    using that(1) absorbed_update [OF _ that(2), of "of_runner st"]
    by (simp only: runner_absorbed_def runner_update_sim)
qed (fact runner_absorbed_finish)

subsection \<open>Properties\<close>

text \<open>C19. The package loader's incremental hasher computes SHA-256. Whatever sequence of updates
  delivers a message, shorter than \<open>2 ^ 128\<close> bytes, \<open>finalize\<close> returns the digest that FIPS 180-4
  gives for the concatenated bytes: buffering, the two padding cases and the message schedule that is
  updated in place make no difference.\<close>

theorem loader_sha256_fips:
  assumes "length (concat updates) < 2 ^ 128"
  shows "finalize (foldl update_bytes sha256_new updates) = fips_sha256 (concat updates)"
  using assms by (rule loader.finish_feeds)

theorem loader_sha256_fips_witness:
  "finalize (foldl update_bytes sha256_new [str ''a'', [], str ''bc'']) = fips_sha256 (str ''abc'')"
  using loader_sha256_fips [of "[str ''a'', [], str ''bc'']"] by (simp add: str_def)

text \<open>C20. The constants of the hash are the ones the standard derives: the 64 round constants are
  the first 32 bits of the fractional parts of the cube roots of the first 64 primes, in order, and
  the initial state those of the square roots of the first eight.\<close>

theorem sha256_constants:
  "list_all2 (root_fraction 3) small_primes ROUND_CONSTANTS \<and>
   list_all2 (root_fraction 2) (take 8 small_primes) INITIAL_STATE"
proof
  show "list_all2 (root_fraction 3) small_primes ROUND_CONSTANTS"
    by (simp add: small_primes_def ROUND_CONSTANTS_def u32_lit_def root_fraction_def)
  show "list_all2 (root_fraction 2) (take 8 small_primes) INITIAL_STATE"
    by (simp add: small_primes_def INITIAL_STATE_def root_fraction_def)
qed

text \<open>C21. The hasher with which the test runner measures staged files and the hasher of the
  package loader agree on every message, however each of them receives it.\<close>

theorem runner_loader_equivalent:
  assumes "concat reads = concat updates" and "length (concat updates) < 2 ^ 128"
  shows "runner_finish (foldl runner_update runner_new reads) =
    finalize (foldl update_bytes sha256_new updates)"
  using runner.finish_feeds [of reads] loader.finish_feeds [of updates] assms by (simp only:)

theorem runner_loader_equivalent_witness:
  "runner_finish (foldl runner_update runner_new [str ''ab'', str ''c'']) =
    finalize (foldl update_bytes sha256_new [str ''abc''])"
  using runner_loader_equivalent [of "[str ''ab'', str ''c'']" "[str ''abc'']"] by (simp add: str_def)

lemma digest_reads_spec:
  "digest_reads st n (map Inr cs) =
     Inr (foldl runner_update st (takeWhile (\<lambda>c. c \<noteq> []) cs),
          foldl (\<lambda>n c. saturating_add_u64 n (word_of_nat (length c))) n (takeWhile (\<lambda>c. c \<noteq> []) cs))"
  by (induction cs arbitrary: st n) simp_all

lemma saturating_count:
  "unat n + length (concat cs) < 2 ^ 64 \<Longrightarrow>
    foldl (\<lambda>n c. saturating_add_u64 n (word_of_nat (length c))) n cs = n + word_of_nat (length (concat cs))"
proof (induction cs arbitrary: n)
  case (Cons c cs)
  have c: "unat (word_of_nat (length c) :: u64) = length c"
    using Cons.prems by (simp add: unat_of_nat take_bit_nat_eq_self)
  have "saturating_add_u64 n (word_of_nat (length c)) = n + word_of_nat (length c)"
    using Cons.prems by (simp add: saturating_add_u64_def c)
  moreover have "unat (n + word_of_nat (length c)) = unat n + length c"
    using Cons.prems by (simp add: unat_word_ariths c)
  ultimately show ?case using Cons by (simp add: add.assoc)
qed simp

text \<open>C22. Measuring a file: when opening and every read up to the end of the file succeed,
  \<open>digest_file\<close> returns the SHA-256 digest of the bytes read before the first empty read, together
  with their number, however the host cuts the file into reads.\<close>

theorem digest_file_measures:
  assumes "length (concat (takeWhile (\<lambda>c. c \<noteq> []) cs)) < 2 ^ 64"
  shows "digest_file (Inr (map Inr cs)) =
    Inr (fips_sha256 (concat (takeWhile (\<lambda>c. c \<noteq> []) cs)),
         word_of_nat (length (concat (takeWhile (\<lambda>c. c \<noteq> []) cs))))"
proof -
  let ?cs = "takeWhile (\<lambda>c. c \<noteq> []) cs"
  have "length (concat ?cs) < 2 ^ 128" using assms by (rule less_trans) simp
  then have "runner_finish (foldl runner_update runner_new ?cs) = fips_sha256 (concat ?cs)"
    by (rule runner.finish_feeds)
  with saturating_count [of 0 ?cs] assms show ?thesis
    by (simp only: digest_file_def digest_reads_spec sum.case prod.case unat_0 add_0)
qed

theorem digest_file_measures_witness:
  "digest_file (Inr (map Inr [str ''ab'', str ''c'', [], str ''d'']) :: string + (string + u8 list) list) =
    Inr (fips_sha256 (str ''abc''), 3)"
  using digest_file_measures [of "[str ''ab'', str ''c'', [], str ''d'']"] by (simp add: str_def)

end
