(* ===== verification/Comparators.thy ===== *)
theory Comparators
  imports Wrela_Prelude "HOL-Library.Multiset"
begin

text \<open>
  \<open>std::cmp::Ordering\<close> and the comparison functions of the toolchain. A comparison function is
  lawful for a key when it answers \<open>Equal\<close> exactly on equal keys, is antisymmetric and transitive
  (locale \<open>comparator_on\<close>). Under a lawful comparison, a sorted list whose elements of equal key keep
  their order is unique; \<open>sort_by\<close> is that list, and every sorting routine of the sources is compared
  with it.
\<close>

subsection \<open>Orderings\<close>

datatype ordering = Less | Equal | Greater

text \<open>\<open>Ordering::then_with\<close>, and \<open>Ord::cmp\<close> on integers, slices and options.\<close>

fun then_with :: "ordering \<Rightarrow> ordering \<Rightarrow> ordering" where
  "then_with Equal b = b"
| "then_with a b = a"

definition cmp_of :: "'a::linorder \<Rightarrow> 'a \<Rightarrow> ordering" where
  "cmp_of x y = (if x < y then Less else if x = y then Equal else Greater)"

fun slice_cmp :: "('a \<Rightarrow> 'a \<Rightarrow> ordering) \<Rightarrow> 'a list \<Rightarrow> 'a list \<Rightarrow> ordering" where
  "slice_cmp c [] [] = Equal"
| "slice_cmp c [] (y # ys) = Less"
| "slice_cmp c (x # xs) [] = Greater"
| "slice_cmp c (x # xs) (y # ys) = then_with (c x y) (slice_cmp c xs ys)"

fun option_cmp :: "('a \<Rightarrow> 'a \<Rightarrow> ordering) \<Rightarrow> 'a option \<Rightarrow> 'a option \<Rightarrow> ordering" where
  "option_cmp c None None = Equal"
| "option_cmp c None (Some y) = Less"
| "option_cmp c (Some x) None = Greater"
| "option_cmp c (Some x) (Some y) = c x y"

definition str_cmp :: "text_bytes \<Rightarrow> text_bytes \<Rightarrow> ordering" where
  "str_cmp = slice_cmp cmp_of"

text \<open>Insertion sort: what the standard library's sorts return under a lawful comparison.\<close>

fun insert_by :: "('a \<Rightarrow> 'a \<Rightarrow> ordering) \<Rightarrow> 'a \<Rightarrow> 'a list \<Rightarrow> 'a list" where
  "insert_by c x [] = [x]"
| "insert_by c x (y # ys) = (if c x y \<noteq> Greater then x # y # ys else y # insert_by c x ys)"

definition sort_by :: "('a \<Rightarrow> 'a \<Rightarrow> ordering) \<Rightarrow> 'a list \<Rightarrow> 'a list" where
  "sort_by c xs = foldr (insert_by c) xs []"

text \<open>\<open>merge_by\<close>: two runs merged, the left one first on ties.\<close>

fun merge_by :: "('a \<Rightarrow> 'a \<Rightarrow> ordering) \<Rightarrow> 'a list \<Rightarrow> 'a list \<Rightarrow> 'a list" where
  "merge_by c [] ys = ys"
| "merge_by c xs [] = xs"
| "merge_by c (x # xs) (y # ys) =
     (if c x y \<noteq> Greater then x # merge_by c xs (y # ys) else y # merge_by c (x # xs) ys)"

text \<open>\<open>slice::binary_search_by\<close>, as the standard library implements it.\<close>

function search_base :: "(nat \<Rightarrow> ordering) \<Rightarrow> nat \<Rightarrow> nat \<Rightarrow> nat" where
  "search_base f base n =
     (if n > 1 then
        let half = n div 2; mid = base + half
        in search_base f (if f mid = Greater then base else mid) (n - half)
      else base)"
  by pat_completeness auto
termination
  by (relation "measure (\<lambda>(f, base, n). n)") auto

declare search_base.simps [simp del]

definition binary_search_by :: "('a \<Rightarrow> ordering) \<Rightarrow> 'a list \<Rightarrow> nat option" where
  "binary_search_by f xs =
     (if xs = [] then None
      else let i = search_base (\<lambda>i. f (xs ! i)) 0 (length xs) in if f (xs ! i) = Equal then Some i else None)"

abbreviation ordered :: "('a \<Rightarrow> 'a \<Rightarrow> ordering) \<Rightarrow> 'a list \<Rightarrow> bool" where
  "ordered c \<equiv> sorted_wrt (\<lambda>x y. c x y \<noteq> Greater)"

lemma then_with_eq [simp]:
  "then_with a b = Equal \<longleftrightarrow> a = Equal \<and> b = Equal"
  "then_with a b = Less \<longleftrightarrow> a = Less \<or> a = Equal \<and> b = Less"
  "then_with a b = Greater \<longleftrightarrow> a = Greater \<or> a = Equal \<and> b = Greater"
  by (cases a; simp)+

lemma merge_by_Nil2 [simp]: "merge_by c xs [] = xs"
  by (cases xs) simp_all

lemma mset_insert_by [simp]: "mset (insert_by c x ys) = add_mset x (mset ys)"
  by (induction ys) auto

lemma mset_sort_by [simp]: "mset (sort_by c xs) = mset xs"
  by (induction xs) (simp_all add: sort_by_def)

lemma mset_merge_by [simp]: "mset (merge_by c xs ys) = mset xs + mset ys"
  by (induction c xs ys rule: merge_by.induct) simp_all

lemma length_merge_by [simp]: "length (merge_by c xs ys) = length xs + length ys"
  by (induction c xs ys rule: merge_by.induct) simp_all

lemma set_merge_by: "set (merge_by c xs ys) = set xs \<union> set ys"
  by (metis mset_merge_by set_mset_mset set_mset_union)

lemma set_insert_by: "set (insert_by c x ys) = insert x (set ys)"
  by (metis mset_insert_by set_mset_add_mset_insert set_mset_mset)

lemma set_sort_by [simp]: "set (sort_by c xs) = set xs"
  by (metis mset_sort_by set_mset_mset)

lemma length_sort_by [simp]: "length (sort_by c xs) = length xs"
  by (metis mset_sort_by size_mset)

lemma filter_eq_replicate: "filter (\<lambda>z. a = z) xs = replicate (count (mset xs) a) a"
  by (induction xs) auto

subsection \<open>Lawful comparisons\<close>

locale comparator_on =
  fixes cmp :: "'a \<Rightarrow> 'a \<Rightarrow> ordering"
    and key :: "'a \<Rightarrow> 'k"
  assumes equal: "cmp x y = Equal \<longleftrightarrow> key x = key y"
    and flip: "cmp x y = Greater \<longleftrightarrow> cmp y x = Less"
    and le_trans: "cmp x y \<noteq> Greater \<Longrightarrow> cmp y z \<noteq> Greater \<Longrightarrow> cmp x z \<noteq> Greater"
begin

lemma le_refl: "cmp x x \<noteq> Greater"
  using equal [of x x] by simp

lemma le_linear: "cmp x y = Greater \<Longrightarrow> cmp y x \<noteq> Greater"
  by (simp add: flip)

lemma le_antisym: "cmp x y \<noteq> Greater \<Longrightarrow> cmp y x \<noteq> Greater \<Longrightarrow> key x = key y"
  using equal [of x y] flip [of y x] by (metis ordering.exhaust)

lemma ordered_insert_by: "ordered cmp ys \<Longrightarrow> ordered cmp (insert_by cmp x ys)"
proof (induction ys)
  case (Cons y ys)
  show ?case
  proof (cases "cmp x y = Greater")
    case True
    then show ?thesis using Cons le_linear [OF True] by (auto simp: set_insert_by)
  next
    case False
    then show ?thesis using Cons.prems le_trans [OF False] by auto
  qed
qed simp

lemma ordered_sort_by: "ordered cmp (sort_by cmp xs)"
  by (induction xs) (simp_all add: sort_by_def ordered_insert_by)

lemma merge_induct:
  assumes "\<And>ys. P [] ys" and "\<And>x xs. P (x # xs) []"
    and "\<And>x xs y ys. (cmp x y \<noteq> Greater \<Longrightarrow> P xs (y # ys)) \<Longrightarrow> (cmp x y = Greater \<Longrightarrow> P (x # xs) ys) \<Longrightarrow>
      P (x # xs) (y # ys)"
  shows "P xs ys"
proof -
  have "c = cmp \<Longrightarrow> P xs ys" for c
    by (induction c xs ys rule: merge_by.induct) (auto intro: assms)
  then show ?thesis by simp
qed

lemma ordered_merge_by: "ordered cmp xs \<Longrightarrow> ordered cmp ys \<Longrightarrow> ordered cmp (merge_by cmp xs ys)"
proof (induction xs ys rule: merge_induct)
  case (3 x xs y ys)
  show ?case
  proof (cases "cmp x y = Greater")
    case True
    then have yx: "cmp y x \<noteq> Greater" by (rule le_linear)
    have "cmp y z \<noteq> Greater" if "z \<in> set xs" for z
      using yx by (rule le_trans) (use "3.prems" that in auto)
    with True yx 3 show ?thesis by (auto simp: set_merge_by)
  next
    case False
    have "cmp x z \<noteq> Greater" if "z \<in> set ys" for z
      using False by (rule le_trans) (use "3.prems" that in auto)
    with False 3 show ?thesis by (auto simp: set_merge_by)
  qed
qed simp_all

text \<open>Stability: elements of one key keep their order, the left run before the right one.\<close>

lemma filter_insert_by:
  "ordered cmp ys \<Longrightarrow>
    filter (\<lambda>z. key z = k) (insert_by cmp x ys) = filter (\<lambda>z. key z = k) (x # ys)"
proof (induction ys)
  case (Cons y ys)
  have "key x \<noteq> key y" if "cmp x y = Greater" using that equal [of x y] by auto
  with Cons show ?case by auto
qed simp

lemma filter_sort_by: "filter (\<lambda>z. key z = k) (sort_by cmp xs) = filter (\<lambda>z. key z = k) xs"
proof (induction xs)
  case (Cons x xs)
  have "sort_by cmp (x # xs) = insert_by cmp x (sort_by cmp xs)" by (simp add: sort_by_def)
  with Cons show ?case by (simp add: filter_insert_by ordered_sort_by)
qed (simp add: sort_by_def)

lemma filter_merge_by:
  "ordered cmp xs \<Longrightarrow>
    filter (\<lambda>z. key z = k) (merge_by cmp xs ys) = filter (\<lambda>z. key z = k) xs @ filter (\<lambda>z. key z = k) ys"
proof (induction xs ys rule: merge_induct)
  case (3 x xs y ys)
  show ?case
  proof (cases "cmp x y = Greater")
    case True
    have "key z \<noteq> key y" if z: "z \<in> set (x # xs)" for z
    proof
      assume "key z = key y"
      then have "cmp z y \<noteq> Greater" using equal [of z y] by simp
      moreover have "cmp x z \<noteq> Greater" using z "3.prems" le_refl by auto
      ultimately show False using True le_trans by blast
    qed
    then have "key y = k \<Longrightarrow> filter (\<lambda>z. key z = k) (x # xs) = []" by (auto simp: filter_empty_conv)
    with True 3 show ?thesis by auto
  qed (use 3 in auto)
qed simp_all

lemma stable_unique:
  assumes "ordered cmp xs" and "ordered cmp ys"
    and "\<And>k. filter (\<lambda>z. key z = k) xs = filter (\<lambda>z. key z = k) ys"
  shows "xs = ys"
  using assms
proof (induction xs arbitrary: ys)
  case Nil
  show ?case
  proof (cases ys)
    case (Cons y zs)
    with Nil.prems(3) [of "key y"] show ?thesis by simp
  qed simp
next
  case (Cons x xs)
  have "z \<in> set (x # xs) \<longleftrightarrow> z \<in> set ys" for z
  proof -
    have "z \<in> set (filter (\<lambda>w. key w = key z) (x # xs)) \<longleftrightarrow> z \<in> set (filter (\<lambda>w. key w = key z) ys)"
      by (simp only: Cons.prems(3))
    then show ?thesis by (auto split: if_splits)
  qed
  then have members: "set (x # xs) = set ys" by (rule set_eqI)
  then obtain y ys' where ys: "ys = y # ys'" by (cases ys) auto
  have "cmp x y \<noteq> Greater"
  proof -
    have "y \<in> set (x # xs)" using members ys by auto
    then show ?thesis using Cons.prems(1) le_refl by auto
  qed
  moreover have "cmp y x \<noteq> Greater"
  proof -
    have "x \<in> set (y # ys')" using members ys by auto
    then show ?thesis using Cons.prems(2) ys le_refl by auto
  qed
  ultimately have k: "key x = key y" by (rule le_antisym)
  with Cons.prems(3) [of "key x"] ys have x: "x = y" by simp
  have "xs = ys'"
  proof (rule Cons.IH)
    show "filter (\<lambda>z. key z = k) xs = filter (\<lambda>z. key z = k) ys'" for k
      using Cons.prems(3) [of k] ys x by (simp split: if_splits)
  qed (use Cons.prems ys in simp_all)
  with x ys show ?case by simp
qed

lemma stable_eq_sort_by:
  assumes "ordered cmp ys" and "\<And>k. filter (\<lambda>z. key z = k) ys = filter (\<lambda>z. key z = k) xs"
  shows "ys = sort_by cmp xs"
proof (rule stable_unique)
  show "filter (\<lambda>z. key z = k) ys = filter (\<lambda>z. key z = k) (sort_by cmp xs)" for k
    by (simp only: assms(2) filter_sort_by)
qed (fact assms(1) ordered_sort_by)+

lemma sort_by_ordered: "ordered cmp xs \<Longrightarrow> sort_by cmp xs = xs"
  by (rule sym, rule stable_eq_sort_by) simp_all

lemma merge_sort_by: "merge_by cmp (sort_by cmp xs) (sort_by cmp ys) = sort_by cmp (xs @ ys)"
proof (rule stable_eq_sort_by)
  show "ordered cmp (merge_by cmp (sort_by cmp xs) (sort_by cmp ys))"
    by (intro ordered_merge_by ordered_sort_by)
  show "filter (\<lambda>z. key z = k) (merge_by cmp (sort_by cmp xs) (sort_by cmp ys)) =
      filter (\<lambda>z. key z = k) (xs @ ys)" for k
    by (simp only: filter_merge_by [OF ordered_sort_by] filter_sort_by filter_append)
qed

text \<open>When the key determines the element, stability is no restriction: the sorted arrangement is
  unique.\<close>

lemma sorted_unique:
  assumes "inj key" and "ordered cmp ys" and "mset ys = mset xs"
  shows "ys = sort_by cmp xs"
proof (rule stable_eq_sort_by)
  show "filter (\<lambda>z. key z = k) ys = filter (\<lambda>z. key z = k) xs" for k
  proof (cases "\<exists>a. key a = k")
    case True
    then obtain a where a: "key a = k" ..
    have *: "(\<lambda>z. key z = k) = (\<lambda>z. a = z)" using a \<open>inj key\<close> by (auto simp: inj_eq)
    show ?thesis unfolding * filter_eq_replicate assms(3) ..
  next
    case False
    then have "key z \<noteq> k" for z by auto
    then show ?thesis by simp
  qed
qed (fact assms(2))

lemma less_trans: "cmp x y = Less \<Longrightarrow> cmp y z = Less \<Longrightarrow> cmp x z = Less"
proof -
  assume l: "cmp x y = Less" "cmp y z = Less"
  then have "cmp x z \<noteq> Greater" using le_trans [of x y z] by simp
  moreover have "cmp x z \<noteq> Equal"
  proof
    assume "cmp x z = Equal"
    then have "cmp z x = Equal" by (simp add: equal)
    then have "cmp y x \<noteq> Greater" using l(2) le_trans [of y z x] by simp
    with l(1) flip [of y x] show False by simp
  qed
  ultimately show ?thesis by (cases "cmp x z") simp_all
qed

lemma distinct_adjacent:
  assumes "inj key" and "ordered cmp xs"
  shows "distinct xs \<longleftrightarrow> (\<forall>i. Suc i < length xs \<longrightarrow> xs ! i \<noteq> xs ! Suc i)"
proof
  assume d: "\<forall>i. Suc i < length xs \<longrightarrow> xs ! i \<noteq> xs ! Suc i"
  have "transp (\<lambda>x y. cmp x y = Less)" using less_trans by (rule transpI)
  moreover have "cmp (xs ! i) (xs ! Suc i) = Less" if "Suc i < length xs" for i
  proof -
    have "cmp (xs ! i) (xs ! Suc i) \<noteq> Greater"
      using sorted_wrt_nth_less [OF assms(2), of i "Suc i"] that by simp
    moreover have "cmp (xs ! i) (xs ! Suc i) \<noteq> Equal"
      using d that \<open>inj key\<close> by (simp add: equal inj_eq)
    ultimately show ?thesis by (cases "cmp (xs ! i) (xs ! Suc i)") simp_all
  qed
  ultimately have "sorted_wrt (\<lambda>x y. cmp x y = Less) xs"
    by (simp add: sorted_wrt_iff_nth_Suc_transp)
  then have "xs ! i \<noteq> xs ! j" if "i < j" "j < length xs" for i j
    using sorted_wrt_nth_less [of _ xs i j] that equal [of "xs ! j" "xs ! j"] by fastforce
  then show "distinct xs"
    by (metis distinct_conv_nth nat_neq_iff)
qed (auto simp: distinct_conv_nth)

lemma sort_by_permutation: "inj key \<Longrightarrow> mset xs = mset ys \<Longrightarrow> sort_by cmp xs = sort_by cmp ys"
  by (rule sorted_unique) (simp_all add: ordered_sort_by)

end

subsection \<open>Comparisons built from comparisons\<close>

lemma comparator_cmp_of: "comparator_on cmp_of (\<lambda>x. x)"
  by unfold_locales (auto simp: cmp_of_def split: if_splits)

lemma comparator_key: "comparator_on c k \<Longrightarrow> comparator_on (\<lambda>x y. c (f x) (f y)) (\<lambda>x. k (f x))"
  unfolding comparator_on_def by blast

lemma then_with_trans:
  assumes c: "comparator_on c k" and d: "p \<noteq> Greater \<Longrightarrow> q \<noteq> Greater \<Longrightarrow> r \<noteq> Greater"
    and le: "then_with (c x y) p \<noteq> Greater" "then_with (c y z) q \<noteq> Greater"
  shows "then_with (c x z) r \<noteq> Greater"
proof (cases "c x z = Equal")
  case True
  note ceq = comparator_on.equal [OF c]
  have cle: "c x y \<noteq> Greater" "c y z \<noteq> Greater" using le by auto
  have "c y x \<noteq> Greater"
    using cle(2) comparator_on.le_trans [OF c, of y z x] True ceq [of z x] ceq [of x z] by simp
  with cle(1) have "k x = k y" by (rule comparator_on.le_antisym [OF c])
  with True have "c x y = Equal" "c y z = Equal" by (simp_all add: ceq)
  with le d True show ?thesis by simp
next
  case False
  then show ?thesis using le comparator_on.le_trans [OF c, of x y z] by auto
qed

lemma comparator_then_with:
  assumes c: "comparator_on c k" and d: "comparator_on d l"
  shows "comparator_on (\<lambda>x y. then_with (c x y) (d x y)) (\<lambda>x. (k x, l x))"
proof
  note ceq = comparator_on.equal [OF c] and deq = comparator_on.equal [OF d]
  show "then_with (c x y) (d x y) = Equal \<longleftrightarrow> (k x, l x) = (k y, l y)" for x y
    by (simp add: ceq deq)
  show "then_with (c x y) (d x y) = Greater \<longleftrightarrow> then_with (c y x) (d y x) = Less" for x y
    using ceq [of x y] ceq [of y x] comparator_on.flip [OF c, of x y] comparator_on.flip [OF d, of x y]
    by auto
  show "then_with (c x z) (d x z) \<noteq> Greater"
    if "then_with (c x y) (d x y) \<noteq> Greater" "then_with (c y z) (d y z) \<noteq> Greater" for x y z
    using c comparator_on.le_trans [OF d] that by (rule then_with_trans)
qed

lemma slice_cmp_laws:
  assumes c: "comparator_on c k"
  shows "slice_cmp c xs ys = Equal \<longleftrightarrow> map k xs = map k ys"
    and "slice_cmp c xs ys = Greater \<longleftrightarrow> slice_cmp c ys xs = Less"
proof -
  note ceq = comparator_on.equal [OF c] and cflip = comparator_on.flip [OF c]
  show "slice_cmp c xs ys = Equal \<longleftrightarrow> map k xs = map k ys"
  proof (induction xs arbitrary: ys)
    case Nil
    show ?case by (cases ys) simp_all
  next
    case (Cons x xs)
    then show ?case by (cases ys) (simp_all add: ceq)
  qed
  show "slice_cmp c xs ys = Greater \<longleftrightarrow> slice_cmp c ys xs = Less"
  proof (induction xs arbitrary: ys)
    case Nil
    show ?case by (cases ys) simp_all
  next
    case (Cons x xs)
    then show ?case by (cases ys) (auto simp: cflip ceq)
  qed
qed

lemma comparator_slice:
  assumes c: "comparator_on c k"
  shows "comparator_on (slice_cmp c) (map k)"
proof
  show "slice_cmp c xs ys = Equal \<longleftrightarrow> map k xs = map k ys" for xs ys
    using c by (rule slice_cmp_laws)
  show "slice_cmp c xs ys = Greater \<longleftrightarrow> slice_cmp c ys xs = Less" for xs ys
    using c by (rule slice_cmp_laws)
  show "slice_cmp c xs zs \<noteq> Greater" if "slice_cmp c xs ys \<noteq> Greater" "slice_cmp c ys zs \<noteq> Greater"
    for xs ys zs
    using that
  proof (induction xs arbitrary: ys zs)
    case Nil
    then show ?case by (cases zs) simp_all
  next
    case (Cons x xs)
    then obtain y ys' where ys: "ys = y # ys'" by (cases ys) auto
    then obtain z zs' where zs: "zs = z # zs'" using Cons.prems by (cases zs) auto
    have "slice_cmp c xs ys' \<noteq> Greater \<Longrightarrow> slice_cmp c ys' zs' \<noteq> Greater \<Longrightarrow> slice_cmp c xs zs' \<noteq> Greater"
      by (rule Cons.IH)
    from then_with_trans [OF c this] Cons.prems show ?case by (simp only: ys zs slice_cmp.simps)
  qed
qed

lemma comparator_option:
  assumes c: "comparator_on c k"
  shows "comparator_on (option_cmp c) (map_option k)"
proof
  note ceq = comparator_on.equal [OF c] and cflip = comparator_on.flip [OF c]
  show "option_cmp c x y = Equal \<longleftrightarrow> map_option k x = map_option k y" for x y
    by (cases x; cases y) (simp_all add: ceq)
  show "option_cmp c x y = Greater \<longleftrightarrow> option_cmp c y x = Less" for x y
    by (cases x; cases y) (simp_all add: cflip)
  show "option_cmp c x z \<noteq> Greater" if "option_cmp c x y \<noteq> Greater" "option_cmp c y z \<noteq> Greater" for x y z
  proof (cases "x = None \<or> y = None \<or> z = None")
    case True
    with that show ?thesis by (cases x; cases y; cases z) simp_all
  next
    case False
    then obtain a b d where "x = Some a" "y = Some b" "z = Some d" by auto
    with that comparator_on.le_trans [OF c, of a b d] show ?thesis by simp
  qed
qed

lemma comparator_str: "comparator_on str_cmp (\<lambda>x. x)"
  using comparator_slice [OF comparator_cmp_of] by (simp add: str_cmp_def)

lemma comparator_cong: "comparator_on c k \<Longrightarrow> (\<And>x y. k x = k y \<longleftrightarrow> l x = l y) \<Longrightarrow> comparator_on c l"
  unfolding comparator_on_def by blast

interpretation text_order: comparator_on str_cmp "\<lambda>x. x"
  by (rule comparator_str)

subsection \<open>Binary search\<close>

lemma search_base_spec:
  assumes mono: "\<And>i j. i < j \<Longrightarrow> j < m \<Longrightarrow> f i = Greater \<Longrightarrow> f j = Greater"
  shows "0 < n \<Longrightarrow> base + n \<le> m \<Longrightarrow> base = 0 \<or> f base \<noteq> Greater \<Longrightarrow>
    (\<forall>j. base + n \<le> j \<and> j < m \<longrightarrow> f j = Greater) \<Longrightarrow>
    (search_base f base n = 0 \<or> f (search_base f base n) \<noteq> Greater) \<and> search_base f base n < m \<and>
    (\<forall>j. search_base f base n < j \<and> j < m \<longrightarrow> f j = Greater)"
proof (induction n arbitrary: base rule: less_induct)
  case (less n)
  let ?h = "n div 2"
  consider "n = 1" | "n > 1" "f (base + ?h) = Greater" | "n > 1" "f (base + ?h) \<noteq> Greater"
    using less.prems(1) by linarith
  then show ?case
  proof cases
    case 1
    then have "search_base f base n = base" by (subst search_base.simps) simp
    with less.prems 1 show ?thesis by (simp add: Suc_le_eq)
  next
    case 2
    have step: "search_base f base n = search_base f base (n - ?h)"
      using 2 by (subst search_base.simps) (simp add: Let_def)
    have "f j = Greater" if "base + (n - ?h) \<le> j" "j < m" for j
    proof (cases "j = base + ?h")
      case False
      then have "base + ?h < j" using that(1) by linarith
      then show ?thesis using mono that(2) 2(2) by blast
    qed (simp add: 2)
    then show ?thesis unfolding step
      by (intro less.IH) (use 2 less.prems in auto)
  next
    case 3
    have step: "search_base f base n = search_base f (base + ?h) (n - ?h)"
      using 3 by (subst search_base.simps) (simp add: Let_def)
    show ?thesis unfolding step
      by (intro less.IH) (use 3 less.prems in auto)
  qed
qed

text \<open>On a list in order the search finds an element the probe accepts whenever there is one.\<close>

lemma binary_search_by_exact:
  assumes "sorted_wrt (\<lambda>x y. (f x = Greater \<longrightarrow> f y = Greater) \<and> (f y = Less \<longrightarrow> f x = Less)) xs"
  shows "(binary_search_by f xs = None \<longleftrightarrow> (\<forall>x \<in> set xs. f x \<noteq> Equal)) \<and>
    (\<forall>i. binary_search_by f xs = Some i \<longrightarrow> i < length xs \<and> f (xs ! i) = Equal)"
proof (cases "xs = []")
  case False
  let ?g = "\<lambda>i. f (xs ! i)" and ?b = "search_base (\<lambda>i. f (xs ! i)) 0 (length xs)"
  have mono: "?g i = Greater \<Longrightarrow> ?g j = Greater" "?g j = Less \<Longrightarrow> ?g i = Less"
    if "i < j" "j < length xs" for i j
    using sorted_wrt_nth_less [OF assms that] by auto
  have b: "?b = 0 \<or> ?g ?b \<noteq> Greater" "?b < length xs" "\<forall>j. ?b < j \<and> j < length xs \<longrightarrow> ?g j = Greater"
  proof -
    have "\<forall>j. 0 + length xs \<le> j \<and> j < length xs \<longrightarrow> ?g j = Greater" by auto
    with search_base_spec [of "length xs" ?g "length xs" 0] mono(1) False
    show "?b = 0 \<or> ?g ?b \<noteq> Greater" "?b < length xs"
      "\<forall>j. ?b < j \<and> j < length xs \<longrightarrow> ?g j = Greater" by simp_all
  qed
  have "?g ?b = Equal" if x: "x \<in> set xs" "f x = Equal" for x
  proof -
    obtain i where i: "i < length xs" "?g i = Equal" using x by (auto simp: in_set_conv_nth)
    then have "\<not> ?b < i" using b(3) by auto
    then consider "i = ?b" | "i < ?b" by linarith
    then show ?thesis
    proof cases
      case 2
      then have "?g ?b \<noteq> Less" "?g ?b \<noteq> Greater" using mono(2) [OF 2 b(2)] i(2) b(1) by auto
      then show ?thesis by (cases "?g ?b") simp_all
    qed (use i in simp)
  qed
  with b(2) False show ?thesis by (auto simp: binary_search_by_def Let_def)
qed (simp add: binary_search_by_def)

end
