(* ===== verification/Run_Sort.thy ===== *)
theory Run_Sort
  imports Comparators
begin

text \<open>
  The merge sort with which diagnostics and lint findings are canonicalised: the input is cut into
  runs of at most 256 records, each run is sorted by the standard library, and neighbouring runs are
  merged until one is left. Every allocation may fail and cancellation is polled between records; the
  two callers differ only in the errors they return at these points, which are parameters here.
\<close>

record 'e sort_errors =
  on_cancelled :: 'e
  on_runs :: 'e
  on_run :: 'e
  on_merged_runs :: 'e
  on_merge :: 'e
  on_empty :: 'e

definition RUN_RECORDS :: nat where "RUN_RECORDS = 256"

fun merge_records :: "'e \<Rightarrow> ('a \<Rightarrow> 'a \<Rightarrow> ordering) \<Rightarrow> 'a list \<Rightarrow> 'a list \<Rightarrow> 'a list \<Rightarrow> ('e, 'a list) comp" where
  "merge_records e c [] [] merged = ok merged"
| "merge_records e c (x # xs) [] merged =
     and_then (ask e) (\<lambda>_. merge_records e c xs [] (merged @ [x]))"
| "merge_records e c [] (y # ys) merged =
     and_then (ask e) (\<lambda>_. merge_records e c [] ys (merged @ [y]))"
| "merge_records e c (x # xs) (y # ys) merged =
     and_then (ask e) (\<lambda>_.
       if c x y \<noteq> Greater then merge_records e c xs (y # ys) (merged @ [x])
       else merge_records e c (x # xs) ys (merged @ [y]))"

definition merge_runs ::
  "'e sort_errors \<Rightarrow> ('a \<Rightarrow> 'a \<Rightarrow> ordering) \<Rightarrow> 'a list \<Rightarrow> 'a list \<Rightarrow> ('e, 'a list) comp" where
  "merge_runs es c left right =
     and_then (or_err (checked_add_usize (length left) (length right)) (on_merge es)) (\<lambda>_.
     and_then (ask (on_merge es)) (\<lambda>_.
       merge_records (on_cancelled es) c left right []))"

function cut_runs ::
  "'e sort_errors \<Rightarrow> ('a \<Rightarrow> 'a \<Rightarrow> ordering) \<Rightarrow> 'a list \<Rightarrow> nat \<Rightarrow> 'a list list \<Rightarrow> ('e, 'a list list) comp" where
  "cut_runs es c ds remaining runs =
     and_then (ask (on_cancelled es)) (\<lambda>_.
     and_then (ask (on_run es)) (\<lambda>_.
       let n = min remaining RUN_RECORDS; run = take n ds
       in if run = [] then ok runs
          else cut_runs es c (drop n ds) (remaining - length run) (runs @ [sort_by c run])))"
  by pat_completeness auto
termination
  by (relation "measure (\<lambda>(es, c, ds, remaining, runs). length ds)") auto

fun merge_pairs ::
  "'e sort_errors \<Rightarrow> ('a \<Rightarrow> 'a \<Rightarrow> ordering) \<Rightarrow> 'a list list \<Rightarrow> 'a list list \<Rightarrow> ('e, 'a list list) comp" where
  "merge_pairs es c [] merged = ok merged"
| "merge_pairs es c [left] merged = and_then (ask (on_cancelled es)) (\<lambda>_. ok (merged @ [left]))"
| "merge_pairs es c (left # right # runs) merged =
     and_then (ask (on_cancelled es)) (\<lambda>_.
     and_then (merge_runs es c left right) (\<lambda>m.
       merge_pairs es c runs (merged @ [m])))"

lemma merge_pairs_length:
  "outcome (merge_pairs es c runs merged) = Inr rs \<Longrightarrow>
    length rs = length merged + (length runs + 1) div 2"
  by (induction es c runs merged rule: merge_pairs.induct) (auto split: sum.splits)

function merge_levels ::
  "'e sort_errors \<Rightarrow> ('a \<Rightarrow> 'a \<Rightarrow> ordering) \<Rightarrow> 'a list list \<Rightarrow> ('e, 'a list list) comp" where
  "merge_levels es c runs =
     (if length runs > 1 then
        and_then (ask (on_cancelled es)) (\<lambda>_.
        and_then (ask (on_merged_runs es)) (\<lambda>_.
        and_then (merge_pairs es c runs []) (merge_levels es c)))
      else ok runs)"
  by pat_completeness auto
termination
  by (relation "measure (\<lambda>(es, c, runs). length runs)") (auto dest!: merge_pairs_length)

declare cut_runs.simps [simp del] merge_levels.simps [simp del]

definition run_sort :: "'e sort_errors \<Rightarrow> ('a \<Rightarrow> 'a \<Rightarrow> ordering) \<Rightarrow> 'a list \<Rightarrow> ('e, 'a list) comp" where
  "run_sort es c ds =
     and_then (ask (on_cancelled es)) (\<lambda>_.
       if length ds \<le> 1 then ok ds
       else if length ds \<le> RUN_RECORDS
       then and_then (ask (on_cancelled es)) (\<lambda>_. ok (sort_by c ds))
       else
         and_then (ask (on_runs es)) (\<lambda>_.
         and_then (cut_runs es c ds (length ds) []) (\<lambda>runs.
         and_then (merge_levels es c runs) (\<lambda>runs.
         and_then (ask (on_cancelled es)) (\<lambda>_.
           or_err (if runs = [] then None else Some (last runs)) (on_empty es))))))"

subsection \<open>The result\<close>

lemma merge_records_outcome: "outcome (merge_records e c xs ys merged) = Inr (merged @ merge_by c xs ys)"
  by (induction e c xs ys merged rule: merge_records.induct) simp_all

lemma merge_runs_outcome:
  "length xs + length ys < usize_limit \<Longrightarrow> outcome (merge_runs es c xs ys) = Inr (merge_by c xs ys)"
  by (simp add: merge_runs_def checked_add_usize_def merge_records_outcome)

lemma cut_runs_outcome:
  "remaining = length ds \<Longrightarrow>
    outcome (cut_runs es c ds remaining runs) = Inr (runs @ map (sort_by c) (chunks RUN_RECORDS ds))"
proof (induction es c ds remaining runs rule: cut_runs.induct)
  case (1 es c ds remaining runs)
  show ?case
  proof (cases "ds = []")
    case False
    then have "take (min remaining RUN_RECORDS) ds = take RUN_RECORDS ds"
      "drop (min remaining RUN_RECORDS) ds = drop RUN_RECORDS ds"
      "remaining - length (take RUN_RECORDS ds) = length (drop RUN_RECORDS ds)"
      using 1(2) by (auto simp: min_def)
    with 1 False show ?thesis
      by (subst cut_runs.simps) (simp add: Let_def chunks_step RUN_RECORDS_def)
  qed (simp add: cut_runs.simps)
qed

fun join_pairs :: "'a list list \<Rightarrow> 'a list list" where
  "join_pairs (x # y # zs) = (x @ y) # join_pairs zs"
| "join_pairs zs = zs"

lemma concat_join_pairs [simp]: "concat (join_pairs xss) = concat xss"
  by (induction xss rule: join_pairs.induct) simp_all

lemma length_join_pairs: "length (join_pairs xss) = (length xss + 1) div 2"
  by (induction xss rule: join_pairs.induct) simp_all

lemma merge_pairs_outcome:
  assumes "comparator_on c key"
  shows "length (concat xss) < usize_limit \<Longrightarrow>
    outcome (merge_pairs es c (map (sort_by c) xss) merged) =
      Inr (merged @ map (sort_by c) (join_pairs xss))"
proof (induction xss arbitrary: merged rule: join_pairs.induct)
  case (1 x y zs)
  have "outcome (merge_runs es c (sort_by c x) (sort_by c y)) = Inr (sort_by c (x @ y))"
    using 1 by (simp add: merge_runs_outcome comparator_on.merge_sort_by [OF assms])
  with 1 show ?case by simp
qed simp_all

lemma merge_levels_outcome:
  assumes "comparator_on c key"
  shows "xss \<noteq> [] \<Longrightarrow> length (concat xss) < usize_limit \<Longrightarrow>
    outcome (merge_levels es c (map (sort_by c) xss)) = Inr [sort_by c (concat xss)]"
proof (induction "length xss" arbitrary: xss rule: less_induct)
  case less
  show ?case
  proof (cases "length xss > 1")
    case True
    then have "length (join_pairs xss) < length xss" "join_pairs xss \<noteq> []"
      using length_join_pairs [of xss] by auto
    with less True show ?thesis
      by (subst merge_levels.simps) (simp add: merge_pairs_outcome [OF assms])
  next
    case False
    with less.prems obtain x where "xss = [x]" by (cases xss) auto
    then show ?thesis by (simp add: merge_levels.simps)
  qed
qed

theorem run_sort_outcome:
  assumes c: "comparator_on c key" and "length ds < usize_limit"
  shows "outcome (run_sort es c ds) = Inr (sort_by c ds)"
proof (cases "length ds \<le> RUN_RECORDS")
  case True
  have "length ds \<le> 1 \<Longrightarrow> sort_by c ds = ds"
    by (cases ds) (simp_all add: sort_by_def)
  with True show ?thesis by (simp add: run_sort_def)
next
  case False
  let ?xss = "chunks RUN_RECORDS ds"
  have pos: "0 < RUN_RECORDS" by (simp add: RUN_RECORDS_def)
  then have concat: "concat ?xss = ds" by (rule concat_chunks)
  have "?xss \<noteq> []" using False concat by auto
  then have "outcome (merge_levels es c (map (sort_by c) ?xss)) = Inr [sort_by c ds]"
    using merge_levels_outcome [OF c, of ?xss es] assms(2) by (simp add: concat)
  moreover have "1 < length ds" using False by (simp add: RUN_RECORDS_def)
  ultimately show ?thesis using False
    by (simp add: run_sort_def cut_runs_outcome)
qed

end
