(* ===== verification/Diagnostics.thy ===== *)
theory Diagnostics
  imports Run_Sort Source
begin

text \<open>
  Structured diagnostics (\<open>crates/wrela-diagnostics\<close>): the records, their total order over every
  public field, and canonicalisation. The order is lawful for the identity key, so canonical output is
  a function of the multiset of diagnostics alone.
\<close>

subsection \<open>Data\<close>

datatype category = Category (category_as_str: text_bytes)

definition SYNTAX :: category where "SYNTAX = Category (str ''syntax'')"
definition PACKAGE :: category where "PACKAGE = Category (str ''package'')"
definition NAME :: category where "NAME = Category (str ''name'')"
definition TYPE_CATEGORY :: category where "TYPE_CATEGORY = Category (str ''type'')"
definition EFFECT :: category where "EFFECT = Category (str ''effect'')"
definition OWNERSHIP :: category where "OWNERSHIP = Category (str ''ownership'')"
definition REGION :: category where "REGION = Category (str ''region'')"
definition ACTOR :: category where "ACTOR = Category (str ''actor'')"
definition ASYNC :: category where "ASYNC = Category (str ''async'')"
definition CAPACITY :: category where "CAPACITY = Category (str ''capacity'')"
definition HARDWARE :: category where "HARDWARE = Category (str ''hardware'')"
definition COMPTIME :: category where "COMPTIME = Category (str ''comptime'')"
definition IMAGE :: category where "IMAGE = Category (str ''image'')"
definition TARGET :: category where "TARGET = Category (str ''target'')"
definition PROFILE :: category where "PROFILE = Category (str ''profile'')"
definition DMA :: category where "DMA = Category (str ''dma'')"

datatype severity = Error | Warning

record label =
  label_span :: span
  label_message :: text_bytes

datatype applicability = MachineApplicable | MaybeIncorrect | RequiresReview

record source_edit =
  edit_span :: span
  replacement :: text_bytes

record repair =
  repair_message :: text_bytes
  applicability_of :: applicability
  edits :: "source_edit list"

record related_diagnostic =
  related_span :: span
  related_message :: text_bytes

record diagnostic =
  category :: category
  code :: "text_bytes option"
  severity_of :: severity
  primary :: span
  message :: text_bytes
  labels :: "label list"
  notes_of :: "text_bytes list"
  help_of :: "text_bytes list"
  related :: "related_diagnostic list"
  repairs :: "repair list"

definition diagnostic_error :: "category \<Rightarrow> span \<Rightarrow> text_bytes \<Rightarrow> diagnostic" where
  "diagnostic_error cat p msg = \<lparr>category = cat, code = None, severity_of = Error, primary = p,
     message = msg, labels = [], notes_of = [], help_of = [], related = [], repairs = []\<rparr>"

record 'v with_diagnostics =
  value_of :: 'v
  diagnostics :: "diagnostic list"

definition clean :: "'v \<Rightarrow> 'v with_diagnostics" where
  "clean v = \<lparr>value_of = v, diagnostics = []\<rparr>"

definition has_errors :: "'v with_diagnostics \<Rightarrow> bool" where
  "has_errors w = list_ex (\<lambda>d. severity_of d = Error) (diagnostics w)"

subsection \<open>The order\<close>

fun compare_pairs :: "('a \<Rightarrow> 'a \<Rightarrow> ordering) \<Rightarrow> ('a \<times> 'a) list \<Rightarrow> ordering option" where
  "compare_pairs c [] = None"
| "compare_pairs c ((l, r) # ps) = (if c l r \<noteq> Equal then Some (c l r) else compare_pairs c ps)"

definition compare_slices :: "('a \<Rightarrow> 'a \<Rightarrow> ordering) \<Rightarrow> 'a list \<Rightarrow> 'a list \<Rightarrow> ordering" where
  "compare_slices c l r =
     (case compare_pairs c (zip l r) of Some d \<Rightarrow> d | None \<Rightarrow> cmp_of (length l) (length r))"

definition compare_span :: "span \<Rightarrow> span \<Rightarrow> ordering" where
  "compare_span l r =
     then_with (cmp_of (span_file l) (span_file r))
       (then_with (cmp_of (start (span_range l)) (start (span_range r)))
         (cmp_of (range_end (span_range l)) (range_end (span_range r))))"

fun severity_rank :: "severity \<Rightarrow> u8" where
  "severity_rank Error = 0"
| "severity_rank Warning = 1"

fun applicability_rank :: "applicability \<Rightarrow> u8" where
  "applicability_rank MachineApplicable = 0"
| "applicability_rank MaybeIncorrect = 1"
| "applicability_rank RequiresReview = 2"

definition compare_label :: "label \<Rightarrow> label \<Rightarrow> ordering" where
  "compare_label l r = then_with (compare_span (label_span l) (label_span r))
     (str_cmp (label_message l) (label_message r))"

definition compare_related :: "related_diagnostic \<Rightarrow> related_diagnostic \<Rightarrow> ordering" where
  "compare_related l r = then_with (compare_span (related_span l) (related_span r))
     (str_cmp (related_message l) (related_message r))"

definition compare_edit :: "source_edit \<Rightarrow> source_edit \<Rightarrow> ordering" where
  "compare_edit l r = then_with (compare_span (edit_span l) (edit_span r))
     (str_cmp (replacement l) (replacement r))"

definition compare_repair :: "repair \<Rightarrow> repair \<Rightarrow> ordering" where
  "compare_repair l r =
     then_with (str_cmp (repair_message l) (repair_message r))
      (then_with (cmp_of (applicability_rank (applicability_of l)) (applicability_rank (applicability_of r)))
       (compare_slices compare_edit (edits l) (edits r)))"

definition compare_diagnostics :: "diagnostic \<Rightarrow> diagnostic \<Rightarrow> ordering" where
  "compare_diagnostics l r =
     then_with (str_cmp (category_as_str (category l)) (category_as_str (category r)))
      (then_with (cmp_of (severity_rank (severity_of l)) (severity_rank (severity_of r)))
      (then_with (compare_span (primary l) (primary r))
      (then_with (str_cmp (message l) (message r))
      (then_with (option_cmp str_cmp (code l) (code r))
      (then_with (compare_slices compare_label (labels l) (labels r))
      (then_with (slice_cmp str_cmp (notes_of l) (notes_of r))
      (then_with (slice_cmp str_cmp (help_of l) (help_of r))
      (then_with (compare_slices compare_related (related l) (related r))
       (compare_slices compare_repair (repairs l) (repairs r))))))))))"

definition sort_diagnostics :: "'v with_diagnostics \<Rightarrow> 'v with_diagnostics" where
  "sort_diagnostics w = w\<lparr>diagnostics := sort_by compare_diagnostics (diagnostics w)\<rparr>"

subsection \<open>Canonicalisation\<close>

datatype diagnostic_sort_error = Cancelled | Allocation

definition diagnostic_errors :: "diagnostic_sort_error sort_errors" where
  "diagnostic_errors = \<lparr>on_cancelled = Cancelled, on_runs = Allocation, on_run = Allocation,
     on_merged_runs = Allocation, on_merge = Allocation, on_empty = Allocation\<rparr>"

definition merge_diagnostic_runs ::
  "diagnostic list \<Rightarrow> diagnostic list \<Rightarrow> (diagnostic_sort_error, diagnostic list) comp" where
  "merge_diagnostic_runs = merge_runs diagnostic_errors compare_diagnostics"

definition canonicalize_diagnostics ::
  "diagnostic list \<Rightarrow> (diagnostic_sort_error, diagnostic list) comp" where
  "canonicalize_diagnostics = run_sort diagnostic_errors compare_diagnostics"

subsection \<open>The order is lawful\<close>

lemma cmp_of_Suc [simp]: "cmp_of (Suc a) (Suc b) = cmp_of a b"
  by (simp add: cmp_of_def)

lemma compare_slices_eq: "compare_slices c l r = slice_cmp c l r"
proof (induction l arbitrary: r)
  case Nil
  show ?case by (cases r) (simp_all add: compare_slices_def cmp_of_def)
next
  case (Cons x l)
  show ?case
  proof (cases r)
    case r: (Cons y r')
    have "c x y \<noteq> Equal \<Longrightarrow> then_with (c x y) z = c x y" for z by (cases "c x y") simp_all
    with Cons [of r'] r show ?thesis
      by (cases "compare_pairs c (zip l r')") (simp_all add: compare_slices_def)
  qed (simp add: compare_slices_def cmp_of_def)
qed

lemmas text_field_cmp = comparator_key [OF comparator_str]
lemmas word_field_cmp = comparator_key [OF comparator_cmp_of]

lemma comparator_span: "comparator_on compare_span (\<lambda>s. s)"
proof -
  have "comparator_on compare_span
      (\<lambda>s. (span_file s, start (span_range s), range_end (span_range s)))"
    unfolding compare_span_def [abs_def]
    by (intro comparator_then_with word_field_cmp)
  then show ?thesis by (rule comparator_cong) auto
qed

lemmas span_field_cmp = comparator_key [OF comparator_span]

lemma comparator_label: "comparator_on compare_label (\<lambda>x. x)"
proof -
  have "comparator_on compare_label (\<lambda>x. (label_span x, label_message x))"
    unfolding compare_label_def [abs_def] by (intro comparator_then_with span_field_cmp text_field_cmp)
  then show ?thesis by (rule comparator_cong) auto
qed

lemma comparator_related: "comparator_on compare_related (\<lambda>x. x)"
proof -
  have "comparator_on compare_related (\<lambda>x. (related_span x, related_message x))"
    unfolding compare_related_def [abs_def] by (intro comparator_then_with span_field_cmp text_field_cmp)
  then show ?thesis by (rule comparator_cong) auto
qed

lemma comparator_edit: "comparator_on compare_edit (\<lambda>x. x)"
proof -
  have "comparator_on compare_edit (\<lambda>x. (edit_span x, replacement x))"
    unfolding compare_edit_def [abs_def] by (intro comparator_then_with span_field_cmp text_field_cmp)
  then show ?thesis by (rule comparator_cong) auto
qed

lemma ranks_inj:
  "severity_rank a = severity_rank b \<longleftrightarrow> a = b"
  "applicability_rank p = applicability_rank q \<longleftrightarrow> p = q"
  by (cases a; cases b; simp) (cases p; cases q; simp)

lemma comparator_slices: "comparator_on c (\<lambda>x. x) \<Longrightarrow> comparator_on (compare_slices c) (\<lambda>x. x)"
  using comparator_slice [of c "\<lambda>x. x"] by (simp add: compare_slices_eq [abs_def])

lemma comparator_slice_id: "comparator_on c (\<lambda>x. x) \<Longrightarrow> comparator_on (slice_cmp c) (\<lambda>x. x)"
  using comparator_slice [of c "\<lambda>x. x"] by simp

lemma comparator_option_id: "comparator_on c (\<lambda>x. x) \<Longrightarrow> comparator_on (option_cmp c) (\<lambda>x. x)"
proof (rule comparator_cong [OF comparator_option])
  show "map_option (\<lambda>x. x) x = map_option (\<lambda>x. x) y \<longleftrightarrow> x = y" for x y :: "'a option"
    by (cases x; cases y) simp_all
qed

lemma comparator_repair: "comparator_on compare_repair (\<lambda>x. x)"
proof -
  have "comparator_on compare_repair
      (\<lambda>x. (repair_message x, applicability_rank (applicability_of x), edits x))"
    unfolding compare_repair_def [abs_def]
    by (intro comparator_then_with text_field_cmp word_field_cmp
        comparator_key [OF comparator_slices [OF comparator_edit]])
  then show ?thesis by (rule comparator_cong) (auto simp: ranks_inj)
qed

lemma comparator_diagnostics: "comparator_on compare_diagnostics (\<lambda>d. d)"
proof -
  have "comparator_on compare_diagnostics
      (\<lambda>d. (category_as_str (category d), severity_rank (severity_of d), primary d, message d, code d,
        labels d, notes_of d, help_of d, related d, repairs d))"
    unfolding compare_diagnostics_def [abs_def]
    by (intro comparator_then_with text_field_cmp word_field_cmp span_field_cmp
        comparator_key [OF comparator_option_id [OF comparator_str]]
        comparator_key [OF comparator_slice_id [OF comparator_str]]
        comparator_key [OF comparator_slices [OF comparator_label]]
        comparator_key [OF comparator_slices [OF comparator_related]]
        comparator_key [OF comparator_slices [OF comparator_repair]])
  then show ?thesis by (rule comparator_cong) (auto simp: ranks_inj category.expand)
qed

interpretation diagnostic_order: comparator_on compare_diagnostics "\<lambda>d. d"
  by (rule comparator_diagnostics)

subsection \<open>Properties\<close>

text \<open>C32. \<open>compare_diagnostics\<close> is a total order over every public field: it answers \<open>Equal\<close> only for
  identical diagnostics, exchanging the arguments reverses the answer, and it is transitive.\<close>

theorem compare_diagnostics_total_order:
  "(compare_diagnostics a b = Equal \<longleftrightarrow> a = b) \<and>
   (compare_diagnostics a b = Greater \<longleftrightarrow> compare_diagnostics b a = Less) \<and>
   (compare_diagnostics a b = Less \<and> compare_diagnostics b c = Less \<longrightarrow> compare_diagnostics a c = Less)"
proof -
  have "compare_diagnostics a c = Less" if "compare_diagnostics a b = Less" "compare_diagnostics b c = Less"
  proof -
    have "compare_diagnostics a c \<noteq> Greater" using diagnostic_order.le_trans [of a b c] that by simp
    moreover have "a \<noteq> c" using that diagnostic_order.flip [of a b] by auto
    ultimately show ?thesis using diagnostic_order.equal [of a c] ordering.exhaust by blast
  qed
  then show ?thesis by (simp add: diagnostic_order.equal diagnostic_order.flip)
qed

definition sample :: "u8 \<Rightarrow> diagnostic" where
  "sample b = diagnostic_error SYNTAX \<lparr>span_file = 0, span_range = \<lparr>start = 0, range_end = 1\<rparr>\<rparr> [b]"

lemma sample_less: "compare_diagnostics (sample 1) (sample 2) = Less" "compare_diagnostics (sample 2) (sample 3) = Less"
  by (simp_all add: compare_diagnostics_def sample_def diagnostic_error_def compare_span_def cmp_of_def
      str_cmp_def SYNTAX_def str_def)

theorem compare_diagnostics_total_order_witness:
  "compare_diagnostics (sample 1) (sample 2) = Less \<and> compare_diagnostics (sample 1) (sample 3) = Less"
  using compare_diagnostics_total_order [of "sample 1" "sample 2" "sample 3"] sample_less by simp

text \<open>C31. Canonicalisation returns the one sorted arrangement of its input. A host that lets it run
  gets a list exactly when that list is in order and has the same diagnostics with the same
  multiplicities, so the output does not depend on the order in which phases reported them, and it is
  what \<open>sort_diagnostics\<close> produces; a host that interferes gets this list or an error.\<close>

theorem canonicalize_diagnostics_exact:
  assumes "length ds < usize_limit"
  shows "(exec (\<lambda>_. False) (canonicalize_diagnostics ds) = Inr xs \<longleftrightarrow>
      sorted_wrt (\<lambda>a b. compare_diagnostics a b \<noteq> Greater) xs \<and> mset xs = mset ds) \<and>
    exec h (canonicalize_diagnostics ds) \<in> {Inl Cancelled, Inl Allocation,
      Inr (diagnostics (sort_diagnostics \<lparr>value_of = v, diagnostics = ds\<rparr>))}"
proof
  let ?s = "sort_by compare_diagnostics ds"
  have run: "outcome (canonicalize_diagnostics ds) = Inr ?s"
    unfolding canonicalize_diagnostics_def using comparator_diagnostics assms by (rule run_sort_outcome)
  have "xs = ?s \<longleftrightarrow> ordered compare_diagnostics xs \<and> mset xs = mset ds"
    using diagnostic_order.sorted_unique [of xs ds] diagnostic_order.ordered_sort_by [of ds] by auto
  then show "exec (\<lambda>_. False) (canonicalize_diagnostics ds) = Inr xs \<longleftrightarrow>
      ordered compare_diagnostics xs \<and> mset xs = mset ds"
    unfolding exec_quiet run by auto
  have "exec h (canonicalize_diagnostics ds) = Inr ?s \<or> (\<exists>e. exec h (canonicalize_diagnostics ds) = Inl e)"
    using exec_cases [of h "canonicalize_diagnostics ds"] run by auto
  then show "exec h (canonicalize_diagnostics ds) \<in> {Inl Cancelled, Inl Allocation,
      Inr (diagnostics (sort_diagnostics \<lparr>value_of = v, diagnostics = ds\<rparr>))}"
    by (auto simp: sort_diagnostics_def) (metis diagnostic_sort_error.exhaust)
qed

theorem canonicalize_diagnostics_exact_witness:
  "exec (\<lambda>_. False) (canonicalize_diagnostics [sample 2, sample 1]) = Inr [sample 1, sample 2]"
proof -
  have "length [sample 2, sample 1] < usize_limit" by (simp add: usize_limit_def)
  from canonicalize_diagnostics_exact [OF this, of "[sample 1, sample 2]" "\<lambda>_. False" "()"] show ?thesis
    by (simp add: sample_less(1) add_mset_commute)
qed

end
