(* ===== verification/Lint.thy ===== *)
theory Lint
  imports Diagnostics
begin

text \<open>
  Layered lint contracts (\<open>crates/wrela-lint\<close>): names, the registry of descriptors, and the sealing of
  a linter's findings against registry, configuration, layer, diagnostic shape and limits. The inputs
  of a lint pass (parsed files, HIR, analysed image) are abstract: sealing only looks at their layer.
\<close>

subsection \<open>Data\<close>

datatype lint_name = LintName (lint_name_as_str: text_bytes)
datatype lint_level = Allow | Warn | Deny
datatype lint_layer = SyntaxLayer | HirLayer | SemanticLayer

datatype lint_error =
    LintCancelled
  | InvalidLimits
  | InvalidLintName text_bytes
  | UnknownLint lint_name
  | DuplicateDescriptor lint_name
  | TooManyDescriptors
  | InvalidDescriptor lint_name
  | SuppressedFinding lint_name
  | InvalidFinding lint_name
  | DuplicateFinding
  | ResourceLimit string u64
  | ResourceExhausted string
  | WrongLayer lint_name lint_layer

type_synonym 'a lcomp = "(lint_error, 'a) comp"

definition lint_name_byte :: "u8 \<Rightarrow> bool" where
  "lint_name_byte b \<longleftrightarrow> 0x61 \<le> b \<and> b \<le> 0x7A \<or> 0x30 \<le> b \<and> b \<le> 0x39 \<or> b = 0x2D"

definition lint_name_new :: "text_bytes \<Rightarrow> lint_error + lint_name" where
  "lint_name_new t = (if t = [] \<or> \<not> list_all lint_name_byte t then Inl (InvalidLintName t) else Inr (LintName t))"

record lint_descriptor =
  descriptor_name :: lint_name
  layer :: lint_layer
  summary :: text_bytes
  default_level :: lint_level

text \<open>A \<open>BTreeMap\<close> as the list of its entries in key order.\<close>

record lint_configuration =
  levels :: "(lint_name \<times> lint_level) list"
  sealed_deployment :: bool

record lint_limits =
  configuration_entries :: u32
  max_findings :: u32
  max_diagnostic_elements :: u64
  max_diagnostic_bytes :: u64

definition lint_limits_standard :: lint_limits where
  "lint_limits_standard = \<lparr>configuration_entries = 65536, max_findings = 100000,
     max_diagnostic_elements = 1000000, max_diagnostic_bytes = 64 * 1024 * 1024\<rparr>"

definition lint_limits_validate :: "lint_limits \<Rightarrow> unit lcomp" where
  "lint_limits_validate l = guard_err (configuration_entries l = 0 \<or> max_findings l = 0 \<or>
     max_diagnostic_elements l = 0 \<or> max_diagnostic_bytes l = 0) InvalidLimits"

record lint_registry =
  descriptors :: "lint_descriptor list"

definition lint_name_cmp :: "lint_name \<Rightarrow> lint_name \<Rightarrow> ordering" where
  "lint_name_cmp a b = str_cmp (lint_name_as_str a) (lint_name_as_str b)"

definition trim_is_empty :: "text_bytes \<Rightarrow> bool" where
  "trim_is_empty t = list_all char_is_whitespace (utf8_chars t)"

fun first_duplicate :: "lint_descriptor list \<Rightarrow> lint_name option" where
  "first_duplicate (a # b # ds) =
     (if descriptor_name a = descriptor_name b then Some (descriptor_name a) else first_duplicate (b # ds))"
| "first_duplicate ds = None"

definition registry_new :: "lint_descriptor list \<Rightarrow> lint_error + lint_registry" where
  "registry_new ds =
     (if length ds > 65536 then Inl TooManyDescriptors
      else
        let ds = sort_by (\<lambda>a b. lint_name_cmp (descriptor_name a) (descriptor_name b)) ds
        in case find (\<lambda>d. trim_is_empty (summary d) \<or> length (summary d) > 4096) ds of
             Some d \<Rightarrow> Inl (InvalidDescriptor (descriptor_name d))
           | None \<Rightarrow> (case first_duplicate ds of
                 Some n \<Rightarrow> Inl (DuplicateDescriptor n)
               | None \<Rightarrow> Inr \<lparr>descriptors = ds\<rparr>))"

definition registry_descriptor :: "lint_registry \<Rightarrow> lint_name \<Rightarrow> lint_descriptor option" where
  "registry_descriptor r n =
     (case binary_search_by (\<lambda>d. lint_name_cmp (descriptor_name d) n) (descriptors r) of
        None \<Rightarrow> None
      | Some i \<Rightarrow> list_get (descriptors r) i)"

datatype ('s, 'h, 'm) lint_input = SyntaxInput "'s list" | HirInput 'h | SemanticInput 'm

record ('s, 'h, 'm) lint_request =
  input :: "('s, 'h, 'm) lint_input"
  registry :: lint_registry
  configuration :: lint_configuration
  limits :: lint_limits

record lint_finding =
  lint :: lint_name
  level :: lint_level
  finding_diagnostic :: diagnostic

record lint_output =
  findings :: "lint_finding list"
  denied :: bool

subsection \<open>Checking one diagnostic\<close>

definition poll_cancel :: "nat \<Rightarrow> unit lcomp" where
  "poll_cancel work = (if work mod 256 = 0 then ask LintCancelled else ok ())"

text \<open>A loop that polls, checks, and leaves with \<open>false\<close> at the first failed check.\<close>

fun all_polled :: "(nat \<Rightarrow> 'a \<Rightarrow> bool lcomp) \<Rightarrow> nat \<Rightarrow> 'a list \<Rightarrow> bool lcomp" where
  "all_polled f work [] = ok True"
| "all_polled f work (x # xs) =
     and_then (poll_cancel work) (\<lambda>_.
     and_then (f work x) (\<lambda>b. if b then all_polled f (work + 1) xs else ok False))"

definition both_valid :: "bool lcomp \<Rightarrow> bool lcomp \<Rightarrow> bool lcomp" where
  "both_valid c d = and_then c (\<lambda>b. if b then d else ok False)"

definition valid_range :: "u32 \<Rightarrow> u32 \<Rightarrow> bool" where
  "valid_range s e \<longleftrightarrow> s \<le> e"

fun lint_nonblank_from :: "nat \<Rightarrow> nat list \<Rightarrow> bool lcomp" where
  "lint_nonblank_from work [] = ok False"
| "lint_nonblank_from work (c # cs) =
     and_then (poll_cancel work) (\<lambda>_.
       if \<not> char_is_whitespace c then ok True else lint_nonblank_from (work + 1) cs)"

definition lint_nonblank :: "text_bytes \<Rightarrow> bool lcomp" where
  "lint_nonblank t = lint_nonblank_from 0 (utf8_chars t)"

definition span_and_text :: "span \<Rightarrow> text_bytes \<Rightarrow> bool lcomp" where
  "span_and_text s t =
     both_valid (ok (valid_range (start (span_range s)) (range_end (span_range s)))) (lint_nonblank t)"

definition check_edit :: "source_edit list \<Rightarrow> nat \<Rightarrow> source_edit \<Rightarrow> bool lcomp" where
  "check_edit es work e =
     (if \<not> valid_range (start (span_range (edit_span e))) (range_end (span_range (edit_span e)))
      then ok False
      else case (if work = 0 then None else list_get es (work - 1)) of
          None \<Rightarrow> ok True
        | Some p \<Rightarrow>
            ok (\<not> (compare_span (edit_span p) (edit_span e) \<noteq> Less \<or>
                   span_file (edit_span p) = span_file (edit_span e) \<and>
                   range_end (span_range (edit_span p)) > start (span_range (edit_span e)))))"

definition check_repair :: "repair \<Rightarrow> bool lcomp" where
  "check_repair r =
     both_valid (both_valid (ok (edits r \<noteq> [])) (lint_nonblank (repair_message r)))
       (all_polled (check_edit (edits r)) 0 (edits r))"

definition check_code :: "text_bytes option \<Rightarrow> bool lcomp" where
  "check_code c =
     (case c of
        None \<Rightarrow> ok True
      | Some t \<Rightarrow> if t = [] then ok False else all_polled (\<lambda>_ b. ok (lint_name_byte b)) 0 t)"

definition valid_diagnostic :: "diagnostic \<Rightarrow> bool lcomp" where
  "valid_diagnostic d =
     both_valid (span_and_text (primary d) (message d))
    (both_valid (check_code (code d))
    (both_valid (all_polled (\<lambda>_ l. span_and_text (label_span l) (label_message l)) 0 (labels d))
    (both_valid (all_polled (\<lambda>_. lint_nonblank) 0 (notes_of d))
    (both_valid (all_polled (\<lambda>_. lint_nonblank) 0 (help_of d))
    (both_valid (all_polled (\<lambda>_ r. span_and_text (related_span r) (related_message r)) 0 (related d))
      (all_polled (\<lambda>_. check_repair) 0 (repairs d)))))))"

subsection \<open>Measuring one diagnostic\<close>

definition element_limit :: "u64 \<Rightarrow> lint_error" where
  "element_limit limit = ResourceLimit ''lint diagnostic elements'' limit"

definition byte_limit :: "u64 \<Rightarrow> lint_error" where
  "byte_limit limit = ResourceLimit ''lint diagnostic bytes'' limit"

definition diagnostic_element_count :: "diagnostic \<Rightarrow> u64 \<Rightarrow> u64 lcomp" where
  "diagnostic_element_count d limit =
     and_then (for_each (\<lambda>t n. or_err (bounded_add t n limit) (element_limit limit)) 1
         [if code d = None then 0 else 1, length (labels d), length (notes_of d), length (help_of d),
          length (related d), length (repairs d)]) (\<lambda>t.
     for_each (\<lambda>t (work, r). and_then (poll_cancel work) (\<lambda>_.
         or_err (bounded_add t (length (edits r)) limit) (element_limit limit)))
       t (enumerate 0 (repairs d)))"

definition diagnostic_texts :: "diagnostic \<Rightarrow> text_bytes list" where
  "diagnostic_texts d =
     message d # (case code d of None \<Rightarrow> [] | Some c \<Rightarrow> [c]) @ map label_message (labels d) @
     notes_of d @ help_of d @ map related_message (related d) @
     concat (map (\<lambda>r. repair_message r # map replacement (edits r)) (repairs d))"

definition diagnostic_size :: "diagnostic \<Rightarrow> u64 \<Rightarrow> u64 \<Rightarrow> u64 lcomp" where
  "diagnostic_size d maximum reported =
     and_then (for_each (\<lambda>(bytes, work) v.
         and_then (poll_cancel work) (\<lambda>_.
         and_then (or_err (bounded_add bytes (length v) maximum) (byte_limit reported)) (\<lambda>b.
           ok (b, saturating_add_usize work 1)))) (0, 0) (diagnostic_texts d)) (\<lambda>(bytes, work). ok bytes)"

subsection \<open>Canonical findings\<close>

fun lint_level_rank :: "lint_level \<Rightarrow> nat" where
  "lint_level_rank Allow = 0"
| "lint_level_rank Warn = 1"
| "lint_level_rank Deny = 2"

definition compare_findings :: "lint_finding \<Rightarrow> lint_finding \<Rightarrow> ordering" where
  "compare_findings l r =
     then_with (lint_name_cmp (lint l) (lint r))
      (then_with (cmp_of (lint_level_rank (level l)) (lint_level_rank (level r)))
        (compare_diagnostics (finding_diagnostic l) (finding_diagnostic r)))"

definition finding_errors :: "lint_error sort_errors" where
  "finding_errors = \<lparr>on_cancelled = LintCancelled, on_runs = ResourceExhausted ''lint finding sort runs'',
     on_run = ResourceExhausted ''lint finding sort run'',
     on_merged_runs = ResourceExhausted ''merged lint finding sort runs'',
     on_merge = ResourceExhausted ''merged lint finding sort run'',
     on_empty = ResourceExhausted ''canonical lint findings''\<rparr>"

definition merge_finding_runs :: "lint_finding list \<Rightarrow> lint_finding list \<Rightarrow> lint_finding list lcomp" where
  "merge_finding_runs = merge_runs finding_errors compare_findings"

definition canonicalize_findings :: "lint_finding list \<Rightarrow> lint_finding list lcomp" where
  "canonicalize_findings = run_sort finding_errors compare_findings"

subsection \<open>Sealing\<close>

fun input_layer :: "('s, 'h, 'm) lint_input \<Rightarrow> lint_layer" where
  "input_layer (SyntaxInput fs) = SyntaxLayer"
| "input_layer (HirInput p) = HirLayer"
| "input_layer (SemanticInput i) = SemanticLayer"

definition check_configuration :: "('s, 'h, 'm) lint_request \<Rightarrow> unit lcomp" where
  "check_configuration q =
     and_then (guard_err (case u32_try_from (length (levels (configuration q))) of
           None \<Rightarrow> True | Some n \<Rightarrow> n > configuration_entries (limits q))
         (ResourceLimit ''lint configuration entries'' (u64_of_u32 (configuration_entries (limits q))))) (\<lambda>_.
     for_each (\<lambda>_ (work, n).
         and_then (poll_cancel work) (\<lambda>_.
           guard_err (registry_descriptor (registry q) n = None) (UnknownLint n)))
       () (enumerate 0 (map fst (levels (configuration q)))))"

definition effective_level :: "('s, 'h, 'm) lint_request \<Rightarrow> lint_descriptor \<Rightarrow> lint_name \<Rightarrow> lint_level" where
  "effective_level q d n =
     (case map_of (levels (configuration q)) n of Some l \<Rightarrow> l | None \<Rightarrow> default_level d)"

definition check_finding ::
  "('s, 'h, 'm) lint_request \<Rightarrow> u64 \<times> u64 \<Rightarrow> nat \<times> lint_finding \<Rightarrow> (u64 \<times> u64) lcomp" where
  "check_finding q = (\<lambda>(bytes, elements) (work, f).
     let elems = max_diagnostic_elements (limits q); maxb = max_diagnostic_bytes (limits q) in
     and_then (poll_cancel work) (\<lambda>_.
     and_then (diagnostic_element_count (finding_diagnostic f) elems) (\<lambda>n.
     and_then (or_err (bounded_add elements (unat n) elems) (element_limit elems)) (\<lambda>elements.
     and_then (guard_err (bytes > maxb) (byte_limit maxb)) (\<lambda>_.
     and_then (diagnostic_size (finding_diagnostic f) (maxb - bytes) maxb) (\<lambda>n.
     and_then (or_err (bounded_add bytes (unat n) maxb) (byte_limit maxb)) (\<lambda>bytes.
     and_then (or_err (registry_descriptor (registry q) (lint f)) (UnknownLint (lint f))) (\<lambda>d.
     and_then (guard_err (layer d \<noteq> input_layer (input q)) (WrongLayer (lint f) (layer d))) (\<lambda>_.
     let effective = effective_level q d (lint f) in
     and_then (case effective of
         Allow \<Rightarrow> err (SuppressedFinding (lint f)) | Warn \<Rightarrow> ok Warning | Deny \<Rightarrow> ok Error) (\<lambda>expected.
     and_then (if level f \<noteq> effective \<or> severity_of (finding_diagnostic f) \<noteq> expected then ok False
               else valid_diagnostic (finding_diagnostic f)) (\<lambda>valid.
     and_then (guard_err (\<not> valid) (InvalidFinding (lint f))) (\<lambda>_.
       ok (bytes, elements)))))))))))))"

definition check_duplicates :: "lint_finding list \<Rightarrow> bool lcomp" where
  "check_duplicates fs =
     for_each (\<lambda>denied (work, f).
         and_then (poll_cancel work) (\<lambda>_.
         and_then (guard_err (work \<noteq> 0 \<and> list_get fs (work - 1) = Some f) DuplicateFinding) (\<lambda>_.
           ok (denied \<or> level f = Deny)))) False (enumerate 0 fs)"

definition seal_lint_output :: "('s, 'h, 'm) lint_request \<Rightarrow> lint_finding list \<Rightarrow> lint_output lcomp" where
  "seal_lint_output q fs =
     and_then (ask LintCancelled) (\<lambda>_.
     and_then (lint_limits_validate (limits q)) (\<lambda>_.
     and_then (check_configuration q) (\<lambda>_.
     and_then (guard_err (case u32_try_from (length fs) of
           None \<Rightarrow> True | Some n \<Rightarrow> n > max_findings (limits q))
         (ResourceLimit ''lint findings'' (u64_of_u32 (max_findings (limits q))))) (\<lambda>_.
     and_then (for_each (check_finding q) (0, 0) (enumerate 0 fs)) (\<lambda>_.
     and_then (canonicalize_findings fs) (\<lambda>fs.
     and_then (check_duplicates fs) (\<lambda>denied.
     and_then (ask LintCancelled) (\<lambda>_.
       ok \<lparr>findings = fs, denied = denied\<rparr>))))))))"

subsection \<open>What the checks compute\<close>

definition has_text :: "text_bytes \<Rightarrow> bool" where
  "has_text t = list_ex (\<lambda>c. \<not> char_is_whitespace c) (utf8_chars t)"

definition span_ok :: "span \<Rightarrow> bool" where
  "span_ok s \<longleftrightarrow> start (span_range s) \<le> range_end (span_range s)"

text \<open>\<open>disjoint_before s t\<close>: \<open>s\<close> comes before \<open>t\<close> and does not overlap it.\<close>

definition disjoint_before :: "span \<Rightarrow> span \<Rightarrow> bool" where
  "disjoint_before s t \<longleftrightarrow> span_ok s \<and> span_ok t \<and>
     (span_file s < span_file t \<or>
      span_file s = span_file t \<and> range_end (span_range s) \<le> start (span_range t) \<and> s \<noteq> t)"

definition repair_ok :: "repair \<Rightarrow> bool" where
  "repair_ok r \<longleftrightarrow> edits r \<noteq> [] \<and> has_text (repair_message r) \<and>
     list_all (\<lambda>e. span_ok (edit_span e)) (edits r) \<and>
     sorted_wrt (\<lambda>d e. disjoint_before (edit_span d) (edit_span e)) (edits r)"

definition diagnostic_ok :: "diagnostic \<Rightarrow> bool" where
  "diagnostic_ok d \<longleftrightarrow> span_ok (primary d) \<and> has_text (message d) \<and>
     (case code d of None \<Rightarrow> True | Some t \<Rightarrow> t \<noteq> [] \<and> list_all lint_name_byte t) \<and>
     list_all (\<lambda>l. span_ok (label_span l) \<and> has_text (label_message l)) (labels d) \<and>
     list_all has_text (notes_of d) \<and> list_all has_text (help_of d) \<and>
     list_all (\<lambda>r. span_ok (related_span r) \<and> has_text (related_message r)) (related d) \<and>
     list_all repair_ok (repairs d)"

lemma outcome_poll [simp]: "outcome (poll_cancel w) = Inr ()"
  by (simp add: poll_cancel_def)

lemma outcome_both_valid:
  "outcome c = Inr a \<Longrightarrow> outcome d = Inr b \<Longrightarrow> outcome (both_valid c d) = Inr (a \<and> b)"
  by (simp add: both_valid_def)

lemma all_polled_index:
  assumes "\<And>w x. outcome (f w x) = Inr (P w x)"
  shows "outcome (all_polled f w xs) = Inr (\<forall>i < length xs. P (w + i) (xs ! i))"
proof (induction xs arbitrary: w)
  case (Cons x xs)
  then show ?case by (auto simp: assms All_less_Suc2)
qed simp

lemma all_polled_all:
  assumes "\<And>w x. outcome (f w x) = Inr (P x)"
  shows "outcome (all_polled f w xs) = Inr (list_all P xs)"
  by (induction xs arbitrary: w) (simp_all add: assms)

lemma lint_nonblank_outcome: "outcome (lint_nonblank t) = Inr (has_text t)"
proof -
  have "outcome (lint_nonblank_from w cs) = Inr (list_ex (\<lambda>c. \<not> char_is_whitespace c) cs)" for w cs
    by (induction cs arbitrary: w) simp_all
  then show ?thesis by (simp add: lint_nonblank_def has_text_def)
qed

lemma span_and_text_outcome: "outcome (span_and_text s t) = Inr (span_ok s \<and> has_text t)"
  unfolding span_and_text_def by (rule outcome_both_valid) (simp_all add: lint_nonblank_outcome valid_range_def span_ok_def)

lemma disjoint_before_trans: "transp disjoint_before"
proof (rule transpI)
  fix s t u assume "disjoint_before s t" "disjoint_before t u"
  then show "disjoint_before s u" by (auto simp: disjoint_before_def span_ok_def)
qed

lemma disjoint_before_step:
  "span_ok s \<Longrightarrow> span_ok t \<Longrightarrow> disjoint_before s t \<longleftrightarrow>
    compare_span s t = Less \<and> \<not> (span_file s = span_file t \<and> range_end (span_range s) > start (span_range t))"
  by (auto simp: disjoint_before_def span_ok_def compare_span_def cmp_of_def split: if_splits)

lemma check_edit_outcome:
  "outcome (check_edit es w e) = Inr (span_ok (edit_span e) \<and>
     (w \<noteq> 0 \<and> w - 1 < length es \<longrightarrow> compare_span (edit_span (es ! (w - 1))) (edit_span e) = Less \<and>
       \<not> (span_file (edit_span (es ! (w - 1))) = span_file (edit_span e) \<and>
          range_end (span_range (edit_span (es ! (w - 1)))) > start (span_range (edit_span e)))))"
  by (auto simp: check_edit_def valid_range_def span_ok_def list_get_def)

lemma edits_checked:
  "outcome (all_polled (check_edit es) 0 es) =
     Inr (list_all (\<lambda>e. span_ok (edit_span e)) es \<and>
       sorted_wrt (\<lambda>d e. disjoint_before (edit_span d) (edit_span e)) es)"
proof -
  let ?R = "\<lambda>d e. disjoint_before (edit_span d) (edit_span e)"
  have "transp ?R" using disjoint_before_trans by (auto simp: transp_def)
  then have sorted: "sorted_wrt ?R es \<longleftrightarrow> (\<forall>i. Suc i < length es \<longrightarrow> ?R (es ! i) (es ! Suc i))"
    by (rule sorted_wrt_iff_nth_Suc_transp)
  have "(\<forall>i < length es. span_ok (edit_span (es ! i)) \<and> (i \<noteq> 0 \<and> i - 1 < length es \<longrightarrow>
        compare_span (edit_span (es ! (i - 1))) (edit_span (es ! i)) = Less \<and>
        \<not> (span_file (edit_span (es ! (i - 1))) = span_file (edit_span (es ! i)) \<and>
           range_end (span_range (edit_span (es ! (i - 1)))) > start (span_range (edit_span (es ! i)))))) \<longleftrightarrow>
      (\<forall>i < length es. span_ok (edit_span (es ! i))) \<and>
      (\<forall>i. Suc i < length es \<longrightarrow> ?R (es ! i) (es ! Suc i))" (is "?L \<longleftrightarrow> ?A \<and> ?B")
  proof
    assume l: ?L
    then have a: ?A by blast
    moreover have "?R (es ! i) (es ! Suc i)" if "Suc i < length es" for i
      using l [rule_format, OF that] a that by (subst disjoint_before_step) auto
    ultimately show "?A \<and> ?B" by blast
  next
    assume r: "?A \<and> ?B"
    show ?L
    proof (intro allI impI conjI)
      fix i assume i: "i < length es"
      then show "span_ok (edit_span (es ! i))" using r by blast
      assume "i \<noteq> 0 \<and> i - 1 < length es"
      then obtain j where j: "i = Suc j" by (cases i) auto
      then have "?R (es ! j) (es ! i)" using r i by blast
      then have "compare_span (edit_span (es ! j)) (edit_span (es ! i)) = Less \<and>
          \<not> (span_file (edit_span (es ! j)) = span_file (edit_span (es ! i)) \<and>
             range_end (span_range (edit_span (es ! j))) > start (span_range (edit_span (es ! i))))"
        using disjoint_before_step r i j by (metis Suc_lessD)
      then show "compare_span (edit_span (es ! (i - 1))) (edit_span (es ! i)) = Less"
        "\<not> (span_file (edit_span (es ! (i - 1))) = span_file (edit_span (es ! i)) \<and>
           range_end (span_range (edit_span (es ! (i - 1)))) > start (span_range (edit_span (es ! i))))"
        by (simp_all add: j)
    qed
  qed
  with all_polled_index [of "check_edit es", OF check_edit_outcome, of 0 es] sorted show ?thesis
    by (simp add: list_all_length)
qed

lemma check_repair_outcome: "outcome (check_repair r) = Inr (repair_ok r)"
proof -
  have "outcome (check_repair r) = Inr (((edits r \<noteq> []) \<and> has_text (repair_message r)) \<and>
      (list_all (\<lambda>e. span_ok (edit_span e)) (edits r) \<and>
       sorted_wrt (\<lambda>d e. disjoint_before (edit_span d) (edit_span e)) (edits r)))"
    unfolding check_repair_def
    by (intro outcome_both_valid edits_checked lint_nonblank_outcome comp_basic)
  then show ?thesis by (simp add: repair_ok_def)
qed

lemma check_code_outcome:
  "outcome (check_code c) = Inr (case c of None \<Rightarrow> True | Some t \<Rightarrow> t \<noteq> [] \<and> list_all lint_name_byte t)"
  using all_polled_all [of "\<lambda>_ b. ok (lint_name_byte b)" lint_name_byte 0]
  by (cases c) (simp_all add: check_code_def)

lemma valid_diagnostic_outcome: "outcome (valid_diagnostic d) = Inr (diagnostic_ok d)"
  unfolding valid_diagnostic_def diagnostic_ok_def conj_assoc [symmetric, of "span_ok (primary d)"]
  by (intro outcome_both_valid all_polled_all span_and_text_outcome check_code_outcome
      lint_nonblank_outcome check_repair_outcome)

subsection \<open>What the measures compute\<close>

definition elements_of :: "diagnostic \<Rightarrow> nat" where
  "elements_of d = 1 + (if code d = None then 0 else 1) + length (labels d) + length (notes_of d) +
     length (help_of d) + length (related d) + length (repairs d) +
     sum_list (map (\<lambda>r. length (edits r)) (repairs d))"

definition bytes_of :: "diagnostic \<Rightarrow> nat" where
  "bytes_of d = sum_list (map length (diagnostic_texts d))"

lemma bounded_adds:
  "ns \<noteq> [] \<or> unat t \<le> unat limit \<Longrightarrow>
    outcome (for_each (\<lambda>t n. or_err (bounded_add t n limit) e) t ns) = Inr s \<longleftrightarrow>
      unat s = unat t + sum_list ns \<and> unat s \<le> unat limit"
proof (induction ns arbitrary: t)
  case Nil
  then show ?case by (auto simp: word_unat_eq_iff)
next
  case (Cons n ns)
  show ?case
  proof (cases "bounded_add t n limit")
    case None
    then have "\<not> unat t + n \<le> unat limit" by (simp add: bounded_add_None)
    with None show ?thesis by simp
  next
    case (Some u)
    then have u: "unat u = unat t + n" "unat u \<le> unat limit" by (simp_all add: bounded_add_Some)
    then show ?thesis using Some Cons.IH [of u] by (simp add: add.assoc)
  qed
qed

lemma polled_adds:
  "outcome (for_each (\<lambda>t (work, r). and_then (poll_cancel work) (\<lambda>_. or_err (bounded_add t (g r) limit) e))
      t (enumerate k rs)) =
    outcome (for_each (\<lambda>t n. or_err (bounded_add t n limit) e) t (map g rs))"
  by (induction rs arbitrary: t k) (auto split: option.splits)

lemma sized_adds:
  "outcome (and_then (for_each (\<lambda>(bytes, work) v.
         and_then (poll_cancel work) (\<lambda>_.
         and_then (or_err (bounded_add bytes (length v) limit) e) (\<lambda>b.
           ok (b, saturating_add_usize work 1)))) (t, k) vs) (\<lambda>(bytes, work). ok bytes)) =
    outcome (for_each (\<lambda>t n. or_err (bounded_add t n limit) e) t (map length vs))"
  by (induction vs arbitrary: t k) (auto split: option.splits)

lemma diagnostic_element_count_Inr:
  "outcome (diagnostic_element_count d limit) = Inr n \<longleftrightarrow> unat n = elements_of d \<and> unat n \<le> unat limit"
proof -
  let ?F = "\<lambda>t n. or_err (bounded_add t n limit) (element_limit limit)"
  let ?ns = "[if code d = None then 0 else 1, length (labels d), length (notes_of d), length (help_of d),
          length (related d), length (repairs d)]" and ?ms = "map (\<lambda>r. length (edits r)) (repairs d)"
  have "outcome (diagnostic_element_count d limit) = outcome (for_each ?F 1 (?ns @ ?ms))"
    unfolding diagnostic_element_count_def outcome_and_then polled_adds outcome_for_each_append ..
  moreover have "unat (1 :: u64) + sum_list (?ns @ ?ms) = elements_of d" by (simp add: elements_of_def)
  ultimately show ?thesis using bounded_adds [of "?ns @ ?ms" 1 limit "element_limit limit" n] by (simp only: append_is_Nil_conv list.simps simp_thms)
qed

lemma diagnostic_size_Inr:
  "outcome (diagnostic_size d limit reported) = Inr n \<longleftrightarrow> unat n = bytes_of d \<and> unat n \<le> unat limit"
  unfolding diagnostic_size_def sized_adds by (subst bounded_adds) (simp_all add: bytes_of_def)

subsection \<open>What sealing accepts\<close>

definition severity_for :: "lint_level \<Rightarrow> severity" where
  "severity_for l = (if l = Deny then Error else Warning)"

definition finding_ok :: "('s, 'h, 'm) lint_request \<Rightarrow> lint_finding \<Rightarrow> bool" where
  "finding_ok q f =
     (case registry_descriptor (registry q) (lint f) of
        None \<Rightarrow> False
      | Some d \<Rightarrow> layer d = input_layer (input q) \<and> level f = effective_level q d (lint f) \<and>
          level f \<noteq> Allow \<and> severity_of (finding_diagnostic f) = severity_for (level f) \<and>
          diagnostic_ok (finding_diagnostic f))"

lemma measured_add:
  assumes "unat t + k \<le> unat l \<Longrightarrow> k \<le> unat l'"
  shows "(\<exists>n :: u64. (unat n = k \<and> unat n \<le> unat (l' :: u64)) \<and> bounded_add t (unat n) l = Some s) \<longleftrightarrow>
    unat s = unat t + k \<and> unat s \<le> unat l"
proof
  assume r: "unat s = unat t + k \<and> unat s \<le> unat l"
  then have "unat (word_of_nat k :: u64) = k" using u64_bound [of l] by (intro unat_of_nat_u64) simp
  with r assms show "\<exists>n :: u64. (unat n = k \<and> unat n \<le> unat l') \<and> bounded_add t (unat n) l = Some s"
    by (intro exI [of _ "word_of_nat k"]) (simp add: bounded_add_Some)
qed (auto simp: bounded_add_Some)

lemma step_Inr:
  "outcome (or_err x er) = Inr v \<longleftrightarrow> x = Some v"
  "outcome (guard_err b er) = Inr u \<longleftrightarrow> \<not> b"
  "outcome (poll_cancel w) = Inr u"
  "outcome (ok y) = Inr z \<longleftrightarrow> y = z"
  "outcome (case l of Allow \<Rightarrow> err er' | Warn \<Rightarrow> ok Warning | Deny \<Rightarrow> ok Error) = Inr sv \<longleftrightarrow>
     l \<noteq> Allow \<and> sv = severity_for l"
  "outcome (if p then ok False else valid_diagnostic d) = Inr r \<longleftrightarrow> r = (\<not> p \<and> diagnostic_ok d)"
  by (auto simp: severity_for_def valid_diagnostic_outcome split: option.splits lint_level.splits)

lemma check_finding_Inr:
  assumes "unat b \<le> unat (max_diagnostic_bytes (limits q))"
  shows "outcome (check_finding q (b, e) (w, f)) = Inr (b', e') \<longleftrightarrow> finding_ok q f \<and>
    unat e' = unat e + elements_of (finding_diagnostic f) \<and> unat e' \<le> unat (max_diagnostic_elements (limits q)) \<and>
    unat b' = unat b + bytes_of (finding_diagnostic f) \<and> unat b' \<le> unat (max_diagnostic_bytes (limits q))"
proof -
  let ?d = "finding_diagnostic f" and ?m = "max_diagnostic_bytes (limits q)" and ?l = "max_diagnostic_elements (limits q)"
  have rest: "unat (?m - b) = unat ?m - unat b" using assms by (simp add: unat_sub word_le_nat_alt)
  have count: "(\<exists>n. outcome (diagnostic_element_count ?d ?l) = Inr n \<and> bounded_add e (unat n) ?l = Some e') \<longleftrightarrow>
      unat e' = unat e + elements_of ?d \<and> unat e' \<le> unat ?l"
    unfolding diagnostic_element_count_Inr by (rule measured_add) simp
  have size: "(\<exists>n. outcome (diagnostic_size ?d (?m - b) ?m) = Inr n \<and> bounded_add b (unat n) ?m = Some b') \<longleftrightarrow>
      unat b' = unat b + bytes_of ?d \<and> unat b' \<le> unat ?m"
    unfolding diagnostic_size_Inr by (rule measured_add) (simp add: rest)
  have "\<not> ?m < b" using assms by (simp add: word_less_nat_alt)
  then have "outcome (check_finding q (b, e) (w, f)) = Inr (b', e') \<longleftrightarrow>
      (\<exists>n. outcome (diagnostic_element_count ?d ?l) = Inr n \<and> bounded_add e (unat n) ?l = Some e') \<and>
      (\<exists>n. outcome (diagnostic_size ?d (?m - b) ?m) = Inr n \<and> bounded_add b (unat n) ?m = Some b') \<and>
      finding_ok q f"
    unfolding check_finding_def Let_def prod.case
    by (simp only: and_then_Inr step_Inr finding_ok_def split: option.split) auto
  with count size show ?thesis by blast
qed

lemma check_findings_accept:
  "unat b \<le> unat (max_diagnostic_bytes (limits q)) \<Longrightarrow> unat e \<le> unat (max_diagnostic_elements (limits q)) \<Longrightarrow>
    (\<exists>r. outcome (for_each (check_finding q) (b, e) (enumerate k fs)) = Inr r) \<longleftrightarrow>
      list_all (finding_ok q) fs \<and>
      unat e + sum_list (map (\<lambda>f. elements_of (finding_diagnostic f)) fs) \<le> unat (max_diagnostic_elements (limits q)) \<and>
      unat b + sum_list (map (\<lambda>f. bytes_of (finding_diagnostic f)) fs) \<le> unat (max_diagnostic_bytes (limits q))"
proof (induction fs arbitrary: b e k)
  case (Cons f fs)
  let ?m = "max_diagnostic_bytes (limits q)" and ?l = "max_diagnostic_elements (limits q)"
  let ?b = "unat b + bytes_of (finding_diagnostic f)" and ?e = "unat e + elements_of (finding_diagnostic f)"
  have "(\<exists>r. outcome (for_each (check_finding q) (b, e) (enumerate k (f # fs))) = Inr r) \<longleftrightarrow>
      (\<exists>b' e'. outcome (check_finding q (b, e) (k, f)) = Inr (b', e') \<and>
        (\<exists>r. outcome (for_each (check_finding q) (b', e') (enumerate (Suc k) fs)) = Inr r))"
    by (auto simp: and_then_Inr simp del: outcome_and_then)
  also have "\<dots> \<longleftrightarrow> finding_ok q f \<and> ?e \<le> unat ?l \<and> ?b \<le> unat ?m \<and> list_all (finding_ok q) fs \<and>
      ?e + sum_list (map (\<lambda>f. elements_of (finding_diagnostic f)) fs) \<le> unat ?l \<and>
      ?b + sum_list (map (\<lambda>f. bytes_of (finding_diagnostic f)) fs) \<le> unat ?m" (is "?L \<longleftrightarrow> ?R")
  proof
    assume ?L
    then obtain b' e' where c: "outcome (check_finding q (b, e) (k, f)) = Inr (b', e')"
      and r: "\<exists>r. outcome (for_each (check_finding q) (b', e') (enumerate (Suc k) fs)) = Inr r" by blast
    from c have c': "finding_ok q f" "unat e' = ?e" "unat e' \<le> unat ?l" "unat b' = ?b" "unat b' \<le> unat ?m"
      using check_finding_Inr [OF Cons.prems(1)] by auto
    with r Cons.IH [OF c'(5,3)] show ?R by simp
  next
    assume r: ?R
    define b' e' :: u64 where "b' = word_of_nat ?b" and "e' = word_of_nat ?e"
    have "?b < 2 ^ 64" "?e < 2 ^ 64" using r u64_bound [of ?m] u64_bound [of ?l] by auto
    then have u: "unat b' = ?b" "unat e' = ?e" unfolding b'_def e'_def by (simp_all only: unat_of_nat_u64)
    then have "outcome (check_finding q (b, e) (k, f)) = Inr (b', e')"
      using r check_finding_Inr [OF Cons.prems(1)] by auto
    moreover have "\<exists>r. outcome (for_each (check_finding q) (b', e') (enumerate (Suc k) fs)) = Inr r"
      using r u Cons.IH [of b' e'] by auto
    ultimately show ?L by blast
  qed
  finally show ?case by (auto simp: add.assoc)
qed simp

lemma all_from_Suc: "(\<forall>i. k \<le> i \<longrightarrow> Q i) \<longleftrightarrow> Q k \<and> (\<forall>i. Suc k \<le> i \<longrightarrow> Q i)"
proof (intro iffI conjI allI impI)
  fix i assume "Q k \<and> (\<forall>i. Suc k \<le> i \<longrightarrow> Q i)" "k \<le> i"
  then show "Q i" by (cases "i = k") simp_all
qed simp_all

lemma check_duplicates_Inr:
  "outcome (check_duplicates fs) = Inr r \<longleftrightarrow>
    (\<forall>i. Suc i < length fs \<longrightarrow> fs ! i \<noteq> fs ! Suc i) \<and> r = list_ex (\<lambda>f. level f = Deny) fs"
proof -
  let ?F = "\<lambda>dn (work, f). and_then (poll_cancel work) (\<lambda>_.
         and_then (guard_err (work \<noteq> 0 \<and> list_get fs (work - 1) = Some f) DuplicateFinding) (\<lambda>_.
           ok (dn \<or> level f = Deny)))"
  have "outcome (for_each ?F dn (enumerate k gs)) = Inr r \<longleftrightarrow>
      (\<forall>i. k \<le> i \<and> i < length fs \<and> i \<noteq> 0 \<longrightarrow> fs ! (i - 1) \<noteq> fs ! i) \<and>
      r = (dn \<or> list_ex (\<lambda>f. level f = Deny) gs)" if "gs = drop k fs" for dn k gs
    using that
  proof (induction gs arbitrary: dn k)
    case Nil
    then show ?case by auto
  next
    case (Cons g gs)
    have k1: "k < length fs" using Cons.prems by (cases "k < length fs") simp_all
    with Cons.prems have "g # gs = fs ! k # drop (Suc k) fs" by (simp add: Cons_nth_drop_Suc)
    with k1 have k: "k < length fs" "fs ! k = g" "gs = drop (Suc k) fs" by simp_all
    have "(\<forall>i. k \<le> i \<and> i < length fs \<and> i \<noteq> 0 \<longrightarrow> fs ! (i - 1) \<noteq> fs ! i) \<longleftrightarrow>
        (k \<noteq> 0 \<longrightarrow> fs ! (k - 1) \<noteq> g) \<and>
        (\<forall>i. Suc k \<le> i \<and> i < length fs \<and> i \<noteq> 0 \<longrightarrow> fs ! (i - 1) \<noteq> fs ! i)"
      using all_from_Suc [of k "\<lambda>i. i < length fs \<and> i \<noteq> 0 \<longrightarrow> fs ! (i - 1) \<noteq> fs ! i"] k(1,2)
      by (simp only: imp_conjL simp_thms)
    moreover have "outcome (for_each ?F dn (enumerate k (g # gs))) = Inr r \<longleftrightarrow>
        (k \<noteq> 0 \<longrightarrow> fs ! (k - 1) \<noteq> g) \<and>
        outcome (for_each ?F (dn \<or> level g = Deny) (enumerate (Suc k) gs)) = Inr r"
    proof -
      have "list_get fs (k - 1) = Some (fs ! (k - 1))" using k1 by (simp add: list_get_def)
      then show ?thesis by (simp only: enumerate_simps for_each.simps and_then_Inr prod.case step_Inr) auto
    qed
    ultimately show ?case unfolding Cons.IH [OF k(3)] by (simp add: conj_assoc disj_assoc)
  qed
  from this [of fs 0 False] show ?thesis
    unfolding check_duplicates_def by (auto simp: gr0_conv_Suc)
qed

lemma lint_name_cmp_key: "comparator_on lint_name_cmp (\<lambda>n. n)"
proof -
  have "comparator_on lint_name_cmp lint_name_as_str"
    unfolding lint_name_cmp_def [abs_def] by (rule text_field_cmp)
  then show ?thesis by (rule comparator_cong) (auto simp: lint_name.expand)
qed

lemma comparator_findings: "comparator_on compare_findings (\<lambda>f. f)"
proof -
  have "comparator_on compare_findings (\<lambda>f. (lint f, lint_level_rank (level f), finding_diagnostic f))"
    unfolding compare_findings_def [abs_def]
    by (intro comparator_then_with word_field_cmp comparator_key [OF lint_name_cmp_key]
        comparator_key [OF comparator_diagnostics])
  moreover have "lint_level_rank a = lint_level_rank b \<longleftrightarrow> a = b" for a b by (cases a; cases b) simp_all
  ultimately show ?thesis by (elim comparator_cong) auto
qed

interpretation finding_order: comparator_on compare_findings "\<lambda>f. f"
  by (rule comparator_findings)

subsection \<open>The registry\<close>

abbreviation "descriptor_cmp \<equiv> (\<lambda>a b. lint_name_cmp (descriptor_name a) (descriptor_name b))"

lemma comparator_descriptor: "comparator_on descriptor_cmp descriptor_name"
  by (rule comparator_key [OF lint_name_cmp_key])

lemma first_duplicate_None:
  "first_duplicate ds = None \<longleftrightarrow> successively (\<lambda>a b. descriptor_name a \<noteq> descriptor_name b) ds"
  by (induction ds rule: first_duplicate.induct) simp_all

lemma descriptors_strict:
  assumes "first_duplicate (sort_by descriptor_cmp ds) = None"
  shows "sorted_wrt (\<lambda>a b. descriptor_cmp a b = Less) (sort_by descriptor_cmp ds)"
proof -
  let ?l = "sort_by descriptor_cmp ds"
  note ord = comparator_on.ordered_sort_by [OF comparator_descriptor, of ds]
  have "transp (\<lambda>a b. descriptor_cmp a b = Less)"
    using comparator_on.less_trans [OF comparator_descriptor] by (rule transpI)
  moreover have "descriptor_cmp (?l ! i) (?l ! Suc i) = Less" if i: "Suc i < length ?l" for i
  proof -
    have "descriptor_cmp (?l ! i) (?l ! Suc i) \<noteq> Greater" using sorted_wrt_nth_less [OF ord, of i "Suc i"] i by simp
    moreover have "descriptor_cmp (?l ! i) (?l ! Suc i) \<noteq> Equal"
      using assms i comparator_on.equal [OF comparator_descriptor, of "?l ! i" "?l ! Suc i"]
      by (simp add: first_duplicate_None successively_conv_nth)
    ultimately show ?thesis by (cases "descriptor_cmp (?l ! i) (?l ! Suc i)") simp_all
  qed
  ultimately show ?thesis by (subst sorted_wrt_iff_nth_Suc_transp) simp_all
qed

lemma registry_descriptor_Some:
  assumes "sorted_wrt (\<lambda>a b. descriptor_cmp a b = Less) (descriptors r)"
  shows "registry_descriptor r n = Some d \<longleftrightarrow> d \<in> set (descriptors r) \<and> descriptor_name d = n"
proof -
  let ?f = "\<lambda>d. lint_name_cmp (descriptor_name d) n" and ?ds = "descriptors r"
  note c = lint_name_cmp_key
  have "sorted_wrt (\<lambda>x y. (?f x = Greater \<longrightarrow> ?f y = Greater) \<and> (?f y = Less \<longrightarrow> ?f x = Less)) ?ds"
  proof (rule sorted_wrt_mono_rel [OF _ assms])
    fix x y assume xy: "descriptor_cmp x y = Less"
    have "?f y = Less \<Longrightarrow> ?f x = Less" using comparator_on.less_trans [OF c xy] by simp
    moreover have "?f y = Greater" if "?f x = Greater"
    proof -
      have "lint_name_cmp n (descriptor_name x) = Less" using that by (simp add: comparator_on.flip [OF c])
      then show ?thesis
        using comparator_on.less_trans [OF c _ xy] by (simp add: comparator_on.flip [OF c])
    qed
    ultimately show "(?f x = Greater \<longrightarrow> ?f y = Greater) \<and> (?f y = Less \<longrightarrow> ?f x = Less)" by blast
  qed
  note search = binary_search_by_exact [OF this]
  have unique: "d = e" if m: "d \<in> set ?ds" "e \<in> set ?ds" "descriptor_name d = descriptor_name e" for d e
  proof -
    obtain i where "i < length ?ds" "?ds ! i = d" using m(1) by (auto simp: in_set_conv_nth)
    moreover obtain j where "j < length ?ds" "?ds ! j = e" using m(2) by (auto simp: in_set_conv_nth)
    ultimately have ij: "i < length ?ds" "j < length ?ds" "?ds ! i = d" "?ds ! j = e" by simp_all
    have "descriptor_cmp d e = Equal" "descriptor_cmp e d = Equal"
      using m(3) by (simp_all add: comparator_on.equal [OF c])
    then have "\<not> i < j" "\<not> j < i"
      using sorted_wrt_nth_less [OF assms, of i j] sorted_wrt_nth_less [OF assms, of j i] ij by auto
    with ij show ?thesis by simp
  qed
  have eq: "?f x = Equal \<longleftrightarrow> descriptor_name x = n" for x by (simp add: comparator_on.equal [OF c])
  show ?thesis
  proof (cases "binary_search_by ?f ?ds")
    case None
    then show ?thesis using search eq by (auto simp: registry_descriptor_def)
  next
    case (Some i)
    then have i: "i < length ?ds" "descriptor_name (?ds ! i) = n" using search eq by auto
    then show ?thesis using Some unique [OF nth_mem [OF i(1)]]
      by (auto simp: registry_descriptor_def list_get_def)
  qed
qed

subsection \<open>Properties\<close>

text \<open>C33. The lint registry is a lookup table: building it succeeds exactly when there are at most
  65536 descriptors, every summary has text and at most 4096 bytes, and no two descriptors share a
  name; and then the binary search of \<open>descriptor\<close> finds exactly the registered descriptor of a
  name.\<close>

theorem registry_lookup_exact:
  "((\<exists>r. registry_new ds = Inr r) \<longleftrightarrow> length ds \<le> 65536 \<and>
      list_all (\<lambda>d. has_text (summary d) \<and> length (summary d) \<le> 4096) ds \<and>
      distinct (map descriptor_name ds)) \<and>
   (registry_new ds = Inr r \<longrightarrow>
      (registry_descriptor r n = Some d \<longleftrightarrow> d \<in> set ds \<and> descriptor_name d = n))"
proof (intro conjI impI)
  let ?l = "sort_by descriptor_cmp ds"
  let ?bad = "\<lambda>d. trim_is_empty (summary d) \<or> length (summary d) > 4096"
  have new: "registry_new ds = Inr r \<longleftrightarrow> length ds \<le> 65536 \<and> find ?bad ?l = None \<and>
      first_duplicate ?l = None \<and> r = \<lparr>descriptors = ?l\<rparr>" for r
    by (auto simp: registry_new_def Let_def split: option.splits)
  have bad: "find ?bad ?l = None \<longleftrightarrow> list_all (\<lambda>d. has_text (summary d) \<and> length (summary d) \<le> 4096) ds"
  proof -
    have "\<not> trim_is_empty t \<longleftrightarrow> has_text t" for t
      by (simp add: trim_is_empty_def has_text_def list_all_iff list_ex_iff)
    then show ?thesis by (auto simp: find_None_iff list_all_iff)
  qed
  have dup: "first_duplicate ?l = None \<longleftrightarrow> distinct (map descriptor_name ds)"
  proof -
    have "distinct (map descriptor_name ?l) \<longleftrightarrow> distinct (map descriptor_name ds)"
      by (metis mset_sort_by mset_map mset_eq_imp_distinct_iff)
    moreover have "distinct (map descriptor_name ?l)" if none: "first_duplicate ?l = None"
    proof -
      have "descriptor_name (?l ! i) \<noteq> descriptor_name (?l ! j)" if "i < j" "j < length ?l" for i j
        using sorted_wrt_nth_less [OF descriptors_strict [OF none] that]
          comparator_on.equal [OF comparator_descriptor, of "?l ! i" "?l ! j"] by auto
      then show ?thesis by (auto simp: distinct_conv_nth nat_neq_iff) metis
    qed
    moreover have "first_duplicate ?l = None" if "distinct (map descriptor_name ?l)"
      unfolding first_duplicate_None successively_conv_nth
      using that by (auto simp: distinct_conv_nth)
    ultimately show ?thesis by blast
  qed
  show "(\<exists>r. registry_new ds = Inr r) \<longleftrightarrow> length ds \<le> 65536 \<and>
      list_all (\<lambda>d. has_text (summary d) \<and> length (summary d) \<le> 4096) ds \<and>
      distinct (map descriptor_name ds)"
    unfolding new bad dup by simp
  assume "registry_new ds = Inr r"
  then have r: "first_duplicate ?l = None" "r = \<lparr>descriptors = ?l\<rparr>" by (simp_all add: new)
  show "registry_descriptor r n = Some d \<longleftrightarrow> d \<in> set ds \<and> descriptor_name d = n"
    using registry_descriptor_Some [of r n d] descriptors_strict [OF r(1)] r(2) by simp
qed

definition sample_descriptor :: lint_descriptor where
  "sample_descriptor = \<lparr>descriptor_name = LintName [0x64], layer = HirLayer, summary = [0x64],
     default_level = Warn\<rparr>"

theorem registry_lookup_exact_witness:
  "registry_new [sample_descriptor] = Inr \<lparr>descriptors = [sample_descriptor]\<rparr> \<and>
   registry_descriptor \<lparr>descriptors = [sample_descriptor]\<rparr> (LintName [0x64]) = Some sample_descriptor"
proof -
  have r: "registry_new [sample_descriptor] = Inr \<lparr>descriptors = [sample_descriptor]\<rparr>"
    by (simp add: registry_new_def sort_by_def sample_descriptor_def trim_is_empty_def utf8_chars_d
        char_is_whitespace_def)
  with registry_lookup_exact [of "[sample_descriptor]" "\<lparr>descriptors = [sample_descriptor]\<rparr>"
      "LintName [0x64]" sample_descriptor]
  show ?thesis by (simp add: sample_descriptor_def)
qed

definition accepts_findings :: "('s, 'h, 'm) lint_request \<Rightarrow> lint_finding list \<Rightarrow> bool" where
  "accepts_findings q fs \<longleftrightarrow>
     configuration_entries (limits q) \<noteq> 0 \<and> max_findings (limits q) \<noteq> 0 \<and>
     max_diagnostic_elements (limits q) \<noteq> 0 \<and> max_diagnostic_bytes (limits q) \<noteq> 0 \<and>
     length (levels (configuration q)) \<le> unat (configuration_entries (limits q)) \<and>
     list_all (\<lambda>n. registry_descriptor (registry q) n \<noteq> None) (map fst (levels (configuration q))) \<and>
     length fs \<le> unat (max_findings (limits q)) \<and>
     list_all (finding_ok q) fs \<and> distinct fs \<and>
     sum_list (map (\<lambda>f. elements_of (finding_diagnostic f)) fs) \<le> unat (max_diagnostic_elements (limits q)) \<and>
     sum_list (map (\<lambda>f. bytes_of (finding_diagnostic f)) fs) \<le> unat (max_diagnostic_bytes (limits q))"

lemma count_guard:
  "(case u32_try_from n of None \<Rightarrow> True | Some m \<Rightarrow> m > l) \<longleftrightarrow> \<not> n \<le> unat (l :: u32)"
  using u32_bound [of l]
  by (auto simp: u32_try_from_def word_less_nat_alt unat_of_nat_u32 split: option.splits)

lemma check_names_Inr:
  "outcome (for_each (\<lambda>_ (work, n). and_then (poll_cancel work) (\<lambda>_. guard_err (P n) (UnknownLint n)))
      () (enumerate k ns)) = Inr u \<longleftrightarrow> list_all (\<lambda>n. \<not> P n) ns"
  by (induction ns arbitrary: k) (simp_all add: and_then_Inr step_Inr del: outcome_and_then)

text \<open>C30. What sealing lint output accepts: exactly findings within the limits on their number, nested
  elements and bytes, pairwise different, each registered for the layer of the request, reported at its
  effective level (never an allowed one) with the matching severity and a well-formed diagnostic whose
  repairs are sorted, pairwise disjoint edits; and a configuration that names only registered lints.
  The sealed findings are these findings in canonical order, and the output is denied exactly when one
  of them is at level deny.\<close>

theorem seal_lint_output_exact:
  "exec (\<lambda>_. False) (seal_lint_output q fs) = Inr out \<longleftrightarrow>
     accepts_findings q fs \<and> mset (findings out) = mset fs \<and>
     sorted_wrt (\<lambda>a b. compare_findings a b \<noteq> Greater) (findings out) \<and>
     denied out = list_ex (\<lambda>f. level f = Deny) fs"
proof -
  let ?s = "sort_by compare_findings fs"
  have sorted: "xs = ?s \<longleftrightarrow> mset xs = mset fs \<and> ordered compare_findings xs" for xs
    using finding_order.sorted_unique [of xs fs] finding_order.ordered_sort_by [of fs] by auto
  have dup: "(\<forall>i. Suc i < length ?s \<longrightarrow> ?s ! i \<noteq> ?s ! Suc i) \<longleftrightarrow> distinct fs"
    using finding_order.distinct_adjacent [OF _ finding_order.ordered_sort_by, of fs]
    by (metis inj_on_id2 mset_eq_imp_distinct_iff mset_sort_by)
  have deny: "list_ex (\<lambda>f. level f = Deny) ?s \<longleftrightarrow> list_ex (\<lambda>f. level f = Deny) fs"
    by (simp add: list_ex_iff)
  have sort: "outcome (canonicalize_findings fs) = Inr ?s" if "length fs \<le> unat (max_findings (limits q))"
    unfolding canonicalize_findings_def using comparator_findings
    by (rule run_sort_outcome) (use that u32_below_usize [of "max_findings (limits q)"] in linarith)
  have "outcome (seal_lint_output q fs) = Inr out \<longleftrightarrow>
      configuration_entries (limits q) \<noteq> 0 \<and> max_findings (limits q) \<noteq> 0 \<and>
      max_diagnostic_elements (limits q) \<noteq> 0 \<and> max_diagnostic_bytes (limits q) \<noteq> 0 \<and>
      length (levels (configuration q)) \<le> unat (configuration_entries (limits q)) \<and>
      list_all (\<lambda>n. \<not> registry_descriptor (registry q) n = None) (map fst (levels (configuration q))) \<and>
      length fs \<le> unat (max_findings (limits q)) \<and>
      (\<exists>r. outcome (for_each (check_finding q) (0, 0) (enumerate 0 fs)) = Inr r) \<and>
      (\<exists>xs. outcome (canonicalize_findings fs) = Inr xs \<and>
        (\<exists>dn. outcome (check_duplicates xs) = Inr dn \<and> out = \<lparr>findings = xs, denied = dn\<rparr>))"
    unfolding seal_lint_output_def lint_limits_validate_def check_configuration_def count_guard
    by (simp only: and_then_Inr step_Inr check_names_Inr comp_basic) auto
  moreover have "(\<exists>r. outcome (for_each (check_finding q) (0, 0) (enumerate 0 fs)) = Inr r) \<longleftrightarrow>
      list_all (finding_ok q) fs \<and>
      sum_list (map (\<lambda>f. elements_of (finding_diagnostic f)) fs) \<le> unat (max_diagnostic_elements (limits q)) \<and>
      sum_list (map (\<lambda>f. bytes_of (finding_diagnostic f)) fs) \<le> unat (max_diagnostic_bytes (limits q))"
    by (subst check_findings_accept) simp_all
  moreover have "(\<exists>xs. outcome (canonicalize_findings fs) = Inr xs \<and>
        (\<exists>dn. outcome (check_duplicates xs) = Inr dn \<and> out = \<lparr>findings = xs, denied = dn\<rparr>)) \<longleftrightarrow>
      distinct fs \<and> mset (findings out) = mset fs \<and> ordered compare_findings (findings out) \<and>
      denied out = list_ex (\<lambda>f. level f = Deny) fs"
    if l: "length fs \<le> unat (max_findings (limits q))"
  proof -
    have "out = \<lparr>findings = ?s, denied = dn\<rparr> \<longleftrightarrow> findings out = ?s \<and> denied out = dn" for dn
      by (cases out) auto
    then show ?thesis
      unfolding sort [OF l] sum.inject check_duplicates_Inr using dup deny sorted [of "findings out"] by auto
  qed
  ultimately show ?thesis unfolding exec_quiet accepts_findings_def by blast
qed

end
