(* ===== verification/Package_Graph.thy ===== *)
theory Package_Graph
  imports Comparators Source
begin

text \<open>
  The deterministic package and module graph (\<open>crates/wrela-package\<close>): the builder with its duplicate
  and edge checks, the rejection of dependency cycles (Kahn's algorithm) and of unreachable packages
  (breadth-first search), and the assignment of final identities in canonical order. Indexing and
  subtraction that would panic in the source are the error \<open>Panic\<close> here.
\<close>

subsection \<open>Data\<close>

definition MAX_PACKAGES :: nat where "MAX_PACKAGES = 1000000"
definition MAX_MODULES :: nat where "MAX_MODULES = 1000000"
definition MAX_DEPENDENCIES_PER_PACKAGE :: nat where "MAX_DEPENDENCIES_PER_PACKAGE = 65536"

type_synonym package_id = u32
type_synonym module_id = u32
type_synonym package_handle = u32
type_synonym module_handle = u32
type_synonym dependency_alias = text_bytes
type_synonym module_path = "text_bytes list"

record package_identity =
  identity_name :: text_bytes
  identity_version :: text_bytes
  source_digest :: sha256_digest

definition identity_cmp :: "package_identity \<Rightarrow> package_identity \<Rightarrow> ordering" where
  "identity_cmp a b =
     then_with (str_cmp (identity_name a) (identity_name b))
      (then_with (str_cmp (identity_version a) (identity_version b))
        (slice_cmp cmp_of (source_digest a) (source_digest b)))"

definition path_cmp :: "module_path \<Rightarrow> module_path \<Rightarrow> ordering" where
  "path_cmp = slice_cmp str_cmp"

definition portable_key :: "module_path \<Rightarrow> text_bytes list" where
  "portable_key p = map to_ascii_lowercase p"

record dependency_edge =
  edge_alias :: dependency_alias
  edge_package :: package_id

record package_record =
  package_id_of :: package_id
  package_identity_of :: package_identity
  dependencies :: "dependency_edge list"

record module_record =
  module_id_of :: module_id
  module_package :: package_id
  module_path_of :: module_path
  module_source :: file_id

record package_graph =
  graph_root :: package_id
  graph_packages :: "package_record list"
  graph_modules :: "module_record list"

definition graph_package :: "package_graph \<Rightarrow> package_id \<Rightarrow> package_record option" where
  "graph_package g i = list_get (graph_packages g) (unat i)"

record pending_dependency =
  pending_alias :: dependency_alias
  pending_target :: package_handle

record pending_package =
  pending_identity :: package_identity
  pending_dependencies :: "pending_dependency list"
  dependency_aliases :: "text_bytes set"
  dependency_packages :: "package_handle set"

record pending_module =
  pending_package_of :: package_handle
  pending_path :: module_path
  pending_source :: file_id

record graph_builder =
  root :: package_handle
  packages :: "pending_package list"
  modules :: "pending_module list"
  identities :: "package_identity set"
  module_paths :: "(package_handle \<times> module_path) set"
  portable_module_paths :: "(package_handle \<times> text_bytes list) set"
  module_sources :: "file_id set"

datatype graph_error =
    DuplicatePackage package_identity
  | UnknownPackage package_handle
  | SelfDependency package_handle
  | DuplicateDependencyAlias package_handle dependency_alias
  | DuplicateDependencyPackage package_handle package_handle
  | DuplicateModule package_handle module_path
  | PortableModuleCollision package_handle module_path
  | DuplicateModuleSource file_id
  | DependencyCycle package_handle
  | UnreachablePackage package_handle
  | TooManyDependencies package_handle
  | GraphTooLarge

datatype graph_fault = Panic | Fails graph_error

type_synonym 'a gcomp = "(graph_fault, 'a) comp"

subsection \<open>Building\<close>

definition empty_package :: "package_identity \<Rightarrow> pending_package" where
  "empty_package i = \<lparr>pending_identity = i, pending_dependencies = [], dependency_aliases = {},
     dependency_packages = {}\<rparr>"

definition builder_new :: "package_identity \<Rightarrow> graph_builder" where
  "builder_new i = \<lparr>root = 0, packages = [empty_package i], modules = [], identities = {i},
     module_paths = {}, portable_module_paths = {}, module_sources = {}\<rparr>"

definition package_index :: "graph_builder \<Rightarrow> package_handle \<Rightarrow> nat option" where
  "package_index b h = (if unat h < length (packages b) then Some (unat h) else None)"

definition add_package :: "graph_builder \<Rightarrow> package_identity \<Rightarrow> graph_error + package_handle \<times> graph_builder" where
  "add_package b i =
     (if length (packages b) \<ge> MAX_PACKAGES then Inl GraphTooLarge
      else if i \<in> identities b then Inl (DuplicatePackage i)
      else case u32_try_from (length (packages b)) of
          None \<Rightarrow> Inl GraphTooLarge
        | Some h \<Rightarrow> Inr (h, b\<lparr>identities := insert i (identities b),
            packages := packages b @ [empty_package i]\<rparr>))"

definition add_dependency ::
  "graph_builder \<Rightarrow> package_handle \<Rightarrow> dependency_alias \<Rightarrow> package_handle \<Rightarrow> graph_error + graph_builder" where
  "add_dependency b p a d =
     (if p = d then Inl (SelfDependency p)
      else if package_index b p = None then Inl (UnknownPackage p)
      else if package_index b d = None then Inl (UnknownPackage d)
      else
        let pending = packages b ! unat p; portable_alias = to_ascii_lowercase a
        in if portable_alias \<in> dependency_aliases pending then Inl (DuplicateDependencyAlias p a)
           else if d \<in> dependency_packages pending then Inl (DuplicateDependencyPackage p d)
           else if length (pending_dependencies pending) \<ge> MAX_DEPENDENCIES_PER_PACKAGE
           then Inl (TooManyDependencies p)
           else Inr (b\<lparr>packages := (packages b)[unat p := pending\<lparr>
               dependency_aliases := insert portable_alias (dependency_aliases pending),
               dependency_packages := insert d (dependency_packages pending),
               pending_dependencies := pending_dependencies pending @
                 [\<lparr>pending_alias = a, pending_target = d\<rparr>]\<rparr>]\<rparr>))"

definition add_module ::
  "graph_builder \<Rightarrow> package_handle \<Rightarrow> module_path \<Rightarrow> file_id \<Rightarrow> graph_error + module_handle \<times> graph_builder" where
  "add_module b p mp src =
     (if length (modules b) \<ge> MAX_MODULES then Inl GraphTooLarge
      else if package_index b p = None then Inl (UnknownPackage p)
      else if (p, mp) \<in> module_paths b then Inl (DuplicateModule p mp)
      else if (p, portable_key mp) \<in> portable_module_paths b then Inl (PortableModuleCollision p mp)
      else if src \<in> module_sources b then Inl (DuplicateModuleSource src)
      else case u32_try_from (length (modules b)) of
          None \<Rightarrow> Inl GraphTooLarge
        | Some h \<Rightarrow> Inr (h, b\<lparr>module_sources := insert src (module_sources b),
            modules := modules b @ [\<lparr>pending_package_of = p, pending_path = mp, pending_source = src\<rparr>],
            module_paths := insert (p, mp) (module_paths b),
            portable_module_paths := insert (p, portable_key mp) (portable_module_paths b)\<rparr>))"

subsection \<open>Cycles\<close>

definition index_of :: "'a list \<Rightarrow> nat \<Rightarrow> 'a gcomp" where
  "index_of xs i = or_err (list_get xs i) Panic"

definition record_dependent :: "nat \<Rightarrow> nat list list \<Rightarrow> pending_dependency \<Rightarrow> nat list list gcomp" where
  "record_dependent p dependents e =
     and_then (index_of dependents (unat (pending_target e))) (\<lambda>l.
       ok (dependents[unat (pending_target e) := l @ [p]]))"

definition collect_dependents :: "pending_package list \<Rightarrow> nat list list gcomp" where
  "collect_dependents ps =
     for_each (\<lambda>dependents (p, package). for_each (record_dependent p) dependents (pending_dependencies package))
       (replicate (length ps) []) (enumerate 0 ps)"

text \<open>A \<open>BTreeSet\<close> of indices as its sorted list of elements.\<close>

definition btree_insert :: "nat \<Rightarrow> nat list \<Rightarrow> nat list" where
  "btree_insert x xs = (if x \<in> set xs then xs else insort x xs)"

definition release :: "nat list \<times> nat list \<Rightarrow> nat \<Rightarrow> (nat list \<times> nat list) gcomp" where
  "release = (\<lambda>(remaining, ready) d.
     and_then (index_of remaining d) (\<lambda>count.
       case count of
         0 \<Rightarrow> err Panic
       | Suc k \<Rightarrow> ok (remaining[d := k], if k = 0 then btree_insert d ready else ready)))"

definition positive_count :: "nat list \<Rightarrow> nat" where
  "positive_count remaining = length (filter (\<lambda>c. c \<noteq> 0) remaining)"

lemma positive_count_update:
  "d < length xs \<Longrightarrow> positive_count (xs[d := k]) + (if xs ! d \<noteq> 0 then 1 else 0) =
    positive_count xs + (if k \<noteq> 0 then 1 else 0)"
proof (induction xs arbitrary: d)
  case (Cons x xs)
  show ?case
  proof (cases d)
    case (Suc j)
    with Cons.IH [of j] Cons.prems show ?thesis by (simp add: positive_count_def split: if_splits)
  qed (simp add: positive_count_def)
qed simp

lemma length_btree_insert: "length (btree_insert x xs) \<le> Suc (length xs)"
  by (simp add: btree_insert_def)

lemma release_Inr:
  "outcome (release (remaining, ready) d) = Inr (remaining', ready') \<longleftrightarrow>
    (\<exists>k. d < length remaining \<and> remaining ! d = Suc k \<and> remaining' = remaining[d := k] \<and>
      ready' = (if k = 0 then btree_insert d ready else ready))"
  by (auto simp: release_def index_of_def list_get_def split: nat.splits)

lemma release_measure:
  assumes "outcome (release (remaining, ready) d) = Inr (remaining', ready')"
  shows "2 * positive_count remaining' + length ready' \<le> 2 * positive_count remaining + length ready"
proof -
  obtain k where "d < length remaining" "remaining ! d = Suc k" "remaining' = remaining[d := k]"
    "ready' = (if k = 0 then btree_insert d ready else ready)"
    using assms by (auto simp: release_Inr)
  with positive_count_update [of d remaining k] length_btree_insert [of d ready]
  show ?thesis by (simp split: if_splits)
qed

lemma releases_measure:
  "outcome (for_each release (remaining, ready) ds) = Inr (remaining', ready') \<Longrightarrow>
    2 * positive_count remaining' + length ready' \<le> 2 * positive_count remaining + length ready"
proof (induction ds arbitrary: remaining ready)
  case (Cons d ds)
  then obtain r q where "outcome (release (remaining, ready) d) = Inr (r, q)"
    "outcome (for_each release (r, q) ds) = Inr (remaining', ready')"
    by (auto simp: and_then_Inr simp del: outcome_and_then)
  with Cons.IH [of r q] release_measure show ?case by fastforce
qed simp

function kahn :: "nat list list \<Rightarrow> nat list \<Rightarrow> nat list \<Rightarrow> nat \<Rightarrow> (nat list \<times> nat) gcomp" where
  "kahn dependents remaining [] completed = ok (remaining, completed)"
| "kahn dependents remaining (i # ready) completed =
     and_then (index_of dependents i) (\<lambda>ds.
     and_then (for_each release (remaining, ready) ds) (\<lambda>(remaining, ready).
       kahn dependents remaining ready (completed + 1)))"
  by pat_completeness auto
termination
proof (relation "measure (\<lambda>(dependents, remaining, ready, completed). 2 * positive_count remaining + length ready)")
  fix dependents :: "nat list list" and remaining ready :: "nat list" and i completed :: nat
    and ds x remaining' ready'
  assume "outcome (for_each release (remaining, ready) ds) = Inr x" "(remaining', ready') = x"
  then show "((dependents, remaining', ready', completed + 1), dependents, remaining, i # ready, completed)
      \<in> measure (\<lambda>(dependents, remaining, ready, completed). 2 * positive_count remaining + length ready)"
    using releases_measure [of remaining ready ds remaining' ready'] by simp
qed simp

definition reject_dependency_cycles :: "pending_package list \<Rightarrow> unit gcomp" where
  "reject_dependency_cycles ps =
     (let remaining = map (\<lambda>p. length (pending_dependencies p)) ps in
      and_then (collect_dependents ps) (\<lambda>dependents.
      and_then (kahn dependents remaining (filter (\<lambda>i. remaining ! i = 0) [0..<length ps]) 0) (\<lambda>(remaining, completed).
        if completed \<noteq> length ps then
          err (Fails (DependencyCycle (word_of_nat
            (case List.find (\<lambda>i. remaining ! i \<noteq> 0) [0..<length remaining] of Some i \<Rightarrow> i | None \<Rightarrow> 0))))
        else ok ())))"

subsection \<open>Reachability\<close>

definition discover :: "bool list \<times> nat list \<Rightarrow> pending_dependency \<Rightarrow> (bool list \<times> nat list) gcomp" where
  "discover = (\<lambda>(reachable, pending) e.
     let d = unat (pending_target e) in
     and_then (index_of reachable d) (\<lambda>seen.
       ok (if \<not> seen then (reachable[d := True], pending @ [d]) else (reachable, pending))))"

definition unseen_count :: "bool list \<Rightarrow> nat" where
  "unseen_count reachable = length (filter (\<lambda>r. \<not> r) reachable)"

lemma unseen_count_update:
  "d < length xs \<Longrightarrow> \<not> xs ! d \<Longrightarrow> Suc (unseen_count (xs[d := True])) = unseen_count xs"
proof (induction xs arbitrary: d)
  case (Cons x xs)
  then show ?case by (cases d) (auto simp: unseen_count_def)
qed simp

lemma discover_Inr:
  "outcome (discover (reachable, pending) e) = Inr (reachable', pending') \<longleftrightarrow>
    unat (pending_target e) < length reachable \<and>
    (if reachable ! unat (pending_target e) then reachable' = reachable \<and> pending' = pending
     else reachable' = reachable[unat (pending_target e) := True] \<and>
       pending' = pending @ [unat (pending_target e)])"
  by (auto simp: discover_def index_of_def list_get_def Let_def)

lemma discovers_measure:
  "outcome (for_each discover (reachable, pending) es) = Inr (reachable', pending') \<Longrightarrow>
    2 * unseen_count reachable' + length pending' \<le> 2 * unseen_count reachable + length pending"
proof (induction es arbitrary: reachable pending)
  case (Cons e es)
  then obtain r q where d: "outcome (discover (reachable, pending) e) = Inr (r, q)"
    and t: "outcome (for_each discover (r, q) es) = Inr (reachable', pending')"
    by (auto simp: and_then_Inr simp del: outcome_and_then)
  have "2 * unseen_count r + length q \<le> 2 * unseen_count reachable + length pending"
    using d unseen_count_update [of "unat (pending_target e)" reachable]
    by (auto simp: discover_Inr split: if_splits)
  with Cons.IH [OF t] show ?case by simp
qed simp

function bfs :: "pending_package list \<Rightarrow> bool list \<Rightarrow> nat list \<Rightarrow> bool list gcomp" where
  "bfs ps reachable [] = ok reachable"
| "bfs ps reachable (i # pending) =
     and_then (index_of ps i) (\<lambda>p.
     and_then (for_each discover (reachable, pending) (pending_dependencies p)) (\<lambda>(reachable, pending).
       bfs ps reachable pending))"
  by pat_completeness auto
termination
proof (relation "measure (\<lambda>(ps, reachable, pending). 2 * unseen_count reachable + length pending)")
  fix ps :: "pending_package list" and reachable reachable' :: "bool list" and i :: nat
    and pending pending' :: "nat list" and p x
  assume "outcome (for_each discover (reachable, pending) (pending_dependencies p)) = Inr x"
    "(reachable', pending') = x"
  then show "((ps, reachable', pending'), ps, reachable, i # pending)
      \<in> measure (\<lambda>(ps, reachable, pending). 2 * unseen_count reachable + length pending)"
    using discovers_measure [of reachable pending "pending_dependencies p" reachable' pending'] by auto
qed simp

definition reject_unreachable_packages :: "pending_package list \<Rightarrow> package_handle \<Rightarrow> unit gcomp" where
  "reject_unreachable_packages ps r =
     and_then (index_of (replicate (length ps) False) (unat r)) (\<lambda>_.
     and_then (bfs ps ((replicate (length ps) False)[unat r := True]) [unat r]) (\<lambda>reachable.
       case List.find (\<lambda>i. \<not> reachable ! i) [0..<length reachable] of
         Some i \<Rightarrow> err (Fails (UnreachablePackage (word_of_nat i)))
       | None \<Rightarrow> ok ()))"

subsection \<open>Finishing\<close>

definition package_order :: "pending_package list \<Rightarrow> nat list" where
  "package_order ps =
     0 # sort_by (\<lambda>l r. identity_cmp (pending_identity (ps ! l)) (pending_identity (ps ! r))) [1..<length ps]"

definition assign_ids :: "nat \<Rightarrow> nat list \<Rightarrow> package_id list gcomp" where
  "assign_ids n order =
     for_each (\<lambda>ids (final_index, pending_index).
         and_then (or_err (u32_try_from final_index) (Fails GraphTooLarge)) (\<lambda>i.
         and_then (guard_err (length ids \<le> pending_index) Panic) (\<lambda>_.
           ok (ids[pending_index := i])))) (replicate n 0) (enumerate 0 order)"

definition final_edge :: "package_id list \<Rightarrow> pending_dependency \<Rightarrow> dependency_edge gcomp" where
  "final_edge ids e =
     and_then (index_of ids (unat (pending_target e))) (\<lambda>i.
       ok \<lparr>edge_alias = pending_alias e, edge_package = i\<rparr>)"

definition collect :: "('x \<Rightarrow> 'y gcomp) \<Rightarrow> 'x list \<Rightarrow> 'y list gcomp" where
  "collect f xs = for_each (\<lambda>acc x. and_then (f x) (\<lambda>y. ok (acc @ [y]))) [] xs"

definition final_package :: "pending_package list \<Rightarrow> package_id list \<Rightarrow> nat \<Rightarrow> package_record gcomp" where
  "final_package ps ids k =
     and_then (index_of ps k) (\<lambda>p.
     and_then (collect (final_edge ids) (pending_dependencies p)) (\<lambda>edges.
     and_then (index_of ids k) (\<lambda>i.
       ok \<lparr>package_id_of = i, package_identity_of = pending_identity p,
           dependencies = sort_by (\<lambda>l r. str_cmp (edge_alias l) (edge_alias r)) edges\<rparr>)))"

definition module_cmp :: "package_id list \<Rightarrow> pending_module \<Rightarrow> pending_module \<Rightarrow> ordering" where
  "module_cmp ids l r =
     then_with (cmp_of (ids ! unat (pending_package_of l)) (ids ! unat (pending_package_of r)))
       (path_cmp (pending_path l) (pending_path r))"

definition final_module :: "package_id list \<Rightarrow> nat \<times> pending_module \<Rightarrow> module_record gcomp" where
  "final_module ids = (\<lambda>(index, m).
     and_then (or_err (u32_try_from index) (Fails GraphTooLarge)) (\<lambda>i.
     and_then (index_of ids (unat (pending_package_of m))) (\<lambda>p.
       ok \<lparr>module_id_of = i, module_package = p, module_path_of = pending_path m,
           module_source = pending_source m\<rparr>)))"

definition finish :: "graph_builder \<Rightarrow> package_graph gcomp" where
  "finish b =
     (let ps = packages b in
      and_then (reject_dependency_cycles ps) (\<lambda>_.
      and_then (reject_unreachable_packages ps (root b)) (\<lambda>_.
      and_then (assign_ids (length ps) (package_order ps)) (\<lambda>ids.
      and_then (collect (final_package ps ids) (package_order ps)) (\<lambda>final_packages.
      and_then (guard_err (list_ex (\<lambda>m. length ids \<le> unat (pending_package_of m)) (modules b)) Panic) (\<lambda>_.
      and_then (collect (final_module ids) (enumerate 0 (sort_by (module_cmp ids) (modules b)))) (\<lambda>final_modules.
        ok \<lparr>graph_root = 0, graph_packages = final_packages, graph_modules = final_modules\<rparr>)))))))"

subsection \<open>Reachable builders\<close>

inductive built :: "graph_builder \<Rightarrow> bool" where
  built_new: "built (builder_new i)"
| built_package: "built b \<Longrightarrow> add_package b i = Inr (h, b') \<Longrightarrow> built b'"
| built_dependency: "built b \<Longrightarrow> add_dependency b p a d = Inr b' \<Longrightarrow> built b'"
| built_module: "built b \<Longrightarrow> add_module b p mp src = Inr (h, b') \<Longrightarrow> built b'"

definition package_ok :: "nat \<Rightarrow> nat \<Rightarrow> pending_package \<Rightarrow> bool" where
  "package_ok n k p \<longleftrightarrow>
     (\<forall>e \<in> set (pending_dependencies p). unat (pending_target e) < n \<and> unat (pending_target e) \<noteq> k) \<and>
     distinct (map pending_target (pending_dependencies p)) \<and>
     distinct (map (\<lambda>e. to_ascii_lowercase (pending_alias e)) (pending_dependencies p)) \<and>
     dependency_aliases p = (\<lambda>e. to_ascii_lowercase (pending_alias e)) ` set (pending_dependencies p) \<and>
     dependency_packages p = pending_target ` set (pending_dependencies p) \<and>
     length (pending_dependencies p) \<le> MAX_DEPENDENCIES_PER_PACKAGE"

definition builder_inv :: "graph_builder \<Rightarrow> bool" where
  "builder_inv b \<longleftrightarrow>
     root b = 0 \<and> packages b \<noteq> [] \<and> length (packages b) \<le> MAX_PACKAGES \<and>
     identities b = pending_identity ` set (packages b) \<and> distinct (map pending_identity (packages b)) \<and>
     (\<forall>k < length (packages b). package_ok (length (packages b)) k (packages b ! k)) \<and>
     length (modules b) \<le> MAX_MODULES \<and>
     (\<forall>m \<in> set (modules b). unat (pending_package_of m) < length (packages b)) \<and>
     distinct (map (\<lambda>m. (pending_package_of m, portable_key (pending_path m))) (modules b)) \<and>
     distinct (map pending_source (modules b)) \<and>
     module_paths b = (\<lambda>m. (pending_package_of m, pending_path m)) ` set (modules b) \<and>
     portable_module_paths b = (\<lambda>m. (pending_package_of m, portable_key (pending_path m))) ` set (modules b) \<and>
     module_sources b = pending_source ` set (modules b)"

lemma package_ok_mono: "package_ok n k p \<Longrightarrow> n \<le> m \<Longrightarrow> package_ok m k p"
  by (auto simp: package_ok_def)

lemma builder_inv_new: "builder_inv (builder_new i)"
  by (simp add: builder_inv_def builder_new_def empty_package_def package_ok_def MAX_PACKAGES_def)

lemma builder_inv_package:
  assumes inv: "builder_inv b" and add: "add_package b i = Inr (h, b')"
  shows "builder_inv b'"
proof -
  have b': "length (packages b) < MAX_PACKAGES" "i \<notin> identities b"
    "b' = b\<lparr>identities := insert i (identities b), packages := packages b @ [empty_package i]\<rparr>"
    using add by (auto simp: add_package_def split: if_splits option.splits)
  have "package_ok (Suc (length (packages b))) k ((packages b @ [empty_package i]) ! k)"
    if "k < Suc (length (packages b))" for k
  proof (cases "k = length (packages b)")
    case True
    then show ?thesis by (simp add: package_ok_def empty_package_def)
  next
    case False
    with that have k: "k < length (packages b)" by simp
    then have "package_ok (length (packages b)) k (packages b ! k)" using inv by (simp add: builder_inv_def)
    then have "package_ok (Suc (length (packages b))) k (packages b ! k)" by (rule package_ok_mono) simp
    with k show ?thesis by (simp add: nth_append)
  qed
  with inv b' show ?thesis
    by (auto simp: builder_inv_def empty_package_def less_SucI)
qed

lemma builder_inv_dependency:
  assumes inv: "builder_inv b" and add: "add_dependency b p a d = Inr b'"
  shows "builder_inv b'"
proof -
  let ?n = "length (packages b)" and ?p = "packages b ! unat p"
  let ?e = "\<lparr>pending_alias = a, pending_target = d\<rparr>"
  let ?q = "?p\<lparr>dependency_aliases := insert (to_ascii_lowercase a) (dependency_aliases ?p),
      dependency_packages := insert d (dependency_packages ?p),
      pending_dependencies := pending_dependencies ?p @ [?e]\<rparr>"
  have g: "p \<noteq> d" "unat p < ?n" "unat d < ?n" "to_ascii_lowercase a \<notin> dependency_aliases ?p"
    "d \<notin> dependency_packages ?p" "length (pending_dependencies ?p) < MAX_DEPENDENCIES_PER_PACKAGE"
    "b' = b\<lparr>packages := (packages b)[unat p := ?q]\<rparr>"
    using add by (auto simp: add_dependency_def package_index_def Let_def split: if_splits)
  have "package_ok ?n (unat p) ?p" using inv g(2) by (simp add: builder_inv_def)
  then have q: "package_ok ?n (unat p) ?q"
    using g by (auto simp: package_ok_def word_unat_eq_iff)
  have ident: "map pending_identity ((packages b)[unat p := ?q]) = map pending_identity (packages b)"
    using g(2) by (simp add: map_update list_update_same_conv)
  then have "pending_identity ` set ((packages b)[unat p := ?q]) = pending_identity ` set (packages b)"
    by (metis list.set_map)
  moreover have "package_ok ?n k ((packages b)[unat p := ?q] ! k)" if "k < ?n" for k
    using q that inv by (cases "k = unat p") (auto simp: builder_inv_def)
  ultimately show ?thesis using inv g(7) ident by (simp add: builder_inv_def)
qed

lemma builder_inv_module:
  assumes inv: "builder_inv b" and add: "add_module b p mp src = Inr (h, b')"
  shows "builder_inv b'"
proof -
  let ?m = "\<lparr>pending_package_of = p, pending_path = mp, pending_source = src\<rparr>"
  have g: "length (modules b) < MAX_MODULES" "unat p < length (packages b)"
    "(p, portable_key mp) \<notin> portable_module_paths b" "src \<notin> module_sources b"
    "b' = b\<lparr>module_sources := insert src (module_sources b), modules := modules b @ [?m],
      module_paths := insert (p, mp) (module_paths b),
      portable_module_paths := insert (p, portable_key mp) (portable_module_paths b)\<rparr>"
    using add by (auto simp: add_module_def package_index_def split: if_splits option.splits)
  with inv show ?thesis by (auto simp: builder_inv_def)
qed

lemma built_inv: "built b \<Longrightarrow> builder_inv b"
  by (induction rule: built.induct)
    (auto intro: builder_inv_new builder_inv_package builder_inv_dependency builder_inv_module)

end
