(* ===== verification/Package_Cycles.thy ===== *)
theory Package_Cycles
  imports Package_Graph
begin

text \<open>
  The graph algorithms of the package graph: Kahn's algorithm completes exactly on acyclic dependency
  relations, and the breadth-first search marks exactly the packages reachable from the root. Neither
  panics when every dependency names an existing package.
\<close>

subsection \<open>The dependency relation\<close>

definition targets :: "pending_package \<Rightarrow> nat list" where
  "targets p = map (\<lambda>e. unat (pending_target e)) (pending_dependencies p)"

definition depends_on :: "pending_package list \<Rightarrow> (nat \<times> nat) set" where
  "depends_on ps = {(p, d). p < length ps \<and> d \<in> set (targets (ps ! p))}"

definition closed_graph :: "pending_package list \<Rightarrow> bool" where
  "closed_graph ps \<longleftrightarrow> (\<forall>p \<in> set ps. \<forall>d \<in> set (targets p). d < length ps)"

lemma closed_graph_nth: "closed_graph ps \<Longrightarrow> p < length ps \<Longrightarrow> d \<in> set (targets (ps ! p)) \<Longrightarrow> d < length ps"
  by (auto simp: closed_graph_def)

lemma depends_on_bounds: "closed_graph ps \<Longrightarrow> (p, d) \<in> depends_on ps \<Longrightarrow> p < length ps \<and> d < length ps"
  by (auto simp: depends_on_def closed_graph_def)

lemma finite_depends_on: "closed_graph ps \<Longrightarrow> finite (depends_on ps)"
  by (rule finite_subset [of _ "{..<length ps} \<times> {..<length ps}"]) (auto dest: depends_on_bounds)

lemma cycle_in_closed_set:
  assumes "finite R" and "x \<in> U" and "\<And>u. u \<in> U \<Longrightarrow> \<exists>v \<in> U. (u, v) \<in> R"
  shows "\<exists>c \<in> U. (c, c) \<in> R\<^sup>+"
proof (rule ccontr)
  assume no: "\<not> (\<exists>c \<in> U. (c, c) \<in> R\<^sup>+)"
  let ?S = "R \<inter> U \<times> U"
  have "acyclic ?S"
  proof (rule acyclicI, rule allI, rule notI)
    fix c assume "(c, c) \<in> ?S\<^sup>+"
    then have "(c, c) \<in> R\<^sup>+" by (rule trancl_mono) simp
    moreover have "c \<in> U" using \<open>(c, c) \<in> ?S\<^sup>+\<close> by (cases rule: tranclE) auto
    ultimately show False using no by blast
  qed
  moreover have "finite ?S" using assms(1) by simp
  ultimately have "wf (?S\<inverse>)" using finite_acyclic_wf_converse by blast
  then obtain z where "z \<in> U" "\<And>y. (y, z) \<in> ?S\<inverse> \<Longrightarrow> y \<notin> U" using assms(2) by (rule wfE_min) blast
  with assms(3) [of z] show False by blast
qed

subsection \<open>Collecting dependents\<close>

lemma index_of_Inr [simp]: "outcome (index_of xs i) = Inr x \<longleftrightarrow> i < length xs \<and> x = xs ! i"
  by (auto simp: index_of_def list_get_def)

lemma index_of_ok: "i < length xs \<Longrightarrow> outcome (index_of xs i) = Inr (xs ! i)"
  by simp

lemma record_dependents:
  "\<forall>e \<in> set es. unat (pending_target e) < length ds \<Longrightarrow>
    \<exists>ds'. outcome (for_each (record_dependent p) ds es) = Inr ds' \<and> length ds' = length ds \<and>
      (\<forall>d < length ds. \<forall>x. count_list (ds' ! d) x = count_list (ds ! d) x +
        (if x = p then count_list (map (\<lambda>e. unat (pending_target e)) es) d else 0))"
proof (induction es arbitrary: ds)
  case (Cons e es)
  let ?t = "unat (pending_target e)" and ?ds = "ds[unat (pending_target e) := ds ! unat (pending_target e) @ [p]]"
  have t: "?t < length ds" using Cons.prems by simp
  then have step: "outcome (record_dependent p ds e) = Inr ?ds"
    by (simp add: record_dependent_def index_of_ok)
  obtain ds' where ds': "outcome (for_each (record_dependent p) ?ds es) = Inr ds'" "length ds' = length ds"
    "\<And>d x. d < length ds \<Longrightarrow> count_list (ds' ! d) x = count_list (?ds ! d) x +
        (if x = p then count_list (map (\<lambda>e. unat (pending_target e)) es) d else 0)"
    using Cons.IH [of ?ds] Cons.prems by auto
  have "count_list (ds' ! d) x = count_list (ds ! d) x +
      (if x = p then count_list (map (\<lambda>e. unat (pending_target e)) (e # es)) d else 0)" if "d < length ds" for d x
    using ds'(3) [OF that, of x] t by (cases "d = ?t") auto
  with step ds'(1,2) show ?case by simp
qed simp

lemma collect_dependents_from:
  "\<forall>q \<in> set qs. \<forall>d \<in> set (targets q). d < length ds \<Longrightarrow>
    \<exists>ds'. outcome (for_each (\<lambda>ds (p, package). for_each (record_dependent p) ds (pending_dependencies package))
        ds (enumerate k qs)) = Inr ds' \<and> length ds' = length ds \<and>
      (\<forall>d < length ds. \<forall>x. count_list (ds' ! d) x = count_list (ds ! d) x +
        (if k \<le> x \<and> x < k + length qs then count_list (targets (qs ! (x - k))) d else 0))"
proof (induction qs arbitrary: ds k)
  case (Cons q qs)
  obtain ds1 where ds1: "outcome (for_each (record_dependent k) ds (pending_dependencies q)) = Inr ds1"
    "length ds1 = length ds"
    "\<And>d x. d < length ds \<Longrightarrow> count_list (ds1 ! d) x = count_list (ds ! d) x +
        (if x = k then count_list (targets q) d else 0)"
    using record_dependents [of "pending_dependencies q" ds k] Cons.prems by (auto simp: targets_def)
  obtain ds' where ds': "outcome (for_each (\<lambda>ds (p, package). for_each (record_dependent p) ds
        (pending_dependencies package)) ds1 (enumerate (Suc k) qs)) = Inr ds'" "length ds' = length ds1"
      "\<And>d x. d < length ds1 \<Longrightarrow> count_list (ds' ! d) x = count_list (ds1 ! d) x +
        (if Suc k \<le> x \<and> x < Suc k + length qs then count_list (targets (qs ! (x - Suc k))) d else 0)"
    using Cons.IH [of ds1 "Suc k"] Cons.prems ds1(2) by auto
  have "count_list (ds' ! d) x = count_list (ds ! d) x +
      (if k \<le> x \<and> x < k + length (q # qs) then count_list (targets ((q # qs) ! (x - k))) d else 0)"
    if "d < length ds" for d x
  proof -
    consider "x < k" | "x = k" | "k < x" by linarith
    then show ?thesis
    proof cases
      case 3
      then have "(q # qs) ! (x - k) = qs ! (x - Suc k)" by (simp add: nth_Cons')
      with 3 show ?thesis using ds1(2,3) ds'(3) that by auto
    qed (use ds1(2,3) ds'(3) that in auto)
  qed
  with ds1(1,2) ds'(1,2) show ?case by simp
qed simp

lemma collect_dependents_ok:
  assumes "closed_graph ps"
  shows "\<exists>ds. outcome (collect_dependents ps) = Inr ds \<and> length ds = length ps \<and>
    (\<forall>d < length ps. \<forall>x. count_list (ds ! d) x = (if x < length ps then count_list (targets (ps ! x)) d else 0))"
  using collect_dependents_from [of ps "replicate (length ps) []" 0] assms
  unfolding collect_dependents_def closed_graph_def by auto

subsection \<open>Kahn's algorithm\<close>

lemma set_btree_insert: "set (btree_insert x xs) = insert x (set xs)"
  by (auto simp: btree_insert_def set_insort_key)

lemma distinct_btree_insert: "distinct xs \<Longrightarrow> distinct (btree_insert x xs)"
  by (simp add: btree_insert_def distinct_insort)

lemma releases_ok:
  "distinct ready \<Longrightarrow> \<forall>d \<in> set ds. d < length remaining \<Longrightarrow>
    \<forall>p < length remaining. count_list ds p \<le> remaining ! p \<Longrightarrow>
    \<exists>remaining' ready'. outcome (for_each release (remaining, ready) ds) = Inr (remaining', ready') \<and>
      length remaining' = length remaining \<and> distinct ready' \<and>
      (\<forall>p < length remaining. remaining' ! p = remaining ! p - count_list ds p) \<and>
      set ready' = set ready \<union> {p \<in> set ds. remaining' ! p = 0}"
proof (induction ds arbitrary: remaining ready)
  case (Cons d ds)
  have d: "d < length remaining" using Cons.prems by simp
  moreover have "0 < remaining ! d" using Cons.prems(3) d by force
  then obtain k where k: "remaining ! d = Suc k" by (cases "remaining ! d") auto
  let ?rem = "remaining[d := k]" and ?ready = "if k = 0 then btree_insert d ready else ready"
  have step: "outcome (release (remaining, ready) d) = Inr (?rem, ?ready)"
    using d k by (simp add: release_Inr)
  have counts: "count_list ds p \<le> ?rem ! p" if "p < length remaining" for p
    using Cons.prems(3) that d k by (cases "p = d") auto
  have "distinct ?ready" using Cons.prems(1) by (simp add: distinct_btree_insert)
  then obtain rem' ready' where ih: "outcome (for_each release (?rem, ?ready) ds) = Inr (rem', ready')"
    "length rem' = length remaining" "distinct ready'"
    "\<And>p. p < length remaining \<Longrightarrow> rem' ! p = ?rem ! p - count_list ds p"
    "set ready' = set ?ready \<union> {p \<in> set ds. rem' ! p = 0}"
    using Cons.IH [of ?ready ?rem] Cons.prems(2) counts by auto
  have rem': "rem' ! p = remaining ! p - count_list (d # ds) p" if "p < length remaining" for p
    using ih(4) [OF that] d k by (cases "p = d") auto
  have "set ready' = set ready \<union> {p \<in> set (d # ds). rem' ! p = 0}"
  proof (cases "k = 0")
    case True
    then have "rem' ! d = 0" using rem' [OF d] k by simp
    with True ih(5) show ?thesis by (auto simp: set_btree_insert)
  next
    case False
    have "d \<in> set ds" if "rem' ! d = 0"
      using that rem' [OF d] k False counts [OF d] d count_notin [of d ds] by (cases "d \<in> set ds") auto
    with False ih(5) show ?thesis by auto
  qed
  with step ih(1,2,3) rem' show ?case by (auto simp: and_then_Inr simp del: outcome_and_then)
qed auto

lemma filter_notin_count:
  "i \<notin> S \<Longrightarrow> length (filter (\<lambda>x. x \<notin> S) xs) = length (filter (\<lambda>x. x \<notin> insert i S) xs) + count_list xs i"
  by (induction xs) auto

text \<open>\<open>kahn_inv ps remaining ready done\<close>: the packages \<open>done\<close> were completed in this order, each after
  its dependencies; \<open>remaining\<close> counts the dependencies still open.\<close>

definition kahn_inv :: "pending_package list \<Rightarrow> nat list \<Rightarrow> nat list \<Rightarrow> nat list \<Rightarrow> bool" where
  "kahn_inv ps remaining ready seq \<longleftrightarrow>
     length remaining = length ps \<and> distinct seq \<and> distinct ready \<and> set ready \<inter> set seq = {} \<and>
     set ready \<union> set seq = {p. p < length ps \<and> remaining ! p = 0} \<and>
     (\<forall>p < length ps. remaining ! p = length (filter (\<lambda>d. d \<notin> set seq) (targets (ps ! p)))) \<and>
     (\<forall>j < length seq. set (targets (ps ! (seq ! j))) \<subseteq> set (take j seq))"

lemma kahn_invD:
  assumes "kahn_inv ps remaining ready seq"
  shows "length remaining = length ps" and "distinct seq" and "distinct ready" and "set ready \<inter> set seq = {}"
    and "set ready \<union> set seq = {p. p < length ps \<and> remaining ! p = 0}"
    and "p < length ps \<Longrightarrow> remaining ! p = length (filter (\<lambda>d. d \<notin> set seq) (targets (ps ! p)))"
    and "j < length seq \<Longrightarrow> set (targets (ps ! (seq ! j))) \<subseteq> set (take j seq)"
  using assms unfolding kahn_inv_def by blast+

lemma kahn_inv_step:
  assumes inv: "kahn_inv ps remaining (i # ready) seq"
    and ds: "\<And>x. count_list ds x = (if x < length ps then count_list (targets (ps ! x)) i else 0)"
    and rel: "length remaining' = length remaining" "distinct ready'"
      "\<And>p. p < length remaining \<Longrightarrow> remaining' ! p = remaining ! p - count_list ds p"
      "set ready' = set ready \<union> {p \<in> set ds. remaining' ! p = 0}"
  shows "kahn_inv ps remaining' ready' (seq @ [i])"
proof -
  let ?n = "length ps"
  have len: "length remaining = ?n" and i: "i < ?n" "i \<notin> set seq" "remaining ! i = 0"
    and sets: "set (i # ready) \<union> set seq = {p. p < ?n \<and> remaining ! p = 0}"
    and rem: "\<And>p. p < ?n \<Longrightarrow> remaining ! p = length (filter (\<lambda>d. d \<notin> set seq) (targets (ps ! p)))"
    and topo: "\<And>j. j < length seq \<Longrightarrow> set (targets (ps ! (seq ! j))) \<subseteq> set (take j seq)"
    using inv unfolding kahn_inv_def by auto
  have rem': "remaining' ! p = length (filter (\<lambda>d. d \<notin> set (seq @ [i])) (targets (ps ! p)))" if "p < ?n" for p
    using rel(3) [of p] rem [OF that] that len ds [of p] filter_notin_count [OF i(2), of "targets (ps ! p)"]
    by simp
  have pending: "0 < remaining ! p" if "p \<in> set ds" for p
  proof -
    have "count_list ds p \<noteq> 0" using that by (metis count_list_0_iff)
    then have p: "p < ?n" "count_list (targets (ps ! p)) i \<noteq> 0" using ds [of p] by (auto split: if_splits)
    then show ?thesis using rem [OF p(1)] filter_notin_count [OF i(2), of "targets (ps ! p)"] by simp
  qed
  have ds_in: "p < ?n" if "p \<in> set ds" for p
    using that ds [of p] by (metis count_list_0_iff)
  have zero: "remaining' ! p = 0 \<longleftrightarrow> remaining ! p = 0 \<or> p \<in> set ds \<and> remaining' ! p = 0" if "p < ?n" for p
    using rel(3) [of p] that len by (cases "p \<in> set ds") (auto simp: count_notin)
  have sets': "set ready' \<union> set (seq @ [i]) = {p. p < ?n \<and> remaining' ! p = 0}"
    using sets rel(4) zero ds_in by auto
  have "set ready' \<inter> set (seq @ [i]) = {}"
  proof -
    have "remaining ! p = 0" if "p \<in> set seq \<union> {i}" for p using that sets by auto
    then have "set ds \<inter> (set seq \<union> {i}) = {}" using pending by fastforce
    moreover have "set ready \<inter> (set seq \<union> {i}) = {}" using inv by (auto simp: kahn_inv_def)
    ultimately show ?thesis using rel(4) by auto
  qed
  moreover have "set (targets (ps ! i)) \<subseteq> set seq"
    using rem [OF i(1)] i(3) by (auto simp: filter_empty_conv)
  then have "set (targets (ps ! ((seq @ [i]) ! j))) \<subseteq> set (take j (seq @ [i]))" if "j < Suc (length seq)" for j
    using that topo [of j] by (cases "j = length seq") (auto simp: nth_append)
  ultimately show ?thesis
    using inv rel(1,2) len i(2) rem' sets' unfolding kahn_inv_def by simp
qed

lemma kahn_ok:
  assumes "closed_graph ps" and ds: "length ds = length ps"
    "\<And>d x. d < length ps \<Longrightarrow> count_list (ds ! d) x = (if x < length ps then count_list (targets (ps ! x)) d else 0)"
  shows "kahn_inv ps remaining ready seq \<Longrightarrow> n = length seq \<Longrightarrow>
    \<exists>remaining' seq'. outcome (kahn ds remaining ready n) = Inr (remaining', length seq') \<and>
      kahn_inv ps remaining' [] seq'"
  using ds
proof (induction ds remaining ready n arbitrary: seq rule: kahn.induct)
  case (1 dependents remaining completed)
  then show ?case by auto
next
  case (2 dependents remaining i ready completed)
  note inv = "2.prems"(1)
  have i: "i < length ps" "length remaining = length ps" "i \<notin> set seq" "distinct ready"
    using inv by (auto simp: kahn_inv_def)
  let ?d = "dependents ! i"
  have d: "outcome (index_of dependents i) = Inr ?d" using i "2.prems"(3) by simp
  have members: "p < length remaining" if "p \<in> set ?d" for p
    using that "2.prems"(4) [OF i(1), of p] i(2) by (metis count_list_0_iff)
  moreover have "count_list ?d p \<le> remaining ! p" if "p < length remaining" for p
    using that inv i "2.prems"(4) [OF i(1), of p] filter_notin_count [OF i(3), of "targets (ps ! p)"]
    by (simp add: kahn_inv_def)
  ultimately obtain remaining' ready' where r: "outcome (for_each release (remaining, ready) ?d) = Inr (remaining', ready')"
    "length remaining' = length remaining" "distinct ready'"
    "\<And>p. p < length remaining \<Longrightarrow> remaining' ! p = remaining ! p - count_list ?d p"
    "set ready' = set ready \<union> {p \<in> set ?d. remaining' ! p = 0}"
    using releases_ok [of ready ?d remaining] i(4) by blast
  have "kahn_inv ps remaining' ready' (seq @ [i])"
    using inv "2.prems"(4) [OF i(1)] r(2-5) by (rule kahn_inv_step)
  then have "\<exists>rem'' seq'. outcome (kahn dependents remaining' ready' (completed + 1)) = Inr (rem'', length seq') \<and>
      kahn_inv ps rem'' [] seq'"
    using "2.IH" [OF d r(1) refl, of "seq @ [i]"] "2.prems"(2-4) by simp
  then show ?case using d r(1) by (auto simp: and_then_Inr simp del: outcome_and_then)
qed

lemma kahn_inv_complete:
  assumes inv: "kahn_inv ps remaining [] seq" and "closed_graph ps"
  shows "length seq = length ps \<longleftrightarrow> acyclic (depends_on ps)"
    and "i < length ps \<Longrightarrow> remaining ! i \<noteq> 0 \<Longrightarrow>
      \<exists>c. (i, c) \<in> (depends_on ps)\<^sup>* \<and> (c, c) \<in> (depends_on ps)\<^sup>+"
    and "length seq \<noteq> length ps \<Longrightarrow> \<exists>i < length ps. remaining ! i \<noteq> 0"
proof -
  let ?n = "length ps" and ?E = "depends_on ps"
  have seq: "distinct seq" "set seq = {p. p < ?n \<and> remaining ! p = 0}"
    and rem: "\<And>p. p < ?n \<Longrightarrow> remaining ! p = length (filter (\<lambda>d. d \<notin> set seq) (targets (ps ! p)))"
    and topo: "\<And>j. j < length seq \<Longrightarrow> set (targets (ps ! (seq ! j))) \<subseteq> set (take j seq)"
    using kahn_invD [OF inv] by (simp_all only: list.set(1) Un_empty_left)
  have stuck: "\<exists>d. (p, d) \<in> ?E \<and> d < ?n \<and> remaining ! d \<noteq> 0" if p: "p < ?n" "remaining ! p \<noteq> 0" for p
  proof -
    obtain d where "d \<in> set (targets (ps ! p))" "d \<notin> set seq"
      using rem [OF p(1)] p(2) by (auto simp: filter_empty_conv)
    with seq(2) p(1) closed_graph_nth [OF assms(2)] show ?thesis by (auto simp: depends_on_def)
  qed
  show reach: "\<exists>c. (i, c) \<in> ?E\<^sup>* \<and> (c, c) \<in> ?E\<^sup>+" if i: "i < ?n" "remaining ! i \<noteq> 0" for i
  proof -
    let ?U = "{u. u < ?n \<and> remaining ! u \<noteq> 0 \<and> (i, u) \<in> ?E\<^sup>*}"
    have "\<exists>v \<in> ?U. (u, v) \<in> ?E" if "u \<in> ?U" for u
      using stuck [of u] that by (auto intro: rtrancl_into_rtrancl)
    then show ?thesis
      using cycle_in_closed_set [OF finite_depends_on [OF assms(2)], of i ?U] i by auto
  qed
  have all: "length seq = ?n \<longleftrightarrow> (\<forall>p < ?n. remaining ! p = 0)"
  proof -
    have "length seq = card (set seq)" using seq(1) by (simp add: distinct_card)
    moreover have "set seq \<subseteq> {..<?n}" using seq(2) by auto
    then have "card (set seq) = ?n \<longleftrightarrow> set seq = {..<?n}"
      by (metis card_lessThan card_subset_eq finite_lessThan)
    moreover have "set seq = {..<?n} \<longleftrightarrow> (\<forall>p < ?n. remaining ! p = 0)" unfolding seq(2) by auto
    ultimately show ?thesis by simp
  qed
  then show "length seq \<noteq> ?n \<Longrightarrow> \<exists>i < ?n. remaining ! i \<noteq> 0" by auto
  show "length seq = ?n \<longleftrightarrow> acyclic ?E"
  proof
    assume full: "length seq = ?n"
    then have mem: "\<And>p. p < ?n \<Longrightarrow> p \<in> set seq" unfolding seq(2) using all by simp
    define rank where "rank p = (LEAST j. j < length seq \<and> seq ! j = p)" for p
    have rank: "rank p < length seq \<and> seq ! rank p = p" if "p \<in> set seq" for p
    proof -
      from that have "\<exists>j. j < length seq \<and> seq ! j = p" by (simp only: in_set_conv_nth)
      then show ?thesis unfolding rank_def by (rule LeastI_ex)
    qed
    have "rank d < rank p" if "(p, d) \<in> ?E" for p d
    proof -
      have p: "p \<in> set seq" using that mem by (auto simp: depends_on_def)
      have "d \<in> set (targets (ps ! (seq ! rank p)))" using that rank [OF p] by (auto simp: depends_on_def)
      then have "d \<in> set (take (rank p) seq)" using topo rank [OF p] by blast
      then obtain j where "j < rank p" "j < length seq" "seq ! j = d" by (auto simp: in_set_conv_nth)
      then have "rank d \<le> j" unfolding rank_def [of d] by (intro Least_le) simp
      with \<open>j < rank p\<close> show ?thesis by simp
    qed
    then have "?E\<inverse> \<subseteq> measure rank" by auto
    then have "acyclic (?E\<inverse>)" by (intro wf_acyclic) (rule wf_subset [OF wf_measure])
    then show "acyclic ?E" by simp
  next
    assume "acyclic ?E"
    then show "length seq = ?n" using all reach by (auto simp: acyclic_def)
  qed
qed

lemma kahn_inv_start:
  "kahn_inv ps (map (\<lambda>p. length (pending_dependencies p)) ps)
     (filter (\<lambda>i. map (\<lambda>p. length (pending_dependencies p)) ps ! i = 0) [0..<length ps]) []"
  by (auto simp: kahn_inv_def targets_def)

lemma find_upt:
  "List.find P [0..<n] = Some i \<longleftrightarrow> i < n \<and> P i \<and> (\<forall>j < i. \<not> P j)"
  "List.find P [0..<n] = None \<longleftrightarrow> (\<forall>j < n. \<not> P j)"
  by (auto simp: find_Some_iff find_None_iff)

lemma reject_dependency_cycles_outcome:
  assumes "closed_graph ps" and "length ps \<le> MAX_PACKAGES"
  shows "outcome (reject_dependency_cycles ps) = Inr () \<longleftrightarrow> acyclic (depends_on ps)"
    and "outcome (reject_dependency_cycles ps) = Inl f \<Longrightarrow>
      \<exists>h c. f = Fails (DependencyCycle h) \<and> unat h < length ps \<and>
        (unat h, c) \<in> (depends_on ps)\<^sup>* \<and> (c, c) \<in> (depends_on ps)\<^sup>+"
proof -
  let ?rem = "map (\<lambda>p. length (pending_dependencies p)) ps"
  obtain ds where ds: "outcome (collect_dependents ps) = Inr ds" "length ds = length ps"
    "\<And>d x. d < length ps \<Longrightarrow> count_list (ds ! d) x = (if x < length ps then count_list (targets (ps ! x)) d else 0)"
    using collect_dependents_ok [OF assms(1)] by blast
  obtain rem' seq where k: "outcome (kahn ds ?rem (filter (\<lambda>i. ?rem ! i = 0) [0..<length ps]) 0) = Inr (rem', length seq)"
    and inv: "kahn_inv ps rem' [] seq"
    using kahn_ok [OF assms(1) ds(2,3) kahn_inv_start, of 0] by auto
  note complete = kahn_inv_complete [OF inv assms(1)]
  have len: "length rem' = length ps" using kahn_invD(1) [OF inv] .
  let ?i = "case List.find (\<lambda>i. rem' ! i \<noteq> 0) [0..<length rem'] of Some i \<Rightarrow> i | None \<Rightarrow> 0"
  have run: "outcome (reject_dependency_cycles ps) =
      (if length seq \<noteq> length ps then Inl (Fails (DependencyCycle (word_of_nat ?i))) else Inr ())"
    by (simp add: reject_dependency_cycles_def Let_def ds(1) k)
  then show "outcome (reject_dependency_cycles ps) = Inr () \<longleftrightarrow> acyclic (depends_on ps)"
    using complete(1) by simp
  assume "outcome (reject_dependency_cycles ps) = Inl f"
  then have short: "length seq \<noteq> length ps" and f: "f = Fails (DependencyCycle (word_of_nat ?i))"
    using run by (auto split: if_splits)
  then obtain j where "j < length ps" "rem' ! j \<noteq> 0" using complete(3) by blast
  then obtain i where i: "List.find (\<lambda>i. rem' ! i \<noteq> 0) [0..<length rem'] = Some i"
    using find_upt(2) [of "\<lambda>i. rem' ! i \<noteq> 0" "length rem'"] len by (cases "List.find (\<lambda>i. rem' ! i \<noteq> 0) [0..<length rem']") auto
  then have i': "i < length ps" "rem' ! i \<noteq> 0" using find_upt(1) len by auto
  then have "unat (word_of_nat i :: u32) = i" using assms(2) by (intro unat_of_nat_u32) (simp add: MAX_PACKAGES_def)
  with complete(2) [OF i'] i i'(1) f show "\<exists>h c. f = Fails (DependencyCycle h) \<and> unat h < length ps \<and>
        (unat h, c) \<in> (depends_on ps)\<^sup>* \<and> (c, c) \<in> (depends_on ps)\<^sup>+"
    by (intro exI [of _ "word_of_nat i"]) auto
qed

subsection \<open>Breadth-first search\<close>

definition marked :: "bool list \<Rightarrow> nat set" where
  "marked reachable = {i. i < length reachable \<and> reachable ! i}"

lemma discovers_ok:
  "\<forall>e \<in> set es. unat (pending_target e) < length reachable \<Longrightarrow>
    \<exists>reachable' pending'. outcome (for_each discover (reachable, pending) es) = Inr (reachable', pending') \<and>
      length reachable' = length reachable \<and>
      marked reachable' = marked reachable \<union> (\<lambda>e. unat (pending_target e)) ` set es \<and>
      set pending' = set pending \<union> (marked reachable' - marked reachable)"
proof (induction es arbitrary: reachable pending)
  case (Cons e es)
  let ?t = "unat (pending_target e)"
  have t: "?t < length reachable" using Cons.prems by simp
  obtain r q where step: "outcome (discover (reachable, pending) e) = Inr (r, q)" "length r = length reachable"
    "marked r = insert ?t (marked reachable)" "set q = set pending \<union> (marked r - marked reachable)"
  proof (cases "reachable ! ?t")
    case True
    then show thesis using t by (intro that [of reachable pending]) (auto simp: discover_Inr marked_def)
  next
    case False
    have "marked (reachable[?t := True]) = insert ?t (marked reachable)"
      using t by (auto simp: marked_def nth_list_update)
    then show thesis using t False
      by (intro that [of "reachable[?t := True]" "pending @ [?t]"]) (auto simp: discover_Inr marked_def)
  qed
  obtain r' q' where ih: "outcome (for_each discover (r, q) es) = Inr (r', q')" "length r' = length r"
    "marked r' = marked r \<union> (\<lambda>e. unat (pending_target e)) ` set es" "set q' = set q \<union> (marked r' - marked r)"
    using Cons.IH [of r q] Cons.prems step(2) by auto
  have "marked r' = marked reachable \<union> (\<lambda>e. unat (pending_target e)) ` set (e # es)"
    using step(3) ih(3) by auto
  moreover have "set q' = set pending \<union> (marked r' - marked reachable)" using step(3,4) ih(3,4) by auto
  ultimately show ?case using step(1,2) ih(1,2) by (auto simp: and_then_Inr simp del: outcome_and_then)
qed auto

lemma bfs_ok:
  "closed_graph ps \<Longrightarrow> length reachable = length ps \<Longrightarrow> set pending \<subseteq> marked reachable \<Longrightarrow>
    (\<And>i d. i \<in> marked reachable - set pending \<Longrightarrow> (i, d) \<in> depends_on ps \<Longrightarrow> d \<in> marked reachable) \<Longrightarrow>
    \<exists>reachable'. outcome (bfs ps reachable pending) = Inr reachable' \<and> length reachable' = length ps \<and>
      marked reachable' = (depends_on ps)\<^sup>* `` marked reachable"
proof (induction ps reachable pending rule: bfs.induct)
  case (1 ps reachable)
  have "(depends_on ps)\<^sup>* `` marked reachable \<subseteq> marked reachable"
  proof
    fix d assume "d \<in> (depends_on ps)\<^sup>* `` marked reachable"
    then obtain i where "(i, d) \<in> (depends_on ps)\<^sup>*" "i \<in> marked reachable" by blast
    then show "d \<in> marked reachable" by (induction rule: rtrancl_induct) (use "1.prems"(4) in auto)
  qed
  then show ?case using "1.prems"(2) by auto
next
  case (2 ps reachable i pending)
  let ?E = "depends_on ps" and ?p = "ps ! i"
  have i: "i < length ps" "i \<in> marked reachable" using "2.prems"(2,3) by (auto simp: marked_def)
  have targets_i: "(\<lambda>e. unat (pending_target e)) ` set (pending_dependencies ?p) = ?E `` {i}"
    using i(1) by (auto simp: depends_on_def targets_def)
  have "\<forall>e \<in> set (pending_dependencies ?p). unat (pending_target e) < length reachable"
    using closed_graph_nth [OF "2.prems"(1) i(1)] "2.prems"(2) by (simp add: targets_def)
  then obtain r q where d: "outcome (for_each discover (reachable, pending) (pending_dependencies ?p)) = Inr (r, q)"
    "length r = length reachable" "marked r = marked reachable \<union> ?E `` {i}"
    "set q = set pending \<union> (marked r - marked reachable)"
    using discovers_ok [of "pending_dependencies ?p" reachable pending] unfolding targets_i by blast
  have "\<exists>reachable'. outcome (bfs ps r q) = Inr reachable' \<and> length reachable' = length ps \<and>
      marked reachable' = ?E\<^sup>* `` marked r"
  proof (rule "2.IH" [OF _ d(1) refl])
    show "outcome (index_of ps i) = Inr ?p" using i(1) by simp
    show "set q \<subseteq> marked r" using d(3,4) "2.prems"(3) by auto
    show "e \<in> marked r" if "j \<in> marked r - set q" "(j, e) \<in> ?E" for j e
    proof (cases "j = i")
      case True
      with that d(3) show ?thesis by auto
    next
      case False
      with that(1) d(3,4) have "j \<in> marked reachable - set (i # pending)" by auto
      with "2.prems"(4) that(2) d(3) show ?thesis by blast
    qed
    show "closed_graph ps" by fact
    show "length r = length ps" using d(2) "2.prems"(2) by simp
  qed
  moreover have "?E\<^sup>* `` marked r = ?E\<^sup>* `` marked reachable"
    unfolding d(3) using i(2) by (auto intro: converse_rtrancl_into_rtrancl)
  ultimately show ?case using i(1) d(1) by (auto simp: and_then_Inr simp del: outcome_and_then)
qed

lemma reject_unreachable_packages_outcome:
  assumes "closed_graph ps" and "length ps \<le> MAX_PACKAGES" and "unat r < length ps"
  shows "outcome (reject_unreachable_packages ps r) = Inr () \<longleftrightarrow>
      (\<forall>i < length ps. (unat r, i) \<in> (depends_on ps)\<^sup>*)"
    and "outcome (reject_unreachable_packages ps r) = Inl f \<Longrightarrow>
      \<exists>h. f = Fails (UnreachablePackage h) \<and> unat h < length ps \<and> (unat r, unat h) \<notin> (depends_on ps)\<^sup>*"
proof -
  let ?n = "length ps" and ?E = "depends_on ps"
  let ?start = "(replicate ?n False)[unat r := True]"
  have m: "marked ?start = {unat r}" using assms(3) by (auto simp: marked_def nth_list_update)
  obtain reach where reach: "outcome (bfs ps ?start [unat r]) = Inr reach" "length reach = ?n"
    "marked reach = ?E\<^sup>* `` {unat r}"
    using bfs_ok [OF assms(1), of ?start "[unat r]"] m by auto
  have mark: "reach ! i \<longleftrightarrow> (unat r, i) \<in> ?E\<^sup>*" if "i < ?n" for i
    using reach(2,3) that by (auto simp: marked_def set_eq_iff)
  let ?find = "List.find (\<lambda>i. \<not> reach ! i) [0..<?n]"
  have run: "outcome (reject_unreachable_packages ps r) =
      (case ?find of Some i \<Rightarrow> Inl (Fails (UnreachablePackage (word_of_nat i))) | None \<Rightarrow> Inr ())"
    using reach(1,2) assms(3) by (simp add: reject_unreachable_packages_def index_of_ok split: option.split)
  show "outcome (reject_unreachable_packages ps r) = Inr () \<longleftrightarrow> (\<forall>i < ?n. (unat r, i) \<in> ?E\<^sup>*)"
    unfolding run using find_upt(2) [of "\<lambda>i. \<not> reach ! i" ?n] mark by (auto split: option.splits)
  assume "outcome (reject_unreachable_packages ps r) = Inl f"
  then obtain i where i: "?find = Some i" "f = Fails (UnreachablePackage (word_of_nat i))"
    unfolding run by (auto split: option.splits)
  then have "i < ?n" "\<not> reach ! i" using find_upt(1) [of "\<lambda>i. \<not> reach ! i" ?n i] by auto
  moreover have "unat (word_of_nat i :: u32) = i"
    using \<open>i < ?n\<close> assms(2) by (intro unat_of_nat_u32) (simp add: MAX_PACKAGES_def)
  ultimately show "\<exists>h. f = Fails (UnreachablePackage h) \<and> unat h < ?n \<and> (unat r, unat h) \<notin> ?E\<^sup>*"
    using i(2) mark by (intro exI [of _ "word_of_nat i"]) simp
qed

end
