(* ===== verification/Package_Canonical.thy ===== *)
theory Package_Canonical
  imports Package_Cycles
begin

text \<open>
  Finishing a package graph: which builders are accepted, that the finished graph has exactly the
  content of the builder in canonical form, and that the canonical form is unique, so that the graph
  does not depend on the order in which packages, dependencies and modules were discovered.
\<close>

subsection \<open>Content and canonical form\<close>

type_synonym content =
  "package_identity \<times> package_identity set \<times> (package_identity \<times> dependency_alias \<times> package_identity) set \<times>
   (package_identity \<times> module_path \<times> file_id) set"

definition builder_content :: "graph_builder \<Rightarrow> content" where
  "builder_content b =
     (let ps = packages b; ident = (\<lambda>h. pending_identity (ps ! unat h)) in
      (pending_identity (ps ! 0), pending_identity ` set ps,
       \<Union>p \<in> set ps. (\<lambda>e. (pending_identity p, pending_alias e, ident (pending_target e))) `
         set (pending_dependencies p),
       (\<lambda>m. (ident (pending_package_of m), pending_path m, pending_source m)) ` set (modules b)))"

definition graph_content :: "package_graph \<Rightarrow> content" where
  "graph_content g =
     (let ps = graph_packages g; ident = (\<lambda>i. package_identity_of (ps ! unat i)) in
      (package_identity_of (ps ! unat (graph_root g)), package_identity_of ` set ps,
       \<Union>p \<in> set ps. (\<lambda>e. (package_identity_of p, edge_alias e, ident (edge_package e))) `
         set (dependencies p),
       (\<lambda>m. (ident (module_package m), module_path_of m, module_source m)) ` set (graph_modules g)))"

definition module_order :: "module_record \<Rightarrow> module_record \<Rightarrow> ordering" where
  "module_order l r = then_with (cmp_of (module_package l) (module_package r))
     (path_cmp (module_path_of l) (module_path_of r))"

definition alias_order :: "dependency_edge \<Rightarrow> dependency_edge \<Rightarrow> ordering" where
  "alias_order l r = str_cmp (edge_alias l) (edge_alias r)"

definition canonical_graph :: "package_graph \<Rightarrow> bool" where
  "canonical_graph g \<longleftrightarrow>
     graph_root g = 0 \<and> graph_packages g \<noteq> [] \<and> distinct (map package_identity_of (graph_packages g)) \<and>
     map (\<lambda>p. unat (package_id_of p)) (graph_packages g) = [0..<length (graph_packages g)] \<and>
     sorted_wrt (\<lambda>p q. identity_cmp (package_identity_of p) (package_identity_of q) = Less) (tl (graph_packages g)) \<and>
     (\<forall>p \<in> set (graph_packages g). sorted_wrt (\<lambda>d e. alias_order d e = Less) (dependencies p) \<and>
        (\<forall>e \<in> set (dependencies p). unat (edge_package e) < length (graph_packages g))) \<and>
     map (\<lambda>m. unat (module_id_of m)) (graph_modules g) = [0..<length (graph_modules g)] \<and>
     sorted_wrt (\<lambda>l r. module_order l r = Less) (graph_modules g) \<and>
     (\<forall>m \<in> set (graph_modules g). unat (module_package m) < length (graph_packages g))"

subsection \<open>The orders\<close>

lemma comparator_identity: "comparator_on identity_cmp (\<lambda>i. i)"
proof -
  have d: "comparator_on (slice_cmp cmp_of :: u8 list \<Rightarrow> _) (\<lambda>x. x)"
    using comparator_slice [OF comparator_cmp_of] by simp
  have "comparator_on identity_cmp (\<lambda>i. (identity_name i, identity_version i, source_digest i))"
    unfolding identity_cmp_def [abs_def]
    by (intro comparator_then_with comparator_key [OF comparator_str] comparator_key [OF d])
  then show ?thesis by (rule comparator_cong) auto
qed

interpretation identity_order: comparator_on identity_cmp "\<lambda>i. i"
  by (rule comparator_identity)

lemma comparator_path: "comparator_on path_cmp (\<lambda>p. p)"
  using comparator_slice [OF comparator_str] by (simp add: path_cmp_def)

lemma comparator_module: "comparator_on module_order (\<lambda>m. (module_package m, module_path_of m))"
  unfolding module_order_def [abs_def]
  by (intro comparator_then_with comparator_key [OF comparator_cmp_of] comparator_key [OF comparator_path])

lemma comparator_alias: "comparator_on alias_order edge_alias"
  unfolding alias_order_def [abs_def] by (rule comparator_key [OF comparator_str])

lemma comparator_pending:
  "comparator_on (\<lambda>l r. identity_cmp (pending_identity (ps ! l)) (pending_identity (ps ! r)))
     (\<lambda>k. pending_identity (ps ! k))"
  by (rule comparator_key [OF comparator_identity])

lemma comparator_pending_module:
  "comparator_on (module_cmp ids) (\<lambda>m. (ids ! unat (pending_package_of m), pending_path m))"
  unfolding module_cmp_def [abs_def]
  by (intro comparator_then_with comparator_key [OF comparator_cmp_of] comparator_key [OF comparator_path])

text \<open>Two strictly ordered lists with the same elements are equal.\<close>

lemma strict_unique:
  assumes c: "comparator_on c k"
    and "sorted_wrt (\<lambda>x y. c x y = Less) xs" and "sorted_wrt (\<lambda>x y. c x y = Less) ys" and "set xs = set ys"
  shows "xs = ys"
  using assms(2-4)
proof (induction xs arbitrary: ys)
  case (Cons x xs)
  then obtain y ys' where ys: "ys = y # ys'" by (cases ys) auto
  have irr: "c z z \<noteq> Less" for z using comparator_on.equal [OF c, of z z] by simp
  have "x = y"
  proof (rule ccontr)
    assume "x \<noteq> y"
    then have "y \<in> set xs" "x \<in> set ys'" using Cons.prems(3) ys by auto
    then have "c x y = Less" "c y x = Less" using Cons.prems(1,2) ys by auto
    then show False using comparator_on.less_trans [OF c] irr by blast
  qed
  moreover have "x \<notin> set xs" "y \<notin> set ys'" using Cons.prems(1,2) ys irr by auto
  ultimately have "set xs = set ys'" using Cons.prems(3) ys by auto
  with Cons.IH [of ys'] Cons.prems(1,2) ys \<open>x = y\<close> show ?case by simp
qed simp

lemma strict_sort_by:
  assumes c: "comparator_on c k" and "distinct (map k xs)"
  shows "sorted_wrt (\<lambda>x y. c x y = Less) (sort_by c xs)"
proof -
  have "sorted_wrt (\<lambda>x y. c x y \<noteq> Greater \<and> k x \<noteq> k y) (sort_by c xs)"
  proof -
    have "distinct (map k (sort_by c xs))"
      using assms(2) by (metis mset_sort_by mset_map mset_eq_imp_distinct_iff)
    then have "sorted_wrt (\<lambda>x y. k x \<noteq> k y) (sort_by c xs)" by (simp add: distinct_map sorted_wrt_iff_nth_less distinct_conv_nth)
    with comparator_on.ordered_sort_by [OF c, of xs] show ?thesis by (auto simp: sorted_wrt_iff_nth_less)
  qed
  then show ?thesis
    by (rule sorted_wrt_mono_rel [rotated]) (metis comparator_on.equal [OF c] ordering.exhaust)
qed

subsection \<open>What finishing computes\<close>

lemma collect_ok:
  assumes "\<And>x. x \<in> set xs \<Longrightarrow> outcome (f x) = Inr (g x)"
  shows "outcome (collect f xs) = Inr (map g xs)"
proof -
  have "outcome (for_each (\<lambda>acc x. and_then (f x) (\<lambda>y. ok (acc @ [y]))) acc ys) = Inr (acc @ map g ys)"
    if "set ys \<subseteq> set xs" for acc ys
    using that by (induction ys arbitrary: acc) (simp_all add: assms)
  then show ?thesis by (simp add: collect_def)
qed

lemma assign_ids_from:
  "distinct order \<Longrightarrow> \<forall>p \<in> set order. p < length ids \<Longrightarrow> k + length order \<le> 2 ^ 32 \<Longrightarrow>
    \<exists>ids'. outcome (for_each (\<lambda>ids (final_index, pending_index).
         and_then (or_err (u32_try_from final_index) (Fails GraphTooLarge)) (\<lambda>i.
         and_then (guard_err (length ids \<le> pending_index) Panic) (\<lambda>_.
           ok (ids[pending_index := i])))) ids (enumerate k order)) = Inr ids' \<and>
      length ids' = length ids \<and> (\<forall>j < length order. unat (ids' ! (order ! j)) = k + j) \<and>
      (\<forall>p. p \<notin> set order \<longrightarrow> ids' ! p = ids ! p)"
proof (induction order arbitrary: ids k)
  case (Cons p order)
  let ?ids = "ids[p := word_of_nat k]"
  have p: "p < length ids" "k < 2 ^ 32" using Cons.prems by auto
  obtain ids' where ids': "outcome (for_each (\<lambda>ids (final_index, pending_index).
         and_then (or_err (u32_try_from final_index) (Fails GraphTooLarge)) (\<lambda>i.
         and_then (guard_err (length ids \<le> pending_index) Panic) (\<lambda>_.
           ok (ids[pending_index := i])))) ?ids (enumerate (Suc k) order)) = Inr ids'"
      "length ids' = length ids" "\<And>j. j < length order \<Longrightarrow> unat (ids' ! (order ! j)) = Suc k + j"
      "\<And>q. q \<notin> set order \<Longrightarrow> ids' ! q = ?ids ! q"
    using Cons.IH [of ?ids "Suc k"] Cons.prems by auto
  have "unat (ids' ! p) = k"
    using ids'(4) [of p] Cons.prems(1) p by (simp add: unat_of_nat_u32)
  then have "unat (ids' ! ((p # order) ! j)) = k + j" if "j < length (p # order)" for j
    using that ids'(3) by (cases j) auto
  moreover have "ids' ! q = ids ! q" if "q \<notin> set (p # order)" for q
    using ids'(4) [of q] that by simp
  ultimately show ?case using ids'(1,2) p by (simp add: u32_try_from_def)
qed simp

lemma package_order_perm: "ps \<noteq> [] \<Longrightarrow> distinct (package_order ps) \<and> set (package_order ps) = {..<length ps}"
proof -
  assume ne: "ps \<noteq> []"
  let ?c = "\<lambda>l r. identity_cmp (pending_identity (ps ! l)) (pending_identity (ps ! r))"
  have "distinct (sort_by ?c [1..<length ps])" by (metis distinct_upt mset_eq_imp_distinct_iff mset_sort_by)
  moreover have "0 < length ps" using ne by simp
  moreover have "insert 0 {1..<length ps} = {..<length ps}" using \<open>0 < length ps\<close> by auto
  ultimately show ?thesis unfolding package_order_def by simp
qed

lemma length_package_order: "ps \<noteq> [] \<Longrightarrow> length (package_order ps) = length ps"
  by (simp add: package_order_def)

definition final_ids_ok :: "pending_package list \<Rightarrow> package_id list \<Rightarrow> bool" where
  "final_ids_ok ps ids \<longleftrightarrow> length ids = length ps \<and>
     (\<forall>j < length ps. unat (ids ! (package_order ps ! j)) = j)"

lemma assign_ids_ok:
  assumes "ps \<noteq> []" and "length ps \<le> MAX_PACKAGES"
  shows "\<exists>ids. outcome (assign_ids (length ps) (package_order ps)) = Inr ids \<and> final_ids_ok ps ids"
  using assign_ids_from [of "package_order ps" "replicate (length ps) 0" 0] package_order_perm [OF assms(1)]
    length_package_order [OF assms(1)] assms(2)
  by (auto simp: assign_ids_def final_ids_ok_def MAX_PACKAGES_def)

definition finished_package :: "pending_package list \<Rightarrow> package_id list \<Rightarrow> nat \<Rightarrow> package_record" where
  "finished_package ps ids k = \<lparr>package_id_of = ids ! k, package_identity_of = pending_identity (ps ! k),
     dependencies = sort_by alias_order (map (\<lambda>e. \<lparr>edge_alias = pending_alias e,
       edge_package = ids ! unat (pending_target e)\<rparr>) (pending_dependencies (ps ! k)))\<rparr>"

definition finished_module :: "package_id list \<Rightarrow> nat \<times> pending_module \<Rightarrow> module_record" where
  "finished_module ids = (\<lambda>(i, m). \<lparr>module_id_of = word_of_nat i, module_package = ids ! unat (pending_package_of m),
     module_path_of = pending_path m, module_source = pending_source m\<rparr>)"

definition finished_graph :: "graph_builder \<Rightarrow> package_id list \<Rightarrow> package_graph" where
  "finished_graph b ids = \<lparr>graph_root = 0,
     graph_packages = map (finished_package (packages b) ids) (package_order (packages b)),
     graph_modules = map (finished_module ids) (enumerate 0 (sort_by (module_cmp ids) (modules b)))\<rparr>"

lemma builder_inv_closed: "builder_inv b \<Longrightarrow> closed_graph (packages b)"
proof -
  assume inv: "builder_inv b"
  have "unat (pending_target e) < length (packages b)"
    if "k < length (packages b)" "e \<in> set (pending_dependencies (packages b ! k))" for k e
  proof -
    have "package_ok (length (packages b)) k (packages b ! k)" using inv that(1) by (simp add: builder_inv_def)
    then show ?thesis using that(2) by (simp add: package_ok_def)
  qed
  then show ?thesis unfolding closed_graph_def targets_def all_set_conv_all_nth [of "packages b"] by simp
qed

lemma finish_outcome:
  assumes inv: "builder_inv b"
  shows "\<exists>ids. final_ids_ok (packages b) ids \<and>
    outcome (finish b) =
      (case outcome (reject_dependency_cycles (packages b)) of
         Inl f \<Rightarrow> Inl f
       | Inr _ \<Rightarrow> (case outcome (reject_unreachable_packages (packages b) (root b)) of
             Inl f \<Rightarrow> Inl f
           | Inr _ \<Rightarrow> Inr (finished_graph b ids)))"
proof -
  let ?ps = "packages b"
  have ne: "?ps \<noteq> []" "length ?ps \<le> MAX_PACKAGES" using inv by (simp_all add: builder_inv_def)
  obtain ids where ids: "outcome (assign_ids (length ?ps) (package_order ?ps)) = Inr ids" "final_ids_ok ?ps ids"
    using assign_ids_ok [OF ne] by blast
  have len: "length ids = length ?ps" using ids(2) by (simp add: final_ids_ok_def)
  have pkgs: "outcome (collect (final_package ?ps ids) (package_order ?ps)) =
      Inr (map (finished_package ?ps ids) (package_order ?ps))"
  proof (rule collect_ok)
    fix k assume "k \<in> set (package_order ?ps)"
    then have k: "k < length ?ps" using package_order_perm [OF ne(1)] by auto
    have "outcome (collect (final_edge ids) (pending_dependencies (?ps ! k))) =
        Inr (map (\<lambda>e. \<lparr>edge_alias = pending_alias e, edge_package = ids ! unat (pending_target e)\<rparr>)
          (pending_dependencies (?ps ! k)))"
    proof (rule collect_ok)
      fix e assume "e \<in> set (pending_dependencies (?ps ! k))"
      then have "unat (pending_target e) < length ids"
        using closed_graph_nth [OF builder_inv_closed [OF inv] k] len by (simp add: targets_def)
      then show "outcome (final_edge ids e) = Inr \<lparr>edge_alias = pending_alias e, edge_package = ids ! unat (pending_target e)\<rparr>"
        by (simp add: final_edge_def index_of_ok)
    qed
    then show "outcome (final_package ?ps ids k) = Inr (finished_package ?ps ids k)"
      using k len by (simp add: final_package_def finished_package_def index_of_ok alias_order_def [abs_def])
  qed
  let ?ms = "sort_by (module_cmp ids) (modules b)"
  have in_range: "\<forall>m \<in> set (modules b). unat (pending_package_of m) < length ids"
    using inv len by (simp add: builder_inv_def)
  have mods: "outcome (collect (final_module ids) (enumerate 0 ?ms)) = Inr (map (finished_module ids) (enumerate 0 ?ms))"
  proof (rule collect_ok)
    fix x assume "x \<in> set (enumerate 0 ?ms)"
    then have "fst x < length ?ms" "?ms ! fst x = snd x" by (auto simp: in_set_enumerate_eq)
    then have "fst x < length ?ms" "snd x \<in> set ?ms" using nth_mem [of "fst x" ?ms] by simp_all
    then obtain i m where x: "x = (i, m)" "i < length ?ms" "m \<in> set ?ms" by (cases x) simp
    have "length ?ms \<le> MAX_MODULES" using inv by (simp add: builder_inv_def)
    then have "i < 2 ^ 32" using x(2) by (simp add: MAX_MODULES_def)
    with x in_range show "outcome (final_module ids x) = Inr (finished_module ids x)"
      by (simp add: final_module_def finished_module_def index_of_ok u32_try_from_def)
  qed
  have "\<not> list_ex (\<lambda>m. length ids \<le> unat (pending_package_of m)) (modules b)"
    using in_range by (auto simp: list_ex_iff not_le)
  with ids pkgs mods show ?thesis
    by (intro exI [of _ ids]) (auto simp: finish_def Let_def finished_graph_def split: sum.split)
qed

subsection \<open>The finished graph is canonical\<close>

lemma final_id_inverse:
  assumes "final_ids_ok ps ids" and "k < length ps"
  shows "unat (ids ! k) < length ps" and "package_order ps ! unat (ids ! k) = k"
proof -
  have ne: "ps \<noteq> []" using assms(2) by auto
  have "k \<in> set (package_order ps)" using package_order_perm [OF ne] assms(2) by simp
  then obtain j where j: "j < length ps" "package_order ps ! j = k"
    using length_package_order [OF ne] by (auto simp: in_set_conv_nth)
  then have "unat (ids ! k) = j" using assms(1) by (auto simp: final_ids_ok_def)
  with j show "unat (ids ! k) < length ps" "package_order ps ! unat (ids ! k) = k" by simp_all
qed

lemma finished_package_at:
  assumes "final_ids_ok (packages b) ids" and "k < length (packages b)"
  shows "graph_packages (finished_graph b ids) ! unat (ids ! k) = finished_package (packages b) ids k"
proof -
  have "packages b \<noteq> []" using assms(2) by auto
  then show ?thesis
    using final_id_inverse [OF assms] by (simp add: finished_graph_def length_package_order)
qed

lemma alias_distinct: "package_ok n k p \<Longrightarrow> distinct (map pending_alias (pending_dependencies p))"
proof -
  assume "package_ok n k p"
  then have "distinct (map to_ascii_lowercase (map pending_alias (pending_dependencies p)))"
    by (simp add: package_ok_def comp_def)
  then show ?thesis by (simp only: distinct_map [of to_ascii_lowercase])
qed

lemma builder_invD:
  assumes "builder_inv b"
  shows "root b = 0" and "packages b \<noteq> []" and "length (packages b) \<le> MAX_PACKAGES"
    and "distinct (map pending_identity (packages b))"
    and "k < length (packages b) \<Longrightarrow> package_ok (length (packages b)) k (packages b ! k)"
    and "length (modules b) \<le> MAX_MODULES"
    and "m \<in> set (modules b) \<Longrightarrow> unat (pending_package_of m) < length (packages b)"
    and "distinct (map (\<lambda>m. (pending_package_of m, portable_key (pending_path m))) (modules b))"
  using assms by (simp_all add: builder_inv_def)

lemma finished_packages_canonical:
  assumes inv: "builder_inv b" and ids: "final_ids_ok (packages b) ids"
  defines "g \<equiv> finished_graph b ids"
  shows "distinct (map package_identity_of (graph_packages g))"
    and "map (\<lambda>p. unat (package_id_of p)) (graph_packages g) = [0..<length (graph_packages g)]"
    and "sorted_wrt (\<lambda>p q. identity_cmp (package_identity_of p) (package_identity_of q) = Less) (tl (graph_packages g))"
proof -
  let ?ps = "packages b" and ?o = "package_order (packages b)"
  note ne = builder_invD(2) [OF inv]
  note perm = package_order_perm [OF ne]
  have len: "length (graph_packages g) = length ?ps" by (simp add: g_def finished_graph_def length_package_order ne)
  have inj: "inj_on (\<lambda>k. pending_identity (?ps ! k)) {..<length ?ps}"
    using builder_invD(4) [OF inv] by (auto simp: inj_on_def distinct_conv_nth)
  have "map package_identity_of (graph_packages g) = map (\<lambda>k. pending_identity (?ps ! k)) ?o"
    by (simp add: g_def finished_graph_def finished_package_def)
  then show "distinct (map package_identity_of (graph_packages g))"
    using perm inj by (simp add: distinct_map)
  show "map (\<lambda>p. unat (package_id_of p)) (graph_packages g) = [0..<length (graph_packages g)]"
    using ids unfolding len
    by (intro nth_equalityI)
      (simp_all add: g_def finished_graph_def finished_package_def length_package_order ne final_ids_ok_def)
  let ?c = "\<lambda>l r. identity_cmp (pending_identity (?ps ! l)) (pending_identity (?ps ! r))"
  have "distinct (map (\<lambda>k. pending_identity (?ps ! k)) [1..<length ?ps])"
    using inj by (simp add: distinct_map inj_on_def)
  then have "sorted_wrt (\<lambda>l r. ?c l r = Less) (sort_by ?c [1..<length ?ps])"
    by (rule strict_sort_by [OF comparator_pending])
  moreover have "tl (graph_packages g) = map (finished_package ?ps ids) (sort_by ?c [1..<length ?ps])"
    by (simp add: g_def finished_graph_def package_order_def)
  ultimately show "sorted_wrt (\<lambda>p q. identity_cmp (package_identity_of p) (package_identity_of q) = Less) (tl (graph_packages g))"
    by (simp add: sorted_wrt_map finished_package_def)
qed

lemma finished_edges_canonical:
  assumes inv: "builder_inv b" and ids: "final_ids_ok (packages b) ids" and k: "k < length (packages b)"
  shows "sorted_wrt (\<lambda>d e. alias_order d e = Less) (dependencies (finished_package (packages b) ids k)) \<and>
    (\<forall>e \<in> set (dependencies (finished_package (packages b) ids k)). unat (edge_package e) < length (packages b))"
proof
  let ?p = "packages b ! k"
  let ?es = "map (\<lambda>e. \<lparr>edge_alias = pending_alias e, edge_package = ids ! unat (pending_target e)\<rparr>) (pending_dependencies ?p)"
  have ok: "package_ok (length (packages b)) k ?p" using builder_invD(5) [OF inv k] .
  have "distinct (map edge_alias ?es)" using alias_distinct [OF ok] by (simp add: comp_def)
  then show "sorted_wrt (\<lambda>d e. alias_order d e = Less) (dependencies (finished_package (packages b) ids k))"
    unfolding finished_package_def using strict_sort_by [OF comparator_alias] by simp
  have "unat (ids ! unat (pending_target e)) < length (packages b)" if "e \<in> set (pending_dependencies ?p)" for e
    using ok that final_id_inverse(1) [OF ids] by (simp add: package_ok_def)
  then show "\<forall>e \<in> set (dependencies (finished_package (packages b) ids k)). unat (edge_package e) < length (packages b)"
    by (auto simp: finished_package_def)
qed

lemma final_ids_inj:
  "final_ids_ok ps ids \<Longrightarrow> j < length ps \<Longrightarrow> k < length ps \<Longrightarrow> ids ! j = ids ! k \<longleftrightarrow> j = k"
  using final_id_inverse(2) [of ps ids j] final_id_inverse(2) [of ps ids k] by metis

lemma finished_modules_canonical:
  assumes inv: "builder_inv b" and ids: "final_ids_ok (packages b) ids"
  defines "g \<equiv> finished_graph b ids"
  shows "map (\<lambda>m. unat (module_id_of m)) (graph_modules g) = [0..<length (graph_modules g)]"
    and "sorted_wrt (\<lambda>l r. module_order l r = Less) (graph_modules g)"
    and "m \<in> set (graph_modules g) \<Longrightarrow> unat (module_package m) < length (packages b)"
proof -
  let ?ms = "sort_by (module_cmp ids) (modules b)"
  have gm: "graph_modules g = map (finished_module ids) (enumerate 0 ?ms)"
    by (simp add: g_def finished_graph_def)
  have nth: "graph_modules g ! i = finished_module ids (i, ?ms ! i)" if "i < length ?ms" for i
    using that by (simp add: gm nth_enumerate_eq)
  have "length ?ms \<le> MAX_MODULES" using builder_invD(6) [OF inv] by simp
  then have small: "unat (word_of_nat i :: u32) = i" if "i < length ?ms" for i
    using that by (intro unat_of_nat_u32) (simp add: MAX_MODULES_def)
  have len: "length (graph_modules g) = length ?ms" by (simp add: gm)
  show "map (\<lambda>m. unat (module_id_of m)) (graph_modules g) = [0..<length (graph_modules g)]"
    using small len by (intro nth_equalityI) (simp_all add: nth finished_module_def)
  have "distinct (map (\<lambda>m. (ids ! unat (pending_package_of m), pending_path m)) (modules b))"
  proof -
    have inj: "inj_on (\<lambda>m. (pending_package_of m, portable_key (pending_path m))) (set (modules b))"
      and dist: "distinct (modules b)" using builder_invD(8) [OF inv] by (simp_all add: distinct_map)
    have "inj_on (\<lambda>m. (ids ! unat (pending_package_of m), pending_path m)) (set (modules b))"
    proof (rule inj_onI)
      fix l m assume lm: "l \<in> set (modules b)" "m \<in> set (modules b)"
        and eq: "(ids ! unat (pending_package_of l), pending_path l) = (ids ! unat (pending_package_of m), pending_path m)"
      have "pending_package_of l = pending_package_of m"
        using final_ids_inj [OF ids builder_invD(7) [OF inv lm(1)] builder_invD(7) [OF inv lm(2)]] eq
        by (simp add: word_unat_eq_iff)
      with eq have "(pending_package_of l, portable_key (pending_path l)) = (pending_package_of m, portable_key (pending_path m))"
        by simp
      then show "l = m" using inj_onD [OF inj, of l m] lm by simp
    qed
    with dist show ?thesis by (simp add: distinct_map)
  qed
  then have "sorted_wrt (\<lambda>l r. module_cmp ids l r = Less) ?ms"
    by (rule strict_sort_by [OF comparator_pending_module])
  then show "sorted_wrt (\<lambda>l r. module_order l r = Less) (graph_modules g)"
    unfolding sorted_wrt_iff_nth_less len
    by (auto simp: nth finished_module_def module_order_def module_cmp_def)
  assume "m \<in> set (graph_modules g)"
  then obtain i where i: "i < length ?ms" "m = finished_module ids (i, ?ms ! i)"
    using nth len by (metis in_set_conv_nth)
  have "?ms ! i \<in> set (modules b)" using nth_mem [OF i(1)] by simp
  then show "unat (module_package m) < length (packages b)"
    using i(2) final_id_inverse(1) [OF ids builder_invD(7) [OF inv]] by (simp add: finished_module_def)
qed

lemma finished_canonical:
  assumes inv: "builder_inv b" and ids: "final_ids_ok (packages b) ids"
  shows "canonical_graph (finished_graph b ids)"
proof -
  let ?g = "finished_graph b ids"
  note ne = builder_invD(2) [OF inv]
  have len: "length (graph_packages ?g) = length (packages b)"
    by (simp add: finished_graph_def length_package_order ne)
  have "sorted_wrt (\<lambda>d e. alias_order d e = Less) (dependencies p) \<and>
        (\<forall>e \<in> set (dependencies p). unat (edge_package e) < length (graph_packages ?g))"
    if "p \<in> set (graph_packages ?g)" for p
    using that finished_edges_canonical [OF inv ids] package_order_perm [OF ne] len
    by (auto simp: finished_graph_def)
  moreover have "graph_root ?g = 0" "graph_packages ?g \<noteq> []"
    using len ne by (auto simp: finished_graph_def)
  ultimately show ?thesis
    using finished_packages_canonical [OF inv ids] finished_modules_canonical [OF inv ids] len
    unfolding canonical_graph_def by simp
qed

lemma finished_content:
  assumes inv: "builder_inv b" and ids: "final_ids_ok (packages b) ids"
  shows "graph_content (finished_graph b ids) = builder_content b"
proof -
  let ?g = "finished_graph b ids" and ?ps = "packages b"
  let ?ident = "\<lambda>i :: u32. package_identity_of (graph_packages ?g ! unat i)"
  note ne = builder_invD(2) [OF inv]
  have n: "0 < length ?ps" using ne by simp
  have pkgs: "set (graph_packages ?g) = finished_package ?ps ids ` {..<length ?ps}"
    using package_order_perm [OF ne] by (simp add: finished_graph_def)
  have range_ps: "set ?ps = (\<lambda>k. ?ps ! k) ` {..<length ?ps}" by (metis atLeast_upt list.set_map map_nth set_upt)
  have ident: "?ident (ids ! k) = pending_identity (?ps ! k)" if "k < length ?ps" for k
    using finished_package_at [OF ids that] by (simp add: finished_package_def)
  have root: "package_identity_of (graph_packages ?g ! unat (graph_root ?g)) = pending_identity (?ps ! 0)"
    using n by (simp add: finished_graph_def package_order_def finished_package_def)
  have idents: "package_identity_of ` set (graph_packages ?g) = pending_identity ` set ?ps"
    unfolding pkgs range_ps by (simp add: image_image finished_package_def)
  have target: "unat (pending_target e) < length ?ps" if "k < length ?ps" "e \<in> set (pending_dependencies (?ps ! k))" for k e
    using closed_graph_nth [OF builder_inv_closed [OF inv] that(1)] that(2) by (simp add: targets_def)
  have deps: "(\<Union>p \<in> set (graph_packages ?g). (\<lambda>e. (package_identity_of p, edge_alias e, ?ident (edge_package e))) `
        set (dependencies p)) =
      (\<Union>p \<in> set ?ps. (\<lambda>e. (pending_identity p, pending_alias e, pending_identity (?ps ! unat (pending_target e)))) `
        set (pending_dependencies p))"
    unfolding pkgs range_ps image_image UN_simps
    by (intro SUP_cong refl)
      (simp add: finished_package_def image_image target ident cong: image_cong)
  have mods: "(\<lambda>m. (?ident (module_package m), module_path_of m, module_source m)) ` set (graph_modules ?g) =
      (\<lambda>m. (pending_identity (?ps ! unat (pending_package_of m)), pending_path m, pending_source m)) ` set (modules b)"
  proof -
    have "(\<lambda>m. (?ident (module_package m), module_path_of m, module_source m)) ` set (graph_modules ?g) =
        (\<lambda>m. (?ident (ids ! unat (pending_package_of m)), pending_path m, pending_source m)) `
          snd ` set (enumerate 0 (sort_by (module_cmp ids) (modules b)))"
      unfolding finished_graph_def
      by (simp add: image_image finished_module_def case_prod_unfold)
    also have "snd ` set (enumerate 0 (sort_by (module_cmp ids) (modules b))) = set (modules b)"
      by (metis list.set_map map_snd_enumerate set_sort_by)
    finally show ?thesis using ident builder_invD(7) [OF inv] by (simp cong: image_cong)
  qed
  show ?thesis
    unfolding graph_content_def builder_content_def Let_def root idents deps mods ..
qed

subsection \<open>The canonical form is unique\<close>

lemma canonical_graphD:
  assumes "canonical_graph g"
  shows "graph_root g = 0" and "graph_packages g \<noteq> []" and "distinct (map package_identity_of (graph_packages g))"
    and "map (\<lambda>p. unat (package_id_of p)) (graph_packages g) = [0..<length (graph_packages g)]"
    and "sorted_wrt (\<lambda>p q. identity_cmp (package_identity_of p) (package_identity_of q) = Less) (tl (graph_packages g))"
    and "p \<in> set (graph_packages g) \<Longrightarrow> sorted_wrt (\<lambda>d e. alias_order d e = Less) (dependencies p)"
    and "p \<in> set (graph_packages g) \<Longrightarrow> e \<in> set (dependencies p) \<Longrightarrow> unat (edge_package e) < length (graph_packages g)"
    and "map (\<lambda>m. unat (module_id_of m)) (graph_modules g) = [0..<length (graph_modules g)]"
    and "sorted_wrt (\<lambda>l r. module_order l r = Less) (graph_modules g)"
    and "m \<in> set (graph_modules g) \<Longrightarrow> unat (module_package m) < length (graph_packages g)"
  using assms by (simp_all add: canonical_graph_def)

lemma canonical_identities:
  assumes g: "canonical_graph g" and h: "canonical_graph h" and "graph_content g = graph_content h"
  shows "map package_identity_of (graph_packages g) = map package_identity_of (graph_packages h)"
proof -
  obtain p ps where gp: "graph_packages g = p # ps" using canonical_graphD(2) [OF g] by (cases "graph_packages g") auto
  obtain q qs where hp: "graph_packages h = q # qs" using canonical_graphD(2) [OF h] by (cases "graph_packages h") auto
  have root: "package_identity_of p = package_identity_of q"
    and all: "package_identity_of ` set (p # ps) = package_identity_of ` set (q # qs)"
  proof -
    have "fst (graph_content g) = fst (graph_content h)" "fst (snd (graph_content g)) = fst (snd (graph_content h))"
      by (simp_all only: assms(3))
    then show "package_identity_of p = package_identity_of q"
      "package_identity_of ` set (p # ps) = package_identity_of ` set (q # qs)"
      using canonical_graphD(1) [OF g] canonical_graphD(1) [OF h] by (simp_all add: graph_content_def Let_def gp hp)
  qed
  have "package_identity_of p \<notin> package_identity_of ` set ps" "package_identity_of q \<notin> package_identity_of ` set qs"
    using canonical_graphD(3) [OF g] canonical_graphD(3) [OF h] gp hp by simp_all
  then have "set (map package_identity_of ps) = set (map package_identity_of qs)"
    using root all by (simp add: insert_eq_iff)
  moreover have "sorted_wrt (\<lambda>x y. identity_cmp x y = Less) (map package_identity_of ps)"
    "sorted_wrt (\<lambda>x y. identity_cmp x y = Less) (map package_identity_of qs)"
    using canonical_graphD(5) [OF g] canonical_graphD(5) [OF h] gp hp by (simp_all add: sorted_wrt_map)
  ultimately have "map package_identity_of ps = map package_identity_of qs"
    using strict_unique [OF comparator_identity] by blast
  then show ?thesis using gp hp root by simp
qed

lemma canonical_position:
  assumes g: "canonical_graph g" and h: "canonical_graph h" and c: "graph_content g = graph_content h"
  shows "length (graph_packages g) = length (graph_packages h)"
    and "j < length (graph_packages h) \<Longrightarrow> k < length (graph_packages g) \<Longrightarrow>
      package_identity_of (graph_packages h ! j) = package_identity_of (graph_packages g ! k) \<Longrightarrow> j = k"
proof -
  note same = canonical_identities [OF g h c]
  show len: "length (graph_packages g) = length (graph_packages h)" using same by (metis length_map)
  show "j = k" if j: "j < length (graph_packages h)" and k: "k < length (graph_packages g)"
    and eq: "package_identity_of (graph_packages h ! j) = package_identity_of (graph_packages g ! k)"
  proof -
    have "package_identity_of (graph_packages g ! k) = package_identity_of (graph_packages h ! k)"
      using same k len by (metis nth_map)
    with eq canonical_graphD(3) [OF h] j k len show ?thesis
      by (simp add: distinct_conv_nth) blast
  qed
qed

lemma canonical_dependencies:
  assumes g: "canonical_graph g" and h: "canonical_graph h" and c: "graph_content g = graph_content h"
    and i: "i < length (graph_packages g)"
  shows "set (dependencies (graph_packages g ! i)) \<subseteq> set (dependencies (graph_packages h ! i))"
proof
  let ?gp = "graph_packages g" and ?hp = "graph_packages h"
  note position = canonical_position(2) [OF g h c]
  fix e assume e: "e \<in> set (dependencies (?gp ! i))"
  have "unat (edge_package e) < length ?gp" using canonical_graphD(7) [OF g nth_mem [OF i] e] .
  have "(package_identity_of (?gp ! i), edge_alias e, package_identity_of (?gp ! unat (edge_package e)))
      \<in> (\<Union>p \<in> set ?gp. (\<lambda>e. (package_identity_of p, edge_alias e, package_identity_of (?gp ! unat (edge_package e)))) `
        set (dependencies p))"
    using e nth_mem [OF i] by blast
  also have "\<dots> = (\<Union>p \<in> set ?hp. (\<lambda>e. (package_identity_of p, edge_alias e, package_identity_of (?hp ! unat (edge_package e)))) `
        set (dependencies p))"
    using c by (simp add: graph_content_def Let_def)
  finally obtain p f where pf: "p \<in> set ?hp" "f \<in> set (dependencies p)" "edge_alias f = edge_alias e"
    "package_identity_of p = package_identity_of (?gp ! i)"
    "package_identity_of (?hp ! unat (edge_package f)) = package_identity_of (?gp ! unat (edge_package e))"
    by auto
  obtain k where k: "k < length ?hp" "p = ?hp ! k" using pf(1) by (metis in_set_conv_nth)
  have "k = i" using position [OF k(1) i] pf(4) k(2) by simp
  moreover have "unat (edge_package f) < length ?hp" using canonical_graphD(7) [OF h pf(1,2)] .
  then have "unat (edge_package f) = unat (edge_package e)"
    using position [OF _ \<open>unat (edge_package e) < length ?gp\<close> pf(5)] by simp
  then have "f = e" using pf(3) by (simp add: word_unat_eq_iff)
  ultimately show "e \<in> set (dependencies (?hp ! i))" using pf(2) k(2) by simp
qed

definition module_triple :: "module_record \<Rightarrow> package_id \<times> module_path \<times> file_id" where
  "module_triple m = (module_package m, module_path_of m, module_source m)"

lemma canonical_modules:
  assumes g: "canonical_graph g" and h: "canonical_graph h" and c: "graph_content g = graph_content h"
  shows "set (map module_triple (graph_modules g)) \<subseteq> set (map module_triple (graph_modules h))"
proof
  let ?gp = "graph_packages g" and ?hp = "graph_packages h"
  note position = canonical_position(2) [OF g h c]
  fix t assume "t \<in> set (map module_triple (graph_modules g))"
  then obtain m where m: "m \<in> set (graph_modules g)" "t = module_triple m" by auto
  have mp: "unat (module_package m) < length ?gp" using canonical_graphD(10) [OF g m(1)] .
  have "(package_identity_of (?gp ! unat (module_package m)), module_path_of m, module_source m)
      \<in> (\<lambda>m. (package_identity_of (?gp ! unat (module_package m)), module_path_of m, module_source m)) ` set (graph_modules g)"
    using m(1) by blast
  also have "\<dots> = (\<lambda>m. (package_identity_of (?hp ! unat (module_package m)), module_path_of m, module_source m)) ` set (graph_modules h)"
    using c by (simp add: graph_content_def Let_def)
  finally obtain k where k: "k \<in> set (graph_modules h)" "module_path_of k = module_path_of m"
    "module_source k = module_source m"
    "package_identity_of (?hp ! unat (module_package k)) = package_identity_of (?gp ! unat (module_package m))"
    by auto
  have "unat (module_package k) < length ?hp" using canonical_graphD(10) [OF h k(1)] .
  then have "unat (module_package k) = unat (module_package m)"
    using position [OF _ mp k(4)] by simp
  then have "module_triple k = t" using k(2,3) m(2) by (simp add: module_triple_def word_unat_eq_iff)
  with k(1) show "t \<in> set (map module_triple (graph_modules h))" by auto
qed

lemma canonical_unique:
  assumes g: "canonical_graph g" and h: "canonical_graph h" and c: "graph_content g = graph_content h"
  shows "g = h"
proof -
  let ?gp = "graph_packages g" and ?hp = "graph_packages h"
  note same = canonical_identities [OF g h c]
  have len: "length ?gp = length ?hp" using same by (metis length_map)
  have "?gp ! i = ?hp ! i" if i: "i < length ?gp" for i
  proof (rule package_record.equality)
    have i': "i < length ?hp" using i len by simp
    have "unat (package_id_of (?gp ! i)) = i" "unat (package_id_of (?hp ! i)) = i"
      using arg_cong [OF canonical_graphD(4) [OF g], of "\<lambda>l. l ! i"] i
        arg_cong [OF canonical_graphD(4) [OF h], of "\<lambda>l. l ! i"] i' by simp_all
    then show "package_id_of (?gp ! i) = package_id_of (?hp ! i)" by (simp add: word_unat_eq_iff)
    show "package_identity_of (?gp ! i) = package_identity_of (?hp ! i)" using same i len by (metis nth_map)
    have "set (dependencies (?gp ! i)) = set (dependencies (?hp ! i))"
      using canonical_dependencies [OF g h c i] canonical_dependencies [OF h g c [symmetric] i'] by blast
    then show "dependencies (?gp ! i) = dependencies (?hp ! i)"
      using canonical_graphD(6) [OF g nth_mem [OF i]] canonical_graphD(6) [OF h nth_mem [OF i']]
      by (intro strict_unique [OF comparator_alias])
  qed simp
  then have packages: "?gp = ?hp" using len by (intro nth_equalityI)
  let ?cmp = "\<lambda>x y. then_with (cmp_of (fst x :: u32) (fst y)) (path_cmp (fst (snd x)) (fst (snd y)))"
  have "comparator_on ?cmp (\<lambda>x. (fst x, fst (snd x)))"
    by (intro comparator_then_with comparator_key [OF comparator_cmp_of] comparator_key [OF comparator_path])
  moreover have "sorted_wrt (\<lambda>x y. ?cmp x y = Less) (map module_triple (graph_modules k))" if "canonical_graph k" for k
    using canonical_graphD(9) [OF that] by (simp add: sorted_wrt_map module_triple_def module_order_def)
  ultimately have triples: "map module_triple (graph_modules g) = map module_triple (graph_modules h)"
    using canonical_modules [OF g h c] canonical_modules [OF h g c [symmetric]] g h
    by (intro strict_unique [of ?cmp]) auto
  then have mlen: "length (graph_modules g) = length (graph_modules h)" by (metis length_map)
  have "graph_modules g ! i = graph_modules h ! i" if i: "i < length (graph_modules g)" for i
  proof (rule module_record.equality)
    have i': "i < length (graph_modules h)" using i mlen by simp
    have "unat (module_id_of (graph_modules g ! i)) = i" "unat (module_id_of (graph_modules h ! i)) = i"
      using arg_cong [OF canonical_graphD(8) [OF g], of "\<lambda>l. l ! i"] i
        arg_cong [OF canonical_graphD(8) [OF h], of "\<lambda>l. l ! i"] i' by simp_all
    then show "module_id_of (graph_modules g ! i) = module_id_of (graph_modules h ! i)" by (simp add: word_unat_eq_iff)
    have "module_triple (graph_modules g ! i) = module_triple (graph_modules h ! i)"
      using arg_cong [OF triples, of "\<lambda>l. l ! i"] i i' by simp
    then show "module_package (graph_modules g ! i) = module_package (graph_modules h ! i)"
      "module_path_of (graph_modules g ! i) = module_path_of (graph_modules h ! i)"
      "module_source (graph_modules g ! i) = module_source (graph_modules h ! i)"
      by (simp_all add: module_triple_def)
  qed simp
  then have "graph_modules g = graph_modules h" using mlen by (intro nth_equalityI)
  then show ?thesis using packages canonical_graphD(1) [OF g] canonical_graphD(1) [OF h]
    by (intro package_graph.equality) simp_all
qed

subsection \<open>Builders with the same content\<close>

lemma trancl_hom:
  assumes hom: "\<And>p d. (p, d) \<in> R \<Longrightarrow> (f p, f d) \<in> S" and "(x, y) \<in> R\<^sup>+"
  shows "(f x, f y) \<in> S\<^sup>+"
  using assms(2) by (induction rule: trancl_induct) (auto intro: hom trancl_into_trancl)

lemma rtrancl_hom:
  assumes hom: "\<And>p d. (p, d) \<in> R \<Longrightarrow> (f p, f d) \<in> S" and "(x, y) \<in> R\<^sup>*"
  shows "(f x, f y) \<in> S\<^sup>*"
  using assms(2) by (induction rule: rtrancl_induct) (auto intro: hom rtrancl_into_rtrancl)

lemma content_morphism:
  assumes b: "builder_inv b" and c: "builder_inv c" and same: "builder_content b = builder_content c"
  shows "\<exists>f. f 0 = (0 :: nat) \<and> (\<forall>j < length (packages c). \<exists>k < length (packages b). f k = j) \<and>
    (\<forall>p d. (p, d) \<in> depends_on (packages b) \<longrightarrow> (f p, f d) \<in> depends_on (packages c))"
proof -
  let ?bp = "packages b" and ?cp = "packages c"
  let ?bi = "\<lambda>k. pending_identity (?bp ! k)" and ?ci = "\<lambda>k. pending_identity (?cp ! k)"
  have "fst (builder_content b) = fst (builder_content c)"
    "fst (snd (builder_content b)) = fst (snd (builder_content c))"
    "fst (snd (snd (builder_content b))) = fst (snd (snd (builder_content c)))"
    by (simp_all only: same)
  then have root: "?bi 0 = ?ci 0" and ids: "pending_identity ` set ?bp = pending_identity ` set ?cp"
    and deps: "(\<Union>p \<in> set ?bp. (\<lambda>e. (pending_identity p, pending_alias e, ?bi (unat (pending_target e)))) ` set (pending_dependencies p)) =
      (\<Union>p \<in> set ?cp. (\<lambda>e. (pending_identity p, pending_alias e, ?ci (unat (pending_target e)))) ` set (pending_dependencies p))"
    by (simp_all only: builder_content_def Let_def fst_conv snd_conv)
  have inj: "j = k" if "j < length ?cp" "k < length ?cp" "?ci j = ?ci k" for j k
    using builder_invD(4) [OF c] that by (simp add: distinct_conv_nth) blast
  have ex: "\<exists>j < length ?cp. ?ci j = ?bi k" if "k < length ?bp" for k
  proof -
    have "?bi k \<in> pending_identity ` set ?cp" using that ids by (metis imageI nth_mem)
    then show ?thesis by (metis (no_types, lifting) imageE in_set_conv_nth)
  qed
  define f where "f k = (SOME j. j < length ?cp \<and> ?ci j = ?bi k)" for k
  have f: "f k < length ?cp" "?ci (f k) = ?bi k" if "k < length ?bp" for k
    using someI_ex [OF ex [OF that]] unfolding f_def by blast+
  have n: "0 < length ?bp" "0 < length ?cp" using builder_invD(2) [OF b] builder_invD(2) [OF c] by simp_all
  show ?thesis
  proof (intro exI [of _ f] conjI allI impI)
    show "f 0 = 0" using inj [OF f(1) [OF n(1)] n(2)] f(2) [OF n(1)] root by simp
    show "\<exists>k < length ?bp. f k = j" if j: "j < length ?cp" for j
    proof -
      have "?ci j \<in> pending_identity ` set ?bp" using j ids by (metis imageI nth_mem)
      then obtain k where "k < length ?bp" "?bi k = ?ci j" by (metis (no_types, lifting) imageE in_set_conv_nth)
      then show ?thesis using inj [OF f(1) j] f(2) by auto
    qed
    show "(f p, f d) \<in> depends_on ?cp" if pd: "(p, d) \<in> depends_on ?bp" for p d
    proof -
      have p: "p < length ?bp" and d: "d < length ?bp"
        using depends_on_bounds [OF builder_inv_closed [OF b] pd] by simp_all
      obtain e where e: "e \<in> set (pending_dependencies (?bp ! p))" "d = unat (pending_target e)"
        using pd by (auto simp: depends_on_def targets_def)
      have "(?bi p, pending_alias e, ?bi d) \<in> (\<Union>p \<in> set ?cp. (\<lambda>e. (pending_identity p, pending_alias e, ?ci (unat (pending_target e)))) `
          set (pending_dependencies p))"
        unfolding deps [symmetric] using e nth_mem [OF p] by blast
      then obtain q x where q: "q \<in> set ?cp" "x \<in> set (pending_dependencies q)" "pending_identity q = ?bi p"
        "?ci (unat (pending_target x)) = ?bi d" by auto
      obtain k where k: "k < length ?cp" "q = ?cp ! k" using q(1) by (metis in_set_conv_nth)
      have "k = f p" using inj [OF k(1) f(1) [OF p]] q(3) k(2) f(2) [OF p] by simp
      moreover have t: "unat (pending_target x) < length ?cp"
        using closed_graph_nth [OF builder_inv_closed [OF c] k(1)] q(2) k(2) by (simp add: targets_def)
      then have "unat (pending_target x) = f d" using inj [OF t f(1) [OF d]] q(4) f(2) [OF d] by simp
      ultimately have "f d \<in> set (targets (?cp ! f p))" using q(2) k(2) unfolding targets_def by force
      then show ?thesis using f(1) [OF p] by (simp add: depends_on_def)
    qed
  qed
qed

subsection \<open>Properties\<close>

lemma finish_ok_iff:
  assumes "builder_inv b"
  shows "(\<exists>g. outcome (finish b) = Inr g) \<longleftrightarrow>
    acyclic (depends_on (packages b)) \<and> (\<forall>i < length (packages b). (0, i) \<in> (depends_on (packages b))\<^sup>*)"
proof -
  note inv = builder_invD [OF assms]
  have n: "unat (root b) < length (packages b)" using inv by simp
  obtain ids where "outcome (finish b) =
      (case outcome (reject_dependency_cycles (packages b)) of
         Inl f \<Rightarrow> Inl f
       | Inr _ \<Rightarrow> (case outcome (reject_unreachable_packages (packages b) (root b)) of
             Inl f \<Rightarrow> Inl f
           | Inr _ \<Rightarrow> Inr (finished_graph b ids)))"
    using finish_outcome [OF assms] by blast
  then show ?thesis
    using reject_dependency_cycles_outcome(1) [OF builder_inv_closed [OF assms] inv(3)]
      reject_unreachable_packages_outcome(1) [OF builder_inv_closed [OF assms] inv(3) n] inv(1)
    by (auto split: sum.splits)
qed

lemma finish_graph:
  assumes inv: "builder_inv b" and "outcome (finish b) = Inr g"
  shows "canonical_graph g" and "graph_content g = builder_content b"
proof -
  obtain ids where ids: "final_ids_ok (packages b) ids" and "g = finished_graph b ids"
  proof -
    obtain ids where ids: "final_ids_ok (packages b) ids" and "outcome (finish b) =
        (case outcome (reject_dependency_cycles (packages b)) of
           Inl f \<Rightarrow> Inl f
         | Inr _ \<Rightarrow> (case outcome (reject_unreachable_packages (packages b) (root b)) of
               Inl f \<Rightarrow> Inl f
             | Inr _ \<Rightarrow> Inr (finished_graph b ids)))"
      using finish_outcome [OF inv] by blast
    then have "g = finished_graph b ids" using assms(2) by (simp split: sum.splits)
    with ids show thesis by (rule that)
  qed
  then show "canonical_graph g" "graph_content g = builder_content b"
    using finished_canonical [OF inv ids] finished_content [OF inv ids] by simp_all
qed

lemma finish_transfers:
  assumes b: "builder_inv b" and c: "builder_inv c" and same: "builder_content b = builder_content c"
    and g: "outcome (finish b) = Inr g"
  shows "outcome (finish c) = Inr g"
proof -
  let ?R = "depends_on (packages b)" and ?S = "depends_on (packages c)"
  have ac: "acyclic ?R" and reach: "\<And>i. i < length (packages b) \<Longrightarrow> (0, i) \<in> ?R\<^sup>*"
    using finish_ok_iff [OF b] g by auto
  obtain f where "f 0 = 0 \<and> (\<forall>j < length (packages c). \<exists>k < length (packages b). f k = j) \<and>
      (\<forall>p d. (p, d) \<in> ?R \<longrightarrow> (f p, f d) \<in> ?S)"
    using content_morphism [OF b c same] ..
  then have f: "f 0 = 0" "\<And>j. j < length (packages c) \<Longrightarrow> \<exists>k < length (packages b). f k = j"
    "\<And>p d. (p, d) \<in> ?R \<Longrightarrow> (f p, f d) \<in> ?S"
    by simp_all
  obtain f' where "f' 0 = 0 \<and> (\<forall>j < length (packages b). \<exists>k < length (packages c). f' k = j) \<and>
      (\<forall>p d. (p, d) \<in> ?S \<longrightarrow> (f' p, f' d) \<in> ?R)"
    using content_morphism [OF c b same [symmetric]] ..
  then have f': "\<And>p d. (p, d) \<in> ?S \<Longrightarrow> (f' p, f' d) \<in> ?R" by simp
  have "acyclic ?S" unfolding acyclic_def
  proof (intro allI notI)
    fix x assume "(x, x) \<in> ?S\<^sup>+"
    then have "(f' x, f' x) \<in> ?R\<^sup>+" by (rule trancl_hom [rotated]) (rule f')
    with ac show False by (simp add: acyclic_def)
  qed
  moreover have "(0, j) \<in> ?S\<^sup>*" if j: "j < length (packages c)" for j
  proof -
    obtain k where "k < length (packages b)" "f k = j" using f(2) [OF j] by blast
    then show ?thesis using rtrancl_hom [where f = f, OF f(3) reach] f(1) by auto
  qed
  ultimately obtain h where h: "outcome (finish c) = Inr h" using finish_ok_iff [OF c] by blast
  have "h = g"
    using canonical_unique [OF finish_graph(1) [OF c h] finish_graph(1) [OF b g]]
      finish_graph(2) [OF c h] finish_graph(2) [OF b g] same by simp
  with h show ?thesis by simp
qed

definition sample_identity :: "text_bytes \<Rightarrow> package_identity" where
  "sample_identity n = \<lparr>identity_name = n, identity_version = [48], source_digest = []\<rparr>"

definition sample_edge :: "text_bytes \<Rightarrow> package_handle \<Rightarrow> pending_dependency" where
  "sample_edge a d = \<lparr>pending_alias = a, pending_target = d\<rparr>"

definition sample_package :: "text_bytes \<Rightarrow> (text_bytes \<times> package_handle) list \<Rightarrow> pending_package" where
  "sample_package n es = \<lparr>pending_identity = sample_identity n, pending_dependencies = map (\<lambda>(a, d). sample_edge a d) es,
     dependency_aliases = to_ascii_lowercase ` fst ` set es, dependency_packages = snd ` set es\<rparr>"

definition sample_builder :: "pending_package list \<Rightarrow> graph_builder" where
  "sample_builder ps = \<lparr>root = 0, packages = ps, modules = [], identities = pending_identity ` set ps,
     module_paths = {}, portable_module_paths = {}, module_sources = {}\<rparr>"

lemmas sample_defs = sample_identity_def sample_edge_def sample_package_def sample_builder_def

lemma sample_built_three:
  assumes "distinct [[114], x, y :: text_bytes]"
  shows "built (sample_builder [sample_package [114] [], sample_package x [], sample_package y []])"
proof -
  have 1: "built (sample_builder [sample_package [114] []])"
    using built_new [of "sample_identity [114]"] by (simp add: sample_defs builder_new_def empty_package_def)
  have 2: "built (sample_builder [sample_package [114] [], sample_package x []])"
    by (rule built_package [OF 1, where i = "sample_identity x" and h = 1])
      (insert assms, auto simp: sample_defs add_package_def empty_package_def MAX_PACKAGES_def u32_try_from_def insert_commute)
  show ?thesis
    by (rule built_package [OF 2, where i = "sample_identity y" and h = 2])
      (insert assms, auto simp: sample_defs add_package_def empty_package_def MAX_PACKAGES_def u32_try_from_def insert_commute)
qed

lemma sample_built_fork:
  assumes "distinct [[114], x, y :: text_bytes]"
    and "to_ascii_lowercase x \<noteq> to_ascii_lowercase y"
  shows "built (sample_builder [sample_package [114] [(x, 1), (y, 2)], sample_package x [], sample_package y []])"
proof -
  have 1: "built (sample_builder [sample_package [114] [(x, 1)], sample_package x [], sample_package y []])"
    by (rule built_dependency [OF sample_built_three [OF assms(1)], where p = 0 and a = x and d = 1])
      (simp add: sample_defs add_dependency_def package_index_def MAX_DEPENDENCIES_PER_PACKAGE_def Let_def)
  show ?thesis
    by (rule built_dependency [OF 1, where p = 0 and a = y and d = 2])
      (insert assms, simp add: sample_defs add_dependency_def package_index_def MAX_DEPENDENCIES_PER_PACKAGE_def Let_def insert_commute)
qed

lemma sample_built_cycle:
  "built (sample_builder [sample_package [114] [([97], 1)], sample_package [97] [([98], 2)], sample_package [98] [([97], 1)]])"
proof -
  have 0: "built (sample_builder [sample_package [114] [], sample_package [97] [], sample_package [98] []])"
    by (rule sample_built_three) simp
  have 1: "built (sample_builder [sample_package [114] [([97], 1)], sample_package [97] [], sample_package [98] []])"
    by (rule built_dependency [OF 0, where p = 0 and a = "[97]" and d = 1])
      (simp add: sample_defs add_dependency_def package_index_def MAX_DEPENDENCIES_PER_PACKAGE_def Let_def)
  have 2: "built (sample_builder [sample_package [114] [([97], 1)], sample_package [97] [([98], 2)], sample_package [98] []])"
    by (rule built_dependency [OF 1, where p = 1 and a = "[98]" and d = 2])
      (simp add: sample_defs add_dependency_def package_index_def MAX_DEPENDENCIES_PER_PACKAGE_def Let_def)
  show ?thesis
    by (rule built_dependency [OF 2, where p = 2 and a = "[97]" and d = 1])
      (simp add: sample_defs add_dependency_def package_index_def MAX_DEPENDENCIES_PER_PACKAGE_def Let_def)
qed

lemma sample_fork_finishes:
  "\<exists>g. outcome (finish (sample_builder [sample_package [114] [(x, 1), (y, 2)], sample_package x [], sample_package y []])) = Inr g"
  if "distinct [[114], x, y :: text_bytes]" "to_ascii_lowercase x \<noteq> to_ascii_lowercase y"
proof -
  let ?b = "sample_builder [sample_package [114] [(x, 1), (y, 2)], sample_package x [], sample_package y []]"
  have E: "depends_on (packages ?b) = {(0, 1), (0, 2)}"
    by (auto simp: depends_on_def sample_defs targets_def less_Suc_eq nth_Cons split: nat.splits)
  have "False" if "(x, x) \<in> {(0, 1 :: nat), (0, 2)}\<^sup>+" for x
    using tranclD [OF that] tranclD2 [OF that] by auto
  then have "acyclic {(0, 1 :: nat), (0, 2)}" unfolding acyclic_def by blast
  then show ?thesis
    unfolding finish_ok_iff [OF built_inv [OF sample_built_fork [OF that]]] E
    by (auto simp: sample_defs less_Suc_eq)
qed

text \<open>C34. Finishing a package graph builder, however it was filled, decides exactly two facts about
  its dependency relation and never panics: it yields a graph precisely when no package depends on
  itself through other packages and every package is reachable from the root; a dependency cycle
  error names a package from which a cycle can be reached; an unreachable error names, in an acyclic
  graph, a package that the root does not reach. Both work list loops therefore end, and the error
  branches for indices out of range and for too many identifiers are dead.\<close>

theorem finish_exact:
  assumes "built b"
  shows "case outcome (finish b) of
      Inr _ \<Rightarrow> acyclic (depends_on (packages b)) \<and>
        (\<forall>i < length (packages b). (0, i) \<in> (depends_on (packages b))\<^sup>*)
    | Inl (Fails (DependencyCycle h)) \<Rightarrow>
        (\<exists>c. (unat h, c) \<in> (depends_on (packages b))\<^sup>* \<and> (c, c) \<in> (depends_on (packages b))\<^sup>+)
    | Inl (Fails (UnreachablePackage h)) \<Rightarrow> acyclic (depends_on (packages b)) \<and>
        unat h < length (packages b) \<and> (0, unat h) \<notin> (depends_on (packages b))\<^sup>*
    | Inl _ \<Rightarrow> False"
proof -
  let ?ps = "packages b"
  note b = built_inv [OF assms]
  note inv = builder_invD [OF b]
  have n: "unat (root b) < length ?ps" using inv by simp
  note cyc = reject_dependency_cycles_outcome [OF builder_inv_closed [OF b] inv(3)]
  note unr = reject_unreachable_packages_outcome [OF builder_inv_closed [OF b] inv(3) n]
  obtain ids where fin: "outcome (finish b) =
      (case outcome (reject_dependency_cycles ?ps) of
         Inl f \<Rightarrow> Inl f
       | Inr _ \<Rightarrow> (case outcome (reject_unreachable_packages ?ps (root b)) of
             Inl f \<Rightarrow> Inl f
           | Inr _ \<Rightarrow> Inr (finished_graph b ids)))"
    using finish_outcome [OF b] by blast
  show ?thesis
  proof (cases "outcome (reject_dependency_cycles ?ps)")
    case (Inl f)
    then show ?thesis using cyc(2) [OF Inl] fin by auto
  next
    case acyc: (Inr u)
    then have ac: "acyclic (depends_on ?ps)" using cyc(1) by simp
    show ?thesis
    proof (cases "outcome (reject_unreachable_packages ?ps (root b))")
      case (Inl f)
      then show ?thesis using unr(2) [OF Inl] ac acyc fin inv(1) by auto
    next
      case (Inr v)
      then show ?thesis using unr(1) ac acyc fin inv(1) by simp
    qed
  qed
qed

theorem finish_exact_witness:
  "\<exists>h c. outcome (finish (sample_builder [sample_package [114] [([97], 1)], sample_package [97] [([98], 2)],
       sample_package [98] [([97], 1)]])) = Inl (Fails (DependencyCycle h)) \<and>
     (c, c) \<in> (depends_on (packages (sample_builder [sample_package [114] [([97], 1)], sample_package [97] [([98], 2)],
       sample_package [98] [([97], 1)]])))\<^sup>+"
proof -
  let ?b = "sample_builder [sample_package [114] [([97], 1)], sample_package [97] [([98], 2)], sample_package [98] [([97], 1)]]"
  have E: "depends_on (packages ?b) = {(0, 1), (1, 2), (2, 1)}"
    by (auto simp: depends_on_def sample_defs targets_def less_Suc_eq nth_Cons split: nat.splits)
  have "(1, 1) \<in> {(0, 1), (1, 2), (2, 1 :: nat)}\<^sup>+" by (rule trancl_into_trancl [OF r_into_trancl]) auto
  then have na: "\<not> acyclic (depends_on (packages ?b))" unfolding E acyclic_def by blast
  show ?thesis using finish_exact [OF sample_built_cycle] na
    by (auto split: sum.splits graph_fault.splits graph_error.splits)
qed

text \<open>C35. A finished package graph is a refinement of the builder: it is in canonical form (the root
  first, the other packages in the order of their identities, identifiers consecutive, dependency
  edges in the order of their aliases, modules in the order of package and path, every reference in
  range) and it holds exactly the packages, dependencies and modules that were added, none lost, none
  attached to another package.\<close>

theorem finish_refines:
  assumes "built b" and "outcome (finish b) = Inr g"
  shows "canonical_graph g \<and> graph_content g = builder_content b"
  using finish_graph [OF built_inv [OF assms(1)] assms(2)] by simp

theorem finish_refines_witness:
  "\<exists>g. outcome (finish (sample_builder [sample_package [114] [([97], 1), ([98], 2)], sample_package [97] [],
       sample_package [98] []])) = Inr g \<and> canonical_graph g \<and>
     graph_content g = builder_content (sample_builder [sample_package [114] [([97], 1), ([98], 2)],
       sample_package [97] [], sample_package [98] []])"
proof -
  have d: "distinct [[114], [97], [98] :: text_bytes]" "to_ascii_lowercase [97] \<noteq> to_ascii_lowercase [98]"
    by (simp_all add: to_ascii_lowercase_def ascii_lowercase_byte_def)
  obtain g where "outcome (finish (sample_builder [sample_package [114] [([97], 1), ([98], 2)], sample_package [97] [],
      sample_package [98] []])) = Inr g"
    using sample_fork_finishes [OF d] ..
  then show ?thesis using finish_refines [OF sample_built_fork [OF d]] by blast
qed

text \<open>C36. The finished package graph does not depend on discovery order: two builders that were given
  the same packages, dependencies and modules, in whatever order and under whatever handles, finish
  with the same graph, identifier for identifier.\<close>

theorem finish_deterministic:
  assumes "built b" and "built c" and "builder_content b = builder_content c" and "outcome (finish b) = Inr g"
  shows "outcome (finish c) = Inr g"
  using finish_transfers [OF built_inv [OF assms(1)] built_inv [OF assms(2)] assms(3,4)] .

theorem finish_deterministic_witness:
  "\<exists>g. outcome (finish (sample_builder [sample_package [114] [([97], 1), ([98], 2)], sample_package [97] [],
       sample_package [98] []])) = Inr g \<and>
     outcome (finish (sample_builder [sample_package [114] [([98], 1), ([97], 2)], sample_package [98] [],
       sample_package [97] []])) = Inr g"
proof -
  have d: "distinct [[114], [97], [98] :: text_bytes]" "to_ascii_lowercase [97] \<noteq> to_ascii_lowercase [98]"
    "distinct [[114], [98], [97] :: text_bytes]" "to_ascii_lowercase [98] \<noteq> to_ascii_lowercase [97]"
    by (simp_all add: to_ascii_lowercase_def ascii_lowercase_byte_def)
  obtain g where g: "outcome (finish (sample_builder [sample_package [114] [([97], 1), ([98], 2)], sample_package [97] [],
      sample_package [98] []])) = Inr g"
    using sample_fork_finishes [OF d(1,2)] ..
  have "builder_content (sample_builder [sample_package [114] [([97], 1), ([98], 2)], sample_package [97] [],
      sample_package [98] []]) =
    builder_content (sample_builder [sample_package [114] [([98], 1), ([97], 2)], sample_package [98] [],
      sample_package [97] []])"
    by (auto simp: builder_content_def sample_defs Let_def)
  then show ?thesis
    using finish_deterministic [OF sample_built_fork [OF d(1,2)] sample_built_fork [OF d(3,4)] _ g] g by blast
qed

text \<open>The cycle error can name a package that only leads to a cycle: the root, which depends on the
  cyclic pair, is the one reported.\<close>

lemma cycle_error_names_dependent:
  "outcome (finish (sample_builder [sample_package [114] [([97], 1)], sample_package [97] [([98], 2)],
       sample_package [98] [([97], 1)]])) = Inl (Fails (DependencyCycle 0)) \<and>
     (0, 0) \<notin> (depends_on (packages (sample_builder [sample_package [114] [([97], 1)], sample_package [97] [([98], 2)],
       sample_package [98] [([97], 1)]])))\<^sup>+"
proof
  let ?b = "sample_builder [sample_package [114] [([97], 1)], sample_package [97] [([98], 2)], sample_package [98] [([97], 1)]]"
  have "depends_on (packages ?b) = {(0, 1), (1, 2), (2, 1)}"
    by (auto simp: depends_on_def sample_defs targets_def less_Suc_eq nth_Cons split: nat.splits)
  then show "(0, 0) \<notin> (depends_on (packages ?b))\<^sup>+"
    using tranclD2 [of 0 0 "depends_on (packages ?b)"] by auto
  show "outcome (finish ?b) = Inl (Fails (DependencyCycle 0))"
    by (simp add: finish_def sample_defs reject_dependency_cycles_def collect_dependents_def record_dependent_def
        index_of_def list_get_def Let_def)
qed

end
