(* ===== verification/Flow_Wir.thy ===== *)
theory Flow_Wir
  imports Source
begin

text \<open>
  The typed SSA representation exchanged between the frontend and the private backend
  (\<open>wrela-flow-wir\<close>): types, operations, terminators, blocks, functions and the module fields the
  optimizer reads or rewrites. Operations are polymorphic in their operands, which are value
  identifiers in a module and run-time values in its semantics.
\<close>

type_synonym u16 = "16 word"
type_synonym u128 = "128 word"

type_synonym type_id = u32
type_synonym function_id = u32
type_synonym block_id = u32
type_synonym value_id = u32
type_synonym instruction_id = u32
type_synonym global_id = u32
type_synonym actor_id = u32
type_synonym task_id = u32
type_synonym device_id = u32
type_synonym pool_id = u32
type_synonym region_id = u32
type_synonym activation_id = u32
type_synonym proof_id = u32
type_synonym checkpoint_id = u32

subsection \<open>Types\<close>

datatype (plugins only: code size) scalar_type =
    ScalarBool
  | ScalarCharacter
  | ScalarInteger bool u16
  | ScalarFloat32
  | ScalarFloat64
  | ScalarAddress

datatype (plugins only: code size) flow_type_kind =
    UnitType
  | Scalar scalar_type
  | StaticStringType u64
  | StaticBytesType u64
  | BoundedStringType u64
  | TupleType "type_id list"
  | ArrayType type_id u64
  | StructType "type_id list"
  | EnumType "type_id list list"
  | FunctionType "type_id list" type_id
  | ActivationType type_id
  | RegionHandle region_id
  | PoolHandle pool_id
  | ActorHandle actor_id
  | TaskHandle task_id
  | Reservation
  | Receipt type_id type_id
  | DmaToken pool_id type_id
  | OpaqueTarget text_bytes

record flow_type =
  type_id_of :: type_id
  type_kind :: flow_type_kind
  type_name :: "text_bytes option"
  copyable :: bool
  strict_linear :: bool

subsection \<open>Operations\<close>

datatype (plugins only: code size) unary_op = Negate | BoolNot | BitNot

datatype (plugins only: code size) binary_op =
    AddChecked | AddWrapping | SubChecked | SubWrapping | MulChecked | MulWrapping
  | DivChecked | RemChecked | BitAnd | BitOr | BitXor
  | ShiftLeftChecked | ShiftRightChecked
  | Equals | NotEqual | LessThan | LessEqual | GreaterThan | GreaterEqual
  | ShiftLeftWrapping

datatype (plugins only: code size) cast_mode = CheckedCast | ExactCast | Bitcast

datatype (plugins only: code size) access_kind = ReadAccess | MutateAccess | TakeAccess

datatype (plugins only: code size) dma_ownership = Cpu | Prepared | DeviceOwned | Completed | Quarantined

datatype (plugins only: code size) fence_kind = Acquire | Release | AcquireRelease | DeviceRead | DeviceWrite | DeviceFull

datatype (plugins only: code size) failure_kind =
    Bounds | Arithmetic | Conversion | Capacity | Generation | DmaState | DeviceValue
  | CancellationFailure | Deadline | PeerFailure | TaskFailure | FatalTarget

datatype (plugins only: code size) immediate =
    UnitImmediate
  | BoolImmediate bool
  | CharacterImmediate u32
  | IntegerImmediate u16 "u8 list"
  | Float32Immediate u32
  | Float64Immediate u64
  | BytesImmediate "u8 list"
  | ZeroImmediate type_id
  | GlobalAddress global_id
  | FunctionAddress function_id

datatype (plugins only: code size) 'v bounded_string_part =
    TextPart text_bytes span
  | BoolPart 'v span
  | CharacterPart 'v span
  | IntegerPart 'v u64 span
  | StaticStringPart 'v u64 span

record assertion_failure_descriptor =
  asserted_expression :: text_bytes
  asserted_message :: "text_bytes option"
  asserted_source :: span

text \<open>The source's operation type is one flat enumeration; here its constructors are grouped by family,
  the scalar operations that the optimizer interprets at the top.\<close>

datatype (plugins only: code size) 'v aggregate_operation =
    MakeAggregate type_id "'v list"
  | FormatBoundedString type_id "'v bounded_string_part list"
  | MakeEnum type_id u8 "'v option"
  | EnumTag 'v
  | EnumPayload 'v "u8 option"
  | ExtractField 'v u32
  | ExtractIndex 'v 'v proof_id
  | InsertField 'v u32 'v

datatype (plugins only: code size) 'v memory_operation =
    ActorStateAddress actor_id region_id proof_id
  | BeginAccess 'v access_kind proof_id
  | EndAccess 'v
  | LoadFrom 'v proof_id
  | StoreTo 'v 'v proof_id
  | MoveValue 'v
  | CopyValue 'v
  | DropValue 'v
  | Allocate region_id type_id 'v proof_id
  | RegionReset region_id
  | Promote 'v region_id proof_id

datatype (plugins only: code size) 'v actor_operation =
    ActorCapability actor_id proof_id
  | ActorReserve actor_id function_id proof_id
  | ActorCommit 'v "'v list"
  | ActorReplyRequest actor_id function_id proof_id proof_id
  | ActorReplyResolve 'v proof_id
  | ActorReject 'v
  | MailboxReceive actor_id function_id
  | ReplyResolve 'v 'v
  | ReceiptCommit 'v 'v
  | ReceiptResolve 'v 'v

datatype (plugins only: code size) 'v task_operation =
    Call function_id "'v list"
  | AsyncCall function_id "'v list" activation_id
  | TaskAcquireSlot task_id proof_id
  | TaskStart 'v function_id "'v list"
  | TaskCancel 'v
  | Park 'v
  | Wake 'v
  | Checkpoint checkpoint_id proof_id
  | DeadlineRead

datatype (plugins only: code size) 'v hardware_operation =
    InterruptMask
  | InterruptRestore 'v
  | InterruptPublish 'v 'v
  | MmioRead device_id u32
  | MmioWrite device_id u32 'v
  | Fence fence_kind
  | DmaTransition 'v device_id dma_ownership dma_ownership proof_id
  | QueueReserve device_id 'v proof_id
  | QueuePublish 'v 'v
  | ValidateDeviceValue 'v proof_id

datatype (plugins only: code size) 'v event_operation =
    Assert 'v assertion_failure_descriptor
  | RecordEvent u32 'v
  | ReplayEvent u32 'v
  | TestEmit 'v
  | TestFinish 'v

datatype (plugins only: code size) 'v flow_operation =
    Immediate immediate
  | Unary unary_op 'v
  | Binary binary_op 'v 'v
  | Cast 'v type_id cast_mode
  | Select 'v 'v 'v
  | Check 'v failure_kind "proof_id option"
  | Aggregate "'v aggregate_operation"
  | Memory "'v memory_operation"
  | Actor "'v actor_operation"
  | Task "'v task_operation"
  | Hardware "'v hardware_operation"
  | Event "'v event_operation"

subsection \<open>Functions and modules\<close>

record instruction =
  instruction_id_of :: instruction_id
  results :: "value_id list"
  operation :: "value_id flow_operation"
  instruction_source :: "span option"

record switch_case =
  case_value :: u128
  case_target :: block_id
  case_arguments :: "value_id list"

datatype (plugins only: code size) terminator =
    Jump block_id "value_id list"
  | Branch value_id block_id "value_id list" block_id "value_id list"
  | Switch value_id "switch_case list" block_id "value_id list"
  | Return "value_id list"
  | Suspend u32 value_id block_id
  | TailCall function_id "value_id list"
  | Trap failure_kind "value_id option"
  | Unreachable

record flow_block =
  block_id_of :: block_id
  parameters :: "value_id list"
  instructions :: "instruction list"
  terminator :: terminator
  block_source :: "span option"

record flow_value =
  value_id_of :: value_id
  value_type :: type_id
  source_name :: "text_bytes option"
  value_source :: "span option"

datatype (plugins only: code size) function_role =
    Ordinary | ActorTurn actor_id | TaskEntry task_id | IsrRole device_id | Cleanup | ImageEntry | TestRole

datatype (plugins only: code size) function_color = SyncColor | AsyncColor | IsrColor

datatype (plugins only: code size) function_origin =
    SourceSemantic u32
  | GeneratedImageEntry u32 u32
  | GeneratedTestHarness u32 u32
  | GeneratedAsyncState u32 u32
  | GeneratedCleanup u32 u32

record flow_function =
  function_id_of :: function_id
  function_name :: text_bytes
  origin :: function_origin
  role :: function_role
  color :: function_color
  function_parameters :: "value_id list"
  result_types :: "type_id list"
  value_records :: "flow_value list"
  blocks :: "flow_block list"
  entry :: block_id
  stack_bound :: u64
  frame_bound :: u64
  function_proofs :: "proof_id list"
  function_source :: "span option"

datatype (plugins only: code size) test_kind = Comptime | Integration | ImageTest

record test_entry =
  entry_id :: u32
  plan_id :: u32
  function_key :: sha256_digest
  entry_name :: text_bytes
  entry_function :: function_id
  entry_kind :: test_kind
  entry_source :: span
  timeout_ns :: u64

text \<open>The fields of a module that the optimizer reads or rewrites; all the others (globals, plans,
  checkpoints, the build identity and so on) are carried through it unchanged as \<open>carried\<close>.\<close>

record 'c flow_wir =
  wir_types :: "flow_type list"
  wir_functions :: "flow_function list"
  wir_proofs :: nat
  wir_tests :: "test_entry list"
  carried :: 'c

end
