(* ===== verification/Scalar_Fold.thy ===== *)
theory Scalar_Fold
  imports Flow_Wir "HOL-Library.Signed_Division"
begin

text \<open>
  Constant folding of scalar operations (\<open>wrela-flow-opt/src/development.rs\<close>): scalar constants, their
  canonical immediates, and the folding of unary and binary operations, selections and exact casts.
  Integers of every width from 1 to 128 bits are kept in a \<open>u128\<close>; an \<open>i128\<close> is an integer in its
  range, with the checked operations written out. An \<open>f32\<close> or \<open>f64\<close> is compared through its position
  in the order of the non-NaN values. The allocation of the at most sixteen bytes of an immediate is
  taken to succeed (the code leaves an operation unfolded when it does not).
\<close>

unbundle bit_operations_syntax

subsection \<open>Integers of a given width\<close>

datatype (plugins only: code size) scalar_constant =
    ConstBool bool
  | ConstInteger bool u16 u128
  | ConstFloat32 u32
  | ConstFloat64 u64

definition integer_byte_width :: "u16 \<Rightarrow> nat option" where
  "integer_byte_width bits = (if bits = 0 \<or> bits > 128 then None else Some ((unat bits + 7) div 8))"

definition integer_mask :: "u16 \<Rightarrow> u128 option" where
  "integer_mask bits =
     (if bits = 128 then Some (- 1)
      else if 1 \<le> bits \<and> bits \<le> 127 then Some (push_bit (unat bits) 1 - 1)
      else None)"

definition i128_checked :: "int \<Rightarrow> int option" where
  "i128_checked z = (if - (2 ^ 127) \<le> z \<and> z < 2 ^ 127 then Some z else None)"

definition sign_extend :: "u128 \<Rightarrow> u16 \<Rightarrow> int option" where
  "sign_extend value bits =
     Option.bind (integer_mask bits) (\<lambda>mask.
       let value = value AND mask in
       if bits = 128 then Some (sint value)
       else let sign = push_bit (unat (bits - 1)) 1 in
         if value AND sign = 0 then i128_checked (uint value)
         else Some (sint (value OR NOT mask)))"

definition signed_fits :: "int \<Rightarrow> u16 \<Rightarrow> bool option" where
  "signed_fits value bits =
     (if bits = 128 then Some True
      else if 1 \<le> bits \<and> bits \<le> 127 then
        Some (value \<ge> - (2 ^ unat (bits - 1)) \<and> value < 2 ^ unat (bits - 1))
      else None)"

definition signed_to_raw :: "int \<Rightarrow> u16 \<Rightarrow> u128 option" where
  "signed_to_raw value bits = map_option (\<lambda>mask. word_of_int value AND mask) (integer_mask bits)"

definition u128_checked :: "int \<Rightarrow> u128 option" where
  "u128_checked z = (if 0 \<le> z \<and> z < 2 ^ 128 then Some (word_of_int z) else None)"

subsection \<open>Integer operations\<close>

definition checked_operation :: "binary_op \<Rightarrow> int \<Rightarrow> int \<Rightarrow> int option" where
  "checked_operation op left right =
     (case op of AddChecked \<Rightarrow> Some (left + right)
      | SubChecked \<Rightarrow> Some (left - right)
      | MulChecked \<Rightarrow> Some (left * right)
      | _ \<Rightarrow> None)"

definition checked_integer_arithmetic :: "binary_op \<Rightarrow> bool \<Rightarrow> u16 \<Rightarrow> u128 \<Rightarrow> u128 \<Rightarrow> u128 option" where
  "checked_integer_arithmetic op is_signed bits left right =
     (if is_signed then
        Option.bind (sign_extend left bits) (\<lambda>left.
        Option.bind (sign_extend right bits) (\<lambda>right.
        Option.bind (Option.bind (checked_operation op left right) i128_checked) (\<lambda>result.
        Option.bind (signed_fits result bits) (\<lambda>fits.
        if fits then signed_to_raw result bits else None))))
      else
        Option.bind (Option.bind (checked_operation op (uint left) (uint right)) u128_checked) (\<lambda>result.
        Option.bind (integer_mask bits) (\<lambda>mask.
        if result \<le> mask then Some result else None)))"

definition checked_integer_division :: "binary_op \<Rightarrow> bool \<Rightarrow> u16 \<Rightarrow> u128 \<Rightarrow> u128 \<Rightarrow> u128 option" where
  "checked_integer_division op is_signed bits left right =
     (if is_signed then
        Option.bind (sign_extend left bits) (\<lambda>left.
        Option.bind (sign_extend right bits) (\<lambda>right.
        if right = 0 then None
        else
        Option.bind (case op of DivChecked \<Rightarrow> i128_checked (left sdiv right)
            | RemChecked \<Rightarrow> if i128_checked (left sdiv right) = None then None else Some (left smod right)
            | _ \<Rightarrow> None) (\<lambda>result.
        Option.bind (if op = DivChecked then signed_fits result bits else Some True) (\<lambda>fits.
        if fits then signed_to_raw result bits else None))))
      else if right = 0 then None
      else (case op of DivChecked \<Rightarrow> Some (left div right)
            | RemChecked \<Rightarrow> Some (left mod right)
            | _ \<Rightarrow> None))"

definition checked_integer_shift :: "binary_op \<Rightarrow> bool \<Rightarrow> u16 \<Rightarrow> u128 \<Rightarrow> u128 \<Rightarrow> u128 option" where
  "checked_integer_shift op is_signed bits left right =
     Option.bind (if is_signed then map_option (\<lambda>z. z < 0) (sign_extend right bits) else Some False) (\<lambda>negative.
     if negative then None
     else Option.bind (u32_try_from (unat right)) (\<lambda>count.
     if unat count \<ge> unat bits then None
     else Option.bind (integer_mask bits) (\<lambda>mask.
     let left = left AND mask; count = unat count in
     case op of
       ShiftLeftChecked \<Rightarrow>
         (let shifted = push_bit count left AND mask in
          Option.bind (if is_signed then
              Option.bind (sign_extend shifted bits) (\<lambda>s. map_option (\<lambda>l. drop_bit count s = l) (sign_extend left bits))
            else Some (drop_bit count shifted = left)) (\<lambda>roundtrips.
          if roundtrips then Some shifted else None))
     | ShiftLeftWrapping \<Rightarrow> Some (push_bit count left AND mask)
     | ShiftRightChecked \<Rightarrow>
         if is_signed then Option.bind (sign_extend left bits) (\<lambda>l. signed_to_raw (drop_bit count l) bits)
         else Some (drop_bit count left)
     | _ \<Rightarrow> None)))"

definition compare_by :: "binary_op \<Rightarrow> ('a :: linorder) \<Rightarrow> 'a \<Rightarrow> bool option" where
  "compare_by op left right =
     (case op of LessThan \<Rightarrow> Some (left < right)
      | LessEqual \<Rightarrow> Some (left \<le> right)
      | GreaterThan \<Rightarrow> Some (left > right)
      | GreaterEqual \<Rightarrow> Some (left \<ge> right)
      | _ \<Rightarrow> None)"

definition compare_integer :: "binary_op \<Rightarrow> bool \<Rightarrow> u16 \<Rightarrow> u128 \<Rightarrow> u128 \<Rightarrow> bool option" where
  "compare_integer op is_signed bits left right =
     (if is_signed then
        Option.bind (sign_extend left bits) (\<lambda>left.
        Option.bind (sign_extend right bits) (\<lambda>right. compare_by op left right))
      else compare_by op left right)"

definition fold_integer_binary :: "binary_op \<Rightarrow> bool \<Rightarrow> u16 \<Rightarrow> u128 \<Rightarrow> u128 \<Rightarrow> scalar_constant option" where
  "fold_integer_binary op is_signed bits left right =
     Option.bind (integer_mask bits) (\<lambda>mask.
     let integer = (\<lambda>value. ConstInteger is_signed bits (value AND mask)) in
     case op of
       AddWrapping \<Rightarrow> Some (integer (left + right))
     | SubWrapping \<Rightarrow> Some (integer (left - right))
     | MulWrapping \<Rightarrow> Some (integer (left * right))
     | BitAnd \<Rightarrow> Some (integer (left AND right))
     | BitOr \<Rightarrow> Some (integer (left OR right))
     | BitXor \<Rightarrow> Some (integer (left XOR right))
     | AddChecked \<Rightarrow> map_option integer (checked_integer_arithmetic op is_signed bits left right)
     | SubChecked \<Rightarrow> map_option integer (checked_integer_arithmetic op is_signed bits left right)
     | MulChecked \<Rightarrow> map_option integer (checked_integer_arithmetic op is_signed bits left right)
     | DivChecked \<Rightarrow> map_option integer (checked_integer_division op is_signed bits left right)
     | RemChecked \<Rightarrow> map_option integer (checked_integer_division op is_signed bits left right)
     | ShiftLeftChecked \<Rightarrow> map_option integer (checked_integer_shift op is_signed bits left right)
     | ShiftLeftWrapping \<Rightarrow> map_option integer (checked_integer_shift op is_signed bits left right)
     | ShiftRightChecked \<Rightarrow> map_option integer (checked_integer_shift op is_signed bits left right)
     | Equals \<Rightarrow> Some (ConstBool (left = right))
     | NotEqual \<Rightarrow> Some (ConstBool (left \<noteq> right))
     | _ \<Rightarrow> map_option ConstBool (compare_integer op is_signed bits left right))"

subsection \<open>Floating-point comparison\<close>

definition float32_rank :: "u32 \<Rightarrow> int option" where
  "float32_rank w =
     (let magnitude = uint (take_bit 31 w) in
      if magnitude > 0x7F800000 then None
      else Some (if bit w 31 then - magnitude else magnitude))"

definition float64_rank :: "u64 \<Rightarrow> int option" where
  "float64_rank w =
     (let magnitude = uint (take_bit 63 w) in
      if magnitude > 0x7FF0000000000000 then None
      else Some (if bit w 63 then - magnitude else magnitude))"

definition ordered :: "(int \<Rightarrow> int \<Rightarrow> bool) \<Rightarrow> int option \<Rightarrow> int option \<Rightarrow> bool" where
  "ordered R left right = (case (left, right) of (Some l, Some r) \<Rightarrow> R l r | _ \<Rightarrow> False)"

definition compare_float :: "binary_op \<Rightarrow> int option \<Rightarrow> int option \<Rightarrow> bool option" where
  "compare_float op left right =
     (case op of Equals \<Rightarrow> Some (ordered (=) left right)
      | NotEqual \<Rightarrow> Some (\<not> ordered (=) left right)
      | LessThan \<Rightarrow> Some (ordered (<) left right)
      | LessEqual \<Rightarrow> Some (ordered (\<le>) left right)
      | GreaterThan \<Rightarrow> Some (ordered (>) left right)
      | GreaterEqual \<Rightarrow> Some (ordered (\<ge>) left right)
      | _ \<Rightarrow> None)"

subsection \<open>Immediates\<close>

definition kind_at :: "flow_type list \<Rightarrow> type_id \<Rightarrow> flow_type_kind option" where
  "kind_at types t = map_option type_kind (list_get types (unat t))"

definition constant_from_immediate :: "immediate \<Rightarrow> type_id \<Rightarrow> flow_type list \<Rightarrow> scalar_constant option" where
  "constant_from_immediate i t types =
     (case (i, kind_at types t) of
        (BoolImmediate b, Some (Scalar ScalarBool)) \<Rightarrow> Some (ConstBool b)
      | (IntegerImmediate bits bytes, Some (Scalar (ScalarInteger is_signed type_bits))) \<Rightarrow>
          if bits = type_bits then
            Option.bind (integer_byte_width bits) (\<lambda>width.
            if width = length bytes then
              let value = from_le_bytes bytes in
              Option.bind (integer_mask bits) (\<lambda>mask.
              if value AND NOT mask \<noteq> 0 then None else Some (ConstInteger is_signed bits value))
            else None)
          else None
      | (Float32Immediate w, Some (Scalar ScalarFloat32)) \<Rightarrow> Some (ConstFloat32 w)
      | (Float64Immediate w, Some (Scalar ScalarFloat64)) \<Rightarrow> Some (ConstFloat64 w)
      | (ZeroImmediate ty, Some (Scalar ScalarBool)) \<Rightarrow> if ty = t then Some (ConstBool False) else None
      | (ZeroImmediate ty, Some (Scalar (ScalarInteger is_signed bits))) \<Rightarrow>
          if ty = t then Some (ConstInteger is_signed bits 0) else None
      | (ZeroImmediate ty, Some (Scalar ScalarFloat32)) \<Rightarrow> if ty = t then Some (ConstFloat32 0) else None
      | (ZeroImmediate ty, Some (Scalar ScalarFloat64)) \<Rightarrow> if ty = t then Some (ConstFloat64 0) else None
      | _ \<Rightarrow> None)"

definition constant_to_immediate :: "scalar_constant \<Rightarrow> type_id \<Rightarrow> flow_type list \<Rightarrow> immediate option" where
  "constant_to_immediate c t types =
     (case (c, kind_at types t) of
        (ConstBool b, Some (Scalar ScalarBool)) \<Rightarrow> Some (BoolImmediate b)
      | (ConstInteger is_signed bits value, Some (Scalar (ScalarInteger result_signed result_bits))) \<Rightarrow>
          if is_signed = result_signed \<and> bits = result_bits then
            map_option (\<lambda>width. IntegerImmediate bits (take width (to_le_bytes 16 value))) (integer_byte_width bits)
          else None
      | (ConstFloat32 w, Some (Scalar ScalarFloat32)) \<Rightarrow> Some (Float32Immediate w)
      | (ConstFloat64 w, Some (Scalar ScalarFloat64)) \<Rightarrow> Some (Float64Immediate w)
      | _ \<Rightarrow> None)"

subsection \<open>Folding an operation\<close>

type_synonym constant_table = "scalar_constant option list"

definition constant_at :: "value_id \<Rightarrow> constant_table \<Rightarrow> scalar_constant option" where
  "constant_at v cs = Option.bind (list_get cs (unat v)) (\<lambda>c. c)"

definition fold_unary :: "unary_op \<Rightarrow> scalar_constant \<Rightarrow> type_id \<Rightarrow> flow_type list \<Rightarrow> immediate option" where
  "fold_unary op operand t types =
     Option.bind
       (case (op, operand) of
          (BoolNot, ConstBool b) \<Rightarrow> Some (ConstBool (\<not> b))
        | (BitNot, ConstInteger is_signed bits value) \<Rightarrow>
            map_option (\<lambda>mask. ConstInteger is_signed bits (NOT value AND mask)) (integer_mask bits)
        | (Negate, ConstInteger is_signed bits value) \<Rightarrow>
            if is_signed then
              Option.bind (sign_extend value bits) (\<lambda>z.
              Option.bind (i128_checked (- z)) (\<lambda>negated.
              Option.bind (signed_fits negated bits) (\<lambda>fits.
              if \<not> fits then None else map_option (ConstInteger True bits) (signed_to_raw negated bits))))
            else None
        | (Negate, ConstFloat32 w) \<Rightarrow> Some (ConstFloat32 (w XOR push_bit 31 1))
        | (Negate, ConstFloat64 w) \<Rightarrow> Some (ConstFloat64 (w XOR push_bit 63 1))
        | _ \<Rightarrow> None)
       (\<lambda>c. constant_to_immediate c t types)"

definition fold_binary :: "binary_op \<Rightarrow> scalar_constant \<Rightarrow> scalar_constant \<Rightarrow> type_id \<Rightarrow> flow_type list \<Rightarrow> immediate option" where
  "fold_binary op left right t types =
     Option.bind
       (case (left, right) of
          (ConstInteger left_signed left_bits left_value, ConstInteger right_signed right_bits right_value) \<Rightarrow>
            if left_signed \<noteq> right_signed \<or> left_bits \<noteq> right_bits then None
            else fold_integer_binary op left_signed left_bits left_value right_value
        | (ConstBool l, ConstBool r) \<Rightarrow>
            (case op of Equals \<Rightarrow> Some (ConstBool (l = r)) | NotEqual \<Rightarrow> Some (ConstBool (l \<noteq> r)) | _ \<Rightarrow> None)
        | (ConstFloat32 l, ConstFloat32 r) \<Rightarrow> map_option ConstBool (compare_float op (float32_rank l) (float32_rank r))
        | (ConstFloat64 l, ConstFloat64 r) \<Rightarrow> map_option ConstBool (compare_float op (float64_rank l) (float64_rank r))
        | _ \<Rightarrow> None)
       (\<lambda>c. constant_to_immediate c t types)"

definition fold_operation :: "value_id flow_operation \<Rightarrow> type_id \<Rightarrow> constant_table \<Rightarrow> flow_type list \<Rightarrow> immediate option" where
  "fold_operation oper t cs types =
     (case oper of
        Unary op v \<Rightarrow> Option.bind (constant_at v cs) (\<lambda>c. fold_unary op c t types)
      | Binary op l r \<Rightarrow>
          Option.bind (constant_at l cs) (\<lambda>a. Option.bind (constant_at r cs) (\<lambda>b. fold_binary op a b t types))
      | Select c a b \<Rightarrow>
          (case constant_at c cs of
             Some (ConstBool condition) \<Rightarrow>
               Option.bind (constant_at (if condition then a else b) cs) (\<lambda>c. constant_to_immediate c t types)
           | _ \<Rightarrow> None)
      | Cast v to ExactCast \<Rightarrow>
          if to = t then Option.bind (constant_at v cs) (\<lambda>c. constant_to_immediate c t types) else None
      | _ \<Rightarrow> None)"

end
