(* ===== verification/Scalar_Exact.thy ===== *)
theory Scalar_Exact
  imports Scalar_Fold
begin

text \<open>
  The arithmetic of the language on integers of width \<open>w\<close> and the proof that folding is exact for it:
  what is folded is what the language prescribes, and what the language abandons is never folded.
\<close>

subsection \<open>The language's arithmetic\<close>

definition integer_value :: "bool \<Rightarrow> nat \<Rightarrow> u128 \<Rightarrow> int" where
  "integer_value s w raw = (if s then signed_take_bit (w - 1) (uint raw) else take_bit w (uint raw))"

definition raw_integer :: "nat \<Rightarrow> int \<Rightarrow> u128" where
  "raw_integer w z = word_of_int (take_bit w z)"

definition representable :: "bool \<Rightarrow> nat \<Rightarrow> int \<Rightarrow> bool" where
  "representable s w z \<longleftrightarrow> (if s then - (2 ^ (w - 1)) \<le> z \<and> z < 2 ^ (w - 1) else 0 \<le> z \<and> z < 2 ^ w)"

definition if_representable :: "bool \<Rightarrow> nat \<Rightarrow> int \<Rightarrow> int option" where
  "if_representable s w z = (if representable s w z then Some z else None)"

text \<open>The integer an arithmetic operator denotes, reduced modulo \<open>2 ^ w\<close> where it is stored;
  \<open>None\<close> is an abandoned operation.\<close>

definition language_arithmetic :: "binary_op \<Rightarrow> bool \<Rightarrow> nat \<Rightarrow> int \<Rightarrow> int \<Rightarrow> int option" where
  "language_arithmetic op s w x y =
     (case op of
        AddWrapping \<Rightarrow> Some (x + y)
      | SubWrapping \<Rightarrow> Some (x - y)
      | MulWrapping \<Rightarrow> Some (x * y)
      | AddChecked \<Rightarrow> if_representable s w (x + y)
      | SubChecked \<Rightarrow> if_representable s w (x - y)
      | MulChecked \<Rightarrow> if_representable s w (x * y)
      | DivChecked \<Rightarrow> if y = 0 then None else if_representable s w (x sdiv y)
      | RemChecked \<Rightarrow> if y = 0 then None else Some (x smod y)
      | BitAnd \<Rightarrow> Some (x AND y)
      | BitOr \<Rightarrow> Some (x OR y)
      | BitXor \<Rightarrow> Some (x XOR y)
      | ShiftLeftChecked \<Rightarrow> if 0 \<le> y \<and> y < int w then if_representable s w (x * 2 ^ nat y) else None
      | ShiftLeftWrapping \<Rightarrow> if 0 \<le> y \<and> y < int w then Some (x * 2 ^ nat y) else None
      | ShiftRightChecked \<Rightarrow> if 0 \<le> y \<and> y < int w then Some (x div 2 ^ nat y) else None
      | _ \<Rightarrow> None)"

definition language_comparison :: "binary_op \<Rightarrow> int \<Rightarrow> int \<Rightarrow> bool option" where
  "language_comparison op x y =
     (case op of Equals \<Rightarrow> Some (x = y) | NotEqual \<Rightarrow> Some (x \<noteq> y) | LessThan \<Rightarrow> Some (x < y)
      | LessEqual \<Rightarrow> Some (x \<le> y) | GreaterThan \<Rightarrow> Some (x > y) | GreaterEqual \<Rightarrow> Some (x \<ge> y) | _ \<Rightarrow> None)"

definition language_integer :: "binary_op \<Rightarrow> bool \<Rightarrow> u16 \<Rightarrow> u128 \<Rightarrow> u128 \<Rightarrow> scalar_constant option" where
  "language_integer op s bits l r =
     (let w = unat bits; x = integer_value s w l; y = integer_value s w r in
      case language_comparison op x y of
        Some b \<Rightarrow> Some (ConstBool b)
      | None \<Rightarrow> map_option (\<lambda>z. ConstInteger s bits (raw_integer w z)) (language_arithmetic op s w x y))"

definition width_ok :: "u16 \<Rightarrow> bool" where
  "width_ok bits \<longleftrightarrow> 1 \<le> unat bits \<and> unat bits \<le> 128"

definition canonical_raw :: "u16 \<Rightarrow> u128 \<Rightarrow> bool" where
  "canonical_raw bits raw \<longleftrightarrow> uint raw < 2 ^ unat bits"

subsection \<open>Masks and sign extension\<close>

lemma u16_cases:
  assumes "width_ok bits"
  shows "(bits = 128) = (unat bits = 128)" and "(1 \<le> bits \<and> bits \<le> 127) = (unat bits \<le> 127)"
    and "unat (bits - 1) = unat bits - 1"
proof -
  have n: "unat (128 :: u16) = 128" "unat (127 :: u16) = 127" "unat (1 :: u16) = 1" by simp_all
  show "(bits = 128) = (unat bits = 128)" by (simp add: word_unat_eq_iff)
  show "(1 \<le> bits \<and> bits \<le> 127) = (unat bits \<le> 127)"
    using assms by (auto simp: word_le_nat_alt width_ok_def)
  show "unat (bits - 1) = unat bits - 1"
    using assms by (subst unat_sub) (simp_all add: word_le_nat_alt width_ok_def)
qed

lemma integer_mask_ok: "width_ok bits \<Longrightarrow> integer_mask bits = Some (mask (unat bits))"
proof -
  assume w: "width_ok bits"
  show ?thesis
  proof (cases "unat bits = 128")
    case True
    have "mask 128 = (- 1 :: u128)" by (simp add: mask_eq_exp_minus_1)
    with True u16_cases(1) [OF w] show ?thesis by (simp add: integer_mask_def)
  next
    case False
    then have "unat bits \<le> 127" using w by (simp add: width_ok_def)
    then show ?thesis using False u16_cases [OF w]
      by (simp add: integer_mask_def mask_eq_exp_minus_1 push_bit_eq_mult)
  qed
qed

lemma integer_mask_None: "\<not> width_ok bits \<Longrightarrow> integer_mask bits = None"
  by (auto simp: integer_mask_def width_ok_def word_le_nat_alt)

lemma take_bit_word_of_int: "take_bit w (word_of_int z :: 'a :: len word) = word_of_int (take_bit w z)"
  by (rule bit_eqI) (auto simp: bit_simps)

lemma take_bit_raw_integer: "take_bit w (word_of_int z) = raw_integer w z"
  by (simp add: raw_integer_def take_bit_word_of_int)

lemma raw_and_mask [simp]: "raw_integer w z AND mask w = raw_integer w z"
  by (simp add: raw_integer_def take_bit_word_of_int flip: take_bit_eq_mask)

lemma sign_extend_ok:
  assumes w: "width_ok bits"
  shows "sign_extend raw bits = Some (integer_value True (unat bits) raw)"
proof (cases "unat bits = 128")
  case True
  then show ?thesis
    using u16_cases(1) [OF w] integer_mask_ok [OF w]
    by (simp add: sign_extend_def integer_value_def sint_uint take_bit_word_eq_self flip: take_bit_eq_mask)
next
  case False
  let ?w = "unat bits"
  have le: "1 \<le> ?w" "?w \<le> 127" using False w by (simp_all add: width_ok_def)
  have bits: "bits \<noteq> 128" using False u16_cases(1) [OF w] by simp
  have sign: "take_bit ?w raw AND push_bit (unat (bits - 1)) 1 = 0 \<longleftrightarrow> \<not> bit raw (?w - 1)"
    using le u16_cases(3) [OF w] by (simp add: push_bit_of_1 and_exp_eq_0_iff_not_bit bit_take_bit_iff)
  show ?thesis
  proof (cases "bit raw (?w - 1)")
    case False
    have "(2 :: int) ^ ?w \<le> 2 ^ 127" using le by (intro power_increasing) simp_all
    then have "take_bit ?w (uint raw) < 2 ^ 127" using take_bit_int_less_exp [of ?w "uint raw"] by (rule less_le_trans [rotated])
    moreover have "- (2 ^ 127) \<le> take_bit ?w (uint raw)" by (rule order_trans [of _ 0]) simp_all
    moreover have "signed_take_bit (?w - 1) (uint raw) = take_bit ?w (uint raw)"
    proof (rule bit_eqI)
      fix n
      consider "n < ?w - 1" | "n = ?w - 1" | "n \<ge> ?w" using le by linarith
      then show "bit (signed_take_bit (?w - 1) (uint raw)) n \<longleftrightarrow> bit (take_bit ?w (uint raw)) n"
        using False le by cases (auto simp: bit_signed_take_bit_iff bit_take_bit_iff bit_uint_iff min_def)
    qed
    ultimately show ?thesis
      using False sign bits integer_mask_ok [OF w]
      by (simp add: sign_extend_def integer_value_def i128_checked_def unsigned_take_bit_eq Let_def
          del: of_int_power flip: take_bit_eq_mask)
  next
    case True
    have "sint (take_bit ?w raw OR NOT (mask ?w)) = signed_take_bit (?w - 1) (uint raw)"
    proof (rule bit_eqI)
      fix n
      have "bit (sint (take_bit ?w raw OR NOT (mask ?w))) n \<longleftrightarrow> bit (take_bit ?w raw OR NOT (mask ?w)) (min 127 n)"
        by (simp add: sint_uint bit_signed_take_bit_iff bit_uint_iff min_less_iff_disj)
      also have "\<dots> \<longleftrightarrow> bit raw (min (?w - 1) n)"
      proof -
        consider "n < ?w - 1" | "n = ?w - 1" | "n \<ge> ?w" using le by linarith
        then show ?thesis using True le by cases (auto simp: bit_simps min_def)
      qed
      finally show "bit (sint (take_bit ?w raw OR NOT (mask ?w))) n \<longleftrightarrow> bit (signed_take_bit (?w - 1) (uint raw)) n"
        using le by (auto simp: bit_signed_take_bit_iff bit_uint_iff min_less_iff_disj)
    qed
    then show ?thesis
      using True sign bits integer_mask_ok [OF w]
      by (simp add: sign_extend_def integer_value_def Let_def flip: take_bit_eq_mask)
  qed
qed

lemma signed_fits_ok:
  assumes w: "width_ok bits" and "- (2 ^ 127) \<le> z" and "z < 2 ^ 127"
  shows "signed_fits z bits = Some (representable True (unat bits) z)"
  using assms u16_cases [OF w] by (auto simp: signed_fits_def representable_def width_ok_def)

lemma signed_to_raw_ok: "width_ok bits \<Longrightarrow> signed_to_raw z bits = Some (raw_integer (unat bits) z)"
  by (simp add: signed_to_raw_def integer_mask_ok take_bit_raw_integer flip: take_bit_eq_mask)

subsection \<open>Values and their representation\<close>

lemma value_congruent: "1 \<le> w \<Longrightarrow> take_bit w (integer_value s w raw) = take_bit w (uint raw)"
  by (simp add: integer_value_def take_bit_signed_take_bit)

lemma value_representable: "1 \<le> w \<Longrightarrow> representable s w (integer_value s w raw)"
  using signed_take_bit_int_greater_eq_minus_exp [of "w - 1" "uint raw"] signed_take_bit_int_less_exp [of "w - 1" "uint raw"]
  by (simp add: integer_value_def representable_def)

lemma raw_integer_cong: "take_bit w a = take_bit w b \<Longrightarrow> raw_integer w a = raw_integer w b"
  by (simp add: raw_integer_def)

lemma uint_raw_integer: "w \<le> 128 \<Longrightarrow> uint (raw_integer w z) = take_bit w z"
  by (simp only: raw_integer_def uint_word_of_int_eq take_bit_take_bit len_num0 len_bit0 len_num1) (simp add: min_def)

lemma value_raw_integer:
  "1 \<le> w \<Longrightarrow> w \<le> 128 \<Longrightarrow> integer_value s w (raw_integer w z) = (if s then signed_take_bit (w - 1) z else take_bit w z)"
  by (auto simp: integer_value_def uint_raw_integer signed_take_bit_take_bit)

lemma value_raw_representable:
  assumes "1 \<le> w" "w \<le> 128" "representable s w z"
  shows "integer_value s w (raw_integer w z) = z"
  using assms signed_take_bit_int_eq_self [of "w - 1" z] take_bit_int_eq_self [of z w]
  by (auto simp: value_raw_integer representable_def)

lemma raw_integer_value:
  assumes "1 \<le> w" "uint raw < 2 ^ w"
  shows "raw_integer w (integer_value s w raw) = raw"
  using assms by (simp add: raw_integer_def value_congruent take_bit_int_eq_self)

lemma representable_i128: "w \<le> 128 \<Longrightarrow> representable True w z \<Longrightarrow> - (2 ^ 127) \<le> z \<and> z < 2 ^ 127"
proof -
  assume w: "w \<le> 128" and r: "representable True w z"
  have "(2 :: int) ^ (w - 1) \<le> 2 ^ 127" using w by (intro power_increasing) simp_all
  with r show ?thesis unfolding representable_def if_True by linarith
qed

lemma representable_u128: "w \<le> 128 \<Longrightarrow> representable False w z \<Longrightarrow> 0 \<le> z \<and> z < 2 ^ 128"
proof -
  assume w: "w \<le> 128" and r: "representable False w z"
  have "(2 :: int) ^ w \<le> 2 ^ 128" using w by (intro power_increasing) simp_all
  with r show ?thesis unfolding representable_def if_False by linarith
qed

subsection \<open>Each group of operators\<close>

lemma wrapping_exact:
  assumes w: "width_ok bits" and ops: "\<And>a b. take_bit (unat bits) (f a b) = take_bit (unat bits) (f (take_bit (unat bits) a) (take_bit (unat bits) b))"
    and word: "\<And>a b. g (word_of_int a) (word_of_int b) = (word_of_int (f a b) :: u128)"
  shows "g l r AND mask (unat bits) =
    raw_integer (unat bits) (f (integer_value s (unat bits) l) (integer_value s (unat bits) r))"
proof -
  let ?w = "unat bits" and ?x = "integer_value s (unat bits) l" and ?y = "integer_value s (unat bits) r"
  have one: "1 \<le> ?w" using w by (simp add: width_ok_def)
  have "g l r = word_of_int (f (uint l) (uint r))" using word [of "uint l" "uint r"] by simp
  then have "g l r AND mask ?w = raw_integer ?w (f (uint l) (uint r))"
    by (simp add: take_bit_raw_integer flip: take_bit_eq_mask)
  moreover have "take_bit ?w (f (uint l) (uint r)) = take_bit ?w (f (take_bit ?w (uint l)) (take_bit ?w (uint r)))"
    by (rule ops)
  moreover have "\<dots> = take_bit ?w (f (take_bit ?w ?x) (take_bit ?w ?y))" by (simp only: value_congruent [OF one])
  moreover have "\<dots> = take_bit ?w (f ?x ?y)" by (rule ops [symmetric])
  ultimately show ?thesis by (simp only: raw_integer_def)
qed

lemma wrapping_operators:
  fixes l r :: u128 and s :: bool
  assumes w: "width_ok bits"
  defines "x \<equiv> integer_value s (unat bits) l" and "y \<equiv> integer_value s (unat bits) r"
  shows "(l + r) AND mask (unat bits) = raw_integer (unat bits) (x + y)"
    and "(l - r) AND mask (unat bits) = raw_integer (unat bits) (x - y)"
    and "(l * r) AND mask (unat bits) = raw_integer (unat bits) (x * y)"
    and "(l AND r) AND mask (unat bits) = raw_integer (unat bits) (x AND y)"
    and "(l OR r) AND mask (unat bits) = raw_integer (unat bits) (x OR y)"
    and "(l XOR r) AND mask (unat bits) = raw_integer (unat bits) (x XOR y)"
proof -
  note ex = wrapping_exact [OF w, where s = s and l = l and r = r]
  show "(l + r) AND mask (unat bits) = raw_integer (unat bits) (x + y)"
    unfolding x_def y_def by (rule ex) (simp_all add: take_bit_add)
  show "(l - r) AND mask (unat bits) = raw_integer (unat bits) (x - y)"
    unfolding x_def y_def by (rule ex) (simp_all add: take_bit_diff)
  show "(l * r) AND mask (unat bits) = raw_integer (unat bits) (x * y)"
    unfolding x_def y_def by (rule ex) (simp_all add: take_bit_mult)
  show "(l AND r) AND mask (unat bits) = raw_integer (unat bits) (x AND y)"
    unfolding x_def y_def by (rule ex) (auto intro!: bit_eqI simp: bit_simps)
  show "(l OR r) AND mask (unat bits) = raw_integer (unat bits) (x OR y)"
    unfolding x_def y_def by (rule ex) (auto intro!: bit_eqI simp: bit_simps)
  show "(l XOR r) AND mask (unat bits) = raw_integer (unat bits) (x XOR y)"
    unfolding x_def y_def by (rule ex) (auto intro!: bit_eqI simp: bit_simps)
qed

lemma mask_bound: "w \<le> 128 \<Longrightarrow> uint (mask w :: u128) = 2 ^ w - 1"
  by (simp add: uint_mask_eq min_def) (simp add: mask_eq_exp_minus_1)

lemma arithmetic_exact:
  assumes w: "width_ok bits" and l: "canonical_raw bits l" and r: "canonical_raw bits r"
    and op: "checked_operation op (integer_value s (unat bits) l) (integer_value s (unat bits) r) = Some z"
  shows "map_option (\<lambda>v. v AND mask (unat bits)) (checked_integer_arithmetic op s bits l r) =
    map_option (raw_integer (unat bits)) (if_representable s (unat bits) z)"
proof -
  have le: "1 \<le> unat bits" "unat bits \<le> 128" using w by (simp_all add: width_ok_def)
  show ?thesis
  proof (cases s)
    case True
    with op w representable_i128 [OF le(2), of z] show ?thesis
      by (auto simp: checked_integer_arithmetic_def sign_extend_ok i128_checked_def signed_fits_ok signed_to_raw_ok
          if_representable_def)
  next
    case False
    have u: "integer_value False (unat bits) v = uint v" if "canonical_raw bits v" for v
      using that by (simp add: integer_value_def canonical_raw_def take_bit_int_eq_self)
    have m: "word_of_int z \<le> (mask (unat bits) :: u128) \<longleftrightarrow> z < 2 ^ unat bits" if "0 \<le> z" "z < 2 ^ 128"
      using that mask_bound [OF le(2)] by (simp add: word_le_def uint_word_of_int_eq take_bit_int_eq_self)
    show ?thesis
      using False op u [OF l] u [OF r] w m representable_u128 [OF le(2), of z]
      by (auto simp: checked_integer_arithmetic_def u128_checked_def integer_mask_ok if_representable_def
          representable_def take_bit_raw_integer simp flip: take_bit_eq_mask)
  qed
qed

lemma unsigned_value: "canonical_raw bits v \<Longrightarrow> integer_value False (unat bits) v = uint v"
  by (simp add: integer_value_def canonical_raw_def take_bit_int_eq_self)

lemma sdiv_abs_le: "\<bar>x sdiv y\<bar> \<le> \<bar>x :: int\<bar>"
  using sdiv_int_range [of x y] by auto

definition remainder_overflow :: "binary_op \<Rightarrow> bool \<Rightarrow> u16 \<Rightarrow> int \<Rightarrow> int \<Rightarrow> bool" where
  "remainder_overflow op s bits x y \<longleftrightarrow> op = RemChecked \<and> s \<and> bits = 128 \<and> x = - (2 ^ 127) \<and> y = - 1"

lemma sdiv_overflow:
  assumes "- (2 ^ 127) \<le> x" "x < 2 ^ 127" "y \<noteq> 0"
  shows "i128_checked (x sdiv y) = None \<longleftrightarrow> x = - (2 ^ 127) \<and> y = - 1"
proof
  assume none: "i128_checked (x sdiv y) = None"
  have "\<bar>x sdiv y\<bar> \<le> \<bar>x\<bar>" by (rule sdiv_abs_le)
  with none assms have x: "x = - (2 ^ 127)" "x sdiv y = 2 ^ 127"
    by (auto simp: i128_checked_def split: if_splits)
  have "x sdiv y = - x" using x by simp
  then have "y < 0" using x assms(3) sgn_sdiv_eq_sgn_mult [of x y] by (auto simp: sgn_if split: if_splits)
  moreover have "\<bar>x sdiv y\<bar> = \<bar>x\<bar> div \<bar>y\<bar>" by (simp add: signed_divide_int_def abs_mult abs_sgn_eq x assms(3) abs_of_nonneg pos_imp_zdiv_nonneg_iff)
  ultimately have "2 ^ 127 = (2 ^ 127 :: int) div (- y)" using x by simp
  then have "\<not> 1 < - y" by (metis int_div_less_self less_irrefl zero_less_numeral zero_less_power)
  with \<open>y < 0\<close> x show "x = - (2 ^ 127) \<and> y = - 1" by simp
next
  assume "x = - (2 ^ 127) \<and> y = - 1"
  then show "i128_checked (x sdiv y) = None" by (simp add: i128_checked_def)
qed

lemma sdiv_nonneg: "0 \<le> x \<Longrightarrow> 0 \<le> y \<Longrightarrow> x sdiv y = x div (y :: int)" "0 \<le> x \<Longrightarrow> x smod y = x mod \<bar>y :: int\<bar>"
  by (auto simp: signed_divide_int_def signed_modulo_int_def sgn_if)

lemma division_exact:
  fixes s :: bool
  assumes w: "width_ok bits" and l: "canonical_raw bits l" and r: "canonical_raw bits r"
    and op: "op = DivChecked \<or> op = RemChecked"
  defines "x \<equiv> integer_value s (unat bits) l" and "y \<equiv> integer_value s (unat bits) r"
  shows "map_option (\<lambda>v. v AND mask (unat bits)) (checked_integer_division op s bits l r) =
    (if remainder_overflow op s bits x y then None
     else map_option (raw_integer (unat bits)) (language_arithmetic op s (unat bits) x y))"
proof -
  have le: "1 \<le> unat bits" "unat bits \<le> 128" using w by (simp_all add: width_ok_def)
  show ?thesis
  proof (cases s)
    case True
    have i128: "- (2 ^ 127) \<le> x" "x < 2 ^ 127"
      using representable_i128 [OF le(2) value_representable [OF le(1)]] True by (simp_all add: x_def)
    have narrow: "bits = 128" if "x = - (2 ^ 127)"
    proof (rule ccontr)
      assume "bits \<noteq> 128"
      then have "unat bits - 1 \<le> 126" using le u16_cases(1) [OF w] by simp
      then have "(2 :: int) ^ (unat bits - 1) \<le> 2 ^ 126" by (intro power_increasing) simp_all
      moreover have "- (2 ^ (unat bits - 1)) \<le> x"
        using value_representable [OF le(1), of s l] True by (simp add: representable_def x_def)
      ultimately show False using that by simp
    qed
    have sx: "sign_extend l bits = Some x" and sy: "sign_extend r bits = Some y"
      using sign_extend_ok [OF w] True by (simp_all add: x_def y_def)
    show ?thesis
    proof (cases "y = 0")
      case False
      note ov = sdiv_overflow [OF i128 False]
      show ?thesis
      proof (cases "i128_checked (x sdiv y)")
        case None
        then have "\<not> representable True (unat bits) (x sdiv y)"
          using representable_i128 [OF le(2)] by (auto simp: i128_checked_def split: if_splits)
        with None True False op ov narrow w sx sy show ?thesis
          by (auto simp: checked_integer_division_def language_arithmetic_def remainder_overflow_def
              if_representable_def)
      next
        case (Some q)
        then have "q = x sdiv y" "- (2 ^ 127) \<le> q" "q < 2 ^ 127" by (auto simp: i128_checked_def split: if_splits)
        with Some True False op ov w sx sy show ?thesis
          by (auto simp: checked_integer_division_def language_arithmetic_def remainder_overflow_def
              if_representable_def signed_fits_ok signed_to_raw_ok)
      qed
    qed (use True op w sx sy in \<open>auto simp: checked_integer_division_def language_arithmetic_def\<close>)
  next
    case False
    then have xy: "x = uint l" "y = uint r" using unsigned_value l r by (simp_all add: x_def y_def)
    have zero: "r = 0 \<longleftrightarrow> y = 0" using xy by (simp add: word_uint_eq_iff)
    have d: "x sdiv y = uint (l div r)" "x smod y = uint (l mod r)"
      using xy by (simp_all add: uint_div uint_mod sdiv_nonneg)
    have "uint (l div r) \<le> uint l" using sdiv_abs_le [of x y] d xy by simp
    then have rep: "representable False (unat bits) (x sdiv y)"
      unfolding d using l by (simp add: representable_def canonical_raw_def)
    have "v AND mask (unat bits) = raw_integer (unat bits) (uint v)" for v
      by (simp add: raw_integer_def flip: take_bit_eq_mask take_bit_word_of_int)
    with False op zero d rep show ?thesis
      by (auto simp: checked_integer_division_def language_arithmetic_def remainder_overflow_def if_representable_def)
  qed
qed

lemma shift_roundtrip:
  assumes "1 \<le> w" "w \<le> 128" "c < w"
  shows "drop_bit c (integer_value s w (raw_integer w (x * 2 ^ c))) = x \<longleftrightarrow> representable s w (x * 2 ^ c)"
proof
  assume rep: "representable s w (x * 2 ^ c)"
  then show "drop_bit c (integer_value s w (raw_integer w (x * 2 ^ c))) = x"
    using assms by (simp add: value_raw_representable drop_bit_eq_div)
next
  let ?v = "integer_value s w (raw_integer w (x * 2 ^ c))"
  assume "drop_bit c ?v = x"
  then have x: "?v div 2 ^ c = x" by (simp add: drop_bit_eq_div)
  have "take_bit w ?v = take_bit w (x * 2 ^ c)"
    using assms by (simp add: value_congruent uint_raw_integer)
  then have "take_bit c (take_bit w ?v) = take_bit c (take_bit w (x * 2 ^ c))" by simp
  then have "take_bit c ?v = take_bit c (x * 2 ^ c)" using assms(3) by (simp only: take_bit_take_bit min.absorb1 less_imp_le)
  then have "?v mod 2 ^ c = 0" by (simp only: take_bit_eq_mod mod_mult_self2_is_0)
  with x have "?v = x * 2 ^ c" by (metis add.right_neutral div_mult_mod_eq)
  then show "representable s w (x * 2 ^ c)" using value_representable [OF assms(1)] by metis
qed

lemma shifted_raw:
  assumes "1 \<le> w" "w \<le> 128"
  shows "push_bit c (raw AND mask w) AND mask w = raw_integer w (integer_value s w raw * 2 ^ c)"
proof -
  have "push_bit c (raw AND mask w) AND mask w = raw_integer w (uint raw * 2 ^ c)"
    by (rule bit_eqI) (auto simp: raw_integer_def bit_simps bit_uint_iff simp flip: push_bit_eq_mult)
  moreover have "take_bit w (uint raw * 2 ^ c) = take_bit w (integer_value s w raw * 2 ^ c)"
    using value_congruent [OF assms(1), of s raw] by (metis take_bit_mult)
  ultimately show ?thesis by (simp add: raw_integer_def)
qed

lemma shift_count:
  fixes s :: bool
  assumes w: "width_ok bits" and r: "canonical_raw bits r"
  defines "y \<equiv> integer_value s (unat bits) r"
  shows "0 \<le> y \<Longrightarrow> y = uint r" and "\<not> s \<Longrightarrow> 0 \<le> y"
proof -
  have le: "1 \<le> unat bits" using w by (simp add: width_ok_def)
  show "\<not> s \<Longrightarrow> 0 \<le> y" by (simp add: y_def integer_value_def)
  assume "0 \<le> y"
  moreover have "y < 2 ^ unat bits"
  proof -
    have "(2 :: int) ^ (unat bits - 1) \<le> 2 ^ unat bits" by (intro power_increasing) simp_all
    moreover have "y < 2 ^ (unat bits - 1) \<or> y < 2 ^ unat bits"
      using value_representable [OF le, of s r] by (cases s) (simp_all add: representable_def y_def)
    ultimately show ?thesis by linarith
  qed
  ultimately have "take_bit (unat bits) y = y" by (simp add: take_bit_int_eq_self)
  then show "y = uint r"
    using value_congruent [OF le, of s r] r by (simp add: y_def canonical_raw_def take_bit_int_eq_self)
qed

lemma uint_drop_bit: "uint (drop_bit c (v :: u128)) = drop_bit c (uint v)"
proof (rule bit_eqI)
  fix n
  have "bit v (c + n) \<Longrightarrow> c + n < 128" using bit_imp_le_length [of v "c + n"] by simp
  then show "bit (uint (drop_bit c v)) n \<longleftrightarrow> bit (drop_bit c (uint v)) n"
    by (auto simp: bit_simps bit_uint_iff)
qed

lemma shift_exact:
  fixes s :: bool
  assumes w: "width_ok bits" and l: "canonical_raw bits l" and r: "canonical_raw bits r"
    and op: "op = ShiftLeftChecked \<or> op = ShiftLeftWrapping \<or> op = ShiftRightChecked"
  defines "x \<equiv> integer_value s (unat bits) l" and "y \<equiv> integer_value s (unat bits) r"
  shows "map_option (\<lambda>v. v AND mask (unat bits)) (checked_integer_shift op s bits l r) =
    map_option (raw_integer (unat bits)) (language_arithmetic op s (unat bits) x y)"
proof (cases "0 \<le> y \<and> y < int (unat bits)")
  case False
  have le: "1 \<le> unat bits" "unat bits \<le> 128" using w by (simp_all add: width_ok_def)
  have neg: "(if s then map_option (\<lambda>z. z < 0) (sign_extend r bits) else Some False) = Some (y < 0)"
    using sign_extend_ok [OF w, of r] shift_count(2) [OF w r, of s] by (auto simp: y_def)
  have "unat r \<ge> unat bits" if "0 \<le> y"
  proof -
    have "y = int (unat r)" using shift_count(1) [OF w r, of s, folded y_def, OF that] by simp
    moreover have "\<not> y < int (unat bits)" using that False by blast
    ultimately show ?thesis by linarith
  qed
  then have "checked_integer_shift op s bits l r = None"
    unfolding checked_integer_shift_def neg
    by (cases "y < 0"; cases "u32_try_from (unat r)") (simp_all add: u32_try_from_Some)
  then show ?thesis using op False by (auto simp: language_arithmetic_def)
next
  case True
  have le: "1 \<le> unat bits" "unat bits \<le> 128" using w by (simp_all add: width_ok_def)
  have neg: "(if s then map_option (\<lambda>z. z < 0) (sign_extend r bits) else Some False) = Some False"
    using sign_extend_ok [OF w, of r] True by (auto simp: y_def)
  have y: "y = uint r" using shift_count(1) [OF w r, of s] True by (simp add: y_def)
  define c where "c = unat r"
  have "y = int c" using y by (simp add: c_def)
  then have c: "nat y = c" "c < unat bits" using True by (simp, linarith)
  have "c < 2 ^ 32" using c(2) le(2) by simp
  then have count: "u32_try_from (unat r) = Some (word_of_nat c)" "unat (word_of_nat c :: u32) = c"
    by (simp_all add: u32_try_from_def unat_of_nat_u32 flip: c_def)
  have lm: "l AND mask (unat bits) = l"
    using l by (simp add: canonical_raw_def take_bit_int_eq_self word_uint_eq_iff unsigned_take_bit_eq flip: take_bit_eq_mask)
  have sh: "push_bit c l AND mask (unat bits) = raw_integer (unat bits) (x * 2 ^ c)"
    using shifted_raw [OF le, of c l s] lm by (simp add: x_def)
  have sx: "sign_extend l bits = Some x" if s using sign_extend_ok [OF w] that by (simp add: x_def)
  have unsig: "(drop_bit c (raw_integer (unat bits) (x * 2 ^ c)) = l) = representable s (unat bits) (x * 2 ^ c)" if "\<not> s"
  proof -
    have "x = uint l" using unsigned_value [OF l] that by (simp add: x_def)
    moreover have "integer_value s (unat bits) (raw_integer (unat bits) (x * 2 ^ c)) = uint (raw_integer (unat bits) (x * 2 ^ c))"
      using that le by (simp add: value_raw_integer uint_raw_integer)
    ultimately show ?thesis
      using shift_roundtrip [OF le c(2), of s x] by (simp add: word_uint_eq_iff uint_drop_bit)
  qed
  have right: "drop_bit c l AND mask (unat bits) = raw_integer (unat bits) (x div 2 ^ c)" if "\<not> s"
  proof -
    have "drop_bit c l AND mask (unat bits) = raw_integer (unat bits) (uint (drop_bit c l))"
      by (simp add: raw_integer_def flip: take_bit_eq_mask take_bit_word_of_int)
    moreover have "uint (drop_bit c l) = x div 2 ^ c"
      using unsigned_value [OF l] that uint_drop_bit [of c l] by (simp only: x_def drop_bit_eq_div)
    ultimately show ?thesis by simp
  qed
  let ?shifted = "raw_integer (unat bits) (x * 2 ^ c)"
  have body: "checked_integer_shift op s bits l r =
      (case op of
         ShiftLeftChecked \<Rightarrow> if representable s (unat bits) (x * 2 ^ c) then Some (raw_integer (unat bits) (x * 2 ^ c)) else None
       | ShiftLeftWrapping \<Rightarrow> Some (raw_integer (unat bits) (x * 2 ^ c))
       | ShiftRightChecked \<Rightarrow> if s then Some (raw_integer (unat bits) (x div 2 ^ c)) else Some (drop_bit c l)
       | _ \<Rightarrow> None)"
  proof -
    have "checked_integer_shift op s bits l r =
      (case op of
         ShiftLeftChecked \<Rightarrow>
           Option.bind (if s then Option.bind (sign_extend ?shifted bits) (\<lambda>t. map_option (\<lambda>u. drop_bit c t = u) (sign_extend l bits))
             else Some (drop_bit c ?shifted = l)) (\<lambda>rt. if rt then Some ?shifted else None)
       | ShiftLeftWrapping \<Rightarrow> Some ?shifted
       | ShiftRightChecked \<Rightarrow>
           if s then Option.bind (sign_extend l bits) (\<lambda>l. signed_to_raw (drop_bit c l) bits) else Some (drop_bit c l)
       | _ \<Rightarrow> None)"
      by (simp only: checked_integer_shift_def neg Option.bind.simps count integer_mask_ok [OF w] Let_def lm sh if_False
          linorder_not_le [THEN iffD2, OF c(2)])
    then show ?thesis
      using op sx unsig shift_roundtrip [OF le c(2), of True x] sign_extend_ok [OF w]
      by (elim disjE; cases s) (simp_all add: signed_to_raw_ok [OF w] del: drop_bit_eq_div drop_bit_nonnegative_int_iff,
        simp_all add: drop_bit_eq_div)
  qed
  show ?thesis
    unfolding body language_arithmetic_def using op True c right
    by (elim disjE; cases s) (simp_all add: if_representable_def)
qed

lemma comparison_exact:
  assumes w: "width_ok bits" and l: "canonical_raw bits l" and r: "canonical_raw bits r"
  shows "l = r \<longleftrightarrow> integer_value s (unat bits) l = integer_value s (unat bits) r"
    and "compare_integer op s bits l r = compare_by op (integer_value s (unat bits) l) (integer_value s (unat bits) r)"
proof -
  have le: "1 \<le> unat bits" using w by (simp add: width_ok_def)
  show "l = r \<longleftrightarrow> integer_value s (unat bits) l = integer_value s (unat bits) r"
    using raw_integer_value [OF le] l r by (metis canonical_raw_def)
  show "compare_integer op s bits l r = compare_by op (integer_value s (unat bits) l) (integer_value s (unat bits) r)"
    using sign_extend_ok [OF w] unsigned_value [OF l] unsigned_value [OF r]
    by (cases s; cases op) (simp_all add: compare_integer_def compare_by_def word_less_def word_le_def)
qed

subsection \<open>Folding is exact\<close>

lemma fold_integer_language:
  fixes s :: bool
  assumes w: "width_ok bits" and l: "canonical_raw bits l" and r: "canonical_raw bits r"
  defines "x \<equiv> integer_value s (unat bits) l" and "y \<equiv> integer_value s (unat bits) r"
  shows "fold_integer_binary op s bits l r =
    (if remainder_overflow op s bits x y then None else language_integer op s bits l r)"
proof -
  have int: "map_option (\<lambda>v. ConstInteger s bits (v AND mask (unat bits))) o' =
      map_option (\<lambda>z. ConstInteger s bits (raw_integer (unat bits) z)) z'"
    if "map_option (\<lambda>v. v AND mask (unat bits)) o' = map_option (raw_integer (unat bits)) z'" for o' z'
    using that by (cases o'; cases z') simp_all
  have chk: "map_option (\<lambda>v. ConstInteger s bits (v AND mask (unat bits))) (checked_integer_arithmetic op s bits l r) =
      map_option (\<lambda>z. ConstInteger s bits (raw_integer (unat bits) z)) (if_representable s (unat bits) z)"
    if "checked_operation op x y = Some z" for z
    by (rule int) (use arithmetic_exact [OF w l r] that in \<open>simp add: x_def y_def\<close>)
  have shf: "map_option (\<lambda>v. ConstInteger s bits (v AND mask (unat bits))) (checked_integer_shift op s bits l r) =
      map_option (\<lambda>z. ConstInteger s bits (raw_integer (unat bits) z)) (language_arithmetic op s (unat bits) x y)"
    if "op = ShiftLeftChecked \<or> op = ShiftLeftWrapping \<or> op = ShiftRightChecked"
    by (rule int) (use shift_exact [OF w l r that, of s] in \<open>simp add: x_def y_def\<close>)
  have dv: "map_option (\<lambda>v. ConstInteger s bits (v AND mask (unat bits))) (checked_integer_division op s bits l r) =
      (if remainder_overflow op s bits x y then None
       else map_option (\<lambda>z. ConstInteger s bits (raw_integer (unat bits) z)) (language_arithmetic op s (unat bits) x y))"
    if "op = DivChecked \<or> op = RemChecked"
    using division_exact [OF w l r that, of s] int [of _ "None"] int [of _ "language_arithmetic op s (unat bits) x y"]
    by (auto simp: x_def y_def split: if_splits)
  note wrap = wrapping_operators [OF w, where s = s and l = l and r = r, folded x_def y_def]
  note cmp = comparison_exact [OF w l r, where s = s, folded x_def y_def]
  show ?thesis
    unfolding fold_integer_binary_def integer_mask_ok [OF w] language_integer_def Let_def
    using chk shf dv wrap cmp
    by (cases op) (simp_all add: language_comparison_def remainder_overflow_def checked_operation_def
        language_arithmetic_def compare_by_def flip: x_def y_def)
qed

definition language_unary :: "unary_op \<Rightarrow> scalar_constant \<Rightarrow> scalar_constant option option" where
  "language_unary op c =
     (case (op, c) of
        (BoolNot, ConstBool b) \<Rightarrow> Some (Some (ConstBool (\<not> b)))
      | (BitNot, ConstInteger s bits raw) \<Rightarrow>
          Some (Some (ConstInteger s bits (raw_integer (unat bits) (NOT (integer_value s (unat bits) raw)))))
      | (Negate, ConstInteger s bits raw) \<Rightarrow>
          if s then Some (map_option (\<lambda>z. ConstInteger s bits (raw_integer (unat bits) z))
            (if_representable s (unat bits) (- integer_value s (unat bits) raw)))
          else None
      | (Negate, ConstFloat32 v) \<Rightarrow> Some (Some (ConstFloat32 (v XOR push_bit 31 1)))
      | (Negate, ConstFloat64 v) \<Rightarrow> Some (Some (ConstFloat64 (v XOR push_bit 63 1)))
      | _ \<Rightarrow> None)"

definition language_binary :: "binary_op \<Rightarrow> scalar_constant \<Rightarrow> scalar_constant \<Rightarrow> scalar_constant option option" where
  "language_binary op a b =
     (case (a, b) of
        (ConstInteger s bits l, ConstInteger s' bits' r) \<Rightarrow>
          if s = s' \<and> bits = bits' then Some (language_integer op s bits l r) else None
      | (ConstBool l, ConstBool r) \<Rightarrow>
          (case op of Equals \<Rightarrow> Some (Some (ConstBool (l = r))) | NotEqual \<Rightarrow> Some (Some (ConstBool (l \<noteq> r))) | _ \<Rightarrow> None)
      | (ConstFloat32 l, ConstFloat32 r) \<Rightarrow>
          map_option (\<lambda>b. Some (ConstBool b)) (compare_float op (float32_rank l) (float32_rank r))
      | (ConstFloat64 l, ConstFloat64 r) \<Rightarrow>
          map_option (\<lambda>b. Some (ConstBool b)) (compare_float op (float64_rank l) (float64_rank r))
      | _ \<Rightarrow> None)"

text \<open>A constant of a type: the representation fits the width.\<close>

definition constant_of_kind :: "flow_type_kind \<Rightarrow> scalar_constant \<Rightarrow> bool" where
  "constant_of_kind k c =
     (case c of
        ConstBool _ \<Rightarrow> k = Scalar ScalarBool
      | ConstInteger s bits raw \<Rightarrow> k = Scalar (ScalarInteger s bits) \<and> canonical_raw bits raw
      | ConstFloat32 _ \<Rightarrow> k = Scalar ScalarFloat32
      | ConstFloat64 _ \<Rightarrow> k = Scalar ScalarFloat64)"

definition scalar_kind :: "flow_type_kind \<Rightarrow> bool" where
  "scalar_kind k \<longleftrightarrow> (\<exists>c. constant_of_kind k c)"

lemma take_to_le_bytes: "n \<le> m \<Longrightarrow> take n (to_le_bytes m v) = to_le_bytes n v"
proof (induction n arbitrary: m v)
  case (Suc n)
  then obtain k where "m = Suc k" "n \<le> k" by (cases m) simp_all
  with Suc.IH show ?case by simp
qed simp

lemma width_ok_iff: "width_ok bits \<longleftrightarrow> bits \<noteq> 0 \<and> \<not> bits > 128"
  by (auto simp: width_ok_def word_less_nat_alt word_unat_eq_iff)

lemma byte_width: "integer_byte_width bits = (if width_ok bits then Some ((unat bits + 7) div 8) else None)"
  by (simp add: integer_byte_width_def width_ok_iff)

lemma canonical_take_bit: "canonical_raw bits v \<longleftrightarrow> take_bit (unat bits) v = v"
proof
  assume "take_bit (unat bits) v = v"
  then have "uint v = take_bit (unat bits) (uint v)" by (metis unsigned_take_bit_eq)
  then show "canonical_raw bits v" using take_bit_int_less_exp [of "unat bits" "uint v"] by (simp add: canonical_raw_def)
next
  assume "canonical_raw bits v"
  then show "take_bit (unat bits) v = v"
    by (simp add: canonical_raw_def word_uint_eq_iff unsigned_take_bit_eq take_bit_int_eq_self)
qed

lemma canonical_raw_integer: "unat bits \<le> 128 \<Longrightarrow> canonical_raw bits (raw_integer (unat bits) z)"
  by (simp add: canonical_take_bit raw_integer_def take_bit_word_of_int)

lemma immediate_roundtrip:
  assumes "constant_to_immediate c t types = Some i" and "\<And>k. kind_at types t = Some k \<Longrightarrow> constant_of_kind k c"
  shows "constant_from_immediate i t types = Some c"
proof (cases c)
  case (ConstInteger s bits raw)
  then obtain w where k: "kind_at types t = Some (Scalar (ScalarInteger s bits))"
    and w: "width_ok bits" "i = IntegerImmediate bits (take w (to_le_bytes 16 raw))" "w = (unat bits + 7) div 8"
    using assms(1) by (auto simp: constant_to_immediate_def byte_width split: option.splits flow_type_kind.splits scalar_type.splits if_splits)
  have c: "canonical_raw bits raw" using assms(2) [OF k] ConstInteger by (simp add: constant_of_kind_def)
  have "unat bits \<le> 128" using w(1) by (simp add: width_ok_def)
  then have le: "w \<le> 16" "unat bits \<le> 8 * w" unfolding w(3) by presburger+
  then have bytes: "take w (to_le_bytes 16 raw) = to_le_bytes w raw" by (simp add: take_to_le_bytes)
  have "take_bit (8 * w) (take_bit (unat bits) raw) = take_bit (unat bits) raw"
    using le(2) by (simp add: take_bit_take_bit min_def)
  then have "take_bit (8 * w) raw = raw" by (simp only: c [unfolded canonical_take_bit])
  then have raw: "from_le_bytes (take w (to_le_bytes 16 raw)) = raw" by (simp add: bytes from_to_le_bytes)
  have "(raw AND mask (unat bits)) AND NOT (mask (unat bits)) = 0" by (simp add: and.assoc)
  then have "raw AND NOT (mask (unat bits)) = 0" by (simp only: c [unfolded canonical_take_bit take_bit_eq_mask])
  then show ?thesis using k w raw le ConstInteger bytes
    by (simp add: constant_from_immediate_def byte_width integer_mask_ok)
qed (use assms in \<open>auto simp: constant_to_immediate_def constant_from_immediate_def
      split: option.splits flow_type_kind.splits scalar_type.splits\<close>)

lemma constant_from_immediate_kind:
  assumes "constant_from_immediate i t types = Some c"
  shows "\<exists>k. kind_at types t = Some k \<and> constant_of_kind k c"
proof -
  have "canonical_raw bits v" if "v AND NOT (mask (unat bits)) = 0" for bits v
  proof -
    have "v = (v AND mask (unat bits)) OR (v AND NOT (mask (unat bits)))" by (rule bit_eqI) (auto simp: bit_simps)
    with that show ?thesis by (simp add: canonical_take_bit take_bit_eq_mask)
  qed
  moreover have "canonical_raw bits 0" for bits by (simp add: canonical_raw_def)
  ultimately show ?thesis
    using assms by (auto simp: constant_from_immediate_def constant_of_kind_def byte_width integer_mask_ok bind_eq_Some_conv Let_def
        split: option.splits flow_type_kind.splits scalar_type.splits immediate.splits if_splits)
qed

subsection \<open>Folding an operation\<close>

lemma fold_integer_Some:
  assumes "fold_integer_binary op s bits l r = Some c" and "canonical_raw bits l" "canonical_raw bits r"
  shows "width_ok bits \<and> language_integer op s bits l r = Some c"
proof -
  have w: "width_ok bits" using assms(1) integer_mask_None [of bits] by (cases "width_ok bits") (simp_all add: fold_integer_binary_def)
  with fold_integer_language [OF this assms(2,3), of op s] assms(1) show ?thesis by (auto split: if_splits)
qed

lemma language_integer_kind:
  "width_ok bits \<Longrightarrow> language_integer op s bits l r = Some (ConstInteger s' bits' raw) \<Longrightarrow>
    s' = s \<and> bits' = bits \<and> canonical_raw bits raw"
  by (auto simp: language_integer_def Let_def width_ok_def canonical_raw_integer split: option.splits)

lemma fold_binary_language:
  assumes "fold_binary op a b t types = Some i" and "constant_of_kind k a" and "constant_of_kind k' b"
  shows "\<exists>c. language_binary op a b = Some (Some c) \<and> constant_from_immediate i t types = Some c"
proof -
  obtain c where lang: "language_binary op a b = Some (Some c)" and imm: "constant_to_immediate c t types = Some i"
    and can: "\<And>s bits raw. c = ConstInteger s bits raw \<Longrightarrow> canonical_raw bits raw"
  proof -
    have "\<exists>c. language_binary op a b = Some (Some c) \<and> constant_to_immediate c t types = Some i \<and>
        (\<forall>s bits raw. c = ConstInteger s bits raw \<longrightarrow> canonical_raw bits raw)"
      using assms
      by (cases a; cases b)
        (auto simp: fold_binary_def language_binary_def constant_of_kind_def bind_eq_Some_conv
          dest: fold_integer_Some language_integer_kind split: if_splits binary_op.splits)
    then show thesis using that by blast
  qed
  have "constant_of_kind k c" if "kind_at types t = Some k" for k
    using imm can that by (cases c) (auto simp: constant_to_immediate_def constant_of_kind_def
        split: flow_type_kind.splits scalar_type.splits if_splits)
  from immediate_roundtrip [OF imm this] lang show ?thesis by blast
qed

lemma fold_unary_language:
  assumes "fold_unary op a t types = Some i" and "constant_of_kind k a"
  shows "\<exists>c. language_unary op a = Some (Some c) \<and> constant_from_immediate i t types = Some c"
proof -
  have neg: "language_unary Negate (ConstInteger True bits raw) = Some (Some (ConstInteger True bits r)) \<and> canonical_raw bits r"
    if "sign_extend raw bits = Some z" "i128_checked (- z) = Some negated" "signed_fits negated bits = Some True"
      "signed_to_raw negated bits = Some r" for raw bits z negated r
  proof -
    have w: "width_ok bits" using that(1) integer_mask_None by (fastforce simp: sign_extend_def)
    then have "r = raw_integer (unat bits) negated" using that(4) by (simp add: signed_to_raw_ok)
    moreover have "if_representable True (unat bits) (- integer_value True (unat bits) raw) = Some negated"
      using that sign_extend_ok [OF w, of raw] signed_fits_ok [OF w, of negated]
      by (auto simp: i128_checked_def if_representable_def split: if_splits)
    ultimately show ?thesis using w by (simp add: language_unary_def canonical_raw_integer width_ok_def)
  qed
  have bitnot: "language_unary BitNot (ConstInteger s bits raw) = Some (Some (ConstInteger s bits (NOT raw AND m))) \<and>
      canonical_raw bits (NOT raw AND m)" if "integer_mask bits = Some m" for s bits raw m
  proof -
    have w: "width_ok bits" using that integer_mask_None by fastforce
    have "NOT raw AND mask (unat bits) = raw_integer (unat bits) (NOT (uint raw))"
      by (rule bit_eqI) (auto simp: raw_integer_def bit_simps bit_uint_iff)
    moreover have "take_bit (unat bits) (NOT (uint raw)) = take_bit (unat bits) (NOT (integer_value s (unat bits) raw))"
      using value_congruent [of "unat bits" s raw] w by (simp add: width_ok_def) (metis take_bit_not_take_bit)
    ultimately have "NOT raw AND m = raw_integer (unat bits) (NOT (integer_value s (unat bits) raw))"
      using w that by (simp add: integer_mask_ok raw_integer_def)
    then show ?thesis using w by (simp add: language_unary_def canonical_raw_integer width_ok_def)
  qed
  have "\<exists>c. language_unary op a = Some (Some c) \<and> constant_to_immediate c t types = Some i \<and>
      (\<forall>s bits raw. c = ConstInteger s bits raw \<longrightarrow> canonical_raw bits raw)"
  proof (cases a)
    case (ConstInteger s bits raw)
    show ?thesis
    proof (cases op)
      case Negate
      then obtain z negated r where s "sign_extend raw bits = Some z" "i128_checked (- z) = Some negated"
        "signed_fits negated bits = Some True" "signed_to_raw negated bits = Some r"
        "constant_to_immediate (ConstInteger True bits r) t types = Some i"
        using assms(1) ConstInteger by (auto simp: fold_unary_def bind_eq_Some_conv split: if_splits)
      with neg [of raw bits z negated r] show ?thesis using ConstInteger Negate by auto
    next
      case BitNot
      then obtain m where "integer_mask bits = Some m" "constant_to_immediate (ConstInteger s bits (NOT raw AND m)) t types = Some i"
        using assms(1) ConstInteger by (auto simp: fold_unary_def bind_eq_Some_conv)
      with bitnot [of bits m s raw] show ?thesis using ConstInteger BitNot by auto
    qed (use assms(1) ConstInteger in \<open>simp add: fold_unary_def\<close>)
  qed (cases op; use assms(1) in \<open>auto simp: fold_unary_def language_unary_def\<close>)+
  then obtain c where lang: "language_unary op a = Some (Some c)" and imm: "constant_to_immediate c t types = Some i"
    and can: "\<And>s bits raw. c = ConstInteger s bits raw \<Longrightarrow> canonical_raw bits raw" by blast
  have "constant_of_kind k c" if "kind_at types t = Some k" for k
    using imm can that by (cases c) (auto simp: constant_to_immediate_def constant_of_kind_def
        split: flow_type_kind.splits scalar_type.splits if_splits)
  from immediate_roundtrip [OF imm this] lang show ?thesis by blast
qed

text \<open>C37. Constant folding of integer operators is exact for every width from 1 to 128 bits: on canonical
  operands the folder returns precisely what the language prescribes (wrapping operators reduce modulo
  the width, checked operators, division, remainder and shifts yield the mathematical result when it is
  representable and the count in range), and folds nothing that the language abandons. The single case
  left to run time although the language defines it is the 128-bit remainder of the minimum by minus one.\<close>

theorem fold_integer_exact:
  assumes "width_ok bits" and "canonical_raw bits l" and "canonical_raw bits r"
  shows "fold_integer_binary op s bits l r =
    (if remainder_overflow op s bits (integer_value s (unat bits) l) (integer_value s (unat bits) r) then None
     else language_integer op s bits l r)"
  using fold_integer_language [OF assms, of op s] .

theorem fold_integer_exact_witness:
  "fold_integer_binary AddChecked True 8 100 27 = language_integer AddChecked True 8 100 27 \<and>
   fold_integer_binary RemChecked True 128 1 2 = language_integer RemChecked True 128 1 2"
  using fold_integer_exact [of 8 100 27 AddChecked True] fold_integer_exact [of 128 1 2 RemChecked True]
  by (simp add: width_ok_def canonical_raw_def remainder_overflow_def integer_value_def)

end
