(* ===== verification/Flow_Meter.thy ===== *)
theory Flow_Meter
  imports Scalar_Fold Build_Model
begin

text \<open>
  The metered computations of the optimizer (\<open>wrela-flow-opt\<close>): every visited element polls for
  cancellation and is charged against a work limit; allocations are bounded and may fail; every
  decision is recorded in a bounded report. A metered computation passes the meter along a
  computation of the prelude.
\<close>

subsection \<open>Policy, limits and errors\<close>

record pipeline_identity =
  pipeline_name :: text_bytes
  revision :: u32
  implementation :: sha256_digest

record optimization_profile =
  profile_level :: optimization_level
  pipeline :: pipeline_identity
  verify_after_each_pass :: bool
  maximum_iterations :: u32
  maximum_ir_growth_percent :: u32

record test_plan_limits =
  plan_tests :: u32
  plan_groups :: u32
  plan_scenarios :: u32
  plan_scenario_steps :: u32
  plan_payload_bytes :: u64
  plan_report_bytes :: u64
  plan_events_per_group :: u32
  plan_output_bytes_per_group :: u64
  plan_execution_timeout_ns_per_group :: u64

record optimization_limits =
  limit_functions :: u32
  limit_tests :: u32
  limit_blocks :: u64
  limit_instructions :: u64
  limit_values :: u64
  limit_proofs :: u32
  limit_model_edges :: u64
  limit_payload_bytes :: u64
  limit_passes :: u32
  limit_decisions :: u64
  limit_report_bytes :: u64
  limit_work :: u64
  limit_validation_work :: u64
  limit_validation_errors :: u32
  limit_test_plan :: test_plan_limits

text \<open>The error of a failed validation of the output module is not listed: that validation is not
  part of the pipeline.\<close>

datatype (plugins only: code size) optimize_error =
    OptimizeCancelled
  | UnsupportedOptimizationLevel optimization_level
  | InvalidProfile string
  | InvalidLimits
  | OptimizeResourceLimit string u64
  | InvalidReport string
  | ProofViolation string string

datatype (plugins only: code size) decision_kind = Removed | Folded | Inlined | Coalesced | Reordered | Retained

record optimization_decision =
  decision_pass :: text_bytes
  subject_of :: text_bytes
  decision :: decision_kind
  justification :: text_bytes
  relied_on :: "proof_id list"

record pass_statistics =
  statistics_pass :: text_bytes
  iterations :: u32
  changed :: bool
  instructions_before :: u64
  instructions_after :: u64
  test_entries_before :: u32
  test_entries_after :: u32
  test_table_preserved :: bool

record optimization_report =
  report_profile :: optimization_profile
  passes :: "pass_statistics list"
  decisions :: "optimization_decision list"

subsection \<open>Metered computations\<close>

record work_meter =
  used :: u64
  work_limit :: u64

type_synonym 'a ocomp = "(optimize_error, 'a) comp"
type_synonym 'a mcomp = "work_meter \<Rightarrow> ('a \<times> work_meter) ocomp"

definition m_ok :: "'a \<Rightarrow> 'a mcomp" where
  "m_ok x = (\<lambda>m. ok (x, m))"

definition m_err :: "optimize_error \<Rightarrow> 'a mcomp" where
  "m_err e = (\<lambda>m. err e)"

definition m_lift :: "'a ocomp \<Rightarrow> 'a mcomp" where
  "m_lift c = (\<lambda>m. and_then c (\<lambda>x. ok (x, m)))"

definition m_then :: "'a mcomp \<Rightarrow> ('a \<Rightarrow> 'b mcomp) \<Rightarrow> 'b mcomp" where
  "m_then c f = (\<lambda>m. and_then (c m) (\<lambda>(x, m). f x m))"

primrec m_each :: "('s \<Rightarrow> 'x \<Rightarrow> 's mcomp) \<Rightarrow> 's \<Rightarrow> 'x list \<Rightarrow> 's mcomp" where
  "m_each f s [] = m_ok s"
| "m_each f s (x # xs) = m_then (f s x) (\<lambda>s. m_each f s xs)"

primrec m_map :: "('x \<Rightarrow> 'y mcomp) \<Rightarrow> 'x list \<Rightarrow> 'y list mcomp" where
  "m_map f [] = m_ok []"
| "m_map f (x # xs) = m_then (f x) (\<lambda>y. m_then (m_map f xs) (\<lambda>ys. m_ok (y # ys)))"

definition m_guard :: "bool \<Rightarrow> optimize_error \<Rightarrow> unit mcomp" where
  "m_guard b e = m_lift (guard_err b e)"

definition m_or_err :: "'a option \<Rightarrow> optimize_error \<Rightarrow> 'a mcomp" where
  "m_or_err x e = m_lift (or_err x e)"

definition ensure_limit :: "u64 \<Rightarrow> string \<Rightarrow> u64 \<Rightarrow> unit ocomp" where
  "ensure_limit v resource limit = guard_err (v > limit) (OptimizeResourceLimit resource limit)"

definition length_as_u64 :: "nat \<Rightarrow> string \<Rightarrow> u64 \<Rightarrow> u64 ocomp" where
  "length_as_u64 n resource limit = or_err (u64_try_from n) (OptimizeResourceLimit resource limit)"

definition charge :: "u64 \<Rightarrow> unit mcomp" where
  "charge amount = (\<lambda>m.
     let e = OptimizeResourceLimit ''optimizer work'' (work_limit m) in
     and_then (or_err (checked_add_u64 (used m) amount) e) (\<lambda>next.
     and_then (ensure_limit next ''optimizer work'' (work_limit m)) (\<lambda>_.
       ok ((), m\<lparr>used := next\<rparr>))))"

definition checkpoint :: "unit mcomp" where
  "checkpoint = m_then (m_lift (ask OptimizeCancelled)) (\<lambda>_. charge 1)"

definition proof_violation :: "string \<Rightarrow> string \<Rightarrow> 'a mcomp" where
  "proof_violation pass detail = m_err (ProofViolation pass detail)"

definition reserve_items :: "nat \<Rightarrow> string \<Rightarrow> u64 \<Rightarrow> unit ocomp" where
  "reserve_items count resource limit =
     and_then (length_as_u64 count resource limit) (\<lambda>n.
     and_then (ensure_limit n resource limit) (\<lambda>_.
       ask (OptimizeResourceLimit resource limit)))"

definition filled_vec :: "nat \<Rightarrow> 'a \<Rightarrow> string \<Rightarrow> u64 \<Rightarrow> 'a list mcomp" where
  "filled_vec n v resource limit = m_lift (and_then (reserve_items n resource limit) (\<lambda>_. ok (replicate n v)))"

definition index_as_u32 :: "nat \<Rightarrow> string \<Rightarrow> u64 \<Rightarrow> u32 ocomp" where
  "index_as_u32 i resource limit = or_err (u32_try_from i) (OptimizeResourceLimit resource limit)"

definition count_retained :: "bool list \<Rightarrow> string \<Rightarrow> u64 \<Rightarrow> nat mcomp" where
  "count_retained keep resource limit =
     m_then (m_each (\<lambda>n k. m_then checkpoint (\<lambda>_.
         if k then m_or_err (checked_add_usize n 1) (OptimizeResourceLimit resource limit) else m_ok n)) 0 keep) (\<lambda>retained.
     m_lift (and_then (length_as_u64 retained resource limit) (\<lambda>n.
       and_then (ensure_limit n resource limit) (\<lambda>_. ok retained))))"

primrec all_retained :: "bool list \<Rightarrow> bool mcomp" where
  "all_retained [] = m_ok True"
| "all_retained (k # ks) = m_then checkpoint (\<lambda>_. if \<not> k then m_ok False else all_retained ks)"

subsection \<open>The report\<close>

fun decimal :: "nat \<Rightarrow> text_bytes" where
  "decimal n = (if n < 10 then [48 + word_of_nat n] else decimal (n div 10) @ [48 + word_of_nat (n mod 10)])"

declare decimal.simps [simp del]

definition subject :: "u32 \<Rightarrow> text_bytes \<Rightarrow> u32 \<Rightarrow> text_bytes ocomp" where
  "subject function kind i =
     and_then (ask (OptimizeResourceLimit ''optimization report bytes'' 32)) (\<lambda>_.
       ok (str ''f'' @ decimal (unat function) @ str '':'' @ kind @ decimal (unat i)))"

definition instruction_subject :: "u32 \<Rightarrow> u32 \<Rightarrow> text_bytes ocomp" where
  "instruction_subject function i = subject function (str ''i'') i"

definition block_subject :: "u32 \<Rightarrow> u32 \<Rightarrow> text_bytes ocomp" where
  "block_subject function i = subject function (str ''b'') i"

definition report_text :: "text_bytes \<Rightarrow> optimization_limits \<Rightarrow> text_bytes ocomp" where
  "report_text t l =
     (let resource = ''optimization report bytes''; limit = limit_report_bytes l in
      and_then (length_as_u64 (length t) resource limit) (\<lambda>n.
      and_then (ensure_limit n resource limit) (\<lambda>_.
      and_then (ask (OptimizeResourceLimit resource limit)) (\<lambda>_. ok t))))"

record decision_sink =
  sink_decisions :: "optimization_decision list"
  sink_bytes :: u64

fun strictly_increasing :: "u32 list \<Rightarrow> bool" where
  "strictly_increasing (a # b # xs) \<longleftrightarrow> a < b \<and> strictly_increasing (b # xs)"
| "strictly_increasing _ \<longleftrightarrow> True"

definition sink_push ::
  "optimization_limits \<Rightarrow> decision_sink \<Rightarrow> string \<Rightarrow> text_bytes \<Rightarrow> decision_kind \<Rightarrow> string \<Rightarrow> proof_id list \<Rightarrow> decision_sink ocomp" where
  "sink_push l sink pass sub kind why proofs =
     (let too_many = OptimizeResourceLimit ''optimization decisions'' (limit_decisions l);
          too_long = OptimizeResourceLimit ''optimization report bytes'' (limit_report_bytes l) in
      and_then (or_err (Option.bind (u64_try_from (length (sink_decisions sink))) (\<lambda>n. checked_add_u64 n 1)) too_many) (\<lambda>count.
      and_then (ensure_limit count ''optimization decisions'' (limit_decisions l)) (\<lambda>_.
      and_then (guard_err (\<not> strictly_increasing proofs)
        (InvalidReport ''optimization proof reliance must be sorted and unique'')) (\<lambda>_.
      and_then (or_err (Option.bind (checked_add_usize (length pass) (length sub)) (\<lambda>n.
          Option.bind (checked_add_usize n (length why)) (\<lambda>n.
          Option.bind (checked_mul_usize (length proofs) 4) (checked_add_usize n)))) too_long) (\<lambda>bytes.
      and_then (length_as_u64 bytes ''optimization report bytes'' (limit_report_bytes l)) (\<lambda>bytes.
      and_then (or_err (checked_add_u64 (sink_bytes sink) bytes) too_long) (\<lambda>bytes.
      and_then (ensure_limit bytes ''optimization report bytes'' (limit_report_bytes l)) (\<lambda>_.
      and_then (ask too_many) (\<lambda>_.
      and_then (report_text (str pass) l) (\<lambda>pass.
      and_then (report_text (str why) l) (\<lambda>why.
        ok \<lparr>sink_decisions = sink_decisions sink @ [\<lparr>decision_pass = pass, subject_of = sub, decision = kind,
              justification = why, relied_on = proofs\<rparr>],
            sink_bytes = bytes\<rparr>)))))))))))"

subsection \<open>Results of metered computations\<close>

text \<open>\<open>returns c x\<close>: from some meter the computation ends with result \<open>x\<close>.\<close>

definition returns :: "'a mcomp \<Rightarrow> 'a \<Rightarrow> bool" where
  "returns c x \<longleftrightarrow> (\<exists>m m'. outcome (c m) = Inr (x, m'))"

named_theorems returns_simps \<open>results of metered computations\<close>

lemma returnsI: "outcome (c m) = Inr (x, m') \<Longrightarrow> returns c x"
  by (auto simp: returns_def)

lemma returns_ok [returns_simps, simp]: "returns (m_ok x) y \<longleftrightarrow> y = x"
  by (auto simp: returns_def m_ok_def)

lemma returns_err [returns_simps, simp]: "\<not> returns (m_err e) y"
  by (simp add: returns_def m_err_def)

lemma returns_violation [returns_simps, simp]: "\<not> returns (proof_violation p d) y"
  by (simp add: proof_violation_def)

lemma returns_lift [returns_simps]: "returns (m_lift c) y \<longleftrightarrow> outcome c = Inr y"
  by (auto simp: returns_def m_lift_def and_then_Inr simp del: outcome_and_then)

lemma returns_thenD: "returns (m_then c f) y \<Longrightarrow> \<exists>x. returns c x \<and> returns (f x) y"
  by (fastforce simp: returns_def m_then_def and_then_Inr simp del: outcome_and_then)

lemma returns_thenE:
  assumes "returns (m_then c f) y"
  obtains x where "returns c x" and "returns (f x) y"
  using returns_thenD [OF assms] by blast

lemma returns_guard [returns_simps]: "returns (m_guard b e) y \<longleftrightarrow> \<not> b"
  by (auto simp: m_guard_def returns_lift)

lemma returns_or_err [returns_simps]: "returns (m_or_err x e) y \<longleftrightarrow> x = Some y"
  by (auto simp: m_or_err_def returns_lift split: option.splits)

lemma returns_filled_vec: "returns (filled_vec n v r l) xs \<Longrightarrow> xs = replicate n v"
  by (auto simp: filled_vec_def returns_lift and_then_Inr simp del: outcome_and_then)

lemma returns_each:
  assumes "returns (m_each f s xs) t" and "P [] s"
    and "\<And>ys x u v. P ys u \<Longrightarrow> x \<in> set xs \<Longrightarrow> returns (f u x) v \<Longrightarrow> P (ys @ [x]) v"
  shows "P xs t"
proof -
  have "P (ys @ xs) t" if "P ys s" "\<And>ys x u v. P ys u \<Longrightarrow> x \<in> set xs \<Longrightarrow> returns (f u x) v \<Longrightarrow> P (ys @ [x]) v" for ys
    using assms(1) that
  proof (induction xs arbitrary: s ys)
    case (Cons x xs)
    from Cons.prems(1) obtain u where u: "returns (f s x) u" "returns (m_each f u xs) t" by (auto elim: returns_thenE)
    have "P (ys @ [x]) u" using Cons.prems(3) [OF Cons.prems(2) _ u(1)] by simp
    from Cons.IH [OF u(2) this] Cons.prems(3) show ?case by simp
  qed simp
  from this [of "[]"] assms(2,3) show ?thesis by simp
qed

lemma returns_map: "returns (m_map f xs) ys \<Longrightarrow> list_all2 (\<lambda>x y. returns (f x) y) xs ys"
proof (induction xs arbitrary: ys)
  case (Cons x xs)
  then show ?case by (auto elim!: returns_thenE)
qed simp

lemma m_then_cong [fundef_cong]:
  "c = c' \<Longrightarrow> (\<And>x. returns c' x \<Longrightarrow> f x = f' x) \<Longrightarrow> m_then c f = m_then c' f'"
proof -
  assume c: "c = c'" and f: "\<And>x. returns c' x \<Longrightarrow> f x = f' x"
  show ?thesis
    unfolding m_then_def c
  proof (intro ext and_then_cong refl)
    fix m p assume p: "outcome (c' m) = Inr p"
    then have "returns c' (fst p)" by (cases p) (auto intro: returnsI)
    from f [OF this] show "(case p of (x, m) \<Rightarrow> f x m) = (case p of (x, m) \<Rightarrow> f' x m)" by (cases p) simp
  qed
qed

end
