(* ===== verification/Flow_Profile.thy ===== *)
theory Flow_Profile
  imports Flow_Meter
begin

text \<open>
  Policy of an optimization (\<open>wrela-flow-opt/src/lib.rs\<close>): the standard limits and their validation,
  the profile derived from a build's optimization policy, and the validation that admits exactly the
  canonical profiles.
\<close>

subsection \<open>Limits\<close>

definition test_plan_limits_standard :: test_plan_limits where
  "test_plan_limits_standard =
     \<lparr>plan_tests = 1000000, plan_groups = 100000, plan_scenarios = 100000, plan_scenario_steps = 1000000,
      plan_payload_bytes = 64 * 1024 * 1024, plan_report_bytes = 1024 * 1024 * 1024,
      plan_events_per_group = 1000000, plan_output_bytes_per_group = 1024 * 1024 * 1024,
      plan_execution_timeout_ns_per_group = 24 * 60 * 60 * 1000000000\<rparr>"

definition test_plan_limits_is_valid :: "test_plan_limits \<Rightarrow> bool" where
  "test_plan_limits_is_valid t \<longleftrightarrow>
     plan_tests t > 0 \<and> plan_groups t > 0 \<and> plan_scenarios t > 0 \<and> plan_scenario_steps t > 0 \<and>
     plan_payload_bytes t > 0 \<and> plan_report_bytes t > 0 \<and> plan_events_per_group t > 0 \<and>
     plan_output_bytes_per_group t > 0 \<and> plan_execution_timeout_ns_per_group t > 0"

definition test_plan_limits_within :: "test_plan_limits \<Rightarrow> test_plan_limits \<Rightarrow> bool" where
  "test_plan_limits_within t hard \<longleftrightarrow>
     plan_tests t \<le> plan_tests hard \<and> plan_groups t \<le> plan_groups hard \<and>
     plan_scenarios t \<le> plan_scenarios hard \<and> plan_scenario_steps t \<le> plan_scenario_steps hard \<and>
     plan_payload_bytes t \<le> plan_payload_bytes hard \<and> plan_report_bytes t \<le> plan_report_bytes hard \<and>
     plan_events_per_group t \<le> plan_events_per_group hard \<and>
     plan_output_bytes_per_group t \<le> plan_output_bytes_per_group hard \<and>
     plan_execution_timeout_ns_per_group t \<le> plan_execution_timeout_ns_per_group hard"

definition optimization_limits_standard :: optimization_limits where
  "optimization_limits_standard =
     \<lparr>limit_functions = 1000000, limit_tests = 1000000, limit_blocks = 16000000, limit_instructions = 256000000,
      limit_values = 256000000, limit_proofs = 64000000, limit_model_edges = 1000000000,
      limit_payload_bytes = 4 * 1024 * 1024 * 1024, limit_passes = 1024, limit_decisions = 64000000,
      limit_report_bytes = 1024 * 1024 * 1024, limit_work = 1100000000000, limit_validation_work = 1100000000000,
      limit_validation_errors = 100000, limit_test_plan = test_plan_limits_standard\<rparr>"

definition optimization_limits_validate :: "optimization_limits \<Rightarrow> unit ocomp" where
  "optimization_limits_validate l =
     (let hard = optimization_limits_standard in
      guard_err
        (limit_functions l = 0 \<or> limit_tests l = 0 \<or> limit_blocks l = 0 \<or> limit_instructions l = 0 \<or>
         limit_values l = 0 \<or> limit_proofs l = 0 \<or> limit_model_edges l = 0 \<or> limit_payload_bytes l = 0 \<or>
         limit_passes l = 0 \<or> limit_decisions l = 0 \<or> limit_report_bytes l = 0 \<or> limit_work l = 0 \<or>
         limit_validation_work l = 0 \<or> limit_validation_errors l = 0 \<or>
         \<not> test_plan_limits_is_valid (limit_test_plan l) \<or>
         limit_functions l > limit_functions hard \<or> limit_tests l > limit_tests hard \<or>
         limit_blocks l > limit_blocks hard \<or> limit_instructions l > limit_instructions hard \<or>
         limit_values l > limit_values hard \<or> limit_proofs l > limit_proofs hard \<or>
         limit_model_edges l > limit_model_edges hard \<or> limit_payload_bytes l > limit_payload_bytes hard \<or>
         limit_passes l > limit_passes hard \<or> limit_decisions l > limit_decisions hard \<or>
         limit_report_bytes l > limit_report_bytes hard \<or> limit_work l > limit_work hard \<or>
         limit_validation_work l > limit_validation_work hard \<or>
         limit_validation_errors l > limit_validation_errors hard \<or>
         \<not> test_plan_limits_within (limit_test_plan l) (limit_test_plan hard))
        InvalidLimits)"

subsection \<open>Profiles\<close>

definition CANONICAL_PIPELINE_NAME :: text_bytes where
  "CANONICAL_PIPELINE_NAME = str ''canonical-flow-opt-0.1''"

definition CANONICAL_PIPELINE_REVISION :: u32 where
  "CANONICAL_PIPELINE_REVISION = 3"

definition optimization_profile_validate :: "optimization_profile \<Rightarrow> unit ocomp" where
  "optimization_profile_validate p =
     (let identity = pipeline p in
      and_then (guard_err (length (pipeline_name identity) > 4096)
        (InvalidProfile ''pipeline name exceeds the hard ceiling'')) (\<lambda>_.
      and_then (guard_err (list_all char_is_whitespace (utf8_chars (pipeline_name identity)))
        (InvalidProfile ''pipeline name is empty'')) (\<lambda>_.
      and_then (guard_err (revision identity = 0)
        (InvalidProfile ''pipeline revision must be nonzero'')) (\<lambda>_.
      and_then (guard_err (list_all (\<lambda>b. b = 0) (implementation identity))
        (InvalidProfile ''pipeline implementation digest is zero'')) (\<lambda>_.
      and_then (guard_err (maximum_iterations p = 0 \<or> maximum_iterations p > 1000000)
        (InvalidProfile ''maximum iterations must be nonzero'')) (\<lambda>_.
      guard_err (maximum_ir_growth_percent p > 10000)
        (InvalidProfile ''maximum IR growth percent exceeds the hard ceiling'')))))))"

definition canonical_pipeline_name :: "text_bytes ocomp" where
  "canonical_pipeline_name =
     and_then (ask (OptimizeResourceLimit ''optimization pipeline name bytes'' 4096)) (\<lambda>_.
       ok CANONICAL_PIPELINE_NAME)"

fun level_maximums :: "optimization_level \<Rightarrow> u32 \<times> u32" where
  "level_maximums NoOptimization = (1, 0)"
| "level_maximums DevelopmentLevel = (8, 25)"
| "level_maximums Performance = (32, 100)"
| "level_maximums Size = (32, 0)"

definition validate_canonical_profile :: "optimization_profile \<Rightarrow> unit ocomp" where
  "validate_canonical_profile p =
     and_then (optimization_profile_validate p) (\<lambda>_.
     and_then (guard_err (pipeline_name (pipeline p) \<noteq> CANONICAL_PIPELINE_NAME \<or>
         revision (pipeline p) \<noteq> CANONICAL_PIPELINE_REVISION)
       (InvalidProfile ''optimization requires the canonical pipeline identity'')) (\<lambda>_.
     guard_err (\<not> verify_after_each_pass p \<or>
         (maximum_iterations p, maximum_ir_growth_percent p) \<noteq> level_maximums (profile_level p))
       (InvalidProfile ''optimization policy parameters are noncanonical'')))"

definition validate_transform_profile :: "optimization_profile \<Rightarrow> unit ocomp" where
  "validate_transform_profile p =
     and_then (validate_canonical_profile p) (\<lambda>_.
       guard_err (profile_level p = NoOptimization) (UnsupportedOptimizationLevel (profile_level p)))"

definition from_build_policy :: "optimization_policy \<Rightarrow> sha256_digest \<Rightarrow> optimization_profile ocomp" where
  "from_build_policy policy compiler_digest =
     and_then (guard_err (profile_data policy \<noteq> None)
       (InvalidProfile ''profile-guided optimization input is not implemented'')) (\<lambda>_.
     and_then canonical_pipeline_name (\<lambda>name.
     let (rounds, growth) = level_maximums (level policy);
         p = \<lparr>profile_level = level policy,
              pipeline = \<lparr>pipeline_name = name, revision = CANONICAL_PIPELINE_REVISION, implementation = compiler_digest\<rparr>,
              verify_after_each_pass = True, maximum_iterations = rounds, maximum_ir_growth_percent = growth\<rparr> in
     and_then (validate_canonical_profile p) (\<lambda>_. ok p)))"

lemma limits_standard_valid [simp]: "optimization_limits_validate optimization_limits_standard = ok ()"
  by (simp add: optimization_limits_validate_def optimization_limits_standard_def test_plan_limits_is_valid_def
      test_plan_limits_within_def test_plan_limits_standard_def guard_err_def)

lemma canonical_profile:
  "outcome (validate_canonical_profile p) = Inr () \<Longrightarrow>
    verify_after_each_pass p \<and> (maximum_iterations p, maximum_ir_growth_percent p) = level_maximums (profile_level p)"
  by (auto simp: validate_canonical_profile_def and_then_Inr simp del: outcome_and_then split: if_splits)

lemma canonical_iterations:
  "outcome (validate_canonical_profile p) = Inr () \<Longrightarrow> 1 \<le> maximum_iterations p \<and> maximum_iterations p \<le> 32"
  using canonical_profile [of p] by (cases "profile_level p") simp_all

end
