(* ===== verification/Flow_Passes.thy ===== *)
theory Flow_Passes
  imports Flow_Profile
begin

text \<open>
  The passes of the canonical optimization pipeline (\<open>wrela-flow-opt/src/development.rs\<close>): scalar
  constant folding, constant control flow, removal of unreachable blocks, of checks proven true and
  of dead pure instructions, the compaction that renumbers a function after a removal, and the
  verification that follows each pass. A vector used as a stack is a list whose head is its top.
\<close>

subsection \<open>Traversals\<close>

primrec m_map_state :: "('s \<Rightarrow> 'x \<Rightarrow> ('y \<times> 's) mcomp) \<Rightarrow> 's \<Rightarrow> 'x list \<Rightarrow> ('y list \<times> 's) mcomp" where
  "m_map_state f s [] = m_ok ([], s)"
| "m_map_state f s (x # xs) = m_then (f s x) (\<lambda>(y, s). m_then (m_map_state f s xs) (\<lambda>(ys, s). m_ok (y # ys, s)))"

definition part_operands :: "'v bounded_string_part \<Rightarrow> 'v list" where
  "part_operands p =
     (case p of TextPart _ _ \<Rightarrow> [] | BoolPart v _ \<Rightarrow> [v] | CharacterPart v _ \<Rightarrow> [v]
      | IntegerPart v _ _ \<Rightarrow> [v] | StaticStringPart v _ _ \<Rightarrow> [v])"

definition operation_operands :: "'v flow_operation \<Rightarrow> 'v list" where
  "operation_operands oper =
     (case oper of
        Immediate _ \<Rightarrow> []
      | Unary _ v \<Rightarrow> [v]
      | Binary _ l r \<Rightarrow> [l, r]
      | Cast v _ _ \<Rightarrow> [v]
      | Select c a b \<Rightarrow> [c, a, b]
      | Check v _ _ \<Rightarrow> [v]
      | Aggregate a \<Rightarrow> (case a of
            MakeAggregate _ vs \<Rightarrow> vs
          | FormatBoundedString _ parts \<Rightarrow> concat (map part_operands parts)
          | MakeEnum _ _ payload \<Rightarrow> (case payload of None \<Rightarrow> [] | Some v \<Rightarrow> [v])
          | EnumTag v \<Rightarrow> [v] | EnumPayload v _ \<Rightarrow> [v] | ExtractField v _ \<Rightarrow> [v]
          | ExtractIndex a i _ \<Rightarrow> [a, i]
          | InsertField a _ v \<Rightarrow> [a, v])
      | Memory m \<Rightarrow> (case m of
            ActorStateAddress _ _ _ \<Rightarrow> [] | BeginAccess v _ _ \<Rightarrow> [v] | EndAccess v \<Rightarrow> [v] | LoadFrom v _ \<Rightarrow> [v]
          | StoreTo a v _ \<Rightarrow> [a, v] | MoveValue v \<Rightarrow> [v] | CopyValue v \<Rightarrow> [v] | DropValue v \<Rightarrow> [v]
          | Allocate _ _ n _ \<Rightarrow> [n] | RegionReset _ \<Rightarrow> [] | Promote v _ _ \<Rightarrow> [v])
      | Actor a \<Rightarrow> (case a of
            ActorCapability _ _ \<Rightarrow> [] | ActorReserve _ _ _ \<Rightarrow> [] | ActorCommit r args \<Rightarrow> r # args
          | ActorReplyRequest _ _ _ _ \<Rightarrow> [] | ActorReplyResolve v _ \<Rightarrow> [v] | ActorReject v \<Rightarrow> [v] | MailboxReceive _ _ \<Rightarrow> []
          | ReplyResolve a v \<Rightarrow> [a, v] | ReceiptCommit a v \<Rightarrow> [a, v] | ReceiptResolve a v \<Rightarrow> [a, v])
      | Task t \<Rightarrow> (case t of
            Call _ args \<Rightarrow> args | AsyncCall _ args _ \<Rightarrow> args | TaskAcquireSlot _ _ \<Rightarrow> [] | TaskStart v _ args \<Rightarrow> v # args
          | TaskCancel v \<Rightarrow> [v] | Park v \<Rightarrow> [v] | Wake v \<Rightarrow> [v] | Checkpoint _ _ \<Rightarrow> [] | DeadlineRead \<Rightarrow> [])
      | Hardware h \<Rightarrow> (case h of
            InterruptMask \<Rightarrow> [] | InterruptRestore v \<Rightarrow> [v] | InterruptPublish c v \<Rightarrow> [c, v] | MmioRead _ _ \<Rightarrow> []
          | MmioWrite _ _ v \<Rightarrow> [v] | Fence _ \<Rightarrow> [] | DmaTransition v _ _ _ _ \<Rightarrow> [v] | QueueReserve _ v _ \<Rightarrow> [v]
          | QueuePublish r v \<Rightarrow> [r, v] | ValidateDeviceValue v _ \<Rightarrow> [v])
      | Event e \<Rightarrow> (case e of
            Assert v _ \<Rightarrow> [v] | RecordEvent _ v \<Rightarrow> [v] | ReplayEvent _ v \<Rightarrow> [v] | TestEmit v \<Rightarrow> [v] | TestFinish v \<Rightarrow> [v]))"

definition terminator_operands :: "terminator \<Rightarrow> value_id list" where
  "terminator_operands t =
     (case t of
        Jump _ args \<Rightarrow> args | Return args \<Rightarrow> args | TailCall _ args \<Rightarrow> args
      | Branch c _ a _ b \<Rightarrow> c # a @ b
      | Switch v cases _ args \<Rightarrow> v # concat (map case_arguments cases) @ args
      | Suspend _ v _ \<Rightarrow> [v]
      | Trap _ detail \<Rightarrow> (case detail of None \<Rightarrow> [] | Some v \<Rightarrow> [v])
      | Unreachable \<Rightarrow> [])"

definition edge_targets :: "terminator \<Rightarrow> block_id list" where
  "edge_targets t =
     (case t of
        Jump b _ \<Rightarrow> [b]
      | Branch _ b _ c _ \<Rightarrow> [b, c]
      | Switch _ cases d _ \<Rightarrow> map case_target cases @ [d]
      | Suspend _ _ b \<Rightarrow> [b]
      | _ \<Rightarrow> [])"

definition visit_all :: "('s \<Rightarrow> 'v \<Rightarrow> 's) \<Rightarrow> 's \<Rightarrow> 'v list \<Rightarrow> 's mcomp" where
  "visit_all visit s vs = m_each (\<lambda>s v. m_then checkpoint (\<lambda>_. m_ok (visit s v))) s vs"

definition for_each_operation_value :: "('s \<Rightarrow> value_id \<Rightarrow> 's) \<Rightarrow> 's \<Rightarrow> value_id flow_operation \<Rightarrow> 's mcomp" where
  "for_each_operation_value visit s oper = visit_all visit s (operation_operands oper)"

definition for_each_terminator_value :: "('s \<Rightarrow> value_id \<Rightarrow> 's) \<Rightarrow> 's \<Rightarrow> terminator \<Rightarrow> 's mcomp" where
  "for_each_terminator_value visit s t = visit_all visit s (terminator_operands t)"

definition for_each_edge :: "('s \<Rightarrow> block_id \<Rightarrow> 's) \<Rightarrow> 's \<Rightarrow> terminator \<Rightarrow> 's mcomp" where
  "for_each_edge visit s t = visit_all visit s (edge_targets t)"

definition single_result :: "instruction \<Rightarrow> value_id option" where
  "single_result i = (case results i of [r] \<Rightarrow> Some r | _ \<Rightarrow> None)"

definition function_instruction_count :: "flow_function \<Rightarrow> u64 mcomp" where
  "function_instruction_count f =
     (let e = InvalidReport ''instruction count overflowed'' in
      m_each (\<lambda>total b. m_then checkpoint (\<lambda>_.
        m_then (m_or_err (u64_try_from (length (instructions b))) e) (\<lambda>n.
          m_or_err (checked_add_u64 total n) e))) 0 (blocks f))"

definition instruction_count :: "'c flow_wir \<Rightarrow> u64 mcomp" where
  "instruction_count wir =
     m_each (\<lambda>total f. m_then checkpoint (\<lambda>_. m_then (function_instruction_count f) (\<lambda>n.
       m_or_err (checked_add_u64 total n) (InvalidReport ''instruction count overflowed'')))) 0 (wir_functions wir)"

subsection \<open>Constant folding\<close>

definition result_type_of :: "flow_function \<Rightarrow> instruction \<Rightarrow> (value_id \<times> type_id) option" where
  "result_type_of f i =
     Option.bind (single_result i) (\<lambda>r. map_option (\<lambda>v. (r, value_type v)) (list_get (value_records f) (unat r)))"

definition seed_instruction :: "flow_function \<Rightarrow> flow_type list \<Rightarrow> constant_table \<Rightarrow> instruction \<Rightarrow> constant_table" where
  "seed_instruction f types cs i =
     (case (operation i, result_type_of f i) of
        (Immediate im, Some (r, t)) \<Rightarrow>
          (case constant_from_immediate im t types of
             Some c \<Rightarrow> cs[unat r := Some c]
           | None \<Rightarrow> cs)
      | _ \<Rightarrow> cs)"

definition seed_immediates :: "flow_function \<Rightarrow> flow_type list \<Rightarrow> constant_table \<Rightarrow> constant_table mcomp" where
  "seed_immediates f types cs =
     m_each (\<lambda>cs b. m_then checkpoint (\<lambda>_.
       m_each (\<lambda>cs i. m_then checkpoint (\<lambda>_. m_ok (seed_instruction f types cs i))) cs (instructions b))) cs (blocks f)"

definition is_immediate :: "instruction \<Rightarrow> bool" where
  "is_immediate i = (case operation i of Immediate _ \<Rightarrow> True | _ \<Rightarrow> False)"

definition folded_instruction ::
  "flow_function \<Rightarrow> flow_type list \<Rightarrow> constant_table \<Rightarrow> instruction \<Rightarrow> (value_id \<times> immediate \<times> scalar_constant) option" where
  "folded_instruction f types cs i =
     (if is_immediate i then None
      else Option.bind (result_type_of f i) (\<lambda>(r, t).
        Option.bind (fold_operation (operation i) t cs types) (\<lambda>folded.
        map_option (\<lambda>c. (r, folded, c)) (constant_from_immediate folded t types))))"

definition fold_instruction ::
  "optimization_limits \<Rightarrow> flow_type list \<Rightarrow> flow_function \<Rightarrow> constant_table \<times> decision_sink \<times> bool \<Rightarrow> instruction \<Rightarrow>
    (instruction \<times> constant_table \<times> decision_sink \<times> bool) mcomp" where
  "fold_instruction l types f = (\<lambda>(cs, sink, ch) i.
     m_then checkpoint (\<lambda>_.
     case folded_instruction f types cs i of
       None \<Rightarrow> m_ok (i, cs, sink, ch)
     | Some (r, folded, c) \<Rightarrow>
         m_then (m_lift (instruction_subject (function_id_of f) (instruction_id_of i))) (\<lambda>sub.
         m_then (m_lift (sink_push l sink ''scalar-constant-fold-v1'' sub Folded
           ''replaced an exact scalar operation with its canonical immediate value'' [])) (\<lambda>sink.
         m_ok (i\<lparr>operation := Immediate folded\<rparr>, cs[unat r := Some c], sink, True)))))"

definition fold_block ::
  "optimization_limits \<Rightarrow> flow_type list \<Rightarrow> flow_function \<Rightarrow> constant_table \<times> decision_sink \<times> bool \<Rightarrow> flow_block \<Rightarrow>
    (flow_block \<times> constant_table \<times> decision_sink \<times> bool) mcomp" where
  "fold_block l types f st b =
     m_then checkpoint (\<lambda>_. m_then (m_map_state (fold_instruction l types f) st (instructions b)) (\<lambda>(is, st).
       m_ok (b\<lparr>instructions := is\<rparr>, st)))"

definition has_foldable_scalar_operation :: "flow_function \<Rightarrow> flow_type list \<Rightarrow> constant_table \<Rightarrow> bool mcomp" where
  "has_foldable_scalar_operation f types cs =
     m_each (\<lambda>found b. if found then m_ok True else m_then checkpoint (\<lambda>_.
       m_each (\<lambda>found i. if found then m_ok True else m_then checkpoint (\<lambda>_.
         m_ok (\<not> is_immediate i \<and> (case result_type_of f i of None \<Rightarrow> False
           | Some (r, t) \<Rightarrow> fold_operation (operation i) t cs types \<noteq> None)))) False (instructions b))) False (blocks f)"

lemma next_iteration: "checked_add_u32 n 1 = Some m \<Longrightarrow> 4294967296 - unat m < 4294967296 - unat n"
  using u32_bound [of n] by (simp add: checked_add_u32_Some)

function fold_loop ::
  "optimization_limits \<Rightarrow> u32 \<Rightarrow> flow_type list \<Rightarrow> flow_function \<Rightarrow> constant_table \<Rightarrow> decision_sink \<Rightarrow> bool \<Rightarrow> u32 \<Rightarrow>
    (flow_function \<times> decision_sink \<times> bool \<times> u32) mcomp" where
  "fold_loop l maximum types f cs sink ch n =
     (let e = OptimizeResourceLimit ''optimization iterations'' (u64_of_u32 maximum) in
      m_then (m_or_err (checked_add_u32 n 1) e) (\<lambda>n.
      m_then (m_map_state (fold_block l types f) (cs, sink, False) (blocks f)) (\<lambda>(bs, cs, sink, iteration_changed).
      let f = f\<lparr>blocks := bs\<rparr>; ch = (ch \<or> iteration_changed) in
      if \<not> iteration_changed then m_ok (f, sink, ch, n)
      else if n = maximum then
        m_then (has_foldable_scalar_operation f types cs) (\<lambda>more. if more then m_err e else m_ok (f, sink, ch, n))
      else fold_loop l maximum types f cs sink ch n)))"
  by pat_completeness auto
termination
  by (relation "measure (\<lambda>(l, maximum, types, f, cs, sink, ch, n). 2 ^ 32 - unat n)")
    (auto simp: returns_or_err intro!: next_iteration)

definition fold_function ::
  "optimization_profile \<Rightarrow> optimization_limits \<Rightarrow> flow_type list \<Rightarrow> decision_sink \<times> bool \<times> u32 \<Rightarrow> flow_function \<Rightarrow>
    (flow_function \<times> decision_sink \<times> bool \<times> u32) mcomp" where
  "fold_function p l types = (\<lambda>(sink, ch, most) f.
     m_then checkpoint (\<lambda>_.
     m_then (filled_vec (length (value_records f)) None ''optimizer temporary values'' (limit_values l)) (\<lambda>cs.
     m_then (seed_immediates f types cs) (\<lambda>cs.
     m_then (fold_loop l (maximum_iterations p) types f cs sink ch 0) (\<lambda>(f, sink, ch, n).
       m_ok (f, sink, ch, max most n))))))"

definition fold_scalar_constants ::
  "optimization_profile \<Rightarrow> optimization_limits \<Rightarrow> decision_sink \<Rightarrow> 'c flow_wir \<Rightarrow> ('c flow_wir \<times> decision_sink \<times> bool \<times> u32) mcomp" where
  "fold_scalar_constants p l sink wir =
     m_then (m_map_state (fold_function p l (wir_types wir)) (sink, False, 1) (wir_functions wir)) (\<lambda>(fs, st).
       m_ok (wir\<lparr>wir_functions := fs\<rparr>, st))"

declare fold_loop.simps [simp del]

subsection \<open>Constant control flow\<close>

datatype (plugins only: code size) control_choice = BranchChoice bool | SwitchChoice u128

definition control_choice_of :: "constant_table \<Rightarrow> terminator \<Rightarrow> control_choice option" where
  "control_choice_of cs t =
     (case t of
        Branch c _ _ _ _ \<Rightarrow> (case constant_at c cs of Some (ConstBool b) \<Rightarrow> Some (BranchChoice b) | _ \<Rightarrow> None)
      | Switch v _ _ _ \<Rightarrow>
          (case constant_at v cs of
             Some (ConstBool b) \<Rightarrow> Some (SwitchChoice (of_bool b))
           | Some (ConstInteger _ _ raw) \<Rightarrow> Some (SwitchChoice raw)
           | _ \<Rightarrow> None)
      | _ \<Rightarrow> None)"

primrec select_case :: "u128 \<Rightarrow> switch_case list \<Rightarrow> switch_case option mcomp" where
  "select_case selected [] = m_ok None"
| "select_case selected (c # cs) = m_then checkpoint (\<lambda>_.
     if case_value c = selected then m_ok (Some c) else select_case selected cs)"

definition chosen_terminator :: "terminator \<Rightarrow> control_choice \<Rightarrow> terminator mcomp" where
  "chosen_terminator t choice =
     (case (t, choice) of
        (Branch _ then_block then_arguments else_block else_arguments, BranchChoice b) \<Rightarrow>
          m_ok (if b then Jump then_block then_arguments else Jump else_block else_arguments)
      | (Switch _ cases dflt default_arguments, SwitchChoice selected) \<Rightarrow>
          m_then (select_case selected cases) (\<lambda>c. m_ok (case c of
              None \<Rightarrow> Jump dflt default_arguments
            | Some c \<Rightarrow> Jump (case_target c) (case_arguments c)))
      | _ \<Rightarrow> proof_violation ''constant-control-flow-v1'' ''control-flow choice no longer matches its terminator'')"

definition simplify_block ::
  "optimization_limits \<Rightarrow> constant_table \<Rightarrow> flow_function \<Rightarrow> decision_sink \<times> bool \<Rightarrow> flow_block \<Rightarrow>
    (flow_block \<times> decision_sink \<times> bool) mcomp" where
  "simplify_block l cs f = (\<lambda>(sink, ch) b.
     m_then checkpoint (\<lambda>_.
     case control_choice_of cs (terminator b) of
       None \<Rightarrow> m_ok (b, sink, ch)
     | Some choice \<Rightarrow>
         m_then (chosen_terminator (terminator b) choice) (\<lambda>t.
         m_then (m_lift (block_subject (function_id_of f) (block_id_of b))) (\<lambda>sub.
         m_then (m_lift (sink_push l sink ''constant-control-flow-v1'' sub Folded
           ''replaced a constant branch or switch with its uniquely selected edge'' [])) (\<lambda>sink.
         m_ok (b\<lparr>terminator := t\<rparr>, sink, True))))))"

definition simplify_function ::
  "optimization_limits \<Rightarrow> flow_type list \<Rightarrow> decision_sink \<times> bool \<Rightarrow> flow_function \<Rightarrow>
    (flow_function \<times> decision_sink \<times> bool) mcomp" where
  "simplify_function l types st f =
     m_then (filled_vec (length (value_records f)) None ''optimizer temporary values'' (limit_values l)) (\<lambda>cs.
     m_then (seed_immediates f types cs) (\<lambda>cs.
     m_then (m_map_state (simplify_block l cs f) st (blocks f)) (\<lambda>(bs, st).
       m_ok (f\<lparr>blocks := bs\<rparr>, st))))"

definition simplify_constant_control_flow ::
  "optimization_limits \<Rightarrow> decision_sink \<Rightarrow> 'c flow_wir \<Rightarrow> ('c flow_wir \<times> decision_sink \<times> bool) mcomp" where
  "simplify_constant_control_flow l sink wir =
     m_then (m_map_state (simplify_function l (wir_types wir)) (sink, False) (wir_functions wir)) (\<lambda>(fs, st).
       m_ok (wir\<lparr>wir_functions := fs\<rparr>, st))"

subsection \<open>Reachable blocks\<close>

definition mark_edge :: "bool list \<times> block_id list \<times> bool \<Rightarrow> block_id \<Rightarrow> bool list \<times> block_id list \<times> bool" where
  "mark_edge = (\<lambda>(reachable, pending, invalid) successor.
     case list_get reachable (unat successor) of
       None \<Rightarrow> (reachable, pending, True)
     | Some True \<Rightarrow> (reachable, pending, invalid)
     | Some False \<Rightarrow> (reachable[unat successor := True], successor # pending, invalid))"

definition false_count :: "bool list \<Rightarrow> nat" where
  "false_count xs = length (filter (\<lambda>x. \<not> x) xs)"

lemma false_count_update: "i < length xs \<Longrightarrow> \<not> xs ! i \<Longrightarrow> Suc (false_count (xs[i := True])) = false_count xs"
proof (induction xs arbitrary: i)
  case (Cons x xs)
  then show ?case by (cases i) (auto simp: false_count_def)
qed simp

lemma returns_visit_all: "returns (visit_all visit s vs) t \<Longrightarrow> t = foldl visit s vs"
  unfolding visit_all_def
  by (induction vs arbitrary: s) (auto elim!: returns_thenE)

lemma mark_edges_measure:
  "foldl mark_edge (r, p, b) es = (r', p', b') \<Longrightarrow> 2 * false_count r' + length p' \<le> 2 * false_count r + length p"
proof (induction es arbitrary: r p b)
  case (Cons e es)
  obtain r1 p1 b1 where one: "mark_edge (r, p, b) e = (r1, p1, b1)" by (metis prod_cases3)
  have "2 * false_count r1 + length p1 \<le> 2 * false_count r + length p"
    using one false_count_update [of "unat e" r]
    by (auto simp: mark_edge_def list_get_def split: option.splits if_splits bool.splits)
  with Cons.IH [of r1 p1 b1] Cons.prems one show ?case by simp
qed simp

function reach_loop :: "flow_block list \<Rightarrow> bool list \<Rightarrow> block_id list \<Rightarrow> bool list mcomp" where
  "reach_loop bs reachable [] = m_ok reachable"
| "reach_loop bs reachable (b # pending) = m_then checkpoint (\<lambda>_.
     case list_get bs (unat b) of
       None \<Rightarrow> proof_violation ''unreachable-block-elimination-v1'' ''encountered an unknown block record''
     | Some block \<Rightarrow>
         m_then (for_each_edge mark_edge (reachable, pending, False) (terminator block)) (\<lambda>(reachable, pending, invalid).
         if invalid then proof_violation ''unreachable-block-elimination-v1'' ''encountered an unknown block edge''
         else reach_loop bs reachable pending))"
  by pat_completeness auto
termination
proof (relation "measure (\<lambda>(bs, reachable, pending). 2 * false_count reachable + length pending)")
  fix bs :: "flow_block list" and r :: "bool list" and b :: block_id and p :: "block_id list" and block x r' y p' inv
  assume "returns (for_each_edge mark_edge (r, p, False) (terminator block)) x" "(r', y) = x" "(p', inv) = y"
  then show "((bs, r', p'), bs, r, b # p) \<in> measure (\<lambda>(bs, reachable, pending). 2 * false_count reachable + length pending)"
    using mark_edges_measure [of r p False "edge_targets (terminator block)" r' p' inv]
      returns_visit_all [of mark_edge "(r, p, False)" "edge_targets (terminator block)" "(r', p', inv)"]
    by (auto simp: for_each_edge_def)
qed simp

declare reach_loop.simps [simp del]

definition reachable_blocks :: "optimization_limits \<Rightarrow> flow_function \<Rightarrow> bool list mcomp" where
  "reachable_blocks l f =
     m_then (filled_vec (length (blocks f)) False ''optimizer temporary blocks'' (limit_blocks l)) (\<lambda>reachable.
     m_then (m_lift (reserve_items (length (blocks f)) ''optimizer temporary blocks'' (limit_blocks l))) (\<lambda>_.
     if unat (entry f) < length reachable then reach_loop (blocks f) (reachable[unat (entry f) := True]) [entry f]
     else proof_violation ''unreachable-block-elimination-v1'' ''function entry is an unknown block''))"

subsection \<open>Compaction\<close>

definition map_value :: "value_id option list \<Rightarrow> value_id \<Rightarrow> value_id mcomp" where
  "map_value value_map v = m_then checkpoint (\<lambda>_.
     case list_get value_map (unat v) of
       Some (Some v') \<Rightarrow> m_ok v'
     | _ \<Rightarrow> proof_violation ''compaction'' ''retained operation refers to a removed value'')"

definition map_block :: "block_id option list \<Rightarrow> block_id \<Rightarrow> block_id mcomp" where
  "map_block block_map b = m_then checkpoint (\<lambda>_.
     case list_get block_map (unat b) of
       Some (Some b') \<Rightarrow> m_ok b'
     | _ \<Rightarrow> proof_violation ''compaction'' ''retained control-flow edge refers to a removed block'')"

definition map_part :: "('v \<Rightarrow> 'w mcomp) \<Rightarrow> 'v bounded_string_part \<Rightarrow> 'w bounded_string_part mcomp" where
  "map_part f p =
     (case p of
        TextPart t s \<Rightarrow> m_ok (TextPart t s)
      | BoolPart v s \<Rightarrow> m_then (f v) (\<lambda>v. m_ok (BoolPart v s))
      | CharacterPart v s \<Rightarrow> m_then (f v) (\<lambda>v. m_ok (CharacterPart v s))
      | IntegerPart v n s \<Rightarrow> m_then (f v) (\<lambda>v. m_ok (IntegerPart v n s))
      | StaticStringPart v n s \<Rightarrow> m_then (f v) (\<lambda>v. m_ok (StaticStringPart v n s)))"

definition m_map2 :: "('v \<Rightarrow> 'w mcomp) \<Rightarrow> 'v \<Rightarrow> 'v \<Rightarrow> ('w \<Rightarrow> 'w \<Rightarrow> 'r) \<Rightarrow> 'r mcomp" where
  "m_map2 f a b k = m_then (f a) (\<lambda>a. m_then (f b) (\<lambda>b. m_ok (k a b)))"

definition m_map1 :: "('v \<Rightarrow> 'w mcomp) \<Rightarrow> 'v \<Rightarrow> ('w \<Rightarrow> 'r) \<Rightarrow> 'r mcomp" where
  "m_map1 f a k = m_then (f a) (\<lambda>a. m_ok (k a))"

definition map_aggregate :: "('v \<Rightarrow> 'w mcomp) \<Rightarrow> 'v aggregate_operation \<Rightarrow> 'w aggregate_operation mcomp" where
  "map_aggregate f a =
     (case a of
        MakeAggregate t vs \<Rightarrow> m_then (m_map f vs) (\<lambda>vs. m_ok (MakeAggregate t vs))
      | FormatBoundedString t parts \<Rightarrow> m_then (m_map (map_part f) parts) (\<lambda>parts. m_ok (FormatBoundedString t parts))
      | MakeEnum t n payload \<Rightarrow>
          (case payload of None \<Rightarrow> m_ok (MakeEnum t n None) | Some v \<Rightarrow> m_map1 f v (\<lambda>v. MakeEnum t n (Some v)))
      | EnumTag v \<Rightarrow> m_map1 f v EnumTag
      | EnumPayload v n \<Rightarrow> m_map1 f v (\<lambda>v. EnumPayload v n)
      | ExtractField v n \<Rightarrow> m_map1 f v (\<lambda>v. ExtractField v n)
      | ExtractIndex a i p \<Rightarrow> m_map2 f a i (\<lambda>a i. ExtractIndex a i p)
      | InsertField a n v \<Rightarrow> m_map2 f a v (\<lambda>a v. InsertField a n v))"

definition map_memory :: "('v \<Rightarrow> 'w mcomp) \<Rightarrow> 'v memory_operation \<Rightarrow> 'w memory_operation mcomp" where
  "map_memory f m =
     (case m of
        ActorStateAddress a r p \<Rightarrow> m_ok (ActorStateAddress a r p)
      | BeginAccess v k p \<Rightarrow> m_map1 f v (\<lambda>v. BeginAccess v k p)
      | EndAccess v \<Rightarrow> m_map1 f v EndAccess
      | LoadFrom v p \<Rightarrow> m_map1 f v (\<lambda>v. LoadFrom v p)
      | StoreTo a v p \<Rightarrow> m_map2 f a v (\<lambda>a v. StoreTo a v p)
      | MoveValue v \<Rightarrow> m_map1 f v MoveValue
      | CopyValue v \<Rightarrow> m_map1 f v CopyValue
      | DropValue v \<Rightarrow> m_map1 f v DropValue
      | Allocate r t n p \<Rightarrow> m_map1 f n (\<lambda>n. Allocate r t n p)
      | RegionReset r \<Rightarrow> m_ok (RegionReset r)
      | Promote v r p \<Rightarrow> m_map1 f v (\<lambda>v. Promote v r p))"

definition map_actor :: "('v \<Rightarrow> 'w mcomp) \<Rightarrow> 'v actor_operation \<Rightarrow> 'w actor_operation mcomp" where
  "map_actor f a =
     (case a of
        ActorCapability a p \<Rightarrow> m_ok (ActorCapability a p)
      | ActorReserve a m p \<Rightarrow> m_ok (ActorReserve a m p)
      | ActorCommit r args \<Rightarrow> m_then (f r) (\<lambda>r. m_then (m_map f args) (\<lambda>args. m_ok (ActorCommit r args)))
      | ActorReplyRequest a m p q \<Rightarrow> m_ok (ActorReplyRequest a m p q)
      | ActorReplyResolve v p \<Rightarrow> m_map1 f v (\<lambda>v. ActorReplyResolve v p)
      | ActorReject v \<Rightarrow> m_map1 f v ActorReject
      | MailboxReceive a m \<Rightarrow> m_ok (MailboxReceive a m)
      | ReplyResolve e v \<Rightarrow> m_map2 f e v ReplyResolve
      | ReceiptCommit e v \<Rightarrow> m_map2 f e v ReceiptCommit
      | ReceiptResolve e v \<Rightarrow> m_map2 f e v ReceiptResolve)"

definition map_task :: "('v \<Rightarrow> 'w mcomp) \<Rightarrow> 'v task_operation \<Rightarrow> 'w task_operation mcomp" where
  "map_task f t =
     (case t of
        Call g args \<Rightarrow> m_then (m_map f args) (\<lambda>args. m_ok (Call g args))
      | AsyncCall g args p \<Rightarrow> m_then (m_map f args) (\<lambda>args. m_ok (AsyncCall g args p))
      | TaskAcquireSlot t p \<Rightarrow> m_ok (TaskAcquireSlot t p)
      | TaskStart v g args \<Rightarrow> m_then (f v) (\<lambda>v. m_then (m_map f args) (\<lambda>args. m_ok (TaskStart v g args)))
      | TaskCancel v \<Rightarrow> m_map1 f v TaskCancel
      | Park v \<Rightarrow> m_map1 f v Park
      | Wake v \<Rightarrow> m_map1 f v Wake
      | Checkpoint c p \<Rightarrow> m_ok (Checkpoint c p)
      | DeadlineRead \<Rightarrow> m_ok DeadlineRead)"

definition map_hardware :: "('v \<Rightarrow> 'w mcomp) \<Rightarrow> 'v hardware_operation \<Rightarrow> 'w hardware_operation mcomp" where
  "map_hardware f h =
     (case h of
        InterruptMask \<Rightarrow> m_ok InterruptMask
      | InterruptRestore v \<Rightarrow> m_map1 f v InterruptRestore
      | InterruptPublish c v \<Rightarrow> m_map2 f c v InterruptPublish
      | MmioRead d r \<Rightarrow> m_ok (MmioRead d r)
      | MmioWrite d r v \<Rightarrow> m_map1 f v (\<lambda>v. MmioWrite d r v)
      | Fence k \<Rightarrow> m_ok (Fence k)
      | DmaTransition v d a b p \<Rightarrow> m_map1 f v (\<lambda>v. DmaTransition v d a b p)
      | QueueReserve d v p \<Rightarrow> m_map1 f v (\<lambda>v. QueueReserve d v p)
      | QueuePublish r v \<Rightarrow> m_map2 f r v QueuePublish
      | ValidateDeviceValue v p \<Rightarrow> m_map1 f v (\<lambda>v. ValidateDeviceValue v p))"

definition map_event :: "('v \<Rightarrow> 'w mcomp) \<Rightarrow> 'v event_operation \<Rightarrow> 'w event_operation mcomp" where
  "map_event f e =
     (case e of
        Assert v d \<Rightarrow> m_map1 f v (\<lambda>v. Assert v d)
      | RecordEvent k v \<Rightarrow> m_map1 f v (RecordEvent k)
      | ReplayEvent k v \<Rightarrow> m_map1 f v (ReplayEvent k)
      | TestEmit v \<Rightarrow> m_map1 f v TestEmit
      | TestFinish v \<Rightarrow> m_map1 f v TestFinish)"

definition map_operation_values :: "('v \<Rightarrow> 'w mcomp) \<Rightarrow> 'v flow_operation \<Rightarrow> 'w flow_operation mcomp" where
  "map_operation_values f oper =
     (case oper of
        Immediate i \<Rightarrow> m_ok (Immediate i)
      | Unary op v \<Rightarrow> m_map1 f v (Unary op)
      | Binary op l r \<Rightarrow> m_map2 f l r (Binary op)
      | Cast v t m \<Rightarrow> m_map1 f v (\<lambda>v. Cast v t m)
      | Select c a b \<Rightarrow> m_then (f c) (\<lambda>c. m_map2 f a b (Select c))
      | Check v k p \<Rightarrow> m_map1 f v (\<lambda>v. Check v k p)
      | Aggregate a \<Rightarrow> m_then (map_aggregate f a) (\<lambda>a. m_ok (Aggregate a))
      | Memory m \<Rightarrow> m_then (map_memory f m) (\<lambda>m. m_ok (Memory m))
      | Actor a \<Rightarrow> m_then (map_actor f a) (\<lambda>a. m_ok (Actor a))
      | Task t \<Rightarrow> m_then (map_task f t) (\<lambda>t. m_ok (Task t))
      | Hardware h \<Rightarrow> m_then (map_hardware f h) (\<lambda>h. m_ok (Hardware h))
      | Event e \<Rightarrow> m_then (map_event f e) (\<lambda>e. m_ok (Event e)))"

definition map_case :: "value_id option list \<Rightarrow> block_id option list \<Rightarrow> switch_case \<Rightarrow> switch_case mcomp" where
  "map_case value_map block_map c =
     m_then (map_block block_map (case_target c)) (\<lambda>b.
     m_then (m_map (map_value value_map) (case_arguments c)) (\<lambda>args.
       m_ok (c\<lparr>case_target := b, case_arguments := args\<rparr>)))"

definition map_terminator :: "value_id option list \<Rightarrow> block_id option list \<Rightarrow> terminator \<Rightarrow> terminator mcomp" where
  "map_terminator value_map block_map t =
     (let vs = m_map (map_value value_map); bl = map_block block_map in
      case t of
        Jump b args \<Rightarrow> m_then (bl b) (\<lambda>b. m_then (vs args) (\<lambda>args. m_ok (Jump b args)))
      | Branch c b a b' a' \<Rightarrow>
          m_then (map_value value_map c) (\<lambda>c. m_then (bl b) (\<lambda>b. m_then (bl b') (\<lambda>b'.
          m_then (vs a) (\<lambda>a. m_then (vs a') (\<lambda>a'. m_ok (Branch c b a b' a'))))))
      | Switch v cases d args \<Rightarrow>
          m_then (map_value value_map v) (\<lambda>v. m_then (m_map (map_case value_map block_map) cases) (\<lambda>cases.
          m_then (bl d) (\<lambda>d. m_then (vs args) (\<lambda>args. m_ok (Switch v cases d args)))))
      | Return args \<Rightarrow> m_then (vs args) (\<lambda>args. m_ok (Return args))
      | Suspend s v b \<Rightarrow> m_then (bl b) (\<lambda>b. m_then (map_value value_map v) (\<lambda>v. m_ok (Suspend s v b)))
      | TailCall g args \<Rightarrow> m_then (vs args) (\<lambda>args. m_ok (TailCall g args))
      | Trap k detail \<Rightarrow>
          (case detail of None \<Rightarrow> m_ok (Trap k None)
           | Some v \<Rightarrow> m_then (map_value value_map v) (\<lambda>v. m_ok (Trap k (Some v))))
      | Unreachable \<Rightarrow> m_ok Unreachable)"

end
