(* ===== verification/Flow_Pipeline.thy ===== *)
theory Flow_Pipeline
  imports Flow_Passes
begin

text \<open>
  Compaction of a function, the passes that remove blocks and instructions, the verification after
  each pass, and the canonical pipeline that runs them.
\<close>

subsection \<open>Compaction of a function\<close>

definition is_removed :: "bool list option \<Rightarrow> instruction \<Rightarrow> bool" where
  "is_removed removed i \<longleftrightarrow> Option.bind removed (\<lambda>r. list_get r (unat (instruction_id_of i))) = Some True"

definition assign_block :: "optimization_limits \<Rightarrow> block_id option list \<times> u32 \<Rightarrow> nat \<times> bool \<Rightarrow> (block_id option list \<times> u32) mcomp" where
  "assign_block l = (\<lambda>(block_map, next) (index, keep).
     m_then checkpoint (\<lambda>_.
     if keep then
       m_then (m_or_err (checked_add_u32 next 1) (OptimizeResourceLimit ''FlowWir blocks'' (limit_blocks l))) (\<lambda>next'.
         m_ok (block_map[index := Some next], next'))
     else m_ok (block_map, next)))"

definition mark_value :: "string \<Rightarrow> bool list \<Rightarrow> value_id \<Rightarrow> bool list mcomp" where
  "mark_value what keep v =
     (if unat v < length keep then m_ok (keep[unat v := True])
      else proof_violation ''compaction'' (what @ '' refers to an unknown value''))"

definition mark_values :: "string \<Rightarrow> bool list \<Rightarrow> value_id list \<Rightarrow> bool list mcomp" where
  "mark_values what = m_each (\<lambda>keep v. m_then checkpoint (\<lambda>_. mark_value what keep v))"

definition mark_block :: "bool list option \<Rightarrow> bool list \<Rightarrow> bool list \<Rightarrow> nat \<times> flow_block \<Rightarrow> bool list mcomp" where
  "mark_block removed keep_blocks keep = (\<lambda>(index, b).
     m_then checkpoint (\<lambda>_.
     if \<not> keep_blocks ! index then m_ok keep
     else
       m_then (mark_values ''block parameter'' keep (parameters b)) (\<lambda>keep.
       m_each (\<lambda>keep i. m_then checkpoint (\<lambda>_.
         if is_removed removed i then m_ok keep else mark_values ''instruction result'' keep (results i))) keep (instructions b))))"

definition move_value ::
  "optimization_limits \<Rightarrow> bool list \<Rightarrow> value_id option list \<times> flow_value list \<Rightarrow> nat \<times> flow_value \<Rightarrow>
    (value_id option list \<times> flow_value list) mcomp" where
  "move_value l keep = (\<lambda>(value_map, kept) (index, v).
     m_then checkpoint (\<lambda>_.
     if \<not> keep ! index then m_ok (value_map, kept)
     else
       m_then (m_lift (index_as_u32 (length kept) ''FlowWir values'' (limit_values l))) (\<lambda>new_id.
         m_ok (value_map[index := Some new_id], kept @ [v\<lparr>value_id_of := new_id\<rparr>]))))"

definition compact_instruction ::
  "optimization_limits \<Rightarrow> bool list option \<Rightarrow> value_id option list \<Rightarrow> instruction list \<times> u32 \<Rightarrow> instruction \<Rightarrow>
    (instruction list \<times> u32) mcomp" where
  "compact_instruction l removed value_map = (\<lambda>(kept, next) i.
     m_then checkpoint (\<lambda>_.
     if is_removed removed i then m_ok (kept, next)
     else
       m_then (m_or_err (checked_add_u32 next 1) (OptimizeResourceLimit ''FlowWir instructions'' (limit_instructions l))) (\<lambda>next'.
       m_then (m_map (map_value value_map) (results i)) (\<lambda>rs.
       m_then (map_operation_values (map_value value_map) (operation i)) (\<lambda>oper.
         m_ok (kept @ [i\<lparr>instruction_id_of := next, results := rs, operation := oper\<rparr>], next'))))))"

definition compact_block ::
  "optimization_limits \<Rightarrow> bool list \<Rightarrow> bool list option \<Rightarrow> block_id option list \<Rightarrow> value_id option list \<Rightarrow>
    flow_block list \<times> u32 \<Rightarrow> nat \<times> flow_block \<Rightarrow> (flow_block list \<times> u32) mcomp" where
  "compact_block l keep_blocks removed block_map value_map = (\<lambda>(kept, next) (index, b).
     m_then checkpoint (\<lambda>_.
     if \<not> keep_blocks ! index then m_ok (kept, next)
     else
       m_then (m_or_err (block_map ! index) (ProofViolation ''compaction'' ''retained block has no dense remapping'')) (\<lambda>new_id.
       m_then (m_map (map_value value_map) (parameters b)) (\<lambda>ps.
       m_then (m_each (\<lambda>n i. m_then checkpoint (\<lambda>_.
           if is_removed removed i then m_ok n
           else m_or_err (checked_add_usize n 1) (OptimizeResourceLimit ''FlowWir instructions'' (limit_instructions l))))
         0 (instructions b)) (\<lambda>retained.
       m_then (m_lift (reserve_items retained ''FlowWir instructions'' (limit_instructions l))) (\<lambda>_.
       m_then (m_each (compact_instruction l removed value_map) ([], next) (instructions b)) (\<lambda>(is, next).
       m_then (map_terminator value_map block_map (terminator b)) (\<lambda>t.
         m_ok (kept @ [b\<lparr>block_id_of := new_id, parameters := ps, instructions := is, terminator := t\<rparr>], next)))))))))"

definition compact_function ::
  "optimization_limits \<Rightarrow> bool list \<Rightarrow> bool list option \<Rightarrow> flow_function \<Rightarrow> flow_function mcomp" where
  "compact_function l keep_blocks removed f =
     m_then (m_guard (length keep_blocks \<noteq> length (blocks f))
       (ProofViolation ''compaction'' ''block keep-set length does not match the function'')) (\<lambda>_.
     m_then (filled_vec (length (blocks f)) None ''optimizer temporary blocks'' (limit_blocks l)) (\<lambda>block_map.
     m_then (m_each (assign_block l) (block_map, 0) (enumerate 0 keep_blocks)) (\<lambda>(block_map, _).
     m_then (filled_vec (length (value_records f)) False ''optimizer temporary values'' (limit_values l)) (\<lambda>keep.
     m_then (mark_values ''function parameter'' keep (function_parameters f)) (\<lambda>keep.
     m_then (m_each (mark_block removed keep_blocks) keep (enumerate 0 (blocks f))) (\<lambda>keep.
     m_then (filled_vec (length (value_records f)) None ''optimizer temporary values'' (limit_values l)) (\<lambda>value_map.
     m_then (count_retained keep ''FlowWir values'' (limit_values l)) (\<lambda>retained.
     m_then (m_lift (reserve_items retained ''FlowWir values'' (limit_values l))) (\<lambda>_.
     m_then (m_each (move_value l keep) (value_map, []) (enumerate 0 (value_records f))) (\<lambda>(value_map, vs).
     m_then (m_map (map_value value_map) (function_parameters f)) (\<lambda>ps.
     m_then (map_block block_map (entry f)) (\<lambda>e.
     m_then (count_retained keep_blocks ''FlowWir blocks'' (limit_blocks l)) (\<lambda>retained.
     m_then (m_lift (reserve_items retained ''FlowWir blocks'' (limit_blocks l))) (\<lambda>_.
     m_then (m_each (compact_block l keep_blocks removed block_map value_map) ([], 0) (enumerate 0 (blocks f))) (\<lambda>(bs, _).
       m_ok (f\<lparr>value_records := vs, function_parameters := ps, entry := e, blocks := bs\<rparr>))))))))))))))))"

subsection \<open>Unreachable blocks\<close>

definition record_unreachable ::
  "optimization_limits \<Rightarrow> flow_function \<Rightarrow> decision_sink \<Rightarrow> nat \<times> bool \<Rightarrow> decision_sink mcomp" where
  "record_unreachable l f sink = (\<lambda>(index, reachable).
     m_then checkpoint (\<lambda>_.
     if reachable then m_ok sink
     else
       m_then (m_lift (index_as_u32 index ''FlowWir blocks'' (limit_blocks l))) (\<lambda>b.
       m_then (m_lift (block_subject (function_id_of f) b)) (\<lambda>sub.
       m_lift (sink_push l sink ''unreachable-block-elimination-v1'' sub Removed
         ''removed a block with no path from the function entry after control-flow simplification'' [])))))"

definition eliminate_unreachable_in ::
  "optimization_limits \<Rightarrow> decision_sink \<times> bool \<Rightarrow> flow_function \<Rightarrow> (flow_function \<times> decision_sink \<times> bool) mcomp" where
  "eliminate_unreachable_in l = (\<lambda>(sink, ch) f.
     m_then checkpoint (\<lambda>_.
     m_then (reachable_blocks l f) (\<lambda>reachable.
     m_then (all_retained reachable) (\<lambda>all.
     if all then m_ok (f, sink, ch)
     else
       m_then (m_each (record_unreachable l f) sink (enumerate 0 reachable)) (\<lambda>sink.
       m_then (compact_function l reachable None f) (\<lambda>f. m_ok (f, sink, True)))))))"

definition eliminate_unreachable_blocks ::
  "optimization_limits \<Rightarrow> decision_sink \<Rightarrow> 'c flow_wir \<Rightarrow> ('c flow_wir \<times> decision_sink \<times> bool) mcomp" where
  "eliminate_unreachable_blocks l sink wir =
     m_then (m_map_state (eliminate_unreachable_in l) (sink, False) (wir_functions wir)) (\<lambda>(fs, st).
       m_ok (wir\<lparr>wir_functions := fs\<rparr>, st))"

subsection \<open>Checks proven true\<close>

definition instruction_total :: "optimization_limits \<Rightarrow> flow_function \<Rightarrow> nat mcomp" where
  "instruction_total l f = m_then (function_instruction_count f) (\<lambda>n. m_ok (unat n))"

definition remove_check ::
  "optimization_limits \<Rightarrow> flow_function \<Rightarrow> constant_table \<Rightarrow> bool list \<times> decision_sink \<times> bool \<Rightarrow> instruction \<Rightarrow>
    (bool list \<times> decision_sink \<times> bool) mcomp" where
  "remove_check l f cs = (\<lambda>(removed, sink, ch) i.
     m_then checkpoint (\<lambda>_.
     case operation i of
       Check condition _ proof \<Rightarrow>
         if constant_at condition cs \<noteq> Some (ConstBool True) then m_ok (removed, sink, ch)
         else if unat (instruction_id_of i) \<ge> length removed then
           proof_violation ''proven-true-check-elimination-v1'' ''check instruction ID is not dense''
         else
           m_then (case proof of None \<Rightarrow> m_ok []
             | Some p \<Rightarrow> m_then (m_lift (reserve_items 1 ''optimization proof links'' (u64_of_u32 (limit_proofs l)))) (\<lambda>_. m_ok [p])) (\<lambda>proofs.
           m_then (m_lift (instruction_subject (function_id_of f) (instruction_id_of i))) (\<lambda>sub.
           m_then (m_lift (sink_push l sink ''proven-true-check-elimination-v1'' sub Removed
             ''removed a check whose canonical Boolean condition proves its failure edge unreachable'' proofs)) (\<lambda>sink.
           m_ok (removed[unat (instruction_id_of i) := True], sink, True))))
     | _ \<Rightarrow> m_ok (removed, sink, ch)))"

definition compact_removed :: "optimization_limits \<Rightarrow> bool list \<Rightarrow> flow_function \<Rightarrow> flow_function mcomp" where
  "compact_removed l removed f =
     m_then (filled_vec (length (blocks f)) True ''optimizer temporary blocks'' (limit_blocks l)) (\<lambda>keep.
       compact_function l keep (Some removed) f)"

definition eliminate_checks_in ::
  "optimization_limits \<Rightarrow> flow_type list \<Rightarrow> decision_sink \<times> bool \<Rightarrow> flow_function \<Rightarrow> (flow_function \<times> decision_sink \<times> bool) mcomp" where
  "eliminate_checks_in l types = (\<lambda>(sink, ch) f.
     m_then checkpoint (\<lambda>_.
     m_then (filled_vec (length (value_records f)) None ''optimizer temporary values'' (limit_values l)) (\<lambda>cs.
     m_then (seed_immediates f types cs) (\<lambda>cs.
     m_then (instruction_total l f) (\<lambda>total.
     m_then (filled_vec total False ''optimizer temporary instructions'' (limit_instructions l)) (\<lambda>removed.
     m_then (m_each (\<lambda>st b. m_then checkpoint (\<lambda>_. m_each (remove_check l f cs) st (instructions b)))
       (removed, sink, False) (blocks f)) (\<lambda>(removed, sink, function_changed).
     if function_changed then m_then (compact_removed l removed f) (\<lambda>f. m_ok (f, sink, True))
     else m_ok (f, sink, ch))))))))"

definition eliminate_proven_true_checks ::
  "optimization_limits \<Rightarrow> decision_sink \<Rightarrow> 'c flow_wir \<Rightarrow> ('c flow_wir \<times> decision_sink \<times> bool) mcomp" where
  "eliminate_proven_true_checks l sink wir =
     m_then (m_map_state (eliminate_checks_in l (wir_types wir)) (sink, False) (wir_functions wir)) (\<lambda>(fs, st).
       m_ok (wir\<lparr>wir_functions := fs\<rparr>, st))"

subsection \<open>Dead pure instructions\<close>

definition type_at :: "flow_function \<Rightarrow> flow_type list \<Rightarrow> value_id \<Rightarrow> flow_type option" where
  "type_at f types v =
     Option.bind (list_get (value_records f) (unat v)) (\<lambda>r. list_get types (unat (value_type r)))"

definition is_scalar_integer :: "flow_type_kind \<Rightarrow> bool" where
  "is_scalar_integer k = (case k of Scalar (ScalarInteger _ _) \<Rightarrow> True | _ \<Rightarrow> False)"

definition removable_immediate :: "immediate \<Rightarrow> type_id \<Rightarrow> flow_type_kind \<Rightarrow> flow_type list \<Rightarrow> bool" where
  "removable_immediate i t k types =
     (case (i, k) of
        (UnitImmediate, UnitType) \<Rightarrow> True
      | (BoolImmediate _, Scalar ScalarBool) \<Rightarrow> True
      | (Float32Immediate _, Scalar ScalarFloat32) \<Rightarrow> True
      | (Float64Immediate _, Scalar ScalarFloat64) \<Rightarrow> True
      | (GlobalAddress _, Scalar ScalarAddress) \<Rightarrow> True
      | (FunctionAddress _, Scalar ScalarAddress) \<Rightarrow> True
      | (IntegerImmediate _ _, Scalar (ScalarInteger _ _)) \<Rightarrow> constant_from_immediate i t types \<noteq> None
      | (ZeroImmediate ty, UnitType) \<Rightarrow> ty = t
      | (ZeroImmediate ty, Scalar _) \<Rightarrow> ty = t
      | _ \<Rightarrow> False)"

definition removable_unary :: "unary_op \<Rightarrow> flow_type_kind \<Rightarrow> bool" where
  "removable_unary op k =
     (case (op, k) of
        (BoolNot, Scalar ScalarBool) \<Rightarrow> True
      | (BitNot, Scalar (ScalarInteger _ _)) \<Rightarrow> True
      | (Negate, Scalar ScalarFloat32) \<Rightarrow> True
      | (Negate, Scalar ScalarFloat64) \<Rightarrow> True
      | _ \<Rightarrow> False)"

definition comparable_kind :: "flow_type_kind \<Rightarrow> bool" where
  "comparable_kind k =
     (case k of Scalar ScalarBool \<Rightarrow> True | Scalar (ScalarInteger _ _) \<Rightarrow> True
      | Scalar ScalarFloat32 \<Rightarrow> True | Scalar ScalarFloat64 \<Rightarrow> True | _ \<Rightarrow> False)"

definition removable_binary :: "binary_op \<Rightarrow> flow_type \<Rightarrow> flow_type \<Rightarrow> bool" where
  "removable_binary op operand result =
     (let wrapping = type_id_of operand = type_id_of result \<and> is_scalar_integer (type_kind operand);
          comparing = type_kind result = Scalar ScalarBool \<and> comparable_kind (type_kind operand) in
      case op of
        AddWrapping \<Rightarrow> wrapping | SubWrapping \<Rightarrow> wrapping | MulWrapping \<Rightarrow> wrapping
      | BitAnd \<Rightarrow> wrapping | BitOr \<Rightarrow> wrapping | BitXor \<Rightarrow> wrapping
      | Equals \<Rightarrow> comparing | NotEqual \<Rightarrow> comparing | LessThan \<Rightarrow> comparing
      | LessEqual \<Rightarrow> comparing | GreaterThan \<Rightarrow> comparing | GreaterEqual \<Rightarrow> comparing
      | _ \<Rightarrow> False)"

definition unit_or_scalar :: "flow_type_kind \<Rightarrow> bool" where
  "unit_or_scalar k = (case k of UnitType \<Rightarrow> True | Scalar _ \<Rightarrow> True | _ \<Rightarrow> False)"

definition removable_operation :: "flow_function \<Rightarrow> flow_type list \<Rightarrow> value_id flow_operation \<Rightarrow> type_id \<Rightarrow> flow_type \<Rightarrow> bool" where
  "removable_operation f types oper t result =
     (case oper of
        Immediate i \<Rightarrow> removable_immediate i t (type_kind result) types
      | Unary op v \<Rightarrow>
          (case type_at f types v of None \<Rightarrow> False
           | Some operand \<Rightarrow> type_id_of operand = type_id_of result \<and> removable_unary op (type_kind result))
      | Binary op l r \<Rightarrow>
          (case (type_at f types l, type_at f types r) of
             (Some lt, Some rt) \<Rightarrow> type_id_of lt = type_id_of rt \<and> removable_binary op lt result
           | _ \<Rightarrow> False)
      | Select c a b \<Rightarrow>
          map_option type_kind (type_at f types c) = Some (Scalar ScalarBool) \<and>
          map_option type_id_of (type_at f types a) = Some (type_id_of result) \<and>
          map_option type_id_of (type_at f types b) = Some (type_id_of result) \<and>
          unit_or_scalar (type_kind result)
      | _ \<Rightarrow> False)"

definition removable_when_dead :: "flow_function \<Rightarrow> flow_type list \<Rightarrow> instruction \<Rightarrow> bool" where
  "removable_when_dead f types i =
     (case result_type_of f i of
        None \<Rightarrow> False
      | Some (r, t) \<Rightarrow>
          (case list_get types (unat t) of
             None \<Rightarrow> False
           | Some result \<Rightarrow>
               copyable result \<and> \<not> strict_linear result \<and> removable_operation f types (operation i) t result))"

definition operation_proofs :: "optimization_limits \<Rightarrow> value_id flow_operation \<Rightarrow> proof_id list ocomp" where
  "operation_proofs l oper =
     (let proof = (case oper of
          Memory (BeginAccess _ _ p) \<Rightarrow> Some p
        | Memory (LoadFrom _ p) \<Rightarrow> Some p
        | Memory (StoreTo _ _ p) \<Rightarrow> Some p
        | Memory (Allocate _ _ _ p) \<Rightarrow> Some p
        | Memory (Promote _ _ p) \<Rightarrow> Some p
        | Actor (ActorReserve _ _ p) \<Rightarrow> Some p
        | Task (TaskAcquireSlot _ p) \<Rightarrow> Some p
        | Task (Checkpoint _ p) \<Rightarrow> Some p
        | Hardware (DmaTransition _ _ _ _ p) \<Rightarrow> Some p
        | Hardware (QueueReserve _ _ p) \<Rightarrow> Some p
        | Hardware (ValidateDeviceValue _ p) \<Rightarrow> Some p
        | Check _ _ p \<Rightarrow> p
        | _ \<Rightarrow> None) in
      case proof of
        None \<Rightarrow> ok []
      | Some p \<Rightarrow> and_then (reserve_items 1 ''optimization proof reliance'' (u64_of_u32 (limit_proofs l))) (\<lambda>_. ok [p]))"

abbreviation dead_pure_pass :: string where
  "dead_pure_pass \<equiv> ''dead-pure-instruction-elimination-v1''"

primrec all_unused :: "u64 list \<Rightarrow> value_id list \<Rightarrow> bool ocomp" where
  "all_unused use_counts [] = ok True"
| "all_unused use_counts (r # rs) =
     (case list_get use_counts (unat r) of
        None \<Rightarrow> err (ProofViolation dead_pure_pass ''instruction result is an unknown value'')
      | Some n \<Rightarrow> if n \<noteq> 0 then ok False else all_unused use_counts rs)"

definition results_are_dead :: "u64 list \<Rightarrow> instruction \<Rightarrow> bool ocomp" where
  "results_are_dead use_counts i =
     and_then (all_unused use_counts (results i)) (\<lambda>dead. ok (dead \<and> results i \<noteq> []))"

definition instruction_at :: "flow_function \<Rightarrow> (nat \<times> nat) option list \<Rightarrow> u32 \<Rightarrow> instruction ocomp" where
  "instruction_at f locations i =
     (case list_get locations (unat i) of
        Some (Some (b, k)) \<Rightarrow>
          or_err (Option.bind (list_get (blocks f) b) (\<lambda>b. list_get (instructions b) k))
            (ProofViolation dead_pure_pass ''instruction location was not stable during dead-code elimination'')
      | _ \<Rightarrow> err (ProofViolation dead_pure_pass ''instruction lookup failed during dead-code elimination''))"

record use_account =
  account_counts :: "u64 list"
  account_invalid :: bool
  account_overflow :: bool
  account_uses :: u64

definition count_use :: "use_account \<Rightarrow> value_id \<Rightarrow> use_account" where
  "count_use a v =
     (case checked_add_u64 (account_uses a) 1 of
        None \<Rightarrow> a\<lparr>account_overflow := True\<rparr>
      | Some n \<Rightarrow>
          let a = a\<lparr>account_uses := n\<rparr> in
          (case list_get (account_counts a) (unat v) of
             None \<Rightarrow> a\<lparr>account_invalid := True\<rparr>
           | Some count \<Rightarrow>
               (case checked_add_u64 count 1 of
                  None \<Rightarrow> a\<lparr>account_overflow := True\<rparr>
                | Some next \<Rightarrow> a\<lparr>account_counts := (account_counts a)[unat v := next]\<rparr>)))"

definition start_account :: "u64 list \<Rightarrow> use_account" where
  "start_account counts = \<lparr>account_counts = counts, account_invalid = False, account_overflow = False, account_uses = 0\<rparr>"

definition settle_account :: "string \<Rightarrow> use_account \<Rightarrow> u64 list mcomp" where
  "settle_account detail a =
     (if account_invalid a \<or> account_overflow a then proof_violation dead_pure_pass detail else m_ok (account_counts a))"

definition charge_operation_uses :: "u64 list \<Rightarrow> value_id flow_operation \<Rightarrow> u64 list mcomp" where
  "charge_operation_uses counts oper =
     m_then (for_each_operation_value count_use (start_account counts) oper)
       (settle_account ''operation use accounting overflowed'')"

definition charge_terminator_uses :: "u64 list \<Rightarrow> terminator \<Rightarrow> u64 list mcomp" where
  "charge_terminator_uses counts t =
     m_then (for_each_terminator_value count_use (start_account counts) t)
       (settle_account ''terminator use accounting overflowed'')"

definition define_result :: "u32 \<Rightarrow> u32 option list \<Rightarrow> value_id \<Rightarrow> u32 option list mcomp" where
  "define_result i definitions r =
     m_then checkpoint (\<lambda>_.
     if unat r < length definitions then m_ok (definitions[unat r := Some i])
     else proof_violation dead_pure_pass ''instruction defines an unknown value'')"

definition locate_instruction ::
  "nat \<Rightarrow> u64 list \<times> u32 option list \<times> (nat \<times> nat) option list \<Rightarrow> nat \<times> instruction \<Rightarrow>
    (u64 list \<times> u32 option list \<times> (nat \<times> nat) option list) mcomp" where
  "locate_instruction block_index = (\<lambda>(counts, definitions, locations) (index, i).
     m_then checkpoint (\<lambda>_.
     if unat (instruction_id_of i) \<ge> length locations then proof_violation dead_pure_pass ''instruction IDs are not dense''
     else
       m_then (m_each (define_result (instruction_id_of i)) definitions (results i)) (\<lambda>definitions.
       m_then (charge_operation_uses counts (operation i)) (\<lambda>counts.
         m_ok (counts, definitions, locations[unat (instruction_id_of i) := Some (block_index, index)])))))"

definition locate_block ::
  "u64 list \<times> u32 option list \<times> (nat \<times> nat) option list \<Rightarrow> nat \<times> flow_block \<Rightarrow>
    (u64 list \<times> u32 option list \<times> (nat \<times> nat) option list) mcomp" where
  "locate_block st = (\<lambda>(block_index, b).
     m_then checkpoint (\<lambda>_.
     m_then (m_each (locate_instruction block_index) st (enumerate 0 (instructions b))) (\<lambda>(counts, definitions, locations).
     m_then (charge_terminator_uses counts (terminator b)) (\<lambda>counts.
       m_ok (counts, definitions, locations)))))"

definition queue_dead ::
  "flow_function \<Rightarrow> flow_type list \<Rightarrow> u64 list \<Rightarrow> bool list \<times> u32 list \<Rightarrow> instruction \<Rightarrow> (bool list \<times> u32 list) mcomp" where
  "queue_dead f types counts = (\<lambda>(queued, pending) i.
     m_then checkpoint (\<lambda>_.
     m_then (if removable_when_dead f types i then m_lift (results_are_dead counts i) else m_ok False) (\<lambda>dead.
     if dead then m_ok (queued[unat (instruction_id_of i) := True], instruction_id_of i # pending)
     else m_ok (queued, pending))))"

definition release_use :: "u64 list \<times> bool \<Rightarrow> value_id \<Rightarrow> u64 list \<times> bool" where
  "release_use = (\<lambda>(counts, failed) v.
     case list_get counts (unat v) of
       None \<Rightarrow> (counts, True)
     | Some n \<Rightarrow> if n = 0 then (counts, True) else (counts[unat v := n - 1], failed))"

definition queue_definition ::
  "flow_function \<Rightarrow> flow_type list \<Rightarrow> u32 option list \<Rightarrow> (nat \<times> nat) option list \<Rightarrow> u64 list \<Rightarrow>
    bool list \<times> u32 list \<times> bool \<Rightarrow> value_id \<Rightarrow> bool list \<times> u32 list \<times> bool" where
  "queue_definition f types definitions locations counts = (\<lambda>(queued, pending, failed) v.
     if list_get counts (unat v) \<noteq> Some 0 then (queued, pending, failed)
     else case list_get definitions (unat v) of
       Some (Some d) \<Rightarrow>
         (case list_get queued (unat d) of
            None \<Rightarrow> (queued, pending, True)
          | Some True \<Rightarrow> (queued, pending, failed)
          | Some False \<Rightarrow>
              (case outcome (instruction_at f locations d) of
                 Inl _ \<Rightarrow> (queued, pending, True)
               | Inr i \<Rightarrow>
                   (case outcome (results_are_dead counts i) of
                      Inl _ \<Rightarrow> (queued, pending, True)
                    | Inr dead \<Rightarrow>
                        if removable_when_dead f types i \<and> dead then (queued[unat d := True], d # pending, failed)
                        else (queued, pending, failed))))
     | _ \<Rightarrow> (queued, pending, failed))"

lemma queue_definitions_measure:
  "foldl (queue_definition f types ds ls cs) (q, p, b) vs = (q', p', b') \<Longrightarrow>
    2 * false_count q' + length p' \<le> 2 * false_count q + length p"
proof (induction vs arbitrary: q p b)
  case (Cons v vs)
  obtain q1 p1 b1 where one: "queue_definition f types ds ls cs (q, p, b) v = (q1, p1, b1)" by (metis prod_cases3)
  have "2 * false_count q1 + length p1 \<le> 2 * false_count q + length p"
  proof (cases "list_get ds (unat v)")
    case (Some d)
    then show ?thesis
      using one false_count_update [of "unat (the d)" q]
      by (cases d) (auto simp: queue_definition_def list_get_def split: if_splits option.splits bool.splits sum.splits)
  qed (use one in \<open>auto simp: queue_definition_def split: if_splits\<close>)
  with Cons.IH [of q1 p1 b1] Cons.prems one show ?case by simp
qed simp

function dead_loop ::
  "flow_function \<Rightarrow> flow_type list \<Rightarrow> u32 option list \<Rightarrow> (nat \<times> nat) option list \<Rightarrow> bool list \<Rightarrow> bool list \<Rightarrow> u64 list \<Rightarrow> u32 list \<Rightarrow>
    (bool list \<times> u64 list) mcomp" where
  "dead_loop f types ds ls removed queued counts [] = m_ok (removed, counts)"
| "dead_loop f types ds ls removed queued counts (d # pending) = m_then checkpoint (\<lambda>_.
     case list_get removed (unat d) of
       None \<Rightarrow> proof_violation dead_pure_pass ''dead-instruction worklist contains an unknown instruction''
     | Some True \<Rightarrow> dead_loop f types ds ls removed queued counts pending
     | Some False \<Rightarrow>
         m_then (m_lift (instruction_at f ls d)) (\<lambda>i.
         m_then (if removable_when_dead f types i then m_lift (results_are_dead counts i) else m_ok False) (\<lambda>dead.
         if \<not> dead then dead_loop f types ds ls removed queued counts pending
         else
           m_then (for_each_operation_value release_use (counts, False) (operation i)) (\<lambda>(counts, failed).
           if failed then proof_violation dead_pure_pass ''dead-instruction operand use accounting underflowed''
           else
             m_then (for_each_operation_value (queue_definition f types ds ls counts) (queued, pending, False) (operation i))
               (\<lambda>(queued, pending, failed).
             if failed then proof_violation dead_pure_pass ''dead-instruction dependency lookup failed''
             else dead_loop f types ds ls (removed[unat d := True]) queued counts pending)))))"
  by pat_completeness auto
termination
proof (relation "measure (\<lambda>(f, types, ds, ls, removed, queued, counts, pending). 2 * false_count queued + length pending)", goal_cases)
  case (4 f types ds ls removed queued counts d pending x u i dead y cs' failed z q' w p' failed')
  then have "foldl (queue_definition f types ds ls cs') (queued, pending, False) (operation_operands (operation i)) = (q', p', failed')"
    using returns_visit_all unfolding for_each_operation_value_def by metis
  from queue_definitions_measure [OF this] show ?case by simp
qed simp_all

declare dead_loop.simps [simp del]

definition record_dead ::
  "optimization_limits \<Rightarrow> flow_function \<Rightarrow> flow_type list \<Rightarrow> u64 list \<Rightarrow> bool list \<Rightarrow> decision_sink \<times> bool \<Rightarrow> instruction \<Rightarrow>
    (decision_sink \<times> bool) mcomp" where
  "record_dead l f types counts removed = (\<lambda>(sink, ch) i.
     let push = (\<lambda>kind why proofs.
       m_then (m_lift (instruction_subject (function_id_of f) (instruction_id_of i))) (\<lambda>sub.
       m_lift (sink_push l sink dead_pure_pass sub kind why proofs))) in
     m_then checkpoint (\<lambda>_.
     if list_get removed (unat (instruction_id_of i)) = Some True then
       m_then (push Removed ''removed a result-dead scalar instruction proven free of traps and observable effects'' [])
         (\<lambda>sink. m_ok (sink, True))
     else
       m_then (m_lift (operation_proofs l (operation i))) (\<lambda>proofs.
       if proofs \<noteq> [] then
         m_then (push Retained ''retained a proof-constrained operation without changing its safety obligation'' proofs)
           (\<lambda>sink. m_ok (sink, ch))
       else
         m_then (if results i \<noteq> [] then m_lift (results_are_dead counts i) else m_ok False) (\<lambda>dead.
         if dead \<and> \<not> removable_when_dead f types i then
           m_then (push Retained
             ''retained a result-dead operation because it may trap or has observable ownership, memory, runtime, or device effects'' [])
             (\<lambda>sink. m_ok (sink, ch))
         else m_ok (sink, ch)))))"

definition eliminate_dead_in ::
  "optimization_limits \<Rightarrow> flow_type list \<Rightarrow> decision_sink \<times> bool \<Rightarrow> flow_function \<Rightarrow> (flow_function \<times> decision_sink \<times> bool) mcomp" where
  "eliminate_dead_in l types = (\<lambda>(sink, ch) f.
     m_then checkpoint (\<lambda>_.
     m_then (instruction_total l f) (\<lambda>total.
     m_then (filled_vec (length (value_records f)) 0 ''optimizer temporary values'' (limit_values l)) (\<lambda>counts.
     m_then (filled_vec (length (value_records f)) None ''optimizer temporary values'' (limit_values l)) (\<lambda>definitions.
     m_then (filled_vec total None ''optimizer temporary instructions'' (limit_instructions l)) (\<lambda>locations.
     m_then (m_each locate_block (counts, definitions, locations) (enumerate 0 (blocks f))) (\<lambda>(counts, definitions, locations).
     m_then (filled_vec total False ''optimizer temporary instructions'' (limit_instructions l)) (\<lambda>removed.
     m_then (filled_vec total False ''optimizer temporary instructions'' (limit_instructions l)) (\<lambda>queued.
     m_then (m_lift (reserve_items total ''optimizer temporary instructions'' (limit_instructions l))) (\<lambda>_.
     m_then (m_each (\<lambda>st b. m_then checkpoint (\<lambda>_. m_each (queue_dead f types counts) st (instructions b)))
       (queued, []) (blocks f)) (\<lambda>(queued, pending).
     m_then (dead_loop f types definitions locations removed queued counts pending) (\<lambda>(removed, counts).
     m_then (m_each (\<lambda>st b. m_then checkpoint (\<lambda>_. m_each (record_dead l f types counts removed) st (instructions b)))
       (sink, False) (blocks f)) (\<lambda>(sink, function_changed).
     if function_changed then m_then (compact_removed l removed f) (\<lambda>f. m_ok (f, sink, True))
     else m_ok (f, sink, ch))))))))))))))"

definition eliminate_dead_pure_instructions ::
  "optimization_limits \<Rightarrow> decision_sink \<Rightarrow> 'c flow_wir \<Rightarrow> ('c flow_wir \<times> decision_sink \<times> bool) mcomp" where
  "eliminate_dead_pure_instructions l sink wir =
     m_then (m_map_state (eliminate_dead_in l (wir_types wir)) (sink, False) (wir_functions wir)) (\<lambda>(fs, st).
       m_ok (wir\<lparr>wir_functions := fs\<rparr>, st))"

subsection \<open>Verification after a pass\<close>

definition define_verified_value :: "string \<Rightarrow> u8 list \<Rightarrow> value_id \<Rightarrow> u8 list mcomp" where
  "define_verified_value pass definitions v =
     m_then checkpoint (\<lambda>_.
     case list_get definitions (unat v) of
       None \<Rightarrow> proof_violation pass ''a definition names an unknown value''
     | Some n \<Rightarrow>
         if n = 255 then proof_violation pass ''value definition count overflowed''
         else m_ok (definitions[unat v := n + 1]))"

definition verify_operation_references ::
  "optimization_limits \<Rightarrow> string \<Rightarrow> nat \<Rightarrow> flow_function \<Rightarrow> value_id flow_operation \<Rightarrow> unit mcomp" where
  "verify_operation_references l pass proofs f oper =
     m_then (for_each_operation_value (\<lambda>invalid v. invalid \<or> unat v \<ge> length (value_records f)) False oper) (\<lambda>invalid.
     if invalid then proof_violation pass ''an operation names an unknown value''
     else
       m_then (m_lift (operation_proofs l oper)) (\<lambda>ps.
       m_guard (list_ex (\<lambda>p. unat p \<ge> proofs) ps) (ProofViolation pass ''an operation names an unknown proof'')))"

definition verify_terminator_references :: "string \<Rightarrow> flow_function \<Rightarrow> terminator \<Rightarrow> unit mcomp" where
  "verify_terminator_references pass f t =
     m_then (for_each_terminator_value (\<lambda>invalid v. invalid \<or> unat v \<ge> length (value_records f)) False t) (\<lambda>invalid_value.
     m_then (for_each_edge (\<lambda>invalid b. invalid \<or> unat b \<ge> length (blocks f)) False t) (\<lambda>invalid_block.
     m_guard (invalid_value \<or> invalid_block) (ProofViolation pass ''a terminator names an unknown value or block'')))"

definition verify_instruction ::
  "optimization_limits \<Rightarrow> string \<Rightarrow> nat \<Rightarrow> flow_function \<Rightarrow> u8 list \<times> u32 \<Rightarrow> instruction \<Rightarrow> (u8 list \<times> u32) mcomp" where
  "verify_instruction l pass proofs f = (\<lambda>(definitions, expected) i.
     m_then checkpoint (\<lambda>_.
     m_then (m_guard (instruction_id_of i \<noteq> expected) (ProofViolation pass ''instruction IDs are not dense'')) (\<lambda>_.
     m_then (m_or_err (checked_add_u32 expected 1) (OptimizeResourceLimit ''FlowWir instructions'' (limit_instructions l))) (\<lambda>expected.
     m_then (m_each (define_verified_value pass) definitions (results i)) (\<lambda>definitions.
     m_then (verify_operation_references l pass proofs f (operation i)) (\<lambda>_.
       m_ok (definitions, expected)))))))"

definition verify_block ::
  "optimization_limits \<Rightarrow> string \<Rightarrow> nat \<Rightarrow> flow_function \<Rightarrow> u8 list \<times> u32 \<Rightarrow> nat \<times> flow_block \<Rightarrow> (u8 list \<times> u32) mcomp" where
  "verify_block l pass proofs f = (\<lambda>(definitions, expected) (index, b).
     m_then checkpoint (\<lambda>_.
     m_then (m_guard (unat (block_id_of b) \<noteq> index) (ProofViolation pass ''block IDs are not dense'')) (\<lambda>_.
     m_then (m_each (define_verified_value pass) definitions (parameters b)) (\<lambda>definitions.
     m_then (m_each (verify_instruction l pass proofs f) (definitions, expected) (instructions b)) (\<lambda>(definitions, expected).
     m_then (verify_terminator_references pass f (terminator b)) (\<lambda>_.
       m_ok (definitions, expected)))))))"

definition verify_function :: "optimization_limits \<Rightarrow> string \<Rightarrow> bool \<Rightarrow> nat \<Rightarrow> flow_function \<Rightarrow> unit mcomp" where
  "verify_function l pass require_reachable proofs f =
     m_then checkpoint (\<lambda>_.
     m_then (m_guard (unat (entry f) \<ge> length (blocks f)) (ProofViolation pass ''function entry is not a known block'')) (\<lambda>_.
     m_then (filled_vec (length (value_records f)) 0 ''optimizer verification values'' (limit_values l)) (\<lambda>definitions.
     m_then (m_each (\<lambda>_ (index, v). m_then checkpoint (\<lambda>_.
         m_guard (unat (value_id_of v) \<noteq> index) (ProofViolation pass ''value IDs are not dense''))) () (enumerate 0 (value_records f))) (\<lambda>_.
     m_then (m_each (define_verified_value pass) definitions (function_parameters f)) (\<lambda>definitions.
     m_then (m_each (verify_block l pass proofs f) (definitions, 0) (enumerate 0 (blocks f))) (\<lambda>(definitions, _).
     m_then (m_each (\<lambda>_ n. m_then checkpoint (\<lambda>_.
         m_guard (n \<noteq> 1) (ProofViolation pass ''a value does not have exactly one definition''))) () definitions) (\<lambda>_.
     if require_reachable then
       m_then (reachable_blocks l f) (\<lambda>reachable.
       m_then (all_retained reachable) (\<lambda>all.
       m_guard (\<not> all) (ProofViolation pass ''the pass left an unreachable block'')))
     else m_ok ())))))))"

definition verify_after_pass ::
  "optimization_profile \<Rightarrow> optimization_limits \<Rightarrow> string \<Rightarrow> bool \<Rightarrow> 'c flow_wir \<Rightarrow> unit mcomp" where
  "verify_after_pass p l pass require_reachable wir =
     (if \<not> verify_after_each_pass p then m_ok ()
      else m_each (\<lambda>_. verify_function l pass require_reachable (wir_proofs wir)) () (wir_functions wir))"

definition verify_test ::
  "string \<Rightarrow> flow_function list \<Rightarrow> bool list \<Rightarrow> nat \<times> test_entry \<Rightarrow> bool list mcomp" where
  "verify_test pass fs listed = (\<lambda>(index, t).
     m_then checkpoint (\<lambda>_.
     case list_get fs (unat (entry_function t)) of
       None \<Rightarrow> proof_violation pass ''test metadata names an unknown function''
     | Some f \<Rightarrow>
         (case list_get listed (unat (entry_function t)) of
            None \<Rightarrow> proof_violation pass ''test metadata function lookup failed''
          | Some slot \<Rightarrow>
              if unat (entry_id t) \<noteq> index \<or> slot \<or> role f \<noteq> TestRole then
                proof_violation pass ''test metadata is non-dense, duplicated, or names a non-test function''
              else m_ok (listed[unat (entry_function t) := True]))))"

definition verify_test_table_links ::
  "optimization_limits \<Rightarrow> string \<Rightarrow> flow_function list \<Rightarrow> test_entry list \<Rightarrow> unit mcomp" where
  "verify_test_table_links l pass fs tests =
     m_then (m_lift (and_then (length_as_u64 (length tests) ''FlowWir tests'' (u64_of_u32 (limit_tests l))) (\<lambda>n.
       ensure_limit n ''FlowWir tests'' (u64_of_u32 (limit_tests l))))) (\<lambda>_.
     m_then (filled_vec (length fs) False ''optimizer test function set'' (u64_of_u32 (limit_functions l))) (\<lambda>listed.
     m_then (m_each (verify_test pass fs) listed (enumerate 0 tests)) (\<lambda>listed.
     m_each (\<lambda>_ (index, f). m_then checkpoint (\<lambda>_.
       m_guard ((role f = TestRole) \<noteq> listed ! index) (ProofViolation pass ''test function set drifted from test metadata'')))
       () (enumerate 0 fs))))"

subsection \<open>The pipeline\<close>

definition is_aggressive :: "optimization_level \<Rightarrow> bool" where
  "is_aggressive lvl \<longleftrightarrow> lvl = Performance \<or> lvl = Size"

definition pipeline_passes :: "optimization_level \<Rightarrow> string list ocomp" where
  "pipeline_passes lvl =
     (let development = [''scalar-constant-fold-v1'', ''constant-control-flow-v1'', ''unreachable-block-elimination-v1''] in
      case lvl of
        DevelopmentLevel \<Rightarrow> ok (development @ [dead_pure_pass])
      | NoOptimization \<Rightarrow> err (UnsupportedOptimizationLevel lvl)
      | _ \<Rightarrow> ok (development @ [''proven-true-check-elimination-v1'', dead_pure_pass]))"

definition sink_new :: "optimization_profile \<Rightarrow> optimization_limits \<Rightarrow> decision_sink ocomp" where
  "sink_new p l =
     (let resource = ''optimization report bytes''; limit = limit_report_bytes l in
      and_then (length_as_u64 (length (pipeline_name (pipeline p))) resource limit) (\<lambda>bytes.
      and_then (pipeline_passes (profile_level p)) (\<lambda>names.
      and_then (for_each (\<lambda>bytes name. and_then (length_as_u64 (length name) resource limit) (\<lambda>n.
          or_err (checked_add_u64 bytes n) (OptimizeResourceLimit resource limit))) bytes names) (\<lambda>bytes.
      and_then (ensure_limit bytes resource limit) (\<lambda>_.
        ok \<lparr>sink_decisions = [], sink_bytes = bytes\<rparr>)))))"

text \<open>What follows each pass: the module and the links of its test table are verified and the
  statistics of the pass are appended.\<close>

definition close_pass ::
  "optimization_profile \<Rightarrow> optimization_limits \<Rightarrow> test_entry list \<Rightarrow> u32 \<Rightarrow> string \<Rightarrow> bool \<Rightarrow> 'c flow_wir \<Rightarrow>
    u32 \<Rightarrow> bool \<Rightarrow> u64 \<Rightarrow> u64 \<Rightarrow> pass_statistics list \<Rightarrow> pass_statistics list mcomp" where
  "close_pass p l tests entries pass require_reachable wir rounds ch before after stats =
     m_then (verify_after_pass p l pass require_reachable wir) (\<lambda>_.
     m_then (verify_test_table_links l pass (wir_functions wir) tests) (\<lambda>_.
     m_then (m_lift (report_text (str pass) l)) (\<lambda>name.
       m_ok (stats @ [\<lparr>statistics_pass = name, iterations = rounds, changed = ch, instructions_before = before,
         instructions_after = after, test_entries_before = entries, test_entries_after = entries,
         test_table_preserved = True\<rparr>]))))"

definition execute_pipeline ::
  "optimization_profile \<Rightarrow> optimization_limits \<Rightarrow> u64 \<Rightarrow> 'c flow_wir \<Rightarrow> ('c flow_wir \<times> optimization_report) mcomp" where
  "execute_pipeline p l input_instructions wir =
     m_then (m_lift (pipeline_passes (profile_level p))) (\<lambda>names.
     m_then (m_lift (and_then (length_as_u64 (length names) ''optimization passes'' (u64_of_u32 (limit_passes l))) (\<lambda>n.
       ensure_limit n ''optimization passes'' (u64_of_u32 (limit_passes l))))) (\<lambda>_.
     m_then (m_lift (reserve_items (length names) ''optimization passes'' (u64_of_u32 (limit_passes l)))) (\<lambda>_.
     m_then (m_lift (sink_new p l)) (\<lambda>sink.
     let tests = wir_tests wir; wir = wir\<lparr>wir_tests := []\<rparr>; n0 = input_instructions in
     m_then (m_or_err (u32_try_from (length tests)) (OptimizeResourceLimit ''FlowWir tests'' (u64_of_u32 (limit_tests l)))) (\<lambda>entries.
     let close = close_pass p l tests entries in
     m_then (verify_test_table_links l ''pipeline-input'' (wir_functions wir) tests) (\<lambda>_.
     m_then (fold_scalar_constants p l sink wir) (\<lambda>(wir, sink, ch, rounds).
     m_then (close ''scalar-constant-fold-v1'' False wir rounds ch n0 n0 []) (\<lambda>stats.
     m_then (simplify_constant_control_flow l sink wir) (\<lambda>(wir, sink, ch).
     m_then (close ''constant-control-flow-v1'' False wir 1 ch n0 n0 stats) (\<lambda>stats.
     m_then (eliminate_unreachable_blocks l sink wir) (\<lambda>(wir, sink, ch).
     m_then (instruction_count wir) (\<lambda>n1.
     m_then (close ''unreachable-block-elimination-v1'' True wir 1 ch n0 n1 stats) (\<lambda>stats.
     m_then (if is_aggressive (profile_level p) then
         m_then (eliminate_proven_true_checks l sink wir) (\<lambda>(wir, sink, ch).
         m_then (instruction_count wir) (\<lambda>n2.
         m_then (close ''proven-true-check-elimination-v1'' True wir 1 ch n1 n2 stats) (\<lambda>stats.
           m_ok (wir, sink, n2, stats))))
       else m_ok (wir, sink, n1, stats)) (\<lambda>(wir, sink, n2, stats).
     m_then (eliminate_dead_pure_instructions l sink wir) (\<lambda>(wir, sink, ch).
     m_then (instruction_count wir) (\<lambda>n3.
     m_then (close dead_pure_pass True wir 1 ch n2 n3 stats) (\<lambda>stats.
       m_ok (wir\<lparr>wir_tests := tests\<rparr>,
         \<lparr>report_profile = p, passes = stats, decisions = sink_decisions sink\<rparr>))))))))))))))))))"

end
