(* ===== verification/Flow_Semantics.thy ===== *)
theory Flow_Semantics
  imports Flow_Pipeline Scalar_Exact
begin

text \<open>
  What a function of the Flow representation computes. Scalar operations have their language meaning
  (\<open>Scalar_Exact\<close>); every other operation is a parameter, an arbitrary transformation of an arbitrary
  world. A run is counted in blocks and is stuck where a module that passed validation never gets: an
  operand without a value, a value that does not belong to its declared type, an unreachable terminator.
\<close>

subsection \<open>Values and effects\<close>

datatype (plugins only: code size) 'o val = ScalarVal scalar_constant | OpaqueVal 'o

datatype (plugins only: code size) ('o, 'w) effect = Yields "'o val list" 'w | Fails failure_kind 'w | Invalid

record ('o, 'w) machine =
  opaque_immediate :: "immediate \<Rightarrow> type_id \<Rightarrow> 'o val"
  opaque_binary :: "binary_op \<Rightarrow> 'o val \<Rightarrow> 'o val \<Rightarrow> 'o val"
  opaque_key :: "'o \<Rightarrow> u128 option"
  perform :: "type_id list \<Rightarrow> 'o val flow_operation \<Rightarrow> 'w \<Rightarrow> ('o, 'w) effect"
  suspended :: "u32 \<Rightarrow> 'o val \<Rightarrow> 'w \<Rightarrow> 'w"

type_synonym 'o env = "value_id \<Rightarrow> 'o val option"

definition of_type :: "flow_type list \<Rightarrow> type_id \<Rightarrow> 'o val \<Rightarrow> bool" where
  "of_type types t x =
     (case kind_at types t of
        None \<Rightarrow> False
      | Some k \<Rightarrow> (case x of ScalarVal c \<Rightarrow> constant_of_kind k c | OpaqueVal _ \<Rightarrow> \<not> comparable_kind k))"

definition pure_operator :: "binary_op \<Rightarrow> bool" where
  "pure_operator op =
     (case op of AddWrapping \<Rightarrow> True | SubWrapping \<Rightarrow> True | MulWrapping \<Rightarrow> True
      | BitAnd \<Rightarrow> True | BitOr \<Rightarrow> True | BitXor \<Rightarrow> True
      | Equals \<Rightarrow> True | NotEqual \<Rightarrow> True | LessThan \<Rightarrow> True | LessEqual \<Rightarrow> True | GreaterThan \<Rightarrow> True | GreaterEqual \<Rightarrow> True
      | _ \<Rightarrow> False)"

definition scalar_result :: "scalar_constant option option \<Rightarrow> 'w \<Rightarrow> ('o, 'w) effect \<Rightarrow> ('o, 'w) effect" where
  "scalar_result r w other =
     (case r of None \<Rightarrow> other | Some None \<Rightarrow> Fails Arithmetic w | Some (Some c) \<Rightarrow> Yields [ScalarVal c] w)"

definition evaluate ::
  "('o, 'w) machine \<Rightarrow> flow_type list \<Rightarrow> type_id list \<Rightarrow> 'o val flow_operation \<Rightarrow> 'w \<Rightarrow> ('o, 'w) effect" where
  "evaluate M types ts oper w =
     (case oper of
        Immediate im \<Rightarrow>
          (case ts of
             [t] \<Rightarrow> Yields [case constant_from_immediate im t types of Some c \<Rightarrow> ScalarVal c | None \<Rightarrow> opaque_immediate M im t] w
           | _ \<Rightarrow> Invalid)
      | Unary op x \<Rightarrow>
          (case x of ScalarVal c \<Rightarrow> scalar_result (language_unary op c) w (perform M ts oper w) | _ \<Rightarrow> perform M ts oper w)
      | Binary op x y \<Rightarrow>
          (let other = if pure_operator op then Yields [opaque_binary M op x y] w else perform M ts oper w in
           case (x, y) of (ScalarVal a, ScalarVal b) \<Rightarrow> scalar_result (language_binary op a b) w other | _ \<Rightarrow> other)
      | Select c x y \<Rightarrow> (case c of ScalarVal (ConstBool b) \<Rightarrow> Yields [if b then x else y] w | _ \<Rightarrow> Invalid)
      | Cast x t cast \<Rightarrow>
          (case x of
             ScalarVal _ \<Rightarrow> if cast = ExactCast \<and> of_type types t x then Yields [x] w else perform M ts oper w
           | _ \<Rightarrow> perform M ts oper w)
      | Check c failure _ \<Rightarrow> (case c of ScalarVal (ConstBool b) \<Rightarrow> if b then Yields [] w else Fails failure w | _ \<Rightarrow> Invalid)
      | _ \<Rightarrow> perform M ts oper w)"

subsection \<open>Execution\<close>

fun bind_values :: "(value_id \<Rightarrow> type_id option) \<Rightarrow> flow_type list \<Rightarrow> 'o env \<Rightarrow> value_id list \<Rightarrow> 'o val list \<Rightarrow> 'o env option" where
  "bind_values ty types env [] [] = Some env"
| "bind_values ty types env (v # vs) (x # xs) =
     (case ty v of
        None \<Rightarrow> None
      | Some t \<Rightarrow> if of_type types t x then bind_values ty types (env(v \<mapsto> x)) vs xs else None)"
| "bind_values ty types env _ _ = None"

definition declared_type :: "flow_function \<Rightarrow> value_id \<Rightarrow> type_id option" where
  "declared_type f v = map_option value_type (list_get (value_records f) (unat v))"

definition all_defined :: "'o env \<Rightarrow> value_id list \<Rightarrow> bool" where
  "all_defined env vs \<longleftrightarrow> list_all (\<lambda>v. env v \<noteq> None) vs"

datatype (plugins only: code size) ('o, 'w) progress = Next "'o env" 'w | Failing failure_kind 'w | Wrong

definition exec_instruction ::
  "('o, 'w) machine \<Rightarrow> flow_type list \<Rightarrow> (value_id \<Rightarrow> type_id option) \<Rightarrow> instruction \<Rightarrow> 'o env \<Rightarrow> 'w \<Rightarrow> ('o, 'w) progress" where
  "exec_instruction M types ty i env w =
     (if all_defined env (operation_operands (operation i)) \<and> list_all (\<lambda>r. ty r \<noteq> None) (results i) then
        case evaluate M types (map (\<lambda>r. the (ty r)) (results i)) (map_flow_operation (\<lambda>v. the (env v)) (operation i)) w of
          Yields xs w' \<Rightarrow> (case bind_values ty types env (results i) xs of None \<Rightarrow> Wrong | Some env' \<Rightarrow> Next env' w')
        | Fails k w' \<Rightarrow> Failing k w'
        | Invalid \<Rightarrow> Wrong
      else Wrong)"

primrec exec_instructions ::
  "('o, 'w) machine \<Rightarrow> flow_type list \<Rightarrow> (value_id \<Rightarrow> type_id option) \<Rightarrow> instruction list \<Rightarrow> 'o env \<Rightarrow> 'w \<Rightarrow> ('o, 'w) progress" where
  "exec_instructions M types ty [] env w = Next env w"
| "exec_instructions M types ty (i # is) env w =
     (case exec_instruction M types ty i env w of
        Next env' w' \<Rightarrow> exec_instructions M types ty is env' w'
      | Failing k w' \<Rightarrow> Failing k w'
      | Wrong \<Rightarrow> Wrong)"

datatype (plugins only: code size) ('o, 'w) ending =
    Returned "'o val list" 'w
  | TailCalled function_id "'o val list" 'w
  | Trapped failure_kind "'o val option" 'w
  | FailedWith failure_kind 'w
  | Running 'w
  | Stuck

datatype (plugins only: code size) ('o, 'w) transfer = Goto block_id "'o val list" "'o env" 'w | Ends "('o, 'w) ending"

definition switch_key :: "('o, 'w) machine \<Rightarrow> 'o val \<Rightarrow> u128 option" where
  "switch_key M x =
     (case x of
        ScalarVal (ConstBool b) \<Rightarrow> Some (of_bool b)
      | ScalarVal (ConstInteger _ _ raw) \<Rightarrow> Some raw
      | ScalarVal _ \<Rightarrow> None
      | OpaqueVal u \<Rightarrow> opaque_key M u)"

definition exec_terminator :: "('o, 'w) machine \<Rightarrow> terminator \<Rightarrow> 'o env \<Rightarrow> 'w \<Rightarrow> ('o, 'w) transfer" where
  "exec_terminator M t env w =
     (if \<not> all_defined env (terminator_operands t) then Ends Stuck
      else let val = (\<lambda>v. the (env v)) in
        case t of
          Jump b args \<Rightarrow> Goto b (map val args) env w
        | Branch c b args b' args' \<Rightarrow>
            (case val c of
               ScalarVal (ConstBool x) \<Rightarrow> if x then Goto b (map val args) env w else Goto b' (map val args') env w
             | _ \<Rightarrow> Ends Stuck)
        | Switch v cases d args \<Rightarrow>
            (case switch_key M (val v) of
               None \<Rightarrow> Ends Stuck
             | Some k \<Rightarrow>
                 (case find (\<lambda>c. case_value c = k) cases of
                    None \<Rightarrow> Goto d (map val args) env w
                  | Some c \<Rightarrow> Goto (case_target c) (map val (case_arguments c)) env w))
        | Return args \<Rightarrow> Ends (Returned (map val args) w)
        | Suspend s v b \<Rightarrow> Goto b [] env (suspended M s (val v) w)
        | TailCall g args \<Rightarrow> Ends (TailCalled g (map val args) w)
        | Trap k detail \<Rightarrow> Ends (Trapped k (map_option val detail) w)
        | Unreachable \<Rightarrow> Ends Stuck)"

definition exec_block ::
  "('o, 'w) machine \<Rightarrow> flow_type list \<Rightarrow> (value_id \<Rightarrow> type_id option) \<Rightarrow> flow_block \<Rightarrow> 'o val list \<Rightarrow> 'o env \<Rightarrow> 'w \<Rightarrow> ('o, 'w) transfer" where
  "exec_block M types ty b args env w =
     (case bind_values ty types env (parameters b) args of
        None \<Rightarrow> Ends Stuck
      | Some env \<Rightarrow>
          (case exec_instructions M types ty (instructions b) env w of
             Wrong \<Rightarrow> Ends Stuck
           | Failing k w \<Rightarrow> Ends (FailedWith k w)
           | Next env w \<Rightarrow> exec_terminator M (terminator b) env w))"

definition exec_step ::
  "('o, 'w) machine \<Rightarrow> flow_type list \<Rightarrow> flow_function \<Rightarrow> block_id \<Rightarrow> 'o val list \<Rightarrow> 'o env \<Rightarrow> 'w \<Rightarrow> ('o, 'w) transfer" where
  "exec_step M types f b args env w =
     (case list_get (blocks f) (unat b) of
        None \<Rightarrow> Ends Stuck
      | Some block \<Rightarrow> exec_block M types (declared_type f) block args env w)"

primrec run ::
  "('o, 'w) machine \<Rightarrow> flow_type list \<Rightarrow> flow_function \<Rightarrow> nat \<Rightarrow> block_id \<Rightarrow> 'o val list \<Rightarrow> 'o env \<Rightarrow> 'w \<Rightarrow> ('o, 'w) ending" where
  "run M types f 0 b args env w = Running w"
| "run M types f (Suc n) b args env w =
     (case exec_step M types f b args env w of
        Goto b' args' env' w' \<Rightarrow> run M types f n b' args' env' w'
      | Ends e \<Rightarrow> e)"

definition invoke :: "('o, 'w) machine \<Rightarrow> flow_type list \<Rightarrow> flow_function \<Rightarrow> nat \<Rightarrow> 'o val list \<Rightarrow> 'w \<Rightarrow> ('o, 'w) ending" where
  "invoke M types f n args w =
     (case bind_values (declared_type f) types (\<lambda>_. None) (function_parameters f) args of
        None \<Rightarrow> Stuck
      | Some env \<Rightarrow> run M types f n (entry f) [] env w)"

subsection \<open>Refinement of functions\<close>

text \<open>A function refines another when every run of the other that is not stuck is a run of it, with the
  same result, the same world and the same number of blocks.\<close>

definition refines_function :: "('o, 'w) machine \<Rightarrow> flow_type list \<Rightarrow> flow_function \<Rightarrow> flow_function \<Rightarrow> bool" where
  "refines_function M types f g \<longleftrightarrow>
     (\<forall>n args w. invoke M types f n args w \<noteq> Stuck \<longrightarrow> invoke M types g n args w = invoke M types f n args w)"

lemma refines_trans: "refines_function M types f g \<Longrightarrow> refines_function M types g h \<Longrightarrow> refines_function M types f h"
  by (simp add: refines_function_def)

text \<open>Simulation, block by block: related states step to the same end or to related states.\<close>

locale block_simulation =
  fixes M :: "('o, 'w) machine" and types :: "flow_type list" and f g :: flow_function
    and rel :: "block_id \<Rightarrow> 'o env \<Rightarrow> block_id \<Rightarrow> 'o env \<Rightarrow> bool"
  assumes rel_start: "bind_values (declared_type f) types (\<lambda>_. None) (function_parameters f) args = Some env \<Longrightarrow>
      \<exists>env'. bind_values (declared_type g) types (\<lambda>_. None) (function_parameters g) args = Some env' \<and> rel (entry f) env (entry g) env'"
    and rel_end: "rel b env b' env' \<Longrightarrow> exec_step M types f b xs env w = Ends e \<Longrightarrow> e \<noteq> Stuck \<Longrightarrow>
      exec_step M types g b' xs env' w = Ends e"
    and rel_goto: "rel b env b' env' \<Longrightarrow> exec_step M types f b xs env w = Goto c ys env1 w1 \<Longrightarrow>
      \<exists>c' env1'. exec_step M types g b' xs env' w = Goto c' ys env1' w1 \<and> rel c env1 c' env1'"
begin

lemma run_simulation:
  "rel b env b' env' \<Longrightarrow> run M types f n b xs env w \<noteq> Stuck \<Longrightarrow> run M types g n b' xs env' w = run M types f n b xs env w"
proof (induction n arbitrary: b env b' env' xs w)
  case (Suc n)
  show ?case
  proof (cases "exec_step M types f b xs env w")
    case (Goto c ys env1 w1)
    from rel_goto [OF Suc.prems(1) this] obtain c' env1'
      where "exec_step M types g b' xs env' w = Goto c' ys env1' w1" "rel c env1 c' env1'" by blast
    with Goto Suc.IH [of c env1 c' env1' ys w1] Suc.prems(2) show ?thesis by simp
  next
    case (Ends e)
    with rel_end [OF Suc.prems(1) this] Suc.prems(2) show ?thesis by simp
  qed
qed simp

lemma simulation_refines: "refines_function M types f g"
  unfolding refines_function_def
proof (intro allI impI)
  fix n args w assume run: "invoke M types f n args w \<noteq> Stuck"
  then obtain env where env: "bind_values (declared_type f) types (\<lambda>_. None) (function_parameters f) args = Some env"
    by (auto simp: invoke_def split: option.splits)
  from rel_start [OF env] obtain env' where "bind_values (declared_type g) types (\<lambda>_. None) (function_parameters g) args = Some env'"
    and "rel (entry f) env (entry g) env'" by blast
  with run env run_simulation show "invoke M types g n args w = invoke M types f n args w"
    by (simp add: invoke_def)
qed

end

text \<open>Every function simulates itself; the functions a pass changes are related to its input by
  \<open>Flow_Constants\<close> (instructions replaced in place) and \<open>Flow_Compaction\<close> (blocks and values renumbered).\<close>

interpretation unchanged: block_simulation M types f f "\<lambda>b env b' env'. b' = b \<and> env' = env"
  for M :: "('o, 'w) machine" and types and f
  by unfold_locales auto

lemma refines_refl [simp]: "refines_function M types f f"
  by (rule unchanged.simulation_refines)

subsection \<open>Binding\<close>

lemma bind_values_length: "bind_values ty types env vs xs = Some env' \<Longrightarrow> length xs = length vs"
  by (induction ty types env vs xs rule: bind_values.induct) (auto split: option.splits if_splits)

lemma bind_values_other: "bind_values ty types env vs xs = Some env' \<Longrightarrow> v \<notin> set vs \<Longrightarrow> env' v = env v"
  by (induction ty types env vs xs rule: bind_values.induct) (auto split: option.splits if_splits)

text \<open>Every value of an environment belongs to its declared type.\<close>

definition typed_env :: "(value_id \<Rightarrow> type_id option) \<Rightarrow> flow_type list \<Rightarrow> 'o env \<Rightarrow> bool" where
  "typed_env ty types env \<longleftrightarrow> (\<forall>v x. env v = Some x \<longrightarrow> (\<exists>t. ty v = Some t \<and> of_type types t x))"

lemma typed_env_empty [simp]: "typed_env ty types (\<lambda>_. None)"
  by (simp add: typed_env_def)

lemma typed_env_bind: "bind_values ty types env vs xs = Some env' \<Longrightarrow> typed_env ty types env \<Longrightarrow> typed_env ty types env'"
proof (induction ty types env vs xs rule: bind_values.induct)
  case (2 ty types env v vs x xs)
  then obtain t where t: "ty v = Some t" "of_type types t x" by (auto split: option.splits if_splits)
  with "2.prems" have "typed_env ty types (env(v \<mapsto> x))" by (auto simp: typed_env_def)
  moreover have "bind_values ty types (env(v \<mapsto> x)) vs xs = Some env'" using "2.prems"(1) t by simp
  ultimately show ?case using "2.IH" [OF t(1) t(2)] by blast
qed auto

lemma exec_instruction_Next:
  assumes "exec_instruction M types ty i env w = Next env' w'"
  obtains xs where "all_defined env (operation_operands (operation i))" and "\<forall>r \<in> set (results i). ty r \<noteq> None"
    and "evaluate M types (map (\<lambda>r. the (ty r)) (results i)) (map_flow_operation (\<lambda>v. the (env v)) (operation i)) w = Yields xs w'"
    and "bind_values ty types env (results i) xs = Some env'"
  using assms by (auto simp: exec_instruction_def list_all_iff split: if_splits effect.splits option.splits)

lemma exec_instructions_append:
  "exec_instructions M types ty (is @ js) env w =
    (case exec_instructions M types ty is env w of
       Next env' w' \<Rightarrow> exec_instructions M types ty js env' w' | Failing k w' \<Rightarrow> Failing k w' | Wrong \<Rightarrow> Wrong)"
  by (induction "is" arbitrary: env w) (auto split: progress.splits)

lemma typed_env_instruction:
  "exec_instruction M types ty i env w = Next env' w' \<Longrightarrow> typed_env ty types env \<Longrightarrow> typed_env ty types env'"
  by (erule exec_instruction_Next) (rule typed_env_bind)

lemma typed_env_instructions:
  "exec_instructions M types ty is env w = Next env' w' \<Longrightarrow> typed_env ty types env \<Longrightarrow> typed_env ty types env'"
  by (induction "is" arbitrary: env w) (auto split: progress.splits dest: typed_env_instruction)

lemma exec_terminator_env: "exec_terminator M t env w = Goto b xs env' w' \<Longrightarrow> env' = env \<and> b \<in> set (edge_targets t)"
  by (auto simp: exec_terminator_def edge_targets_def Let_def find_Some_iff
      split: if_splits terminator.splits val.splits scalar_constant.splits option.splits)

end
