(* ===== verification/Flow_Constants.thy ===== *)
theory Flow_Constants
  imports Flow_Semantics
begin

text \<open>
  Constant folding and constant control flow preserve behaviour. A table of constants is exact for a
  function when it holds precisely the values defined by scalar immediates; as every value has one
  definition, such a value is that constant in every environment a run meets.
\<close>

subsection \<open>Definitions of a function\<close>

definition block_definitions :: "flow_block \<Rightarrow> value_id list" where
  "block_definitions b = parameters b @ concat (map results (instructions b))"

definition all_instructions :: "flow_function \<Rightarrow> instruction list" where
  "all_instructions f = concat (map instructions (blocks f))"

definition definitions_of :: "flow_function \<Rightarrow> value_id list" where
  "definitions_of f = function_parameters f @ concat (map block_definitions (blocks f))"

definition unique_definitions :: "flow_function \<Rightarrow> bool" where
  "unique_definitions f \<longleftrightarrow> distinct (definitions_of f)"

definition immediate_constant :: "flow_type list \<Rightarrow> flow_function \<Rightarrow> value_id \<Rightarrow> scalar_constant \<Rightarrow> bool" where
  "immediate_constant types f v c \<longleftrightarrow>
     (\<exists>i \<in> set (all_instructions f). \<exists>im t. operation i = Immediate im \<and> result_type_of f i = Some (v, t) \<and>
       constant_from_immediate im t types = Some c)"

definition exact_table :: "flow_type list \<Rightarrow> flow_function \<Rightarrow> constant_table \<Rightarrow> bool" where
  "exact_table types f cs \<longleftrightarrow>
     length cs = length (value_records f) \<and> (\<forall>v c. constant_at v cs = Some c \<longleftrightarrow> immediate_constant types f v c)"

definition constant_env :: "flow_type list \<Rightarrow> flow_function \<Rightarrow> 'o env \<Rightarrow> bool" where
  "constant_env types f env \<longleftrightarrow> (\<forall>v c. immediate_constant types f v c \<longrightarrow> env v = None \<or> env v = Some (ScalarVal c))"

lemma distinct_concat_unique:
  "distinct (concat (map g xs)) \<Longrightarrow> x \<in> set xs \<Longrightarrow> y \<in> set xs \<Longrightarrow> v \<in> set (g x) \<Longrightarrow> v \<in> set (g y) \<Longrightarrow> x = y"
proof (induction xs)
  case (Cons a xs)
  then show ?case by auto
qed simp

lemma distinct_concat_member: "distinct (concat (map g xs)) \<Longrightarrow> x \<in> set xs \<Longrightarrow> distinct (g x)"
  by (induction xs) auto

lemma unique_results:
  assumes "unique_definitions f" "i \<in> set (all_instructions f)" "j \<in> set (all_instructions f)" "v \<in> set (results i)" "v \<in> set (results j)"
  shows "i = j"
proof -
  have d: "distinct (concat (map block_definitions (blocks f)))" using assms(1) by (simp add: unique_definitions_def definitions_of_def)
  from assms(2,3) obtain a b where a: "a \<in> set (blocks f)" "i \<in> set (instructions a)" and b: "b \<in> set (blocks f)" "j \<in> set (instructions b)"
    by (auto simp: all_instructions_def)
  with assms(4,5) have "v \<in> set (block_definitions a)" "v \<in> set (block_definitions b)" by (auto simp: block_definitions_def)
  then have ab: "a = b" by (rule distinct_concat_unique [OF d a(1) b(1)])
  have "distinct (concat (map results (instructions a)))"
    using distinct_concat_member [OF d a(1)] by (simp add: block_definitions_def)
  from distinct_concat_unique [OF this a(2) b(2) [folded ab] assms(4,5)] show ?thesis .
qed

lemma parameter_not_result:
  assumes "unique_definitions f" "i \<in> set (all_instructions f)" "v \<in> set (results i)"
  shows "v \<notin> set (function_parameters f)" and "b \<in> set (blocks f) \<Longrightarrow> v \<notin> set (parameters b)"
proof -
  from assms(2) obtain a where a: "a \<in> set (blocks f)" "i \<in> set (instructions a)" by (auto simp: all_instructions_def)
  with assms(3) have v: "v \<in> set (block_definitions a)" by (auto simp: block_definitions_def)
  with assms(1) a(1) show "v \<notin> set (function_parameters f)" by (auto simp: unique_definitions_def definitions_of_def)
  have d: "distinct (concat (map block_definitions (blocks f)))" using assms(1) by (simp add: unique_definitions_def definitions_of_def)
  show "v \<notin> set (parameters b)" if b: "b \<in> set (blocks f)"
  proof
    assume in_b: "v \<in> set (parameters b)"
    then have "v \<in> set (block_definitions b)" by (simp add: block_definitions_def)
    then have "b = a" using v by (rule distinct_concat_unique [OF d b a(1)])
    with distinct_concat_member [OF d b] in_b a(2) assms(3) show False by (auto simp: block_definitions_def)
  qed
qed

lemma result_type_of_Some:
  "result_type_of f i = Some (r, t) \<longleftrightarrow> results i = [r] \<and> declared_type f r = Some t"
  by (auto simp: result_type_of_def single_result_def declared_type_def split: list.splits option.splits)

lemma result_type_of_blocks [simp]: "result_type_of (f\<lparr>blocks := bs\<rparr>) i = result_type_of f i"
  by (simp add: result_type_of_def)

lemma declared_type_blocks [simp]: "declared_type (f\<lparr>blocks := bs\<rparr>) = declared_type f"
  by (simp add: declared_type_def fun_eq_iff)

lemma unique_constant:
  assumes "unique_definitions f" "immediate_constant types f v c" "immediate_constant types f v d"
  shows "c = d"
proof -
  from assms(2,3) obtain i j im im' t t' where
    i: "i \<in> set (all_instructions f)" "operation i = Immediate im" "result_type_of f i = Some (v, t)" "constant_from_immediate im t types = Some c"
    and j: "j \<in> set (all_instructions f)" "operation j = Immediate im'" "result_type_of f j = Some (v, t')" "constant_from_immediate im' t' types = Some d"
    unfolding immediate_constant_def by blast
  then have "i = j" using unique_results [OF assms(1) i(1) j(1), of v] by (simp add: result_type_of_Some)
  with i j show ?thesis by simp
qed

lemma constant_kind: "immediate_constant types f v c \<Longrightarrow> \<exists>k. constant_of_kind k c"
  unfolding immediate_constant_def by (blast dest: constant_from_immediate_kind)

subsection \<open>Environments of a run\<close>

lemma constant_env_params:
  assumes "unique_definitions f" "bind_values ty types env vs xs = Some env'" "constant_env types f env"
    and vs: "vs = function_parameters f \<or> (\<exists>b \<in> set (blocks f). vs = parameters b)"
  shows "constant_env types f env'"
  unfolding constant_env_def
proof (intro allI impI)
  fix v c assume c: "immediate_constant types f v c"
  then obtain i where "i \<in> set (all_instructions f)" "v \<in> set (results i)" by (auto simp: immediate_constant_def result_type_of_Some)
  then have "v \<notin> set vs" using vs parameter_not_result [OF assms(1)] by blast
  then have "env' v = env v" using bind_values_other [OF assms(2)] by blast
  with c assms(3) show "env' v = None \<or> env' v = Some (ScalarVal c)" by (simp add: constant_env_def)
qed

lemma constant_env_instruction:
  assumes u: "unique_definitions f" and i: "i \<in> set (all_instructions f)"
    and ex: "exec_instruction M types (declared_type f) i env w = Next env' w'" and env: "constant_env types f env"
  shows "constant_env types f env'"
  unfolding constant_env_def
proof (intro allI impI)
  fix v c assume c: "immediate_constant types f v c"
  then obtain j im t where j: "j \<in> set (all_instructions f)" "operation j = Immediate im" "results j = [v]" "declared_type f v = Some t"
      "constant_from_immediate im t types = Some c"
    unfolding immediate_constant_def result_type_of_Some by blast
  from ex obtain xs where ev: "evaluate M types (map (\<lambda>r. the (declared_type f r)) (results i))
        (map_flow_operation (\<lambda>v. the (env v)) (operation i)) w = Yields xs w'"
      and b: "bind_values (declared_type f) types env (results i) xs = Some env'" by (rule exec_instruction_Next)
  show "env' v = None \<or> env' v = Some (ScalarVal c)"
  proof (cases "v \<in> set (results i)")
    case True
    then have "i = j" using unique_results [OF u i j(1)] j(3) by simp
    then show ?thesis using ev b j by (auto simp: evaluate_def split: if_splits)
  next
    case False
    then have "env' v = env v" by (rule bind_values_other [OF b])
    with c env show ?thesis by (simp add: constant_env_def)
  qed
qed

lemma constant_env_instructions:
  "unique_definitions f \<Longrightarrow> set is \<subseteq> set (all_instructions f) \<Longrightarrow>
    exec_instructions M types (declared_type f) is env w = Next env' w' \<Longrightarrow> constant_env types f env \<Longrightarrow> constant_env types f env'"
  by (induction "is" arbitrary: env w) (auto split: progress.splits dest: constant_env_instruction)

text \<open>The invariant of the environments that a run of a function meets.\<close>

definition run_env :: "flow_type list \<Rightarrow> flow_function \<Rightarrow> 'o env \<Rightarrow> bool" where
  "run_env types f env \<longleftrightarrow> constant_env types f env \<and> typed_env (declared_type f) types env"

lemma run_env_start:
  "unique_definitions f \<Longrightarrow> bind_values (declared_type f) types (\<lambda>_. None) (function_parameters f) xs = Some env \<Longrightarrow> run_env types f env"
  unfolding run_env_def
  by (rule conjI, rule constant_env_params [where env = "\<lambda>_. None"]) (auto simp: constant_env_def intro: typed_env_bind [where env = "\<lambda>_. None"])

lemma run_env_params:
  "unique_definitions f \<Longrightarrow> b \<in> set (blocks f) \<Longrightarrow> run_env types f env \<Longrightarrow>
    bind_values (declared_type f) types env (parameters b) xs = Some env' \<Longrightarrow> run_env types f env'"
  unfolding run_env_def by (blast intro: constant_env_params typed_env_bind)

lemma run_env_instructions:
  "unique_definitions f \<Longrightarrow> set is \<subseteq> set (all_instructions f) \<Longrightarrow> run_env types f env \<Longrightarrow>
    exec_instructions M types (declared_type f) is env w = Next env' w' \<Longrightarrow> run_env types f env'"
  unfolding run_env_def by (blast intro: constant_env_instructions typed_env_instructions)

lemma block_instructions: "b \<in> set (blocks f) \<Longrightarrow> set (instructions b) \<subseteq> set (all_instructions f)"
  by (auto simp: all_instructions_def)

lemma run_env_block:
  assumes "unique_definitions f" "b \<in> set (blocks f)" "run_env types f env"
    and "exec_block M types (declared_type f) b xs env w = Goto c ys env' w'"
  shows "run_env types f env'"
proof -
  from assms(4) obtain env1 env2 w2 where "bind_values (declared_type f) types env (parameters b) xs = Some env1"
    and "exec_instructions M types (declared_type f) (instructions b) env1 w = Next env2 w2"
    and "exec_terminator M (terminator b) env2 w2 = Goto c ys env' w'"
    by (auto simp: exec_block_def split: option.splits progress.splits)
  with run_env_params [OF assms(1-3)] run_env_instructions [OF assms(1) block_instructions [OF assms(2)]] exec_terminator_env
  show ?thesis by metis
qed

subsection \<open>Replacing blocks\<close>

definition block_refines :: "('o, 'w) machine \<Rightarrow> flow_type list \<Rightarrow> flow_function \<Rightarrow> flow_block \<Rightarrow> flow_block \<Rightarrow> bool" where
  "block_refines M types f b c \<longleftrightarrow>
     (\<forall>xs env w. run_env types f env \<longrightarrow> exec_block M types (declared_type f) b xs env w \<noteq> Ends Stuck \<longrightarrow>
       exec_block M types (declared_type f) c xs env w = exec_block M types (declared_type f) b xs env w)"

lemma block_refines_refl [simp]: "block_refines M types f b b"
  by (simp add: block_refines_def)

lemma replace_simulation:
  assumes u: "unique_definitions f" and bs: "list_all2 (block_refines M types f) (blocks f) bs"
  shows "block_simulation M types f (f\<lparr>blocks := bs\<rparr>) (\<lambda>b env c env'. c = b \<and> env' = env \<and> run_env types f env)"
proof -
  have step: "exec_step M types (f\<lparr>blocks := bs\<rparr>) b xs env w = exec_step M types f b xs env w \<and>
      (\<forall>c ys env' w'. exec_step M types f b xs env w = Goto c ys env' w' \<longrightarrow> run_env types f env')"
    if env: "run_env types f env" and ns: "exec_step M types f b xs env w \<noteq> Ends Stuck" for b xs env w
  proof -
    from ns obtain blk where blk: "list_get (blocks f) (unat b) = Some blk" by (auto simp: exec_step_def split: option.splits)
    then have k: "unat b < length (blocks f)" "blk = blocks f ! unat b" by (auto simp: list_get_def split: if_splits)
    with bs have "block_refines M types f blk (bs ! unat b)" "unat b < length bs" by (auto simp: list_all2_conv_all_nth)
    moreover have "blk \<in> set (blocks f)" using k by simp
    ultimately show ?thesis using env ns blk k run_env_block [OF u \<open>blk \<in> set (blocks f)\<close> env, of M xs w]
      by (auto simp: exec_step_def list_get_def block_refines_def)
  qed
  have goto: "exec_step M types (f\<lparr>blocks := bs\<rparr>) b xs env w = Goto c ys env1 w1 \<and> run_env types f env1"
    if "run_env types f env" "exec_step M types f b xs env w = Goto c ys env1 w1" for b xs env w c ys env1 w1
    using step [OF that(1), of b xs w] that(2) by simp
  show ?thesis
  proof unfold_locales
    fix xs and env :: "'a env" assume "bind_values (declared_type f) types (\<lambda>_. None) (function_parameters f) xs = Some env"
    then show "\<exists>env'. bind_values (declared_type (f\<lparr>blocks := bs\<rparr>)) types (\<lambda>_. None) (function_parameters (f\<lparr>blocks := bs\<rparr>)) xs = Some env' \<and>
        entry (f\<lparr>blocks := bs\<rparr>) = entry f \<and> env' = env \<and> run_env types f env"
      using run_env_start [OF u] by simp
  next
    fix b and env :: "'a env" and b' env' xs w e
    assume "b' = b \<and> env' = env \<and> run_env types f env" "exec_step M types f b xs env w = Ends e" "e \<noteq> Stuck"
    then show "exec_step M types (f\<lparr>blocks := bs\<rparr>) b' xs env' w = Ends e" using step [of env b xs w] by simp
  next
    fix b and env :: "'a env" and b' env' xs w c ys env1 w1
    assume "b' = b \<and> env' = env \<and> run_env types f env" "exec_step M types f b xs env w = Goto c ys env1 w1"
    then show "\<exists>c' env1'. exec_step M types (f\<lparr>blocks := bs\<rparr>) b' xs env' w = Goto c' ys env1' w1 \<and>
        c' = c \<and> env1' = env1 \<and> run_env types f env1"
      using goto [of env b xs w c ys env1 w1] by simp
  qed
qed

lemma replace_refines:
  "unique_definitions f \<Longrightarrow> list_all2 (block_refines M types f) (blocks f) bs \<Longrightarrow> refines_function M types f (f\<lparr>blocks := bs\<rparr>)"
  by (rule block_simulation.simulation_refines [OF replace_simulation])

subsection \<open>Seeding a table\<close>

definition constant_among :: "flow_type list \<Rightarrow> flow_function \<Rightarrow> instruction set \<Rightarrow> value_id \<Rightarrow> scalar_constant \<Rightarrow> bool" where
  "constant_among types f S v c \<longleftrightarrow>
     (\<exists>i \<in> S. \<exists>im t. operation i = Immediate im \<and> result_type_of f i = Some (v, t) \<and> constant_from_immediate im t types = Some c)"

definition table_among :: "flow_type list \<Rightarrow> flow_function \<Rightarrow> instruction set \<Rightarrow> constant_table \<Rightarrow> bool" where
  "table_among types f S cs \<longleftrightarrow>
     S \<subseteq> set (all_instructions f) \<and> length cs = length (value_records f) \<and>
     (\<forall>v c. constant_at v cs = Some c \<longleftrightarrow> constant_among types f S v c)"

lemma constant_at_update:
  "unat r < length cs \<Longrightarrow> constant_at v (cs[unat r := Some c]) = (if v = r then Some c else constant_at v cs)"
  by (auto simp: constant_at_def list_get_def nth_list_update word_unat_eq_iff)

lemma seed_instruction_table:
  assumes u: "unique_definitions f" and tab: "table_among types f S cs" and i: "i \<in> set (all_instructions f)"
  shows "table_among types f (insert i S) (seed_instruction f types cs i)"
proof (cases "\<exists>im r t c. operation i = Immediate im \<and> result_type_of f i = Some (r, t) \<and> constant_from_immediate im t types = Some c")
  case True
  then obtain im r t c where c: "operation i = Immediate im" "result_type_of f i = Some (r, t)" "constant_from_immediate im t types = Some c"
    by blast
  then have seed: "seed_instruction f types cs i = cs[unat r := Some c]" by (simp add: seed_instruction_def)
  have r: "unat r < length cs" using c(2) tab
    by (auto simp: result_type_of_Some declared_type_def list_get_def table_among_def split: if_splits)
  have now: "constant_among types f (insert i S) v d \<longleftrightarrow> (if v = r then d = c else constant_among types f S v d)" for v d
  proof (cases "v = r")
    case True
    have "j = i" if "j \<in> insert i S" "result_type_of f j = Some (r, t')" for j t'
      using unique_results [OF u _ i, of j r] that i c(2) tab by (auto simp: result_type_of_Some table_among_def)
    then have "constant_among types f (insert i S) r d \<longleftrightarrow> constant_among types f {i} r d"
      unfolding constant_among_def by blast
    with c True show ?thesis by (auto simp: constant_among_def)
  next
    case False
    with c show ?thesis by (auto simp: constant_among_def)
  qed
  show ?thesis using tab i constant_at_update [OF r] unfolding seed table_among_def now by auto
next
  case False
  then have "constant_among types f (insert i S) = constant_among types f S" by (auto simp: constant_among_def fun_eq_iff)
  moreover have "seed_instruction f types cs i = cs"
    using False by (auto simp: seed_instruction_def split: flow_operation.split option.split)
  ultimately show ?thesis using tab i by (simp add: table_among_def)
qed

lemma seed_exact:
  assumes u: "unique_definitions f" and ret: "returns (seed_immediates f types (replicate (length (value_records f)) None)) cs"
  shows "exact_table types f cs"
proof -
  let ?seen = "\<lambda>bs :: flow_block list. set (concat (map instructions bs))"
  have start: "table_among types f (?seen []) (replicate (length (value_records f)) None)"
    by (auto simp: table_among_def constant_among_def constant_at_def list_get_def)
  have block: "table_among types f (S \<union> set (instructions b)) cs'"
    if S: "table_among types f S cs" and b: "b \<in> set (blocks f)"
      and r: "returns (m_each (\<lambda>cs i. m_then checkpoint (\<lambda>_. m_ok (seed_instruction f types cs i))) cs (instructions b)) cs'" for S b cs cs'
  proof (rule returns_each [OF r, where P = "\<lambda>zs. table_among types f (S \<union> set zs)"])
    show "table_among types f (S \<union> set []) cs" using S by simp
  next
    fix zs i c1 c2 assume "table_among types f (S \<union> set zs) c1" "i \<in> set (instructions b)"
      "returns (m_then checkpoint (\<lambda>_. m_ok (seed_instruction f types c1 i))) c2"
    then show "table_among types f (S \<union> set (zs @ [i])) c2"
      using seed_instruction_table [OF u, of types "S \<union> set zs" c1 i] block_instructions [OF b] by (auto elim!: returns_thenE)
  qed
  have "table_among types f (?seen (blocks f)) cs"
    using ret unfolding seed_immediates_def
  proof (rule returns_each [where P = "\<lambda>bs. table_among types f (?seen bs)"])
    fix bs b c1 c2 assume "table_among types f (?seen bs) c1" "b \<in> set (blocks f)"
      "returns (m_then checkpoint (\<lambda>_. m_each (\<lambda>cs i. m_then checkpoint (\<lambda>_. m_ok (seed_instruction f types cs i))) c1 (instructions b))) c2"
    then have "table_among types f (?seen bs \<union> set (instructions b)) c2" using block by (auto elim!: returns_thenE)
    then show "table_among types f (?seen (bs @ [b])) c2" by simp
  qed (rule start)
  then show ?thesis
    by (simp add: exact_table_def table_among_def immediate_constant_def constant_among_def all_instructions_def)
qed


end
