(* ===== verification/Flow_Folding.thy ===== *)
theory Flow_Folding
  imports Flow_Constants
begin

text \<open>
  Scalar constant folding preserves the behaviour of every function and ends where nothing is left to
  fold; constant control flow preserves behaviour too.
\<close>

subsection \<open>Folding one instruction\<close>

lemma immediate_of_constant:
  assumes "constant_to_immediate c t types = Some im" "constant_of_kind k c"
  shows "constant_from_immediate im t types = Some c \<and> of_type types t (ScalarVal c)"
proof -
  have "\<exists>k'. kind_at types t = Some k' \<and> constant_of_kind k' c"
    using assms by (auto simp: constant_to_immediate_def constant_of_kind_def
        split: scalar_constant.splits option.splits flow_type_kind.splits scalar_type.splits if_splits)
  with immediate_roundtrip [OF assms(1)] show ?thesis by (auto simp: of_type_def)
qed

lemma table_env:
  assumes "exact_table types f cs" "constant_env types f env" "constant_at v cs = Some c" "env v \<noteq> None"
  shows "the (env v) = ScalarVal c \<and> (\<exists>k. constant_of_kind k c)"
proof -
  have c: "immediate_constant types f v c" using assms(1,3) by (simp add: exact_table_def)
  then have "env v = None \<or> env v = Some (ScalarVal c)" using assms(2) by (simp add: constant_env_def)
  with assms(4) constant_kind [OF c] show ?thesis by auto
qed

lemma fold_evaluate:
  assumes tab: "exact_table types f cs" and env: "constant_env types f env"
    and fold: "fold_operation oper t cs types = Some im" and def: "all_defined env (operation_operands oper)"
  shows "evaluate M types [t] (map_flow_operation (\<lambda>v. the (env v)) oper) w = evaluate M types [t] (Immediate im) w"
proof -
  note known = table_env [OF tab env]
  show ?thesis
  proof (cases oper)
    case (Unary op v)
    with fold obtain a where a: "constant_at v cs = Some a" "fold_unary op a t types = Some im"
      by (auto simp: fold_operation_def bind_eq_Some_conv)
    from known [OF a(1)] def Unary obtain k where k: "the (env v) = ScalarVal a" "constant_of_kind k a"
      by (auto simp: all_defined_def operation_operands_def)
    from fold_unary_language [OF a(2) k(2)] k(1) Unary show ?thesis by (auto simp: evaluate_def scalar_result_def)
  next
    case (Binary op l r)
    with fold obtain a b where a: "constant_at l cs = Some a" "constant_at r cs = Some b" "fold_binary op a b t types = Some im"
      by (auto simp: fold_operation_def bind_eq_Some_conv)
    from known [OF a(1)] known [OF a(2)] def Binary obtain k k' where k: "the (env l) = ScalarVal a" "constant_of_kind k a"
      "the (env r) = ScalarVal b" "constant_of_kind k' b"
      by (auto simp: all_defined_def operation_operands_def)
    from fold_binary_language [OF a(3) k(2,4)] k(1,3) Binary show ?thesis by (auto simp: evaluate_def scalar_result_def Let_def)
  next
    case (Cast v to cast)
    with fold obtain c where c: "cast = ExactCast" "to = t" "constant_at v cs = Some c" "constant_to_immediate c t types = Some im"
      by (auto simp: fold_operation_def bind_eq_Some_conv split: cast_mode.splits if_splits)
    from known [OF c(3)] def Cast obtain k where k: "the (env v) = ScalarVal c" "constant_of_kind k c"
      by (auto simp: all_defined_def operation_operands_def)
    from immediate_of_constant [OF c(4) k(2)] k(1) c Cast show ?thesis by (auto simp: evaluate_def)
  next
    case (Select u x y)
    with fold obtain b c where b: "constant_at u cs = Some (ConstBool b)" "constant_at (if b then x else y) cs = Some c"
      "constant_to_immediate c t types = Some im"
      by (auto simp: fold_operation_def bind_eq_Some_conv split: option.splits scalar_constant.splits)
    from known [OF b(1)] known [OF b(2)] def Select obtain k where k: "the (env u) = ScalarVal (ConstBool b)"
      "the (env (if b then x else y)) = ScalarVal c" "constant_of_kind k c"
      by (cases b) (auto simp: all_defined_def operation_operands_def)
    from immediate_of_constant [OF b(3) k(3)] k(1,2) Select show ?thesis by (auto simp: evaluate_def)
  qed (use fold in \<open>simp_all add: fold_operation_def\<close>)
qed

lemma folded_instruction_Some:
  "folded_instruction f types cs i = Some (r, im, c) \<Longrightarrow>
    \<exists>t. \<not> is_immediate i \<and> result_type_of f i = Some (r, t) \<and> fold_operation (operation i) t cs types = Some im \<and>
      constant_from_immediate im t types = Some c"
  by (auto simp: folded_instruction_def bind_eq_Some_conv split: if_splits)

lemma fold_exec:
  assumes tab: "exact_table types f cs" and env: "constant_env types f env"
    and fold: "folded_instruction f types cs i = Some (r, im, c)"
    and ex: "exec_instruction M types (declared_type f) i env w \<noteq> Wrong"
  shows "exec_instruction M types (declared_type f) (i\<lparr>operation := Immediate im\<rparr>) env w =
    exec_instruction M types (declared_type f) i env w"
proof -
  from folded_instruction_Some [OF fold] obtain t where t: "results i = [r]" "declared_type f r = Some t"
    "fold_operation (operation i) t cs types = Some im" by (auto simp: result_type_of_Some)
  have def: "all_defined env (operation_operands (operation i))" using ex by (auto simp: exec_instruction_def split: if_splits)
  from fold_evaluate [OF tab env t(3) def, of M w] t def show ?thesis
    by (simp add: exec_instruction_def operation_operands_def [of "Immediate im"] all_defined_def cong: effect.case_cong)
qed

subsection \<open>The effect on a function\<close>

lemma is_immediate_iff: "is_immediate i \<longleftrightarrow> (\<exists>im. operation i = Immediate im)"
  by (auto simp: is_immediate_def split: flow_operation.splits)

lemma exec_replaced:
  assumes "\<And>env w env' w'. I env \<Longrightarrow> exec_instructions M types ty is env w = Next env' w' \<Longrightarrow> I env'"
    and "\<And>env w. I env \<Longrightarrow> exec_instruction M types ty i env w \<noteq> Wrong \<Longrightarrow> exec_instruction M types ty j env w = exec_instruction M types ty i env w"
    and "I env" "exec_instructions M types ty (is @ i # js) env w \<noteq> Wrong"
  shows "exec_instructions M types ty (is @ j # js) env w = exec_instructions M types ty (is @ i # js) env w"
proof (cases "exec_instructions M types ty is env w")
  case (Next env' w')
  with assms(4) have "exec_instruction M types ty i env' w' \<noteq> Wrong" by (auto simp: exec_instructions_append)
  from assms(2) [OF assms(1) [OF assms(3) Next] this] Next show ?thesis by (simp add: exec_instructions_append)
qed (simp_all add: exec_instructions_append)

lemma block_refines_instructions:
  assumes "\<And>env w. run_env types f env \<Longrightarrow> exec_instructions M types (declared_type f) (instructions b) env w \<noteq> Wrong \<Longrightarrow>
      exec_instructions M types (declared_type f) is env w = exec_instructions M types (declared_type f) (instructions b) env w"
    and "unique_definitions f" "b \<in> set (blocks f)"
  shows "block_refines M types f b (b\<lparr>instructions := is\<rparr>)"
  unfolding block_refines_def
proof (intro allI impI)
  fix xs and env :: "'a env" and w
  assume env: "run_env types f env" and ns: "exec_block M types (declared_type f) b xs env w \<noteq> Ends Stuck"
  then obtain env1 where e: "bind_values (declared_type f) types env (parameters b) xs = Some env1"
    by (auto simp: exec_block_def split: option.splits)
  have "exec_instructions M types (declared_type f) (instructions b) env1 w \<noteq> Wrong" using ns e by (auto simp: exec_block_def)
  with assms(1) [OF run_env_params [OF assms(2,3) env e]] e
  show "exec_block M types (declared_type f) (b\<lparr>instructions := is\<rparr>) xs env w = exec_block M types (declared_type f) b xs env w"
    by (simp add: exec_block_def split: progress.split)
qed

text \<open>What folding keeps: the definitions, an exact table, and behaviour.\<close>

definition fold_inv :: "('o, 'w) machine \<Rightarrow> flow_type list \<Rightarrow> flow_function \<Rightarrow> flow_function \<Rightarrow> constant_table \<Rightarrow> bool" where
  "fold_inv M types f0 f cs \<longleftrightarrow>
     (\<exists>bs. f = f0\<lparr>blocks := bs\<rparr>) \<and> definitions_of f = definitions_of f0 \<and> unique_definitions f \<and> exact_table types f cs \<and>
     refines_function M types f0 f"

lemma list_all2_split: "(\<And>x. P x x) \<Longrightarrow> P b c \<Longrightarrow> list_all2 P (pre @ b # post) (pre @ c # post)"
  by (simp add: list_all2_append list_all2_same)

lemma fold_inv_step:
  assumes inv: "fold_inv M types f0 f cs" and blk: "blocks f = pre @ b # post" and ins: "instructions b = is @ i # js"
    and fold: "folded_instruction f types cs i = Some (r, im, c)"
    and g: "g = f\<lparr>blocks := pre @ b\<lparr>instructions := is @ i\<lparr>operation := Immediate im\<rparr> # js\<rparr> # post\<rparr>"
  shows "fold_inv M types f0 g (cs[unat r := Some c])"
proof -
  let ?i = "i\<lparr>operation := Immediate im\<rparr>"
  from folded_instruction_Some [OF fold] obtain t where t: "\<not> is_immediate i" "result_type_of f i = Some (r, t)"
    "constant_from_immediate im t types = Some c" by blast
  from inv have u: "unique_definitions f" and tab: "exact_table types f cs" and ref: "refines_function M types f0 f"
    and defs: "definitions_of f = definitions_of f0" and rec: "\<exists>bs. f = f0\<lparr>blocks := bs\<rparr>" by (auto simp: fold_inv_def)
  have b: "b \<in> set (blocks f)" using blk by simp
  have sub: "set is \<subseteq> set (all_instructions f)" using block_instructions [OF b] ins by auto
  have "block_refines M types f b (b\<lparr>instructions := is @ ?i # js\<rparr>)"
  proof (rule block_refines_instructions [OF _ u b])
    fix env :: "'a env" and w
    assume "run_env types f env" and "exec_instructions M types (declared_type f) (instructions b) env w \<noteq> Wrong"
    then show "exec_instructions M types (declared_type f) (is @ ?i # js) env w =
        exec_instructions M types (declared_type f) (instructions b) env w"
      unfolding ins
    proof (rule exec_replaced [rotated 2, where I = "run_env types f"])
      show "run_env types f env'" if "run_env types f e" "exec_instructions M types (declared_type f) is e v = Next env' w'" for e v env' w'
        using run_env_instructions [OF u sub that] .
      show "exec_instruction M types (declared_type f) ?i e v = exec_instruction M types (declared_type f) i e v"
        if "run_env types f e" "exec_instruction M types (declared_type f) i e v \<noteq> Wrong" for e v
        using fold_exec [OF tab _ fold that(2)] that(1) by (simp add: run_env_def)
    qed
  qed
  then have "list_all2 (block_refines M types f) (blocks f) (pre @ b\<lparr>instructions := is @ ?i # js\<rparr> # post)"
    unfolding blk by (intro list_all2_split) simp_all
  from replace_refines [OF u this] refines_trans [OF ref] have refg: "refines_function M types f0 g" by (simp add: g)
  have gdefs: "definitions_of g = definitions_of f" using blk ins by (simp add: g definitions_of_def block_definitions_def)
  have rt: "result_type_of g j = result_type_of f j" for j by (simp add: g)
  have all: "set (all_instructions g) = insert ?i (set (all_instructions f) - {i}) \<or> set (all_instructions g) = insert ?i (set (all_instructions f))"
  proof -
    define xs ys where "xs = concat (map instructions pre) @ is" and "ys = js @ concat (map instructions post)"
    have "all_instructions f = xs @ i # ys" "all_instructions g = xs @ ?i # ys"
      using blk ins by (simp_all add: all_instructions_def g xs_def ys_def)
    then show ?thesis by (cases "i \<in> set xs \<or> i \<in> set ys") auto
  qed
  have imm: "immediate_constant types g v d \<longleftrightarrow> (if v = r then d = c else immediate_constant types f v d)" for v d
  proof -
    have new: "immediate_constant types g r c" unfolding immediate_constant_def rt using all t
      by (intro bexI [of _ ?i]) (auto simp: result_type_of_Some)
    have ug: "unique_definitions g" using u gdefs by (simp add: unique_definitions_def)
    show ?thesis
    proof (cases "v = r")
      case True
      with new unique_constant [OF ug _ new, of d] show ?thesis by auto
    next
      case False
      moreover have "result_type_of f ?i = result_type_of f i" by (simp add: result_type_of_def single_result_def)
      ultimately show ?thesis using all t unfolding immediate_constant_def rt by (auto simp: is_immediate_iff) blast+
    qed
  qed
  have rlt: "unat r < length cs" using t(2) tab
    by (auto simp: result_type_of_Some declared_type_def list_get_def exact_table_def split: if_splits)
  have "exact_table types g (cs[unat r := Some c])"
    using tab imm constant_at_update [OF rlt] by (auto simp: exact_table_def g)
  moreover have "unique_definitions g" using u gdefs by (simp add: unique_definitions_def)
  moreover have "\<exists>bs. g = f0\<lparr>blocks := bs\<rparr>" using rec g by auto
  ultimately show ?thesis using refg gdefs defs by (simp add: fold_inv_def)
qed

subsection \<open>The pass\<close>

lemma returns_map_state:
  assumes "returns (m_map_state g s xs) (ys, t)" and "P pre xs s"
    and "\<And>pre x post s y s'. P pre (x # post) s \<Longrightarrow> returns (g s x) (y, s') \<Longrightarrow> P (pre @ [y]) post s'"
  shows "P (pre @ ys) [] t"
  using assms(1,2)
proof (induction xs arbitrary: s ys pre)
  case (Cons x xs)
  from Cons.prems(1) obtain y s' ys' where "returns (g s x) (y, s')" "returns (m_map_state g s' xs) (ys', t)" "ys = y # ys'"
    by (auto elim!: returns_thenE)
  with Cons.IH [of s' ys' "pre @ [y]"] assms(3) [OF Cons.prems(2)] show ?case by simp
qed simp

lemma fold_instruction_returns:
  assumes "returns (fold_instruction l types f (cs, sink, ch) i) (i', cs', sink', ch')"
  shows "folded_instruction f types cs i = None \<and> i' = i \<and> cs' = cs \<and> ch' = ch \<or>
    (\<exists>r im c. folded_instruction f types cs i = Some (r, im, c) \<and> i' = i\<lparr>operation := Immediate im\<rparr> \<and> cs' = cs[unat r := Some c] \<and> ch')"
  using assms unfolding fold_instruction_def
  by (auto elim!: returns_thenE split: option.splits)

lemma folded_instruction_blocks [simp]: "folded_instruction (f\<lparr>blocks := bs\<rparr>) = folded_instruction f"
  by (simp add: folded_instruction_def fun_eq_iff)

text \<open>The state of a round after some blocks, and within a block after some instructions.\<close>

definition round_inv ::
  "('o, 'w) machine \<Rightarrow> flow_type list \<Rightarrow> flow_function \<Rightarrow> flow_function \<Rightarrow> constant_table \<Rightarrow>
    instruction set \<Rightarrow> flow_block list \<Rightarrow> constant_table \<Rightarrow> bool \<Rightarrow> bool" where
  "round_inv M types f0 f cs seen bs cs' ch \<longleftrightarrow>
     fold_inv M types f0 (f\<lparr>blocks := bs\<rparr>) cs' \<and>
     (\<not> ch \<longrightarrow> bs = blocks f \<and> cs' = cs \<and> (\<forall>i \<in> seen. folded_instruction f types cs i = None))"

lemma round_inv_instruction:
  assumes "round_inv M types f0 f cs seen (pre @ b\<lparr>instructions := is @ i # js\<rparr> # post) cs1 ch"
    and "returns (fold_instruction l types f (cs1, sink, ch) i) (i', cs2, sink', ch')"
  shows "round_inv M types f0 f cs (insert i seen) (pre @ b\<lparr>instructions := is @ i' # js\<rparr> # post) cs2 ch'"
proof -
  let ?f = "f\<lparr>blocks := pre @ b\<lparr>instructions := is @ i # js\<rparr> # post\<rparr>"
  have inv: "fold_inv M types f0 ?f cs1" using assms(1) by (simp add: round_inv_def)
  from fold_instruction_returns [OF assms(2)] show ?thesis
  proof (elim disjE exE conjE)
    fix r im c assume "folded_instruction f types cs1 i = Some (r, im, c)" "i' = i\<lparr>operation := Immediate im\<rparr>"
      and "cs2 = cs1[unat r := Some c]" ch'
    with fold_inv_step [OF inv, of pre "b\<lparr>instructions := is @ i # js\<rparr>" post "is" i js r im c] show ?thesis
      by (simp add: round_inv_def)
  qed (use assms(1) in \<open>auto simp: round_inv_def\<close>)
qed

lemma round_inv_block:
  assumes inv: "round_inv M types f0 f cs seen (pre @ b # post) cs1 ch"
    and ret: "returns (fold_block l types f (cs1, sink, ch) b) (b', cs2, sink', ch')"
  shows "round_inv M types f0 f cs (seen \<union> set (instructions b)) (pre @ b' # post) cs2 ch'"
proof -
  from ret obtain "is" where ret: "returns (m_map_state (fold_instruction l types f) (cs1, sink, ch) (instructions b)) (is, cs2, sink', ch')"
    and b': "b' = b\<lparr>instructions := is\<rparr>"
    unfolding fold_block_def by (auto elim!: returns_thenE)
  let ?P = "\<lambda>xs ys (cs2, sink, ch). \<exists>zs. zs @ ys = instructions b \<and>
    round_inv M types f0 f cs (seen \<union> set zs) (pre @ b\<lparr>instructions := xs @ ys\<rparr> # post) cs2 ch"
  have "?P ([] @ is) [] (cs2, sink', ch')"
  proof (rule returns_map_state [OF ret])
    show "?P [] (instructions b) (cs1, sink, ch)" using inv by simp
  next
    fix xs i ys st i' st' assume P: "?P xs (i # ys) st" and r: "returns (fold_instruction l types f st i) (i', st')"
    obtain c1 s1 h1 c2 s2 h2 where st: "st = (c1, s1, h1)" "st' = (c2, s2, h2)" by (metis prod_cases3)
    from P st obtain zs where zs: "zs @ i # ys = instructions b"
      "round_inv M types f0 f cs (seen \<union> set zs) (pre @ b\<lparr>instructions := xs @ i # ys\<rparr> # post) c1 h1" by auto
    from round_inv_instruction [OF zs(2)] r st
    have "round_inv M types f0 f cs (insert i (seen \<union> set zs)) (pre @ b\<lparr>instructions := xs @ i' # ys\<rparr> # post) c2 h2" by blast
    with zs(1) st show "?P (xs @ [i']) ys st'" by (intro case_prodI2 exI [of _ "zs @ [i]"]) auto
  qed
  with b' show ?thesis by auto
qed

lemma fold_round:
  assumes inv: "fold_inv M types f0 f cs"
    and ret: "returns (m_map_state (fold_block l types f) (cs, sink, False) (blocks f)) (bs, cs', sink', ch)"
  shows "round_inv M types f0 f cs (set (all_instructions f)) bs cs' ch"
proof -
  let ?P = "\<lambda>xs ys (cs', sink, ch). \<exists>zs. zs @ ys = blocks f \<and>
    round_inv M types f0 f cs (set (concat (map instructions zs))) (xs @ ys) cs' ch"
  have "?P ([] @ bs) [] (cs', sink', ch)"
  proof (rule returns_map_state [OF ret])
    show "?P [] (blocks f) (cs, sink, False)" using inv by (simp add: round_inv_def)
  next
    fix xs b ys st b' st' assume P: "?P xs (b # ys) st" and r: "returns (fold_block l types f st b) (b', st')"
    obtain c1 s1 h1 c2 s2 h2 where st: "st = (c1, s1, h1)" "st' = (c2, s2, h2)" by (metis prod_cases3)
    from P st obtain zs where zs: "zs @ b # ys = blocks f"
      "round_inv M types f0 f cs (set (concat (map instructions zs))) (xs @ b # ys) c1 h1" by auto
    from round_inv_block [OF zs(2)] r st
    have "round_inv M types f0 f cs (set (concat (map instructions zs)) \<union> set (instructions b)) (xs @ b' # ys) c2 h2" by blast
    with zs(1) st show "?P (xs @ [b']) ys st'" by (intro case_prodI2 exI [of _ "zs @ [b]"]) (auto simp: Un_commute)
  qed
  then show ?thesis by (simp add: all_instructions_def)
qed

lemma returns_each_False:
  "returns (m_each (\<lambda>found x. if found then m_ok True else g x) found xs) False \<Longrightarrow> \<not> found \<and> (\<forall>x \<in> set xs. returns (g x) False)"
proof (induction xs arbitrary: found)
  case (Cons x xs)
  then obtain y where y: "returns (if found then m_ok True else g x) y"
    "returns (m_each (\<lambda>found x. if found then m_ok True else g x) y xs) False" by (auto elim: returns_thenE)
  with Cons.IH [OF y(2)] show ?case by (auto split: if_splits)
qed simp

lemma has_foldable_False:
  assumes "returns (has_foldable_scalar_operation f types cs) False" and "i \<in> set (all_instructions f)"
  shows "folded_instruction f types cs i = None"
proof -
  from assms(2) obtain b where b: "b \<in> set (blocks f)" "i \<in> set (instructions b)" by (auto simp: all_instructions_def)
  from returns_each_False [OF assms(1) [unfolded has_foldable_scalar_operation_def]] b(1)
  obtain "returns (m_each (\<lambda>found i. if found then m_ok True else m_then checkpoint (\<lambda>_. m_ok (\<not> is_immediate i \<and>
    (case result_type_of f i of None \<Rightarrow> False | Some (r, t) \<Rightarrow> fold_operation (operation i) t cs types \<noteq> None)))) False (instructions b)) False"
    by (auto elim!: returns_thenE)
  from returns_each_False [OF this] b(2)
  have "returns (m_then checkpoint (\<lambda>_. m_ok (\<not> is_immediate i \<and>
    (case result_type_of f i of None \<Rightarrow> False | Some (r, t) \<Rightarrow> fold_operation (operation i) t cs types \<noteq> None)))) False" by blast
  then show ?thesis by (elim returns_thenE) (auto simp: folded_instruction_def split: option.splits)
qed

lemma fold_loop_returns:
  assumes "returns (fold_loop l maximum types f cs sink ch n) (f', sink', ch', n')" and "fold_inv M types f0 f cs"
  shows "\<exists>cs'. fold_inv M types f0 f' cs' \<and> (\<forall>i \<in> set (all_instructions f'). folded_instruction f' types cs' i = None)"
  using assms
proof (induction l maximum types f cs sink ch n rule: fold_loop.induct)
  case (1 l maximum types f cs sink ch n)
  from "1.prems"(1) obtain m bs cs1 sink1 more where m: "returns (m_or_err (checked_add_u32 n 1)
      (OptimizeResourceLimit ''optimization iterations'' (u64_of_u32 maximum))) m"
    and round: "returns (m_map_state (fold_block l types f) (cs, sink, False) (blocks f)) (bs, cs1, sink1, more)"
    and rest: "returns (if \<not> more then m_ok (f\<lparr>blocks := bs\<rparr>, sink1, ch \<or> more, m)
      else if m = maximum then m_then (has_foldable_scalar_operation (f\<lparr>blocks := bs\<rparr>) types cs1) (\<lambda>again.
        if again then m_err (OptimizeResourceLimit ''optimization iterations'' (u64_of_u32 maximum)) else m_ok (f\<lparr>blocks := bs\<rparr>, sink1, ch \<or> more, m))
      else fold_loop l maximum types (f\<lparr>blocks := bs\<rparr>) cs1 sink1 (ch \<or> more) m) (f', sink', ch', n')"
    unfolding fold_loop.simps [of l maximum types f] Let_def by (auto elim!: returns_thenE)
  from fold_round [OF "1.prems"(2) round] have inv: "fold_inv M types f0 (f\<lparr>blocks := bs\<rparr>) cs1"
    and same: "\<not> more \<Longrightarrow> bs = blocks f \<and> cs1 = cs \<and> (\<forall>i \<in> set (all_instructions f). folded_instruction f types cs i = None)"
    by (auto simp: round_inv_def)
  show ?case
  proof (cases more)
    case False
    with same rest "1.prems"(2) show ?thesis by auto
  next
    case True
    show ?thesis
    proof (cases "m = maximum")
      case True
      with rest \<open>more\<close> have "returns (has_foldable_scalar_operation (f\<lparr>blocks := bs\<rparr>) types cs1) False" "f' = f\<lparr>blocks := bs\<rparr>"
        by (auto elim!: returns_thenE split: if_splits)
      with inv has_foldable_False show ?thesis by blast
    next
      case False
      with rest True have ret: "returns (fold_loop l maximum types (f\<lparr>blocks := bs\<rparr>) cs1 sink1 (ch \<or> more) m) (f', sink', ch', n')" by simp
      show ?thesis by (rule "1.IH" [OF refl m round refl refl refl refl refl _ False ret inv]) (use True in simp)
    qed
  qed
qed

lemma fold_function_returns:
  assumes "unique_definitions f" and "returns (fold_function p l types st f) (f', st')"
  shows "\<exists>cs. fold_inv M types f f' cs \<and> (\<forall>i \<in> set (all_instructions f'). folded_instruction f' types cs i = None)"
proof -
  obtain sink ch most where st: "st = (sink, ch, most)" by (metis prod_cases3)
  from assms(2) obtain cs x where seed: "returns (seed_immediates f types (replicate (length (value_records f)) None)) cs"
    and loop: "returns (fold_loop l (maximum_iterations p) types f cs sink ch 0) (f', x)"
    unfolding fold_function_def st by (fastforce elim!: returns_thenE dest: returns_filled_vec)
  have "fold_inv M types f f cs" using assms(1) seed_exact [OF assms(1) seed]
    by (auto simp: fold_inv_def intro: exI [of _ "blocks f"])
  with fold_loop_returns [of l "maximum_iterations p" types f cs sink ch 0 f' "fst x" "fst (snd x)" "snd (snd x)" M f] loop
  show ?thesis by simp
qed

subsection \<open>Constant control flow\<close>

lemma returns_map_state_all2:
  "returns (m_map_state g s xs) (ys, t) \<Longrightarrow> list_all2 (\<lambda>x y. \<exists>s s'. returns (g s x) (y, s')) xs ys"
proof (induction xs arbitrary: s ys)
  case (Cons x xs)
  then show ?case by (fastforce elim!: returns_thenE)
qed simp

lemma select_case_find: "returns (select_case k cases) c \<Longrightarrow> c = find (\<lambda>c. case_value c = k) cases"
  by (induction cases) (auto elim!: returns_thenE split: if_splits)

lemma chosen_terminator_exec:
  assumes tab: "exact_table types f cs" and env: "constant_env types f env"
    and choice: "control_choice_of cs t = Some choice" and t': "returns (chosen_terminator t choice) t'"
    and ns: "exec_terminator M t env w \<noteq> Ends Stuck"
  shows "exec_terminator M t' env w = exec_terminator M t env w"
proof -
  have def: "all_defined env (terminator_operands t)" using ns unfolding exec_terminator_def by (rule contrapos_np) simp
  note known = table_env [OF tab env]
  show ?thesis
  proof (cases t)
    case (Branch c b args b' args')
    with choice obtain x where x: "constant_at c cs = Some (ConstBool x)" "choice = BranchChoice x"
      by (auto simp: control_choice_of_def split: option.splits scalar_constant.splits)
    from known [OF x(1)] def Branch have "the (env c) = ScalarVal (ConstBool x)" by (auto simp: all_defined_def terminator_operands_def)
    with def Branch x(2) t' show ?thesis
      by (cases x) (auto simp: chosen_terminator_def exec_terminator_def all_defined_def terminator_operands_def Let_def)
  next
    case (Switch v cases d args)
    with choice obtain k x where k: "choice = SwitchChoice k" "constant_at v cs = Some x" "switch_key M (ScalarVal x) = Some k"
      by (auto simp: control_choice_of_def switch_key_def split: option.splits scalar_constant.splits)
    from known [OF k(2)] def Switch have v: "the (env v) = ScalarVal x" by (auto simp: all_defined_def terminator_operands_def)
    from t' Switch k(1) have "t' = (case find (\<lambda>c. case_value c = k) cases of
        None \<Rightarrow> Jump d args | Some c \<Rightarrow> Jump (case_target c) (case_arguments c))"
      by (auto simp: chosen_terminator_def elim!: returns_thenE dest: select_case_find)
    moreover have "c \<in> set cases" if "find (\<lambda>c. case_value c = k) cases = Some c" for c
      using that by (auto simp: find_Some_iff)
    ultimately show ?thesis using def Switch v k(3)
      by (cases "find (\<lambda>c. case_value c = k) cases")
        (auto simp: exec_terminator_def all_defined_def terminator_operands_def Let_def list_all_iff)
  qed (use choice in \<open>simp_all add: control_choice_of_def\<close>)
qed

lemma block_refines_terminator:
  assumes "\<And>env w. run_env types f env \<Longrightarrow> exec_terminator M (terminator b) env w \<noteq> Ends Stuck \<Longrightarrow>
      exec_terminator M t env w = exec_terminator M (terminator b) env w"
    and u: "unique_definitions f" and b: "b \<in> set (blocks f)"
  shows "block_refines M types f b (b\<lparr>terminator := t\<rparr>)"
  unfolding block_refines_def
proof (intro allI impI)
  fix xs and env :: "'a env" and w
  assume env: "run_env types f env" and ns: "exec_block M types (declared_type f) b xs env w \<noteq> Ends Stuck"
  then obtain env1 where e: "bind_values (declared_type f) types env (parameters b) xs = Some env1"
    by (auto simp: exec_block_def split: option.splits)
  show "exec_block M types (declared_type f) (b\<lparr>terminator := t\<rparr>) xs env w = exec_block M types (declared_type f) b xs env w"
  proof (cases "exec_instructions M types (declared_type f) (instructions b) env1 w")
    case (Next env2 w2)
    have "run_env types f env2" using run_env_instructions [OF u block_instructions [OF b] run_env_params [OF u b env e] Next] .
    from assms(1) [OF this, of w2] ns e Next show ?thesis by (simp add: exec_block_def)
  qed (use e in \<open>simp_all add: exec_block_def\<close>)
qed

lemma simplify_function_returns:
  assumes u: "unique_definitions f" and ret: "returns (simplify_function l types st f) (f', st')"
  shows "(\<exists>bs. f' = f\<lparr>blocks := bs\<rparr>) \<and> definitions_of f' = definitions_of f \<and> refines_function M types f f'"
proof -
  from ret obtain cs bs where seed: "returns (seed_immediates f types (replicate (length (value_records f)) None)) cs"
    and map: "returns (m_map_state (simplify_block l cs f) st (blocks f)) (bs, st')" and f': "f' = f\<lparr>blocks := bs\<rparr>"
    unfolding simplify_function_def by (fastforce elim!: returns_thenE dest: returns_filled_vec)
  have tab: "exact_table types f cs" by (rule seed_exact [OF u seed])
  have one: "block_definitions b' = block_definitions b \<and> block_refines M types f b b'"
    if b: "b \<in> set (blocks f)" and r: "returns (simplify_block l cs f s b) (b', s')" for b b' s s'
  proof (cases "control_choice_of cs (terminator b)")
    case None
    with r show ?thesis by (cases s) (auto simp: simplify_block_def elim!: returns_thenE)
  next
    case (Some choice)
    with r obtain t where t: "returns (chosen_terminator (terminator b) choice) t" "b' = b\<lparr>terminator := t\<rparr>"
      by (cases s) (auto simp: simplify_block_def elim!: returns_thenE)
    have "block_refines M types f b b'" unfolding t(2)
      by (rule block_refines_terminator [OF chosen_terminator_exec [OF tab _ Some t(1)] u b]) (auto simp: run_env_def)
    with t(2) show ?thesis by (simp add: block_definitions_def)
  qed
  from returns_map_state_all2 [OF map] one
  have all: "list_all2 (\<lambda>b b'. block_definitions b' = block_definitions b \<and> block_refines M types f b b') (blocks f) bs"
    by (auto simp: list_all2_conv_all_nth)
  then have "list_all2 (block_refines M types f) (blocks f) bs" "map block_definitions bs = map block_definitions (blocks f)"
    by (auto simp: list_all2_conv_all_nth intro: nth_equalityI)
  with replace_refines [OF u] f' show ?thesis by (auto simp: definitions_of_def)
qed

end
