(* ===== verification/Flow_Renaming.thy ===== *)
theory Flow_Renaming
  imports Flow_Folding
begin

text \<open>
  The mapping of operations and terminators to renumbered values and blocks, and its effect on
  execution: a renamed operation evaluates to the same results in a renamed environment.
\<close>

subsection \<open>Operands\<close>

lemma set_part_operands: "set_bounded_string_part p = set (part_operands p)"
  by (cases p) (simp_all add: part_operands_def)

lemma part_operands_map: "part_operands (map_bounded_string_part h p) = map h (part_operands p)"
  by (cases p) (simp_all add: part_operands_def)

lemma set_operation_operands: "set_flow_operation oper = set (operation_operands oper)"
proof (cases oper)
  case (Aggregate a)
  then show ?thesis by (cases a) (auto simp: operation_operands_def set_part_operands split: option.splits)
next
  case (Memory a)
  then show ?thesis by (cases a) (auto simp: operation_operands_def)
next
  case (Actor a)
  then show ?thesis by (cases a) (auto simp: operation_operands_def)
next
  case (Task a)
  then show ?thesis by (cases a) (auto simp: operation_operands_def)
next
  case (Hardware a)
  then show ?thesis by (cases a) (auto simp: operation_operands_def)
next
  case (Event a)
  then show ?thesis by (cases a) (auto simp: operation_operands_def)
qed (auto simp: operation_operands_def)

lemma operation_operands_map: "operation_operands (map_flow_operation h oper) = map h (operation_operands oper)"
proof (cases oper)
  case (Aggregate a)
  then show ?thesis
    by (cases a) (auto simp: operation_operands_def part_operands_map map_concat comp_def split: option.splits)
next
  case (Memory a)
  then show ?thesis by (cases a) (auto simp: operation_operands_def)
next
  case (Actor a)
  then show ?thesis by (cases a) (auto simp: operation_operands_def)
next
  case (Task a)
  then show ?thesis by (cases a) (auto simp: operation_operands_def)
next
  case (Hardware a)
  then show ?thesis by (cases a) (auto simp: operation_operands_def)
next
  case (Event a)
  then show ?thesis by (cases a) (auto simp: operation_operands_def)
qed (auto simp: operation_operands_def)

subsection \<open>Mapped operations\<close>

text \<open>\<open>renames f h\<close>: where \<open>f\<close> returns, it returns the new name given by \<open>h\<close>.\<close>

definition renames :: "('v \<Rightarrow> 'v mcomp) \<Rightarrow> ('v \<Rightarrow> 'v option) \<Rightarrow> bool" where
  "renames f h \<longleftrightarrow> (\<forall>v v'. returns (f v) v' \<longrightarrow> h v = Some v')"

definition renamed :: "('v \<Rightarrow> 'v option) \<Rightarrow> 'v list \<Rightarrow> bool" where
  "renamed h vs \<longleftrightarrow> (\<forall>v \<in> set vs. h v \<noteq> None)"

lemma renamesD: "renames f h \<Longrightarrow> returns (f v) v' \<Longrightarrow> h v = Some v'"
  by (simp add: renames_def)

lemma renames_map: "renames f h \<Longrightarrow> returns (m_map f vs) vs' \<Longrightarrow> renamed h vs \<and> vs' = map (\<lambda>v. the (h v)) vs"
proof (induction vs arbitrary: vs')
  case (Cons v vs)
  then show ?case by (fastforce elim!: returns_thenE simp: renamed_def dest: renamesD)
qed (simp add: renamed_def)

lemma renames_map1:
  assumes r: "renames f h" and "returns (m_map1 f v k) x"
  shows "renamed h [v] \<and> x = k (the (h v))"
  using assms(2) by (auto simp: m_map1_def renamed_def elim!: returns_thenE dest!: renamesD [OF r])

lemma renames_map2:
  assumes r: "renames f h" and "returns (m_map2 f u v k) x"
  shows "renamed h [u, v] \<and> x = k (the (h u)) (the (h v))"
  using assms(2) by (auto simp: m_map2_def renamed_def elim!: returns_thenE dest!: renamesD [OF r])

lemma renames_part:
  "renames f h \<Longrightarrow> returns (map_part f p) p' \<Longrightarrow> renamed h (part_operands p) \<and> p' = map_bounded_string_part (\<lambda>v. the (h v)) p"
  by (cases p) (auto simp: map_part_def part_operands_def renamed_def elim!: returns_thenE dest: renamesD)

lemma renames_parts:
  "renames f h \<Longrightarrow> returns (m_map (map_part f) ps) ps' \<Longrightarrow>
    renamed h (concat (map part_operands ps)) \<and> ps' = map (map_bounded_string_part (\<lambda>v. the (h v))) ps"
proof (induction ps arbitrary: ps')
  case (Cons p ps)
  from Cons.prems(2) obtain p' qs where "returns (map_part f p) p'" "returns (m_map (map_part f) ps) qs" "ps' = p' # qs"
    by (auto elim!: returns_thenE)
  with Cons.IH [OF Cons.prems(1), of qs] renames_part [OF Cons.prems(1), of p p'] show ?case by (auto simp: renamed_def)
qed (simp add: renamed_def)

lemmas renames_rules = renamesD renames_map renames_map1 renames_map2 renames_parts

lemma renames_aggregate:
  assumes r: "renames f h" and "returns (map_aggregate f a) a'"
  shows "renamed h (operation_operands (Aggregate a)) \<and> a' = map_aggregate_operation (\<lambda>v. the (h v)) a"
  using assms(2) by (cases a) (auto simp: map_aggregate_def operation_operands_def renamed_def elim!: returns_thenE
      dest!: renames_rules [OF r, unfolded renamed_def] split: option.splits)

lemma renames_memory:
  assumes r: "renames f h" and "returns (map_memory f a) a'"
  shows "renamed h (operation_operands (Memory a)) \<and> a' = map_memory_operation (\<lambda>v. the (h v)) a"
  using assms(2) by (cases a) (auto simp: map_memory_def operation_operands_def renamed_def elim!: returns_thenE
      dest!: renames_rules [OF r, unfolded renamed_def])

lemma renames_actor:
  assumes r: "renames f h" and "returns (map_actor f a) a'"
  shows "renamed h (operation_operands (Actor a)) \<and> a' = map_actor_operation (\<lambda>v. the (h v)) a"
  using assms(2) by (cases a) (auto simp: map_actor_def operation_operands_def renamed_def elim!: returns_thenE
      dest!: renames_rules [OF r, unfolded renamed_def])

lemma renames_task:
  assumes r: "renames f h" and "returns (map_task f a) a'"
  shows "renamed h (operation_operands (Task a)) \<and> a' = map_task_operation (\<lambda>v. the (h v)) a"
  using assms(2) by (cases a) (auto simp: map_task_def operation_operands_def renamed_def elim!: returns_thenE
      dest!: renames_rules [OF r, unfolded renamed_def])

lemma renames_hardware:
  assumes r: "renames f h" and "returns (map_hardware f a) a'"
  shows "renamed h (operation_operands (Hardware a)) \<and> a' = map_hardware_operation (\<lambda>v. the (h v)) a"
  using assms(2) by (cases a) (auto simp: map_hardware_def operation_operands_def renamed_def elim!: returns_thenE
      dest!: renames_rules [OF r, unfolded renamed_def])

lemma renames_event:
  assumes r: "renames f h" and "returns (map_event f a) a'"
  shows "renamed h (operation_operands (Event a)) \<and> a' = map_event_operation (\<lambda>v. the (h v)) a"
  using assms(2) by (cases a) (auto simp: map_event_def operation_operands_def renamed_def elim!: returns_thenE
      dest!: renames_rules [OF r, unfolded renamed_def])

lemmas renames_families = renames_aggregate renames_memory renames_actor renames_task renames_hardware renames_event

lemma renames_operation:
  assumes r: "renames f h" and "returns (map_operation_values f oper) oper'"
  shows "renamed h (operation_operands oper) \<and> oper' = map_flow_operation (\<lambda>v. the (h v)) oper"
  using assms(2)
  by (cases oper)
    (auto simp: map_operation_values_def operation_operands_def renamed_def elim!: returns_thenE
      dest!: renames_rules [OF r, unfolded renamed_def] renames_families [OF r, unfolded renamed_def operation_operands_def, simplified])

subsection \<open>Execution under a renaming\<close>

definition env_renamed :: "(value_id \<Rightarrow> value_id option) \<Rightarrow> 'o env \<Rightarrow> 'o env \<Rightarrow> bool" where
  "env_renamed h env env' \<longleftrightarrow> (\<forall>v v'. h v = Some v' \<longrightarrow> env' v' = env v)"

definition type_renamed :: "(value_id \<Rightarrow> value_id option) \<Rightarrow> (value_id \<Rightarrow> type_id option) \<Rightarrow> (value_id \<Rightarrow> type_id option) \<Rightarrow> bool" where
  "type_renamed h ty ty' \<longleftrightarrow> inj_on h (dom h) \<and> (\<forall>v v'. h v = Some v' \<longrightarrow> ty' v' = ty v)"

lemma env_renamed_map:
  "env_renamed h env env' \<Longrightarrow> renamed h vs \<Longrightarrow> map (\<lambda>v. the (env' v)) (map (\<lambda>v. the (h v)) vs) = map (\<lambda>v. the (env v)) vs"
  by (auto simp: env_renamed_def renamed_def)

lemma all_defined_renamed:
  "env_renamed h env env' \<Longrightarrow> renamed h vs \<Longrightarrow> all_defined env' (map (\<lambda>v. the (h v)) vs) \<longleftrightarrow> all_defined env vs"
  by (auto simp: env_renamed_def renamed_def all_defined_def list_all_iff)

lemma bind_renamed:
  assumes ty: "type_renamed h ty ty'"
  shows "bind_values ty types env vs xs = Some e \<Longrightarrow> renamed h vs \<Longrightarrow> env_renamed h env env' \<Longrightarrow>
    \<exists>e'. bind_values ty' types env' (map (\<lambda>v. the (h v)) vs) xs = Some e' \<and> env_renamed h e e'"
proof (induction vs arbitrary: env env' xs)
  case Nil
  then show ?case by (cases xs) auto
next
  case (Cons v vs)
  then obtain y ys t v' where xs: "xs = y # ys" "ty v = Some t" "of_type types t y"
    "bind_values ty types (env(v \<mapsto> y)) vs ys = Some e" "h v = Some v'"
    by (cases xs) (auto simp: renamed_def split: option.splits if_splits)
  have "u = v" if "h u = Some v'" for u
    using ty inj_onD [of h "dom h" u v] that xs(5) by (auto simp: type_renamed_def)
  with Cons.prems(3) xs(5) have env: "env_renamed h (env(v \<mapsto> y)) (env'(v' \<mapsto> y))"
    unfolding env_renamed_def by (metis fun_upd_apply option.inject)
  have "renamed h vs" using Cons.prems(2) by (simp add: renamed_def)
  from Cons.IH [OF xs(4) this env] obtain e' where "bind_values ty' types (env'(v' \<mapsto> y)) (map (\<lambda>v. the (h v)) vs) ys = Some e'"
    and "env_renamed h e e'" by blast
  moreover have "ty' v' = Some t" using ty xs(2,5) by (simp add: type_renamed_def)
  ultimately show ?case using xs by auto
qed

definition rename_instruction :: "(value_id \<Rightarrow> value_id option) \<Rightarrow> instruction \<Rightarrow> instruction \<Rightarrow> bool" where
  "rename_instruction h i j \<longleftrightarrow>
     renamed h (results i) \<and> results j = map (\<lambda>v. the (h v)) (results i) \<and>
     renamed h (operation_operands (operation i)) \<and> operation j = map_flow_operation (\<lambda>v. the (h v)) (operation i)"

definition progress_renamed :: "(value_id \<Rightarrow> value_id option) \<Rightarrow> ('o, 'w) progress \<Rightarrow> ('o, 'w) progress \<Rightarrow> bool" where
  "progress_renamed h p q \<longleftrightarrow>
     (case p of
        Next env w \<Rightarrow> (\<exists>env'. q = Next env' w \<and> env_renamed h env env')
      | Failing k w \<Rightarrow> q = Failing k w
      | Wrong \<Rightarrow> True)"

lemma evaluate_renamed:
  assumes "env_renamed h env env'" "renamed h (operation_operands oper)"
  shows "map_flow_operation (\<lambda>v. the (env' v)) (map_flow_operation (\<lambda>v. the (h v)) oper) = map_flow_operation (\<lambda>v. the (env v)) oper"
  unfolding flow_operation.map_comp comp_def
  by (rule flow_operation.map_cong0)
    (use assms in \<open>auto simp: env_renamed_def renamed_def set_operation_operands\<close>)

lemma instruction_renamed:
  assumes ty: "type_renamed h ty ty'" and j: "rename_instruction h i j" and env: "env_renamed h env env'"
  shows "progress_renamed h (exec_instruction M types ty i env w) (exec_instruction M types ty' j env' w)"
proof (cases "all_defined env (operation_operands (operation i)) \<and> list_all (\<lambda>r. ty r \<noteq> None) (results i)")
  case True
  have tys: "map (\<lambda>r. the (ty' r)) (results j) = map (\<lambda>r. the (ty r)) (results i)" and "list_all (\<lambda>r. ty' r \<noteq> None) (results j)"
    using ty j True by (auto simp: type_renamed_def rename_instruction_def renamed_def list_all_iff)
  moreover have "all_defined env' (operation_operands (operation j))"
    using True j env by (simp add: rename_instruction_def operation_operands_map all_defined_renamed)
  moreover have "map_flow_operation (\<lambda>v. the (env' v)) (operation j) = map_flow_operation (\<lambda>v. the (env v)) (operation i)"
    using j env by (simp add: rename_instruction_def evaluate_renamed)
  moreover have "\<exists>e'. bind_values ty' types env' (results j) xs = Some e' \<and> env_renamed h e e'"
    if "bind_values ty types env (results i) xs = Some e" for xs e
    using bind_renamed [OF ty that _ env] j by (simp add: rename_instruction_def)
  ultimately show ?thesis using True
    by (fastforce simp: exec_instruction_def progress_renamed_def split: effect.split option.split)
qed (auto simp: exec_instruction_def progress_renamed_def)

subsection \<open>Terminators\<close>

definition rename_case :: "(value_id \<Rightarrow> value_id option) \<Rightarrow> (block_id \<Rightarrow> block_id option) \<Rightarrow> switch_case \<Rightarrow> switch_case" where
  "rename_case h g c = c\<lparr>case_target := the (g (case_target c)), case_arguments := map (\<lambda>v. the (h v)) (case_arguments c)\<rparr>"

definition rename_terminator :: "(value_id \<Rightarrow> value_id option) \<Rightarrow> (block_id \<Rightarrow> block_id option) \<Rightarrow> terminator \<Rightarrow> terminator" where
  "rename_terminator h g t =
     (let vs = map (\<lambda>v. the (h v)) in
      case t of
        Jump b args \<Rightarrow> Jump (the (g b)) (vs args)
      | Branch c b a b' a' \<Rightarrow> Branch (the (h c)) (the (g b)) (vs a) (the (g b')) (vs a')
      | Switch v cases d args \<Rightarrow> Switch (the (h v)) (map (rename_case h g) cases) (the (g d)) (vs args)
      | Return args \<Rightarrow> Return (vs args)
      | Suspend s v b \<Rightarrow> Suspend s (the (h v)) (the (g b))
      | TailCall f args \<Rightarrow> TailCall f (vs args)
      | Trap k detail \<Rightarrow> Trap k (map_option (\<lambda>v. the (h v)) detail)
      | Unreachable \<Rightarrow> Unreachable)"

definition table_map :: "'a option list \<Rightarrow> u32 \<Rightarrow> 'a option" where
  "table_map m v = (case list_get m (unat v) of Some (Some v') \<Rightarrow> Some v' | _ \<Rightarrow> None)"

lemma renames_value: "renames (map_value vm) (table_map vm)"
  by (auto simp: renames_def map_value_def table_map_def elim!: returns_thenE split: option.splits)

lemma renames_block: "renames (map_block bm) (table_map bm)"
  by (auto simp: renames_def map_block_def table_map_def elim!: returns_thenE split: option.splits)

lemmas map_value_rules = renames_rules [OF renames_value, unfolded renamed_def] renamesD [OF renames_block]

lemma renames_cases:
  assumes "returns (m_map (map_case vm bm) cases) cases'"
  shows "renamed (table_map vm) (concat (map case_arguments cases)) \<and> renamed (table_map bm) (map case_target cases) \<and>
    cases' = map (rename_case (table_map vm) (table_map bm)) cases"
  using assms
proof (induction cases arbitrary: cases')
  case (Cons c cases)
  from Cons.prems obtain c' cs' where c: "returns (map_case vm bm c) c'" "returns (m_map (map_case vm bm) cases) cs'" "cases' = c' # cs'"
    by (auto elim!: returns_thenE)
  have "renamed (table_map vm) (case_arguments c) \<and> table_map bm (case_target c) \<noteq> None \<and> c' = rename_case (table_map vm) (table_map bm) c"
    using c(1) by (auto simp: map_case_def rename_case_def renamed_def elim!: returns_thenE dest!: map_value_rules)
  with Cons.IH [OF c(2)] c(3) show ?case by (auto simp: renamed_def)
qed (simp add: renamed_def)

lemma renames_terminator:
  assumes "returns (map_terminator vm bm t) t'"
  shows "renamed (table_map vm) (terminator_operands t) \<and> renamed (table_map bm) (edge_targets t) \<and>
    t' = rename_terminator (table_map vm) (table_map bm) t"
  using assms
  by (cases t)
    (auto simp: map_terminator_def terminator_operands_def edge_targets_def rename_terminator_def renamed_def Let_def
      elim!: returns_thenE dest!: map_value_rules renames_cases [unfolded renamed_def] split: option.splits)

lemma terminator_operands_rename:
  "terminator_operands (rename_terminator h g t) = map (\<lambda>v. the (h v)) (terminator_operands t)"
  by (cases t) (auto simp: rename_terminator_def terminator_operands_def Let_def map_concat rename_case_def comp_def split: option.splits)

lemma find_rename_case:
  "find (\<lambda>c. case_value c = k) (map (rename_case h g) cases) = map_option (rename_case h g) (find (\<lambda>c. case_value c = k) cases)"
  by (induction cases) (auto simp: rename_case_def)

definition transfer_renamed ::
  "(block_id \<Rightarrow> block_id option) \<Rightarrow> 'o env \<Rightarrow> ('o, 'w) transfer \<Rightarrow> ('o, 'w) transfer \<Rightarrow> bool" where
  "transfer_renamed g env' p q \<longleftrightarrow>
     (case p of
        Goto b xs _ w \<Rightarrow> g b \<noteq> None \<and> q = Goto (the (g b)) xs env' w
      | Ends e \<Rightarrow> q = Ends e)"

lemma terminator_renamed:
  assumes h: "renamed h (terminator_operands t)" and g: "renamed g (edge_targets t)" and env: "env_renamed h env env'"
  shows "transfer_renamed g env' (exec_terminator M t env w) (exec_terminator M (rename_terminator h g t) env' w)"
proof (cases "all_defined env (terminator_operands t)")
  case True
  then have def: "all_defined env' (terminator_operands (rename_terminator h g t))"
    using all_defined_renamed [OF env h] by (simp add: terminator_operands_rename)
  have val: "the (env' (the (h v))) = the (env v)" if "v \<in> set (terminator_operands t)" for v
    using h env that by (auto simp: renamed_def env_renamed_def)
  then have vals: "map (\<lambda>v. the (env' v)) (map (\<lambda>v. the (h v)) vs) = map (\<lambda>v. the (env v)) vs" if "set vs \<subseteq> set (terminator_operands t)" for vs
    using that by auto
  show ?thesis
  proof (cases t)
    case (Switch v cases d args)
    show ?thesis
    proof (cases "switch_key M (the (env v))")
      case (Some k)
      show ?thesis
      proof (cases "find (\<lambda>c. case_value c = k) cases")
        case None
        with Some Switch True def val [of v] vals [of args] g show ?thesis
          by (auto simp: exec_terminator_def rename_terminator_def transfer_renamed_def terminator_operands_def edge_targets_def
              renamed_def Let_def find_rename_case)
      next
        case (Some c)
        then have "c \<in> set cases" by (auto simp: find_Some_iff)
        with Some \<open>switch_key M (the (env v)) = Some k\<close> Switch True def val [of v] vals [of "case_arguments c"] g show ?thesis
          by (auto simp: exec_terminator_def rename_terminator_def transfer_renamed_def terminator_operands_def edge_targets_def
              renamed_def Let_def find_rename_case rename_case_def subset_eq)
      qed
    qed (use Switch True def val [of v] in \<open>simp add: exec_terminator_def rename_terminator_def transfer_renamed_def terminator_operands_def Let_def\<close>)
  qed (use True def val vals g in \<open>auto simp: exec_terminator_def rename_terminator_def transfer_renamed_def terminator_operands_def
      edge_targets_def renamed_def Let_def split: val.splits scalar_constant.splits option.splits\<close>)
next
  case False
  then show ?thesis using all_defined_renamed [OF env h]
    by (simp add: exec_terminator_def terminator_operands_rename transfer_renamed_def)
qed

end
