(* ===== verification/Flow_Compaction.thy ===== *)
theory Flow_Compaction
  imports Flow_Renaming
begin

text \<open>
  Compaction renumbers what a removal leaves. It returns only when everything retained refers to
  retained values and blocks, so a removal whose instructions have no effect preserves behaviour
  whatever chose them.
\<close>

subsection \<open>Ranks\<close>

definition rank :: "bool list \<Rightarrow> nat \<Rightarrow> nat" where
  "rank keep k = length (filter id (take k keep))"

lemma rank_0 [simp]: "rank keep 0 = 0"
  by (simp add: rank_def)

lemma rank_Suc: "k < length keep \<Longrightarrow> rank keep (Suc k) = rank keep k + (if keep ! k then 1 else 0)"
  by (simp add: rank_def take_Suc_conv_app_nth)

lemma rank_mono: "i \<le> j \<Longrightarrow> rank keep i \<le> rank keep j"
proof -
  assume "i \<le> j"
  then have "take j keep = take i keep @ take (j - i) (drop i keep)" by (metis le_add_diff_inverse take_add)
  then show ?thesis by (simp add: rank_def)
qed

lemma rank_less: "i < j \<Longrightarrow> i < length keep \<Longrightarrow> keep ! i \<Longrightarrow> rank keep i < rank keep j"
  using rank_Suc [of i keep] rank_mono [of "Suc i" j keep] by simp

text \<open>A table that numbers the retained positions densely.\<close>

definition ranked :: "bool list \<Rightarrow> u32 option list \<Rightarrow> bool" where
  "ranked keep m \<longleftrightarrow> length m = length keep \<and>
     (\<forall>j < length keep. (m ! j = None \<longleftrightarrow> \<not> keep ! j) \<and> (\<forall>x. m ! j = Some x \<longrightarrow> unat x = rank keep j))"

lemma ranked_Some:
  "ranked keep m \<Longrightarrow> table_map m v = Some v' \<Longrightarrow> unat v < length keep \<and> keep ! unat v \<and> unat v' = rank keep (unat v)"
  by (auto simp: ranked_def table_map_def list_get_def split: if_splits option.splits)

lemma ranked_inj: "ranked keep m \<Longrightarrow> inj_on (table_map m) (dom (table_map m))"
proof (rule inj_onI)
  fix u v assume m: "ranked keep m" and "u \<in> dom (table_map m)" and "v \<in> dom (table_map m)" and eq: "table_map m u = table_map m v"
  then obtain x where "table_map m u = Some x" "table_map m v = Some x" by auto
  note u = ranked_Some [OF m this(1)] and v = ranked_Some [OF m this(2)]
  have "unat u = unat v"
    using u v rank_less [of "unat u" "unat v" keep] rank_less [of "unat v" "unat u" keep] by (metis less_irrefl linorder_neqE_nat)
  then show "u = v" by (simp add: word_unat_eq_iff)
qed

lemma returns_enumerate:
  "returns (m_each f s (enumerate n xs)) t \<Longrightarrow> P 0 s \<Longrightarrow>
    (\<And>k u v. k < length xs \<Longrightarrow> P k u \<Longrightarrow> returns (f u (n + k, xs ! k)) v \<Longrightarrow> P (Suc k) v) \<Longrightarrow> P (length xs) t"
proof (induction xs arbitrary: s n P)
  case (Cons x xs)
  from Cons.prems(1) obtain u where u: "returns (f s (n, x)) u" "returns (m_each f u (enumerate (Suc n) xs)) t"
    by (auto elim: returns_thenE)
  have "P 1 u" using Cons.prems(3) [of 0 s u] Cons.prems(2) u(1) by simp
  moreover have "P (Suc (Suc k)) v" if "k < length xs" "P (Suc k) w" "returns (f w (Suc n + k, xs ! k)) v" for k w v
    using Cons.prems(3) [of "Suc k" w v] that by simp
  ultimately show ?case using Cons.IH [OF u(2), of "\<lambda>k. P (Suc k)"] by simp
qed simp

lemma assign_blocks:
  assumes "returns (m_each (assign_block l) (replicate (length keep) None, 0) (enumerate 0 keep)) (bm, nx)"
  shows "ranked keep bm"
proof -
  define P where "P = (\<lambda>k (bm :: block_id option list, nx :: u32). length bm = length keep \<and> unat nx = rank keep k \<and>
    (\<forall>j < length keep. (bm ! j = None \<longleftrightarrow> \<not> (j < k \<and> keep ! j)) \<and> (\<forall>x. bm ! j = Some x \<longrightarrow> unat x = rank keep j)))"
  have "P (length keep) (bm, nx)"
  proof (rule returns_enumerate [OF assms])
    show "P 0 (replicate (length keep) None, 0)" by (simp add: P_def)
  next
    fix k u v assume k: "k < length keep" and P: "P k u" and ret: "returns (assign_block l u (0 + k, keep ! k)) v"
    obtain b x where u: "u = (b, x)" by (cases u)
    show "P (Suc k) v"
    proof (cases "keep ! k")
      case True
      with ret u obtain y where y: "checked_add_u32 x 1 = Some y" "v = (b[k := Some x], y)"
        by (auto simp: assign_block_def returns_or_err elim!: returns_thenE)
      with P u k True show ?thesis
        by (auto simp: P_def checked_add_u32_Some rank_Suc nth_list_update less_Suc_eq)
    next
      case False
      with ret u have "v = (b, x)" by (auto simp: assign_block_def elim!: returns_thenE)
      with P u k False show ?thesis by (auto simp: P_def rank_Suc less_Suc_eq)
    qed
  qed
  then show ?thesis by (auto simp: P_def ranked_def)
qed

lemma move_values:
  assumes "length keep = length vals"
    and "returns (m_each (move_value l keep) (replicate (length vals) None, []) (enumerate 0 vals)) (vm, vs)"
  shows "ranked keep vm \<and> (\<forall>j < length vals. keep ! j \<longrightarrow> rank keep j < length vs \<and> value_type (vs ! rank keep j) = value_type (vals ! j))"
proof -
  define P where "P = (\<lambda>k (vm :: value_id option list, vs :: flow_value list). length vm = length keep \<and> length vs = rank keep k \<and>
    (\<forall>j < length keep. (vm ! j = None \<longleftrightarrow> \<not> (j < k \<and> keep ! j)) \<and> (\<forall>x. vm ! j = Some x \<longrightarrow> unat x = rank keep j)) \<and>
    (\<forall>j < k. keep ! j \<longrightarrow> value_type (vs ! rank keep j) = value_type (vals ! j)))"
  have "P (length vals) (vm, vs)"
  proof (rule returns_enumerate [OF assms(2)])
    show "P 0 (replicate (length vals) None, [])" using assms(1) by (simp add: P_def)
  next
    fix k u v assume k: "k < length vals" and P: "P k u" and ret: "returns (move_value l keep u (0 + k, vals ! k)) v"
    obtain b xs where u: "u = (b, xs)" by (cases u)
    show "P (Suc k) v"
    proof (cases "keep ! k")
      case True
      with ret u obtain y where y: "u32_try_from (length xs) = Some y" "v = (b[k := Some y], xs @ [(vals ! k)\<lparr>value_id_of := y\<rparr>])"
        by (auto simp: move_value_def index_as_u32_def returns_lift elim!: returns_thenE split: option.splits)
      have "rank keep j < rank keep k" if "j < k" "keep ! j" for j using rank_less [of j k keep] that k assms(1) by simp
      with y P u k True assms(1) show ?thesis
        by (auto simp: P_def u32_try_from_Some rank_Suc nth_list_update less_Suc_eq nth_append)
    next
      case False
      with ret u have "v = (b, xs)" by (auto simp: move_value_def elim!: returns_thenE)
      with P u k False assms(1) show ?thesis by (auto simp: P_def rank_Suc less_Suc_eq)
    qed
  qed
  then have P: "P (length vals) (vm, vs)" .
  have "rank keep j < length vs" if "j < length vals" "keep ! j" for j
    using P rank_less [of j "length vals" keep] that assms(1) by (simp add: P_def)
  with P assms(1) show ?thesis by (auto simp: P_def ranked_def)
qed

subsection \<open>Retained values\<close>

definition retained_definitions :: "bool list option \<Rightarrow> flow_function \<Rightarrow> value_id set" where
  "retained_definitions removed f =
     set (function_parameters f) \<union> (\<Union>b \<in> set (blocks f). set (parameters b)) \<union>
     (\<Union>i \<in> {i \<in> set (all_instructions f). \<not> is_removed removed i}. set (results i))"

definition marks_only :: "value_id set \<Rightarrow> nat \<Rightarrow> bool list \<Rightarrow> bool" where
  "marks_only S n keep \<longleftrightarrow> length keep = n \<and> (\<forall>k < n. keep ! k \<longrightarrow> (\<exists>v \<in> S. unat v = k))"

lemma mark_values_only:
  assumes "returns (mark_values what keep vs) keep'" "marks_only S n keep" "set vs \<subseteq> S"
  shows "marks_only S n keep'"
  using assms(1) unfolding mark_values_def
proof (rule returns_each [where P = "\<lambda>_. marks_only S n"])
  fix ys v k1 k2 assume "marks_only S n k1" "v \<in> set vs" "returns (m_then checkpoint (\<lambda>_. mark_value what k1 v)) k2"
  moreover have "\<exists>u \<in> S. unat u = unat v" using \<open>v \<in> set vs\<close> assms(3) by blast
  ultimately show "marks_only S n k2"
    by (auto simp: mark_value_def marks_only_def nth_list_update elim!: returns_thenE split: if_splits)
qed (rule assms(2))

lemma mark_blocks_only:
  assumes "returns (m_each (mark_block removed keep_blocks) keep (enumerate 0 (blocks f))) keep'"
    and "marks_only (retained_definitions removed f) n keep"
  shows "marks_only (retained_definitions removed f) n keep'"
  using assms(1)
proof (rule returns_enumerate [where P = "\<lambda>_. marks_only (retained_definitions removed f) n"])
  fix k k1 k2 assume k: "k < length (blocks f)" and m: "marks_only (retained_definitions removed f) n k1"
    and ret: "returns (mark_block removed keep_blocks k1 (0 + k, blocks f ! k)) k2"
  let ?b = "blocks f ! k"
  have b: "?b \<in> set (blocks f)" using k by simp
  show "marks_only (retained_definitions removed f) n k2"
  proof (cases "keep_blocks ! k")
    case True
    with ret obtain k3 where k3: "returns (mark_values ''block parameter'' k1 (parameters ?b)) k3"
      and each: "returns (m_each (\<lambda>keep i. m_then checkpoint (\<lambda>_. if is_removed removed i then m_ok keep
          else mark_values ''instruction result'' keep (results i))) k3 (instructions ?b)) k2"
      by (auto simp: mark_block_def elim!: returns_thenE)
    have "marks_only (retained_definitions removed f) n k3"
      using mark_values_only [OF k3 m] b by (auto simp: retained_definitions_def)
    with each show ?thesis
    proof (rule returns_each [where P = "\<lambda>_. marks_only (retained_definitions removed f) n"])
      fix ys i u v assume u: "marks_only (retained_definitions removed f) n u" and i: "i \<in> set (instructions ?b)"
        and r: "returns (m_then checkpoint (\<lambda>_. if is_removed removed i then m_ok u else mark_values ''instruction result'' u (results i))) v"
      have "set (results i) \<subseteq> retained_definitions removed f" if "\<not> is_removed removed i"
        using that i block_instructions [OF b] by (auto simp: retained_definitions_def)
      with r u show "marks_only (retained_definitions removed f) n v"
        by (auto elim!: returns_thenE split: if_splits intro: mark_values_only)
    qed
  next
    case False
    with ret m show ?thesis by (auto simp: mark_block_def elim!: returns_thenE)
  qed
qed (rule assms(2))

subsection \<open>Compacted functions\<close>

definition compacted_block ::
  "bool list option \<Rightarrow> (value_id \<Rightarrow> value_id option) \<Rightarrow> (block_id \<Rightarrow> block_id option) \<Rightarrow> flow_block \<Rightarrow> flow_block \<Rightarrow> bool" where
  "compacted_block removed h g b c \<longleftrightarrow>
     renamed h (parameters b) \<and> parameters c = map (\<lambda>v. the (h v)) (parameters b) \<and>
     list_all2 (rename_instruction h) (filter (\<lambda>i. \<not> is_removed removed i) (instructions b)) (instructions c) \<and>
     renamed h (terminator_operands (terminator b)) \<and> renamed g (edge_targets (terminator b)) \<and>
     terminator c = rename_terminator h g (terminator b)"

definition compaction ::
  "bool list option \<Rightarrow> (value_id \<Rightarrow> value_id option) \<Rightarrow> (block_id \<Rightarrow> block_id option) \<Rightarrow> flow_function \<Rightarrow> flow_function \<Rightarrow> bool" where
  "compaction removed h g f f' \<longleftrightarrow>
     type_renamed h (declared_type f) (declared_type f') \<and>
     renamed h (function_parameters f) \<and> function_parameters f' = map (\<lambda>v. the (h v)) (function_parameters f) \<and>
     dom h \<subseteq> retained_definitions removed f \<and> g (entry f) = Some (entry f') \<and>
     (\<forall>b b'. g b = Some b' \<longrightarrow> (\<exists>blk blk'. list_get (blocks f) (unat b) = Some blk \<and>
       list_get (blocks f') (unat b') = Some blk' \<and> compacted_block removed h g blk blk'))"

lemma compact_instructions:
  assumes "returns (m_each (compact_instruction l removed vm) ([], nx) is) (js, nx')"
  shows "list_all2 (rename_instruction (table_map vm)) (filter (\<lambda>i. \<not> is_removed removed i) is) js"
proof -
  have "list_all2 (rename_instruction (table_map vm)) (filter (\<lambda>i. \<not> is_removed removed i) is) (fst (js, nx'))"
    using assms
  proof (rule returns_each [where P = "\<lambda>ys u. list_all2 (rename_instruction (table_map vm)) (filter (\<lambda>i. \<not> is_removed removed i) ys) (fst u)"])
    fix ys i u v assume all: "list_all2 (rename_instruction (table_map vm)) (filter (\<lambda>i. \<not> is_removed removed i) ys) (fst u)"
      and ret: "returns (compact_instruction l removed vm u i) v"
    obtain kept n where u: "u = (kept, n)" by (cases u)
    show "list_all2 (rename_instruction (table_map vm)) (filter (\<lambda>i. \<not> is_removed removed i) (ys @ [i])) (fst v)"
    proof (cases "is_removed removed i")
      case True
      with ret u all show ?thesis by (auto simp: compact_instruction_def elim!: returns_thenE)
    next
      case False
      with ret u obtain rs oper n' where "returns (m_map (map_value vm) (results i)) rs"
        "returns (map_operation_values (map_value vm) (operation i)) oper"
        and v: "v = (kept @ [i\<lparr>instruction_id_of := n, results := rs, operation := oper\<rparr>], n')"
        by (auto simp: compact_instruction_def elim!: returns_thenE)
      with renames_map [OF renames_value] renames_operation [OF renames_value]
      have "rename_instruction (table_map vm) i (i\<lparr>instruction_id_of := n, results := rs, operation := oper\<rparr>)"
        by (auto simp: rename_instruction_def)
      with all u v False show ?thesis by (simp add: list_all2_appendI)
    qed
  qed simp
  then show ?thesis by simp
qed

lemma compact_block_returns:
  assumes "returns (compact_block l keep removed bm vm (kept, nx) (k, b)) (kept', nx')" and "keep ! k"
  shows "\<exists>c. kept' = kept @ [c] \<and> compacted_block removed (table_map vm) (table_map bm) b c"
proof -
  from assms obtain ps "is" t new n where "returns (m_map (map_value vm) (parameters b)) ps"
    and "returns (m_each (compact_instruction l removed vm) ([], nx) (instructions b)) (is, n)"
    and "returns (map_terminator vm bm (terminator b)) t"
    and "kept' = kept @ [b\<lparr>block_id_of := new, parameters := ps, instructions := is, terminator := t\<rparr>]"
    by (auto simp: compact_block_def elim!: returns_thenE)
  with renames_map [OF renames_value] compact_instructions renames_terminator show ?thesis
    by (fastforce simp: compacted_block_def)
qed

lemma compact_blocks:
  assumes "length keep = length bs"
    and "returns (m_each (compact_block l keep removed bm vm) ([], 0) (enumerate 0 bs)) (bs', nx)" and "k < length bs" "keep ! k"
  shows "rank keep k < length bs' \<and> compacted_block removed (table_map vm) (table_map bm) (bs ! k) (bs' ! rank keep k)"
proof -
  define P where "P = (\<lambda>j (cs :: flow_block list, nx :: u32). length cs = rank keep j \<and>
    (\<forall>k < j. keep ! k \<longrightarrow> compacted_block removed (table_map vm) (table_map bm) (bs ! k) (cs ! rank keep k)))"
  have "P (length bs) (bs', nx)"
  proof (rule returns_enumerate [OF assms(2)])
    show "P 0 ([], 0)" by (simp add: P_def)
  next
    fix j u v assume j: "j < length bs" and P: "P j u" and ret: "returns (compact_block l keep removed bm vm u (0 + j, bs ! j)) v"
    obtain cs n cs' n' where u: "u = (cs, n)" "v = (cs', n')" by (metis prod.exhaust)
    show "P (Suc j) v"
    proof (cases "keep ! j")
      case True
      from compact_block_returns [of l keep removed bm vm cs n j "bs ! j" cs' n'] ret u True
      obtain c where c: "cs' = cs @ [c]" "compacted_block removed (table_map vm) (table_map bm) (bs ! j) c" by auto
      have "rank keep i < rank keep j" if "i < j" "keep ! i" for i using rank_less [of i j keep] that j assms(1) by simp
      with c P u j True assms(1) show ?thesis by (auto simp: P_def rank_Suc less_Suc_eq nth_append)
    next
      case False
      with ret u have "v = u" by (auto simp: compact_block_def elim!: returns_thenE)
      with P u j False assms(1) show ?thesis by (auto simp: P_def rank_Suc less_Suc_eq)
    qed
  qed
  with rank_less [of k "length bs" keep] assms show ?thesis by (auto simp: P_def)
qed

lemma compact_function_returns:
  assumes "returns (compact_function l keep removed f) f'"
  shows "\<exists>h g. compaction removed h g f f' \<and>
    (\<exists>vs ps e bs. f' = f\<lparr>value_records := vs, function_parameters := ps, entry := e, blocks := bs\<rparr>)"
proof -
  let ?n = "length (value_records f)"
  from assms obtain bm nx keep1 keep2 vm vs ps e bs nx' where len: "length keep = length (blocks f)"
    and bm: "returns (m_each (assign_block l) (replicate (length (blocks f)) None, 0) (enumerate 0 keep)) (bm, nx)"
    and k1: "returns (mark_values ''function parameter'' (replicate ?n False) (function_parameters f)) keep1"
    and k2: "returns (m_each (mark_block removed keep) keep1 (enumerate 0 (blocks f))) keep2"
    and vm: "returns (m_each (move_value l keep2) (replicate ?n None, []) (enumerate 0 (value_records f))) (vm, vs)"
    and ps: "returns (m_map (map_value vm) (function_parameters f)) ps"
    and e: "returns (map_block bm (entry f)) e"
    and bs: "returns (m_each (compact_block l keep removed bm vm) ([], 0) (enumerate 0 (blocks f))) (bs, nx')"
    and f': "f' = f\<lparr>value_records := vs, function_parameters := ps, entry := e, blocks := bs\<rparr>"
    unfolding compact_function_def by (auto elim!: returns_thenE simp: returns_guard dest!: returns_filled_vec)
  let ?h = "table_map vm" and ?g = "table_map bm"
  have "marks_only (retained_definitions removed f) ?n keep1"
    using k1 by (rule mark_values_only) (auto simp: marks_only_def retained_definitions_def)
  with k2 have marks: "marks_only (retained_definitions removed f) ?n keep2" by (rule mark_blocks_only)
  then have lenv: "length keep2 = ?n" by (simp add: marks_only_def)
  from move_values [OF lenv vm] have rv: "ranked keep2 vm"
    and ty: "\<And>j. j < ?n \<Longrightarrow> keep2 ! j \<Longrightarrow> rank keep2 j < length vs \<and> value_type (vs ! rank keep2 j) = value_type (value_records f ! j)" by auto
  have rb: "ranked keep bm" using assign_blocks [of l keep bm nx] bm len by simp
  have "type_renamed ?h (declared_type f) (declared_type f')"
    using ranked_inj [OF rv] ranked_Some [OF rv] ty lenv by (auto simp: type_renamed_def declared_type_def list_get_def f')
  moreover have "dom ?h \<subseteq> retained_definitions removed f"
  proof
    fix v assume "v \<in> dom ?h"
    then obtain v' where "?h v = Some v'" by blast
    with ranked_Some [OF rv] marks lenv obtain u where "u \<in> retained_definitions removed f" "unat u = unat v"
      unfolding marks_only_def by metis
    then show "v \<in> retained_definitions removed f" by (metis word_unat_eq_iff)
  qed
  moreover have "renamed ?h (function_parameters f) \<and> function_parameters f' = map (\<lambda>v. the (?h v)) (function_parameters f)"
    using renames_map [OF renames_value ps] f' by simp
  moreover have "?g (entry f) = Some (entry f')" using renamesD [OF renames_block e] f' by simp
  moreover have "\<exists>blk blk'. list_get (blocks f) (unat b) = Some blk \<and> list_get (blocks f') (unat b') = Some blk' \<and>
      compacted_block removed ?h ?g blk blk'" if "?g b = Some b'" for b b'
    using ranked_Some [OF rb that] compact_blocks [OF len bs, of "unat b"] len by (auto simp: list_get_def f')
  ultimately have "compaction removed ?h ?g f f'" unfolding compaction_def by blast
  with f' show ?thesis by blast
qed

subsection \<open>Removals without effect\<close>

definition silent :: "('o, 'w) machine \<Rightarrow> flow_type list \<Rightarrow> flow_function \<Rightarrow> instruction \<Rightarrow> bool" where
  "silent M types f i \<longleftrightarrow>
     (\<forall>env w. run_env types f env \<longrightarrow> exec_instruction M types (declared_type f) i env w \<noteq> Wrong \<longrightarrow>
       (\<exists>env'. exec_instruction M types (declared_type f) i env w = Next env' w))"

lemma retained_not_removed:
  assumes "unique_definitions f" "i \<in> set (all_instructions f)" "is_removed removed i" "v \<in> set (results i)"
  shows "v \<notin> retained_definitions removed f"
  using assms(3) parameter_not_result [OF assms(1,2,4)] unique_results [OF assms(1,2) _ assms(4)]
  by (auto simp: retained_definitions_def)

lemma instructions_renamed:
  assumes u: "unique_definitions f" and dom: "dom h \<subseteq> retained_definitions removed f"
    and ty: "type_renamed h (declared_type f) ty'"
    and sil: "\<And>i. i \<in> set (all_instructions f) \<Longrightarrow> is_removed removed i \<Longrightarrow> silent M types f i"
  shows "set is \<subseteq> set (all_instructions f) \<Longrightarrow> list_all2 (rename_instruction h) (filter (\<lambda>i. \<not> is_removed removed i) is) js \<Longrightarrow>
    run_env types f env \<Longrightarrow> env_renamed h env env' \<Longrightarrow>
    progress_renamed h (exec_instructions M types (declared_type f) is env w) (exec_instructions M types ty' js env' w)"
proof (induction "is" arbitrary: js env env' w)
  case Nil
  then show ?case by (simp add: progress_renamed_def)
next
  case (Cons i "is")
  have i: "i \<in> set (all_instructions f)" and sub: "set is \<subseteq> set (all_instructions f)" using Cons.prems(1) by auto
  show ?case
  proof (cases "is_removed removed i")
    case True
    show ?thesis
    proof (cases "exec_instruction M types (declared_type f) i env w = Wrong")
      case False
      then obtain env1 where n: "exec_instruction M types (declared_type f) i env w = Next env1 w"
        using sil [OF i True] Cons.prems(3) by (auto simp: silent_def)
      from n obtain xs where "bind_values (declared_type f) types env (results i) xs = Some env1" by (rule exec_instruction_Next)
      then have "env1 v = env v" if "h v \<noteq> None" for v
        using that dom retained_not_removed [OF u i True, of v] by (blast intro: bind_values_other)
      with Cons.prems(4) have ren: "env_renamed h env1 env'" unfolding env_renamed_def by (metis option.distinct(1))
      have "run_env types f env1" using run_env_instructions [OF u, of "[i]" types env M w env1 w] i n Cons.prems(3) by simp
      from Cons.IH [OF sub _ this ren] Cons.prems(2) True n show ?thesis by simp
    qed (simp add: progress_renamed_def)
  next
    case False
    with Cons.prems(2) obtain j js' where j: "js = j # js'" "rename_instruction h i j"
      "list_all2 (rename_instruction h) (filter (\<lambda>i. \<not> is_removed removed i) is) js'"
      by (auto simp: list_all2_Cons1)
    have p: "progress_renamed h (exec_instruction M types (declared_type f) i env w) (exec_instruction M types ty' j env' w)"
      by (rule instruction_renamed [OF ty j(2) Cons.prems(4)])
    show ?thesis
    proof (cases "exec_instruction M types (declared_type f) i env w")
      case (Next env1 w1)
      with p obtain env1' where n: "exec_instruction M types ty' j env' w = Next env1' w1" "env_renamed h env1 env1'"
        by (auto simp: progress_renamed_def)
      have "run_env types f env1" using run_env_instructions [OF u, of "[i]" types env M w env1 w1] i Next Cons.prems(3) by simp
      from Cons.IH [OF sub j(3) this n(2)] Next n(1) j(1) show ?thesis by simp
    qed (use p j(1) in \<open>auto simp: progress_renamed_def\<close>)
  qed
qed

lemma block_renamed:
  assumes u: "unique_definitions f" and c: "compaction removed h g f f'" and b: "blk \<in> set (blocks f)"
    and comp: "compacted_block removed h g blk blk'"
    and sil: "\<And>i. i \<in> set (all_instructions f) \<Longrightarrow> is_removed removed i \<Longrightarrow> silent M types f i"
    and env: "run_env types f env" "env_renamed h env env'"
    and ns: "exec_block M types (declared_type f) blk xs env w \<noteq> Ends Stuck"
  shows "\<exists>env1. transfer_renamed g env1 (exec_block M types (declared_type f) blk xs env w) (exec_block M types (declared_type f') blk' xs env' w) \<and>
    (\<forall>d ys e w'. exec_block M types (declared_type f) blk xs env w = Goto d ys e w' \<longrightarrow> env_renamed h e env1)"
proof -
  have ty: "type_renamed h (declared_type f) (declared_type f')" and dom: "dom h \<subseteq> retained_definitions removed f"
    using c by (auto simp: compaction_def)
  from ns obtain e1 where e1: "bind_values (declared_type f) types env (parameters blk) xs = Some e1"
    by (auto simp: exec_block_def split: option.splits)
  from bind_renamed [OF ty e1 _ env(2)] comp obtain e1' where e1': "bind_values (declared_type f') types env' (parameters blk') xs = Some e1'"
    "env_renamed h e1 e1'" by (auto simp: compacted_block_def)
  have p: "progress_renamed h (exec_instructions M types (declared_type f) (instructions blk) e1 w)
      (exec_instructions M types (declared_type f') (instructions blk') e1' w)"
    using comp by (intro instructions_renamed [OF u dom ty sil block_instructions [OF b] _ run_env_params [OF u b env(1) e1] e1'(2)])
      (auto simp: compacted_block_def)
  show ?thesis
  proof (cases "exec_instructions M types (declared_type f) (instructions blk) e1 w")
    case (Next e2 w2)
    with p obtain e2' where e2': "exec_instructions M types (declared_type f') (instructions blk') e1' w = Next e2' w2" "env_renamed h e2 e2'"
      by (auto simp: progress_renamed_def)
    have "transfer_renamed g e2' (exec_terminator M (terminator blk) e2 w2) (exec_terminator M (terminator blk') e2' w2)"
      using comp terminator_renamed [OF _ _ e2'(2), of "terminator blk" g M w2] by (simp add: compacted_block_def)
    moreover have "e = e2" if "exec_terminator M (terminator blk) e2 w2 = Goto d ys e w'" for d ys e w'
      using exec_terminator_env [OF that] by simp
    ultimately show ?thesis using e1 e1' Next e2' by (auto simp: exec_block_def)
  next
    case (Failing k w2)
    with p e1 e1' show ?thesis by (auto simp: exec_block_def progress_renamed_def transfer_renamed_def)
  next
    case Wrong
    with ns e1 show ?thesis by (simp add: exec_block_def)
  qed
qed

lemma compaction_simulation:
  assumes u: "unique_definitions f" and c: "compaction removed h g f f'"
    and sil: "\<And>i. i \<in> set (all_instructions f) \<Longrightarrow> is_removed removed i \<Longrightarrow> silent M types f i"
  shows "block_simulation M types f f' (\<lambda>b env b' env'. g b = Some b' \<and> env_renamed h env env' \<and> run_env types f env)"
proof -
  have step: "\<exists>env1. transfer_renamed g env1 (exec_step M types f b xs env w) (exec_step M types f' b' xs env' w) \<and>
      (\<forall>d ys e w'. exec_step M types f b xs env w = Goto d ys e w' \<longrightarrow> env_renamed h e env1 \<and> run_env types f e)"
    if rel: "g b = Some b' \<and> env_renamed h env env' \<and> run_env types f env" and ns: "exec_step M types f b xs env w \<noteq> Ends Stuck"
    for b b' env env' xs w
  proof -
    from c rel obtain blk blk' where blk: "list_get (blocks f) (unat b) = Some blk" "list_get (blocks f') (unat b') = Some blk'"
      and comp: "compacted_block removed h g blk blk'" unfolding compaction_def by blast
    have b: "blk \<in> set (blocks f)" using blk(1) by (auto simp: list_get_def split: if_splits)
    have ns': "exec_block M types (declared_type f) blk xs env w \<noteq> Ends Stuck" using ns blk(1) by (simp add: exec_step_def)
    obtain env1 where "transfer_renamed g env1 (exec_block M types (declared_type f) blk xs env w) (exec_block M types (declared_type f') blk' xs env' w)"
      and "\<forall>d ys e w'. exec_block M types (declared_type f) blk xs env w = Goto d ys e w' \<longrightarrow> env_renamed h e env1"
      using block_renamed [OF u c b comp sil _ _ ns', of env'] rel by blast
    with blk run_env_block [OF u b, of types env M xs w] rel show ?thesis by (auto simp: exec_step_def)
  qed
  show ?thesis
  proof unfold_locales
    fix xs and env :: "'a env" assume bind: "bind_values (declared_type f) types (\<lambda>_. None) (function_parameters f) xs = Some env"
    have "env_renamed h (\<lambda>_. None) (\<lambda>_ :: value_id. None :: 'a val option)" by (simp add: env_renamed_def)
    with bind_renamed [OF _ bind] c obtain env' where
      "bind_values (declared_type f') types (\<lambda>_. None) (function_parameters f') xs = Some env'" "env_renamed h env env'"
      unfolding compaction_def by metis
    with run_env_start [OF u bind] c show "\<exists>env'. bind_values (declared_type f') types (\<lambda>_. None) (function_parameters f') xs = Some env' \<and>
        g (entry f) = Some (entry f') \<and> env_renamed h env env' \<and> run_env types f env" by (auto simp: compaction_def)
  next
    fix b and env :: "'a env" and b' env' xs w e
    assume rel: "g b = Some b' \<and> env_renamed h env env' \<and> run_env types f env" and e: "exec_step M types f b xs env w = Ends e" "e \<noteq> Stuck"
    from step [OF rel, of xs w] e show "exec_step M types f' b' xs env' w = Ends e" by (auto simp: transfer_renamed_def)
  next
    fix b and env :: "'a env" and b' env' xs w d ys e1 w1
    assume rel: "g b = Some b' \<and> env_renamed h env env' \<and> run_env types f env" and e: "exec_step M types f b xs env w = Goto d ys e1 w1"
    from step [OF rel, of xs w] e show "\<exists>d' e1'. exec_step M types f' b' xs env' w = Goto d' ys e1' w1 \<and>
        g d = Some d' \<and> env_renamed h e1 e1' \<and> run_env types f e1" by (auto simp: transfer_renamed_def)
  qed
qed

lemma compaction_refines:
  assumes "unique_definitions f" and "returns (compact_function l keep removed f) f'"
    and "\<And>i. i \<in> set (all_instructions f) \<Longrightarrow> is_removed removed i \<Longrightarrow> silent M types f i"
  shows "refines_function M types f f'"
  using compact_function_returns [OF assms(2)] block_simulation.simulation_refines [OF compaction_simulation [OF assms(1) _ assms(3)]] by blast

end
