(* ===== verification/Flow_Verified.thy ===== *)
theory Flow_Verified
  imports Flow_Compaction
begin

text \<open>
  What the verification after each pass establishes: dense identifiers, exactly one definition of every
  value, and references within bounds.
\<close>

subsection \<open>Definition counts\<close>

definition counts_definitions :: "nat \<Rightarrow> value_id list \<Rightarrow> u8 list \<Rightarrow> bool" where
  "counts_definitions n ds xs \<longleftrightarrow>
     length xs = n \<and> (\<forall>v \<in> set ds. unat v < n) \<and> (\<forall>k < n. unat (xs ! k) = count_list (map unat ds) k)"

lemma define_value_counts:
  assumes "returns (define_verified_value pass xs v) ys" "counts_definitions n ds xs"
  shows "counts_definitions n (ds @ [v]) ys"
proof -
  from assms(1) have v: "unat v < length xs" "xs ! unat v \<noteq> 255" "ys = xs[unat v := xs ! unat v + 1]"
    by (auto simp: define_verified_value_def list_get_def elim!: returns_thenE split: if_splits)
  have "unat (xs ! unat v) \<noteq> 255" using v(2) by (simp add: word_unat_eq_iff)
  then have "unat (xs ! unat v + 1) = Suc (unat (xs ! unat v))" using unsigned_less [of "xs ! unat v", where 'a = nat]
    by (simp add: unat_word_ariths)
  with v assms(2) show ?thesis by (auto simp: counts_definitions_def nth_list_update)
qed

lemma define_values_counts:
  assumes "returns (m_each (define_verified_value pass) xs vs) ys" "counts_definitions n ds xs"
  shows "counts_definitions n (ds @ vs) ys"
  using assms(1) by (rule returns_each [where P = "\<lambda>vs. counts_definitions n (ds @ vs)"])
    (use assms(2) define_value_counts [where ds = "ds @ _"] in \<open>auto simp: append_assoc [symmetric] simp del: append_assoc\<close>)

lemma counts_distinct:
  assumes "counts_definitions n ds xs" "\<forall>x \<in> set xs. x = 1"
  shows "distinct ds \<and> unat ` set ds = {..<n}"
proof -
  have one: "count_list (map unat ds) k = 1" if "k < n" for k
    using assms that by (metis counts_definitions_def nth_mem unat_1)
  have "count_list (map unat ds) k \<le> 1" for k
  proof (cases "k < n")
    case False
    then have "k \<notin> set (map unat ds)" using assms(1) by (auto simp: counts_definitions_def)
    then show ?thesis by (simp add: count_list_0_iff)
  qed (simp add: one)
  moreover have "distinct zs" if "\<And>k. count_list zs k \<le> 1" for zs :: "nat list"
    using that
  proof (induction zs)
    case (Cons z zs)
    have "count_list zs z = 0" using Cons.prems [of z] by simp
    moreover have "count_list zs k \<le> 1" for k using Cons.prems [of k] by (auto split: if_splits)
    ultimately show ?case using Cons.IH by (simp add: count_list_0_iff)
  qed simp
  ultimately have "distinct (map unat ds)" by blast
  moreover have "k \<in> unat ` set ds" if "k < n" for k
    using one [OF that] count_list_0_iff [of "map unat ds" k] by auto
  ultimately show ?thesis using assms(1) by (auto simp: counts_definitions_def distinct_map)
qed

subsection \<open>Verified functions\<close>

definition references_ok :: "optimization_limits \<Rightarrow> nat \<Rightarrow> flow_function \<Rightarrow> flow_block \<Rightarrow> bool" where
  "references_ok l proofs f b \<longleftrightarrow>
     (\<forall>i \<in> set (instructions b). (\<forall>v \<in> set (operation_operands (operation i)). unat v < length (value_records f)) \<and>
       (\<exists>ps. outcome (operation_proofs l (operation i)) = Inr ps \<and> (\<forall>p \<in> set ps. unat p < proofs))) \<and>
     (\<forall>v \<in> set (terminator_operands (terminator b)). unat v < length (value_records f)) \<and>
     (\<forall>e \<in> set (edge_targets (terminator b)). unat e < length (blocks f))"

definition verified :: "optimization_limits \<Rightarrow> nat \<Rightarrow> flow_function \<Rightarrow> bool" where
  "verified l proofs f \<longleftrightarrow>
     unat (entry f) < length (blocks f) \<and>
     map (\<lambda>v. unat (value_id_of v)) (value_records f) = [0..<length (value_records f)] \<and>
     map (\<lambda>b. unat (block_id_of b)) (blocks f) = [0..<length (blocks f)] \<and>
     map (\<lambda>i. unat (instruction_id_of i)) (all_instructions f) = [0..<length (all_instructions f)] \<and>
     unique_definitions f \<and> unat ` set (definitions_of f) = {..<length (value_records f)} \<and>
     (\<forall>b \<in> set (blocks f). references_ok l proofs f b)"

lemma foldl_or: "foldl (\<lambda>x v. x \<or> P v) x vs \<longleftrightarrow> x \<or> (\<exists>v \<in> set vs. P v)"
  by (induction vs arbitrary: x) auto

lemma verify_operation_ok:
  assumes "returns (verify_operation_references l pass proofs f oper) u"
  shows "(\<forall>v \<in> set (operation_operands oper). unat v < length (value_records f)) \<and>
    (\<exists>ps. outcome (operation_proofs l oper) = Inr ps \<and> (\<forall>p \<in> set ps. unat p < proofs))"
proof -
  from assms obtain ps where "\<not> foldl (\<lambda>x v. x \<or> length (value_records f) \<le> unat v) False (operation_operands oper)"
    "outcome (operation_proofs l oper) = Inr ps" "\<not> list_ex (\<lambda>p. proofs \<le> unat p) ps"
    unfolding verify_operation_references_def for_each_operation_value_def
    by (auto elim!: returns_thenE simp: returns_lift returns_guard dest!: returns_visit_all split: if_splits)
  then show ?thesis by (auto simp: foldl_or list_ex_iff not_le)
qed

lemma verify_terminator_ok:
  assumes "returns (verify_terminator_references pass f t) u"
  shows "(\<forall>v \<in> set (terminator_operands t). unat v < length (value_records f)) \<and> (\<forall>e \<in> set (edge_targets t). unat e < length (blocks f))"
proof -
  from assms have "\<not> foldl (\<lambda>x v. x \<or> length (value_records f) \<le> unat v) False (terminator_operands t)"
    "\<not> foldl (\<lambda>x b. x \<or> length (blocks f) \<le> unat b) False (edge_targets t)"
    unfolding verify_terminator_references_def for_each_terminator_value_def for_each_edge_def
    by (auto elim!: returns_thenE simp: returns_guard dest!: returns_visit_all)
  then show ?thesis by (auto simp: foldl_or not_le)
qed

definition block_verified :: "optimization_limits \<Rightarrow> nat \<Rightarrow> flow_function \<Rightarrow> flow_block list \<Rightarrow> u8 list \<times> u32 \<Rightarrow> bool" where
  "block_verified l proofs f bs st \<longleftrightarrow>
     counts_definitions (length (value_records f)) (function_parameters f @ concat (map block_definitions bs)) (fst st) \<and>
     map (\<lambda>b. unat (block_id_of b)) bs = [0..<length bs] \<and>
     map (\<lambda>i. unat (instruction_id_of i)) (concat (map instructions bs)) = [0..<unat (snd st)] \<and>
     (\<forall>b \<in> set bs. references_ok l proofs f b)"

lemma verify_instructions:
  assumes ret: "returns (m_each (verify_instruction l pass proofs f) (xs, e) is) (ys, e')"
    and start: "counts_definitions n ds xs" "map (\<lambda>i. unat (instruction_id_of i)) js = [0..<unat e]"
  shows "counts_definitions n (ds @ concat (map results is)) ys \<and>
    map (\<lambda>i. unat (instruction_id_of i)) (js @ is) = [0..<unat e'] \<and>
    (\<forall>i \<in> set is. (\<forall>v \<in> set (operation_operands (operation i)). unat v < length (value_records f)) \<and>
       (\<exists>ps. outcome (operation_proofs l (operation i)) = Inr ps \<and> (\<forall>p \<in> set ps. unat p < proofs)))"
proof -
  let ?ok = "\<lambda>i. (\<forall>v \<in> set (operation_operands (operation i)). unat v < length (value_records f)) \<and>
       (\<exists>ps. outcome (operation_proofs l (operation i)) = Inr ps \<and> (\<forall>p \<in> set ps. unat p < proofs))"
  define P where "P = (\<lambda>is (xs, e :: u32). counts_definitions n (ds @ concat (map results is)) xs \<and>
    map (\<lambda>i. unat (instruction_id_of i)) (js @ is) = [0..<unat e] \<and> (\<forall>i \<in> set is. ?ok i))"
  have "P is (ys, e')"
  proof (rule returns_each [OF ret])
    show "P [] (xs, e)" using start by (simp add: P_def)
  next
    fix "is" i u v assume P: "P is u" and r: "returns (verify_instruction l pass proofs f u i) v"
    obtain xs e where u: "u = (xs, e)" by (cases u)
    from r u obtain zs e1 where z: "instruction_id_of i = e" "checked_add_u32 e 1 = Some e1" "v = (zs, e1)"
      "returns (m_each (define_verified_value pass) xs (results i)) zs" "returns (verify_operation_references l pass proofs f (operation i)) ()"
      by (auto simp: verify_instruction_def returns_guard returns_or_err elim!: returns_thenE)
    have "counts_definitions n ((ds @ concat (map results is)) @ results i) zs"
      using P u by (intro define_values_counts [OF z(4)]) (simp add: P_def)
    with z P u verify_operation_ok [OF z(5)] show "P (is @ [i]) v"
      by (auto simp: P_def checked_add_u32_Some)
  qed
  then show ?thesis by (simp add: P_def)
qed

lemma verify_blocks:
  assumes ret: "returns (m_each (verify_block l pass proofs f) (xs, 0) (enumerate 0 (blocks f))) st"
    and start: "counts_definitions (length (value_records f)) (function_parameters f) xs"
  shows "block_verified l proofs f (blocks f) st"
proof -
  have "block_verified l proofs f (take (length (blocks f)) (blocks f)) st"
  proof (rule returns_enumerate [OF ret, where P = "\<lambda>k. block_verified l proofs f (take k (blocks f))"])
    show "block_verified l proofs f (take 0 (blocks f)) (xs, 0)" using start by (simp add: block_verified_def)
  next
    fix k u v assume k: "k < length (blocks f)" and P: "block_verified l proofs f (take k (blocks f)) u"
      and r: "returns (verify_block l pass proofs f u (0 + k, blocks f ! k)) v"
    let ?b = "blocks f ! k"
    obtain c e where u: "u = (c, e)" by (cases u)
    from r u obtain c1 c2 e2 where z: "unat (block_id_of ?b) = k" "returns (m_each (define_verified_value pass) c (parameters ?b)) c1"
      "returns (m_each (verify_instruction l pass proofs f) (c1, e) (instructions ?b)) (c2, e2)"
      "returns (verify_terminator_references pass f (terminator ?b)) ()" "v = (c2, e2)"
      by (auto simp: verify_block_def returns_guard elim!: returns_thenE)
    have cnt: "counts_definitions (length (value_records f))
        ((function_parameters f @ concat (map block_definitions (take k (blocks f)))) @ parameters ?b) c1"
      using P u by (intro define_values_counts [OF z(2)]) (simp add: block_verified_def)
    from verify_instructions [OF z(3) cnt, of "concat (map instructions (take k (blocks f)))"] P u
    have "counts_definitions (length (value_records f))
        (((function_parameters f @ concat (map block_definitions (take k (blocks f)))) @ parameters ?b) @ concat (map results (instructions ?b))) c2"
      and "map (\<lambda>i. unat (instruction_id_of i)) (concat (map instructions (take k (blocks f))) @ instructions ?b) = [0..<unat e2]"
      and "references_ok l proofs f ?b"
      using verify_terminator_ok [OF z(4)] by (auto simp: block_verified_def references_ok_def)
    with P u z k show "block_verified l proofs f (take (Suc k) (blocks f)) v"
      by (auto simp: block_verified_def take_Suc_conv_app_nth block_definitions_def)
  qed
  then show ?thesis by simp
qed

lemma returns_each_unit:
  "returns (m_each (\<lambda>_ x. m_then checkpoint (\<lambda>_. m_guard (P x) (e x))) u xs) v \<Longrightarrow> \<forall>x \<in> set xs. \<not> P x"
  by (induction xs arbitrary: u) (auto elim!: returns_thenE simp: returns_guard)

lemma verify_function_verified:
  assumes "returns (verify_function l pass rr proofs f) u"
  shows "verified l proofs f"
proof -
  let ?n = "length (value_records f)"
  from assms obtain ds ds2 e where entry: "unat (entry f) < length (blocks f)"
    and ids: "returns (m_each (\<lambda>_ (index, v). m_then checkpoint (\<lambda>_. m_guard (unat (value_id_of v) \<noteq> index)
      (ProofViolation pass ''value IDs are not dense''))) () (enumerate 0 (value_records f))) ()"
    and params: "returns (m_each (define_verified_value pass) (replicate ?n 0) (function_parameters f)) ds"
    and blk: "returns (m_each (verify_block l pass proofs f) (ds, 0) (enumerate 0 (blocks f))) (ds2, e)"
    and ones: "returns (m_each (\<lambda>_ n. m_then checkpoint (\<lambda>_. m_guard (n \<noteq> 1)
      (ProofViolation pass ''a value does not have exactly one definition''))) () ds2) ()"
    unfolding verify_function_def by (auto elim!: returns_thenE simp: returns_guard dest!: returns_filled_vec)
  have "counts_definitions ?n [] (replicate ?n 0)" by (simp add: counts_definitions_def)
  from define_values_counts [OF params this] have "counts_definitions ?n (function_parameters f) ds" by simp
  from verify_blocks [OF blk this] have bv: "block_verified l proofs f (blocks f) (ds2, e)" .
  then have "counts_definitions ?n (definitions_of f) ds2" by (simp add: block_verified_def definitions_of_def)
  moreover have "\<forall>x \<in> set ds2. x = 1" using returns_each_unit [OF ones] by simp
  ultimately have d: "distinct (definitions_of f) \<and> unat ` set (definitions_of f) = {..<?n}" by (rule counts_distinct)
  have "\<forall>(k, v) \<in> set (enumerate 0 (value_records f)). unat (value_id_of v) = k"
    using returns_each_unit [of "\<lambda>(k, v). unat (value_id_of v) \<noteq> k" "\<lambda>_. ProofViolation pass ''value IDs are not dense''"] ids
    by (fastforce simp: case_prod_unfold)
  then have "map (\<lambda>v. unat (value_id_of v)) (value_records f) = [0..<?n]"
    by (intro nth_equalityI) (force simp: in_set_enumerate_eq)+
  moreover have "length (all_instructions f) = unat e"
    using bv by (metis (no_types, lifting) all_instructions_def block_verified_def diff_zero length_map length_upt snd_conv)
  ultimately show ?thesis using bv d entry
    by (simp add: verified_def block_verified_def unique_definitions_def all_instructions_def)
qed

end
