(* ===== verification/Flow_Correct.thy ===== *)
theory Flow_Correct
  imports Flow_Verified
begin

text \<open>
  The canonical pipeline preserves the behaviour of every function: what each removing pass removes has
  no effect, and the verification between the passes supplies what the next one relies on.
\<close>

subsection \<open>Removed instructions\<close>

definition removes_only :: "(instruction \<Rightarrow> bool) \<Rightarrow> flow_function \<Rightarrow> bool list \<Rightarrow> bool" where
  "removes_only Q f removed \<longleftrightarrow>
     (\<forall>k < length removed. removed ! k \<longrightarrow> (\<exists>i \<in> set (all_instructions f). unat (instruction_id_of i) = k \<and> Q i))"

lemma removes_only_replicate [simp]: "removes_only Q f (replicate n False)"
  by (simp add: removes_only_def)

lemma removes_only_update:
  "removes_only Q f removed \<Longrightarrow> i \<in> set (all_instructions f) \<Longrightarrow> Q i \<Longrightarrow> unat (instruction_id_of i) = k \<Longrightarrow>
    removes_only Q f (removed[k := True])"
  unfolding removes_only_def by (metis length_list_update nth_list_update_neq)

lemma verified_ids:
  assumes "verified l proofs f" "i \<in> set (all_instructions f)" "j \<in> set (all_instructions f)"
    and "unat (instruction_id_of i) = unat (instruction_id_of j)"
  shows "i = j"
proof -
  have "distinct (map (\<lambda>i. unat (instruction_id_of i)) (all_instructions f))" using assms(1) by (simp add: verified_def)
  then have "inj_on (\<lambda>i. unat (instruction_id_of i)) (set (all_instructions f))" by (simp add: distinct_map)
  from inj_onD [OF this assms(4) assms(2,3)] show ?thesis .
qed

lemma removes_only_removed:
  assumes "verified l proofs f" "removes_only Q f removed" "i \<in> set (all_instructions f)" "is_removed (Some removed) i"
  shows "Q i"
proof -
  from assms(4) have "unat (instruction_id_of i) < length removed" "removed ! unat (instruction_id_of i)"
    by (auto simp: is_removed_def list_get_def split: if_splits)
  with assms(2) obtain j where "j \<in> set (all_instructions f)" "unat (instruction_id_of j) = unat (instruction_id_of i)" "Q j"
    unfolding removes_only_def by blast
  with verified_ids [OF assms(1) this(1) assms(3)] show ?thesis by simp
qed

lemma compact_removed_refines:
  assumes "verified l' proofs f" "removes_only Q f removed" "returns (compact_removed l removed f) f'"
    and "\<And>i. i \<in> set (all_instructions f) \<Longrightarrow> Q i \<Longrightarrow> silent M types f i"
  shows "refines_function M types f f'"
proof -
  from assms(3) obtain keep where "returns (compact_function l keep (Some removed) f) f'"
    unfolding compact_removed_def by (auto elim: returns_thenE)
  moreover have "unique_definitions f" using assms(1) by (simp add: verified_def)
  ultimately show ?thesis using removes_only_removed [OF assms(1,2)] assms(4) by (blast intro: compaction_refines)
qed

lemma silentI:
  assumes "\<And>env w. run_env types f env \<Longrightarrow> all_defined env (operation_operands (operation i)) \<Longrightarrow>
      \<exists>r. evaluate M types (map (\<lambda>r. the (declared_type f r)) (results i)) (map_flow_operation (\<lambda>v. the (env v)) (operation i)) w \<in> {Invalid, Yields r w}"
  shows "silent M types f i"
  unfolding silent_def
proof (intro allI impI)
  fix env :: "'a env" and w
  assume env: "run_env types f env" and ex: "exec_instruction M types (declared_type f) i env w \<noteq> Wrong"
  then have def: "all_defined env (operation_operands (operation i))" by (auto simp: exec_instruction_def split: if_splits)
  from assms [OF env def, of w] ex show "\<exists>env'. exec_instruction M types (declared_type f) i env w = Next env' w"
    by (auto simp: exec_instruction_def split: if_splits option.splits)
qed

subsection \<open>Checks\<close>

definition true_check :: "constant_table \<Rightarrow> instruction \<Rightarrow> bool" where
  "true_check cs i = (case operation i of Check c _ _ \<Rightarrow> constant_at c cs = Some (ConstBool True) | _ \<Rightarrow> False)"

lemma true_check_silent:
  assumes "exact_table types f cs" "true_check cs i"
  shows "silent M types f i"
proof (rule silentI)
  fix env :: "'a env" and w
  assume env: "run_env types f env" and def: "all_defined env (operation_operands (operation i))"
  from assms(2) obtain c k p where c: "operation i = Check c k p" "constant_at c cs = Some (ConstBool True)"
    by (auto simp: true_check_def split: flow_operation.splits)
  then have "env c \<noteq> None" using def by (simp add: operation_operands_def all_defined_def)
  from table_env [where env = env and v = c, OF assms(1) _ c(2) this] env have "the (env c) = ScalarVal (ConstBool True)" by (simp add: run_env_def)
  with c show "\<exists>r. evaluate M types (map (\<lambda>r. the (declared_type f r)) (results i)) (map_flow_operation (\<lambda>v. the (env v)) (operation i)) w
      \<in> {Invalid, Yields r w}" by (simp add: evaluate_def)
qed

lemma remove_check_only:
  assumes "returns (remove_check l f cs (removed, st) i) (removed', st')" "removes_only (true_check cs) f removed" "i \<in> set (all_instructions f)"
  shows "removes_only (true_check cs) f removed'"
proof -
  obtain sink ch where st: "st = (sink, ch)" by (cases st)
  show ?thesis
  proof (cases "true_check cs i")
    case True
    with assms(1) st have "removed' = removed[unat (instruction_id_of i) := True]"
      by (auto simp: remove_check_def true_check_def elim!: returns_thenE split: flow_operation.splits if_splits)
    with assms(2,3) True show ?thesis by (simp add: removes_only_update)
  next
    case False
    with assms(1) st have "removed' = removed"
      by (auto simp: remove_check_def true_check_def elim!: returns_thenE split: flow_operation.splits if_splits)
    with assms(2) show ?thesis by simp
  qed
qed

lemma returns_each_inv:
  assumes "returns (m_each f s xs) t" "P s" "\<And>x u v. x \<in> set xs \<Longrightarrow> P u \<Longrightarrow> returns (f u x) v \<Longrightarrow> P v"
  shows "P t"
  using assms by (auto intro: returns_each [where P = "\<lambda>_. P"])

lemma returns_each_instructions:
  assumes "returns (m_each (\<lambda>st b. m_then checkpoint (\<lambda>_. m_each g st (instructions b))) s (blocks f)) t" and "P s"
    and step: "\<And>i u v. i \<in> set (all_instructions f) \<Longrightarrow> P u \<Longrightarrow> returns (g u i) v \<Longrightarrow> P v"
  shows "P t"
proof (rule returns_each_inv [OF assms(1)])
  fix b u v assume b: "b \<in> set (blocks f)" and u: "P u" and "returns (m_then checkpoint (\<lambda>_. m_each g u (instructions b))) v"
  then obtain r: "returns (m_each g u (instructions b)) v" by (auto elim: returns_thenE)
  show "P v" by (rule returns_each_inv [OF r]) (use u step block_instructions [OF b] in blast)+
qed (rule assms(2))

lemma eliminate_checks_refines:
  assumes v: "verified l' proofs f" and ret: "returns (eliminate_checks_in l types st f) (f', st')"
  shows "refines_function M types f f'"
proof -
  obtain sink ch where st: "st = (sink, ch)" by (cases st)
  have u: "unique_definitions f" using v by (simp add: verified_def)
  from ret st obtain cs n removed sink' changed where
    seed: "returns (seed_immediates f types (replicate (length (value_records f)) None)) cs"
    and each: "returns (m_each (\<lambda>st b. m_then checkpoint (\<lambda>_. m_each (remove_check l f cs) st (instructions b)))
       (replicate n False, sink, False) (blocks f)) (removed, sink', changed)"
    and rest: "f' = f \<or> returns (compact_removed l removed f) f'"
    unfolding eliminate_checks_in_def by (fastforce elim!: returns_thenE dest!: returns_filled_vec split: if_splits)
  have tab: "exact_table types f cs" by (rule seed_exact [OF u seed])
  have "removes_only (true_check cs) f (fst (removed, sink', changed))"
  proof (rule returns_each_instructions [OF each])
    fix i u v assume "i \<in> set (all_instructions f)" "removes_only (true_check cs) f (fst u)" "returns (remove_check l f cs u i) v"
    then show "removes_only (true_check cs) f (fst v)" using remove_check_only by (cases u; cases v) fastforce
  qed simp
  then have "removes_only (true_check cs) f removed" by simp
  from compact_removed_refines [OF v this _ true_check_silent [OF tab]] rest show ?thesis by auto
qed

subsection \<open>Dead pure instructions\<close>

text \<open>Type identifiers are the positions of the types, as in every validated module.\<close>

definition dense_types :: "flow_type list \<Rightarrow> bool" where
  "dense_types types \<longleftrightarrow> map (\<lambda>t. unat (type_id_of t)) types = [0..<length types]"

lemma dense_types_at:
  assumes "dense_types types" "list_get types (unat s) = Some a" "list_get types (unat t) = Some b" "type_id_of a = type_id_of b"
  shows "s = t"
proof -
  have "unat (type_id_of (types ! k)) = k" if "k < length types" for k
    using arg_cong [OF assms(1) [unfolded dense_types_def], of "\<lambda>xs. xs ! k"] that by simp
  with assms(2-4) show ?thesis by (auto simp: list_get_def word_unat_eq_iff split: if_splits)
qed

lemma pure_language: "pure_operator op \<Longrightarrow> language_binary op a b \<noteq> Some None"
  by (cases op) (auto simp: pure_operator_def language_binary_def language_integer_def language_comparison_def language_arithmetic_def Let_def
      split: scalar_constant.splits)

lemma removable_binary_pure: "removable_binary op a b \<Longrightarrow> pure_operator op"
  by (cases op) (simp_all add: removable_binary_def pure_operator_def)

lemma removable_unary_language:
  "removable_unary op k \<Longrightarrow> constant_of_kind k c \<Longrightarrow> \<exists>r. language_unary op c = Some (Some r)"
  by (cases op; cases c) (auto simp: removable_unary_def constant_of_kind_def language_unary_def)

lemma removable_unary_comparable: "removable_unary op k \<Longrightarrow> comparable_kind k"
  by (auto simp: removable_unary_def comparable_kind_def split: unary_op.splits flow_type_kind.splits scalar_type.splits)

lemma removable_silent:
  assumes types: "dense_types types" and rem: "removable_when_dead f types i"
  shows "silent M types f i"
proof (rule silentI)
  fix env :: "'a env" and w
  assume env: "run_env types f env" and def: "all_defined env (operation_operands (operation i))"
  let ?ev = "evaluate M types (map (\<lambda>r. the (declared_type f r)) (results i)) (map_flow_operation (\<lambda>v. the (env v)) (operation i)) w"
  from rem obtain r t result where t: "results i = [r]" "declared_type f r = Some t" "list_get types (unat t) = Some result"
    and op: "removable_operation f types (operation i) t result"
    by (auto simp: removable_when_dead_def result_type_of_Some split: option.splits)
  show "\<exists>r. ?ev \<in> {Invalid, Yields r w}"
  proof (cases "operation i")
    case (Unary uop v)
    with op obtain tv operand where v: "declared_type f v = Some tv" "list_get types (unat tv) = Some operand"
      "type_id_of operand = type_id_of result" "removable_unary uop (type_kind result)"
      by (auto simp: removable_operation_def type_at_def declared_type_def bind_eq_Some_conv split: option.splits)
    have "tv = t" by (rule dense_types_at [OF types v(2) t(3) v(3)])
    moreover from def Unary obtain x where x: "env v = Some x" by (auto simp: operation_operands_def all_defined_def)
    moreover from x env obtain t' where "declared_type f v = Some t'" "of_type types t' x" by (auto simp: run_env_def typed_env_def)
    ultimately have "of_type types t x" using v(1) by simp
    then obtain c where c: "x = ScalarVal c" "constant_of_kind (type_kind result) c"
      using t(3) removable_unary_comparable [OF v(4)] by (auto simp: of_type_def kind_at_def split: val.splits)
    obtain r where "language_unary uop c = Some (Some r)" using removable_unary_language [OF v(4) c(2)] by blast
    with c(1) x Unary show ?thesis by (auto simp: evaluate_def scalar_result_def)
  next
    case (Binary bop l r)
    with op have "pure_operator bop" by (auto simp: removable_operation_def dest: removable_binary_pure split: option.splits)
    with Binary pure_language [of bop] show ?thesis
      by (auto simp: evaluate_def scalar_result_def Let_def split: val.splits option.splits)
  qed (use t op in \<open>auto simp: evaluate_def removable_operation_def split: val.splits scalar_constant.splits\<close>)
qed

definition instruction_of :: "flow_function \<Rightarrow> nat \<times> nat \<Rightarrow> instruction option" where
  "instruction_of f = (\<lambda>(b, j). Option.bind (list_get (blocks f) b) (\<lambda>blk. list_get (instructions blk) j))"

definition located :: "flow_function \<Rightarrow> (nat \<times> nat) option list \<Rightarrow> bool" where
  "located f ls \<longleftrightarrow>
     (\<forall>k < length ls. \<forall>p. ls ! k = Some p \<longrightarrow> (\<exists>i. instruction_of f p = Some i \<and> unat (instruction_id_of i) = k))"

lemma located_update:
  assumes "located f ls" "instruction_of f p = Some i"
  shows "located f (ls[unat (instruction_id_of i) := Some p])"
  using assms unfolding located_def by (metis length_list_update nth_list_update_eq nth_list_update_neq option.inject)

lemma locate_located:
  assumes "returns (m_each locate_block (counts, ds, replicate n None) (enumerate 0 (blocks f))) (counts', ds', ls)"
  shows "located f ls"
proof -
  have "located f (snd (snd (counts', ds', ls)))"
  proof (rule returns_enumerate [OF assms, where P = "\<lambda>_ st. located f (snd (snd st))"])
    fix k u v assume k: "k < length (blocks f)" and P: "located f (snd (snd u))" and r: "returns (locate_block u (0 + k, blocks f ! k)) v"
    let ?is = "instructions (blocks f ! k)"
    from r obtain c d l c' where r': "returns (m_each (locate_instruction k) u (enumerate 0 ?is)) (c, d, l)" "v = (c', d, l)"
      by (auto simp: locate_block_def elim!: returns_thenE)
    have "located f (snd (snd (c, d, l)))"
    proof (rule returns_enumerate [OF r'(1), where P = "\<lambda>_ st. located f (snd (snd st))"])
      fix j u v assume j: "j < length ?is" and P: "located f (snd (snd u))" and r: "returns (locate_instruction k u (0 + j, ?is ! j)) v"
      obtain c d l where u: "u = (c, d, l)" by (metis prod_cases3)
      with r have "snd (snd v) = l[unat (instruction_id_of (?is ! j)) := Some (k, j)]"
        by (auto simp: locate_instruction_def elim!: returns_thenE split: if_splits)
      moreover have "instruction_of f (k, j) = Some (?is ! j)" using j k by (simp add: instruction_of_def list_get_def)
      ultimately show "located f (snd (snd v))" using P u located_update by simp
    qed (rule P)
    with r'(2) show "located f (snd (snd v))" by simp
  qed (simp add: located_def)
  then show ?thesis by simp
qed

lemma instruction_at_located:
  assumes "located f ls" "outcome (instruction_at f ls d) = Inr i"
  shows "i \<in> set (all_instructions f) \<and> unat (instruction_id_of i) = unat d"
proof -
  from assms(2) obtain p where p: "unat d < length ls" "ls ! unat d = Some p" "instruction_of f p = Some i"
    by (auto simp: instruction_at_def instruction_of_def list_get_def [of ls] split: option.splits if_splits)
  then have "i \<in> set (all_instructions f)"
    by (cases p) (auto simp: instruction_of_def all_instructions_def list_get_def bind_eq_Some_conv
        intro!: bexI [of _ "blocks f ! fst p"] split: if_splits)
  moreover from assms(1) p(1,2) obtain j where "instruction_of f p = Some j" "unat (instruction_id_of j) = unat d"
    unfolding located_def by blast
  ultimately show ?thesis using p(3) by simp
qed

lemma dead_loop_removes:
  assumes "located f ls" and "returns (dead_loop f types ds ls removed queued counts pending) (removed', counts')"
    and "removes_only (removable_when_dead f types) f removed"
  shows "removes_only (removable_when_dead f types) f removed'"
  using assms(2,3,1)
proof (induction f types ds ls removed queued counts pending rule: dead_loop.induct)
  case (1 f types ds ls removed queued counts)
  then show ?case by (simp add: dead_loop.simps)
next
  case (2 f types ds ls removed queued counts d pending)
  from "2.prems"(1) obtain u where u: "returns checkpoint u" and body: "returns (case list_get removed (unat d) of
       None \<Rightarrow> proof_violation dead_pure_pass ''dead-instruction worklist contains an unknown instruction''
     | Some True \<Rightarrow> dead_loop f types ds ls removed queued counts pending
     | Some False \<Rightarrow>
         m_then (m_lift (instruction_at f ls d)) (\<lambda>i.
         m_then (if removable_when_dead f types i then m_lift (results_are_dead counts i) else m_ok False) (\<lambda>dead.
         if \<not> dead then dead_loop f types ds ls removed queued counts pending
         else
           m_then (for_each_operation_value release_use (counts, False) (operation i)) (\<lambda>(counts, failed).
           if failed then proof_violation dead_pure_pass ''dead-instruction operand use accounting underflowed''
           else
             m_then (for_each_operation_value (queue_definition f types ds ls counts) (queued, pending, False) (operation i))
               (\<lambda>(queued, pending, failed).
             if failed then proof_violation dead_pure_pass ''dead-instruction dependency lookup failed''
             else dead_loop f types ds ls (removed[unat d := True]) queued counts pending))))) (removed', counts')"
    unfolding dead_loop.simps(2) by (elim returns_thenE) blast
  show ?case
  proof (cases "list_get removed (unat d)")
    case None
    with body show ?thesis by simp
  next
    case (Some slot)
    show ?thesis
    proof (cases slot)
      case True
      with Some body have "returns (dead_loop f types ds ls removed queued counts pending) (removed', counts')" by simp
      from "2.IH"(1) [OF u _ _ this "2.prems"(2,3)] Some True show ?thesis by simp
    next
      case False
      with Some body obtain i dead where i: "returns (m_lift (instruction_at f ls d)) i"
        and dead: "returns (if removable_when_dead f types i then m_lift (results_are_dead counts i) else m_ok False) dead"
        and rest: "returns (if \<not> dead then dead_loop f types ds ls removed queued counts pending
          else
            m_then (for_each_operation_value release_use (counts, False) (operation i)) (\<lambda>(counts, failed).
            if failed then proof_violation dead_pure_pass ''dead-instruction operand use accounting underflowed''
            else
              m_then (for_each_operation_value (queue_definition f types ds ls counts) (queued, pending, False) (operation i))
                (\<lambda>(queued, pending, failed).
              if failed then proof_violation dead_pure_pass ''dead-instruction dependency lookup failed''
              else dead_loop f types ds ls (removed[unat d := True]) queued counts pending))) (removed', counts')"
        by (auto elim!: returns_thenE)
      show ?thesis
      proof (cases dead)
        case d: False
        with rest have "returns (dead_loop f types ds ls removed queued counts pending) (removed', counts')" by simp
        from "2.IH"(2) [OF u Some _ i dead _ this "2.prems"(2,3)] False d show ?thesis by simp
      next
        case d: True
        with rest obtain c1 q1 p1 where c1: "returns (for_each_operation_value release_use (counts, False) (operation i)) (c1, False)"
          and q1: "returns (for_each_operation_value (queue_definition f types ds ls c1) (queued, pending, False) (operation i)) (q1, p1, False)"
          and loop: "returns (dead_loop f types ds ls (removed[unat d := True]) q1 c1 p1) (removed', counts')"
          by (auto elim!: returns_thenE split: if_splits)
        have "removable_when_dead f types i" using dead d by (auto split: if_splits)
        moreover have "i \<in> set (all_instructions f)" "unat (instruction_id_of i) = unat d"
          using instruction_at_located [OF "2.prems"(3)] i by (auto simp: returns_lift)
        ultimately have "removes_only (removable_when_dead f types) f (removed[unat d := True])"
          using "2.prems"(2) by (simp add: removes_only_update)
        from "2.IH"(3) [OF u Some _ i dead _ c1 refl _ q1 refl refl _ loop this "2.prems"(3)] False d show ?thesis by simp
      qed
    qed
  qed
qed

lemma eliminate_dead_refines:
  assumes v: "verified l' proofs f" and types: "dense_types types" and ret: "returns (eliminate_dead_in l types st f) (f', st')"
  shows "refines_function M types f f'"
proof -
  obtain sink ch where st: "st = (sink, ch)" by (cases st)
  from ret st obtain n counts ds ls counts1 queued pending removed counts2 where
    loc: "returns (m_each locate_block (replicate (length (value_records f)) 0, replicate (length (value_records f)) None, replicate n None)
      (enumerate 0 (blocks f))) (counts1, ds, ls)"
    and loop: "returns (dead_loop f types ds ls (replicate n False) queued counts1 pending) (removed, counts2)"
    and rest: "f' = f \<or> returns (compact_removed l removed f) f'"
    unfolding eliminate_dead_in_def
    by (fastforce elim!: returns_thenE dest!: returns_filled_vec split: if_splits)
  have "removes_only (removable_when_dead f types) f removed"
    by (rule dead_loop_removes [OF locate_located [OF loc] loop]) simp
  from compact_removed_refines [OF v this _ removable_silent [OF types]] rest show ?thesis by auto
qed

lemma eliminate_unreachable_refines:
  assumes "verified l' proofs f" and "returns (eliminate_unreachable_in l st f) (f', st')"
  shows "refines_function M types f f'"
proof -
  obtain sink ch where st: "st = (sink, ch)" by (cases st)
  from assms(2) st obtain r where "f' = f \<or> returns (compact_function l r None f) f'"
    unfolding eliminate_unreachable_in_def by (fastforce elim!: returns_thenE split: if_splits)
  moreover have "unique_definitions f" using assms(1) by (simp add: verified_def)
  ultimately show ?thesis using compaction_refines [of f l r None f' M types] by (auto simp: is_removed_def)
qed

end
