(* ===== verification/Flow_Optimizer.thy ===== *)
theory Flow_Optimizer
  imports Flow_Correct
begin

text \<open>
  The canonical pipeline as a whole: behaviour is preserved, the result is verified, everything outside
  the function bodies is kept, and the test table still matches the functions.
\<close>

subsection \<open>Interfaces\<close>

definition same_interface :: "flow_function \<Rightarrow> flow_function \<Rightarrow> bool" where
  "same_interface f g \<longleftrightarrow>
     (\<exists>vs ps e bs. g = f\<lparr>value_records := vs, function_parameters := ps, entry := e, blocks := bs\<rparr>)"

lemma same_interface_refl [simp]: "same_interface f f"
  unfolding same_interface_def
  by (intro exI [of _ "value_records f"] exI [of _ "function_parameters f"] exI [of _ "entry f"] exI [of _ "blocks f"]) simp

lemma same_interface_blocks: "same_interface f (f\<lparr>blocks := bs\<rparr>)"
  unfolding same_interface_def
  by (intro exI [of _ "value_records f"] exI [of _ "function_parameters f"] exI [of _ "entry f"] exI [of _ bs]) simp

lemma same_interface_trans: "same_interface f g \<Longrightarrow> same_interface g h \<Longrightarrow> same_interface f h"
  unfolding same_interface_def by force

lemma same_interface_compact: "returns (compact_function l keep removed f) g \<Longrightarrow> same_interface f g"
  using compact_function_returns [of l keep removed f g] by (auto simp: same_interface_def)

lemma same_interface_role: "same_interface f g \<Longrightarrow> role g = role f"
  by (auto simp: same_interface_def)

subsection \<open>Folding keeps the definitions\<close>

lemma fold_block_definitions:
  assumes "returns (fold_block l types f st b) (b', st')"
  shows "block_definitions b' = block_definitions b"
proof -
  from assms obtain "is" where r: "returns (m_map_state (fold_instruction l types f) st (instructions b)) (is, st')"
    and b': "b' = b\<lparr>instructions := is\<rparr>" unfolding fold_block_def by (auto elim!: returns_thenE)
  have "results i' = results i" if "returns (fold_instruction l types f s i) (i', s')" for i i' s s'
    using fold_instruction_returns [of l types f "fst s" "fst (snd s)" "snd (snd s)" i i' "fst s'" "fst (snd s')" "snd (snd s')"] that by auto
  with returns_map_state_all2 [OF r] have "list_all2 (\<lambda>i i'. results i' = results i) (instructions b) is"
    by (auto elim!: list_all2_mono)
  then have "map results is = map results (instructions b)" by (auto simp: list_all2_conv_all_nth intro: nth_equalityI)
  with b' show ?thesis by (simp add: block_definitions_def)
qed

lemma fold_loop_definitions:
  "returns (fold_loop l maximum types f cs sink ch n) (f', st) \<Longrightarrow> (\<exists>bs. f' = f\<lparr>blocks := bs\<rparr>) \<and> definitions_of f' = definitions_of f"
proof (induction l maximum types f cs sink ch n rule: fold_loop.induct)
  case (1 l maximum types f cs sink ch n)
  from "1.prems" obtain m bs cs1 sink1 more where m: "returns (m_or_err (checked_add_u32 n 1)
      (OptimizeResourceLimit ''optimization iterations'' (u64_of_u32 maximum))) m"
    and round: "returns (m_map_state (fold_block l types f) (cs, sink, False) (blocks f)) (bs, cs1, sink1, more)"
    and rest: "f' = f\<lparr>blocks := bs\<rparr> \<or> more \<and> m \<noteq> maximum \<and>
      returns (fold_loop l maximum types (f\<lparr>blocks := bs\<rparr>) cs1 sink1 (ch \<or> more) m) (f', st)"
    unfolding fold_loop.simps [of l maximum types f] Let_def by (fastforce elim!: returns_thenE split: if_splits)
  from returns_map_state_all2 [OF round] have "list_all2 (\<lambda>b b'. block_definitions b' = block_definitions b) (blocks f) bs"
    by (rule list_all2_mono) (auto dest: fold_block_definitions)
  then have "map block_definitions bs = map block_definitions (blocks f)" by (auto simp: list_all2_conv_all_nth intro: nth_equalityI)
  then have bs: "definitions_of (f\<lparr>blocks := bs\<rparr>) = definitions_of f" by (simp add: definitions_of_def)
  show ?case
  proof (cases "f' = f\<lparr>blocks := bs\<rparr>")
    case False
    with rest have more: more "m \<noteq> maximum" and ret: "returns (fold_loop l maximum types (f\<lparr>blocks := bs\<rparr>) cs1 sink1 (ch \<or> more) m) (f', st)" by auto
    from "1.IH" [OF refl m round refl refl refl refl refl _ more(2) ret] more(1) bs show ?thesis by auto
  qed (use bs in auto)
qed

lemma fold_function_definitions:
  assumes "returns (fold_function p l types st f) (f', st')"
  shows "same_interface f f' \<and> definitions_of f' = definitions_of f"
proof -
  obtain sink ch most where st: "st = (sink, ch, most)" by (metis prod_cases3)
  from assms obtain cs x where "returns (fold_loop l (maximum_iterations p) types f cs sink ch 0) (f', x)"
    unfolding fold_function_def st by (fastforce elim!: returns_thenE)
  from fold_loop_definitions [OF this] same_interface_blocks show ?thesis by auto
qed

subsection \<open>Passes over a module\<close>

definition preserved :: "('o, 'w) machine \<Rightarrow> flow_type list \<Rightarrow> flow_function \<Rightarrow> flow_function \<Rightarrow> bool" where
  "preserved M types f g \<longleftrightarrow> same_interface f g \<and> refines_function M types f g"

lemma preserved_trans: "preserved M types f g \<Longrightarrow> preserved M types g h \<Longrightarrow> preserved M types f h"
  unfolding preserved_def by (blast intro: same_interface_trans refines_trans)

lemma fold_preserved:
  assumes "returns (fold_function p l types st f) (f', st')" "unique_definitions f'"
  shows "preserved M types f f'"
proof -
  note d = fold_function_definitions [OF assms(1)]
  then have "unique_definitions f" using assms(2) by (simp add: unique_definitions_def)
  from fold_function_returns [OF this assms(1), of M] d show ?thesis by (auto simp: preserved_def fold_inv_def)
qed

lemma simplify_preserved:
  assumes "verified l' proofs f" "returns (simplify_function l types st f) (f', st')"
  shows "preserved M types f f'"
  using simplify_function_returns [OF _ assms(2), of M] assms(1) same_interface_blocks by (auto simp: preserved_def verified_def)

lemma unreachable_preserved:
  assumes "verified l' proofs f" "returns (eliminate_unreachable_in l st f) (f', st')"
  shows "preserved M types f f'"
proof -
  have "same_interface f f'" using assms(2)
    by (cases st) (fastforce simp: eliminate_unreachable_in_def elim!: returns_thenE intro: same_interface_compact split: if_splits)
  with eliminate_unreachable_refines [OF assms] show ?thesis by (simp add: preserved_def)
qed

lemma compact_removed_interface: "returns (compact_removed l removed f) g \<Longrightarrow> same_interface f g"
  by (auto simp: compact_removed_def elim!: returns_thenE intro: same_interface_compact)

lemma checks_preserved:
  assumes "verified l' proofs f" "returns (eliminate_checks_in l types st f) (f', st')"
  shows "preserved M types f f'"
proof -
  have "same_interface f f'" using assms(2)
    by (cases st) (fastforce simp: eliminate_checks_in_def elim!: returns_thenE intro: compact_removed_interface split: if_splits)
  with eliminate_checks_refines [OF assms] show ?thesis by (simp add: preserved_def)
qed

lemma dead_preserved:
  assumes "dense_types types" "verified l' proofs f" "returns (eliminate_dead_in l types st f) (f', st')"
  shows "preserved M types f f'"
proof -
  have "same_interface f f'" using assms(3)
    by (cases st) (fastforce simp: eliminate_dead_in_def elim!: returns_thenE intro: compact_removed_interface split: if_splits)
  with eliminate_dead_refines [OF assms(2,1,3)] show ?thesis by (simp add: preserved_def)
qed

subsection \<open>The pipeline\<close>

definition module_verified :: "optimization_limits \<Rightarrow> 'c flow_wir \<Rightarrow> bool" where
  "module_verified l wir \<longleftrightarrow> (\<forall>f \<in> set (wir_functions wir). verified l (wir_proofs wir) f)"

lemma returns_each_all: "returns (m_each (\<lambda>_. g) u xs) v \<Longrightarrow> \<forall>x \<in> set xs. \<exists>w. returns (g x) w"
proof (induction xs arbitrary: u)
  case (Cons x xs)
  then show ?case by (fastforce elim!: returns_thenE)
qed simp

lemma close_pass_verified:
  assumes "returns (close_pass p l tests entries pass rr wir rounds ch before after stats) stats'" "verify_after_each_pass p"
  shows "module_verified l wir"
proof -
  from assms obtain "returns (m_each (\<lambda>_. verify_function l pass rr (wir_proofs wir)) () (wir_functions wir)) ()"
    unfolding close_pass_def verify_after_pass_def by (auto elim!: returns_thenE)
  from returns_each_all [OF this] show ?thesis unfolding module_verified_def by (blast intro: verify_function_verified)
qed

definition pass_result :: "(flow_function \<Rightarrow> flow_function \<Rightarrow> bool) \<Rightarrow> 'c flow_wir \<Rightarrow> 'c flow_wir \<Rightarrow> bool" where
  "pass_result R wir wir' \<longleftrightarrow> (\<exists>fs. list_all2 R (wir_functions wir) fs \<and> wir' = wir\<lparr>wir_functions := fs\<rparr>)"

lemma pass_result_map:
  assumes "returns (m_then (m_map_state g s (wir_functions wir)) (\<lambda>(fs, st). m_ok (wir\<lparr>wir_functions := fs\<rparr>, st))) (wir', st')"
  shows "pass_result (\<lambda>f f'. \<exists>s s'. returns (g s f) (f', s')) wir wir'"
  using assms by (auto simp: pass_result_def elim!: returns_thenE dest: returns_map_state_all2)

lemma pipeline_stages:
  assumes ret: "returns (execute_pipeline p l n wir) (wir', report)" and v: "verify_after_each_pass p"
  obtains w1 w2 w3 w4 w5 where
    "pass_result (\<lambda>f f'. \<exists>s s'. returns (fold_function p l (wir_types wir) s f) (f', s')) (wir\<lparr>wir_tests := []\<rparr>) w1" "module_verified l w1"
    "pass_result (\<lambda>f f'. \<exists>s s'. returns (simplify_function l (wir_types w1) s f) (f', s')) w1 w2" "module_verified l w2"
    "pass_result (\<lambda>f f'. \<exists>s s'. returns (eliminate_unreachable_in l s f) (f', s')) w2 w3" "module_verified l w3"
    "w4 = w3 \<or> pass_result (\<lambda>f f'. \<exists>s s'. returns (eliminate_checks_in l (wir_types w3) s f) (f', s')) w3 w4" "module_verified l w4"
    "pass_result (\<lambda>f f'. \<exists>s s'. returns (eliminate_dead_in l (wir_types w4) s f) (f', s')) w4 w5" "module_verified l w5"
    "wir' = w5\<lparr>wir_tests := wir_tests wir\<rparr>"
proof -
  let ?tests = "wir_tests wir" and ?wir = "wir\<lparr>wir_tests := []\<rparr>"
  from ret obtain s0 e w1 s1 c1 r1 t1 w2 s2 c2 t2 w3 s3 c3 n3 t3 w4 s4 n4 t4 w5 s5 c5 n5 t5 where
    1: "returns (fold_scalar_constants p l s0 ?wir) (w1, s1, c1, r1)"
    and v1: "returns (close_pass p l ?tests e ''scalar-constant-fold-v1'' False w1 r1 c1 n n []) t1"
    and 2: "returns (simplify_constant_control_flow l s1 w1) (w2, s2, c2)"
    and v2: "returns (close_pass p l ?tests e ''constant-control-flow-v1'' False w2 1 c2 n n t1) t2"
    and 3: "returns (eliminate_unreachable_blocks l s2 w2) (w3, s3, c3)"
    and v3: "returns (close_pass p l ?tests e ''unreachable-block-elimination-v1'' True w3 1 c3 n n3 t2) t3"
    and 4: "returns (if is_aggressive (profile_level p) then
         m_then (eliminate_proven_true_checks l s3 w3) (\<lambda>(wir, sink, ch).
         m_then (instruction_count wir) (\<lambda>n2.
         m_then (close_pass p l ?tests e ''proven-true-check-elimination-v1'' True wir 1 ch n3 n2 t3) (\<lambda>stats.
           m_ok (wir, sink, n2, stats))))
       else m_ok (w3, s3, n3, t3)) (w4, s4, n4, t4)"
    and 5: "returns (eliminate_dead_pure_instructions l s4 w4) (w5, s5, c5)"
    and v5: "returns (close_pass p l ?tests e dead_pure_pass True w5 1 c5 n4 n5 t4) t5"
    and wir': "wir' = w5\<lparr>wir_tests := ?tests\<rparr>"
    unfolding execute_pipeline_def Let_def by (auto elim!: returns_thenE)
  have f4: "(w4 = w3 \<or> pass_result (\<lambda>f f'. \<exists>s s'. returns (eliminate_checks_in l (wir_types w3) s f) (f', s')) w3 w4) \<and> module_verified l w4"
  proof (cases "is_aggressive (profile_level p)")
    case True
    with 4 obtain c4 where "returns (eliminate_proven_true_checks l s3 w3) (w4, s4, c4)"
      and "returns (close_pass p l ?tests e ''proven-true-check-elimination-v1'' True w4 1 c4 n3 n4 t3) t4"
      by (auto elim!: returns_thenE)
    with pass_result_map [of "eliminate_checks_in l (wir_types w3)" "(s3, False)" w3 w4] close_pass_verified [OF _ v] show ?thesis
      unfolding eliminate_proven_true_checks_def by blast
  qed (use 4 close_pass_verified [OF v3 v] in auto)
  have f1: "pass_result (\<lambda>f f'. \<exists>s s'. returns (fold_function p l (wir_types wir) s f) (f', s')) ?wir w1"
    using pass_result_map [OF 1 [unfolded fold_scalar_constants_def]] by simp
  show thesis
    by (rule that [OF f1 close_pass_verified [OF v1 v]
        pass_result_map [OF 2 [unfolded simplify_constant_control_flow_def]] close_pass_verified [OF v2 v]
        pass_result_map [OF 3 [unfolded eliminate_unreachable_blocks_def]] close_pass_verified [OF v3 v]
        conjunct1 [OF f4] conjunct2 [OF f4]
        pass_result_map [OF 5 [unfolded eliminate_dead_pure_instructions_def]] close_pass_verified [OF v5 v] wir'])
qed

lemma pass_result_preserved:
  assumes "pass_result R wir wir'" and "\<And>f f'. f \<in> set (wir_functions wir) \<Longrightarrow> f' \<in> set (wir_functions wir') \<Longrightarrow> R f f' \<Longrightarrow> preserved M types f f'"
  shows "pass_result (preserved M types) wir wir'"
proof -
  from assms(1) obtain fs where fs: "list_all2 R (wir_functions wir) fs" "wir' = wir\<lparr>wir_functions := fs\<rparr>" by (auto simp: pass_result_def)
  have "list_all2 (preserved M types) (wir_functions wir) fs"
    by (rule list.rel_mono_strong [OF fs(1)]) (use assms(2) fs(2) in simp)
  with fs(2) show ?thesis by (auto simp: pass_result_def)
qed

lemma pass_result_trans:
  "pass_result (preserved M types) u v \<Longrightarrow> pass_result (preserved M types) v w \<Longrightarrow> pass_result (preserved M types) u w"
  unfolding pass_result_def
  using list_all2_trans [of "preserved M types" "preserved M types" "preserved M types", OF preserved_trans] by fastforce

lemma pass_result_types: "pass_result R u v \<Longrightarrow> wir_types v = wir_types u"
  by (auto simp: pass_result_def)

lemma preserved_refl [simp]: "preserved M types f f"
  by (simp add: preserved_def)

lemma pipeline_result:
  assumes ret: "returns (execute_pipeline p l n wir) (wir', report)" and v: "verify_after_each_pass p" and types: "dense_types (wir_types wir)"
  shows "pass_result (preserved M (wir_types wir)) wir wir' \<and> module_verified l wir'"
proof -
  let ?T = "wir_types wir"
  obtain w1 w2 w3 w4 w5 where
    1: "pass_result (\<lambda>f f'. \<exists>s s'. returns (fold_function p l ?T s f) (f', s')) (wir\<lparr>wir_tests := []\<rparr>) w1" "module_verified l w1"
    and 2: "pass_result (\<lambda>f f'. \<exists>s s'. returns (simplify_function l (wir_types w1) s f) (f', s')) w1 w2" "module_verified l w2"
    and 3: "pass_result (\<lambda>f f'. \<exists>s s'. returns (eliminate_unreachable_in l s f) (f', s')) w2 w3" "module_verified l w3"
    and 4: "w4 = w3 \<or> pass_result (\<lambda>f f'. \<exists>s s'. returns (eliminate_checks_in l (wir_types w3) s f) (f', s')) w3 w4" "module_verified l w4"
    and 5: "pass_result (\<lambda>f f'. \<exists>s s'. returns (eliminate_dead_in l (wir_types w4) s f) (f', s')) w4 w5" "module_verified l w5"
    and wir': "wir' = w5\<lparr>wir_tests := wir_tests wir\<rparr>"
    by (rule pipeline_stages [OF ret v])
  have T: "wir_types w1 = ?T" "wir_types w2 = ?T" "wir_types w3 = ?T" "wir_types w4 = ?T"
    using pass_result_types [OF 1(1)] pass_result_types [OF 2(1)] pass_result_types [OF 3(1)] 4(1) pass_result_types [of _ w3 w4] by auto
  have r1: "pass_result (preserved M ?T) (wir\<lparr>wir_tests := []\<rparr>) w1"
    using 1(1) by (rule pass_result_preserved) (use 1(2) fold_preserved in \<open>fastforce simp: module_verified_def verified_def\<close>)
  have r2: "pass_result (preserved M ?T) w1 w2"
    using 2(1) by (rule pass_result_preserved) (use 1(2) T simplify_preserved in \<open>fastforce simp: module_verified_def\<close>)
  have r3: "pass_result (preserved M ?T) w2 w3"
    using 3(1) by (rule pass_result_preserved) (use 2(2) unreachable_preserved in \<open>fastforce simp: module_verified_def\<close>)
  have r4: "pass_result (preserved M ?T) w3 w4"
    using 4(1)
  proof
    assume "w4 = w3"
    then show ?thesis by (auto simp: pass_result_def intro!: exI [of _ "wir_functions w3"] list_all2_refl)
  next
    assume "pass_result (\<lambda>f f'. \<exists>s s'. returns (eliminate_checks_in l (wir_types w3) s f) (f', s')) w3 w4"
    then show ?thesis by (rule pass_result_preserved) (use 3(2) T checks_preserved in \<open>fastforce simp: module_verified_def\<close>)
  qed
  have r5: "pass_result (preserved M ?T) w4 w5"
    using 5(1) by (rule pass_result_preserved) (use 4(2) T dead_preserved [OF types] in \<open>fastforce simp: module_verified_def\<close>)
  have "pass_result (preserved M ?T) (wir\<lparr>wir_tests := []\<rparr>) w5"
    using r1 r2 r3 r4 r5 by (blast intro: pass_result_trans)
  with wir' 5(2) show ?thesis by (auto simp: pass_result_def module_verified_def)
qed

end
