(* ===== verification/Flow_Reach.thy ===== *)
theory Flow_Reach
  imports Flow_Optimizer
begin

text \<open>
  The reachability search marks exactly the blocks that a path of edges reaches from the entry.
\<close>

subsection \<open>Edges\<close>

definition block_edges :: "flow_block list \<Rightarrow> (nat \<times> nat) set" where
  "block_edges bs = {(a, b). a < length bs \<and> b \<in> unat ` set (edge_targets (terminator (bs ! a)))}"

definition marked_blocks :: "bool list \<Rightarrow> nat set" where
  "marked_blocks r = {k. k < length r \<and> r ! k}"

lemma mark_edges:
  assumes "foldl mark_edge (r, p, bad) es = (r', p', False)"
  shows "\<not> bad \<and> length r' = length r \<and> marked_blocks r' = marked_blocks r \<union> unat ` set es \<and>
    (\<exists>new. p' = new @ p \<and> set new \<subseteq> set es \<and> marked_blocks r' \<subseteq> marked_blocks r \<union> unat ` set new)"
  using assms
proof (induction es arbitrary: r p bad)
  case (Cons e es)
  obtain r1 p1 bad1 where one: "mark_edge (r, p, bad) e = (r1, p1, bad1)" by (metis prod_cases3)
  with Cons.prems Cons.IH [of r1 p1 bad1] have IH: "\<not> bad1" "length r' = length r1" "marked_blocks r' = marked_blocks r1 \<union> unat ` set es"
    and new: "\<exists>new. p' = new @ p1 \<and> set new \<subseteq> set es \<and> marked_blocks r' \<subseteq> marked_blocks r1 \<union> unat ` set new" by auto
  from one IH(1) have e: "unat e < length r" "\<not> bad" by (auto simp: mark_edge_def list_get_def split: if_splits bool.splits)
  show ?case
  proof (cases "r ! unat e")
    case True
    with one e have "r1 = r" "p1 = p" by (auto simp: mark_edge_def list_get_def)
    moreover have "unat e \<in> marked_blocks r" using True e by (simp add: marked_blocks_def)
    ultimately show ?thesis using IH new e by (auto intro: subset_insertI2)
  next
    case False
    with one e have r1: "r1 = r[unat e := True]" "p1 = e # p" by (auto simp: mark_edge_def list_get_def)
    then have m: "marked_blocks r1 = insert (unat e) (marked_blocks r)" using e by (auto simp: marked_blocks_def nth_list_update)
    from new obtain n where "p' = n @ p1" "set n \<subseteq> set es" "marked_blocks r' \<subseteq> marked_blocks r1 \<union> unat ` set n" by blast
    then have "p' = (n @ [e]) @ p \<and> set (n @ [e]) \<subseteq> set (e # es) \<and> marked_blocks r' \<subseteq> marked_blocks r \<union> unat ` set (n @ [e])" using m r1 by auto
    with IH e m r1 show ?thesis by auto
  qed
qed (auto simp: marked_blocks_def)

subsection \<open>The search\<close>

definition search_inv :: "flow_block list \<Rightarrow> nat \<Rightarrow> bool list \<Rightarrow> block_id list \<Rightarrow> bool" where
  "search_inv bs s r pending \<longleftrightarrow>
     length r = length bs \<and> s \<in> marked_blocks r \<and> unat ` set pending \<subseteq> marked_blocks r \<and>
     marked_blocks r \<subseteq> (block_edges bs)\<^sup>* `` {s} \<and>
     block_edges bs `` (marked_blocks r - unat ` set pending) \<subseteq> marked_blocks r"

lemma search_inv_step:
  assumes inv: "search_inv bs s r (b # pending)" and blk: "list_get bs (unat b) = Some block"
    and ret: "foldl mark_edge (r, pending, False) (edge_targets (terminator block)) = (r', pending', False)"
  shows "search_inv bs s r' pending'"
proof -
  let ?E = "block_edges bs" and ?es = "edge_targets (terminator block)"
  have b: "unat b < length bs" "block = bs ! unat b" using blk by (auto simp: list_get_def split: if_splits)
  then have succ: "?E `` {unat b} = unat ` set ?es" by (auto simp: block_edges_def)
  from mark_edges [OF ret] obtain new where m: "length r' = length r" "marked_blocks r' = marked_blocks r \<union> unat ` set ?es" "pending' = new @ pending"
    "set new \<subseteq> set ?es" "marked_blocks r' \<subseteq> marked_blocks r \<union> unat ` set new" by blast
  have bm: "unat b \<in> marked_blocks r" using inv by (simp add: search_inv_def)
  then have "unat b \<in> ?E\<^sup>* `` {s}" using inv by (auto simp: search_inv_def)
  then have reach: "unat ` set ?es \<subseteq> ?E\<^sup>* `` {s}" using succ by (auto intro: rtrancl_into_rtrancl)
  have "?E `` (marked_blocks r' - unat ` set pending') \<subseteq> marked_blocks r'"
  proof
    fix k assume "k \<in> ?E `` (marked_blocks r' - unat ` set pending')"
    then obtain a where a: "(a, k) \<in> ?E" "a \<in> marked_blocks r'" "a \<notin> unat ` set pending'" by blast
    then have "a \<in> marked_blocks r" "a \<notin> unat ` set pending" using m by auto
    then show "k \<in> marked_blocks r'"
      using inv a(1) m(2) succ by (cases "a = unat b") (auto simp: search_inv_def)
  qed
  with inv m reach show ?thesis by (auto simp: search_inv_def)
qed

lemma reach_loop_exact:
  "returns (reach_loop bs r pending) r' \<Longrightarrow> search_inv bs s r pending \<Longrightarrow> length r' = length bs \<and> marked_blocks r' = (block_edges bs)\<^sup>* `` {s}"
proof (induction bs r pending rule: reach_loop.induct)
  case (1 bs r)
  then have r': "r' = r" by (simp add: reach_loop.simps)
  have closed: "block_edges bs `` marked_blocks r \<subseteq> marked_blocks r" and s: "s \<in> marked_blocks r" using "1.prems"(2) by (auto simp: search_inv_def)
  have "k \<in> marked_blocks r" if "(s, k) \<in> (block_edges bs)\<^sup>*" for k
    using that by induction (use s closed in auto)
  with "1.prems"(2) r' show ?case by (auto simp: search_inv_def)
next
  case (2 bs r b pending)
  from "2.prems"(1) obtain u where u: "returns checkpoint u" and body: "returns (case list_get bs (unat b) of
       None \<Rightarrow> proof_violation ''unreachable-block-elimination-v1'' ''encountered an unknown block record''
     | Some block \<Rightarrow>
         m_then (for_each_edge mark_edge (r, pending, False) (terminator block)) (\<lambda>(reachable, pending, invalid).
         if invalid then proof_violation ''unreachable-block-elimination-v1'' ''encountered an unknown block edge''
         else reach_loop bs reachable pending)) r'"
    unfolding reach_loop.simps(2) by (elim returns_thenE) blast
  then obtain block r1 p1 where blk: "list_get bs (unat b) = Some block"
    and e: "returns (for_each_edge mark_edge (r, pending, False) (terminator block)) (r1, p1, False)"
    and loop: "returns (reach_loop bs r1 p1) r'"
    by (auto elim!: returns_thenE split: option.splits if_splits)
  from returns_visit_all e have f: "foldl mark_edge (r, pending, False) (edge_targets (terminator block)) = (r1, p1, False)"
    unfolding for_each_edge_def by metis
  from "2.IH" [OF u blk e refl refl _ loop search_inv_step [OF "2.prems"(2) blk f]] show ?case by simp
qed

lemma reachable_blocks_marked:
  assumes "returns (reachable_blocks l f) r"
  shows "length r = length (blocks f) \<and> marked_blocks r = (block_edges (blocks f))\<^sup>* `` {unat (entry f)}"
proof -
  from assms have e: "unat (entry f) < length (blocks f)"
    and loop: "returns (reach_loop (blocks f) ((replicate (length (blocks f)) False)[unat (entry f) := True]) [entry f]) r"
    unfolding reachable_blocks_def by (auto elim!: returns_thenE dest!: returns_filled_vec split: if_splits)
  have "marked_blocks ((replicate (length (blocks f)) False)[unat (entry f) := True]) = {unat (entry f)}"
    using e by (auto simp: marked_blocks_def nth_list_update)
  then have "search_inv (blocks f) (unat (entry f)) ((replicate (length (blocks f)) False)[unat (entry f) := True]) [entry f]"
    by (auto simp: search_inv_def)
  from reach_loop_exact [OF loop this] show ?thesis .
qed

end
