(* ===== verification/Flow_Budget.thy ===== *)
theory Flow_Budget
  imports Flow_Reach
begin

text \<open>
  How much work a metered computation needs: with that much work left, and no cancellation and no
  failing allocation, it ends with its result. The reachability search visits every block at most once
  and every edge of a visited block once, so one unit per block and per edge is enough for it.
\<close>

subsection \<open>Computations within a budget\<close>

definition within :: "nat \<Rightarrow> 'a mcomp \<Rightarrow> 'a \<Rightarrow> bool" where
  "within k c x \<longleftrightarrow>
     (\<forall>m. unat (used m) + k \<le> unat (work_limit m) \<longrightarrow>
       (\<exists>m'. outcome (c m) = Inr (x, m') \<and> work_limit m' = work_limit m \<and> unat (used m') \<le> unat (used m) + k))"

named_theorems within_intros \<open>computations within a budget\<close>

lemma within_ok [within_intros]: "within 0 (m_ok x) x"
  by (simp add: within_def m_ok_def)

lemma within_lift: "outcome c = Inr x \<Longrightarrow> within 0 (m_lift c) x"
  by (simp add: within_def m_lift_def)

lemma within_checkpoint [within_intros]: "within 1 checkpoint ()"
  unfolding within_def
proof (intro allI impI)
  fix m :: work_meter assume b: "unat (used m) + 1 \<le> unat (work_limit m)"
  have "unat (used m + 1) = unat (used m) + 1" using b u64_bound [of "work_limit m"] by (simp add: unat_word_ariths)
  with b u64_bound [of "work_limit m"] have "outcome (checkpoint m) = Inr ((), m\<lparr>used := used m + 1\<rparr>)"
    by (simp add: checkpoint_def charge_def m_then_def m_lift_def checked_add_u64_def ensure_limit_def word_less_nat_alt Let_def)
  with \<open>unat (used m + 1) = unat (used m) + 1\<close> show "\<exists>m'. outcome (checkpoint m) = Inr ((), m') \<and> work_limit m' = work_limit m \<and> unat (used m') \<le> unat (used m) + 1"
    by simp
qed

lemma withinD:
  assumes "within k c x" and "unat (used m) + k \<le> unat (work_limit m)"
  obtains m' where "outcome (c m) = Inr (x, m')" and "work_limit m' = work_limit m" and "unat (used m') \<le> unat (used m) + k"
  using assms unfolding within_def by blast

lemma within_then:
  assumes "within j c x" and "within k (f x) y"
  shows "within (j + k) (m_then c f) y"
  unfolding within_def
proof (intro allI impI)
  fix m :: work_meter assume b: "unat (used m) + (j + k) \<le> unat (work_limit m)"
  then have "unat (used m) + j \<le> unat (work_limit m)" by simp
  from withinD [OF assms(1) this] obtain m1 where
    m1: "outcome (c m) = Inr (x, m1)" "work_limit m1 = work_limit m" "unat (used m1) \<le> unat (used m) + j" .
  with b have "unat (used m1) + k \<le> unat (work_limit m1)" by simp
  from withinD [OF assms(2) this] obtain m2 where
    "outcome (f x m1) = Inr (y, m2)" "work_limit m2 = work_limit m1" "unat (used m2) \<le> unat (used m1) + k" .
  with m1 show "\<exists>m'. outcome (m_then c f m) = Inr (y, m') \<and> work_limit m' = work_limit m \<and> unat (used m') \<le> unat (used m) + (j + k)"
    by (auto simp: m_then_def)
qed

lemma within_mono: "within j c x \<Longrightarrow> j \<le> k \<Longrightarrow> within k c x"
  unfolding within_def by (meson add_le_cancel_left order_trans)

lemma within_visit_all: "within (length vs) (visit_all visit s vs) (foldl visit s vs)"
proof (induction vs arbitrary: s)
  case (Cons v vs)
  have "within (1 + 0) (m_then checkpoint (\<lambda>_. m_ok (visit s v))) (visit s v)"
    by (rule within_then [OF within_checkpoint within_ok])
  then have "within (1 + 0 + length vs) (m_then (m_then checkpoint (\<lambda>_. m_ok (visit s v))) (\<lambda>s. visit_all visit s vs)) (foldl visit (visit s v) vs)"
    using Cons by (rule within_then)
  then show ?case by (simp add: visit_all_def)
qed (simp add: visit_all_def within_ok)

lemma within_reserve: "n \<le> unat limit \<Longrightarrow> within 0 (m_lift (reserve_items n r limit)) ()"
  using u64_bound [of limit]
  by (intro within_lift) (simp add: reserve_items_def length_as_u64_def ensure_limit_def u64_try_from_def word_less_nat_alt unat_of_nat)

lemma within_filled: "n \<le> unat limit \<Longrightarrow> within 0 (filled_vec n v r limit) (replicate n v)"
  using u64_bound [of limit] unfolding filled_vec_def
  by (intro within_lift) (simp add: reserve_items_def length_as_u64_def ensure_limit_def u64_try_from_def word_less_nat_alt unat_of_nat)

subsection \<open>The work of the search\<close>

definition block_cost :: "flow_block list \<Rightarrow> nat \<Rightarrow> nat" where
  "block_cost bs k = 1 + length (edge_targets (terminator (bs ! k)))"

definition search_cost :: "flow_block list \<Rightarrow> bool list \<Rightarrow> block_id list \<Rightarrow> nat" where
  "search_cost bs r pending = sum_list (map (\<lambda>b. block_cost bs (unat b)) pending) + (\<Sum>k \<in> {..<length bs} - marked_blocks r. block_cost bs k)"

definition total_cost :: "flow_block list \<Rightarrow> nat" where
  "total_cost bs = (\<Sum>k < length bs. block_cost bs k)"

lemma mark_edge_cost:
  assumes "length r = length bs" and "unat e < length bs"
  shows "\<exists>r' p'. mark_edge (r, p, False) e = (r', p', False) \<and> length r' = length bs \<and> search_cost bs r' p' = search_cost bs r p \<and>
    set p' \<subseteq> insert e (set p)"
proof (cases "r ! unat e")
  case False
  let ?r = "r[unat e := True]"
  have step: "mark_edge (r, p, False) e = (?r, e # p, False)" using assms False by (simp add: mark_edge_def list_get_def)
  let ?rest = "{..<length bs} - marked_blocks r"
  have "unat e \<in> ?rest" using assms False by (simp add: marked_blocks_def)
  from sum.remove [OF _ this, of "block_cost bs"]
  have sum: "sum (block_cost bs) ?rest = block_cost bs (unat e) + sum (block_cost bs) (?rest - {unat e})" by simp
  have "marked_blocks ?r = insert (unat e) (marked_blocks r)" using assms by (auto simp: marked_blocks_def nth_list_update)
  then have "{..<length bs} - marked_blocks ?r = ?rest - {unat e}" by auto
  with sum have "search_cost bs ?r (e # p) = search_cost bs r p" by (simp add: search_cost_def)
  with step assms show ?thesis by auto
qed (use assms in \<open>auto simp: mark_edge_def list_get_def\<close>)

lemma mark_edges_cost:
  assumes "length r = length bs" and "\<forall>e \<in> set es. unat e < length bs"
  shows "\<exists>r' p'. foldl mark_edge (r, p, False) es = (r', p', False) \<and> length r' = length bs \<and> search_cost bs r' p' = search_cost bs r p \<and>
    set p' \<subseteq> set es \<union> set p"
  using assms
proof (induction es arbitrary: r p)
  case (Cons e es)
  from mark_edge_cost [of r bs e p] Cons.prems obtain r1 p1 where one: "mark_edge (r, p, False) e = (r1, p1, False)" "length r1 = length bs"
    "search_cost bs r1 p1 = search_cost bs r p" "set p1 \<subseteq> insert e (set p)" by auto
  from Cons.IH [of r1 p1] one(2) Cons.prems(2) obtain r2 p2 where "foldl mark_edge (r1, p1, False) es = (r2, p2, False)" "length r2 = length bs"
    "search_cost bs r2 p2 = search_cost bs r1 p1" "set p2 \<subseteq> set es \<union> set p1" by auto
  with one show ?case by auto
qed simp

lemma reach_loop_within:
  assumes edges: "\<forall>b \<in> set bs. \<forall>e \<in> set (edge_targets (terminator b)). unat e < length bs"
  shows "length r = length bs \<Longrightarrow> \<forall>b \<in> set pending. unat b < length bs \<Longrightarrow> \<exists>r'. within (search_cost bs r pending) (reach_loop bs r pending) r'"
proof (induction "search_cost bs r pending" arbitrary: r pending rule: less_induct)
  case less
  show ?case
  proof (cases pending)
    case Nil
    then show ?thesis by (auto simp: reach_loop.simps intro!: exI [of _ r] within_mono [OF within_ok])
  next
    case (Cons b p)
    let ?block = "bs ! unat b"
    have b: "list_get bs (unat b) = Some ?block" "?block \<in> set bs" using less.prems(2) Cons by (simp_all add: list_get_def)
    have es: "\<forall>e \<in> set (edge_targets (terminator ?block)). unat e < length bs" using b(2) edges by blast
    from mark_edges_cost [OF less.prems(1) this, of p] obtain r1 p1 where
      m: "foldl mark_edge (r, p, False) (edge_targets (terminator ?block)) = (r1, p1, False)" "length r1 = length bs"
      "search_cost bs r1 p1 = search_cost bs r p" "set p1 \<subseteq> set (edge_targets (terminator ?block)) \<union> set p" by blast
    have cost: "search_cost bs r pending = 1 + (length (edge_targets (terminator ?block)) + search_cost bs r1 p1)"
      using Cons m(3) by (simp add: search_cost_def block_cost_def)
    have "\<forall>b \<in> set p1. unat b < length bs" using m(4) es less.prems(2) Cons by auto
    with less.hyps [of r1 p1] cost m(2) obtain r' where r': "within (search_cost bs r1 p1) (reach_loop bs r1 p1) r'" by auto
    have visit: "within (length (edge_targets (terminator ?block))) (for_each_edge mark_edge (r, p, False) (terminator ?block)) (r1, p1, False)"
      using within_visit_all [of "edge_targets (terminator ?block)" mark_edge "(r, p, False)"] m(1) by (simp add: for_each_edge_def)
    have "within (1 + (length (edge_targets (terminator ?block)) + search_cost bs r1 p1)) (reach_loop bs r (b # p)) r'"
      unfolding reach_loop.simps(2) by (rule within_then [OF within_checkpoint]) (use b in \<open>simp, intro within_then [OF visit], simp add: r'\<close>)
    with cost Cons show ?thesis by auto
  qed
qed

lemma reachable_blocks_within:
  assumes "length (blocks f) \<le> unat (limit_blocks l)" and e: "unat (entry f) < length (blocks f)"
    and edges: "\<forall>b \<in> set (blocks f). \<forall>e \<in> set (edge_targets (terminator b)). unat e < length (blocks f)"
  shows "\<exists>r. within (total_cost (blocks f)) (reachable_blocks l f) r"
proof -
  let ?bs = "blocks f" and ?r = "(replicate (length (blocks f)) False)[unat (entry f) := True]"
  have "marked_blocks ?r = {unat (entry f)}" using e by (auto simp: marked_blocks_def nth_list_update)
  then have cost: "search_cost ?bs ?r [entry f] = total_cost ?bs"
    using e sum.remove [of "{..<length ?bs}" "unat (entry f)" "block_cost ?bs"] by (simp add: search_cost_def total_cost_def)
  from reach_loop_within [OF edges, of ?r "[entry f]"] e obtain r where r: "within (total_cost ?bs) (reach_loop ?bs ?r [entry f]) r"
    by (auto simp: cost)
  have "within (0 + (0 + total_cost ?bs)) (reachable_blocks l f) r"
    unfolding reachable_blocks_def
    by (rule within_then [OF within_filled [OF assms(1)]], rule within_then [OF within_reserve [OF assms(1)]]) (use e r in simp)
  then show ?thesis by auto
qed

end
