(* ===== verification/Flow_Properties.thy ===== *)
theory Flow_Properties
  imports Flow_Budget
begin

text \<open>
  What the optimizer guarantees: the canonical pipeline preserves the behaviour of every function, its
  result is a verified module with no unreachable block, constant folding is complete, and the search
  for reachable blocks ends within a budget known from the function. A small module is optimised here
  by evaluation.
\<close>

subsection \<open>Folding again\<close>

lemma exact_table_same: "exact_table types f cs \<Longrightarrow> exact_table types f cs' \<Longrightarrow> constant_at v cs' = constant_at v cs"
  unfolding exact_table_def by (metis option.exhaust)

lemma fold_operation_table:
  "(\<And>v. constant_at v cs' = constant_at v cs) \<Longrightarrow> fold_operation oper t cs' types = fold_operation oper t cs types"
  by (cases oper) (simp_all add: fold_operation_def split: cast_mode.splits cong: option.case_cong scalar_constant.case_cong)

lemma folded_instruction_table:
  "(\<And>v. constant_at v cs' = constant_at v cs) \<Longrightarrow> folded_instruction f types cs' i = folded_instruction f types cs i"
  by (simp add: folded_instruction_def fold_operation_table [of cs' cs])

lemma map_state_unchanged:
  assumes "returns (m_map_state g s xs) (ys, s')" and "\<And>x y t. x \<in> set xs \<Longrightarrow> returns (g s x) (y, t) \<Longrightarrow> y = x \<and> t = s"
  shows "ys = xs \<and> s' = s"
  using assms
proof (induction xs arbitrary: ys)
  case (Cons x xs)
  from Cons.prems(1) obtain y t zs where x: "returns (g s x) (y, t)" and rest: "returns (m_map_state g t xs) (zs, s')" and ys: "ys = y # zs"
    by (auto elim!: returns_thenE)
  from Cons.prems(2) [OF _ x] have "y = x" "t = s" by auto
  with Cons.IH [of zs] rest Cons.prems(2) ys show ?case by auto
qed simp

lemma fold_block_unchanged:
  assumes "returns (fold_block l types f (cs, sink, ch) b) (b', st)" and "\<forall>i \<in> set (instructions b). folded_instruction f types cs i = None"
  shows "b' = b \<and> st = (cs, sink, ch)"
proof -
  from assms(1) obtain "is" where r: "returns (m_map_state (fold_instruction l types f) (cs, sink, ch) (instructions b)) (is, st)"
    and b': "b' = b\<lparr>instructions := is\<rparr>" unfolding fold_block_def by (auto elim!: returns_thenE)
  have "is = instructions b \<and> st = (cs, sink, ch)"
    using r by (rule map_state_unchanged) (use assms(2) in \<open>auto simp: fold_instruction_def elim!: returns_thenE\<close>)
  with b' show ?thesis by simp
qed

lemma fold_again:
  assumes u: "unique_definitions f" and cs: "exact_table types f cs" "\<forall>i \<in> set (all_instructions f). folded_instruction f types cs i = None"
    and ret: "returns (fold_function p l types (sink, ch, most) f) (f', st)"
  shows "f' = f \<and> st = (sink, ch, max most 1)"
proof -
  from ret obtain cs' x where seed: "returns (seed_immediates f types (replicate (length (value_records f)) None)) cs'"
    and loop: "returns (fold_loop l (maximum_iterations p) types f cs' sink ch 0) (f', x)" and st: "st = (fst x, fst (snd x), max most (snd (snd x)))"
    unfolding fold_function_def by (fastforce elim!: returns_thenE dest: returns_filled_vec)
  have none: "\<forall>i \<in> set (all_instructions f). folded_instruction f types cs' i = None"
    using cs folded_instruction_table [OF exact_table_same [OF cs(1) seed_exact [OF u seed]]] by simp
  from loop obtain bs cs1 sink1 more where
    round: "returns (m_map_state (fold_block l types f) (cs', sink, False) (blocks f)) (bs, cs1, sink1, more)"
    and rest: "more \<or> f' = f\<lparr>blocks := bs\<rparr> \<and> x = (sink1, ch, 1)"
    unfolding fold_loop.simps [of l "maximum_iterations p" types f] Let_def
    by (fastforce elim!: returns_thenE simp: returns_or_err checked_add_u32_def split: if_splits)
  have "bs = blocks f \<and> (cs1, sink1, more) = (cs', sink, False)"
    using round by (rule map_state_unchanged) (use none in \<open>auto dest!: fold_block_unchanged simp: all_instructions_def\<close>)
  with rest st show ?thesis by auto
qed

subsection \<open>What the verification after a pass establishes\<close>

lemma all_retained_returns: "returns (all_retained ks) True \<Longrightarrow> \<forall>k \<in> set ks. k"
  by (induction ks) (auto elim!: returns_thenE split: if_splits)

definition fully_reachable :: "flow_function \<Rightarrow> bool" where
  "fully_reachable f \<longleftrightarrow> (\<forall>k < length (blocks f). (unat (entry f), k) \<in> (block_edges (blocks f))\<^sup>*)"

lemma verify_function_reachable:
  assumes "returns (verify_function l pass True proofs f) u"
  shows "fully_reachable f"
proof -
  from assms obtain r where r: "returns (reachable_blocks l f) r" and all: "returns (all_retained r) True"
    unfolding verify_function_def by (auto elim!: returns_thenE simp: returns_guard)
  from reachable_blocks_marked [OF r] have len: "length r = length (blocks f)"
    and marks: "marked_blocks r = (block_edges (blocks f))\<^sup>* `` {unat (entry f)}" by auto
  have "{..<length (blocks f)} \<subseteq> marked_blocks r"
    using all_retained_returns [OF all] len by (auto simp: marked_blocks_def)
  with marks show ?thesis by (auto simp: fully_reachable_def)
qed

definition table_linked :: "flow_function list \<Rightarrow> test_entry list \<Rightarrow> bool" where
  "table_linked fs tests \<longleftrightarrow>
     map (\<lambda>t. unat (entry_id t)) tests = [0..<length tests] \<and>
     distinct (map entry_function tests) \<and>
     (\<lambda>t. unat (entry_function t)) ` set tests = {k. k < length fs \<and> role (fs ! k) = TestRole}"

lemma verify_test_listed:
  assumes "returns (verify_test pass fs listed (k, t)) listed'" and "length listed = length fs"
  shows "unat (entry_id t) = k \<and> unat (entry_function t) < length fs \<and> unat (entry_function t) \<notin> marked_blocks listed \<and>
    length listed' = length fs \<and> marked_blocks listed' = insert (unat (entry_function t)) (marked_blocks listed)"
proof -
  from assms have "unat (entry_id t) = k" "unat (entry_function t) < length fs" "\<not> listed ! unat (entry_function t)"
    "listed' = listed[unat (entry_function t) := True]"
    unfolding verify_test_def by (auto elim!: returns_thenE simp: list_get_def split: option.splits if_splits)
  with assms(2) show ?thesis by (auto simp: marked_blocks_def nth_list_update)
qed

lemma verify_links_linked:
  assumes "returns (verify_test_table_links l pass fs tests) u"
  shows "table_linked fs tests"
proof -
  let ?f = "\<lambda>t. unat (entry_function t)"
  from assms obtain listed where entries: "returns (m_each (verify_test pass fs) (replicate (length fs) False) (enumerate 0 tests)) listed"
    and roles: "returns (m_each (\<lambda>_ (index, f). m_then checkpoint (\<lambda>_.
       m_guard ((role f = TestRole) \<noteq> listed ! index) (ProofViolation pass ''test function set drifted from test metadata'')))
       () (enumerate 0 fs)) u"
    unfolding verify_test_table_links_def by (fastforce elim!: returns_thenE dest: returns_filled_vec)
  define P where "P k listed \<longleftrightarrow> length listed = length fs \<and> marked_blocks listed = ?f ` set (take k tests) \<and>
    distinct (map entry_function (take k tests)) \<and> map (\<lambda>t. unat (entry_id t)) (take k tests) = [0..<k]" for k and listed :: "bool list"
  have "P (length tests) listed"
    using entries
  proof (rule returns_enumerate)
    show "P 0 (replicate (length fs) False)" by (auto simp: P_def marked_blocks_def)
  next
    fix k x y assume k: "k < length tests" and P: "P k x" and ret: "returns (verify_test pass fs x (0 + k, tests ! k)) y"
    with verify_test_listed [of pass fs x k "tests ! k" y]
    have new: "unat (entry_id (tests ! k)) = k" "?f (tests ! k) \<notin> marked_blocks x" "length y = length fs"
      "marked_blocks y = insert (?f (tests ! k)) (marked_blocks x)" by (auto simp: P_def)
    then have "entry_function (tests ! k) \<notin> entry_function ` set (take k tests)" using P by (auto simp: P_def)
    with new P k show "P (Suc k) y" by (auto simp: P_def take_Suc_conv_app_nth)
  qed
  then have all: "length listed = length fs" "marked_blocks listed = ?f ` set tests" "distinct (map entry_function tests)"
    "map (\<lambda>t. unat (entry_id t)) tests = [0..<length tests]" by (auto simp: P_def)
  have "\<forall>j < length fs. role (fs ! j) = TestRole \<longleftrightarrow> listed ! j"
    using roles
  proof (rule returns_enumerate)
    fix k u v assume IH: "\<forall>j < k. (role (fs ! j) = TestRole) = listed ! j"
      and "returns (case (0 + k, fs ! k) of (index, f) \<Rightarrow> m_then checkpoint (\<lambda>_.
        m_guard ((role f = TestRole) \<noteq> listed ! index) (ProofViolation pass ''test function set drifted from test metadata''))) v"
    then have "(role (fs ! k) = TestRole) = listed ! k" by (auto elim!: returns_thenE simp: returns_guard)
    with IH show "\<forall>j < Suc k. (role (fs ! j) = TestRole) = listed ! j" by (simp add: less_Suc_eq)
  qed simp
  with all show ?thesis by (auto simp: table_linked_def marked_blocks_def)
qed

lemma pipeline_closed:
  assumes "returns (execute_pipeline p l n wir) (wir', report)" and "verify_after_each_pass p"
  shows "module_verified l wir' \<and> (\<forall>f \<in> set (wir_functions wir'). fully_reachable f) \<and> table_linked (wir_functions wir') (wir_tests wir')"
proof -
  from assms(1) obtain w5 e c a b t t' where w5: "returns (close_pass p l (wir_tests wir) e dead_pure_pass True w5 1 c a b t) t'"
    and wir': "wir' = w5\<lparr>wir_tests := wir_tests wir\<rparr>"
    unfolding execute_pipeline_def Let_def by (auto elim!: returns_thenE)
  from w5 assms(2) have each: "returns (m_each (\<lambda>_. verify_function l dead_pure_pass True (wir_proofs w5)) () (wir_functions w5)) ()"
    and links: "\<exists>u. returns (verify_test_table_links l dead_pure_pass (wir_functions w5) (wir_tests wir)) u"
    unfolding close_pass_def verify_after_pass_def by (auto elim!: returns_thenE)
  from returns_each_all [OF each] verify_function_reachable links verify_links_linked wir' close_pass_verified [OF w5 assms(2)]
  show ?thesis unfolding module_verified_def by fastforce
qed

subsection \<open>A module and its optimised form\<close>

definition sample_types :: "flow_type list" where
  "sample_types = [\<lparr>type_id_of = 0, type_kind = Scalar ScalarBool, type_name = None, copyable = True, strict_linear = False\<rparr>]"

definition sample_value :: "value_id \<Rightarrow> flow_value" where
  "sample_value v = \<lparr>value_id_of = v, value_type = 0, source_name = None, value_source = None\<rparr>"

definition sample_instruction :: "instruction_id \<Rightarrow> value_id \<Rightarrow> value_id flow_operation \<Rightarrow> instruction" where
  "sample_instruction i r oper = \<lparr>instruction_id_of = i, results = [r], operation = oper, instruction_source = None\<rparr>"

definition sample_block :: "block_id \<Rightarrow> instruction list \<Rightarrow> terminator \<Rightarrow> flow_block" where
  "sample_block b is t = \<lparr>block_id_of = b, parameters = [], instructions = is, terminator = t, block_source = None\<rparr>"

text \<open>\<open>let v1 = not true; if v1 { return v0 } else { return v1 }\<close>\<close>

definition sample_function :: flow_function where
  "sample_function = \<lparr>function_id_of = 0, function_name = [], origin = SourceSemantic 0, role = TestRole, color = SyncColor,
     function_parameters = [], result_types = [0], value_records = map sample_value [0, 1],
     blocks =
       [sample_block 0 [sample_instruction 0 0 (Immediate (BoolImmediate True)), sample_instruction 1 1 (Unary BoolNot 0)]
          (Branch 1 1 [] 2 []),
        sample_block 1 [] (Return [0]),
        sample_block 2 [] (Return [1])],
     entry = 0, stack_bound = 0, frame_bound = 0, function_proofs = [], function_source = None\<rparr>"

definition sample_test :: test_entry where
  "sample_test = \<lparr>entry_id = 0, plan_id = 0, function_key = [], entry_name = [], entry_function = 0, entry_kind = Integration,
     entry_source = \<lparr>span_file = 0, span_range = \<lparr>start = 0, range_end = 0\<rparr>\<rparr>, timeout_ns = 0\<rparr>"

definition sample_wir :: "unit flow_wir" where
  "sample_wir = \<lparr>wir_types = sample_types, wir_functions = [sample_function], wir_proofs = 0, wir_tests = [sample_test], carried = ()\<rparr>"

definition sample_opt_profile :: optimization_profile where
  "sample_opt_profile = \<lparr>profile_level = DevelopmentLevel,
     pipeline = \<lparr>pipeline_name = CANONICAL_PIPELINE_NAME, revision = 3, implementation = replicate 32 1\<rparr>,
     verify_after_each_pass = True, maximum_iterations = 8, maximum_ir_growth_percent = 25\<rparr>"

definition sample_optimized :: "unit flow_wir" where
  "sample_optimized = sample_wir\<lparr>wir_functions := [sample_function\<lparr>value_records := [sample_value 0],
     blocks := [sample_block 0 [sample_instruction 0 0 (Immediate (BoolImmediate False))] (Jump 1 []), sample_block 1 [] (Return [0])]\<rparr>]\<rparr>"

definition sample_machine :: "(unit, unit) machine" where
  "sample_machine = \<lparr>opaque_immediate = \<lambda>_ _. OpaqueVal (), opaque_binary = \<lambda>_ _ _. OpaqueVal (), opaque_key = \<lambda>_. None,
     perform = \<lambda>_ _ _. Invalid, suspended = \<lambda>_ _ w. w\<rparr>"

lemma metered_outcomes:
  "outcome (m_then c f m) = (case outcome (c m) of Inl e \<Rightarrow> Inl e | Inr p \<Rightarrow> outcome (f (fst p) (snd p)))"
  "outcome (m_ok x m) = Inr (x, m)" "outcome (m_err e m) = Inl e"
  "outcome (m_lift d m) = (case outcome d of Inl e \<Rightarrow> Inl e | Inr x \<Rightarrow> Inr (x, m))"
  "outcome (m_guard b e m) = (if b then Inl e else Inr ((), m))"
  "outcome (m_or_err x' e m) = (case x' of None \<Rightarrow> Inl e | Some x \<Rightarrow> Inr (x, m))"
  by (auto simp: m_then_def m_ok_def m_err_def m_lift_def m_guard_def m_or_err_def split: sum.splits prod.splits option.splits)

lemma checkpoint_outcome:
  "unat (used m) + 1 \<le> unat (work_limit m) \<Longrightarrow> outcome (checkpoint m) = Inr ((), m\<lparr>used := used m + 1\<rparr>)"
  using u64_bound [of "work_limit m"]
  by (simp add: checkpoint_def charge_def metered_outcomes checked_add_u64_def ensure_limit_def word_less_nat_alt Let_def unat_word_ariths)

lemmas pipeline_eval = execute_pipeline_def close_pass_def verify_after_pass_def verify_function_def metered_outcomes checkpoint_outcome filled_vec_def reserve_items_def length_as_u64_def ensure_limit_def optimization_limits_standard_def
     define_verified_value_def verify_block_def verify_instruction_def verify_operation_references_def verify_terminator_references_def
    for_each_operation_value_def for_each_terminator_value_def for_each_edge_def visit_all_def operation_operands_def terminator_operands_def edge_targets_def
    operation_proofs_def list_get_def u64_try_from_def checked_add_u32_def sink_new_def pipeline_passes_def verify_test_table_links_def
    fold_scalar_constants_def fold_function_def fold_loop.simps fold_block_def fold_instruction_def seed_immediates_def seed_instruction_def
   result_type_of_def single_result_def constant_from_immediate_def kind_at_def folded_instruction_def is_immediate_def fold_operation_def constant_at_def
   fold_unary_def constant_to_immediate_def instruction_subject_def block_subject_def subject_def sink_push_def report_text_def decimal.simps
   checked_add_usize_def checked_mul_usize_def usize_limit_def checked_add_u64_def u32_try_from_def
   simplify_constant_control_flow_def simplify_function_def simplify_block_def control_choice_of_def chosen_terminator_def
   eliminate_unreachable_blocks_def eliminate_unreachable_in_def reachable_blocks_def reach_loop.simps mark_edge_def record_unreachable_def
   index_as_u32_def compact_function_def assign_block_def mark_values_def mark_value_def mark_block_def is_removed_def move_value_def map_value_def map_block_def
   count_retained_def compact_block_def compact_instruction_def map_operation_values_def map_terminator_def m_map1_def
   instruction_count_def function_instruction_count_def is_aggressive_def
   eliminate_dead_pure_instructions_def eliminate_dead_in_def instruction_total_def locate_block_def locate_instruction_def define_result_def
   charge_operation_uses_def charge_terminator_uses_def start_account_def settle_account_def count_use_def queue_dead_def removable_when_dead_def
   removable_operation_def removable_immediate_def type_at_def removable_unary_def results_are_dead_def dead_loop.simps instruction_at_def
   release_use_def queue_definition_def record_dead_def compact_removed_def str_def CANONICAL_PIPELINE_NAME_def
   sample_function_def sample_block_def sample_instruction_def sample_optimized_def sample_value_def sample_types_def sample_wir_def sample_test_def verify_test_def sample_opt_profile_def word_less_nat_alt Let_def

lemma sample_pipeline:
  "\<exists>report m. outcome (execute_pipeline sample_opt_profile optimization_limits_standard 2 sample_wir \<lparr>used = 0, work_limit = 1000\<rparr>) =
     Inr ((sample_optimized, report), m)"
  by (simp add: pipeline_eval)

lemma utf8_chars_ascii: "a < 0x80 \<Longrightarrow> \<exists>rest. utf8_chars (a # bs) = unat a # rest"
  unfolding utf8_chars_def char_indices.simps [of 0 "a # bs"] by (simp add: utf8_step.simps(2))

lemma canonical_name_visible: "\<not> list_all char_is_whitespace (utf8_chars CANONICAL_PIPELINE_NAME)"
  using utf8_chars_ascii [of 99 "tl CANONICAL_PIPELINE_NAME"]
  by (auto simp: CANONICAL_PIPELINE_NAME_def str_def char_is_whitespace_def)

lemma canonical_name_length: "length CANONICAL_PIPELINE_NAME = 22"
  by (simp add: CANONICAL_PIPELINE_NAME_def str_def)

lemma sample_profile: "outcome (validate_canonical_profile sample_opt_profile) = Inr ()"
  by (simp add: validate_canonical_profile_def optimization_profile_validate_def sample_opt_profile_def CANONICAL_PIPELINE_REVISION_def
      canonical_name_visible canonical_name_length list_all_iff [of _ "replicate _ _"])

subsection \<open>The pipeline\<close>

text \<open>C1. An optimization that succeeds preserves what the module does. Given a canonical profile and dense type
  numbers, the result differs from the input only in its functions; these correspond one to one, keep
  their identity, role, colour, signature and bounds, and whenever a run of the original function is not
  stuck, the optimised function has, after the same number of blocks, the same result and the same
  effects on the world, whatever the operations that are not scalar arithmetic do.\<close>

theorem pipeline_preserves_behaviour:
  fixes M :: "('o, 'w) machine"
  assumes "outcome (validate_canonical_profile p) = Inr ()" and "dense_types (wir_types wir)"
    and "outcome (execute_pipeline p l n wir m) = Inr ((wir', report), m')"
  shows "wir' = wir\<lparr>wir_functions := wir_functions wir'\<rparr> \<and>
    list_all2 (\<lambda>f g. same_interface f g \<and>
        (\<forall>k args w. invoke M (wir_types wir) f k args w \<noteq> Stuck \<longrightarrow> invoke M (wir_types wir) g k args w = invoke M (wir_types wir) f k args w))
      (wir_functions wir) (wir_functions wir')"
proof -
  have ret: "returns (execute_pipeline p l n wir) (wir', report)" using assms(3) by (rule returnsI)
  have "pass_result (preserved M (wir_types wir)) wir wir'"
    using pipeline_result [OF ret _ assms(2), of M] canonical_profile [OF assms(1)] by blast
  then show ?thesis by (auto simp: pass_result_def preserved_def refines_function_def elim!: list_all2_mono)
qed

theorem pipeline_preserves_behaviour_witness:
  "invoke sample_machine sample_types (wir_functions sample_wir ! 0) (Suc (Suc 0)) [] () = Returned [ScalarVal (ConstBool False)] () \<and>
   invoke sample_machine sample_types (wir_functions sample_optimized ! 0) (Suc (Suc 0)) [] () = Returned [ScalarVal (ConstBool False)] ()"
proof -
  obtain report m where run: "outcome (execute_pipeline sample_opt_profile optimization_limits_standard 2 sample_wir \<lparr>used = 0, work_limit = 1000\<rparr>) =
     Inr ((sample_optimized, report), m)" using sample_pipeline by blast
  have types: "dense_types (wir_types sample_wir)" by (simp add: dense_types_def sample_wir_def sample_types_def)
  have "invoke sample_machine sample_types (wir_functions sample_wir ! 0) (Suc (Suc 0)) [] () = Returned [ScalarVal (ConstBool False)] ()"
    by (simp add: sample_wir_def sample_function_def sample_block_def sample_instruction_def invoke_def exec_step_def list_get_def
        exec_block_def exec_instruction_def all_defined_def operation_operands_def evaluate_def
        declared_type_def sample_value_def sample_types_def of_type_def kind_at_def constant_from_immediate_def scalar_result_def
        exec_terminator_def terminator_operands_def constant_of_kind_def language_unary_def Let_def)
  with pipeline_preserves_behaviour [OF sample_profile types run, of sample_machine] show ?thesis
    by (auto simp: list_all2_conv_all_nth sample_wir_def)
qed

text \<open>C38. The module an optimization returns has, whatever the input was, the shape that the verifier between the
  passes checks: in every function the entry is a block, values, blocks and instructions are numbered
  densely, every value has exactly one definition, every value operand and every target of an edge exists,
  every proof that \<open>operation_proofs\<close> lists for an operation exists, and every block is reachable from the
  entry; the test entries are numbered densely and name exactly the functions that are tests, each once.
  Other references are not covered: identifiers of types and of called functions, and the proofs of the
  operations that \<open>operation_proofs\<close> leaves out (\<open>ExtractIndex\<close>, \<open>ActorStateAddress\<close>, \<open>ActorCapability\<close>,
  \<open>ActorReplyRequest\<close>, \<open>ActorReplyResolve\<close>).\<close>

theorem pipeline_output_verified:
  assumes "outcome (validate_canonical_profile p) = Inr ()"
    and "outcome (execute_pipeline p l n wir m) = Inr ((wir', report), m')"
  shows "(\<forall>f \<in> set (wir_functions wir'). verified l (wir_proofs wir') f \<and> fully_reachable f) \<and>
    table_linked (wir_functions wir') (wir_tests wir')"
proof -
  have ret: "returns (execute_pipeline p l n wir) (wir', report)" using assms(2) by (rule returnsI)
  from pipeline_closed [OF this] canonical_profile [OF assms(1)] show ?thesis by (auto simp: module_verified_def)
qed

theorem pipeline_output_verified_witness:
  "verified optimization_limits_standard (wir_proofs sample_optimized) (wir_functions sample_optimized ! 0) \<and>
   fully_reachable (wir_functions sample_optimized ! 0) \<and> table_linked (wir_functions sample_optimized) [sample_test]"
proof -
  obtain report m where run: "outcome (execute_pipeline sample_opt_profile optimization_limits_standard 2 sample_wir \<lparr>used = 0, work_limit = 1000\<rparr>) =
     Inr ((sample_optimized, report), m)" using sample_pipeline by blast
  from pipeline_output_verified [OF sample_profile run] show ?thesis by (simp add: sample_optimized_def sample_wir_def)
qed

subsection \<open>Constant folding\<close>

text \<open>C39. Constant folding reaches its fixpoint: folding the function that folding returned changes nothing, records no
  decision and reports a single round, whatever the profile and the limits of the second run.\<close>

theorem fold_function_idempotent:
  assumes "unique_definitions f"
    and "outcome (fold_function p l types st f m) = Inr ((f', st'), m')"
    and "outcome (fold_function q k types (sink, ch, most) f' m1) = Inr ((f'', st''), m2)"
  shows "f'' = f' \<and> st'' = (sink, ch, max most 1)"
proof -
  have first: "returns (fold_function p l types st f) (f', st')" using assms(2) by (rule returnsI)
  have second: "returns (fold_function q k types (sink, ch, most) f') (f'', st'')" using assms(3) by (rule returnsI)
  from fold_function_returns [OF assms(1) first] obtain cs where "unique_definitions f'" "exact_table types f' cs"
    "\<forall>i \<in> set (all_instructions f'). folded_instruction f' types cs i = None" by (auto simp: fold_inv_def)
  from fold_again [OF this second] show ?thesis .
qed

definition sample_folded :: flow_function where
  "sample_folded = sample_function\<lparr>blocks :=
       [sample_block 0 [sample_instruction 0 0 (Immediate (BoolImmediate True)), sample_instruction 1 1 (Immediate (BoolImmediate False))]
          (Branch 1 1 [] 2 []),
        sample_block 1 [] (Return [0]),
        sample_block 2 [] (Return [1])]\<rparr>"

lemma sample_fold:
  "\<exists>st m. outcome (fold_function sample_opt_profile optimization_limits_standard sample_types (\<lparr>sink_decisions = [], sink_bytes = 0\<rparr>, False, 0)
     sample_function \<lparr>used = 0, work_limit = 1000\<rparr>) = Inr ((sample_folded, st), m)"
  by (simp add: pipeline_eval sample_folded_def) blast

lemma sample_fold_again:
  "\<exists>f st m. outcome (fold_function sample_opt_profile optimization_limits_standard sample_types (\<lparr>sink_decisions = [], sink_bytes = 0\<rparr>, False, 0)
     sample_folded \<lparr>used = 0, work_limit = 1000\<rparr>) = Inr ((f, st), m)"
  by (simp add: pipeline_eval sample_folded_def) blast

theorem fold_function_idempotent_witness:
  "\<exists>m. outcome (fold_function sample_opt_profile optimization_limits_standard sample_types (\<lparr>sink_decisions = [], sink_bytes = 0\<rparr>, False, 0)
     sample_folded \<lparr>used = 0, work_limit = 1000\<rparr>) = Inr ((sample_folded, \<lparr>sink_decisions = [], sink_bytes = 0\<rparr>, False, 1), m)"
proof -
  have u: "unique_definitions sample_function"
    by (simp add: unique_definitions_def definitions_of_def block_definitions_def sample_function_def sample_block_def sample_instruction_def)
  from sample_fold obtain st m where 1: "outcome (fold_function sample_opt_profile optimization_limits_standard sample_types
    (\<lparr>sink_decisions = [], sink_bytes = 0\<rparr>, False, 0) sample_function \<lparr>used = 0, work_limit = 1000\<rparr>) = Inr ((sample_folded, st), m)" by blast
  from sample_fold_again obtain f st' m' where 2: "outcome (fold_function sample_opt_profile optimization_limits_standard sample_types
    (\<lparr>sink_decisions = [], sink_bytes = 0\<rparr>, False, 0) sample_folded \<lparr>used = 0, work_limit = 1000\<rparr>) = Inr ((f, st'), m')" by blast
  from fold_function_idempotent [OF u 1 2] 2 show ?thesis by simp
qed

subsection \<open>Reachable blocks\<close>

text \<open>C40. The search for reachable blocks ends and is exact. When the entry and every edge name a block, the blocks are
  within their limit, and one unit of work is left for every block and every edge, it returns, uses no
  more work than that, and marks exactly the blocks to which a path of edges leads from the entry.\<close>

theorem reachable_blocks_total:
  assumes "unat (entry f) < length (blocks f)" and "length (blocks f) \<le> unat (limit_blocks l)"
    and "\<forall>b \<in> set (blocks f). \<forall>e \<in> set (edge_targets (terminator b)). unat e < length (blocks f)"
    and "unat (used m) + total_cost (blocks f) \<le> unat (work_limit m)"
  shows "\<exists>r m'. outcome (reachable_blocks l f m) = Inr (r, m') \<and> unat (used m') \<le> unat (used m) + total_cost (blocks f) \<and>
    length r = length (blocks f) \<and> (\<forall>k < length r. r ! k \<longleftrightarrow> (unat (entry f), k) \<in> (block_edges (blocks f))\<^sup>*)"
proof -
  from reachable_blocks_within [OF assms(2,1,3)] obtain r where "within (total_cost (blocks f)) (reachable_blocks l f) r" by blast
  from withinD [OF this assms(4)] obtain m' where run: "outcome (reachable_blocks l f m) = Inr (r, m')"
    and cost: "unat (used m') \<le> unat (used m) + total_cost (blocks f)" by blast
  have "returns (reachable_blocks l f) r" using run by (rule returnsI)
  from reachable_blocks_marked [OF this] run cost show ?thesis by (force simp: marked_blocks_def)
qed

theorem reachable_blocks_total_witness:
  "\<exists>r m'. outcome (reachable_blocks optimization_limits_standard sample_function \<lparr>used = 0, work_limit = 5\<rparr>) = Inr (r, m') \<and>
    unat (used m') \<le> 5 \<and> length r = 3 \<and> (\<forall>k < length r. r ! k \<longleftrightarrow> (0, k) \<in> (block_edges (blocks sample_function))\<^sup>*)"
proof -
  have cost: "total_cost (blocks sample_function) = 5"
    by (simp add: total_cost_def block_cost_def sample_function_def sample_block_def edge_targets_def lessThan_Suc numeral_3_eq_3)
  have shape: "entry sample_function = 0" "length (blocks sample_function) = 3"
    "\<forall>b \<in> set (blocks sample_function). \<forall>e \<in> set (edge_targets (terminator b)). unat e < 3"
    by (simp_all add: sample_function_def sample_block_def edge_targets_def)
  show ?thesis
    using reachable_blocks_total [of sample_function optimization_limits_standard "\<lparr>used = 0, work_limit = 5\<rparr>"]
    by (simp add: cost shape optimization_limits_standard_def)
qed

end
