(* ===== verification/Syntax_Tokens.thy ===== *)
theory Syntax_Tokens
  imports Diagnostics
begin

text \<open>
  Tokens, limits and the sealed lexical table (\<open>crates/wrela-syntax/src/lib.rs\<close>): the vocabulary the
  scanner and the parser share, the arithmetic of parse budgets, and the validator that every lexical
  table passes before a parse result is sealed.
\<close>

subsection \<open>Tokens\<close>

type_synonym token_id = u32
type_synonym trivia_id = u32

datatype (plugins only: code size) keyword =
    KwModule | KwPub | KwImport | KwFrom | KwAs | KwConst | KwBrand | KwFn | KwInit | KwAsync | KwIsr | KwComptime
  | KwStruct | KwEnum | KwIface | KwImpl | KwFor | KwProjection | KwScope | KwImplements | KwDeriving | KwRegion
  | KwView | KwMut | KwIso | KwRead | KwTake | KwSelfValue | KwIf | KwElif | KwElse | KwMatch | KwCase | KwIn | KwNot
  | KwWhile | KwLoop | KwWith | KwEnter | KwAbort | KwExit | KwShadow | KwReturn | KwBreak | KwContinue | KwPass
  | KwAssert | KwSend | KwTry | KwYield | KwAwait | KwCopy | KwTrue | KwFalse | KwUnit | KwOr | KwAnd | KwIs

datatype (plugins only: code size) punctuation =
    At | Dot | Comma | Colon | Semicolon | LeftParen | RightParen | LeftBracket | RightBracket | LeftBrace | RightBrace
  | Arrow | Question | Pipe

datatype (plugins only: code size) operator =
    OpAssign | OpAdd | OpSubtract | OpMultiply | OpDivide | OpRemainder | OpBitAnd | OpBitOr | OpBitXor
  | OpShiftLeft | OpShiftRight | OpEqual | OpNotEqual | OpLess | OpLessEqual | OpGreater | OpGreaterEqual
  | OpAddAssign | OpSubtractAssign | OpMultiplyAssign | OpDivideAssign | OpRemainderAssign | OpBitAndAssign
  | OpBitOrAssign | OpBitXorAssign | OpShiftLeftAssign | OpShiftRightAssign | OpAddWrapping | OpSubtractWrapping
  | OpMultiplyWrapping | OpBitNot | OpRange | OpRangeInclusive

datatype (plugins only: code size) token_kind =
    IdentifierToken | IntegerLiteral | FloatLiteral | StringLiteral | ByteStringLiteral | CharacterLiteral
  | InterpolatedStringStart | InterpolatedStringText | InterpolationFormat | InterpolatedStringEnd
  | KeywordToken keyword | PunctuationToken punctuation | OperatorToken operator
  | NewlineToken | IndentToken | DedentToken | EndOfFileToken | ErrorToken

datatype (plugins only: code size) newline_origin = PhysicalNewline | SemicolonNewline | EndOfFileNewline | SyntheticRecovery

record token =
  token_ident :: token_id
  token_kind :: token_kind
  token_span :: span
  newline_origin :: "newline_origin option"
  spelling :: "text_bytes option"
  synthetic :: bool

datatype (plugins only: code size) trivia_kind = SpacesTrivia | CommentTrivia | SuppressedPhysicalNewline | BlankLine

record trivia =
  trivia_ident :: trivia_id
  trivia_kind :: trivia_kind
  trivia_span :: span

datatype (plugins only: code size) lexical_element = TokenElement token_id | TriviaElement trivia_id

record lexical_table =
  table_tokens :: "token list"
  table_trivia :: "trivia list"
  table_order :: "lexical_element list"

subsection \<open>Limits and failures\<close>

datatype (plugins only: code size) parse_failure =
    UnknownSource file_id
  | StaleOutput file_id
  | ParseCancelled
  | InvalidParseLimits
  | InvalidFragmentRange u32 u32
  | ParseResourceLimit string u64
  | InternalInvariant string

text \<open>Besides a failure of the code, a panic (an index or a slice out of range) and the exhausted fuel of
  a loop of the model, which is no value of the code.\<close>

datatype (plugins only: code size) parse_fault = Failure parse_failure | ParsePanic | OutOfFuel

type_synonym 'a scomp = "(parse_fault, 'a) comp"

definition limit_fault :: "string \<Rightarrow> u64 \<Rightarrow> parse_fault" where
  "limit_fault resource limit = Failure (ParseResourceLimit resource limit)"

definition invariant_fault :: "string \<Rightarrow> parse_fault" where
  "invariant_fault m = Failure (InternalInvariant m)"

record parse_usage =
  usage_tokens :: u32
  usage_ast_nodes :: u32
  usage_literal_bytes :: u64
  usage_diagnostics :: u32
  usage_diagnostic_bytes :: u64

record parse_limits =
  max_tokens :: u32
  max_ast_nodes :: u32
  max_nesting_depth :: u32
  max_literal_bytes :: u64
  max_diagnostics :: u32
  max_diagnostic_bytes :: u64

definition MAX_PARSE_NESTING_DEPTH :: u32 where
  "MAX_PARSE_NESTING_DEPTH = 1024"

definition usage_zero :: parse_usage where
  "usage_zero = \<lparr>usage_tokens = 0, usage_ast_nodes = 0, usage_literal_bytes = 0, usage_diagnostics = 0, usage_diagnostic_bytes = 0\<rparr>"

definition parse_limits_standard :: parse_limits where
  "parse_limits_standard = \<lparr>max_tokens = 16000000, max_ast_nodes = 16000000, max_nesting_depth = MAX_PARSE_NESTING_DEPTH,
     max_literal_bytes = push_bit 30 1, max_diagnostics = 100000, max_diagnostic_bytes = 64 * 1024 * 1024\<rparr>"

definition parse_limits_validate :: "parse_limits \<Rightarrow> unit scomp" where
  "parse_limits_validate l = guard_err
     (max_tokens l = 0 \<or> max_ast_nodes l = 0 \<or> max_nesting_depth l = 0 \<or> max_nesting_depth l > MAX_PARSE_NESTING_DEPTH)
     (Failure InvalidParseLimits)"

definition checked_usage_add_u32 :: "u32 \<Rightarrow> u32 \<Rightarrow> u32 \<Rightarrow> string \<Rightarrow> u32 scomp" where
  "checked_usage_add_u32 current added limit resource =
     and_then (or_err (checked_add_u32 current added) (limit_fault resource (u64_of_u32 limit))) (\<lambda>next.
     and_then (guard_err (next > limit) (limit_fault resource (u64_of_u32 limit))) (\<lambda>_. ok next))"

definition checked_usage_add_u64 :: "u64 \<Rightarrow> u64 \<Rightarrow> u64 \<Rightarrow> string \<Rightarrow> u64 scomp" where
  "checked_usage_add_u64 current added limit resource =
     and_then (or_err (checked_add_u64 current added) (limit_fault resource limit)) (\<lambda>next.
     and_then (guard_err (next > limit) (limit_fault resource limit)) (\<lambda>_. ok next))"

definition checked_usage_sub_u32 :: "u32 \<Rightarrow> u32 \<Rightarrow> string \<Rightarrow> u32 scomp" where
  "checked_usage_sub_u32 remains used resource =
     (if used \<le> remains then ok (remains - used) else err (limit_fault resource (u64_of_u32 remains)))"

definition checked_usage_sub_u64 :: "u64 \<Rightarrow> u64 \<Rightarrow> string \<Rightarrow> u64 scomp" where
  "checked_usage_sub_u64 remains used resource =
     (if used \<le> remains then ok (remains - used) else err (limit_fault resource remains))"

definition usage_checked_add :: "parse_usage \<Rightarrow> parse_usage \<Rightarrow> parse_limits \<Rightarrow> parse_usage scomp" where
  "usage_checked_add a b l =
     and_then (checked_usage_add_u32 (usage_tokens a) (usage_tokens b) (max_tokens l) ''tokens'') (\<lambda>t.
     and_then (checked_usage_add_u32 (usage_ast_nodes a) (usage_ast_nodes b) (max_ast_nodes l) ''AST nodes'') (\<lambda>n.
     and_then (checked_usage_add_u64 (usage_literal_bytes a) (usage_literal_bytes b) (max_literal_bytes l) ''literal bytes'') (\<lambda>lb.
     and_then (checked_usage_add_u32 (usage_diagnostics a) (usage_diagnostics b) (max_diagnostics l) ''diagnostics'') (\<lambda>d.
     and_then (checked_usage_add_u64 (usage_diagnostic_bytes a) (usage_diagnostic_bytes b) (max_diagnostic_bytes l) ''diagnostic bytes'') (\<lambda>db.
       ok \<lparr>usage_tokens = t, usage_ast_nodes = n, usage_literal_bytes = lb, usage_diagnostics = d, usage_diagnostic_bytes = db\<rparr>)))))"

definition limits_remaining_after :: "parse_limits \<Rightarrow> parse_usage \<Rightarrow> parse_limits scomp" where
  "limits_remaining_after l u =
     and_then (checked_usage_sub_u32 (max_tokens l) (usage_tokens u) ''tokens'') (\<lambda>t.
     and_then (checked_usage_sub_u32 (max_ast_nodes l) (usage_ast_nodes u) ''AST nodes'') (\<lambda>n.
     and_then (checked_usage_sub_u64 (max_literal_bytes l) (usage_literal_bytes u) ''literal bytes'') (\<lambda>lb.
     and_then (checked_usage_sub_u32 (max_diagnostics l) (usage_diagnostics u) ''diagnostics'') (\<lambda>d.
     and_then (checked_usage_sub_u64 (max_diagnostic_bytes l) (usage_diagnostic_bytes u) ''diagnostic bytes'') (\<lambda>db.
       ok \<lparr>max_tokens = t, max_ast_nodes = n, max_nesting_depth = max_nesting_depth l, max_literal_bytes = lb,
            max_diagnostics = d, max_diagnostic_bytes = db\<rparr>)))))"

subsection \<open>The validator of lexical tables\<close>

definition is_literal_token :: "token_kind \<Rightarrow> bool" where
  "is_literal_token k =
     (case k of IntegerLiteral \<Rightarrow> True | FloatLiteral \<Rightarrow> True | StringLiteral \<Rightarrow> True | ByteStringLiteral \<Rightarrow> True
      | CharacterLiteral \<Rightarrow> True | InterpolatedStringStart \<Rightarrow> True | InterpolatedStringText \<Rightarrow> True
      | InterpolationFormat \<Rightarrow> True | InterpolatedStringEnd \<Rightarrow> True | _ \<Rightarrow> False)"

definition carries_spelling :: "token_kind \<Rightarrow> bool" where
  "carries_spelling k = (case k of IdentifierToken \<Rightarrow> True | ErrorToken \<Rightarrow> True | _ \<Rightarrow> is_literal_token k)"

definition source_slice :: "source_file \<Rightarrow> text_range \<Rightarrow> text_bytes option scomp" where
  "source_slice f r = (case slice f r of Inl _ \<Rightarrow> err ParsePanic | Inr v \<Rightarrow> ok v)"

definition valid_span :: "source_file \<Rightarrow> span \<Rightarrow> bool scomp" where
  "valid_span f s =
     (if span_file s \<noteq> ident f then ok False
      else and_then (source_slice f (span_range s)) (\<lambda>v. ok (v \<noteq> None)))"

definition check_spelling :: "source_file \<Rightarrow> parse_limits \<Rightarrow> token \<Rightarrow> u64 \<Rightarrow> u64 scomp" where
  "check_spelling f l t literal_bytes =
     (case spelling t of
        None \<Rightarrow> ok literal_bytes
      | Some s \<Rightarrow>
          and_then (if synthetic t then ok False
            else and_then (source_slice f (span_range (token_span t))) (\<lambda>v. ok (v \<noteq> Some s))) (\<lambda>differs.
          and_then (guard_err differs (invariant_fault ''token spelling differs from source bytes'')) (\<lambda>_.
          if is_literal_token (token_kind t) then
            and_then (or_err (u64_try_from (length s)) (invariant_fault ''literal byte count does not fit u64'')) (\<lambda>n.
            or_err (checked_add_u64 literal_bytes n) (limit_fault ''literal bytes'' (max_literal_bytes l)))
          else ok literal_bytes)))"

definition check_token :: "source_file \<Rightarrow> parse_limits \<Rightarrow> u64 \<Rightarrow> nat \<times> token \<Rightarrow> u64 scomp" where
  "check_token f l literal_bytes = (\<lambda>(index, t).
     and_then (if unat (token_ident t) \<noteq> index then ok False else valid_span f (token_span t)) (\<lambda>valid.
     and_then (guard_err (\<not> valid) (invariant_fault ''token IDs or spans are invalid'')) (\<lambda>_.
     let empty = start (span_range (token_span t)) = range_end (span_range (token_span t)) in
     and_then (guard_err (synthetic t \<noteq> empty) (invariant_fault ''structural token synthesis disagrees with its empty span'')) (\<lambda>_.
     and_then (guard_err (token_kind t = EndOfFileToken \<and> (\<not> synthetic t \<or> \<not> empty))
       (invariant_fault ''EOF must be one synthetic empty token'')) (\<lambda>_.
     and_then (guard_err ((token_kind t = NewlineToken) \<noteq> (newline_origin t \<noteq> None) \<or>
         newline_origin t = Some SyntheticRecovery \<and> \<not> synthetic t)
       (invariant_fault ''newline origin is inconsistent'')) (\<lambda>_.
     and_then (guard_err (carries_spelling (token_kind t) \<noteq> (spelling t \<noteq> None))
       (invariant_fault ''token raw spelling is missing or attached to a derived token'')) (\<lambda>_.
     check_spelling f l t literal_bytes)))))))"

primrec bad_trivia :: "source_file \<Rightarrow> nat \<Rightarrow> trivia list \<Rightarrow> bool scomp" where
  "bad_trivia f index [] = ok False"
| "bad_trivia f index (t # ts) =
     (if unat (trivia_ident t) \<noteq> index then ok True
      else and_then (valid_span f (trivia_span t)) (\<lambda>valid.
        if \<not> valid \<or> start (span_range (trivia_span t)) = range_end (span_range (trivia_span t)) then ok True
        else bad_trivia f (Suc index) ts))"

text \<open>One element of the lossless order: the next token and trivia expected, and the end of the text
  covered so far.\<close>

definition cover_element :: "token list \<Rightarrow> trivia list \<Rightarrow> nat \<times> nat \<times> u32 \<Rightarrow> lexical_element \<Rightarrow> (nat \<times> nat \<times> u32) scomp" where
  "cover_element ts us = (\<lambda>(next_token, next_trivia, cursor) e.
     and_then
       (case e of
          TokenElement i \<Rightarrow>
            and_then (guard_err (unat i \<noteq> next_token) (invariant_fault ''token order is not canonical'')) (\<lambda>_.
            and_then (or_err (list_get ts (unat i)) ParsePanic) (\<lambda>t.
              ok (span_range (token_span t), synthetic t, next_token + 1, next_trivia)))
        | TriviaElement i \<Rightarrow>
            and_then (guard_err (unat i \<noteq> next_trivia) (invariant_fault ''trivia order is not canonical'')) (\<lambda>_.
            and_then (or_err (list_get us (unat i)) ParsePanic) (\<lambda>u.
              ok (span_range (trivia_span u), False, next_token, next_trivia + 1))))
       (\<lambda>(range, synthetic, next_token, next_trivia).
     and_then (guard_err (start range \<noteq> cursor \<or> \<not> synthetic \<and> range_end range = start range)
       (invariant_fault ''lossless lexical order has a gap, overlap, or empty physical element'')) (\<lambda>_.
       ok (next_token, next_trivia, range_end range))))"

definition validate_lexical_table :: "lexical_table \<Rightarrow> source_file \<Rightarrow> bool \<Rightarrow> parse_limits \<Rightarrow> (u32 \<times> u64) scomp" where
  "validate_lexical_table x f recovery_complete l =
     (let ts = table_tokens x; us = table_trivia x in
      and_then (guard_err (ts = [] \<or> length ts > unat (max_tokens l)) (limit_fault ''tokens'' (u64_of_u32 (max_tokens l)))) (\<lambda>_.
      and_then (for_each (check_token f l) 0 (enumerate 0 ts)) (\<lambda>literal_bytes.
      and_then (guard_err (literal_bytes > max_literal_bytes l) (limit_fault ''literal bytes'' (max_literal_bytes l))) (\<lambda>_.
      and_then (if length (filter (\<lambda>t. token_kind t = EndOfFileToken) ts) \<noteq> 1 \<or> token_kind (last ts) \<noteq> EndOfFileToken
        then ok True else bad_trivia f 0 us) (\<lambda>bad.
      and_then (guard_err bad (invariant_fault ''lexical table limits, IDs, or EOF are invalid'')) (\<lambda>_.
      and_then (for_each (cover_element ts us) (0, 0, 0) (table_order x)) (\<lambda>(next_token, next_trivia, cursor).
      and_then (or_err (u32_try_from (length (source_text f))) (invariant_fault ''source length does not fit u32'')) (\<lambda>source_bytes.
      and_then (if next_token \<noteq> length ts \<or> next_trivia \<noteq> length us then ok True
        else and_then (or_err (u32_try_from (length ts - 1)) (invariant_fault ''token count does not fit u32'')) (\<lambda>i.
          ok (table_order x = [] \<or> last (table_order x) \<noteq> TokenElement i \<or> recovery_complete \<and> cursor \<noteq> source_bytes \<or> cursor > source_bytes))) (\<lambda>uncovered.
      and_then (guard_err uncovered (invariant_fault ''lossless lexical table does not cover its declared source prefix'')) (\<lambda>_.
      and_then (or_err (u32_try_from (length ts)) (limit_fault ''tokens'' (u64_of_u32 (max_tokens l)))) (\<lambda>n.
        ok (n, literal_bytes))))))))))))"

end
