(* ===== verification/Scanner.thy ===== *)
theory Scanner
  imports Syntax_Tokens
begin

text \<open>
  The scanner of the source language (\<open>crates/wrela-syntax/src/parser.rs\<close>): indentation layout with
  hanging headers, literals with escapes, nested string interpolation, delimiters, and the recovery of
  every malformed input into a lossless table of tokens and trivia. The Unicode identifier classes and
  the normalisation are those of the crates \<open>unicode_ident\<close> and \<open>unicode_normalization\<close>, parameters here.

  A \<open>while\<close> loop of the code is \<open>while_text\<close>: it has the length of the text as fuel, which is enough for a
  loop that moves on with every round; that this is so is proved, not assumed.
\<close>

subsection \<open>Characters\<close>

record unicode =
  is_xid_start :: "nat \<Rightarrow> bool"
  is_xid_continue :: "nat \<Rightarrow> bool"
  nfc :: "nat list \<Rightarrow> nat list"

abbreviation code_point :: "char \<Rightarrow> nat" where
  "code_point c \<equiv> of_char c"

abbreviation byte_of :: "char \<Rightarrow> u8" where
  "byte_of c \<equiv> of_char c"

definition len_utf8 :: "nat \<Rightarrow> nat" where
  "len_utf8 c = (if c < 0x80 then 1 else if c < 0x800 then 2 else if c < 0x10000 then 3 else 4)"

definition char_is_ascii :: "nat \<Rightarrow> bool" where
  "char_is_ascii c \<longleftrightarrow> c < 0x80"

definition is_ascii_digit :: "u8 \<Rightarrow> bool" where
  "is_ascii_digit b \<longleftrightarrow> byte_of (CHR ''0'') \<le> b \<and> b \<le> byte_of (CHR ''9'')"

definition digit_value :: "u8 \<Rightarrow> nat option" where
  "digit_value b =
     (if is_ascii_digit b then Some (unat b - 48)
      else if byte_of (CHR ''a'') \<le> b \<and> b \<le> byte_of (CHR ''f'') then Some (unat b - 97 + 10)
      else if byte_of (CHR ''A'') \<le> b \<and> b \<le> byte_of (CHR ''F'') then Some (unat b - 65 + 10)
      else None)"

definition is_ascii_hexdigit :: "u8 \<Rightarrow> bool" where
  "is_ascii_hexdigit b \<longleftrightarrow> digit_value b \<noteq> None"

definition is_forbidden_raw_character :: "nat \<Rightarrow> bool" where
  "is_forbidden_raw_character c \<longleftrightarrow>
     c = 0x00ad \<or> c = 0x034f \<or> c = 0x061c \<or> 0x115f \<le> c \<and> c \<le> 0x1160 \<or> 0x17b4 \<le> c \<and> c \<le> 0x17b5 \<or>
     0x180b \<le> c \<and> c \<le> 0x180f \<or> 0x200b \<le> c \<and> c \<le> 0x200f \<or> 0x202a \<le> c \<and> c \<le> 0x202e \<or>
     0x2060 \<le> c \<and> c \<le> 0x206f \<or> c = 0x3164 \<or> 0xfe00 \<le> c \<and> c \<le> 0xfe0f \<or> c = 0xfeff \<or> c = 0xffa0 \<or>
     0xfff0 \<le> c \<and> c \<le> 0xfff8 \<or> 0x1bca0 \<le> c \<and> c \<le> 0x1bca3 \<or> 0x1d173 \<le> c \<and> c \<le> 0x1d17a \<or>
     0xe0000 \<le> c \<and> c \<le> 0xe0fff"

definition keyword_spellings :: "(string \<times> keyword) list" where
  "keyword_spellings =
     [(''module'', KwModule), (''pub'', KwPub), (''import'', KwImport), (''from'', KwFrom), (''as'', KwAs), (''const'', KwConst),
      (''brand'', KwBrand), (''fn'', KwFn), (''init'', KwInit), (''async'', KwAsync), (''isr'', KwIsr), (''comptime'', KwComptime),
      (''struct'', KwStruct), (''enum'', KwEnum), (''interface'', KwIface), (''impl'', KwImpl), (''for'', KwFor),
      (''projection'', KwProjection), (''scope'', KwScope), (''implements'', KwImplements), (''deriving'', KwDeriving),
      (''region'', KwRegion), (''view'', KwView), (''mut'', KwMut), (''iso'', KwIso), (''read'', KwRead), (''take'', KwTake),
      (''self'', KwSelfValue), (''if'', KwIf), (''elif'', KwElif), (''else'', KwElse), (''match'', KwMatch), (''case'', KwCase),
      (''in'', KwIn), (''not'', KwNot), (''while'', KwWhile), (''loop'', KwLoop), (''with'', KwWith), (''enter'', KwEnter),
      (''abort'', KwAbort), (''exit'', KwExit), (''shadow'', KwShadow), (''return'', KwReturn), (''break'', KwBreak),
      (''continue'', KwContinue), (''pass'', KwPass), (''assert'', KwAssert), (''send'', KwSend), (''try'', KwTry),
      (''yield'', KwYield), (''await'', KwAwait), (''copy'', KwCopy), (''true'', KwTrue), (''false'', KwFalse), (''unit'', KwUnit),
      (''or'', KwOr), (''and'', KwAnd), (''is'', KwIs)]"

definition keyword_of :: "text_bytes \<Rightarrow> keyword option" where
  "keyword_of s = map_of (map (\<lambda>(k, v). (str k, v)) keyword_spellings) s"

text \<open>The numbers that appear in messages: decimal, and hexadecimal with at least four digits.\<close>

fun decimal_text :: "nat \<Rightarrow> text_bytes" where
  "decimal_text n = (if n < 10 then [48 + word_of_nat n] else decimal_text (n div 10) @ [48 + word_of_nat (n mod 10)])"

declare decimal_text.simps [simp del]

definition hex_digit :: "nat \<Rightarrow> u8" where
  "hex_digit d = (if d < 10 then 48 + word_of_nat d else 55 + word_of_nat d)"

fun hex_text :: "nat \<Rightarrow> text_bytes" where
  "hex_text n = (if n < 16 then [hex_digit n] else hex_text (n div 16) @ [hex_digit (n mod 16)])"

declare hex_text.simps [simp del]

definition hex4_text :: "nat \<Rightarrow> text_bytes" where
  "hex4_text n = (let t = hex_text n in replicate (4 - length t) 48 @ t)"

definition char_debug :: "nat \<Rightarrow> text_bytes" where
  "char_debug c = [0x27, word_of_nat c, 0x27]"

subsection \<open>State\<close>

record diagnostic_sink =
  sink_file :: file_id
  sink_limits :: parse_limits
  sink_text_bytes :: u64
  sink_diagnostics :: "diagnostic list"

record scanner =
  scan_source :: source_file
  scan_limits :: parse_limits
  sink :: diagnostic_sink
  poll_work :: u32
  scan_position :: nat
  at_line_start :: bool
  prepared_dedent_at :: "nat option"
  hanging_header_at :: "nat option"
  hanging_header_continuation :: bool
  indentation :: "nat list"
  delimiters :: "(nat \<times> nat) list"
  scan_tokens :: "token list"
  scan_trivia :: "trivia list"
  scan_order :: "lexical_element list"
  literal_bytes :: u64
  interpolation_depth :: u32

record significant_line =
  line_indentation :: nat
  prefix_start :: nat
  prefix_end :: nat
  code_offset :: "nat option"

abbreviation scan_text :: "scanner \<Rightarrow> text_bytes" where
  "scan_text st \<equiv> source_text (scan_source st)"

definition sink_start :: "file_id \<Rightarrow> parse_limits \<Rightarrow> diagnostic_sink" where
  "sink_start f l = \<lparr>sink_file = f, sink_limits = l, sink_text_bytes = 0, sink_diagnostics = []\<rparr>"

definition scanner_start :: "source_file \<Rightarrow> parse_limits \<Rightarrow> diagnostic_sink \<Rightarrow> scanner" where
  "scanner_start f l s = \<lparr>scan_source = f, scan_limits = l, sink = s, poll_work = 0, scan_position = 0, at_line_start = True,
     prepared_dedent_at = None, hanging_header_at = None, hanging_header_continuation = False, indentation = [0],
     delimiters = [], scan_tokens = [], scan_trivia = [], scan_order = [], literal_bytes = 0, interpolation_depth = 0\<rparr>"

subsection \<open>Steps\<close>

definition CANCELLATION_POLL_INTERVAL :: u32 where
  "CANCELLATION_POLL_INTERVAL = 256"

definition work :: "scanner \<Rightarrow> scanner scomp" where
  "work st =
     (let n = poll_work st + 1 in
      if n = CANCELLATION_POLL_INTERVAL
      then and_then (ask (Failure ParseCancelled)) (\<lambda>_. ok (st\<lparr>poll_work := 0\<rparr>))
      else ok (st\<lparr>poll_work := n\<rparr>))"

definition sink_error :: "diagnostic_sink \<Rightarrow> string \<Rightarrow> nat \<Rightarrow> nat \<Rightarrow> text_bytes \<Rightarrow> diagnostic_sink scomp" where
  "sink_error s code_text from till message_text =
     (let count_fault = limit_fault ''diagnostics'' (u64_of_u32 (max_diagnostics (sink_limits s)));
          bytes_fault = limit_fault ''diagnostic bytes'' (max_diagnostic_bytes (sink_limits s)) in
      and_then (guard_err (length (sink_diagnostics s) \<ge> unat (max_diagnostics (sink_limits s))) count_fault) (\<lambda>_.
      and_then (or_err (u64_try_from (length code_text + length message_text)) bytes_fault) (\<lambda>added.
      and_then (or_err (checked_add_u64 (sink_text_bytes s) added) bytes_fault) (\<lambda>next.
      and_then (guard_err (next > max_diagnostic_bytes (sink_limits s)) bytes_fault) (\<lambda>_.
      and_then (ask count_fault) (\<lambda>_.
      let d = diagnostic_error SYNTAX
            \<lparr>span_file = sink_file s, span_range = \<lparr>start = word_of_nat from, range_end = word_of_nat till\<rparr>\<rparr> message_text in
      ok (s\<lparr>sink_text_bytes := next, sink_diagnostics := sink_diagnostics s @ [d\<lparr>code := Some (str code_text)\<rparr>]\<rparr>)))))))"

definition report :: "scanner \<Rightarrow> string \<Rightarrow> nat \<Rightarrow> nat \<Rightarrow> text_bytes \<Rightarrow> scanner scomp" where
  "report st code_text from till message_text =
     and_then (sink_error (sink st) code_text from till message_text) (\<lambda>s. ok (st\<lparr>sink := s\<rparr>))"

definition report_if :: "bool \<Rightarrow> scanner \<Rightarrow> string \<Rightarrow> nat \<Rightarrow> nat \<Rightarrow> text_bytes \<Rightarrow> scanner scomp" where
  "report_if b st code_text from till message_text = (if b then report st code_text from till message_text else ok st)"

definition remaining :: "scanner \<Rightarrow> text_bytes scomp" where
  "remaining st =
     (if is_char_boundary (scan_text st) (scan_position st) then ok (drop (scan_position st) (scan_text st)) else err ParsePanic)"

definition current_char :: "scanner \<Rightarrow> nat scomp" where
  "current_char st =
     and_then (remaining st) (\<lambda>r.
       case utf8_step r of
         None \<Rightarrow> err (invariant_fault ''scanner requested a character at end of input'')
       | Some (c, _) \<Rightarrow> ok c)"

definition starts_with :: "text_bytes \<Rightarrow> text_bytes \<Rightarrow> bool" where
  "starts_with t p \<longleftrightarrow> take (length p) t = p"

text \<open>\<open>self.remaining().starts_with(..)\<close> where a character was just read at the position.\<close>

definition looking_at :: "scanner \<Rightarrow> text_bytes \<Rightarrow> bool" where
  "looking_at st p \<longleftrightarrow> starts_with (drop (scan_position st) (scan_text st)) p"

definition advance :: "scanner \<Rightarrow> nat \<Rightarrow> scanner" where
  "advance st n = st\<lparr>scan_position := scan_position st + n\<rparr>"

definition text_byte :: "scanner \<Rightarrow> nat \<Rightarrow> u8 option" where
  "text_byte st i = list_get (scan_text st) i"

definition span_at :: "scanner \<Rightarrow> nat \<Rightarrow> nat \<Rightarrow> span" where
  "span_at st from till = \<lparr>span_file = ident (scan_source st), span_range = \<lparr>start = word_of_nat from, range_end = word_of_nat till\<rparr>\<rparr>"

definition text_slice :: "text_bytes \<Rightarrow> nat \<Rightarrow> nat \<Rightarrow> text_bytes scomp" where
  "text_slice t from till =
     (if from \<le> till \<and> is_char_boundary t from \<and> is_char_boundary t till then ok (take (till - from) (drop from t)) else err ParsePanic)"

subsection \<open>Loops\<close>

primrec iterate :: "nat \<Rightarrow> ('s \<Rightarrow> ('s + 'r) scomp) \<Rightarrow> 's \<Rightarrow> 'r scomp" where
  "iterate 0 body s = err OutOfFuel"
| "iterate (Suc n) body s = and_then (body s) (\<lambda>x. case x of Inl s \<Rightarrow> iterate n body s | Inr r \<Rightarrow> ok r)"

text \<open>\<open>while self.position < self.text.len()\<close>: the body goes on with \<open>Inl\<close> and leaves the loop with \<open>Inr\<close>.\<close>

definition while_text :: "('x \<times> scanner \<Rightarrow> ('x \<times> scanner + 'r) scomp) \<Rightarrow> ('x \<times> scanner \<Rightarrow> 'r) \<Rightarrow> 'x \<times> scanner \<Rightarrow> 'r scomp" where
  "while_text body exit s =
     iterate (Suc (length (scan_text (snd s))))
       (\<lambda>s. if scan_position (snd s) < length (scan_text (snd s)) then body s else ok (Inr (exit s))) s"

definition skip_bytes :: "(u8 \<Rightarrow> bool) \<Rightarrow> scanner \<Rightarrow> scanner scomp" where
  "skip_bytes p st =
     while_text (\<lambda>(_, st).
       if p (scan_text st ! scan_position st)
       then and_then (work (advance st 1)) (\<lambda>st. ok (Inl ((), st)))
       else ok (Inr st)) snd ((), st)"

subsection \<open>The table\<close>

definition check_token_capacity :: "scanner \<Rightarrow> unit scomp" where
  "check_token_capacity st =
     (let tokens_fault = limit_fault ''tokens'' (u64_of_u32 (max_tokens (scan_limits st))) in
      and_then (guard_err (length (scan_tokens st) \<ge> unat (max_tokens (scan_limits st))) tokens_fault) (\<lambda>_.
      and_then (ask tokens_fault) (\<lambda>_.
      ask (limit_fault ''lexical elements'' (u64_of_u32 (max_tokens (scan_limits st)))))))"

definition push_token :: "token_kind \<Rightarrow> nat \<Rightarrow> nat \<Rightarrow> newline_origin option \<Rightarrow> text_bytes option \<Rightarrow> bool \<Rightarrow> scanner \<Rightarrow> scanner" where
  "push_token kind from till origin raw synth st =
     (let i = word_of_nat (length (scan_tokens st)) in
      st\<lparr>scan_tokens := scan_tokens st @ [\<lparr>token_ident = i, token_kind = kind, token_span = span_at st from till,
             newline_origin = origin, spelling = raw, synthetic = synth\<rparr>],
         scan_order := scan_order st @ [TokenElement i]\<rparr>)"

definition push_physical :: "token_kind \<Rightarrow> nat \<Rightarrow> nat \<Rightarrow> newline_origin option \<Rightarrow> bool \<Rightarrow> scanner \<Rightarrow> scanner scomp" where
  "push_physical kind from till origin with_spelling st =
     (let bytes_fault = limit_fault ''literal bytes'' (max_literal_bytes (scan_limits st)) in
      and_then (check_token_capacity st) (\<lambda>_.
      if with_spelling then
        and_then
          (if is_literal_token kind then
             and_then (or_err (u64_try_from (till - from)) bytes_fault) (\<lambda>n.
             and_then (or_err (checked_add_u64 (literal_bytes st) n) bytes_fault) (\<lambda>next.
             and_then (guard_err (next > max_literal_bytes (scan_limits st)) bytes_fault) (\<lambda>_.
               ok (st\<lparr>literal_bytes := next\<rparr>))))
           else ok st) (\<lambda>st.
        and_then (text_slice (scan_text st) from till) (\<lambda>raw.
          ok (push_token kind from till origin (Some raw) False st)))
      else ok (push_token kind from till origin None False st)))"

definition push_synthetic :: "token_kind \<Rightarrow> nat \<Rightarrow> newline_origin option \<Rightarrow> scanner \<Rightarrow> scanner scomp" where
  "push_synthetic kind at origin st =
     and_then (check_token_capacity st) (\<lambda>_. ok (push_token kind at at origin None True st))"

definition push_trivia :: "trivia_kind \<Rightarrow> nat \<Rightarrow> nat \<Rightarrow> scanner \<Rightarrow> scanner scomp" where
  "push_trivia kind from till st =
     and_then (ask (limit_fault ''lexical trivia'' (u64_of_u32 (max_tokens (scan_limits st))))) (\<lambda>_.
     and_then (ask (limit_fault ''lexical elements'' (u64_of_u32 (max_tokens (scan_limits st))))) (\<lambda>_.
     let i = word_of_nat (length (scan_trivia st)) in
     ok (st\<lparr>scan_trivia := scan_trivia st @ [\<lparr>trivia_ident = i, trivia_kind = kind, trivia_span = span_at st from till\<rparr>],
            scan_order := scan_order st @ [TriviaElement i]\<rparr>)))"

subsection \<open>Layout\<close>

definition current_indentation :: "scanner \<Rightarrow> nat scomp" where
  "current_indentation st =
     (if indentation st = [] then err (invariant_fault ''scanner lost its root indentation'') else ok (last (indentation st)))"

definition tab_stop :: "nat \<Rightarrow> nat" where
  "tab_stop n = (n div 4 + 1) * 4"

definition nesting_fault :: "scanner \<Rightarrow> parse_fault" where
  "nesting_fault st = limit_fault ''scanner nesting depth'' (u64_of_u32 (max_nesting_depth (scan_limits st)))"

text \<open>The loops that close indentation levels: \<open>open_level\<close> is the condition on the innermost level beside the
  guard that the root level stays, and \<open>act\<close> what is done for each level that is closed.\<close>

function close_levels :: "(nat \<Rightarrow> bool) \<Rightarrow> (scanner \<Rightarrow> scanner scomp) \<Rightarrow> nat \<Rightarrow> scanner \<Rightarrow> (scanner \<times> nat) scomp" where
  "close_levels open_level act closed st =
     (if length (indentation st) > 1 \<and> open_level (last (indentation st)) then
        and_then (act (st\<lparr>indentation := butlast (indentation st)\<rparr>)) (\<lambda>st'.
          if length (indentation st') < length (indentation st) then close_levels open_level act (closed + 1) st' else err OutOfFuel)
      else ok (st, closed))"
  by pat_completeness auto
termination
  by (relation "measure (\<lambda>(open_level, act, closed, st). length (indentation st))") auto

declare close_levels.simps [simp del]

definition apply_indentation :: "nat \<Rightarrow> scanner \<Rightarrow> scanner scomp" where
  "apply_indentation n st =
     and_then (current_indentation st) (\<lambda>current.
     if n > current then
       and_then (report_if (n \<noteq> current + 4) st ''syntax-invalid-indentation'' (scan_position st - n) (scan_position st)
         (str ''indentation must increase by exactly four spaces from column '' @ decimal_text (current + 1))) (\<lambda>st.
       and_then (guard_err (word_of_nat (length (indentation st)) \<ge> max_nesting_depth (scan_limits st)) (nesting_fault st)) (\<lambda>_.
       and_then (ask (nesting_fault st)) (\<lambda>_.
       push_synthetic IndentToken (scan_position st) None (st\<lparr>indentation := indentation st @ [n]\<rparr>))))
     else if n < current then
       and_then (close_levels (\<lambda>top. top > n) (\<lambda>st. push_synthetic DedentToken (scan_position st) None st) 0 st) (\<lambda>(st, _).
       and_then (current_indentation st) (\<lambda>reached.
       report_if (reached \<noteq> n) st ''syntax-inconsistent-dedent'' (scan_position st - n) (scan_position st)
         (str ''dedent does not match an earlier indentation level'')))
     else ok st)"

definition scan_horizontal_space :: "scanner \<Rightarrow> scanner scomp" where
  "scan_horizontal_space st =
     (let run = takeWhile (\<lambda>b. b = 0x20 \<or> b = 0x09) (drop (scan_position st) (scan_text st));
          till = scan_position st + length run in
      push_trivia SpacesTrivia (scan_position st) till (st\<lparr>scan_position := till\<rparr>))"

definition scan_comment :: "scanner \<Rightarrow> scanner scomp" where
  "scan_comment st =
     and_then (while_text (\<lambda>(_, st).
         if scan_text st ! scan_position st = 0x0A \<or> scan_text st ! scan_position st = 0x0D then ok (Inr st)
         else and_then (current_char st) (\<lambda>c.
           and_then (work (advance st (len_utf8 c))) (\<lambda>st. ok (Inl ((), st))))) snd ((), st)) (\<lambda>st'.
       push_trivia CommentTrivia (scan_position st) (scan_position st') st')"

definition push_newline_trivia :: "nat \<Rightarrow> scanner \<Rightarrow> scanner scomp" where
  "push_newline_trivia width st = push_trivia BlankLine (scan_position st) (scan_position st + width) (advance st width)"

text \<open>Leading blanks: the indentation they make and the position of the first tab.\<close>

fun leading_blanks :: "nat \<Rightarrow> nat \<Rightarrow> nat option \<Rightarrow> text_bytes \<Rightarrow> nat \<times> nat \<times> nat option" where
  "leading_blanks at n tab (b # bs) =
     (if b = 0x20 then leading_blanks (at + 1) (n + 1) tab bs
      else if b = 0x09 then leading_blanks (at + 1) (tab_stop n) (case tab of None \<Rightarrow> Some at | Some t \<Rightarrow> Some t) bs
      else (at, n, tab))"
| "leading_blanks at n tab [] = (at, n, tab)"

definition settle_line_start :: "nat \<Rightarrow> scanner \<Rightarrow> scanner scomp" where
  "settle_line_start n st =
     and_then
       (if hanging_header_at st = Some (scan_position st) then ok (st\<lparr>hanging_header_at := None\<rparr>)
        else if prepared_dedent_at st = Some (scan_position st) then ok (st\<lparr>prepared_dedent_at := None\<rparr>)
        else if delimiters st = [] then apply_indentation n (st\<lparr>prepared_dedent_at := None\<rparr>)
        else ok st) (\<lambda>st.
     ok (st\<lparr>at_line_start := False\<rparr>))"

definition scan_line_prefix :: "scanner \<Rightarrow> (bool \<times> scanner) scomp" where
  "scan_line_prefix st0 =
     (let (at, n, tab) = leading_blanks (scan_position st0) 0 None (drop (scan_position st0) (scan_text st0));
          st = st0\<lparr>scan_position := at\<rparr> in
      and_then (if at > scan_position st0 then push_trivia SpacesTrivia (scan_position st0) at st else ok st) (\<lambda>st.
      and_then (case tab of
          None \<Rightarrow> ok st
        | Some t \<Rightarrow> report st ''syntax-leading-tab'' t (t + 1) (str ''tabs are forbidden in leading indentation'')) (\<lambda>st.
      if scan_position st = length (scan_text st) then ok (True, st)
      else
        and_then (remaining st) (\<lambda>r.
        if starts_with r [0x0A] then and_then (push_newline_trivia 1 st) (\<lambda>st. ok (True, st))
        else if starts_with r [0x0D, 0x0A] then and_then (push_newline_trivia 2 st) (\<lambda>st. ok (True, st))
        else if starts_with r (str ''#'') then
          and_then (scan_comment st) (\<lambda>st.
          if scan_position st < length (scan_text st) then
            and_then (remaining st) (\<lambda>r.
            and_then
              (if starts_with r [0x0D, 0x0A] then push_newline_trivia 2 st
               else if starts_with r [0x0A] then push_newline_trivia 1 st
               else ok st) (\<lambda>st. ok (True, st)))
          else ok (True, st))
        else and_then (settle_line_start n st) (\<lambda>st. ok (False, st))))))"

subsection \<open>Newlines\<close>

primrec significant_blanks :: "text_bytes \<Rightarrow> nat \<Rightarrow> nat \<Rightarrow> scanner \<Rightarrow> (nat \<times> nat \<times> scanner) scomp" where
  "significant_blanks [] cursor n st = ok (cursor, n, st)"
| "significant_blanks (b # bs) cursor n st =
     and_then (work st) (\<lambda>st.
     if b = 0x20 then significant_blanks bs (cursor + 1) (n + 1) st
     else if b = 0x09 then significant_blanks bs (cursor + 1) (tab_stop n) st
     else ok (cursor, n, st))"

primrec comment_end :: "text_bytes \<Rightarrow> nat \<Rightarrow> scanner \<Rightarrow> (nat \<times> scanner) scomp" where
  "comment_end [] cursor st = ok (cursor, st)"
| "comment_end (b # bs) cursor st =
     (if b = 0x0A \<or> b = 0x0D then ok (cursor, st)
      else and_then (work st) (\<lambda>st. comment_end bs (cursor + 1) st))"

definition next_significant_line :: "nat \<Rightarrow> scanner \<Rightarrow> (significant_line \<times> scanner) scomp" where
  "next_significant_line after_newline st =
     iterate (Suc (length (scan_text st))) (\<lambda>(cursor0, st).
       let t = scan_text st; none = (\<lambda>till. \<lparr>line_indentation = 0, prefix_start = cursor0, prefix_end = till, code_offset = None\<rparr>) in
       and_then (significant_blanks (drop cursor0 t) cursor0 0 st) (\<lambda>(cursor, n, st).
       if cursor = length t then ok (Inr (none cursor, st))
       else if t ! cursor = 0x0A then ok (Inl (cursor + 1, st))
       else if t ! cursor = 0x0D \<and> list_get t (cursor + 1) = Some 0x0A then ok (Inl (cursor + 2, st))
       else if t ! cursor = byte_of (CHR ''#'') then
         and_then (comment_end (drop cursor t) cursor st) (\<lambda>(finish, st).
         if finish = length t then ok (Inr (none cursor, st))
         else if t ! finish = 0x0D \<and> list_get t (finish + 1) = Some 0x0A then ok (Inl (finish + 2, st))
         else ok (Inl (finish + 1, st)))
       else ok (Inr (\<lparr>line_indentation = n, prefix_start = cursor0, prefix_end = cursor, code_offset = Some cursor\<rparr>, st))))
     (after_newline, st)"

definition is_layout_token :: "token_kind \<Rightarrow> bool" where
  "is_layout_token k \<longleftrightarrow> k = NewlineToken \<or> k = IndentToken \<or> k = DedentToken"

primrec line_tokens_back :: "token list \<Rightarrow> nat \<Rightarrow> scanner \<Rightarrow> (nat \<times> scanner) scomp" where
  "line_tokens_back [] at st = ok (at, st)"
| "line_tokens_back (t # ts) at st =
     and_then (work st) (\<lambda>st. if is_layout_token (token_kind t) then ok (at, st) else line_tokens_back ts (at - 1) st)"

definition kind_of_token :: "scanner \<Rightarrow> nat \<Rightarrow> token_kind option" where
  "kind_of_token st i = map_option token_kind (list_get (scan_tokens st) i)"

definition current_line_starts_declaration_header :: "scanner \<Rightarrow> (bool \<times> scanner) scomp" where
  "current_line_starts_declaration_header st =
     and_then (line_tokens_back (rev (scan_tokens st)) (length (scan_tokens st)) st) (\<lambda>(at, st).
     let at = (if kind_of_token st at = Some (KeywordToken KwPub) then at + 1 else at);
         first = kind_of_token st at in
     ok (first \<in> {Some (KeywordToken KwProjection), Some (KeywordToken KwScope), Some (KeywordToken KwFn), Some (KeywordToken KwInit)} \<or>
         first \<in> {Some (KeywordToken KwAsync), Some (KeywordToken KwIsr), Some (KeywordToken KwComptime)} \<and>
         kind_of_token st (at + 1) = Some (KeywordToken KwFn), st))"

text \<open>The tokens of \<open>closed\<close> levels closed at a newline: the first closes before the newline, which is its
  physical token, the others after it.\<close>

primrec push_dedents :: "nat \<Rightarrow> nat \<Rightarrow> nat \<Rightarrow> bool \<Rightarrow> scanner \<Rightarrow> scanner scomp" where
  "push_dedents 0 from till first st = ok st"
| "push_dedents (Suc n) from till first st =
     and_then (push_synthetic DedentToken (if first then from else till) None st) (\<lambda>st.
     and_then
       (if first then push_physical NewlineToken from till (Some PhysicalNewline) False (st\<lparr>scan_position := till\<rparr>)
        else push_synthetic NewlineToken till (Some PhysicalNewline) st) (\<lambda>st.
     push_dedents n from till False st))"

definition is_hanging_header :: "significant_line \<Rightarrow> nat \<Rightarrow> scanner \<Rightarrow> (bool \<times> scanner) scomp" where
  "is_hanging_header next current st =
     (if \<not> hanging_header_continuation st \<and> line_indentation next > current \<and>
         (case code_offset next of None \<Rightarrow> False | Some offset \<Rightarrow> starts_with (drop offset (scan_text st)) (str ''->'')) \<and>
         scan_tokens st \<noteq> [] \<and> token_kind (last (scan_tokens st)) = PunctuationToken RightParen
      then current_line_starts_declaration_header st else ok (False, st))"

definition close_lines :: "significant_line \<Rightarrow> nat \<Rightarrow> nat \<Rightarrow> scanner \<Rightarrow> scanner scomp" where
  "close_lines next from till st =
     and_then (close_levels (\<lambda>top. top > line_indentation next) ok 0 (st\<lparr>hanging_header_continuation := False\<rparr>)) (\<lambda>(st, closed).
     and_then (current_indentation st) (\<lambda>reached.
     and_then (report_if (reached \<noteq> line_indentation next) st ''syntax-inconsistent-dedent'' (prefix_start next) (prefix_end next)
       (str ''dedent does not match an earlier indentation level'')) (\<lambda>st.
     and_then (push_dedents closed from till True st) (\<lambda>st.
       ok (st\<lparr>prepared_dedent_at := code_offset next\<rparr>)))))"

definition scan_newline :: "nat \<Rightarrow> scanner \<Rightarrow> scanner scomp" where
  "scan_newline width st =
     (let from = scan_position st; till = from + width in
      and_then
        (if delimiters st = [] then
           and_then (next_significant_line till st) (\<lambda>(next, st).
           and_then (current_indentation st) (\<lambda>current.
           and_then (is_hanging_header next current st) (\<lambda>(hanging, st).
           if hanging then
             and_then (push_trivia SuppressedPhysicalNewline from till (st\<lparr>scan_position := till\<rparr>)) (\<lambda>st.
             ok (st\<lparr>hanging_header_at := code_offset next, hanging_header_continuation := True\<rparr>))
           else if line_indentation next < current then close_lines next from till st
           else push_physical NewlineToken from till (Some PhysicalNewline) False
             (st\<lparr>hanging_header_continuation := False, scan_position := till\<rparr>))))
         else push_trivia SuppressedPhysicalNewline from till (st\<lparr>scan_position := till\<rparr>)) (\<lambda>st.
      ok (st\<lparr>at_line_start := True\<rparr>)))"

subsection \<open>Words and numbers\<close>

definition scan_identifier :: "unicode \<Rightarrow> scanner \<Rightarrow> scanner scomp" where
  "scan_identifier U st0 =
     (let from = scan_position st0 in
      and_then (current_char st0) (\<lambda>first.
      and_then (while_text (\<lambda>(_, st).
          and_then (current_char st) (\<lambda>c.
          if is_xid_continue U c \<or> c = code_point (CHR ''_'')
          then and_then (work (advance st (len_utf8 c))) (\<lambda>st. ok (Inl ((), st)))
          else ok (Inr st))) snd ((), advance st0 (len_utf8 first))) (\<lambda>st.
      and_then (text_slice (scan_text st) from (scan_position st)) (\<lambda>word.
      and_then (report_if (word \<noteq> str ''_'' \<and> first = code_point (CHR ''_'')) st ''syntax-invalid-identifier-start'' from (from + 1)
        (str ''an identifier must begin with a Unicode XID_Start character'')) (\<lambda>st.
      and_then (report_if (nfc U (utf8_chars word) \<noteq> utf8_chars word) st ''syntax-non-nfc-identifier'' from (scan_position st)
        (str ''identifier spelling is not Unicode NFC'')) (\<lambda>st.
      let kind = (case keyword_of word of None \<Rightarrow> IdentifierToken | Some k \<Rightarrow> KeywordToken k) in
      push_physical kind from (scan_position st) None (kind = IdentifierToken) st))))))"

definition valid_digit :: "nat \<Rightarrow> u8 \<Rightarrow> bool" where
  "valid_digit base b = (case digit_value b of None \<Rightarrow> False | Some v \<Rightarrow> v < base)"

definition digit_run_ok :: "text_bytes \<Rightarrow> nat \<Rightarrow> nat \<Rightarrow> nat \<Rightarrow> bool" where
  "digit_run_ok t from till base \<longleftrightarrow>
     from < till \<and> list_all (\<lambda>i. valid_digit base (t ! i) \<or>
       t ! i = byte_of (CHR ''_'') \<and> i > from \<and> i + 1 < till \<and> valid_digit base (t ! (i - 1)) \<and> valid_digit base (t ! (i + 1))) [from..<till]"

definition validate_digit_run :: "nat \<Rightarrow> nat \<Rightarrow> nat \<Rightarrow> scanner \<Rightarrow> scanner scomp" where
  "validate_digit_run from till base st =
     report_if (\<not> digit_run_ok (scan_text st) from till base) st ''syntax-invalid-number'' from till
       (str ''numeric literal has an invalid base-'' @ decimal_text base @ str '' digit or underscore'')"

definition number_base :: "u8 \<Rightarrow> nat" where
  "number_base b =
     (if b = byte_of (CHR ''x'') \<or> b = byte_of (CHR ''X'') then 16
      else if b = byte_of (CHR ''o'') \<or> b = byte_of (CHR ''O'') then 8
      else if b = byte_of (CHR ''b'') \<or> b = byte_of (CHR ''B'') then 2 else 10)"

definition is_decimal_byte :: "u8 \<Rightarrow> bool" where
  "is_decimal_byte b \<longleftrightarrow> is_ascii_digit b \<or> b = byte_of (CHR ''_'')"

text \<open>A run of decimal digits that starts at the position, validated.\<close>

definition scan_digits :: "scanner \<Rightarrow> scanner scomp" where
  "scan_digits st =
     and_then (skip_bytes is_decimal_byte st) (\<lambda>st'. validate_digit_run (scan_position st) (scan_position st') 10 st')"

definition scan_based_number :: "nat \<Rightarrow> scanner \<Rightarrow> scanner scomp" where
  "scan_based_number base st =
     (let from = scan_position st; digits = from + 2 in
      and_then (skip_bytes (\<lambda>b. valid_digit base b \<or> b = byte_of (CHR ''_'')) (advance st 2)) (\<lambda>st.
      and_then (validate_digit_run digits (scan_position st) base st) (\<lambda>st.
      push_physical IntegerLiteral from (scan_position st) None True st)))"

definition scan_fraction :: "token_kind \<Rightarrow> scanner \<Rightarrow> (token_kind \<times> scanner) scomp" where
  "scan_fraction kind st =
     (if text_byte st (scan_position st) = Some (byte_of (CHR ''.'')) \<and>
         (case text_byte st (scan_position st + 1) of None \<Rightarrow> False | Some b \<Rightarrow> is_ascii_digit b)
      then and_then (scan_digits (advance st 1)) (\<lambda>st. ok (FloatLiteral, st))
      else ok (kind, st))"

definition scan_exponent :: "token_kind \<Rightarrow> scanner \<Rightarrow> (token_kind \<times> scanner) scomp" where
  "scan_exponent kind st =
     (if text_byte st (scan_position st) \<in> {Some (byte_of (CHR ''e'')), Some (byte_of (CHR ''E''))} then
        let st = advance st 1;
            st = (if text_byte st (scan_position st) \<in> {Some (byte_of (CHR ''+'')), Some (byte_of (CHR ''-''))} then advance st 1 else st) in
        and_then (scan_digits st) (\<lambda>st. ok (FloatLiteral, st))
      else ok (kind, st))"

definition scan_number :: "scanner \<Rightarrow> scanner scomp" where
  "scan_number st =
     (let from = scan_position st;
          base = (if text_byte st from = Some (byte_of (CHR ''0''))
                  then (case text_byte st (from + 1) of None \<Rightarrow> 10 | Some b \<Rightarrow> number_base b) else 10) in
      if base \<noteq> 10 then scan_based_number base st
      else
        and_then (scan_digits st) (\<lambda>st.
        and_then (scan_fraction IntegerLiteral st) (\<lambda>(kind, st).
        and_then (scan_exponent kind st) (\<lambda>(kind, st).
        push_physical kind from (scan_position st) None True st))))"

subsection \<open>Escapes\<close>

datatype (plugins only: code size) escape_value = ScalarEscape nat | ByteEscape u8

record escape_diagnostic =
  escape_code :: string
  escape_message :: string

record decoded_escape =
  escape_end :: nat
  escape_value :: "escape_value option"
  escape_problem :: "escape_diagnostic option"

definition simple_escape :: "nat \<Rightarrow> nat option" where
  "simple_escape c =
     map_of [(0x5C, 0x5C), (0x22, 0x22), (0x27, 0x27), (code_point (CHR ''n''), 0x0A), (code_point (CHR ''r''), 0x0D),
       (code_point (CHR ''t''), 0x09), (code_point (CHR ''0''), 0)] c"

definition hex_value :: "text_bytes \<Rightarrow> nat" where
  "hex_value ds = foldl (\<lambda>n d. n * 16 + (case digit_value d of None \<Rightarrow> 0 | Some v \<Rightarrow> v)) 0 ds"

text \<open>\<open>char::from_u32\<close>\<close>

definition is_scalar_value :: "nat \<Rightarrow> bool" where
  "is_scalar_value n \<longleftrightarrow> n < 0xD800 \<or> 0xDFFF < n \<and> n \<le> 0x10FFFF"

definition invalid_escape :: "nat \<Rightarrow> string \<Rightarrow> string \<Rightarrow> decoded_escape" where
  "invalid_escape till problem m =
     \<lparr>escape_end = till, escape_value = None, escape_problem = Some \<lparr>escape_code = problem, escape_message = m\<rparr>\<rparr>"

definition valid_escape :: "nat \<Rightarrow> escape_value \<Rightarrow> decoded_escape" where
  "valid_escape till v = \<lparr>escape_end = till, escape_value = Some v, escape_problem = None\<rparr>"

text \<open>The hexadecimal digits at a position, at most so many.\<close>

definition hex_run :: "text_bytes \<Rightarrow> nat \<Rightarrow> nat \<Rightarrow> text_bytes" where
  "hex_run t at most = takeWhile is_ascii_hexdigit (take most (drop at t))"

definition decode_byte_escape :: "text_bytes \<Rightarrow> nat \<Rightarrow> decoded_escape" where
  "decode_byte_escape t at =
     (let ds = hex_run t at 2; till = at + length ds in
      if length ds = 2 then valid_escape till (ByteEscape (word_of_nat (hex_value ds)))
      else invalid_escape till ''syntax-invalid-escape'' ''a byte escape must contain exactly two hexadecimal digits'')"

definition decode_unicode_escape :: "text_bytes \<Rightarrow> nat \<Rightarrow> decoded_escape" where
  "decode_unicode_escape t at =
     (if list_get t at \<noteq> Some (byte_of (CHR ''{'')) then
        invalid_escape at ''syntax-invalid-unicode-escape'' (''Unicode escape must use the form '' @ [CHR 0x5C] @ ''u{H...}'')
      else
        let ds = hex_run t (at + 1) 7; till = at + 1 + length ds; closed = (list_get t till = Some (byte_of (CHR ''}'')));
            till = (if closed then till + 1 else till) in
        if ds \<noteq> [] \<and> length ds \<le> 6 \<and> closed \<and> is_scalar_value (hex_value ds)
        then valid_escape till (ScalarEscape (hex_value ds))
        else invalid_escape till ''syntax-invalid-unicode-escape'' ''Unicode escape must contain one to six digits naming a scalar value'')"

definition decode_escape :: "text_bytes \<Rightarrow> nat \<Rightarrow> bool \<Rightarrow> decoded_escape" where
  "decode_escape t from byte_string =
     (let at = min (from + 1) (length t);
          escaped = (if is_char_boundary t at then map_option fst (utf8_step (drop at t)) else None) in
      case escaped of
        None \<Rightarrow> invalid_escape at ''syntax-invalid-escape'' ''incomplete escape sequence''
      | Some c \<Rightarrow>
          let at = at + len_utf8 c in
          (case simple_escape c of
             Some v \<Rightarrow> valid_escape at (if byte_string then ByteEscape (word_of_nat v) else ScalarEscape v)
           | None \<Rightarrow>
               if c = code_point (CHR ''x'') \<and> byte_string then decode_byte_escape t at
               else if c = code_point (CHR ''u'') \<and> \<not> byte_string then decode_unicode_escape t at
               else invalid_escape at ''syntax-invalid-escape'' ''escape is not part of Wrela revision 0.1''))"

definition scan_escape :: "bool \<Rightarrow> scanner \<Rightarrow> scanner scomp" where
  "scan_escape byte_string st =
     (let from = scan_position st; decoded = decode_escape (scan_text st) from byte_string;
          st = st\<lparr>scan_position := escape_end decoded\<rparr> in
      case escape_problem decoded of
        None \<Rightarrow> ok st
      | Some d \<Rightarrow> report st (escape_code d) from (scan_position st) (str (escape_message d)))"

subsection \<open>Quoted literals\<close>

definition is_line_end :: "nat \<Rightarrow> bool" where
  "is_line_end c \<longleftrightarrow> c = 0x0A \<or> c = 0x0D"

text \<open>One round in the body of a literal; the state beside the scanner is the number of decoded scalars.
  Every caller passes \<open>interpolated = false\<close>, so the branches for braces are not entered.\<close>

definition quoted_round :: "nat \<Rightarrow> bool \<Rightarrow> nat \<times> scanner \<Rightarrow> (nat \<times> scanner + bool \<times> nat \<times> scanner) scomp" where
  "quoted_round quote byte_string = (\<lambda>(decoded, st).
     and_then (work st) (\<lambda>st.
     and_then (current_char st) (\<lambda>c.
     if c = quote then ok (Inr (True, decoded, advance st (len_utf8 c)))
     else if is_line_end c then ok (Inr (False, decoded, st))
     else if c = 0x5C then and_then (scan_escape byte_string st) (\<lambda>st. ok (Inl (decoded + 1, st)))
     else
       and_then (report_if (byte_string \<and> \<not> char_is_ascii c) st ''syntax-non-ascii-byte-string''
         (scan_position st) (scan_position st + len_utf8 c) (str ''byte strings permit only ASCII source characters and escapes'')) (\<lambda>st.
       ok (Inl (decoded + 1, advance st (len_utf8 c)))))))"

definition unterminated_message :: text_bytes where
  "unterminated_message = str ''literal is not terminated before the physical newline or end of file''"

definition scan_quoted :: "token_kind \<Rightarrow> nat \<Rightarrow> bool \<Rightarrow> scanner \<Rightarrow> scanner scomp" where
  "scan_quoted kind prefix_bytes byte_string st =
     (let from = scan_position st; quote = (if kind = CharacterLiteral then 0x27 else 0x22) in
      and_then (while_text (quoted_round quote byte_string) (\<lambda>(decoded, st). (False, decoded, st)) (0, advance st (prefix_bytes + 1)))
        (\<lambda>(terminated, decoded, st).
      and_then (report_if (\<not> terminated) st ''syntax-unterminated-literal'' from (scan_position st) unterminated_message) (\<lambda>st.
      and_then (report_if (kind = CharacterLiteral \<and> decoded \<noteq> 1) st ''syntax-invalid-character-literal'' from (scan_position st)
        (str ''a character literal must decode to exactly one Unicode scalar'')) (\<lambda>st.
      push_physical kind from (scan_position st) None True st))))"

abbreviation triple_quote :: text_bytes where
  "triple_quote \<equiv> [0x22, 0x22, 0x22]"

definition scan_reserved_triple_quoted :: "scanner \<Rightarrow> scanner scomp" where
  "scan_reserved_triple_quoted st =
     (let from = scan_position st in
      and_then (report st ''syntax-reserved-multiline-string'' from (from + 3)
        (str ''triple-quoted strings are reserved and are not legal in revision 0.1'')) (\<lambda>st.
      and_then (while_text (\<lambda>(_, st).
          and_then (work st) (\<lambda>st.
          and_then (remaining st) (\<lambda>r.
          if starts_with r triple_quote then ok (Inr (advance st 3))
          else and_then (current_char st) (\<lambda>c.
            if is_line_end c then ok (Inr st) else ok (Inl ((), advance st (len_utf8 c)))))))
        snd ((), advance st 3)) (\<lambda>st.
      push_physical StringLiteral from (scan_position st) None True st)))"

subsection \<open>Punctuation\<close>

definition multi_operators :: "(string \<times> token_kind) list" where
  "multi_operators =
     [(''>>='', OperatorToken OpShiftRightAssign), (''<<='', OperatorToken OpShiftLeftAssign), (''..='', OperatorToken OpRangeInclusive),
      (''->'', PunctuationToken Arrow), (''=='', OperatorToken OpEqual), (''!='', OperatorToken OpNotEqual),
      (''<='', OperatorToken OpLessEqual), (''>='', OperatorToken OpGreaterEqual), (''+='', OperatorToken OpAddAssign),
      (''-='', OperatorToken OpSubtractAssign), (''*='', OperatorToken OpMultiplyAssign), (''/='', OperatorToken OpDivideAssign),
      (''%='', OperatorToken OpRemainderAssign), (''&='', OperatorToken OpBitAndAssign), (''|='', OperatorToken OpBitOrAssign),
      (''^='', OperatorToken OpBitXorAssign), (''<<'', OperatorToken OpShiftLeft), (''>>'', OperatorToken OpShiftRight),
      (''+%'', OperatorToken OpAddWrapping), (''-%'', OperatorToken OpSubtractWrapping), (''*%'', OperatorToken OpMultiplyWrapping),
      (''..'', OperatorToken OpRange)]"

definition single_tokens :: "(char \<times> token_kind) list" where
  "single_tokens =
     [(CHR ''@'', PunctuationToken At), (CHR ''.'', PunctuationToken Dot), (CHR '','', PunctuationToken Comma),
      (CHR '':'', PunctuationToken Colon), (CHR '';'', PunctuationToken Semicolon), (CHR ''('', PunctuationToken LeftParen),
      (CHR '')'', PunctuationToken RightParen), (CHR ''['', PunctuationToken LeftBracket), (CHR '']'', PunctuationToken RightBracket),
      (CHR ''{'', PunctuationToken LeftBrace), (CHR ''}'', PunctuationToken RightBrace), (CHR ''?'', PunctuationToken Question),
      (CHR ''|'', PunctuationToken Pipe), (CHR ''='', OperatorToken OpAssign), (CHR ''+'', OperatorToken OpAdd),
      (CHR ''-'', OperatorToken OpSubtract), (CHR ''*'', OperatorToken OpMultiply), (CHR ''/'', OperatorToken OpDivide),
      (CHR ''%'', OperatorToken OpRemainder), (CHR ''&'', OperatorToken OpBitAnd), (CHR ''^'', OperatorToken OpBitXor),
      (CHR ''<'', OperatorToken OpLess), (CHR ''>'', OperatorToken OpGreater), (CHR ''~'', OperatorToken OpBitNot)]"

definition matching_opener :: "nat \<Rightarrow> nat option" where
  "matching_opener c =
     map_of [(code_point (CHR '')''), code_point (CHR ''('')), (code_point (CHR '']''), code_point (CHR ''[''))
       , (code_point (CHR ''}''), code_point (CHR ''{''))] c"

definition is_opener :: "nat \<Rightarrow> bool" where
  "is_opener c \<longleftrightarrow> c = code_point (CHR ''('') \<or> c = code_point (CHR ''['') \<or> c = code_point (CHR ''{'')"

definition unmatched_message :: "nat \<Rightarrow> text_bytes" where
  "unmatched_message c = str ''closing delimiter '' @ char_debug c @ str '' has no matching opener''"

definition update_delimiters :: "nat \<Rightarrow> nat \<Rightarrow> scanner \<Rightarrow> scanner scomp" where
  "update_delimiters c from st =
     (if is_opener c then
        and_then (guard_err (word_of_nat (length (delimiters st)) \<ge> max_nesting_depth (scan_limits st)) (nesting_fault st)) (\<lambda>_.
        and_then (ask (nesting_fault st)) (\<lambda>_.
          ok (st\<lparr>delimiters := delimiters st @ [(c, from)]\<rparr>)))
      else
        (case matching_opener c of
           None \<Rightarrow> ok st
         | Some expected \<Rightarrow>
             if delimiters st \<noteq> [] \<and> fst (last (delimiters st)) = expected then ok (st\<lparr>delimiters := butlast (delimiters st)\<rparr>)
             else report st ''syntax-unmatched-delimiter'' from (scan_position st) (unmatched_message c)))"

definition scan_punctuation_or_error :: "scanner \<Rightarrow> scanner scomp" where
  "scan_punctuation_or_error st =
     (let from = scan_position st in
      and_then (remaining st) (\<lambda>r.
      case find (\<lambda>(s, _). starts_with r (str s)) multi_operators of
        Some (s, kind) \<Rightarrow> push_physical kind from (from + length s) None False (advance st (length s))
      | None \<Rightarrow>
          and_then (current_char st) (\<lambda>c.
          let st = advance st (len_utf8 c) in
          if c = code_point (CHR '';'') \<and> delimiters st = []
          then push_physical NewlineToken from (scan_position st) (Some SemicolonNewline) False st
          else
            and_then (case map_of (map (\<lambda>(k, v). (code_point k, v)) single_tokens) c of
                Some kind \<Rightarrow> ok (kind, st)
              | None \<Rightarrow>
                  and_then (report st ''syntax-unexpected-character'' from (scan_position st)
                    (str ''unexpected source character U+'' @ hex4_text c)) (\<lambda>st. ok (ErrorToken, st))) (\<lambda>(kind, st).
            and_then (update_delimiters c from st) (\<lambda>st.
            push_physical kind from (scan_position st) None (kind = ErrorToken) st)))))"

subsection \<open>Interpolated strings\<close>

text \<open>The scanning of a nested interpolated string is an argument of the functions it calls; the recursion
  is tied in \<open>scan_interpolated\<close>, whose depth the nesting limit bounds.\<close>

definition push_interpolation_text :: "nat \<Rightarrow> nat \<Rightarrow> scanner \<Rightarrow> scanner scomp" where
  "push_interpolation_text from till st =
     (if from < till then push_physical InterpolatedStringText from till None True st else ok st)"

definition push_punctuation :: "punctuation \<Rightarrow> scanner \<Rightarrow> scanner scomp" where
  "push_punctuation p st =
     push_physical (PunctuationToken p) (scan_position st) (scan_position st + 1) None False (advance st 1)"

definition interpolation_colon_starts_format :: "nat \<Rightarrow> nat \<Rightarrow> scanner \<Rightarrow> bool" where
  "interpolation_colon_starts_format first_token pipes st =
     (let k = (\<lambda>i. kind_of_token st (first_token + i)); pipe = Some (PunctuationToken Pipe);
          closure_prefix = (k 0 = pipe \<or>
            k 0 \<in> {Some (KeywordToken KwTake), Some (KeywordToken KwAsync)} \<and> k 1 = pipe \<or>
            k 0 = Some (KeywordToken KwAsync) \<and> k 1 = Some (KeywordToken KwTake) \<and> k 2 = pipe) in
      \<not> closure_prefix \<or> pipes \<ge> 2)"

definition format_round :: "unit \<times> scanner \<Rightarrow> (unit \<times> scanner + scanner) scomp" where
  "format_round = (\<lambda>(_, st).
     and_then (work st) (\<lambda>st.
     and_then (current_char st) (\<lambda>c.
     if c = code_point (CHR ''}'') \<or> is_line_end c \<or> c = 0x22 then ok (Inr st)
     else
       and_then (report_if (c = code_point (CHR ''{'')) st ''syntax-interpolation-format-brace'' (scan_position st) (scan_position st + 1)
         (str ''interpolation format specifications cannot contain braces'')) (\<lambda>st.
       and_then (report_if (\<not> char_is_ascii c) st ''syntax-interpolation-format-ascii'' (scan_position st) (scan_position st + len_utf8 c)
         (str ''interpolation format specifications must be ASCII'')) (\<lambda>st.
       ok (Inl ((), advance st (len_utf8 c))))))))"

definition unmatched_opening :: "nat \<Rightarrow> scanner \<Rightarrow> scanner scomp" where
  "unmatched_opening opening st =
     report st ''syntax-unmatched-interpolation-brace'' opening (scan_position st)
       (str ''interpolated string has an unmatched opening brace'')"

definition scan_interpolation_format :: "nat \<Rightarrow> scanner \<Rightarrow> scanner scomp" where
  "scan_interpolation_format opening st =
     (let from = scan_position st in
      and_then (while_text format_round snd ((), st)) (\<lambda>st.
      and_then
        (if from = scan_position st then
           report st ''syntax-empty-interpolation-format'' from from (str ''interpolation format specifications cannot be empty'')
         else push_physical InterpolationFormat from (scan_position st) None True st) (\<lambda>st.
      if scan_position st < length (scan_text st) then
        and_then (current_char st) (\<lambda>c.
        if c = code_point (CHR ''}'') then push_punctuation RightBrace st else unmatched_opening opening st)
      else unmatched_opening opening st)))"

definition scan_interpolation_expression_token :: "unicode \<Rightarrow> (scanner \<Rightarrow> scanner scomp) \<Rightarrow> nat \<Rightarrow> scanner \<Rightarrow> scanner scomp" where
  "scan_interpolation_expression_token U inner base st =
     (let from = scan_position st in
      and_then (current_char st) (\<lambda>c.
      if length (delimiters st) = base \<and> (c = code_point (CHR '')'') \<or> c = code_point (CHR '']'')) then
        let st = advance st 1 in
        and_then (report st ''syntax-unmatched-delimiter'' from (scan_position st) (unmatched_message c)) (\<lambda>st.
        push_physical (PunctuationToken (if c = code_point (CHR '')'') then RightParen else RightBracket)) from (scan_position st) None False st)
      else if c = 0x20 \<or> c = 0x09 then scan_horizontal_space st
      else if c = code_point (CHR ''#'') then scan_comment st
      else if c = code_point (CHR ''b'') \<and> looking_at st [0x62, 0x22] then scan_quoted ByteStringLiteral 1 True st
      else if c = code_point (CHR ''f'') \<and> looking_at st [0x66, 0x22] then inner st
      else if c = 0x22 \<and> looking_at st triple_quote then scan_reserved_triple_quoted st
      else if c = 0x22 then scan_quoted StringLiteral 0 False st
      else if c = 0x27 then scan_quoted CharacterLiteral 0 False st
      else if code_point (CHR ''0'') \<le> c \<and> c \<le> code_point (CHR ''9'') then scan_number st
      else if c = code_point (CHR ''_'') \<or> is_xid_start U c then scan_identifier U st
      else if is_forbidden_raw_character c then push_physical ErrorToken from (from + len_utf8 c) None True (advance st (len_utf8 c))
      else scan_punctuation_or_error st))"

definition value_round :: "unicode \<Rightarrow> (scanner \<Rightarrow> scanner scomp) \<Rightarrow> nat \<Rightarrow> nat \<Rightarrow> nat \<Rightarrow> nat \<times> scanner \<Rightarrow> (nat \<times> scanner + bool \<times> scanner) scomp" where
  "value_round U inner opening base first_token = (\<lambda>(pipes, st).
     and_then (work st) (\<lambda>st.
     and_then (current_char st) (\<lambda>c.
     if is_line_end c then ok (Inr (False, st))
     else if length (delimiters st) = base \<and> c = code_point (CHR ''}'') then
       and_then (push_punctuation RightBrace st) (\<lambda>st. ok (Inr (True, st)))
     else if length (delimiters st) = base \<and> c = code_point (CHR '':'') \<and> interpolation_colon_starts_format first_token pipes st then
       and_then (push_punctuation Colon st) (\<lambda>st.
       and_then (scan_interpolation_format opening st) (\<lambda>st. ok (Inr (True, st))))
     else
       let count = length (scan_tokens st) in
       and_then (scan_interpolation_expression_token U inner base st) (\<lambda>st.
       let piped = length (delimiters st) = base \<and> length (scan_tokens st) > count \<and>
             token_kind (last (scan_tokens st)) = PunctuationToken Pipe in
       ok (Inl (if piped then min (pipes + 1) 2 else pipes, st))))))"

definition scan_interpolation_value :: "unicode \<Rightarrow> (scanner \<Rightarrow> scanner scomp) \<Rightarrow> nat \<Rightarrow> scanner \<Rightarrow> scanner scomp" where
  "scan_interpolation_value U inner opening st =
     (let base = length (delimiters st) in
      and_then (while_text (value_round U inner opening base (length (scan_tokens st))) (\<lambda>(_, st). (False, st)) (0, st)) (\<lambda>(closed, st).
      if closed then ok st
      else unmatched_opening opening (st\<lparr>delimiters := take base (delimiters st)\<rparr>)))"

definition interpolated_round :: "unicode \<Rightarrow> (scanner \<Rightarrow> scanner scomp) \<Rightarrow> nat \<times> scanner \<Rightarrow> (nat \<times> scanner + bool \<times> nat \<times> scanner) scomp" where
  "interpolated_round U inner = (\<lambda>(text_start, st).
     and_then (work st) (\<lambda>st.
     and_then (current_char st) (\<lambda>c.
     if is_line_end c then ok (Inr (False, text_start, st))
     else if c = 0x22 then
       and_then (push_interpolation_text text_start (scan_position st) st) (\<lambda>st.
       and_then (push_physical InterpolatedStringEnd (scan_position st) (scan_position st + 1) None True (advance st 1)) (\<lambda>st.
       ok (Inr (True, scan_position st, st))))
     else if c = 0x5C then and_then (scan_escape False st) (\<lambda>st. ok (Inl (text_start, st)))
     else if c = code_point (CHR ''{'') then
       if looking_at st (str ''{{'') then ok (Inl (text_start, advance st 2))
       else
         and_then (push_interpolation_text text_start (scan_position st) st) (\<lambda>st.
         let opening = scan_position st in
         and_then (push_punctuation LeftBrace st) (\<lambda>st.
         and_then (scan_interpolation_value U inner opening st) (\<lambda>st.
         ok (Inl (scan_position st, st)))))
     else
       and_then (report_if (c = code_point (CHR ''}'') \<and> \<not> looking_at st (str ''}}'')) st ''syntax-unmatched-interpolation-brace''
         (scan_position st) (scan_position st + 1) (str ''unmatched closing brace in interpolated string'')) (\<lambda>st.
       ok (Inl (text_start, advance st (if c = code_point (CHR ''}'') \<and> looking_at st (str ''}}'') then 2 else len_utf8 c)))))))"

definition scan_interpolated_inner :: "unicode \<Rightarrow> (scanner \<Rightarrow> scanner scomp) \<Rightarrow> scanner \<Rightarrow> scanner scomp" where
  "scan_interpolated_inner U inner st =
     (let literal_start = scan_position st in
      and_then (push_physical InterpolatedStringStart literal_start (literal_start + 2) None True (advance st 2)) (\<lambda>st.
      and_then (while_text (interpolated_round U inner) (\<lambda>(text_start, st). (False, text_start, st)) (scan_position st, st))
        (\<lambda>(terminated, text_start, st).
      and_then (push_interpolation_text text_start (scan_position st) st) (\<lambda>st.
      report_if (\<not> terminated) st ''syntax-unterminated-literal'' literal_start (scan_position st) unterminated_message))))"

primrec scan_interpolated :: "unicode \<Rightarrow> nat \<Rightarrow> scanner \<Rightarrow> scanner scomp" where
  "scan_interpolated U 0 st = err OutOfFuel"
| "scan_interpolated U (Suc d) st =
     and_then (guard_err (interpolation_depth st \<ge> max_nesting_depth (scan_limits st)) (nesting_fault st)) (\<lambda>_.
     and_then (scan_interpolated_inner U (scan_interpolated U d) (st\<lparr>interpolation_depth := interpolation_depth st + 1\<rparr>)) (\<lambda>st.
     ok (st\<lparr>interpolation_depth := interpolation_depth st - 1\<rparr>)))"

subsection \<open>The scan\<close>

definition preflight_forbidden_characters :: "scanner \<Rightarrow> scanner scomp" where
  "preflight_forbidden_characters st =
     for_each (\<lambda>st (offset, c).
       and_then (work st) (\<lambda>st.
       report_if (is_forbidden_raw_character c) st ''syntax-forbidden-code-point'' offset (offset + len_utf8 c)
         (str ''raw Unicode code point U+'' @ hex4_text c @
          str '' is forbidden; use an explicit escape inside strings or comments''))) st (char_indices 0 (scan_text st))"

definition interpolation_fuel :: "scanner \<Rightarrow> nat" where
  "interpolation_fuel st = Suc (unat (max_nesting_depth (scan_limits st)))"

definition scan_token :: "unicode \<Rightarrow> scanner \<Rightarrow> scanner scomp" where
  "scan_token U st =
     (let from = scan_position st in
      and_then (current_char st) (\<lambda>c.
      if c = 0x20 \<or> c = 0x09 then scan_horizontal_space st
      else if c = code_point (CHR ''#'') then scan_comment st
      else if c = 0x0A then scan_newline 1 st
      else if c = 0x0D \<and> looking_at st [0x0D, 0x0A] then scan_newline 2 st
      else if c = code_point (CHR ''b'') \<and> looking_at st [0x62, 0x22] then scan_quoted ByteStringLiteral 1 True st
      else if c = code_point (CHR ''f'') \<and> looking_at st [0x66, 0x22] then scan_interpolated U (interpolation_fuel st) st
      else if c = 0x22 \<and> looking_at st triple_quote then scan_reserved_triple_quoted st
      else if c = 0x22 then scan_quoted StringLiteral 0 False st
      else if c = 0x27 then scan_quoted CharacterLiteral 0 False st
      else if code_point (CHR ''0'') \<le> c \<and> c \<le> code_point (CHR ''9'') then scan_number st
      else if c = code_point (CHR ''_'') \<or> is_xid_start U c then scan_identifier U st
      else if is_forbidden_raw_character c then push_physical ErrorToken from (from + len_utf8 c) None True (advance st (len_utf8 c))
      else scan_punctuation_or_error st))"

definition scan_round :: "unicode \<Rightarrow> unit \<times> scanner \<Rightarrow> (unit \<times> scanner + scanner) scomp" where
  "scan_round U = (\<lambda>(_, st).
     and_then (work st) (\<lambda>st.
     and_then (if at_line_start st then scan_line_prefix st else ok (False, st)) (\<lambda>(blank, st).
     if blank then ok (Inl ((), st))
     else if scan_position st \<ge> length (scan_text st) then ok (Inr st)
     else and_then (scan_token U st) (\<lambda>st. ok (Inl ((), st))))))"

primrec report_unclosed :: "(nat \<times> nat) list \<Rightarrow> scanner \<Rightarrow> scanner scomp" where
  "report_unclosed [] st = ok st"
| "report_unclosed (d # ds) st =
     and_then (report st ''syntax-unclosed-delimiter'' (snd d) (snd d + len_utf8 (fst d))
       (str ''opening delimiter '' @ char_debug (fst d) @ str '' is not closed'')) (\<lambda>st. report_unclosed ds st)"

definition finish_layout :: "scanner \<Rightarrow> scanner scomp" where
  "finish_layout st =
     and_then (report_unclosed (delimiters st) st) (\<lambda>st.
     let eof = length (scan_text st) in
     and_then
       (if length (indentation st) > 1 then
          and_then (close_levels (\<lambda>_. True) (\<lambda>st.
              and_then (push_synthetic DedentToken eof None st) (push_synthetic NewlineToken eof (Some EndOfFileNewline))) 0 st) (\<lambda>(st, _). ok st)
        else if scan_tokens st \<noteq> [] \<and> token_kind (last (scan_tokens st)) = NewlineToken then ok st
        else push_synthetic NewlineToken eof (Some EndOfFileNewline) st) (\<lambda>st.
     push_synthetic EndOfFileToken eof None st))"

definition scan :: "unicode \<Rightarrow> source_file \<Rightarrow> parse_limits \<Rightarrow> diagnostic_sink \<Rightarrow> (lexical_table \<times> diagnostic_sink) scomp" where
  "scan U f l s =
     and_then (preflight_forbidden_characters (scanner_start f l s)) (\<lambda>st.
     and_then (while_text (scan_round U) snd ((), st)) (\<lambda>st.
     and_then (finish_layout st) (\<lambda>st.
     and_then (ask (Failure ParseCancelled)) (\<lambda>_.
       ok (\<lparr>table_tokens = scan_tokens st, table_trivia = scan_trivia st, table_order = scan_order st\<rparr>, sink st)))))"

end
