(* ===== verification/Scanner_Laws.thy ===== *)
theory Scanner_Laws
  imports Scanner
begin

text \<open>
  The rules by which the scanner is proved: what a computation ensures whatever the host answers, loops
  over the text, and the table of tokens and trivia as it grows.
\<close>

subsection \<open>What a computation ensures\<close>

definition proper :: "parse_fault \<Rightarrow> bool" where
  "proper e \<longleftrightarrow> e = Failure ParseCancelled \<or> (\<exists>r l. e = Failure (ParseResourceLimit r l))"

definition ensures :: "'a scomp \<Rightarrow> ('a \<Rightarrow> bool) \<Rightarrow> bool" where
  "ensures c Q \<longleftrightarrow> (\<forall>e \<in> set (points c). proper e) \<and> (case outcome c of Inl e \<Rightarrow> proper e | Inr x \<Rightarrow> Q x)"

lemma proper_simps [simp]: "proper (Failure ParseCancelled)" "proper (limit_fault r l)" "proper (nesting_fault st)"
  by (simp_all add: proper_def limit_fault_def nesting_fault_def)

lemma ensures_ok [simp]: "ensures (ok x) Q \<longleftrightarrow> Q x"
  by (simp add: ensures_def)

lemma ensures_err [simp]: "ensures (err e) Q \<longleftrightarrow> proper e"
  by (simp add: ensures_def)

lemma ensures_ask [simp]: "ensures (ask e) Q \<longleftrightarrow> proper e \<and> Q ()"
  by (simp add: ensures_def)

lemma ensures_guard [simp]: "ensures (guard_err b e) Q \<longleftrightarrow> (if b then proper e else Q ())"
  by (simp add: guard_err_def)

lemma ensures_or_err [simp]: "ensures (or_err x e) Q \<longleftrightarrow> (case x of None \<Rightarrow> proper e | Some v \<Rightarrow> Q v)"
  by (simp add: or_err_def split: option.splits)

lemma ensures_then_iff: "ensures (and_then c f) Q \<longleftrightarrow> ensures c (\<lambda>x. ensures (f x) Q)"
  by (auto simp: ensures_def points_and_then split: sum.splits)

lemma ensures_mono: "ensures c P \<Longrightarrow> (\<And>x. P x \<Longrightarrow> Q x) \<Longrightarrow> ensures c Q"
  by (auto simp: ensures_def split: sum.splits)

lemma ensures_then: "ensures c P \<Longrightarrow> (\<And>x. P x \<Longrightarrow> ensures (f x) Q) \<Longrightarrow> ensures (and_then c f) Q"
  unfolding ensures_then_iff by (rule ensures_mono)

lemma and_then_ok [simp]: "and_then (ok x) f = f x"
  by (simp add: ok_def)

lemma ensures_exec: "ensures c Q \<Longrightarrow> (case exec h c of Inl e \<Rightarrow> proper e | Inr x \<Rightarrow> Q x)"
  using exec_cases [of h c] by (auto simp: ensures_def split: sum.splits)

text \<open>A loop with a measure below its fuel.\<close>

lemma ensures_iterate:
  assumes "I s" and "\<mu> s < n"
    and "\<And>s. I s \<Longrightarrow> ensures (body s) (\<lambda>x. case x of Inl s' \<Rightarrow> I s' \<and> \<mu> s' < (\<mu> s :: nat) | Inr r \<Rightarrow> Q r)"
  shows "ensures (iterate n body s) Q"
  using assms(1,2)
proof (induction n arbitrary: s)
  case (Suc n)
  show ?case
    unfolding iterate.simps
  proof (rule ensures_then [OF assms(3) [OF Suc.prems(1)]])
    fix x assume "case x of Inl s' \<Rightarrow> I s' \<and> \<mu> s' < \<mu> s | Inr r \<Rightarrow> Q r"
    with Suc show "ensures (case x of Inl s \<Rightarrow> iterate n body s | Inr r \<Rightarrow> ok r) Q" by (auto split: sum.splits)
  qed
qed simp

lemma ensures_while:
  assumes inv: "I x st" and t: "\<And>x st. I x st \<Longrightarrow> scan_text st = t \<and> scan_position st \<le> length t"
    and body: "\<And>x st. I x st \<Longrightarrow> scan_position st < length t \<Longrightarrow>
      ensures (body (x, st)) (\<lambda>r. case r of Inl (x', st') \<Rightarrow> I x' st' \<and> scan_position st < scan_position st' | Inr y \<Rightarrow> Q y)"
    and exit: "\<And>x st. I x st \<Longrightarrow> scan_position st = length t \<Longrightarrow> Q (exit (x, st))"
  shows "ensures (while_text body exit (x, st)) Q"
  unfolding while_text_def
proof (rule ensures_iterate [where I = "\<lambda>(x, st). I x st" and \<mu> = "\<lambda>(x, st). length t - scan_position st"])
  fix s assume "case s of (x, st) \<Rightarrow> I x st"
  then obtain x st where s: "s = (x, st)" and I: "I x st" by (cases s) auto
  show "ensures (if scan_position (snd s) < length (scan_text (snd s)) then body s else ok (Inr (exit s)))
      (\<lambda>r. case r of Inl s' \<Rightarrow> (case s' of (x, st) \<Rightarrow> I x st) \<and>
        (case s' of (x, st) \<Rightarrow> length t - scan_position st) < (case s of (x, st) \<Rightarrow> length t - scan_position st) | Inr r \<Rightarrow> Q r)"
  proof (cases "scan_position st < length t")
    case True
    have "ensures (body s) (\<lambda>r. case r of Inl s' \<Rightarrow> (case s' of (x, st) \<Rightarrow> I x st) \<and>
        (case s' of (x, st) \<Rightarrow> length t - scan_position st) < (case s of (x, st) \<Rightarrow> length t - scan_position st) | Inr r \<Rightarrow> Q r)"
      unfolding s by (rule ensures_mono [OF body [OF I True]]) (use True in \<open>auto split: sum.splits\<close>)
    with True t [OF I] s show ?thesis by simp
  next
    case False
    with exit [OF I] t [OF I] s show ?thesis by simp
  qed
qed (use inv t [OF inv] in auto)

subsection \<open>Characters of a text\<close>

lemma byte_in_unat: "byte_in a b x \<longleftrightarrow> unat a \<le> unat x \<and> unat x \<le> unat b"
  by (simp add: byte_in_def word_le_nat_alt)

lemma unat_eq_u8: "(a :: u8) = b \<longleftrightarrow> unat a = unat b"
  by (simp add: word_unat_eq_iff)

lemma utf8_step_length: "utf8_step bs = Some (c, r) \<Longrightarrow> r = drop (len_utf8 c) bs \<and> len_utf8 c \<le> length bs"
proof (cases bs)
  case (Cons a as)
  assume "utf8_step bs = Some (c, r)"
  then have step: "utf8_step (a # as) = Some (c, r)" by (simp add: Cons)
  consider "a < 0x80" "c = unat a" "r = as"
    | b where "\<not> a < 0x80" "byte_in 0xC2 0xDF a" "as = b # r" "is_continuation b" "c = (unat a - 0xC0) * 64 + (unat b - 0x80)"
    | b d where "byte_in 0xE0 0xEF a" "as = b # d # r" "second_of_three a b" "is_continuation d"
        "c = ((unat a - 0xE0) * 64 + (unat b - 0x80)) * 64 + (unat d - 0x80)"
    | b d e where "byte_in 0xF0 0xF4 a" "as = b # d # e # r" "second_of_four a b" "is_continuation d" "is_continuation e"
        "c = (((unat a - 0xF0) * 64 + (unat b - 0x80)) * 64 + (unat d - 0x80)) * 64 + (unat e - 0x80)"
    using step unfolding utf8_step.simps(2) by (auto split: if_splits list.splits)
  then have "r = drop (len_utf8 c) (a # as) \<and> len_utf8 c \<le> length (a # as)"
  proof cases
    case 1
    then have "c < 0x80" by (simp add: word_less_nat_alt)
    with 1 show ?thesis by (simp add: len_utf8_def)
  next
    case 2
    then have "0x80 \<le> c" "c < 0x800" by (auto simp: byte_in_unat is_continuation_unat)
    with 2 show ?thesis by (simp add: len_utf8_def)
  next
    case 3
    then have "0x800 \<le> c" "c < 0x10000"
      by (auto simp: byte_in_unat is_continuation_unat second_of_three_def unat_eq_u8 split: if_splits)
    with 3 show ?thesis by (simp add: len_utf8_def)
  next
    case 4
    then have "unat a = 0xF0 \<and> 0x90 \<le> unat b \<or> 0xF1 \<le> unat a"
      by (auto simp: byte_in_unat second_of_four_def unat_eq_u8 split: if_splits)
    then have "16 \<le> (unat a - 0xF0) * 64 + (unat b - 0x80)" by (elim disjE) auto
    then have "0x10000 \<le> c" unfolding 4(6) by simp
    then have "len_utf8 c = 4" by (simp add: len_utf8_def)
    with 4(2) show ?thesis by simp
  qed
  with Cons show ?thesis by (simp only:)
qed simp

lemma len_utf8_positive [simp]: "0 < len_utf8 c"
  by (simp add: len_utf8_def)

text \<open>The boundaries of characters in a well-formed text, as the suffixes that are well-formed.\<close>

definition boundary :: "text_bytes \<Rightarrow> nat \<Rightarrow> bool" where
  "boundary t i \<longleftrightarrow> i \<le> length t \<and> valid_utf8 (drop i t)"

lemma boundary_char: "boundary t i \<Longrightarrow> is_char_boundary t i"
proof -
  assume b: "boundary t i"
  then consider "i = length t" | "i < length t" by (fastforce simp: boundary_def)
  then show ?thesis
  proof cases
    case 2
    then have "hd (drop i t) = t ! i" by (simp add: hd_drop_conv_nth)
    moreover have "\<not> is_continuation (hd (drop i t))" using b 2 by (intro valid_utf8_hd) (auto simp: boundary_def)
    ultimately show ?thesis using 2 by (simp add: is_char_boundary_def)
  qed (simp add: is_char_boundary_def)
qed

lemma boundary_step:
  assumes "boundary t i" and "i < length t"
  obtains c where "utf8_step (drop i t) = Some (c, drop (i + len_utf8 c) t)" and "boundary t (i + len_utf8 c)"
proof -
  from assms have "drop i t \<noteq> []" "valid_utf8 (drop i t)" by (auto simp: boundary_def)
  then obtain c r where cr: "utf8_step (drop i t) = Some (c, r)" "valid_utf8 r" by (auto simp: valid_utf8_step split: option.splits)
  from utf8_step_length [OF cr(1)] assms(2) have "r = drop (i + len_utf8 c) t" "i + len_utf8 c \<le> length t" by (auto simp: add.commute)
  with cr that show thesis by (auto simp: boundary_def)
qed

lemma boundary_ascii: "boundary t i \<Longrightarrow> i < length t \<Longrightarrow> t ! i < 0x80 \<Longrightarrow> boundary t (i + 1)"
proof (erule boundary_step, assumption)
  fix c assume i: "i < length t" "t ! i < 0x80" and step: "utf8_step (drop i t) = Some (c, drop (i + len_utf8 c) t)" and b: "boundary t (i + len_utf8 c)"
  have "drop i t = t ! i # drop (Suc i) t" using i by (simp add: Cons_nth_drop_Suc)
  with step i have "c = unat (t ! i)" by (simp add: utf8_step.simps(2))
  with i have "len_utf8 c = 1" by (simp add: len_utf8_def word_less_nat_alt)
  with b show ?thesis by simp
qed

lemma boundary_prefix: "boundary t i \<Longrightarrow> starts_with (drop i t) p \<Longrightarrow> \<forall>b \<in> set p. b < 0x80 \<Longrightarrow> boundary t (i + length p) \<and> i + length p \<le> length t"
proof (induction p arbitrary: i)
  case (Cons a p)
  from Cons.prems(2) obtain xs where xs: "drop i t = a # xs" "starts_with xs p" by (cases "drop i t") (auto simp: starts_with_def)
  then have "i < length t" by (metis drop_all list.distinct(1) not_le)
  moreover from this xs have "t ! i = a" "starts_with (drop (i + 1) t) p" by (simp_all add: Cons_nth_drop_Suc [symmetric])
  ultimately show ?case using Cons.prems boundary_ascii [of t i] Cons.IH [of "i + 1"] by simp
qed (simp add: boundary_def)

subsection \<open>The table as it grows\<close>

definition sound_file :: "source_file \<Rightarrow> bool" where
  "sound_file f \<longleftrightarrow> valid_utf8 (source_text f) \<and> length (source_text f) < 2 ^ 32"

lemma sound_slice:
  assumes "sound_file f" and "boundary (source_text f) a" and "boundary (source_text f) b" and "a \<le> b"
  shows "slice f \<lparr>start = word_of_nat a, range_end = word_of_nat b\<rparr> = Inr (Some (take (b - a) (drop a (source_text f))))"
proof -
  have "b \<le> length (source_text f)" "length (source_text f) < 2 ^ 32" using assms by (auto simp: boundary_def sound_file_def)
  then have "unat (word_of_nat a :: u32) = a" "unat (word_of_nat b :: u32) = b" using assms(4) by (auto intro!: unat_of_nat_u32)
  with assms boundary_char show ?thesis by (simp add: slice_def slice_get_def boundary_def)
qed

text \<open>The state of the validator after the tokens, the trivia and the order of a prefix of the text.\<close>

definition lexical_prefix ::
  "source_file \<Rightarrow> parse_limits \<Rightarrow> token list \<Rightarrow> trivia list \<Rightarrow> lexical_element list \<Rightarrow> u64 \<Rightarrow> nat \<Rightarrow> bool" where
  "lexical_prefix f l ts us order bytes k \<longleftrightarrow>
     length ts \<le> unat (max_tokens l) \<and> bytes \<le> max_literal_bytes l \<and> length us \<le> k \<and> boundary (source_text f) k \<and>
     outcome (for_each (check_token f l) 0 (enumerate 0 ts)) = Inr bytes \<and>
     outcome (bad_trivia f 0 us) = Inr False \<and>
     outcome (for_each (cover_element ts us) (0, 0, 0) order) = Inr (length ts, length us, word_of_nat k)"

abbreviation lexed :: "scanner \<Rightarrow> nat \<Rightarrow> bool" where
  "lexed st k \<equiv> lexical_prefix (scan_source st) (scan_limits st) (scan_tokens st) (scan_trivia st) (scan_order st) (literal_bytes st) k"

lemma cover_extend:
  "outcome (for_each (cover_element ts us) s es) = Inr r \<Longrightarrow> outcome (for_each (cover_element (ts @ ts') (us @ us')) s es) = Inr r"
proof (induction es arbitrary: s)
  case (Cons e es)
  obtain a b c where s: "s = (a, b, c)" by (metis prod_cases3)
  from Cons.prems obtain s' where one: "outcome (cover_element ts us s e) = Inr s'" and rest: "outcome (for_each (cover_element ts us) s' es) = Inr r"
    by (auto simp: and_then_Inr simp del: outcome_and_then)
  have "outcome (cover_element (ts @ ts') (us @ us') s e) = Inr s'"
    using one unfolding s cover_element_def
    by (cases e) (auto simp: list_get_def nth_append split: if_splits)
  with Cons.IH [OF rest] show ?case by (auto simp: and_then_Inr simp del: outcome_and_then)
qed simp

lemma bad_trivia_append:
  assumes "outcome (bad_trivia f n us) = Inr False"
  shows "outcome (bad_trivia f n (us @ vs)) = outcome (bad_trivia f (n + length us) vs)"
  using assms
proof (induction us arbitrary: n)
  case (Cons u us)
  then show ?case by (auto split: sum.splits if_splits)
qed simp

lemma lexical_prefix_token:
  assumes p: "lexical_prefix f l ts us order bytes k" and room: "length ts < unat (max_tokens l)"
    and i: "token_ident t = word_of_nat (length ts)" and s: "token_span t = \<lparr>span_file = ident f, span_range = \<lparr>start = word_of_nat k, range_end = word_of_nat k'\<rparr>\<rparr>"
    and k': "k \<le> k'" "boundary (source_text f) k'" "synthetic t \<longleftrightarrow> k = k'" and f: "sound_file f"
    and check: "outcome (check_token f l bytes (length ts, t)) = Inr bytes'" "bytes' \<le> max_literal_bytes l"
  shows "lexical_prefix f l (ts @ [t]) us (order @ [TokenElement (word_of_nat (length ts))]) bytes' k'"
proof -
  have n: "unat (word_of_nat (length ts) :: u32) = length ts" using room u32_bound [of "max_tokens l"] by (intro unat_of_nat_u32) simp
  have kk: "k' < 2 ^ 32" using k' f by (auto simp: boundary_def sound_file_def)
  then have ends: "unat (word_of_nat k :: u32) = k" "unat (word_of_nat k' :: u32) = k'" using k' by (auto intro!: unat_of_nat_u32)
  have cover: "outcome (for_each (cover_element (ts @ [t]) us) (0, 0, 0) order) = Inr (length ts, length us, word_of_nat k)"
    using p cover_extend [of ts us "(0, 0, 0)" order _ "[t]" "[]"] by (simp add: lexical_prefix_def)
  have ne: "synthetic t \<or> (word_of_nat k' :: u32) \<noteq> word_of_nat k" using k' ends by metis
  have "outcome (cover_element (ts @ [t]) us (length ts, length us, word_of_nat k) (TokenElement (word_of_nat (length ts)))) =
      Inr (length ts + 1, length us, word_of_nat k')"
    unfolding cover_element_def using n s ne by (auto simp: list_get_def)
  with cover have "outcome (for_each (cover_element (ts @ [t]) us) (0, 0, 0) (order @ [TokenElement (word_of_nat (length ts))])) =
      Inr (length ts + 1, length us, word_of_nat k')"
    by (simp add: outcome_for_each_append)
  moreover have "outcome (for_each (check_token f l) 0 (enumerate 0 (ts @ [t]))) = Inr bytes'"
    using p check by (simp add: lexical_prefix_def enumerate_append_eq outcome_for_each_append)
  ultimately show ?thesis using p room k' check(2) by (auto simp: lexical_prefix_def)
qed

lemma lexical_prefix_trivia:
  assumes p: "lexical_prefix f l ts us order bytes k" and f: "sound_file f"
    and i: "trivia_ident u = word_of_nat (length us)" and s: "trivia_span u = \<lparr>span_file = ident f, span_range = \<lparr>start = word_of_nat k, range_end = word_of_nat k'\<rparr>\<rparr>"
    and k': "k < k'" "boundary (source_text f) k'"
  shows "lexical_prefix f l ts (us @ [u]) (order @ [TriviaElement (word_of_nat (length us))]) bytes k'"
proof -
  have kk: "k' < 2 ^ 32" "length us \<le> k" using k' f p by (auto simp: boundary_def sound_file_def lexical_prefix_def)
  then have ends: "unat (word_of_nat k :: u32) = k" "unat (word_of_nat k' :: u32) = k'" "unat (word_of_nat (length us) :: u32) = length us"
    using k' by (auto intro!: unat_of_nat_u32)
  have ne: "(word_of_nat k :: u32) \<noteq> word_of_nat k'" "(word_of_nat k' :: u32) \<noteq> word_of_nat k" using k' ends by (metis nat_neq_iff)+
  have cover: "outcome (for_each (cover_element ts (us @ [u])) (0, 0, 0) order) = Inr (length ts, length us, word_of_nat k)"
    using p cover_extend [of ts us "(0, 0, 0)" order _ "[]" "[u]"] by (simp add: lexical_prefix_def)
  have "outcome (cover_element ts (us @ [u]) (length ts, length us, word_of_nat k) (TriviaElement (word_of_nat (length us)))) =
      Inr (length ts, length us + 1, word_of_nat k')"
    unfolding cover_element_def using ends(3) s ne by (auto simp: list_get_def)
  with cover have "outcome (for_each (cover_element ts (us @ [u])) (0, 0, 0) (order @ [TriviaElement (word_of_nat (length us))])) =
      Inr (length ts, length us + 1, word_of_nat k')"
    by (simp add: outcome_for_each_append)
  moreover have "outcome (bad_trivia f 0 (us @ [u])) = Inr False"
  proof -
    have "slice f \<lparr>start = word_of_nat k, range_end = word_of_nat k'\<rparr> = Inr (Some (take (k' - k) (drop k (source_text f))))"
      using p k' f by (intro sound_slice) (auto simp: lexical_prefix_def)
    with p i s ends ne show ?thesis
      by (simp add: lexical_prefix_def bad_trivia_append valid_span_def source_slice_def)
  qed
  ultimately show ?thesis using p kk k' by (auto simp: lexical_prefix_def)
qed

subsection \<open>Steps that keep the table\<close>

lemma ensures_work: "ensures (work st) (\<lambda>st'. \<exists>n. st' = st\<lparr>poll_work := n\<rparr>)"
  by (auto simp: work_def Let_def ensures_then_iff)

lemma ensures_sink_error: "ensures (sink_error s c a b m) (\<lambda>_. True)"
  by (simp add: sink_error_def Let_def ensures_then_iff split: option.splits)

lemma ensures_report: "ensures (report st c a b m) (\<lambda>st'. \<exists>s. st' = st\<lparr>sink := s\<rparr>)"
  unfolding report_def by (rule ensures_then [OF ensures_sink_error]) auto

lemma ensures_report_if: "ensures (report_if p st c a b m) (\<lambda>st'. \<exists>s. st' = st\<lparr>sink := s\<rparr>)"
  using ensures_report [of st c a b m] by (auto simp: report_if_def intro!: exI [of _ "sink st"])

lemma ensures_capacity: "ensures (check_token_capacity st) (\<lambda>_. length (scan_tokens st) < unat (max_tokens (scan_limits st)))"
  by (simp add: check_token_capacity_def Let_def ensures_then_iff)

lemma current_char_at:
  assumes "utf8_step (drop (scan_position st) (scan_text st)) = Some (c, r)" and "boundary (scan_text st) (scan_position st)"
  shows "current_char st = ok c"
  using assms(1) boundary_char [OF assms(2)] by (simp add: current_char_def remaining_def and_then.simps ok_def)

lemma remaining_at: "boundary (scan_text st) (scan_position st) \<Longrightarrow> remaining st = ok (drop (scan_position st) (scan_text st))"
  using boundary_char by (simp add: remaining_def)

lemma text_slice_at: "boundary t a \<Longrightarrow> boundary t b \<Longrightarrow> a \<le> b \<Longrightarrow> text_slice t a b = ok (take (b - a) (drop a t))"
  using boundary_char by (simp add: text_slice_def)

text \<open>What follows for the character at a position before the end.\<close>

lemma ensures_current_char:
  assumes b: "boundary (scan_text st) (scan_position st)" and l: "scan_position st < length (scan_text st)"
    and Q: "\<And>c. utf8_step (drop (scan_position st) (scan_text st)) = Some (c, drop (scan_position st + len_utf8 c) (scan_text st)) \<Longrightarrow>
      boundary (scan_text st) (scan_position st + len_utf8 c) \<Longrightarrow> Q c"
  shows "ensures (current_char st) Q"
proof -
  from boundary_step [OF b l] obtain c where "utf8_step (drop (scan_position st) (scan_text st)) = Some (c, drop (scan_position st + len_utf8 c) (scan_text st))"
    and "boundary (scan_text st) (scan_position st + len_utf8 c)" .
  with Q current_char_at b show ?thesis by auto
qed

subsection \<open>Steps that extend the table\<close>

definition inner_kind :: "token_kind \<Rightarrow> bool" where
  "inner_kind k \<longleftrightarrow> k \<noteq> IndentToken \<and> k \<noteq> DedentToken \<and> k \<noteq> EndOfFileToken"

definition pushed :: "token_kind \<Rightarrow> nat \<Rightarrow> scanner \<Rightarrow> scanner \<Rightarrow> bool" where
  "pushed kind till st st' \<longleftrightarrow>
     (\<exists>t ord b. token_kind t = kind \<and> st' = st\<lparr>scan_tokens := scan_tokens st @ [t], scan_order := ord, literal_bytes := b\<rparr>) \<and> lexed st' till"

definition noted :: "nat \<Rightarrow> scanner \<Rightarrow> scanner \<Rightarrow> bool" where
  "noted till st st' \<longleftrightarrow> (\<exists>us ord. st' = st\<lparr>scan_trivia := us, scan_order := ord\<rparr>) \<and> lexed st' till"

lemma pushed_token:
  assumes "lexical_prefix (scan_source st) (scan_limits st) (scan_tokens st @ [t]) (scan_trivia st)
      (scan_order st @ [TokenElement (word_of_nat (length (scan_tokens st)))]) b till"
    and "t = \<lparr>token_ident = word_of_nat (length (scan_tokens st)), token_kind = kind, token_span = span_at st k till,
      newline_origin = origin, spelling = raw, synthetic = synth\<rparr>"
  shows "pushed kind till st (push_token kind k till origin raw synth (st\<lparr>literal_bytes := b\<rparr>))"
proof -
  have "push_token kind k till origin raw synth (st\<lparr>literal_bytes := b\<rparr>) =
      st\<lparr>scan_tokens := scan_tokens st @ [t], scan_order := scan_order st @ [TokenElement (word_of_nat (length (scan_tokens st)))], literal_bytes := b\<rparr>"
    by (simp add: push_token_def Let_def span_at_def assms(2))
  moreover have "token_kind t = kind" by (simp add: assms(2))
  ultimately show ?thesis using assms(1) unfolding pushed_def by (auto simp del: token.simps)
qed

lemma ensures_push_trivia:
  assumes "lexed st k" and "sound_file (scan_source st)" and "k < till" and "boundary (scan_text st) till"
  shows "ensures (push_trivia kind k till st) (noted till st)"
proof -
  let ?u = "\<lparr>trivia_ident = word_of_nat (length (scan_trivia st)), trivia_kind = kind, trivia_span = span_at st k till\<rparr>"
  have "lexical_prefix (scan_source st) (scan_limits st) (scan_tokens st) (scan_trivia st @ [?u])
      (scan_order st @ [TriviaElement (word_of_nat (length (scan_trivia st)))]) (literal_bytes st) till"
    by (rule lexical_prefix_trivia [OF assms(1,2) _ _ assms(3,4)]) (simp_all add: span_at_def)
  then show ?thesis by (auto simp: push_trivia_def ensures_then_iff noted_def Let_def)
qed

lemma check_token_spelled:
  assumes f: "sound_file f" and k: "boundary (source_text f) k" "boundary (source_text f) k'" "k \<le> k'" and n: "n < 2 ^ 32"
    and kind: "kind = NewlineToken \<longleftrightarrow> origin \<noteq> None" "origin \<noteq> Some SyntheticRecovery" "carries_spelling kind \<longleftrightarrow> raw \<noteq> None"
      "kind = EndOfFileToken \<longrightarrow> synth" "synth \<longleftrightarrow> k = k'"
    and raw: "\<forall>s. raw = Some s \<longrightarrow> s = take (k' - k) (drop k (source_text f))"
    and bytes: "if raw \<noteq> None \<and> is_literal_token kind then \<exists>m. u64_try_from (k' - k) = Some m \<and> checked_add_u64 bytes m = Some bytes' else bytes' = bytes"
  shows "outcome (check_token f l bytes (n, \<lparr>token_ident = word_of_nat n, token_kind = kind,
    token_span = \<lparr>span_file = ident f, span_range = \<lparr>start = word_of_nat k, range_end = word_of_nat k'\<rparr>\<rparr>,
    newline_origin = origin, spelling = raw, synthetic = synth\<rparr>)) = Inr bytes'"
proof -
  have k32: "k' < 2 ^ 32" using k f by (auto simp: boundary_def sound_file_def)
  then have ends: "unat (word_of_nat k :: u32) = k" "unat (word_of_nat k' :: u32) = k'" using k by (auto intro!: unat_of_nat_u32)
  then have empty: "(word_of_nat k :: u32) = word_of_nat k' \<longleftrightarrow> k = k'" by metis
  have len: "length (take (k' - k) (drop k (source_text f))) = k' - k" using k by (auto simp: boundary_def)
  note slice = sound_slice [OF f k]
  show ?thesis
    using kind raw bytes slice empty len unat_of_nat_u32 [OF n]
    by (cases raw) (auto simp: check_token_def valid_span_def source_slice_def check_spelling_def split: if_splits)
qed

lemma ensures_push_physical:
  assumes p: "lexed st k" and f: "sound_file (scan_source st)" and k: "k < till" "boundary (scan_text st) till"
    and kind: "kind = NewlineToken \<longleftrightarrow> origin \<noteq> None" "origin \<noteq> Some SyntheticRecovery" "carries_spelling kind \<longleftrightarrow> sp" "kind \<noteq> EndOfFileToken"
  shows "ensures (push_physical kind k till origin sp st) (pushed kind till st)"
proof -
  let ?raw = "take (till - k) (drop k (scan_text st))" and ?n = "length (scan_tokens st)"
  let ?t = "\<lambda>raw. \<lparr>token_ident = word_of_nat ?n, token_kind = kind, token_span = span_at st k till, newline_origin = origin,
      spelling = raw, synthetic = False\<rparr>"
  have b: "boundary (scan_text st) k" using p by (simp add: lexical_prefix_def)
  have push: "pushed kind till st (push_token kind k till origin raw False (st\<lparr>literal_bytes := bytes'\<rparr>))"
    if room: "?n < unat (max_tokens (scan_limits st))" and raw: "raw = (if sp then Some ?raw else None)"
      and bytes: "if sp \<and> is_literal_token kind then \<exists>m. u64_try_from (till - k) = Some m \<and> checked_add_u64 (literal_bytes st) m = Some bytes' else bytes' = literal_bytes st"
      and limit: "bytes' \<le> max_literal_bytes (scan_limits st)" for raw bytes'
  proof -
    have n: "?n < 2 ^ 32" using room u32_bound [of "max_tokens (scan_limits st)"] by simp
    have "outcome (check_token (scan_source st) (scan_limits st) (literal_bytes st) (?n, ?t raw)) = Inr bytes'"
      unfolding span_at_def
      by (rule check_token_spelled [OF f b k(2) less_imp_le [OF k(1)] n]) (use kind raw bytes k(1) in auto)
    then have "lexical_prefix (scan_source st) (scan_limits st) (scan_tokens st @ [?t raw]) (scan_trivia st)
        (scan_order st @ [TokenElement (word_of_nat ?n)]) bytes' till"
      by (intro lexical_prefix_token [OF p room _ _ _ k(2) _ f _ limit]) (use k(1) in \<open>simp_all add: span_at_def\<close>)
    then show ?thesis by (rule pushed_token) simp
  qed
  have old: "literal_bytes st \<le> max_literal_bytes (scan_limits st)" using p by (simp add: lexical_prefix_def)
  note slice = text_slice_at [OF b k(2) less_imp_le [OF k(1)]]
  show ?thesis
    unfolding push_physical_def Let_def
  proof (rule ensures_then [OF ensures_capacity])
    fix u assume room: "?n < unat (max_tokens (scan_limits st))"
    show "ensures (if sp then and_then
          (if is_literal_token kind then
             and_then (or_err (u64_try_from (till - k)) (limit_fault ''literal bytes'' (max_literal_bytes (scan_limits st)))) (\<lambda>n.
             and_then (or_err (checked_add_u64 (literal_bytes st) n) (limit_fault ''literal bytes'' (max_literal_bytes (scan_limits st)))) (\<lambda>next.
             and_then (guard_err (next > max_literal_bytes (scan_limits st)) (limit_fault ''literal bytes'' (max_literal_bytes (scan_limits st)))) (\<lambda>_.
               ok (st\<lparr>literal_bytes := next\<rparr>))))
           else ok st) (\<lambda>st.
        and_then (text_slice (scan_text st) k till) (\<lambda>raw.
          ok (push_token kind k till origin (Some raw) False st)))
      else ok (push_token kind k till origin None False st)) (pushed kind till st)"
      using push [OF room] slice old push [OF room, of _ "literal_bytes st"] push [OF room, of None "literal_bytes st"]
      by (auto simp: ensures_then_iff not_less split: option.splits)
  qed
qed

lemma ensures_push_synthetic:
  assumes p: "lexed st k" and f: "sound_file (scan_source st)"
    and kind: "kind = NewlineToken \<longleftrightarrow> origin \<noteq> None" "origin \<noteq> Some SyntheticRecovery" "\<not> carries_spelling kind"
  shows "ensures (push_synthetic kind k origin st) (pushed kind k st)"
  unfolding push_synthetic_def
proof (rule ensures_then [OF ensures_capacity])
  let ?n = "length (scan_tokens st)"
  let ?t = "\<lparr>token_ident = word_of_nat ?n, token_kind = kind, token_span = span_at st k k, newline_origin = origin, spelling = None, synthetic = True\<rparr>"
  fix u assume room: "?n < unat (max_tokens (scan_limits st))"
  have b: "boundary (scan_text st) k" "literal_bytes st \<le> max_literal_bytes (scan_limits st)" using p by (auto simp: lexical_prefix_def)
  have n: "?n < 2 ^ 32" using room u32_bound [of "max_tokens (scan_limits st)"] by simp
  have "outcome (check_token (scan_source st) (scan_limits st) (literal_bytes st) (?n, ?t)) = Inr (literal_bytes st)"
    unfolding span_at_def by (rule check_token_spelled [OF f b(1) b(1) order_refl n]) (use kind in auto)
  then have "lexical_prefix (scan_source st) (scan_limits st) (scan_tokens st @ [?t]) (scan_trivia st)
      (scan_order st @ [TokenElement (word_of_nat ?n)]) (literal_bytes st) k"
    by (intro lexical_prefix_token [OF p room _ _ _ b(1) _ f _ b(2)]) (simp_all add: span_at_def)
  then have "pushed kind k st (push_token kind k k origin None True (st\<lparr>literal_bytes := literal_bytes st\<rparr>))" by (rule pushed_token) simp
  then show "ensures (ok (push_token kind k k origin None True st)) (pushed kind k st)" by simp
qed

end
