(* ===== verification/Scanner_Words.thy ===== *)
theory Scanner_Words
  imports Scanner_Laws
begin

text \<open>
  Every kind of token but layout and interpolation: blanks, comments, words, numbers, quoted literals and
  punctuation. Each scan moves on, extends the table to the new position, and adds no layout token.
\<close>

subsection \<open>Moving and growing\<close>

definition moved :: "scanner \<Rightarrow> scanner \<Rightarrow> bool" where
  "moved st st' \<longleftrightarrow>
     st' = st\<lparr>poll_work := poll_work st', sink := sink st', scan_position := scan_position st'\<rparr> \<and>
     scan_position st \<le> scan_position st' \<and> boundary (scan_text st) (scan_position st')"

lemma moved_refl: "boundary (scan_text st) (scan_position st) \<Longrightarrow> moved st st"
  by (simp add: moved_def)

lemma moved_trans: "moved a b \<Longrightarrow> moved b c \<Longrightarrow> moved a c"
  unfolding moved_def by (cases a; cases b; cases c) simp

lemma moved_poll [simp]: "moved st (st'\<lparr>poll_work := n\<rparr>) \<longleftrightarrow> moved st st'"
  unfolding moved_def by (cases st; cases st') simp

lemma moved_sink [simp]: "moved st (st'\<lparr>sink := s\<rparr>) \<longleftrightarrow> moved st st'"
  unfolding moved_def by (cases st; cases st') simp

lemma moved_advance: "moved st st' \<Longrightarrow> boundary (scan_text st) (scan_position st' + n) \<Longrightarrow> moved st (advance st' n)"
  unfolding moved_def advance_def by (cases st; cases st') simp

lemma movedD:
  assumes "moved st st'"
  shows "scan_source st' = scan_source st" "scan_limits st' = scan_limits st" "indentation st' = indentation st"
    "delimiters st' = delimiters st" "scan_tokens st' = scan_tokens st" "scan_trivia st' = scan_trivia st" "scan_order st' = scan_order st"
    "literal_bytes st' = literal_bytes st" "interpolation_depth st' = interpolation_depth st"
    "scan_position st \<le> scan_position st'" "boundary (scan_text st) (scan_position st')"
  using assms unfolding moved_def by (cases st; cases st'; simp)+

lemma moved_le_length: "moved st st' \<Longrightarrow> scan_position st' \<le> length (scan_text st)"
  by (auto dest: movedD simp: boundary_def)

definition grows :: "scanner \<Rightarrow> scanner \<Rightarrow> bool" where
  "grows st st' \<longleftrightarrow>
     scan_source st' = scan_source st \<and> scan_limits st' = scan_limits st \<and> indentation st' = indentation st \<and>
     interpolation_depth st' = interpolation_depth st \<and>
     (\<exists>new. scan_tokens st' = scan_tokens st @ new \<and> (\<forall>t \<in> set new. inner_kind (token_kind t)))"

lemma grows_refl [simp]: "grows st st"
  by (simp add: grows_def)

lemma grows_trans: "grows a b \<Longrightarrow> grows b c \<Longrightarrow> grows a c"
  unfolding grows_def by fastforce

lemma moved_grows: "moved st st' \<Longrightarrow> grows st st'"
  by (auto simp: grows_def dest: movedD)

lemma noted_grows: "noted till st st' \<Longrightarrow> grows st st'"
  by (auto simp: noted_def grows_def)

lemma pushed_grows: "pushed kind till st st' \<Longrightarrow> inner_kind kind \<Longrightarrow> grows st st'"
  by (auto simp: pushed_def grows_def)

lemma pushedD:
  assumes "pushed kind till st st'"
  shows "scan_source st' = scan_source st" "scan_limits st' = scan_limits st" "scan_position st' = scan_position st"
    "indentation st' = indentation st" "delimiters st' = delimiters st" "interpolation_depth st' = interpolation_depth st" "lexed st' till"
  using assms by (auto simp: pushed_def)

lemma notedD:
  assumes "noted till st st'"
  shows "scan_source st' = scan_source st" "scan_limits st' = scan_limits st" "scan_position st' = scan_position st"
    "indentation st' = indentation st" "delimiters st' = delimiters st" "interpolation_depth st' = interpolation_depth st"
    "scan_tokens st' = scan_tokens st" "lexed st' till"
  using assms by (auto simp: noted_def)

text \<open>A scan stands at a token to come, and has scanned it.\<close>

definition at_token :: "scanner \<Rightarrow> bool" where
  "at_token st \<longleftrightarrow> sound_file (scan_source st) \<and> lexed st (scan_position st) \<and> scan_position st < length (scan_text st)"

definition stepped :: "scanner \<Rightarrow> scanner \<Rightarrow> bool" where
  "stepped st st' \<longleftrightarrow> grows st st' \<and> scan_position st < scan_position st' \<and> lexed st' (scan_position st')"

lemma at_token_boundary: "at_token st \<Longrightarrow> boundary (scan_text st) (scan_position st)"
  by (simp add: at_token_def lexical_prefix_def)

lemma moved_lexed: "moved st st' \<Longrightarrow> lexed st' k = lexed st k"
  by (simp add: movedD)

text \<open>The token from the position of a state to that of a state it moved to.\<close>

lemma push_moved:
  assumes st: "at_token st" and m: "moved st st'" "scan_position st < scan_position st'"
    and kind: "kind = NewlineToken \<longleftrightarrow> origin \<noteq> None" "origin \<noteq> Some SyntheticRecovery" "carries_spelling kind \<longleftrightarrow> sp" "inner_kind kind"
  shows "ensures (push_physical kind (scan_position st) (scan_position st') origin sp st') (stepped st)"
proof (rule ensures_mono)
  show "ensures (push_physical kind (scan_position st) (scan_position st') origin sp st') (pushed kind (scan_position st') st')"
    by (rule ensures_push_physical [OF _ _ m(2) _ kind(1,2,3)])
      (use st kind(4) m in \<open>auto simp: at_token_def movedD moved_lexed inner_kind_def\<close>)
next
  fix st'' assume p: "pushed kind (scan_position st') st' st''"
  show "stepped st st''"
    using grows_trans [OF moved_grows [OF m(1)] pushed_grows [OF p kind(4)]] m(2) pushedD [OF p] by (simp add: stepped_def)
qed

lemma push_literal:
  assumes "at_token st" and "moved st st'" "scan_position st < scan_position st'" and "is_literal_token kind"
  shows "ensures (push_physical kind (scan_position st) (scan_position st') None True st') (stepped st)"
  by (rule push_moved [OF assms(1-3)])
    (use assms(4) in \<open>auto simp: inner_kind_def is_literal_token_def carries_spelling_def split: token_kind.splits\<close>)

lemma note_moved:
  assumes st: "at_token st" and m: "moved st st'" "scan_position st < scan_position st'"
  shows "ensures (push_trivia kind (scan_position st) (scan_position st') st') (stepped st)"
proof (rule ensures_mono)
  show "ensures (push_trivia kind (scan_position st) (scan_position st') st') (noted (scan_position st') st')"
    by (rule ensures_push_trivia [OF _ _ m(2)]) (use st m in \<open>auto simp: at_token_def movedD moved_lexed\<close>)
next
  fix st'' assume p: "noted (scan_position st') st' st''"
  show "stepped st st''"
    using grows_trans [OF moved_grows [OF m(1)] noted_grows [OF p]] m(2) notedD [OF p] by (simp add: stepped_def)
qed

subsection \<open>Blanks and comments\<close>

lemma boundary_run:
  assumes "boundary t i" and "\<And>b. p b \<Longrightarrow> b < 0x80"
  shows "boundary t (i + length (takeWhile p (drop i t)))"
proof -
  have "starts_with (drop i t) (takeWhile p (drop i t))"
    unfolding starts_with_def by (metis append_eq_conv_conj takeWhile_dropWhile_id)
  from boundary_prefix [OF assms(1) this] assms(2) set_takeWhileD show ?thesis by fastforce
qed

lemma moved_to: "boundary (scan_text st) p \<Longrightarrow> scan_position st \<le> p \<Longrightarrow> moved st (st\<lparr>scan_position := p\<rparr>)"
  by (simp add: moved_def)

lemma scan_space_steps:
  assumes "at_token st" and "scan_text st ! scan_position st = 0x20 \<or> scan_text st ! scan_position st = 0x09"
  shows "ensures (scan_horizontal_space st) (stepped st)"
proof -
  let ?run = "takeWhile (\<lambda>b. b = 0x20 \<or> b = 0x09) (drop (scan_position st) (scan_text st))"
  have "drop (scan_position st) (scan_text st) = scan_text st ! scan_position st # drop (Suc (scan_position st)) (scan_text st)"
    using assms(1) by (simp add: at_token_def Cons_nth_drop_Suc)
  with assms(2) have "?run \<noteq> []" by (simp only: takeWhile.simps) auto
  moreover have "boundary (scan_text st) (scan_position st + length ?run)"
    by (rule boundary_run [OF at_token_boundary [OF assms(1)]]) auto
  ultimately show ?thesis
    using note_moved [OF assms(1) moved_to, of "scan_position st + length ?run" SpacesTrivia] by (simp add: scan_horizontal_space_def Let_def)
qed

lemma ensures_move_work: "moved st st' \<Longrightarrow> boundary (scan_text st) (scan_position st' + n) \<Longrightarrow>
  ensures (work (advance st' n)) (\<lambda>st''. moved st st'' \<and> scan_position st'' = scan_position st' + n)"
  by (rule ensures_mono [OF ensures_work]) (auto simp: moved_advance, simp add: advance_def)

lemma scan_comment_steps:
  assumes st: "at_token st" and c: "scan_text st ! scan_position st \<noteq> 0x0A" "scan_text st ! scan_position st \<noteq> 0x0D"
  shows "ensures (scan_comment st) (stepped st)"
  unfolding scan_comment_def
proof (rule ensures_then)
  show "ensures (while_text (\<lambda>(_, st).
         if scan_text st ! scan_position st = 0x0A \<or> scan_text st ! scan_position st = 0x0D then ok (Inr st)
         else and_then (current_char st) (\<lambda>c.
           and_then (work (advance st (len_utf8 c))) (\<lambda>st. ok (Inl ((), st))))) snd ((), st))
      (\<lambda>st'. moved st st' \<and> scan_position st < scan_position st')"
  proof (rule ensures_while [where I = "\<lambda>_ st'. moved st st'" and t = "scan_text st"])
    show "moved st st" using st by (intro moved_refl at_token_boundary)
  next
    fix u :: unit and st' assume m: "moved st st'" and l: "scan_position st' < length (scan_text st)"
    have b: "boundary (scan_text st') (scan_position st')" "scan_text st' = scan_text st" using movedD [OF m] by simp_all
    show "ensures (case (u, st') of (_, st) \<Rightarrow>
         if scan_text st ! scan_position st = 0x0A \<or> scan_text st ! scan_position st = 0x0D then ok (Inr st)
         else and_then (current_char st) (\<lambda>c.
           and_then (work (advance st (len_utf8 c))) (\<lambda>st. ok (Inl ((), st)))))
        (\<lambda>r. case r of Inl (x', st'') \<Rightarrow> moved st st'' \<and> scan_position st' < scan_position st''
          | Inr st' \<Rightarrow> moved st st' \<and> scan_position st < scan_position st')"
    proof (cases "scan_text st' ! scan_position st' = 0x0A \<or> scan_text st' ! scan_position st' = 0x0D")
      case True
      with c b(2) have "scan_position st' \<noteq> scan_position st" by metis
      with True m movedD(10) [OF m] show ?thesis by simp
    next
      case False
      have "ensures (current_char st') (\<lambda>c. ensures (work (advance st' (len_utf8 c))) (\<lambda>st''. moved st st'' \<and> scan_position st' < scan_position st''))"
        by (rule ensures_current_char [OF b(1)]) (use l b(2) in \<open>auto intro!: ensures_mono [OF ensures_move_work [OF m]]\<close>)
      with False show ?thesis by (simp add: ensures_then_iff)
    qed
  qed (use st in \<open>auto simp: movedD moved_le_length at_token_def\<close>)
qed (use note_moved [OF st] in blast)

subsection \<open>Numbers\<close>

lemma moved_char:
  assumes "moved st st'" and "scan_position st' < length (scan_text st)"
    and "\<And>c. utf8_step (drop (scan_position st') (scan_text st)) = Some (c, drop (scan_position st' + len_utf8 c) (scan_text st)) \<Longrightarrow>
      boundary (scan_text st) (scan_position st' + len_utf8 c) \<Longrightarrow> Q c"
  shows "ensures (current_char st') Q"
  using ensures_current_char [of st' Q] movedD [OF assms(1)] assms(2,3) by simp

lemma skip_bytes_moves:
  assumes b: "boundary (scan_text st) (scan_position st)" and p: "\<And>b. p b \<Longrightarrow> b < 0x80"
  shows "ensures (skip_bytes p st) (\<lambda>st'. moved st st' \<and>
    (scan_position st < length (scan_text st) \<and> p (scan_text st ! scan_position st) \<longrightarrow> scan_position st < scan_position st'))"
  unfolding skip_bytes_def
proof (rule ensures_while [where I = "\<lambda>_ st'. moved st st'" and t = "scan_text st"])
  fix u :: unit and st' assume m: "moved st st'" and l: "scan_position st' < length (scan_text st)"
  have b': "boundary (scan_text st) (scan_position st')" "scan_text st' = scan_text st" "scan_position st \<le> scan_position st'"
    using movedD [OF m] by simp_all
  show "ensures (case (u, st') of (_, st) \<Rightarrow>
       if p (scan_text st ! scan_position st) then and_then (work (advance st 1)) (\<lambda>st. ok (Inl ((), st))) else ok (Inr st))
      (\<lambda>r. case r of Inl (x', st'') \<Rightarrow> moved st st'' \<and> scan_position st' < scan_position st''
        | Inr st' \<Rightarrow> moved st st' \<and> (scan_position st < length (scan_text st) \<and> p (scan_text st ! scan_position st) \<longrightarrow> scan_position st < scan_position st'))"
  proof (cases "p (scan_text st ! scan_position st')")
    case True
    then have "boundary (scan_text st) (scan_position st' + 1)" using b'(1) l p by (intro boundary_ascii) auto
    from ensures_move_work [OF m this] True b'(2) show ?thesis by (auto simp: ensures_then_iff elim: ensures_mono)
  next
    case False
    then have "p (scan_text st ! scan_position st) \<Longrightarrow> scan_position st \<noteq> scan_position st'" by metis
    with False m b' show ?thesis by auto
  qed
qed (use b in \<open>auto simp: movedD moved_le_length moved_refl\<close>)

lemma digit_ascii: "is_ascii_digit b \<Longrightarrow> b < 0x80" "valid_digit base b \<Longrightarrow> b < 0x80" "is_ascii_hexdigit b \<Longrightarrow> b < 0x80"
  by (auto simp: is_ascii_digit_def valid_digit_def is_ascii_hexdigit_def digit_value_def word_le_nat_alt word_less_nat_alt split: option.splits if_splits)

lemma decimal_ascii: "is_decimal_byte b \<Longrightarrow> b < 0x80"
  by (auto simp: is_decimal_byte_def digit_ascii)

lemma validate_run_moves: "moved st st' \<Longrightarrow> ensures (validate_digit_run a b base st') (\<lambda>st''. moved st st'' \<and> scan_position st'' = scan_position st')"
  unfolding validate_digit_run_def by (rule ensures_mono [OF ensures_report_if]) auto

lemma scan_digits_moves:
  assumes "boundary (scan_text st) (scan_position st)"
  shows "ensures (scan_digits st) (\<lambda>st'. moved st st' \<and>
    (scan_position st < length (scan_text st) \<and> is_decimal_byte (scan_text st ! scan_position st) \<longrightarrow> scan_position st < scan_position st'))"
  unfolding scan_digits_def
proof (rule ensures_then [OF skip_bytes_moves [OF assms decimal_ascii]])
  fix st' assume m: "moved st st' \<and>
    (scan_position st < length (scan_text st) \<and> is_decimal_byte (scan_text st ! scan_position st) \<longrightarrow> scan_position st < scan_position st')"
  show "ensures (validate_digit_run (scan_position st) (scan_position st') 10 st') (\<lambda>st'. moved st st' \<and>
    (scan_position st < length (scan_text st) \<and> is_decimal_byte (scan_text st ! scan_position st) \<longrightarrow> scan_position st < scan_position st'))"
    by (rule ensures_mono [OF validate_run_moves [OF conjunct1 [OF m]]]) (use m in auto)
qed

text \<open>From a state that moved, one more ASCII byte and decimal digits.\<close>

lemma digits_after:
  assumes "moved st st'" and "boundary (scan_text st) (scan_position st' + n)"
  shows "ensures (scan_digits (advance st' n)) (\<lambda>st''. moved st st'' \<and> scan_position st' \<le> scan_position st'')"
proof -
  have m: "moved st (advance st' n)" by (rule moved_advance [OF assms])
  then have "boundary (scan_text (advance st' n)) (scan_position (advance st' n))" using movedD [OF m] by simp
  from scan_digits_moves [OF this] show ?thesis
    by (rule ensures_mono) (auto dest: movedD(10) intro: moved_trans [OF m] simp: advance_def)
qed

lemma byte_boundary: "boundary t i \<Longrightarrow> list_get t i = Some b \<Longrightarrow> b < 0x80 \<Longrightarrow> boundary t (i + 1)"
  using boundary_ascii [of t i] by (auto simp: list_get_def split: if_splits)

lemma scan_fraction_moves:
  assumes "moved st st'"
  shows "ensures (scan_fraction kind st') (\<lambda>(kind', st''). moved st st'' \<and> scan_position st' \<le> scan_position st'' \<and> kind' \<in> {kind, FloatLiteral})"
proof (cases "text_byte st' (scan_position st') = Some (byte_of (CHR ''.''))")
  case True
  have "boundary (scan_text st) (scan_position st' + 1)"
    by (rule byte_boundary [where b = "byte_of (CHR ''.'')"]) (use True assms in \<open>simp_all add: text_byte_def movedD\<close>)
  from digits_after [OF assms this] assms show ?thesis
    by (auto simp: scan_fraction_def ensures_then_iff elim: ensures_mono)
qed (use assms in \<open>simp add: scan_fraction_def\<close>)

lemma scan_exponent_moves:
  assumes "moved st st'"
  shows "ensures (scan_exponent kind st') (\<lambda>(kind', st''). moved st st'' \<and> scan_position st' \<le> scan_position st'' \<and> kind' \<in> {kind, FloatLiteral})"
proof (cases "text_byte st' (scan_position st') \<in> {Some (byte_of (CHR ''e'')), Some (byte_of (CHR ''E''))}")
  case True
  then obtain b where b: "list_get (scan_text st) (scan_position st') = Some b" "b < 0x80" using assms by (auto simp: text_byte_def movedD)
  have one: "boundary (scan_text st) (scan_position st' + 1)" by (rule byte_boundary [OF _ b]) (simp add: movedD [OF assms])
  let ?st = "advance st' 1"
  have m: "moved st ?st" by (rule moved_advance [OF assms one])
  show ?thesis
  proof (cases "text_byte ?st (scan_position ?st) \<in> {Some (byte_of (CHR ''+'')), Some (byte_of (CHR ''-''))}")
    case sign: True
    then obtain c where c: "list_get (scan_text st) (scan_position ?st) = Some c" "c < 0x80" using m by (auto simp: text_byte_def movedD)
    have "boundary (scan_text st) (scan_position ?st + 1)" by (rule byte_boundary [OF movedD(11) [OF m] c])
    from digits_after [OF m this] True sign show ?thesis
      by (auto simp: scan_exponent_def ensures_then_iff Let_def advance_def elim!: ensures_mono)
  next
    case False
    from digits_after [OF assms one] True False show ?thesis
      by (auto simp: scan_exponent_def ensures_then_iff Let_def elim!: ensures_mono)
  qed
qed (use assms in \<open>simp add: scan_exponent_def\<close>)

lemma scan_number_steps:
  assumes st: "at_token st" and d: "is_ascii_digit (scan_text st ! scan_position st)"
  shows "ensures (scan_number st) (stepped st)"
proof -
  let ?t = "scan_text st" and ?p = "scan_position st"
  define base where "base = (if text_byte st ?p = Some (byte_of (CHR ''0'')) then (case text_byte st (?p + 1) of None \<Rightarrow> 10 | Some b \<Rightarrow> number_base b) else 10)"
  have b: "boundary ?t ?p" "?p < length ?t" using st by (auto simp: at_token_boundary at_token_def)
  show ?thesis
  proof (cases "base = 10")
    case False
    then obtain x where x: "list_get ?t (?p + 1) = Some x" "number_base x \<noteq> 10"
      by (auto simp: base_def text_byte_def split: if_splits option.splits)
    then have "x < 0x80" by (auto simp: number_base_def split: if_splits)
    with x(1) b digit_ascii(1) [OF d] have two: "boundary ?t (?p + 2)" using boundary_ascii [of ?t ?p] byte_boundary [of ?t "?p + 1" x] by simp
    have m: "moved st (advance st 2)" by (rule moved_advance [OF moved_refl [OF b(1)] two])
    have "ensures (scan_based_number base st) (stepped st)"
      unfolding scan_based_number_def Let_def
    proof (rule ensures_then [OF skip_bytes_moves])
      show "boundary (scan_text (advance st 2)) (scan_position (advance st 2))" using movedD [OF m] by simp
    next
      fix st' assume "moved (advance st 2) st' \<and> (scan_position (advance st 2) < length (scan_text (advance st 2)) \<and>
        (valid_digit base (scan_text (advance st 2) ! scan_position (advance st 2)) \<or> scan_text (advance st 2) ! scan_position (advance st 2) = byte_of (CHR ''_'')) \<longrightarrow>
        scan_position (advance st 2) < scan_position st')"
      then have m': "moved st st'" "?p < scan_position st'" using moved_trans [OF m] movedD(10) [of "advance st 2" st'] by (auto simp: advance_def)
      show "ensures (and_then (validate_digit_run (?p + 2) (scan_position st') base st') (\<lambda>st'.
          push_physical IntegerLiteral ?p (scan_position st') None True st')) (stepped st)"
        by (rule ensures_then [OF validate_run_moves [OF m'(1)]], rule push_literal [OF st]) (use m' in \<open>auto simp: is_literal_token_def\<close>)
    qed (auto simp: digit_ascii)
    with False show ?thesis by (simp add: scan_number_def base_def Let_def)
  next
    case True
    have "ensures (and_then (scan_digits st) (\<lambda>st'.
        and_then (scan_fraction IntegerLiteral st') (\<lambda>(kind, st').
        and_then (scan_exponent kind st') (\<lambda>(kind, st').
        push_physical kind ?p (scan_position st') None True st')))) (stepped st)"
    proof (rule ensures_then [OF scan_digits_moves [OF b(1)]], elim conjE)
      fix s1 assume m1: "moved st s1" and "?p < length ?t \<and> is_decimal_byte (?t ! ?p) \<longrightarrow> ?p < scan_position s1"
      then have p1: "?p < scan_position s1" using b d by (simp add: is_decimal_byte_def)
      show "ensures (and_then (scan_fraction IntegerLiteral s1) (\<lambda>(kind, st').
          and_then (scan_exponent kind st') (\<lambda>(kind, st'). push_physical kind ?p (scan_position st') None True st'))) (stepped st)"
      proof (rule ensures_then [OF scan_fraction_moves [OF m1]], clarify)
        fix kind s2 assume m2: "moved st s2" and p2: "scan_position s1 \<le> scan_position s2" and k2: "kind \<in> {IntegerLiteral, FloatLiteral}"
        show "ensures (and_then (scan_exponent kind s2) (\<lambda>(kind, st'). push_physical kind ?p (scan_position st') None True st')) (stepped st)"
          by (rule ensures_then [OF scan_exponent_moves [OF m2]])
            (use p1 p2 k2 in \<open>auto intro!: push_literal [OF st] simp: is_literal_token_def\<close>)
      qed
    qed
    with True show ?thesis by (simp add: scan_number_def base_def Let_def)
  qed
qed

subsection \<open>Words\<close>

lemma moved_past_char:
  assumes st: "at_token st"
  obtains c where "utf8_step (drop (scan_position st) (scan_text st)) = Some (c, drop (scan_position st + len_utf8 c) (scan_text st))"
    and "current_char st = ok c" and "moved st (advance st (len_utf8 c))" and "scan_position st < scan_position (advance st (len_utf8 c))"
proof -
  have b: "boundary (scan_text st) (scan_position st)" "scan_position st < length (scan_text st)" using st by (auto simp: at_token_boundary at_token_def)
  from boundary_step [OF b] obtain c where c: "utf8_step (drop (scan_position st) (scan_text st)) = Some (c, drop (scan_position st + len_utf8 c) (scan_text st))"
    "boundary (scan_text st) (scan_position st + len_utf8 c)" .
  show thesis
    by (rule that [OF c(1) current_char_at [OF c(1) b(1)] moved_advance [OF moved_refl [OF b(1)] c(2)]]) (simp add: advance_def)
qed

lemma scan_identifier_steps:
  assumes st: "at_token st"
  shows "ensures (scan_identifier U st) (stepped st)"
proof (rule moved_past_char [OF st])
  fix first assume c: "current_char st = ok first" and m: "moved st (advance st (len_utf8 first))" and p: "scan_position st < scan_position (advance st (len_utf8 first))"
  let ?first = "advance st (len_utf8 first)"
  have loop: "ensures (while_text (\<lambda>(_, st).
          and_then (current_char st) (\<lambda>c.
          if is_xid_continue U c \<or> c = code_point (CHR ''_'')
          then and_then (work (advance st (len_utf8 c))) (\<lambda>st. ok (Inl ((), st)))
          else ok (Inr st))) snd ((), ?first))
      (\<lambda>st'. moved st st' \<and> scan_position st < scan_position st')"
  proof (rule ensures_while [where I = "\<lambda>_ st'. moved st st' \<and> scan_position st < scan_position st'" and t = "scan_text st"])
    fix u :: unit and st' assume I: "moved st st' \<and> scan_position st < scan_position st'" and l: "scan_position st' < length (scan_text st)"
    have "ensures (current_char st') (\<lambda>c. ensures
          (if is_xid_continue U c \<or> c = code_point (CHR ''_'')
          then and_then (work (advance st' (len_utf8 c))) (\<lambda>st. ok (Inl ((), st)))
          else ok (Inr st'))
        (\<lambda>r. case r of Inl (x', st'') \<Rightarrow> (moved st st'' \<and> scan_position st < scan_position st'') \<and> scan_position st' < scan_position st''
          | Inr st' \<Rightarrow> moved st st' \<and> scan_position st < scan_position st'))"
      using I by (intro moved_char [OF conjunct1 [OF I] l]) (auto simp: ensures_then_iff elim!: ensures_mono [OF ensures_move_work])
    then show "ensures (case (u, st') of (_, st) \<Rightarrow>
          and_then (current_char st) (\<lambda>c.
          if is_xid_continue U c \<or> c = code_point (CHR ''_'')
          then and_then (work (advance st (len_utf8 c))) (\<lambda>st. ok (Inl ((), st)))
          else ok (Inr st)))
        (\<lambda>r. case r of Inl (x', st'') \<Rightarrow> (moved st st'' \<and> scan_position st < scan_position st'') \<and> scan_position st' < scan_position st''
          | Inr st' \<Rightarrow> moved st st' \<and> scan_position st < scan_position st')"
      by (simp add: ensures_then_iff)
  qed (use m p in \<open>auto simp: movedD moved_le_length\<close>)
  show ?thesis
    unfolding scan_identifier_def Let_def c ensures_then_iff [of "ok first"] ensures_ok
  proof (rule ensures_then [OF loop], elim conjE)
    fix s1 assume m1: "moved st s1" "scan_position st < scan_position s1"
    have b: "boundary (scan_text st) (scan_position st)" using st by (rule at_token_boundary)
    let ?word = "take (scan_position s1 - scan_position st) (drop (scan_position st) (scan_text st))"
    let ?kind = "case keyword_of ?word of None \<Rightarrow> IdentifierToken | Some k \<Rightarrow> KeywordToken k"
    have slice: "text_slice (scan_text s1) (scan_position st) (scan_position s1) = ok ?word"
      using text_slice_at [OF b movedD(11) [OF m1(1)] less_imp_le [OF m1(2)]] movedD [OF m1(1)] by simp
    have push: "ensures (push_physical ?kind (scan_position st) (scan_position s3) None (?kind = IdentifierToken) s3) (stepped st)"
      if "moved st s3" "scan_position st < scan_position s3" for s3
      by (rule push_moved [OF st that]) (auto simp: carries_spelling_def is_literal_token_def inner_kind_def split: option.splits)
    show "ensures (and_then (text_slice (scan_text s1) (scan_position st) (scan_position s1)) (\<lambda>word.
      and_then (report_if (word \<noteq> str ''_'' \<and> first = code_point (CHR ''_'')) s1 ''syntax-invalid-identifier-start'' (scan_position st) (scan_position st + 1)
        (str ''an identifier must begin with a Unicode XID_Start character'')) (\<lambda>st'.
      and_then (report_if (nfc U (utf8_chars word) \<noteq> utf8_chars word) st' ''syntax-non-nfc-identifier'' (scan_position st) (scan_position st')
        (str ''identifier spelling is not Unicode NFC'')) (\<lambda>st'.
      push_physical (case keyword_of word of None \<Rightarrow> IdentifierToken | Some k \<Rightarrow> KeywordToken k) (scan_position st) (scan_position st') None
        ((case keyword_of word of None \<Rightarrow> IdentifierToken | Some k \<Rightarrow> KeywordToken k) = IdentifierToken) st')))) (stepped st)"
      unfolding slice ensures_then_iff [of "ok _"] ensures_ok
    proof (rule ensures_then [OF ensures_report_if], elim exE)
      fix s2 x assume "s2 = s1\<lparr>sink := x\<rparr>"
      then have m2: "moved st s2" "scan_position st < scan_position s2" using m1 by simp_all
      show "ensures (and_then (report_if (nfc U (utf8_chars ?word) \<noteq> utf8_chars ?word) s2 ''syntax-non-nfc-identifier'' (scan_position st) (scan_position s2)
          (str ''identifier spelling is not Unicode NFC'')) (\<lambda>st'.
          push_physical ?kind (scan_position st) (scan_position st') None (?kind = IdentifierToken) st')) (stepped st)"
        by (rule ensures_then [OF ensures_report_if], elim exE, rule push) (use m2 in simp_all)
    qed
  qed
qed

subsection \<open>Escapes\<close>

lemma boundary_hex_run: "boundary t i \<Longrightarrow> boundary t (i + length (hex_run t i n))"
proof -
  assume b: "boundary t i"
  have "starts_with (drop i t) (hex_run t i n)"
    unfolding starts_with_def hex_run_def by (metis append_eq_conv_conj append_take_drop_id append_assoc takeWhile_dropWhile_id)
  from boundary_prefix [OF b this] show ?thesis using digit_ascii(3) by (auto simp: hex_run_def dest: set_takeWhileD)
qed

lemma decode_escape_boundary:
  assumes b: "boundary t i" and l: "i < length t" "t ! i = 0x5C"
  shows "i < escape_end (decode_escape t i byte_string) \<and> boundary t (escape_end (decode_escape t i byte_string))"
proof -
  have one: "boundary t (i + 1)" using b l by (intro boundary_ascii) auto
  have at: "min (i + 1) (length t) = i + 1" using l by simp
  show ?thesis
  proof (cases "i + 1 < length t")
    case False
    with l have "drop (i + 1) t = []" by simp
    with one at show ?thesis by (simp add: decode_escape_def invalid_escape_def)
  next
    case True
    from boundary_step [OF one True] obtain c where c: "utf8_step (drop (i + 1) t) = Some (c, drop (i + 1 + len_utf8 c) t)"
      and two: "boundary t (i + 1 + len_utf8 c)" .
    let ?at = "i + 1 + len_utf8 c"
    have bytes: "?at \<le> escape_end (decode_byte_escape t ?at) \<and> boundary t (escape_end (decode_byte_escape t ?at))"
      using boundary_hex_run [OF two, of 2] by (auto simp: decode_byte_escape_def Let_def valid_escape_def invalid_escape_def)
    have unicode: "?at \<le> escape_end (decode_unicode_escape t ?at) \<and> boundary t (escape_end (decode_unicode_escape t ?at))"
    proof (cases "list_get t ?at = Some (byte_of (CHR ''{''))")
      case True
      then have three: "boundary t (?at + 1)" by (rule byte_boundary [OF two]) simp
      let ?till = "?at + 1 + length (hex_run t (?at + 1) 7)"
      have four: "boundary t ?till" by (rule boundary_hex_run [OF three])
      have "boundary t (?till + 1)" if "list_get t ?till = Some (byte_of (CHR ''}''))" by (rule byte_boundary [OF four that]) simp
      with True four show ?thesis by (auto simp: decode_unicode_escape_def Let_def valid_escape_def invalid_escape_def)
    qed (use two in \<open>simp add: decode_unicode_escape_def invalid_escape_def\<close>)
    have "is_char_boundary t (i + 1)" by (rule boundary_char [OF one])
    with c at two bytes unicode show ?thesis
      unfolding decode_escape_def Let_def by (auto simp: valid_escape_def invalid_escape_def split: option.splits)
  qed
qed

lemma scan_escape_moves:
  assumes "moved st st'" and "scan_position st' < length (scan_text st)" and "scan_text st ! scan_position st' = 0x5C"
  shows "ensures (scan_escape byte_string st') (\<lambda>st''. moved st st'' \<and> scan_position st' < scan_position st'')"
proof -
  let ?d = "decode_escape (scan_text st) (scan_position st') byte_string"
  have e: "scan_position st' < escape_end ?d" "boundary (scan_text st) (escape_end ?d)"
    using decode_escape_boundary [OF movedD(11) [OF assms(1)] assms(2,3)] by auto
  then have m: "moved st (st'\<lparr>scan_position := escape_end ?d\<rparr>)" using assms(1) unfolding moved_def by (cases st; cases st') simp
  with e show ?thesis
    unfolding scan_escape_def Let_def movedD(1) [OF assms(1)]
    by (auto split: option.splits intro!: ensures_mono [OF ensures_report])
qed

subsection \<open>Quoted literals\<close>

lemma char_byte:
  assumes "utf8_step (drop i t) = Some (c, r)" and "c < 0x80"
  shows "i < length t \<and> t ! i = word_of_nat c \<and> t ! i < 0x80"
proof -
  obtain a as where bs: "drop i t = a # as" using assms(1) by (cases "drop i t") auto
  then have i: "i < length t" "t ! i = a" by (metis drop_all list.distinct(1) not_le, metis nth_via_drop)
  from utf8_step_length [OF assms(1)] assms(2) bs have r: "r = as" by (simp add: len_utf8_def)
  have "a < 0x80 \<and> c = unat a"
    using assms(1) unfolding bs r utf8_step.simps(2) by (auto split: if_splits list.splits)
  with i show ?thesis by simp
qed

lemma ensures_sink: "moved st st' \<Longrightarrow> ensures (report_if p st' c a b m) (\<lambda>st''. moved st st'' \<and> scan_position st'' = scan_position st')"
  by (rule ensures_mono [OF ensures_report_if]) auto

lemma quoted_round_moves:
  assumes m: "moved st st'" and l: "scan_position st' < length (scan_text st)"
  shows "ensures (quoted_round quote byte_string (n, st'))
    (\<lambda>r. case r of Inl (n', st'') \<Rightarrow> moved st st'' \<and> scan_position st' < scan_position st''
      | Inr (done', n', st'') \<Rightarrow> moved st st'' \<and> scan_position st' \<le> scan_position st'')"
  unfolding quoted_round_def prod.case
proof (rule ensures_then [OF ensures_work], elim exE)
  fix s1 k assume "s1 = st'\<lparr>poll_work := k\<rparr>"
  with m l have m1: "moved st s1" "scan_position s1 < length (scan_text st)" "scan_position s1 = scan_position st'" by simp_all
  show "ensures (and_then (current_char s1) (\<lambda>c.
     if c = quote then ok (Inr (True, n, advance s1 (len_utf8 c)))
     else if is_line_end c then ok (Inr (False, n, s1))
     else if c = 0x5C then and_then (scan_escape byte_string s1) (\<lambda>st. ok (Inl (n + 1, st)))
     else
       and_then (report_if (byte_string \<and> \<not> char_is_ascii c) s1 ''syntax-non-ascii-byte-string''
         (scan_position s1) (scan_position s1 + len_utf8 c) (str ''byte strings permit only ASCII source characters and escapes'')) (\<lambda>st.
       ok (Inl (n + 1, advance st (len_utf8 c))))))
    (\<lambda>r. case r of Inl (n', st'') \<Rightarrow> moved st st'' \<and> scan_position st' < scan_position st''
      | Inr (done', n', st'') \<Rightarrow> moved st st'' \<and> scan_position st' \<le> scan_position st'')"
    unfolding ensures_then_iff [of "current_char s1"]
  proof (rule moved_char [OF m1(1,2)])
    fix c assume c: "utf8_step (drop (scan_position s1) (scan_text st)) = Some (c, drop (scan_position s1 + len_utf8 c) (scan_text st))"
      and b: "boundary (scan_text st) (scan_position s1 + len_utf8 c)"
    have adv: "moved st (advance s1 (len_utf8 c))" by (rule moved_advance [OF m1(1) b])
    have escape: "ensures (scan_escape byte_string s1) (\<lambda>st''. moved st st'' \<and> scan_position s1 < scan_position st'')" if "c = 0x5C"
      using scan_escape_moves [OF m1(1,2)] char_byte [OF c] that by simp
    have rep: "ensures (report_if p s1 a x y z) (\<lambda>s2. moved st (advance s2 (len_utf8 c)) \<and> scan_position s2 = scan_position s1)" for p a x y z
      by (rule ensures_mono [OF ensures_sink [OF m1(1)]]) (use b in \<open>auto intro: moved_advance\<close>)
    show "ensures
     (if c = quote then ok (Inr (True, n, advance s1 (len_utf8 c)))
     else if is_line_end c then ok (Inr (False, n, s1))
     else if c = 0x5C then and_then (scan_escape byte_string s1) (\<lambda>st. ok (Inl (n + 1, st)))
     else
       and_then (report_if (byte_string \<and> \<not> char_is_ascii c) s1 ''syntax-non-ascii-byte-string''
         (scan_position s1) (scan_position s1 + len_utf8 c) (str ''byte strings permit only ASCII source characters and escapes'')) (\<lambda>st.
       ok (Inl (n + 1, advance st (len_utf8 c)))))
    (\<lambda>r. case r of Inl (n', st'') \<Rightarrow> moved st st'' \<and> scan_position st' < scan_position st''
      | Inr (done', n', st'') \<Rightarrow> moved st st'' \<and> scan_position st' \<le> scan_position st'')"
      using adv m1 by (auto simp: ensures_then_iff advance_def intro: ensures_mono [OF escape] ensures_mono [OF rep [unfolded advance_def]])
  qed
qed

lemma scan_quoted_steps:
  assumes st: "at_token st" and b: "boundary (scan_text st) (scan_position st + (n + 1))" and kind: "is_literal_token kind"
  shows "ensures (scan_quoted kind n byte_string st) (stepped st)"
proof -
  let ?start = "advance st (n + 1)" and ?quote = "if kind = CharacterLiteral then 0x27 else 0x22"
  have m: "moved st ?start" by (rule moved_advance [OF moved_refl [OF at_token_boundary [OF st]] b])
  have loop: "ensures (while_text (quoted_round ?quote byte_string) (\<lambda>(decoded, st). (False, decoded, st)) (0, ?start))
      (\<lambda>(done', decoded, st'). moved st st' \<and> scan_position st < scan_position st')"
  proof (rule ensures_while [where I = "\<lambda>_ st'. moved st st' \<and> scan_position st < scan_position st'" and t = "scan_text st"])
    fix x st' assume "moved st st' \<and> scan_position st < scan_position st'" "scan_position st' < length (scan_text st)"
    then show "ensures (quoted_round ?quote byte_string (x, st'))
      (\<lambda>r. case r of Inl (x', st'') \<Rightarrow> (moved st st'' \<and> scan_position st < scan_position st'') \<and> scan_position st' < scan_position st''
        | Inr y \<Rightarrow> (case y of (done', decoded, st') \<Rightarrow> moved st st' \<and> scan_position st < scan_position st'))"
      by (intro ensures_mono [OF quoted_round_moves [of st st']]) (auto split: sum.splits)
  qed (use m in \<open>auto simp: movedD moved_le_length advance_def\<close>)
  show ?thesis
    unfolding scan_quoted_def Let_def
  proof (rule ensures_then [OF loop], clarify)
    fix terminated decoded s1 assume m1: "moved st s1" "scan_position st < scan_position s1"
    show "ensures (and_then (report_if (\<not> terminated) s1 ''syntax-unterminated-literal'' (scan_position st) (scan_position s1) unterminated_message) (\<lambda>st'.
      and_then (report_if (kind = CharacterLiteral \<and> decoded \<noteq> 1) st' ''syntax-invalid-character-literal'' (scan_position st) (scan_position st')
        (str ''a character literal must decode to exactly one Unicode scalar'')) (\<lambda>st'.
      push_physical kind (scan_position st) (scan_position st') None True st'))) (stepped st)"
    proof (rule ensures_then [OF ensures_sink [OF m1(1)]])
      fix s2 assume m2: "moved st s2 \<and> scan_position s2 = scan_position s1"
      show "ensures (and_then (report_if (kind = CharacterLiteral \<and> decoded \<noteq> 1) s2 ''syntax-invalid-character-literal'' (scan_position st) (scan_position s2)
          (str ''a character literal must decode to exactly one Unicode scalar'')) (\<lambda>st'.
          push_physical kind (scan_position st) (scan_position st') None True st')) (stepped st)"
        by (rule ensures_then [OF ensures_sink [OF conjunct1 [OF m2]]], rule push_literal [OF st]) (use m1 m2 kind in auto)
    qed
  qed
qed

lemma scan_triple_steps:
  assumes st: "at_token st" and q: "looking_at st triple_quote"
  shows "ensures (scan_reserved_triple_quoted st) (stepped st)"
  unfolding scan_reserved_triple_quoted_def Let_def
proof (rule ensures_then [OF ensures_report], elim exE)
  have three: "boundary (scan_text st) (scan_position st + 3)"
    using boundary_prefix [OF at_token_boundary [OF st] q [unfolded looking_at_def]] by (simp add: numeral_3_eq_3)
  have round: "ensures (and_then (work s2) (\<lambda>st.
          and_then (remaining st) (\<lambda>r.
          if starts_with r triple_quote then ok (Inr (advance st 3))
          else and_then (current_char st) (\<lambda>c.
            if is_line_end c then ok (Inr st) else ok (Inl ((), advance st (len_utf8 c)))))))
      (\<lambda>r. case r of Inl (x', st'') \<Rightarrow> (moved st st'' \<and> scan_position st < scan_position st'') \<and> scan_position s2 < scan_position st''
        | Inr st'' \<Rightarrow> moved st st'' \<and> scan_position st < scan_position st'')"
    if "moved st s2 \<and> scan_position st < scan_position s2" "scan_position s2 < length (scan_text st)" for s2
  proof (rule ensures_then [OF ensures_work], elim exE)
    fix s3 k assume "s3 = s2\<lparr>poll_work := k\<rparr>"
    with that have m: "moved st s3" "scan_position st < scan_position s3" "scan_position s3 < length (scan_text st)" "scan_position s3 = scan_position s2" by simp_all
    have r: "remaining s3 = ok (drop (scan_position s3) (scan_text st))" using remaining_at [of s3] movedD [OF m(1)] by simp
    show "ensures (and_then (remaining s3) (\<lambda>r.
          if starts_with r triple_quote then ok (Inr (advance s3 3))
          else and_then (current_char s3) (\<lambda>c.
            if is_line_end c then ok (Inr s3) else ok (Inl ((), advance s3 (len_utf8 c))))))
      (\<lambda>r. case r of Inl (x', st'') \<Rightarrow> (moved st st'' \<and> scan_position st < scan_position st'') \<and> scan_position s2 < scan_position st''
        | Inr st'' \<Rightarrow> moved st st'' \<and> scan_position st < scan_position st'')"
    proof (cases "starts_with (drop (scan_position s3) (scan_text st)) triple_quote")
      case True
      have "moved st (advance s3 3)"
        using boundary_prefix [OF movedD(11) [OF m(1)] True] by (intro moved_advance [OF m(1)]) (simp add: numeral_3_eq_3)
      with True r m show ?thesis by (simp add: ensures_then_iff advance_def)
    next
      case False
      have "ensures (current_char s3) (\<lambda>c. moved st (advance s3 (len_utf8 c)))"
        by (rule moved_char [OF m(1,3)]) (rule moved_advance [OF m(1)])
      then have "ensures (current_char s3) (\<lambda>c. ensures (if is_line_end c then ok (Inr s3) else ok (Inl ((), advance s3 (len_utf8 c))))
        (\<lambda>r. case r of Inl (x', st'') \<Rightarrow> (moved st st'' \<and> scan_position st < scan_position st'') \<and> scan_position s2 < scan_position st''
        | Inr st'' \<Rightarrow> moved st st'' \<and> scan_position st < scan_position st''))"
        by (rule ensures_mono) (use m in \<open>auto simp: advance_def\<close>)
      with False r show ?thesis by (simp add: ensures_then_iff)
    qed
  qed
  fix s1 x assume s1: "s1 = st\<lparr>sink := x\<rparr>"
  have m1: "moved st (advance s1 3)" by (rule moved_advance) (use s1 three moved_refl [OF at_token_boundary [OF st]] in simp_all)
  show "ensures (and_then (while_text (\<lambda>(_, st).
          and_then (work st) (\<lambda>st.
          and_then (remaining st) (\<lambda>r.
          if starts_with r triple_quote then ok (Inr (advance st 3))
          else and_then (current_char st) (\<lambda>c.
            if is_line_end c then ok (Inr st) else ok (Inl ((), advance st (len_utf8 c)))))))
        snd ((), advance s1 3)) (\<lambda>st'.
      push_physical StringLiteral (scan_position st) (scan_position st') None True st')) (stepped st)"
  proof (rule ensures_then)
    show "ensures (while_text (\<lambda>(_, st).
          and_then (work st) (\<lambda>st.
          and_then (remaining st) (\<lambda>r.
          if starts_with r triple_quote then ok (Inr (advance st 3))
          else and_then (current_char st) (\<lambda>c.
            if is_line_end c then ok (Inr st) else ok (Inl ((), advance st (len_utf8 c)))))))
        snd ((), advance s1 3)) (\<lambda>st'. moved st st' \<and> scan_position st < scan_position st')"
      by (rule ensures_while [where I = "\<lambda>_ st'. moved st st' \<and> scan_position st < scan_position st'" and t = "scan_text st"])
        (use m1 s1 round in \<open>auto simp: movedD moved_le_length advance_def\<close>)
  qed (use push_literal [OF st] in \<open>auto simp: is_literal_token_def\<close>)
qed

subsection \<open>Punctuation\<close>

lemma push_delimited:
  assumes st: "at_token st" and m: "moved st s" "scan_position st < scan_position s" and s': "s' = s\<lparr>delimiters := ds\<rparr>"
    and kind: "kind \<noteq> NewlineToken" "carries_spelling kind \<longleftrightarrow> sp" "inner_kind kind"
  shows "ensures (push_physical kind (scan_position st) (scan_position s') None sp s') (stepped st)"
proof (rule ensures_mono)
  have "ensures (push_physical kind (scan_position st) (scan_position s) None sp s') (pushed kind (scan_position s) s')"
    unfolding s' by (rule ensures_push_physical) (use st kind m in \<open>auto simp: at_token_def movedD moved_lexed inner_kind_def\<close>)
  then show "ensures (push_physical kind (scan_position st) (scan_position s') None sp s') (pushed kind (scan_position s) s')" by (simp add: s')
next
  fix s'' assume p: "pushed kind (scan_position s) s' s''"
  have "grows st s'" using moved_grows [OF m(1)] by (simp add: s' grows_def)
  from grows_trans [OF this pushed_grows [OF p kind(3)]] m(2) pushedD [OF p] show "stepped st s''" by (simp add: stepped_def s')
qed

lemma update_delimiters_keeps: "ensures (update_delimiters c from st) (\<lambda>st'. \<exists>ds s. st' = st\<lparr>sink := s, delimiters := ds\<rparr>)"
proof -
  have "ensures (report st a b d m) (\<lambda>st'. \<exists>ds s. st' = st\<lparr>sink := s, delimiters := ds\<rparr>)" for a b d m
    by (rule ensures_mono [OF ensures_report]) (auto, metis scanner.surjective scanner.update_convs(3,11))
  moreover have "\<exists>ds s. st\<lparr>delimiters := ds'\<rparr> = st\<lparr>sink := s, delimiters := ds\<rparr>" for ds'
    by (intro exI [of _ ds'] exI [of _ "sink st"]) simp
  moreover have "\<exists>ds s. st = st\<lparr>sink := s, delimiters := ds\<rparr>"
    by (intro exI [of _ "delimiters st"] exI [of _ "sink st"]) simp
  ultimately show ?thesis by (auto simp: update_delimiters_def ensures_then_iff split: option.splits)
qed

lemma multi_operator_kind:
  "(s, kind) \<in> set multi_operators \<Longrightarrow> s \<noteq> [] \<and> (\<forall>b \<in> set (str s). b < 0x80) \<and> kind \<noteq> NewlineToken \<and> \<not> carries_spelling kind \<and> inner_kind kind"
  by (auto simp: multi_operators_def str_def carries_spelling_def is_literal_token_def inner_kind_def)

lemma single_token_kind:
  "map_of (map (\<lambda>(k, v). (code_point k, v)) single_tokens) c = Some kind \<Longrightarrow>
    kind \<noteq> NewlineToken \<and> kind \<noteq> ErrorToken \<and> \<not> carries_spelling kind \<and> inner_kind kind"
  by (drule map_of_SomeD) (auto simp: single_tokens_def carries_spelling_def is_literal_token_def inner_kind_def)

lemma scan_single_steps:
  assumes st: "at_token st" and m: "moved st s" "scan_position st < scan_position s"
  shows "ensures (and_then (case map_of (map (\<lambda>(k, v). (code_point k, v)) single_tokens) c of
        Some kind \<Rightarrow> ok (kind, s)
      | None \<Rightarrow>
          and_then (report s ''syntax-unexpected-character'' (scan_position st) (scan_position s)
            (str ''unexpected source character U+'' @ hex4_text c)) (\<lambda>st. ok (ErrorToken, st))) (\<lambda>(kind, s).
    and_then (update_delimiters c (scan_position st) s) (\<lambda>s.
    push_physical kind (scan_position st) (scan_position s) None (kind = ErrorToken) s))) (stepped st)"
proof (rule ensures_then [where P = "\<lambda>(kind, s'). moved st s' \<and> scan_position st < scan_position s' \<and>
    kind \<noteq> NewlineToken \<and> (carries_spelling kind \<longleftrightarrow> kind = ErrorToken) \<and> inner_kind kind"])
  show "ensures (case map_of (map (\<lambda>(k, v). (code_point k, v)) single_tokens) c of
        Some kind \<Rightarrow> ok (kind, s)
      | None \<Rightarrow>
          and_then (report s ''syntax-unexpected-character'' (scan_position st) (scan_position s)
            (str ''unexpected source character U+'' @ hex4_text c)) (\<lambda>st. ok (ErrorToken, st)))
    (\<lambda>(kind, s'). moved st s' \<and> scan_position st < scan_position s' \<and>
      kind \<noteq> NewlineToken \<and> (carries_spelling kind \<longleftrightarrow> kind = ErrorToken) \<and> inner_kind kind)"
    using m single_token_kind [of c]
    by (auto simp: ensures_then_iff carries_spelling_def inner_kind_def split: option.splits intro!: ensures_mono [OF ensures_report])
next
  fix x assume "case x of (kind, s') \<Rightarrow> moved st s' \<and> scan_position st < scan_position s' \<and>
    kind \<noteq> NewlineToken \<and> (carries_spelling kind \<longleftrightarrow> kind = ErrorToken) \<and> inner_kind kind"
  then obtain kind s' where x: "x = (kind, s')" and m': "moved st s'" "scan_position st < scan_position s'"
    and k: "kind \<noteq> NewlineToken" "carries_spelling kind \<longleftrightarrow> kind = ErrorToken" "inner_kind kind" by (cases x) auto
  show "ensures (case x of (kind, s) \<Rightarrow> and_then (update_delimiters c (scan_position st) s) (\<lambda>s.
    push_physical kind (scan_position st) (scan_position s) None (kind = ErrorToken) s)) (stepped st)"
    unfolding x prod.case
  proof (rule ensures_then [OF update_delimiters_keeps], elim exE)
    fix s2 ds y assume "s2 = s'\<lparr>sink := y, delimiters := ds\<rparr>"
    then have s2: "s2 = (s'\<lparr>sink := y\<rparr>)\<lparr>delimiters := ds\<rparr>" by simp
    show "ensures (push_physical kind (scan_position st) (scan_position s2) None (kind = ErrorToken) s2) (stepped st)"
      by (rule push_delimited [OF st _ _ s2 k]) (use m' in simp_all)
  qed
qed

lemma scan_punctuation_steps:
  assumes st: "at_token st"
  shows "ensures (scan_punctuation_or_error st) (stepped st)"
proof -
  let ?r = "drop (scan_position st) (scan_text st)"
  have b: "boundary (scan_text st) (scan_position st)" using st by (rule at_token_boundary)
  show ?thesis
  proof (cases "find (\<lambda>(s, _). starts_with ?r (str s)) multi_operators")
    case (Some sk)
    obtain s kind where sk: "sk = (s, kind)" by (cases sk)
    from Some sk have "starts_with ?r (str s)" "(s, kind) \<in> set multi_operators" by (auto simp: find_Some_iff in_set_conv_nth)
    with multi_operator_kind have k: "s \<noteq> []" "kind \<noteq> NewlineToken" "\<not> carries_spelling kind" "inner_kind kind"
      and "boundary (scan_text st) (scan_position st + length s)"
      using boundary_prefix [OF b, of "str s"] by auto
    then have m: "moved st (advance st (length s))" by (intro moved_advance [OF moved_refl [OF b]])
    have "ensures (push_physical kind (scan_position st) (scan_position (advance st (length s))) None False (advance st (length s))) (stepped st)"
      by (rule push_moved [OF st m]) (use k in \<open>auto simp: advance_def\<close>)
    with Some sk remaining_at [OF b] show ?thesis by (simp add: scan_punctuation_or_error_def advance_def Let_def)
  next
    case None
    show ?thesis
    proof (rule moved_past_char [OF st])
      fix c assume c: "current_char st = ok c" and m: "moved st (advance st (len_utf8 c))" "scan_position st < scan_position (advance st (len_utf8 c))"
      have "ensures (push_physical NewlineToken (scan_position st) (scan_position (advance st (len_utf8 c))) (Some SemicolonNewline) False (advance st (len_utf8 c))) (stepped st)"
        by (rule push_moved [OF st m]) (auto simp: carries_spelling_def is_literal_token_def inner_kind_def)
      with None c remaining_at [OF b] scan_single_steps [OF st m, of c] show ?thesis
        by (simp add: scan_punctuation_or_error_def Let_def) blast
    qed
  qed
qed

lemma scan_forbidden_steps:
  assumes st: "at_token st" and c: "current_char st = ok c"
  shows "ensures (push_physical ErrorToken (scan_position st) (scan_position st + len_utf8 c) None True (advance st (len_utf8 c))) (stepped st)"
proof (rule moved_past_char [OF st])
  fix c' assume "current_char st = ok c'" and m: "moved st (advance st (len_utf8 c'))" "scan_position st < scan_position (advance st (len_utf8 c'))"
  with c have "c' = c" by (simp add: ok_def)
  with push_moved [OF st m, of ErrorToken None True] show ?thesis by (simp add: advance_def carries_spelling_def inner_kind_def)
qed

end
