(* ===== verification/Scanner_Interpolation.thy ===== *)
theory Scanner_Interpolation
  imports Scanner_Words
begin

text \<open>
  Interpolated strings: text, values, formats and strings nested in values. The nesting limit bounds the
  recursion, and every round of every loop moves on.
\<close>

subsection \<open>Standing in the text\<close>

lemma advance_position [simp]: "scan_position (advance st n) = scan_position st + n"
  by (simp add: advance_def)

definition at_text :: "scanner \<Rightarrow> bool" where
  "at_text st \<longleftrightarrow> sound_file (scan_source st) \<and> lexed st (scan_position st)"

definition advanced :: "scanner \<Rightarrow> scanner \<Rightarrow> bool" where
  "advanced st st' \<longleftrightarrow> grows st st' \<and> scan_position st \<le> scan_position st' \<and> lexed st' (scan_position st')"

lemma at_token_text: "at_token st \<longleftrightarrow> at_text st \<and> scan_position st < length (scan_text st)"
  by (auto simp: at_token_def at_text_def)

lemma at_text_boundary: "at_text st \<Longrightarrow> boundary (scan_text st) (scan_position st)"
  by (simp add: at_text_def lexical_prefix_def)

lemma at_text_length: "at_text st \<Longrightarrow> scan_position st \<le> length (scan_text st)"
  using at_text_boundary by (simp add: boundary_def)

lemma at_text_updates [simp]: "at_text (st\<lparr>sink := s\<rparr>) = at_text st" "at_text (st\<lparr>poll_work := n\<rparr>) = at_text st"
  "at_text (st\<lparr>delimiters := ds\<rparr>) = at_text st" "at_text (st\<lparr>interpolation_depth := d\<rparr>) = at_text st"
  by (simp_all add: at_text_def)

lemma advanced_updates [simp]: "advanced st (st'\<lparr>sink := s\<rparr>) = advanced st st'" "advanced st (st'\<lparr>poll_work := n\<rparr>) = advanced st st'"
  "advanced st (st'\<lparr>delimiters := ds\<rparr>) = advanced st st'"
  by (simp_all add: advanced_def grows_def)

lemma stepped_advanced: "stepped st st' \<Longrightarrow> advanced st st'"
  by (simp add: stepped_def advanced_def)

lemma advanced_refl: "at_text st \<Longrightarrow> advanced st st"
  by (simp add: advanced_def at_text_def)

lemma advanced_trans: "advanced a b \<Longrightarrow> advanced b c \<Longrightarrow> advanced a c"
  by (auto simp: advanced_def intro: grows_trans)

lemma advanced_source: "advanced st st' \<Longrightarrow> scan_source st' = scan_source st"
  by (simp add: advanced_def grows_def)

lemma advanced_at_text: "at_text st \<Longrightarrow> advanced st st' \<Longrightarrow> at_text st'"
  unfolding advanced_def grows_def at_text_def by (elim conjE) simp

lemma stepped_trans: "advanced a b \<Longrightarrow> stepped b c \<Longrightarrow> stepped a c" "stepped a b \<Longrightarrow> advanced b c \<Longrightarrow> stepped a c"
  by (auto simp: advanced_def stepped_def intro: grows_trans)

text \<open>The nesting still allowed below a state.\<close>

definition nests :: "nat \<Rightarrow> scanner \<Rightarrow> bool" where
  "nests d st \<longleftrightarrow> unat (interpolation_depth st) \<le> unat (max_nesting_depth (scan_limits st)) \<and>
     unat (max_nesting_depth (scan_limits st)) < unat (interpolation_depth st) + d"

lemma nests_advanced: "advanced st st' \<Longrightarrow> nests d st' = nests d st"
  by (simp add: nests_def advanced_def grows_def)

lemma nests_updates [simp]: "nests d (st\<lparr>sink := s\<rparr>) = nests d st" "nests d (st\<lparr>poll_work := n\<rparr>) = nests d st"
  by (simp_all add: nests_def)

lemma ensures_report_advanced: "advanced st st' \<Longrightarrow> ensures (report st' c a b m) (\<lambda>st''. advanced st st'' \<and> scan_position st'' = scan_position st')"
  by (rule ensures_mono [OF ensures_report]) auto

lemma ensures_push_punctuation:
  assumes "at_token st" and "boundary (scan_text st) (scan_position st + 1)"
  shows "ensures (push_punctuation p st) (stepped st)"
proof -
  have "ensures (push_physical (PunctuationToken p) (scan_position st) (scan_position (advance st 1)) None False (advance st 1)) (stepped st)"
    by (rule push_moved [OF assms(1) moved_advance [OF moved_refl [OF at_token_boundary [OF assms(1)]] assms(2)]])
      (auto simp: advance_def carries_spelling_def is_literal_token_def inner_kind_def)
  then show ?thesis by (simp add: push_punctuation_def advance_def)
qed

lemma ascii_char_boundary:
  assumes "utf8_step (drop i t) = Some (c, drop (i + len_utf8 c) t)" and "boundary t (i + len_utf8 c)" and "c < 0x80"
  shows "boundary t (i + 1)"
  using assms by (simp add: len_utf8_def)

subsection \<open>Formats\<close>

lemma format_round_moves:
  assumes m: "moved st st'" and l: "scan_position st' < length (scan_text st)"
  shows "ensures (format_round (u, st')) (\<lambda>r. case r of Inl (x', st'') \<Rightarrow> moved st st'' \<and> scan_position st' < scan_position st'' | Inr st'' \<Rightarrow> moved st st'')"
  unfolding format_round_def prod.case
proof (rule ensures_then [OF ensures_work], elim exE)
  fix s1 k assume "s1 = st'\<lparr>poll_work := k\<rparr>"
  with m l have m1: "moved st s1" "scan_position s1 < length (scan_text st)" "scan_position s1 = scan_position st'" by simp_all
  show "ensures (and_then (current_char s1) (\<lambda>c.
     if c = code_point (CHR ''}'') \<or> is_line_end c \<or> c = 0x22 then ok (Inr s1)
     else
       and_then (report_if (c = code_point (CHR ''{'')) s1 ''syntax-interpolation-format-brace'' (scan_position s1) (scan_position s1 + 1)
         (str ''interpolation format specifications cannot contain braces'')) (\<lambda>st.
       and_then (report_if (\<not> char_is_ascii c) st ''syntax-interpolation-format-ascii'' (scan_position st) (scan_position st + len_utf8 c)
         (str ''interpolation format specifications must be ASCII'')) (\<lambda>st.
       ok (Inl ((), advance st (len_utf8 c)))))))
    (\<lambda>r. case r of Inl (x', st'') \<Rightarrow> moved st st'' \<and> scan_position st' < scan_position st'' | Inr st'' \<Rightarrow> moved st st'')"
    unfolding ensures_then_iff [of "current_char s1"]
  proof (rule moved_char [OF m1(1,2)])
    fix c assume b: "boundary (scan_text st) (scan_position s1 + len_utf8 c)"
    have two: "ensures (report_if p s2 a x y z) (\<lambda>s3. moved st (advance s3 (len_utf8 c)) \<and> scan_position st' < scan_position (advance s3 (len_utf8 c)))"
      if "moved st s2 \<and> scan_position s2 = scan_position s1" for s2 p a x y z
      by (rule ensures_mono [OF ensures_sink [OF conjunct1 [OF that]]]) (use b m1(3) that in \<open>auto intro!: moved_advance\<close>)
    have one: "ensures (report_if p s1 a x y z) (\<lambda>s2. moved st s2 \<and> scan_position s2 = scan_position s1)" for p a x y z
      by (rule ensures_sink [OF m1(1)])
    show "ensures
     (if c = code_point (CHR ''}'') \<or> is_line_end c \<or> c = 0x22 then ok (Inr s1)
     else
       and_then (report_if (c = code_point (CHR ''{'')) s1 ''syntax-interpolation-format-brace'' (scan_position s1) (scan_position s1 + 1)
         (str ''interpolation format specifications cannot contain braces'')) (\<lambda>st.
       and_then (report_if (\<not> char_is_ascii c) st ''syntax-interpolation-format-ascii'' (scan_position st) (scan_position st + len_utf8 c)
         (str ''interpolation format specifications must be ASCII'')) (\<lambda>st.
       ok (Inl ((), advance st (len_utf8 c))))))
    (\<lambda>r. case r of Inl (x', st'') \<Rightarrow> moved st st'' \<and> scan_position st' < scan_position st'' | Inr st'' \<Rightarrow> moved st st'')"
      using m1 by (auto simp: ensures_then_iff intro!: ensures_mono [OF one] ensures_mono [OF two])
  qed
qed

lemma unmatched_opening_advances: "advanced st st' \<Longrightarrow> ensures (unmatched_opening opening st') (advanced st)"
  unfolding unmatched_opening_def by (rule ensures_mono [OF ensures_report_advanced]) auto

lemma scan_format_advances:
  assumes st: "at_text st"
  shows "ensures (scan_interpolation_format opening st) (advanced st)"
  unfolding scan_interpolation_format_def Let_def
proof (rule ensures_then)
  show "ensures (while_text format_round snd ((), st)) (moved st)"
    by (rule ensures_while [where I = "\<lambda>_ st'. moved st st'" and t = "scan_text st"])
      (use at_text_boundary [OF st] format_round_moves in \<open>auto simp: movedD moved_le_length moved_refl\<close>)
next
  fix s1 assume m: "moved st s1"
  show "ensures (and_then
        (if scan_position st = scan_position s1 then
           report s1 ''syntax-empty-interpolation-format'' (scan_position st) (scan_position st) (str ''interpolation format specifications cannot be empty'')
         else push_physical InterpolationFormat (scan_position st) (scan_position s1) None True s1) (\<lambda>st.
      if scan_position st < length (scan_text st) then
        and_then (current_char st) (\<lambda>c.
        if c = code_point (CHR ''}'') then push_punctuation RightBrace st else unmatched_opening opening st)
      else unmatched_opening opening st)) (advanced st)"
  proof (rule ensures_then)
    show "ensures (if scan_position st = scan_position s1 then
           report s1 ''syntax-empty-interpolation-format'' (scan_position st) (scan_position st) (str ''interpolation format specifications cannot be empty'')
         else push_physical InterpolationFormat (scan_position st) (scan_position s1) None True s1) (advanced st)"
    proof (cases "scan_position st = scan_position s1")
      case True
      have "advanced st s1" using st m True by (simp add: advanced_def moved_grows at_text_def moved_lexed)
      with True show ?thesis by (auto intro: ensures_mono [OF ensures_report_advanced])
    next
      case False
      with movedD(10) [OF m] have "scan_position st < scan_position s1" by simp
      moreover from this st moved_le_length [OF m] have "at_token st" by (simp add: at_token_text)
      ultimately have "ensures (push_physical InterpolationFormat (scan_position st) (scan_position s1) None True s1) (stepped st)"
        using m by (intro push_literal) (auto simp: is_literal_token_def)
      with False show ?thesis by (auto intro: ensures_mono stepped_advanced)
    qed
  next
    fix s2 assume a: "advanced st s2"
    show "ensures (if scan_position s2 < length (scan_text s2) then
        and_then (current_char s2) (\<lambda>c.
        if c = code_point (CHR ''}'') then push_punctuation RightBrace s2 else unmatched_opening opening s2)
      else unmatched_opening opening s2) (advanced st)"
    proof (cases "scan_position s2 < length (scan_text s2)")
      case True
      have s2: "at_token s2" using True advanced_at_text [OF st a] by (simp add: at_token_text)
      have "ensures (current_char s2) (\<lambda>c. ensures (if c = code_point (CHR ''}'') then push_punctuation RightBrace s2 else unmatched_opening opening s2) (advanced st))"
      proof (rule ensures_current_char [OF at_token_boundary [OF s2] True])
        fix c assume c: "utf8_step (drop (scan_position s2) (scan_text s2)) = Some (c, drop (scan_position s2 + len_utf8 c) (scan_text s2))"
          "boundary (scan_text s2) (scan_position s2 + len_utf8 c)"
        have "ensures (push_punctuation RightBrace s2) (advanced st)" if "c = code_point (CHR ''}'')"
          by (rule ensures_mono [OF ensures_push_punctuation [OF s2 ascii_char_boundary [OF c]]])
            (use that a in \<open>auto intro: advanced_trans stepped_advanced\<close>)
        with unmatched_opening_advances [OF a] show "ensures (if c = code_point (CHR ''}'') then push_punctuation RightBrace s2 else unmatched_opening opening s2) (advanced st)" by simp
      qed
      with True show ?thesis by (simp add: ensures_then_iff)
    qed (use unmatched_opening_advances [OF a] in simp)
  qed
qed

subsection \<open>Values\<close>

text \<open>The kinds of token that a value and a line share; \<open>nested\<close> is the scan of an interpolated string.\<close>

lemma common_token_steps:
  assumes st: "at_token st" and char: "current_char st = ok c"
    and c: "utf8_step (drop (scan_position st) (scan_text st)) = Some (c, drop (scan_position st + len_utf8 c) (scan_text st))"
    and nested: "looking_at st [0x66, 0x22] \<Longrightarrow> ensures nested (stepped st)"
  shows "ensures
     (if c = code_point (CHR ''b'') \<and> looking_at st [0x62, 0x22] then scan_quoted ByteStringLiteral 1 True st
      else if c = code_point (CHR ''f'') \<and> looking_at st [0x66, 0x22] then nested
      else if c = 0x22 \<and> looking_at st triple_quote then scan_reserved_triple_quoted st
      else if c = 0x22 then scan_quoted StringLiteral 0 False st
      else if c = 0x27 then scan_quoted CharacterLiteral 0 False st
      else if code_point (CHR ''0'') \<le> c \<and> c \<le> code_point (CHR ''9'') then scan_number st
      else if c = code_point (CHR ''_'') \<or> is_xid_start U c then scan_identifier U st
      else if is_forbidden_raw_character c then push_physical ErrorToken (scan_position st) (scan_position st + len_utf8 c) None True (advance st (len_utf8 c))
      else scan_punctuation_or_error st) (stepped st)"
proof -
  have b: "boundary (scan_text st) (scan_position st)" using st by (rule at_token_boundary)
  have prefix: "boundary (scan_text st) (scan_position st + length p)" if "looking_at st p" "\<forall>b \<in> set p. b < 0x80" for p
    using boundary_prefix [OF b] that by (simp add: looking_at_def)
  have bytes: "ensures (scan_quoted ByteStringLiteral 1 True st) (stepped st)" if "looking_at st [0x62, 0x22]"
    using prefix [OF that] by (intro scan_quoted_steps [OF st]) (auto simp: is_literal_token_def)
  have quoted: "ensures (scan_quoted kind 0 False st) (stepped st)" if "c < 0x80" "is_literal_token kind" for kind
    by (rule scan_quoted_steps [OF st _ that(2)]) (use boundary_ascii [OF b] char_byte [OF c that(1)] in auto)
  have digit: "is_ascii_digit (scan_text st ! scan_position st)" if "code_point (CHR ''0'') \<le> c" "c \<le> code_point (CHR ''9'')"
    using char_byte [OF c] that by (auto simp: is_ascii_digit_def word_le_nat_alt unsigned_of_nat take_bit_nat_eq_self)
  show ?thesis
    using bytes nested scan_triple_steps [OF st] quoted [of StringLiteral] quoted [of CharacterLiteral] digit scan_number_steps [OF st]
      scan_identifier_steps [OF st] scan_forbidden_steps [OF st char] scan_punctuation_steps [OF st]
    by (simp add: is_literal_token_def)
qed

lemma expression_token_steps:
  assumes st: "at_token st" and nested: "looking_at st [0x66, 0x22] \<Longrightarrow> ensures (inner st) (stepped st)"
  shows "ensures (scan_interpolation_expression_token U inner base st) (stepped st)"
proof (rule moved_past_char [OF st])
  fix c assume c: "utf8_step (drop (scan_position st) (scan_text st)) = Some (c, drop (scan_position st + len_utf8 c) (scan_text st))"
    and char: "current_char st = ok c" and m: "moved st (advance st (len_utf8 c))" "scan_position st < scan_position (advance st (len_utf8 c))"
  have byte: "scan_text st ! scan_position st = word_of_nat c" if "c < 0x80" using char_byte [OF c that] by simp
  have unmatched: "ensures (and_then (report (advance st 1) ''syntax-unmatched-delimiter'' (scan_position st) (scan_position (advance st 1)) (unmatched_message c)) (\<lambda>s.
        push_physical (PunctuationToken p) (scan_position st) (scan_position s) None False s)) (stepped st)" if "c < 0x80" for p
  proof (rule ensures_then [OF ensures_report], elim exE)
    fix s x assume s: "s = (advance st 1)\<lparr>sink := x\<rparr>"
    have one: "len_utf8 c = 1" using that by (simp add: len_utf8_def)
    show "ensures (push_physical (PunctuationToken p) (scan_position st) (scan_position s) None False s) (stepped st)"
      by (rule push_moved [OF st]) (use m s in \<open>simp_all add: one carries_spelling_def is_literal_token_def inner_kind_def\<close>)
  qed
  have blank: "ensures (scan_horizontal_space st) (stepped st)" if "c = 0x20 \<or> c = 0x09"
    using scan_space_steps [OF st] byte that by auto
  have comment: "ensures (scan_comment st) (stepped st)" if "c = code_point (CHR ''#'')"
    using scan_comment_steps [OF st] byte that by auto
  show ?thesis
  proof (cases "length (delimiters st) = base \<and> (c = code_point (CHR '')'') \<or> c = code_point (CHR '']''))")
    case True
    then show ?thesis
      unfolding scan_interpolation_expression_token_def Let_def char and_then_ok if_P [OF True] by (intro unmatched) auto
  next
    case False
    show ?thesis
      unfolding scan_interpolation_expression_token_def Let_def char and_then_ok if_not_P [OF False]
      using blank comment common_token_steps [OF st char c nested, of U] by (simp only: split: if_split) blast
  qed
qed

lemma value_round_advances:
  assumes I: "at_text st" "advanced st st'" and l: "scan_position st' < length (scan_text st)" and d: "nests d st"
    and inner: "\<And>s. at_token s \<Longrightarrow> nests d s \<Longrightarrow> looking_at s [0x66, 0x22] \<Longrightarrow> ensures (inner s) (stepped s)"
  shows "ensures (value_round U inner opening base first_token (pipes, st'))
    (\<lambda>r. case r of Inl (x', st'') \<Rightarrow> advanced st st'' \<and> scan_position st' < scan_position st'' | Inr (closed, st'') \<Rightarrow> advanced st st'')"
  unfolding value_round_def prod.case
proof (rule ensures_then [OF ensures_work], elim exE)
  fix s1 k assume s1: "s1 = st'\<lparr>poll_work := k\<rparr>"
  have a1: "advanced st s1" "scan_position s1 = scan_position st'" using I s1 by simp_all
  have t1: "at_token s1" using advanced_at_text [OF I(1) a1(1)] l a1 advanced_source [OF a1(1)] by (simp add: at_token_text)
  have d1: "nests d s1" using nests_advanced [OF a1(1)] d by simp
  show "ensures (and_then (current_char s1) (\<lambda>c.
     if is_line_end c then ok (Inr (False, s1))
     else if length (delimiters s1) = base \<and> c = code_point (CHR ''}'') then
       and_then (push_punctuation RightBrace s1) (\<lambda>st. ok (Inr (True, st)))
     else if length (delimiters s1) = base \<and> c = code_point (CHR '':'') \<and> interpolation_colon_starts_format first_token pipes s1 then
       and_then (push_punctuation Colon s1) (\<lambda>st.
       and_then (scan_interpolation_format opening st) (\<lambda>st. ok (Inr (True, st))))
     else
       let count = length (scan_tokens s1) in
       and_then (scan_interpolation_expression_token U inner base s1) (\<lambda>st.
       let piped = length (delimiters st) = base \<and> length (scan_tokens st) > count \<and>
             token_kind (last (scan_tokens st)) = PunctuationToken Pipe in
       ok (Inl (if piped then min (pipes + 1) 2 else pipes, st)))))
    (\<lambda>r. case r of Inl (x', st'') \<Rightarrow> advanced st st'' \<and> scan_position st' < scan_position st'' | Inr (closed, st'') \<Rightarrow> advanced st st'')"
  proof (rule moved_past_char [OF t1])
    fix c assume c: "utf8_step (drop (scan_position s1) (scan_text s1)) = Some (c, drop (scan_position s1 + len_utf8 c) (scan_text s1))"
      and char: "current_char s1 = ok c" and m: "moved s1 (advance s1 (len_utf8 c))"
    have punct: "ensures (push_punctuation p s1) (stepped s1)" if "c < 0x80" for p
      by (rule ensures_push_punctuation [OF t1 ascii_char_boundary [OF c _ that]]) (use movedD(11) [OF m] in simp)
    have close: "ensures (push_punctuation RightBrace s1) (advanced st)" if "c < 0x80"
      by (rule ensures_mono [OF punct [OF that]]) (blast intro: advanced_trans [OF a1(1)] stepped_advanced)
    have format: "ensures (push_punctuation Colon s1) (\<lambda>s2. ensures (scan_interpolation_format opening s2) (advanced st))" if "c < 0x80"
    proof (rule ensures_mono [OF punct [OF that]])
      fix s2 assume "stepped s1 s2"
      then have a2: "advanced st s2" by (blast intro: advanced_trans [OF a1(1)] stepped_advanced)
      show "ensures (scan_interpolation_format opening s2) (advanced st)"
        by (rule ensures_mono [OF scan_format_advances [OF advanced_at_text [OF I(1) a2]]]) (rule advanced_trans [OF a2])
    qed
    have token: "ensures (scan_interpolation_expression_token U inner base s1) (\<lambda>s2. advanced st s2 \<and> scan_position st' < scan_position s2)"
      by (rule ensures_mono [OF expression_token_steps [where inner = inner, OF t1 inner [OF t1 d1]]])
        (use a1(2) advanced_trans [OF a1(1) stepped_advanced] in \<open>auto simp: stepped_def\<close>)
    show ?thesis
      unfolding char and_then_ok Let_def using a1(1) close format token
      by (auto simp: ensures_then_iff elim: ensures_mono)
  qed
qed

lemma scan_value_advances:
  assumes st: "at_text st" and d: "nests d st"
    and inner: "\<And>s. at_token s \<Longrightarrow> nests d s \<Longrightarrow> looking_at s [0x66, 0x22] \<Longrightarrow> ensures (inner s) (stepped s)"
  shows "ensures (scan_interpolation_value U inner opening st) (advanced st)"
  unfolding scan_interpolation_value_def Let_def
proof (rule ensures_then)
  let ?body = "value_round U inner opening (length (delimiters st)) (length (scan_tokens st))"
  show "ensures (while_text ?body (\<lambda>(_, st). (False, st)) (0, st)) (\<lambda>(closed, st'). advanced st st')"
  proof (rule ensures_while [where I = "\<lambda>_ st'. advanced st st'" and t = "scan_text st"])
    fix x st' assume "advanced st st'" "scan_position st' < length (scan_text st)"
    then show "ensures (?body (x, st')) (\<lambda>r. case r of Inl (x', st'') \<Rightarrow> advanced st st'' \<and> scan_position st' < scan_position st''
        | Inr y \<Rightarrow> (case y of (closed, st') \<Rightarrow> advanced st st'))"
      by (rule value_round_advances [OF st _ _ d inner])
  next
    fix x st' assume a: "advanced st st'"
    show "scan_text st' = scan_text st \<and> scan_position st' \<le> length (scan_text st)"
      using advanced_source [OF a] at_text_length [OF advanced_at_text [OF st a]] by simp
  qed (use st in \<open>auto simp: advanced_refl\<close>)
next
  fix x :: "bool \<times> scanner" assume "case x of (closed, st') \<Rightarrow> advanced st st'"
  then show "ensures (case x of (closed, s) \<Rightarrow> if closed then ok s
      else unmatched_opening opening (s\<lparr>delimiters := take (length (delimiters st)) (delimiters s)\<rparr>)) (advanced st)"
    using unmatched_opening_advances [of st] by (cases x) auto
qed

end
