(* ===== verification/Scanner_Strings.thy ===== *)
theory Scanner_Strings
  imports Scanner_Interpolation
begin

text \<open>
  The body of an interpolated string: the text that is open runs from the last token to the position, and the
  recursion into nested strings ends at the nesting limit.
\<close>

subsection \<open>The text between values\<close>

lemma ensures_if: "(b \<Longrightarrow> ensures x Q) \<Longrightarrow> (\<not> b \<Longrightarrow> ensures y Q) \<Longrightarrow> ensures (if b then x else y) Q"
  by simp

definition open_text :: "scanner \<Rightarrow> nat \<Rightarrow> scanner \<Rightarrow> bool" where
  "open_text st text_start st' \<longleftrightarrow> (\<exists>s. advanced st s \<and> scan_position s = text_start \<and> moved s st')"

lemma open_text_refl: "at_text st \<Longrightarrow> advanced st s \<Longrightarrow> open_text st (scan_position s) s"
  unfolding open_text_def using advanced_at_text at_text_boundary moved_refl by blast

lemma open_text_source: "open_text st k st' \<Longrightarrow> scan_source st' = scan_source st"
  unfolding open_text_def by (auto simp: movedD advanced_source)

lemma open_text_le: "open_text st k st' \<Longrightarrow> scan_position st' \<le> length (scan_text st)"
  unfolding open_text_def using moved_le_length advanced_source by fastforce

lemma open_text_poll [simp]: "open_text st k (st'\<lparr>poll_work := n\<rparr>) = open_text st k st'"
  by (simp add: open_text_def)

lemma open_text_from: "open_text st k st' \<Longrightarrow> scan_position st \<le> scan_position st'"
  unfolding open_text_def advanced_def using movedD(10) by fastforce

lemma push_text_advances:
  assumes st: "at_text st" and o: "open_text st k s1"
  shows "ensures (push_interpolation_text k (scan_position s1) s1) (\<lambda>s2. advanced st s2 \<and> scan_position s2 = scan_position s1)"
proof -
  from o obtain s where s: "advanced st s" "scan_position s = k" "moved s s1" by (auto simp: open_text_def)
  have t: "at_text s" using advanced_at_text [OF st s(1)] .
  show ?thesis
  proof (cases "k < scan_position s1")
    case True
    have "ensures (push_physical InterpolatedStringText k (scan_position s1) None True s1) (pushed InterpolatedStringText (scan_position s1) s1)"
      by (rule ensures_push_physical [OF _ _ True])
        (use t s in \<open>auto simp: at_text_def movedD moved_lexed carries_spelling_def is_literal_token_def\<close>)
    then have "ensures (push_physical InterpolatedStringText k (scan_position s1) None True s1) (\<lambda>s2. advanced s s2 \<and> scan_position s2 = scan_position s1)"
    proof (rule ensures_mono)
      fix s2 assume p: "pushed InterpolatedStringText (scan_position s1) s1 s2"
      have "grows s s2" by (rule grows_trans [OF moved_grows [OF s(3)] pushed_grows [OF p]]) (simp add: inner_kind_def)
      then show "advanced s s2 \<and> scan_position s2 = scan_position s1"
        using pushedD [OF p] movedD(10) [OF s(3)] by (simp add: advanced_def)
    qed
    then show ?thesis
      using True by (auto simp: push_interpolation_text_def intro: advanced_trans [OF s(1)] elim!: ensures_mono)
  next
    case False
    with movedD(10) [OF s(3)] s(2) have "scan_position s1 = scan_position s" by simp
    with t s(3) have "advanced s s1" by (simp add: advanced_def moved_grows at_text_def moved_lexed)
    with False s(1) show ?thesis by (auto simp: push_interpolation_text_def intro: advanced_trans)
  qed
qed

lemma open_text_advance:
  assumes "open_text st k s1" and "boundary (scan_text st) (scan_position s1 + n)"
  shows "open_text st k (advance s1 n)"
  using assms unfolding open_text_def by (metis advanced_source moved_advance)

lemma open_text_sink [simp]: "open_text st k (st'\<lparr>sink := x\<rparr>) = open_text st k st'"
  by (simp add: open_text_def)

subsection \<open>One round\<close>

definition text_round_ok :: "scanner \<Rightarrow> nat \<Rightarrow> nat \<times> scanner + bool \<times> nat \<times> scanner \<Rightarrow> bool" where
  "text_round_ok st p r = (case r of Inl (k, st'') \<Rightarrow> open_text st k st'' \<and> p < scan_position st''
     | Inr (done', k, st'') \<Rightarrow> open_text st k st'')"

lemma string_end_advances:
  assumes st: "at_text st" and s1: "open_text st k s1" "scan_position s1 < length (scan_text st)"
    and b: "boundary (scan_text st) (scan_position s1 + 1)"
  shows "ensures (and_then (push_interpolation_text k (scan_position s1) s1) (\<lambda>st.
       and_then (push_physical InterpolatedStringEnd (scan_position st) (scan_position st + 1) None True (advance st 1)) (\<lambda>st.
       ok (Inr (True, scan_position st, st))))) (text_round_ok st p)"
proof (rule ensures_then [OF push_text_advances [OF st s1(1)]], elim conjE)
  fix s2 assume a: "advanced st s2" "scan_position s2 = scan_position s1"
  have src: "scan_source s2 = scan_source st" using advanced_source [OF a(1)] .
  have t: "at_token s2" using advanced_at_text [OF st a(1)] a(2) s1(2) src by (simp add: at_token_text)
  have "ensures (push_physical InterpolatedStringEnd (scan_position s2) (scan_position (advance s2 1)) None True (advance s2 1)) (stepped s2)"
    by (rule push_literal [OF t moved_advance [OF moved_refl [OF at_token_boundary [OF t]]]])
      (use b a(2) src in \<open>simp_all add: is_literal_token_def\<close>)
  moreover have "text_round_ok st p (Inr (True, scan_position s3, s3))" if "stepped s2 s3" for s3
    using open_text_refl [OF st advanced_trans [OF a(1) stepped_advanced [OF that]]] by (simp add: text_round_ok_def)
  ultimately show "ensures (and_then (push_physical InterpolatedStringEnd (scan_position s2) (scan_position s2 + 1) None True (advance s2 1)) (\<lambda>st.
       ok (Inr (True, scan_position st, st)))) (text_round_ok st p)"
    by (auto simp: ensures_then_iff elim: ensures_mono)
qed

lemma string_value_advances:
  assumes st: "at_text st" and s1: "open_text st k s1" "scan_position s1 < length (scan_text st)"
    and b: "boundary (scan_text st) (scan_position s1 + 1)" and d: "nests d st"
    and inner: "\<And>s. at_token s \<Longrightarrow> nests d s \<Longrightarrow> looking_at s [0x66, 0x22] \<Longrightarrow> ensures (inner s) (stepped s)"
  shows "ensures (and_then (push_interpolation_text k (scan_position s1) s1) (\<lambda>st.
         let opening = scan_position st in
         and_then (push_punctuation LeftBrace st) (\<lambda>st.
         and_then (scan_interpolation_value U inner opening st) (\<lambda>st.
         ok (Inl (scan_position st, st)))))) (text_round_ok st (scan_position s1))"
proof (rule ensures_then [OF push_text_advances [OF st s1(1)]], elim conjE)
  fix s2 assume a: "advanced st s2" "scan_position s2 = scan_position s1"
  have src: "scan_source s2 = scan_source st" using advanced_source [OF a(1)] .
  have t: "at_token s2" using advanced_at_text [OF st a(1)] a(2) s1(2) src by (simp add: at_token_text)
  have brace: "ensures (push_punctuation LeftBrace s2) (stepped s2)" by (rule ensures_push_punctuation [OF t]) (use b a(2) src in simp)
  have "ensures (push_punctuation LeftBrace s2) (\<lambda>s3. ensures (scan_interpolation_value U inner start_at s3)
      (\<lambda>s4. text_round_ok st (scan_position s1) (Inl (scan_position s4, s4))))" for start_at
  proof (rule ensures_mono [OF brace])
    fix s3 assume s3: "stepped s2 s3"
    have a3: "advanced st s3" by (rule advanced_trans [OF a(1) stepped_advanced [OF s3]])
    show "ensures (scan_interpolation_value U inner start_at s3) (\<lambda>s4. text_round_ok st (scan_position s1) (Inl (scan_position s4, s4)))"
    proof (rule ensures_mono [OF scan_value_advances [OF advanced_at_text [OF st a3] _ inner]])
      show "nests d s3" using nests_advanced [OF a3] d by simp
      fix s4 assume s4: "advanced s3 s4"
      have "scan_position s1 < scan_position s4" using s3 s4 a(2) by (simp add: stepped_def advanced_def)
      then show "text_round_ok st (scan_position s1) (Inl (scan_position s4, s4))"
        using open_text_refl [OF st advanced_trans [OF a3 s4]] by (simp add: text_round_ok_def)
    qed
  qed
  then show "ensures (let opening = scan_position s2 in
         and_then (push_punctuation LeftBrace s2) (\<lambda>st.
         and_then (scan_interpolation_value U inner opening st) (\<lambda>st.
         ok (Inl (scan_position st, st))))) (text_round_ok st (scan_position s1))"
    by (simp add: Let_def ensures_then_iff)
qed

lemma interpolated_round_advances:
  assumes st: "at_text st" and o: "open_text st k st'" and l: "scan_position st' < length (scan_text st)" and d: "nests d st"
    and inner: "\<And>s. at_token s \<Longrightarrow> nests d s \<Longrightarrow> looking_at s [0x66, 0x22] \<Longrightarrow> ensures (inner s) (stepped s)"
  shows "ensures (interpolated_round U inner (k, st')) (text_round_ok st (scan_position st'))"
  unfolding interpolated_round_def prod.case
proof (rule ensures_then [OF ensures_work], elim exE)
  fix s1 n assume s1: "s1 = st'\<lparr>poll_work := n\<rparr>"
  have o1: "open_text st k s1" "scan_position s1 = scan_position st'" "scan_source s1 = scan_source st"
    using o s1 open_text_source [OF o] by simp_all
  from o1(1) obtain s where s: "advanced st s" "scan_position s = k" "moved s s1" by (auto simp: open_text_def)
  have srcs: "scan_source s = scan_source st" using advanced_source [OF s(1)] .
  have b1: "boundary (scan_text s1) (scan_position s1)" using movedD(11) [OF s(3)] o1(3) srcs by simp
  from boundary_step [OF b1] l o1 obtain c where
    c: "utf8_step (drop (scan_position s1) (scan_text st)) = Some (c, drop (scan_position s1 + len_utf8 c) (scan_text st))"
      "boundary (scan_text st) (scan_position s1 + len_utf8 c)" by auto
  have char: "current_char s1 = ok c" using c(1) b1 o1(3) by (intro current_char_at) auto
  have l1: "scan_position s1 < length (scan_text st)" using l o1 by simp
  have one: "boundary (scan_text st) (scan_position s1 + 1)" if "c < 0x80" using c that by (simp add: len_utf8_def)
  have esc: "ensures (scan_escape False s1) (\<lambda>s2. text_round_ok st (scan_position st') (Inl (k, s2)))" if "c = 0x5C"
    by (rule ensures_mono [OF scan_escape_moves [OF s(3)]])
      (use char_byte [OF c(1)] that l1 srcs s(1,2) o1(2) in \<open>auto simp: text_round_ok_def open_text_def\<close>)
  have two: "boundary (scan_text st) (scan_position s1 + 2)" if "looking_at s1 p" "length p = 2" "\<forall>b \<in> set p. b < 0x80" for p
    using boundary_prefix [OF b1, of p] that o1(3) by (simp add: looking_at_def)
  have step: "text_round_ok st (scan_position st') (Inl (k, advance (s1\<lparr>sink := x\<rparr>) m))"
    if "boundary (scan_text st) (scan_position s1 + m)" "0 < m" for x m
    using open_text_advance [of st k "s1\<lparr>sink := x\<rparr>" m] that o1 by (simp add: text_round_ok_def)
  have braces: "str ''{{'' = [0x7B, 0x7B]" "str ''}}'' = [0x7D, 0x7D]" by (simp_all add: str_def)
  have jump: "boundary (scan_text st) (scan_position s1 + (if c = code_point (CHR ''}'') \<and> looking_at s1 (str ''}}'') then 2 else len_utf8 c))"
    using two [of "str ''}}''"] c(2) by (simp add: braces)
  show "ensures (and_then (current_char s1) (\<lambda>c.
     if is_line_end c then ok (Inr (False, k, s1))
     else if c = 0x22 then
       and_then (push_interpolation_text k (scan_position s1) s1) (\<lambda>st.
       and_then (push_physical InterpolatedStringEnd (scan_position st) (scan_position st + 1) None True (advance st 1)) (\<lambda>st.
       ok (Inr (True, scan_position st, st))))
     else if c = 0x5C then and_then (scan_escape False s1) (\<lambda>st. ok (Inl (k, st)))
     else if c = code_point (CHR ''{'') then
       if looking_at s1 (str ''{{'') then ok (Inl (k, advance s1 2))
       else
         and_then (push_interpolation_text k (scan_position s1) s1) (\<lambda>st.
         let opening = scan_position st in
         and_then (push_punctuation LeftBrace st) (\<lambda>st.
         and_then (scan_interpolation_value U inner opening st) (\<lambda>st.
         ok (Inl (scan_position st, st)))))
     else
       and_then (report_if (c = code_point (CHR ''}'') \<and> \<not> looking_at s1 (str ''}}'')) s1 ''syntax-unmatched-interpolation-brace''
         (scan_position s1) (scan_position s1 + 1) (str ''unmatched closing brace in interpolated string'')) (\<lambda>st.
       ok (Inl (k, advance st (if c = code_point (CHR ''}'') \<and> looking_at st (str ''}}'') then 2 else len_utf8 c))))))
    (text_round_ok st (scan_position st'))"
    unfolding char and_then_ok
  proof (intro ensures_if)
    show "ensures (ok (Inr (False, k, s1))) (text_round_ok st (scan_position st'))" using o1 by (simp add: text_round_ok_def)
  next
    assume "c = 0x22"
    then show "ensures (and_then (push_interpolation_text k (scan_position s1) s1) (\<lambda>st.
       and_then (push_physical InterpolatedStringEnd (scan_position st) (scan_position st + 1) None True (advance st 1)) (\<lambda>st.
       ok (Inr (True, scan_position st, st))))) (text_round_ok st (scan_position st'))"
      by (intro string_end_advances [OF st o1(1) l1 one]) simp
  next
    assume "c = 0x5C"
    with esc show "ensures (and_then (scan_escape False s1) (\<lambda>st. ok (Inl (k, st)))) (text_round_ok st (scan_position st'))"
      by (simp add: ensures_then_iff)
  next
    assume "looking_at s1 (str ''{{'')"
    then show "ensures (ok (Inl (k, advance s1 2))) (text_round_ok st (scan_position st'))"
      using step [of 2 "sink s1"] two [of "str ''{{''"] by (simp add: braces)
  next
    assume "c = code_point (CHR ''{'')"
    then show "ensures (and_then (push_interpolation_text k (scan_position s1) s1) (\<lambda>st.
         let opening = scan_position st in
         and_then (push_punctuation LeftBrace st) (\<lambda>st.
         and_then (scan_interpolation_value U inner opening st) (\<lambda>st.
         ok (Inl (scan_position st, st)))))) (text_round_ok st (scan_position st'))"
      unfolding o1(2) [symmetric] by (intro string_value_advances [OF st o1(1) l1 one d inner]) auto
  next
    show "ensures (and_then (report_if (c = code_point (CHR ''}'') \<and> \<not> looking_at s1 (str ''}}'')) s1 ''syntax-unmatched-interpolation-brace''
         (scan_position s1) (scan_position s1 + 1) (str ''unmatched closing brace in interpolated string'')) (\<lambda>st.
       ok (Inl (k, advance st (if c = code_point (CHR ''}'') \<and> looking_at st (str ''}}'') then 2 else len_utf8 c)))))
      (text_round_ok st (scan_position st'))"
      by (rule ensures_then [OF ensures_report_if]) (use step [OF jump] in \<open>auto simp: looking_at_def\<close>)
  qed
qed

subsection \<open>The whole string\<close>

lemma scan_inner_steps:
  assumes st: "at_token st" and b: "boundary (scan_text st) (scan_position st + 2)" and d: "nests d st"
    and inner: "\<And>s. at_token s \<Longrightarrow> nests d s \<Longrightarrow> looking_at s [0x66, 0x22] \<Longrightarrow> ensures (inner s) (stepped s)"
  shows "ensures (scan_interpolated_inner U inner st) (stepped st)"
  unfolding scan_interpolated_inner_def Let_def
proof (rule ensures_then)
  have "ensures (push_physical InterpolatedStringStart (scan_position st) (scan_position (advance st 2)) None True (advance st 2)) (stepped st)"
    by (rule push_literal [OF st moved_advance [OF moved_refl [OF at_token_boundary [OF st]]]]) (use b in \<open>simp_all add: is_literal_token_def\<close>)
  then show "ensures (push_physical InterpolatedStringStart (scan_position st) (scan_position st + 2) None True (advance st 2)) (stepped st)" by simp
next
  fix s1 assume s1: "stepped st s1"
  have t1: "at_text s1" using advanced_at_text [OF _ stepped_advanced [OF s1]] st by (simp add: at_token_text)
  have d1: "nests d s1" using nests_advanced [OF stepped_advanced [OF s1]] d by simp
  show "ensures (and_then (while_text (interpolated_round U inner) (\<lambda>(text_start, st). (False, text_start, st)) (scan_position s1, s1))
        (\<lambda>(terminated, text_start, s).
      and_then (push_interpolation_text text_start (scan_position s) s) (\<lambda>s.
      report_if (\<not> terminated) s ''syntax-unterminated-literal'' (scan_position st) (scan_position s) unterminated_message))) (stepped st)"
  proof (rule ensures_then)
    show "ensures (while_text (interpolated_round U inner) (\<lambda>(text_start, st). (False, text_start, st)) (scan_position s1, s1))
      (\<lambda>(terminated, text_start, s). open_text s1 text_start s)"
    proof (rule ensures_while [where I = "\<lambda>k s. open_text s1 k s" and t = "scan_text s1"])
      fix k s assume "open_text s1 k s" "scan_position s < length (scan_text s1)"
      from interpolated_round_advances [OF t1 this d1 inner]
      show "ensures (interpolated_round U inner (k, s)) (\<lambda>r. case r of Inl (k', s') \<Rightarrow> open_text s1 k' s' \<and> scan_position s < scan_position s'
          | Inr y \<Rightarrow> (case y of (terminated, text_start, s) \<Rightarrow> open_text s1 text_start s))"
        by (rule ensures_mono) (auto simp: text_round_ok_def split: sum.splits)
    next
      show "open_text s1 (scan_position s1) s1" by (rule open_text_refl [OF t1 advanced_refl [OF t1]])
    qed (simp_all add: open_text_source open_text_le)
  next
    fix x :: "bool \<times> nat \<times> scanner" assume "case x of (terminated, text_start, s) \<Rightarrow> open_text s1 text_start s"
    then obtain f k s where x: "x = (f, k, s)" and o: "open_text s1 k s" by (cases x) auto
    show "ensures (case x of (terminated, text_start, s) \<Rightarrow>
      and_then (push_interpolation_text text_start (scan_position s) s) (\<lambda>s.
      report_if (\<not> terminated) s ''syntax-unterminated-literal'' (scan_position st) (scan_position s) unterminated_message)) (stepped st)"
      unfolding x prod.case
    proof (rule ensures_then [OF push_text_advances [OF t1 o]], elim conjE)
      fix s2 assume "advanced s1 s2"
      then have "stepped st s2" by (rule stepped_trans(2) [OF s1])
      then show "ensures (report_if (\<not> f) s2 ''syntax-unterminated-literal'' (scan_position st) (scan_position s2) unterminated_message) (stepped st)"
        by (intro ensures_mono [OF ensures_report_if]) (auto simp: stepped_def grows_def)
    qed
  qed
qed

theorem scan_interpolated_steps:
  assumes "at_token st" and "nests d st" and "looking_at st [0x66, 0x22]"
  shows "ensures (scan_interpolated U d st) (stepped st)"
  using assms
proof (induction d arbitrary: st)
  case (Suc d)
  let ?st = "st\<lparr>interpolation_depth := interpolation_depth st + 1\<rparr>"
  have b: "boundary (scan_text st) (scan_position st + 2)"
    using boundary_prefix [OF at_token_boundary [OF Suc.prems(1)], of "[0x66, 0x22]"] Suc.prems(3) by (simp add: looking_at_def)
  show ?case
  proof (cases "interpolation_depth st \<ge> max_nesting_depth (scan_limits st)")
    case False
    then have less: "unat (interpolation_depth st) < unat (max_nesting_depth (scan_limits st))" by (simp add: word_le_nat_alt)
    then have "unat (interpolation_depth st + 1) = Suc (unat (interpolation_depth st))"
      using u32_bound [of "max_nesting_depth (scan_limits st)"] by (simp add: unat_word_ariths)
    then have n: "nests d ?st" using Suc.prems(2) less by (simp add: nests_def)
    have t: "at_token ?st" using Suc.prems(1) by (simp add: at_token_def)
    have "ensures (scan_interpolated_inner U (scan_interpolated U d) ?st) (stepped ?st)"
      by (rule scan_inner_steps [OF t _ n Suc.IH]) (use b in auto)
    then have "ensures (scan_interpolated_inner U (scan_interpolated U d) ?st) (\<lambda>s. stepped st (s\<lparr>interpolation_depth := interpolation_depth s - 1\<rparr>))"
      by (rule ensures_mono) (auto simp: stepped_def grows_def)
    with False show ?thesis by (simp add: ensures_then_iff)
  qed (simp add: ensures_then_iff)
qed (auto simp: nests_def)

end
