(* ===== verification/Scanner_Layout.thy ===== *)
theory Scanner_Layout
  imports Scanner_Strings
begin

text \<open>
  Layout: the stack of indentation levels against the indent and dedent tokens of the table, at the start of
  a line, at its end, and at the end of the file.
\<close>

subsection \<open>The levels that are open\<close>

definition level_after :: "nat option \<Rightarrow> token \<Rightarrow> nat option" where
  "level_after n t =
     (case token_kind t of
        IndentToken \<Rightarrow> map_option Suc n
      | DedentToken \<Rightarrow> (case n of Some (Suc m) \<Rightarrow> Some m | _ \<Rightarrow> None)
      | _ \<Rightarrow> n)"

definition open_levels :: "token list \<Rightarrow> nat option" where
  "open_levels ts = foldl level_after (Some 0) ts"

lemma open_levels_append [simp]: "open_levels (ts @ us) = foldl level_after (open_levels ts) us"
  by (simp add: open_levels_def)

lemma level_inner: "token_kind t \<noteq> IndentToken \<Longrightarrow> token_kind t \<noteq> DedentToken \<Longrightarrow> level_after n t = n"
  by (simp add: level_after_def split: token_kind.splits)

lemma levels_inner: "\<forall>t \<in> set new. inner_kind (token_kind t) \<Longrightarrow> foldl level_after n new = n"
  by (induction new arbitrary: n) (auto simp: level_inner inner_kind_def)

text \<open>A state in which \<open>n\<close> levels were taken off the stack whose dedent tokens are still to come.\<close>

definition owing :: "nat \<Rightarrow> scanner \<Rightarrow> bool" where
  "owing n st \<longleftrightarrow> at_text st \<and> interpolation_depth st = 0 \<and> indentation st \<noteq> [] \<and> hd (indentation st) = 0 \<and>
     open_levels (scan_tokens st) = Some (length (indentation st) - 1 + n) \<and>
     (\<forall>t \<in> set (scan_tokens st). token_kind t \<noteq> EndOfFileToken)"

abbreviation good :: "scanner \<Rightarrow> bool" where
  "good \<equiv> owing 0"

definition kept :: "scanner \<Rightarrow> scanner \<Rightarrow> bool" where
  "kept st st' \<longleftrightarrow> scan_source st' = scan_source st \<and> scan_limits st' = scan_limits st"

definition onward :: "scanner \<Rightarrow> scanner \<Rightarrow> bool" where
  "onward st st' \<longleftrightarrow> good st' \<and> kept st st' \<and> scan_position st \<le> scan_position st'"

lemma kept_refl [simp]: "kept st st" by (simp add: kept_def)

lemma kept_trans: "kept a b \<Longrightarrow> kept b c \<Longrightarrow> kept a c" by (simp add: kept_def)

lemma onward_refl: "good st \<Longrightarrow> onward st st" by (simp add: onward_def)

lemma onward_trans: "onward a b \<Longrightarrow> onward b c \<Longrightarrow> onward a c"
  using kept_trans by (auto simp: onward_def)

lemma owing_updates [simp]:
  "owing n (st\<lparr>sink := s\<rparr>) = owing n st" "owing n (st\<lparr>poll_work := k\<rparr>) = owing n st"
  "owing n (st\<lparr>delimiters := ds\<rparr>) = owing n st" "owing n (st\<lparr>at_line_start := b\<rparr>) = owing n st"
  "owing n (st\<lparr>prepared_dedent_at := p\<rparr>) = owing n st" "owing n (st\<lparr>hanging_header_at := p\<rparr>) = owing n st"
  "owing n (st\<lparr>hanging_header_continuation := b\<rparr>) = owing n st"
  by (simp_all add: owing_def at_text_def)

lemma kept_updates [simp]:
  "kept st (st'\<lparr>sink := s\<rparr>) = kept st st'" "kept st (st'\<lparr>poll_work := k\<rparr>) = kept st st'"
  "kept st (st'\<lparr>at_line_start := b\<rparr>) = kept st st'" "kept st (st'\<lparr>prepared_dedent_at := p\<rparr>) = kept st st'"
  "kept st (st'\<lparr>hanging_header_at := p\<rparr>) = kept st st'" "kept st (st'\<lparr>hanging_header_continuation := b\<rparr>) = kept st st'"
  "kept st (st'\<lparr>scan_position := n\<rparr>) = kept st st'" "kept st (st'\<lparr>indentation := is\<rparr>) = kept st st'"
  by (simp_all add: kept_def)

lemma onward_updates [simp]:
  "onward st (st'\<lparr>sink := s\<rparr>) = onward st st'" "onward st (st'\<lparr>poll_work := k\<rparr>) = onward st st'"
  "onward st (st'\<lparr>at_line_start := b\<rparr>) = onward st st'" "onward st (st'\<lparr>prepared_dedent_at := p\<rparr>) = onward st st'"
  "onward st (st'\<lparr>hanging_header_at := p\<rparr>) = onward st st'" "onward st (st'\<lparr>hanging_header_continuation := b\<rparr>) = onward st st'"
  by (simp_all add: onward_def)

lemma owing_text: "owing n st \<Longrightarrow> at_text st" by (simp add: owing_def)

lemma onward_source: "onward st st' \<Longrightarrow> scan_source st' = scan_source st" by (simp add: onward_def kept_def)

lemma onward_good: "onward st st' \<Longrightarrow> good st'" by (simp add: onward_def)

lemma good_length: "good st \<Longrightarrow> scan_position st \<le> length (scan_text st)"
  by (rule at_text_length [OF owing_text])

lemma good_token: "good st \<Longrightarrow> scan_position st < length (scan_text st) \<Longrightarrow> at_token st"
  by (simp add: at_token_text owing_text)

lemma good_nests: "good st \<Longrightarrow> nests (interpolation_fuel st) st"
  by (simp add: nests_def owing_def interpolation_fuel_def)

lemma onward_stepped:
  assumes "good st" and "stepped st st'"
  shows "onward st st' \<and> scan_position st < scan_position st'"
proof -
  have t: "at_text st'" using advanced_at_text [OF owing_text [OF assms(1)] stepped_advanced [OF assms(2)]] .
  have "good st'" using assms t unfolding stepped_def grows_def owing_def by (auto simp: levels_inner inner_kind_def)
  then show ?thesis using assms(2) by (simp add: onward_def kept_def stepped_def grows_def)
qed

lemma ensures_stepped: "good st \<Longrightarrow> ensures c (stepped st) \<Longrightarrow> ensures c (\<lambda>st'. onward st st' \<and> scan_position st < scan_position st')"
  using onward_stepped by (auto elim: ensures_mono)

text \<open>The contract of the scans of one token: where the scan applies it takes at least one character and extends the
  table with what it took. The scans of tokens keep the layout as it is, which is all the lines need of them.\<close>

locale token_scan =
  fixes applies :: "scanner \<Rightarrow> bool" and scan_one :: "scanner \<Rightarrow> scanner scomp"
  assumes steps: "at_token st \<Longrightarrow> applies st \<Longrightarrow> ensures (scan_one st) (stepped st)"
begin

lemma onward:
  assumes "good st" and "scan_position st < length (scan_text st)" and "applies st"
  shows "ensures (scan_one st) (\<lambda>st'. onward st st' \<and> scan_position st < scan_position st')"
  by (rule ensures_stepped [OF assms(1) steps [OF good_token [OF assms(1,2)] assms(3)]])

lemma keeps_levels:
  assumes "good st" and "scan_position st < length (scan_text st)" and "applies st"
  shows "ensures (scan_one st) (\<lambda>st'. open_levels (scan_tokens st') = open_levels (scan_tokens st) \<and> indentation st' = indentation st)"
  by (rule ensures_mono [OF steps [OF good_token [OF assms(1,2)] assms(3)]])
    (auto simp: stepped_def grows_def levels_inner)

end

definition at_byte :: "u8 \<Rightarrow> scanner \<Rightarrow> bool" where
  "at_byte b st \<longleftrightarrow> scan_text st ! scan_position st = b"

interpretation blanks: token_scan "\<lambda>st. at_byte 0x20 st \<or> at_byte 0x09 st" scan_horizontal_space
  by unfold_locales (auto simp: at_byte_def intro: scan_space_steps)

interpretation comments: token_scan "at_byte 0x23" scan_comment
  by unfold_locales (auto simp: at_byte_def intro: scan_comment_steps)

interpretation words: token_scan "\<lambda>_. True" "scan_identifier U" for U
  by unfold_locales (rule scan_identifier_steps)

interpretation numbers: token_scan "\<lambda>st. is_ascii_digit (scan_text st ! scan_position st)" scan_number
  by unfold_locales (rule scan_number_steps)

interpretation punctuation: token_scan "\<lambda>_. True" scan_punctuation_or_error
  by unfold_locales (rule scan_punctuation_steps)

interpretation strings: token_scan "\<lambda>st. nests d st \<and> looking_at st [0x66, 0x22]" "scan_interpolated U d" for U d
  by unfold_locales (auto intro: scan_interpolated_steps)

text \<open>A token at the position, which may open or close a level.\<close>

lemma owing_push:
  assumes "pushed kind till st st'" and "owing n (st\<lparr>scan_position := pos\<rparr>)" and "scan_position st = till" and "sound_file (scan_source st)"
    and "kind \<noteq> EndOfFileToken" and "\<And>t. token_kind t = kind \<Longrightarrow> level_after (Some (length (indentation st) - 1 + n)) t = Some (length (indentation st) - 1 + m)"
  shows "owing m st' \<and> kept st st' \<and> scan_position st' = scan_position st \<and> indentation st' = indentation st"
  using assms pushedD [OF assms(1)] unfolding pushed_def owing_def kept_def at_text_def by auto

lemma push_layout:
  assumes st: "owing n st" and "\<And>t. token_kind t = kind \<Longrightarrow> level_after (Some (length (indentation st) - 1 + n)) t = Some (length (indentation st) - 1 + m)"
    and kind: "kind = NewlineToken \<longleftrightarrow> origin \<noteq> None" "origin \<noteq> Some SyntheticRecovery" "\<not> carries_spelling kind" "kind \<noteq> EndOfFileToken"
  shows "ensures (push_synthetic kind (scan_position st) origin st)
    (\<lambda>st'. owing m st' \<and> kept st st' \<and> scan_position st' = scan_position st \<and> indentation st' = indentation st)"
proof (rule ensures_mono)
  show "ensures (push_synthetic kind (scan_position st) origin st) (pushed kind (scan_position st) st)"
    by (rule ensures_push_synthetic [OF _ _ kind(1-3)]) (use st in \<open>auto simp: owing_def at_text_def\<close>)
next
  fix st' assume p: "pushed kind (scan_position st) st st'"
  show "owing m st' \<and> kept st st' \<and> scan_position st' = scan_position st \<and> indentation st' = indentation st"
    by (rule owing_push [OF p _ refl _ kind(4) assms(2), where pos = "scan_position st"]) (use st in \<open>auto simp: owing_def at_text_def\<close>)
qed

lemma level_dedent: "token_kind t = DedentToken \<Longrightarrow> level_after (Some (Suc n)) t = Some n"
  by (simp add: level_after_def)

lemma level_indent: "token_kind t = IndentToken \<Longrightarrow> level_after (Some n) t = Some (Suc n)"
  by (simp add: level_after_def)

lemma level_newline: "token_kind t = NewlineToken \<Longrightarrow> level_after n t = n"
  by (simp add: level_after_def)

lemmas layout_kinds = carries_spelling_def is_literal_token_def

lemma push_dedent:
  assumes "owing (Suc n) st"
  shows "ensures (push_synthetic DedentToken (scan_position st) None st)
    (\<lambda>st'. owing n st' \<and> kept st st' \<and> scan_position st' = scan_position st \<and> indentation st' = indentation st)"
  by (rule push_layout [OF assms]) (auto simp: layout_kinds level_dedent)

lemma push_newline:
  assumes "owing n st" and "origin \<noteq> SyntheticRecovery"
  shows "ensures (push_synthetic NewlineToken (scan_position st) (Some origin) st)
    (\<lambda>st'. owing n st' \<and> kept st st' \<and> scan_position st' = scan_position st \<and> indentation st' = indentation st)"
  by (rule push_layout [OF assms(1)]) (use assms(2) in \<open>auto simp: layout_kinds level_newline\<close>)

subsection \<open>Closing levels\<close>

lemma ensures_close_levels:
  assumes "I k st"
    and "\<And>k st. I k st \<Longrightarrow> length (indentation st) > 1 \<Longrightarrow> P (last (indentation st)) \<Longrightarrow>
      ensures (act (st\<lparr>indentation := butlast (indentation st)\<rparr>)) (\<lambda>st'. I (k + 1) st' \<and> length (indentation st') < length (indentation st))"
  shows "ensures (close_levels P act k st) (\<lambda>(st', k'). I k' st' \<and> \<not> (length (indentation st') > 1 \<and> P (last (indentation st'))))"
  using assms(1)
proof (induction "length (indentation st)" arbitrary: k st rule: less_induct)
  case less
  show ?case
  proof (cases "length (indentation st) > 1 \<and> P (last (indentation st))")
    case True
    then have "ensures (act (st\<lparr>indentation := butlast (indentation st)\<rparr>)) (\<lambda>st'. I (k + 1) st' \<and> length (indentation st') < length (indentation st))"
      using assms(2) less.prems by blast
    then have "ensures (act (st\<lparr>indentation := butlast (indentation st)\<rparr>)) (\<lambda>st'. length (indentation st') < length (indentation st) \<and>
       ensures (close_levels P act (k + 1) st') (\<lambda>(st', k'). I k' st' \<and> \<not> (length (indentation st') > 1 \<and> P (last (indentation st')))))"
      by (rule ensures_mono) (use less.hyps in blast)
    with True show ?thesis unfolding close_levels.simps [of P act k st] ensures_then_iff if_P [OF True] by (auto elim: ensures_mono)
  next
    case False
    with less.prems show ?thesis unfolding close_levels.simps [of P act k st] if_not_P [OF False] by simp
  qed
qed

lemma owing_close:
  assumes "owing n st" and "length (indentation st) > 1"
  shows "owing (Suc n) (st\<lparr>indentation := butlast (indentation st)\<rparr>)"
  using assms by (cases "indentation st") (auto simp: owing_def at_text_def)

lemma ensures_close_dedent:
  assumes "good st"
  shows "ensures (close_levels P (\<lambda>st. push_synthetic DedentToken (scan_position st) None st) k st)
    (\<lambda>(st', k'). onward st st' \<and> scan_position st' = scan_position st)"
proof (rule ensures_mono [OF ensures_close_levels [where I = "\<lambda>_ st'. onward st st' \<and> scan_position st' = scan_position st"]])
  fix st' :: scanner assume s: "onward st st' \<and> scan_position st' = scan_position st" and l: "length (indentation st') > 1"
  let ?s = "st'\<lparr>indentation := butlast (indentation st')\<rparr>"
  have "ensures (push_synthetic DedentToken (scan_position ?s) None ?s)
      (\<lambda>st''. good st'' \<and> kept ?s st'' \<and> scan_position st'' = scan_position ?s \<and> indentation st'' = indentation ?s)"
    by (rule push_dedent [OF owing_close [OF _ l]]) (use s in \<open>simp add: onward_def\<close>)
  then show "ensures (push_synthetic DedentToken (scan_position ?s) None ?s)
      (\<lambda>st''. (onward st st'' \<and> scan_position st'' = scan_position st) \<and> length (indentation st'') < length (indentation st'))"
    by (rule ensures_mono) (use s l in \<open>auto simp: onward_def kept_def\<close>)
qed (use assms in \<open>auto simp: onward_refl\<close>)

lemma ensures_close_silent:
  assumes "indentation st \<noteq> []"
  shows "ensures (close_levels P ok 0 st) (\<lambda>(st', k). k < length (indentation st) \<and>
    st' = st\<lparr>indentation := take (length (indentation st) - k) (indentation st)\<rparr> \<and> (length (indentation st) > 1 \<and> P (last (indentation st)) \<longrightarrow> 0 < k))"
proof -
  let ?I = "\<lambda>k st'. k < length (indentation st) \<and> st' = st\<lparr>indentation := take (length (indentation st) - k) (indentation st)\<rparr>"
  have "ensures (close_levels P ok 0 st) (\<lambda>(st', k'). ?I k' st' \<and> \<not> (length (indentation st') > 1 \<and> P (last (indentation st'))))"
    by (rule ensures_close_levels) (use assms in \<open>auto simp: butlast_take\<close>)
  then show ?thesis by (rule ensures_mono) (auto intro: gr0I)
qed

end
