(* ===== verification/Scanner_Lines.thy ===== *)
theory Scanner_Lines
  imports Scanner_Layout
begin

text \<open>
  The start of a line: its indentation, the levels that opens or closes, and the lines that are blank or
  only a comment.
\<close>

subsection \<open>The start of a line\<close>

lemma current_indentation_good: "owing n st \<Longrightarrow> current_indentation st = ok (last (indentation st))"
  by (simp add: current_indentation_def owing_def)

lemma ensures_report_onward: "onward st st' \<Longrightarrow> ensures (report st' c a b m) (\<lambda>st''. onward st st'' \<and> scan_position st'' = scan_position st')"
  by (rule ensures_mono [OF ensures_report]) auto

lemma ensures_report_if_onward: "onward st st' \<Longrightarrow> ensures (report_if p st' c a b m) (\<lambda>st''. onward st st'' \<and> scan_position st'' = scan_position st')"
  by (rule ensures_mono [OF ensures_report_if]) auto

lemma push_indent:
  assumes "good st"
  shows "ensures (push_synthetic IndentToken (scan_position st) None (st\<lparr>indentation := indentation st @ [n]\<rparr>)) (onward st)"
proof -
  let ?s = "st\<lparr>indentation := indentation st @ [n]\<rparr>"
  have "ensures (push_synthetic IndentToken (scan_position st) None ?s) (pushed IndentToken (scan_position st) ?s)"
    by (rule ensures_push_synthetic) (use assms in \<open>auto simp: owing_def at_text_def layout_kinds\<close>)
  then show ?thesis
  proof (rule ensures_mono)
    fix st' assume p: "pushed IndentToken (scan_position st) ?s st'"
    then show "onward st st'"
      using assms pushedD [OF p] unfolding pushed_def owing_def onward_def kept_def at_text_def
      by (auto simp: level_indent hd_append)
  qed
qed

lemma apply_indentation_onward:
  assumes st: "good st"
  shows "ensures (apply_indentation n st) (onward st)"
proof -
  have up: "ensures (and_then (guard_err (word_of_nat (length (indentation s)) \<ge> max_nesting_depth (scan_limits s)) (nesting_fault s)) (\<lambda>_.
       and_then (ask (nesting_fault s)) (\<lambda>_.
       push_synthetic IndentToken (scan_position s) None (s\<lparr>indentation := indentation s @ [n]\<rparr>)))) (onward st)" if "onward st s" for s
    using push_indent [OF onward_good [OF that], of n] onward_trans [OF that] by (auto simp: ensures_then_iff elim: ensures_mono)
  have down: "ensures (case x of (s, k) \<Rightarrow> and_then (current_indentation s) (\<lambda>reached.
       report_if (reached \<noteq> n) s ''syntax-inconsistent-dedent'' (scan_position s - n) (scan_position s)
         (str ''dedent does not match an earlier indentation level''))) (onward st)"
    if x: "case x of (s, k :: nat) \<Rightarrow> onward st s \<and> scan_position s = scan_position st" for x
  proof (cases x)
    case (Pair s k)
    with x have s: "onward st s" by simp
    show ?thesis
      unfolding Pair prod.case current_indentation_good [OF onward_good [OF s]] and_then_ok
      by (rule ensures_mono [OF ensures_report_if_onward [OF s]]) simp
  qed
  show ?thesis
    unfolding apply_indentation_def current_indentation_good [OF st] and_then_ok
    using ensures_then [OF ensures_report_if_onward [OF onward_refl [OF st]] up [OF conjunct1]]
      ensures_then [OF ensures_close_dedent [OF st] down] onward_refl [OF st]
    by (intro ensures_if) auto
qed

lemma leading_blanks_boundary:
  assumes "boundary t at" and "leading_blanks at n tab (drop at t) = (at', n', tab')"
  shows "at \<le> at' \<and> boundary t at'"
  using assms
proof (induction "length t - at" arbitrary: at n tab)
  case (Suc k)
  then have l: "at < length t" by simp
  then have d: "drop at t = t ! at # drop (Suc at) t" by (simp add: Cons_nth_drop_Suc)
  show ?case
  proof (cases "t ! at = 0x20 \<or> t ! at = 0x09")
    case True
    then have "boundary t (Suc at)" using boundary_ascii [OF Suc.prems(1) l] by auto
    with Suc.hyps(1) [of "Suc at"] Suc.hyps(2) Suc.prems(2) True have "Suc at \<le> at' \<and> boundary t at'" by (auto simp: d split: if_splits)
    then show ?thesis by simp
  next
    case False
    with Suc.prems show ?thesis by (simp add: d)
  qed
qed auto

lemma settle_onward:
  assumes "good st"
  shows "ensures (settle_line_start n st) (onward st)"
proof -
  have same: "onward st (st\<lparr>hanging_header_at := None\<rparr>)" "onward st (st\<lparr>prepared_dedent_at := None\<rparr>)" "onward st st"
    using onward_refl [OF assms] by simp_all
  have "ensures (apply_indentation n (st\<lparr>prepared_dedent_at := None\<rparr>)) (onward (st\<lparr>prepared_dedent_at := None\<rparr>))"
    by (rule apply_indentation_onward) (use assms in simp)
  then have new: "ensures (apply_indentation n (st\<lparr>prepared_dedent_at := None\<rparr>)) (onward st)"
    by (rule ensures_mono) (rule onward_trans [OF same(2)])
  show ?thesis
    unfolding settle_line_start_def ensures_then_iff ensures_ok onward_updates
    by (intro ensures_if new) (simp_all add: onward_refl [OF assms])
qed

text \<open>Trivia up to the position.\<close>

lemma push_trivia_position: "ensures (push_trivia kind a b st) (\<lambda>st'. scan_position st' = scan_position st)"
  by (simp add: push_trivia_def ensures_then_iff Let_def)

lemma ensures_conj: "ensures c P \<Longrightarrow> ensures c Q \<Longrightarrow> ensures c (\<lambda>x. P x \<and> Q x)"
  by (auto simp: ensures_def split: sum.splits)

lemma note_onward:
  assumes st: "good st" and m: "boundary (scan_text st) p" "scan_position st < p"
  shows "ensures (push_trivia kind (scan_position st) p (st\<lparr>scan_position := p\<rparr>)) (\<lambda>st'. onward st st' \<and> scan_position st' = p)"
proof -
  have "at_token st" using m by (intro good_token [OF st]) (auto simp: boundary_def)
  from note_moved [OF this moved_to [OF m(1)], of kind] m(2)
  have "ensures (push_trivia kind (scan_position st) p (st\<lparr>scan_position := p\<rparr>)) (stepped st)" by simp
  from ensures_conj [OF this push_trivia_position] show ?thesis
    by (rule ensures_mono) (use onward_stepped [OF st] in auto)
qed

lemma newline_trivia_onward:
  assumes st: "good st" and w: "starts_with (drop (scan_position st) (scan_text st)) p" "\<forall>b \<in> set p. b < 0x80" "p \<noteq> []" and n: "length p = n"
  shows "ensures (push_newline_trivia n st) (\<lambda>st'. onward st st' \<and> scan_position st < scan_position st')"
proof -
  have "boundary (scan_text st) (scan_position st + length p)"
    using boundary_prefix [OF at_text_boundary [OF owing_text [OF st]] w(1,2)] by simp
  moreover have "0 < n" using w(3) n by auto
  ultimately show ?thesis
    unfolding push_newline_trivia_def advance_def using note_onward [OF st, of "scan_position st + n" BlankLine]
    by (auto simp: n elim: ensures_mono)
qed

lemma newline_widths_onward:
  assumes "good st"
  shows "starts_with (drop (scan_position st) (scan_text st)) [0x0A] \<Longrightarrow>
      ensures (push_newline_trivia 1 st) (\<lambda>st'. onward st st' \<and> scan_position st < scan_position st')"
    and "starts_with (drop (scan_position st) (scan_text st)) [0x0D, 0x0A] \<Longrightarrow>
      ensures (push_newline_trivia 2 st) (\<lambda>st'. onward st st' \<and> scan_position st < scan_position st')"
proof -
  show "starts_with (drop (scan_position st) (scan_text st)) [0x0A] \<Longrightarrow>
      ensures (push_newline_trivia 1 st) (\<lambda>st'. onward st st' \<and> scan_position st < scan_position st')"
    by (erule newline_trivia_onward [OF assms]) simp_all
  show "starts_with (drop (scan_position st) (scan_text st)) [0x0D, 0x0A] \<Longrightarrow>
      ensures (push_newline_trivia 2 st) (\<lambda>st'. onward st st' \<and> scan_position st < scan_position st')"
    by (erule newline_trivia_onward [OF assms]) simp_all
qed

definition prefix_ok :: "scanner \<Rightarrow> bool \<times> scanner \<Rightarrow> bool" where
  "prefix_ok st r \<longleftrightarrow> onward st (snd r) \<and> (fst r \<longrightarrow> scan_position st < scan_position (snd r))"

lemma comment_line_ok:
  assumes st: "good st" and s: "starts_with (drop (scan_position st) (scan_text st)) (str ''#'')"
  shows "ensures (and_then (scan_comment st) (\<lambda>st.
          if scan_position st < length (scan_text st) then
            and_then (remaining st) (\<lambda>r.
            and_then
              (if starts_with r [0x0D, 0x0A] then push_newline_trivia 2 st
               else if starts_with r [0x0A] then push_newline_trivia 1 st
               else ok st) (\<lambda>st. ok (True, st)))
          else ok (True, st))) (prefix_ok st)"
proof (rule ensures_then)
  have "drop (scan_position st) (scan_text st) \<noteq> []" "hd (drop (scan_position st) (scan_text st)) = 0x23"
    using s by (cases "drop (scan_position st) (scan_text st)"; simp add: starts_with_def str_def)+
  then have l: "scan_position st < length (scan_text st)" "scan_text st ! scan_position st = 0x23" by (auto simp: hd_drop_conv_nth)
  then show "ensures (scan_comment st) (\<lambda>s. onward st s \<and> scan_position st < scan_position s)"
    by (intro ensures_stepped [OF st] scan_comment_steps good_token [OF st]) auto
next
  fix s1 assume s1: "onward st s1 \<and> scan_position st < scan_position s1"
  have g: "good s1" using s1 onward_good by blast
  have r: "remaining s1 = ok (drop (scan_position s1) (scan_text s1))" by (rule remaining_at [OF at_text_boundary [OF owing_text [OF g]]])
  have done_ok: "prefix_ok st (True, s2)" if "onward s1 s2" for s2
    using s1 that onward_trans by (auto simp: prefix_ok_def onward_def)
  have nl1: "ensures (push_newline_trivia 1 s1) (\<lambda>s2. prefix_ok st (True, s2))" if "starts_with (drop (scan_position s1) (scan_text s1)) [0x0A]"
    by (rule ensures_mono [OF newline_widths_onward(1) [OF g that]]) (use done_ok in blast)
  have nl2: "ensures (push_newline_trivia 2 s1) (\<lambda>s2. prefix_ok st (True, s2))" if "starts_with (drop (scan_position s1) (scan_text s1)) [0x0D, 0x0A]"
    by (rule ensures_mono [OF newline_widths_onward(2) [OF g that]]) (use done_ok in blast)
  show "ensures (if scan_position s1 < length (scan_text s1) then
            and_then (remaining s1) (\<lambda>r.
            and_then
              (if starts_with r [0x0D, 0x0A] then push_newline_trivia 2 s1
               else if starts_with r [0x0A] then push_newline_trivia 1 s1
               else ok s1) (\<lambda>st. ok (True, st)))
          else ok (True, s1)) (prefix_ok st)"
    using nl1 nl2 done_ok [OF onward_refl [OF g]] by (auto simp: r ensures_then_iff)
qed

lemma prefix_spaces_ok:
  assumes st: "good st" and b: "scan_position st \<le> at" "boundary (scan_text st) at"
  shows "ensures (if at > scan_position st then push_trivia SpacesTrivia (scan_position st) at (st\<lparr>scan_position := at\<rparr>) else ok (st\<lparr>scan_position := at\<rparr>))
      (\<lambda>s. onward st s \<and> scan_position s = at)"
proof (cases "at > scan_position st")
  case True
  with note_onward [OF st b(2)] show ?thesis by simp
next
  case False
  with b have "st\<lparr>scan_position := at\<rparr> = st" "at = scan_position st" by simp_all
  with onward_refl [OF st] show ?thesis by simp
qed

lemma prefix_rest_ok:
  assumes st: "good st" and s: "onward st s" "scan_position st < length (scan_text st)"
  shows "ensures (if scan_position s = length (scan_text s) then ok (True, s)
      else
        and_then (remaining s) (\<lambda>r.
        if starts_with r [0x0A] then and_then (push_newline_trivia 1 s) (\<lambda>st. ok (True, st))
        else if starts_with r [0x0D, 0x0A] then and_then (push_newline_trivia 2 s) (\<lambda>st. ok (True, st))
        else if starts_with r (str ''#'') then
          and_then (scan_comment s) (\<lambda>st.
          if scan_position st < length (scan_text st) then
            and_then (remaining st) (\<lambda>r.
            and_then
              (if starts_with r [0x0D, 0x0A] then push_newline_trivia 2 st
               else if starts_with r [0x0A] then push_newline_trivia 1 st
               else ok st) (\<lambda>st. ok (True, st)))
          else ok (True, st))
        else and_then (settle_line_start n s) (\<lambda>st. ok (False, st)))) (prefix_ok st)"
proof -
  have g: "good s" by (rule onward_good [OF s(1)])
  have up: "prefix_ok st x" if "prefix_ok s x" for x using that s(1) onward_trans by (auto simp: prefix_ok_def onward_def)
  have r: "remaining s = ok (drop (scan_position s) (scan_text s))" by (rule remaining_at [OF at_text_boundary [OF owing_text [OF g]]])
  have nl1: "ensures (push_newline_trivia 1 s) (\<lambda>s2. prefix_ok st (True, s2))" if "starts_with (drop (scan_position s) (scan_text s)) [0x0A]"
    by (rule ensures_mono [OF newline_widths_onward(1) [OF g that]]) (rule up, simp add: prefix_ok_def)
  have nl2: "ensures (push_newline_trivia 2 s) (\<lambda>s2. prefix_ok st (True, s2))" if "starts_with (drop (scan_position s) (scan_text s)) [0x0D, 0x0A]"
    by (rule ensures_mono [OF newline_widths_onward(2) [OF g that]]) (rule up, simp add: prefix_ok_def)
  have settled: "ensures (settle_line_start n s) (\<lambda>s2. prefix_ok st (False, s2))"
    by (rule ensures_mono [OF settle_onward [OF g]]) (rule up, simp add: prefix_ok_def)
  show ?thesis
    unfolding r and_then_ok
  proof (intro ensures_if)
    assume "scan_position s = length (scan_text s)"
    then show "ensures (ok (True, s)) (prefix_ok st)" using s onward_source [OF s(1)] by (simp add: prefix_ok_def)
  next
    assume "starts_with (drop (scan_position s) (scan_text s)) (str ''#'')"
    from comment_line_ok [OF g this]
    show "ensures (and_then (scan_comment s) (\<lambda>st.
          if scan_position st < length (scan_text st) then
            and_then (remaining st) (\<lambda>r.
            and_then
              (if starts_with r [0x0D, 0x0A] then push_newline_trivia 2 st
               else if starts_with r [0x0A] then push_newline_trivia 1 st
               else ok st) (\<lambda>st. ok (True, st)))
          else ok (True, st))) (prefix_ok st)"
      by (rule ensures_mono) (rule up)
  qed (use nl1 nl2 settled in \<open>auto simp: ensures_then_iff\<close>)
qed

lemma scan_line_prefix_ok:
  assumes st: "good st" and l: "scan_position st < length (scan_text st)"
  shows "ensures (scan_line_prefix st) (prefix_ok st)"
proof -
  obtain at n tab where lb: "leading_blanks (scan_position st) 0 None (drop (scan_position st) (scan_text st)) = (at, n, tab)" by (metis prod_cases3)
  have b: "scan_position st \<le> at" "boundary (scan_text st) at" using leading_blanks_boundary [OF at_text_boundary [OF owing_text [OF st]] lb] by auto
  have tabs: "ensures (case tab of None \<Rightarrow> ok s
        | Some t \<Rightarrow> report s ''syntax-leading-tab'' t (t + 1) (str ''tabs are forbidden in leading indentation'')) (onward st)"
    if "onward st s \<and> scan_position s = at" for s
    using that ensures_mono [OF ensures_report_onward [OF conjunct1 [OF that]]] by (auto split: option.splits)
  show ?thesis
    unfolding scan_line_prefix_def lb Let_def prod.case
    by (rule ensures_then [OF prefix_spaces_ok [OF st b]], erule ensures_then [OF tabs], rule prefix_rest_ok [OF st _ l])
qed

end
