(* ===== verification/Scanner_Newlines.thy ===== *)
theory Scanner_Newlines
  imports Scanner_Lines
begin

text \<open>
  The end of a line: the look ahead to the next line with code, the levels a newline closes, and the header
  that hangs over it.
\<close>

subsection \<open>Looking ahead\<close>

definition polled :: "scanner \<Rightarrow> scanner \<Rightarrow> bool" where
  "polled st st' \<longleftrightarrow> (\<exists>n. st' = st\<lparr>poll_work := n\<rparr>)"

lemma polled_refl [simp]: "polled st st"
  unfolding polled_def by (rule exI [of _ "poll_work st"]) simp

lemma polled_trans: "polled a b \<Longrightarrow> polled b c \<Longrightarrow> polled a c"
  by (auto simp: polled_def)

lemma ensures_polled: "ensures (work st) (polled st)"
  by (rule ensures_mono [OF ensures_work]) (simp add: polled_def)

lemma polledD:
  assumes "polled st st'"
  shows "scan_source st' = scan_source st" "scan_position st' = scan_position st" "indentation st' = indentation st"
    "scan_tokens st' = scan_tokens st" "delimiters st' = delimiters st" "owing n st' = owing n st" "kept st st'"
  using assms by (auto simp: polled_def kept_def)

lemma significant_blanks_polled:
  "ensures (significant_blanks bs cursor n st) (\<lambda>(cursor', n', st'). polled st st' \<and> cursor \<le> cursor' \<and> cursor' \<le> cursor + length bs)"
proof (induction bs arbitrary: cursor n st)
  case (Cons b bs)
  have rest: "ensures (significant_blanks bs (cursor + 1) m s) (\<lambda>(cursor', n', st'). polled st st' \<and> cursor \<le> cursor' \<and> cursor' \<le> cursor + length (b # bs))"
    if "polled st s" for m s
    by (rule ensures_mono [OF Cons.IH]) (auto intro: polled_trans [OF that])
  show ?case unfolding significant_blanks.simps by (rule ensures_then [OF ensures_polled], intro ensures_if rest) auto
qed simp

lemma comment_end_polled:
  "ensures (comment_end bs cursor st) (\<lambda>(cursor', st'). polled st st' \<and> cursor \<le> cursor' \<and> cursor' \<le> cursor + length bs)"
proof (induction bs arbitrary: cursor st)
  case (Cons b bs)
  have rest: "ensures (comment_end bs (cursor + 1) s) (\<lambda>(cursor', st'). polled st st' \<and> cursor \<le> cursor' \<and> cursor' \<le> cursor + length (b # bs))"
    if "polled st s" for s
    by (rule ensures_mono [OF Cons.IH]) (auto intro: polled_trans [OF that])
  show ?case unfolding comment_end.simps using ensures_then [OF ensures_polled rest] by auto
qed simp

lemma line_tokens_back_polled: "ensures (line_tokens_back ts at st) (\<lambda>(at', st'). polled st st')"
proof (induction ts arbitrary: at st)
  case (Cons t ts)
  have rest: "ensures (line_tokens_back ts (at - 1) s) (\<lambda>(at', st'). polled st st')" if "polled st s" for s
    by (rule ensures_mono [OF Cons.IH]) (auto intro: polled_trans [OF that])
  show ?case unfolding line_tokens_back.simps by (rule ensures_then [OF ensures_polled], intro ensures_if rest) auto
qed simp

lemma header_polled: "ensures (current_line_starts_declaration_header st) (\<lambda>(b, st'). polled st st')"
  unfolding current_line_starts_declaration_header_def Let_def
  by (rule ensures_then [OF line_tokens_back_polled]) auto

lemma hanging_polled: "ensures (is_hanging_header l current st) (\<lambda>(b, st'). polled st st')"
  unfolding is_hanging_header_def by (rule ensures_if [OF header_polled]) simp

lemma list_get_Some: "list_get t i = Some b \<Longrightarrow> i < length t"
  by (simp add: list_get_def split: if_splits)

lemma next_line_polled:
  assumes "from \<le> length (scan_text st)"
  shows "ensures (next_significant_line from st) (\<lambda>(l, st'). polled st st')"
  unfolding next_significant_line_def
proof (rule ensures_iterate [where I = "\<lambda>(cursor, st'). polled st st' \<and> cursor \<le> length (scan_text st)"
      and \<mu> = "\<lambda>(cursor, st'). length (scan_text st) - cursor"])
  fix x assume "case x of (cursor, st') \<Rightarrow> polled st st' \<and> cursor \<le> length (scan_text st)"
  then obtain c0 s where x: "x = (c0, s)" and p: "polled st s" and c0: "c0 \<le> length (scan_text st)" by (cases x) auto
  let ?t = "scan_text st"
  let ?ok = "\<lambda>r. case r of Inl s' \<Rightarrow> (case s' of (cursor, st') \<Rightarrow> polled st st' \<and> cursor \<le> length ?t) \<and>
      (case s' of (cursor, st') \<Rightarrow> length ?t - cursor) < length ?t - c0
    | Inr y \<Rightarrow> (case y of (l :: significant_line, st') \<Rightarrow> polled st st')"
  have src: "scan_text s = ?t" using polledD [OF p] by simp
  have go: "?ok (Inl (c, s'))" if "polled st s'" "c0 < c" "c \<le> length ?t" for c s' using that by auto
  have comment: "ensures (and_then (comment_end (drop c ?t) c s1) (\<lambda>(finish, st).
         if finish = length ?t then ok (Inr (\<lparr>line_indentation = 0, prefix_start = c0, prefix_end = c, code_offset = None\<rparr>, st))
         else if ?t ! finish = 0x0D \<and> list_get ?t (finish + 1) = Some 0x0A then ok (Inl (finish + 2, st))
         else ok (Inl (finish + 1, st)))) ?ok"
    if h: "polled st s1" "c0 \<le> c" "c < length ?t" for c s1
  proof (rule ensures_then [OF comment_end_polled])
    fix z :: "nat \<times> scanner" assume "case z of (cursor', st') \<Rightarrow> polled s1 st' \<and> c \<le> cursor' \<and> cursor' \<le> c + length (drop c ?t)"
    then obtain e s2 where z: "z = (e, s2)" and q: "polled st s2" and e: "c \<le> e" "e \<le> length ?t"
      using h polled_trans by (cases z) auto
    show "ensures (case z of (finish, st) \<Rightarrow>
         if finish = length ?t then ok (Inr (\<lparr>line_indentation = 0, prefix_start = c0, prefix_end = c, code_offset = None\<rparr>, st))
         else if ?t ! finish = 0x0D \<and> list_get ?t (finish + 1) = Some 0x0A then ok (Inl (finish + 2, st))
         else ok (Inl (finish + 1, st))) ?ok"
      unfolding z prod.case using q e h by (intro ensures_if) (auto dest: list_get_Some)
  qed
  show "ensures (case x of (cursor0, s) \<Rightarrow>
       let t = scan_text s; none = (\<lambda>till. \<lparr>line_indentation = 0, prefix_start = cursor0, prefix_end = till, code_offset = None\<rparr>) in
       and_then (significant_blanks (drop cursor0 t) cursor0 0 s) (\<lambda>(cursor, n, s).
       if cursor = length t then ok (Inr (none cursor, s))
       else if t ! cursor = 0x0A then ok (Inl (cursor + 1, s))
       else if t ! cursor = 0x0D \<and> list_get t (cursor + 1) = Some 0x0A then ok (Inl (cursor + 2, s))
       else if t ! cursor = byte_of (CHR ''#'') then
         and_then (comment_end (drop cursor t) cursor s) (\<lambda>(finish, s).
         if finish = length t then ok (Inr (none cursor, s))
         else if t ! finish = 0x0D \<and> list_get t (finish + 1) = Some 0x0A then ok (Inl (finish + 2, s))
         else ok (Inl (finish + 1, s)))
       else ok (Inr (\<lparr>line_indentation = n, prefix_start = cursor0, prefix_end = cursor, code_offset = Some cursor\<rparr>, s))))
      (\<lambda>r. case r of Inl s' \<Rightarrow> (case s' of (cursor, st') \<Rightarrow> polled st st' \<and> cursor \<le> length ?t) \<and>
        (case s' of (cursor, st') \<Rightarrow> length ?t - cursor) < (case x of (cursor, st') \<Rightarrow> length ?t - cursor)
      | Inr y \<Rightarrow> (case y of (l, st') \<Rightarrow> polled st st'))"
    unfolding x prod.case Let_def src
  proof (rule ensures_then [OF significant_blanks_polled])
    fix y :: "nat \<times> nat \<times> scanner" assume "case y of (cursor', n', st') \<Rightarrow> polled s st' \<and> c0 \<le> cursor' \<and> cursor' \<le> c0 + length (drop c0 ?t)"
    then obtain c n s1 where y: "y = (c, n, s1)" and q: "polled st s1" and c: "c0 \<le> c" "c \<le> length ?t"
      using p c0 polled_trans by (cases y) auto
    show "ensures (case y of (cursor, n, s) \<Rightarrow>
       if cursor = length ?t then ok (Inr (\<lparr>line_indentation = 0, prefix_start = c0, prefix_end = cursor, code_offset = None\<rparr>, s))
       else if ?t ! cursor = 0x0A then ok (Inl (cursor + 1, s))
       else if ?t ! cursor = 0x0D \<and> list_get ?t (cursor + 1) = Some 0x0A then ok (Inl (cursor + 2, s))
       else if ?t ! cursor = byte_of (CHR ''#'') then
         and_then (comment_end (drop cursor ?t) cursor s) (\<lambda>(finish, s).
         if finish = length ?t then ok (Inr (\<lparr>line_indentation = 0, prefix_start = c0, prefix_end = cursor, code_offset = None\<rparr>, s))
         else if ?t ! finish = 0x0D \<and> list_get ?t (finish + 1) = Some 0x0A then ok (Inl (finish + 2, s))
         else ok (Inl (finish + 1, s)))
       else ok (Inr (\<lparr>line_indentation = n, prefix_start = c0, prefix_end = cursor, code_offset = Some cursor\<rparr>, s))) ?ok"
      unfolding y prod.case
    proof (intro ensures_if)
      show "ensures (and_then (comment_end (drop c ?t) c s1) (\<lambda>(finish, st).
         if finish = length ?t then ok (Inr (\<lparr>line_indentation = 0, prefix_start = c0, prefix_end = c, code_offset = None\<rparr>, st))
         else if ?t ! finish = 0x0D \<and> list_get ?t (finish + 1) = Some 0x0A then ok (Inl (finish + 2, st))
         else ok (Inl (finish + 1, st)))) ?ok" if "c \<noteq> length ?t"
        by (rule comment) (use q c that in auto)
    qed (use q c in \<open>auto dest: list_get_Some\<close>)
  qed
qed (use assms in auto)

subsection \<open>The dedents of a newline\<close>

lemma push_dedents_after:
  assumes "owing n st" and "scan_position st = till"
  shows "ensures (push_dedents n from till False st) (onward st)"
  using assms
proof (induction n arbitrary: st)
  case (Suc n)
  let ?same = "\<lambda>n st st'. owing n st' \<and> kept st st' \<and> scan_position st' = scan_position st \<and> indentation st' = indentation st"
  have newline: "ensures (push_synthetic NewlineToken till (Some PhysicalNewline) s) (?same n st)" if "?same n st s" for s
    using push_newline [of n s PhysicalNewline] that Suc.prems(2) by (auto elim!: ensures_mono intro: kept_trans)
  have rest: "ensures (push_dedents n from till False s) (onward st)" if "?same n st s" for s
    by (rule ensures_mono [OF Suc.IH]) (use that Suc.prems(2) kept_trans in \<open>auto simp: onward_def\<close>)
  have dedent: "ensures (push_synthetic DedentToken till None st) (?same n st)"
    using push_dedent [OF Suc.prems(1)] Suc.prems(2) by simp
  show ?case
    unfolding push_dedents.simps if_False
    by (rule ensures_then [OF dedent]) (rule ensures_then [OF newline rest])
qed (simp add: onward_refl)

lemma newline_token_onward:
  assumes st: "owing n st" and b: "boundary (scan_text st) till" "scan_position st < till"
  shows "ensures (push_physical NewlineToken (scan_position st) till (Some PhysicalNewline) False (st\<lparr>scan_position := till\<rparr>))
    (\<lambda>s. owing n s \<and> kept st s \<and> scan_position s = till)"
proof -
  let ?s = "st\<lparr>scan_position := till\<rparr>"
  have "ensures (push_physical NewlineToken (scan_position st) till (Some PhysicalNewline) False ?s) (pushed NewlineToken till ?s)"
    by (rule ensures_push_physical) (use st b in \<open>auto simp: owing_def at_text_def layout_kinds\<close>)
  then show ?thesis
  proof (rule ensures_mono)
    fix s assume p: "pushed NewlineToken till ?s s"
    have "owing n s \<and> kept ?s s \<and> scan_position s = scan_position ?s \<and> indentation s = indentation ?s"
      by (rule owing_push [OF p, where pos = "scan_position st"]) (use st in \<open>auto simp: level_newline owing_def at_text_def\<close>)
    then show "owing n s \<and> kept st s \<and> scan_position s = till" by (simp add: kept_def)
  qed
qed

lemma push_dedents_onward:
  assumes "owing (Suc n) st" and "scan_position st = from" and "boundary (scan_text st) till" "from < till"
  shows "ensures (push_dedents (Suc n) from till True st) (\<lambda>s. onward st s \<and> from < scan_position s)"
  unfolding push_dedents.simps if_True
proof (rule ensures_then)
  show "ensures (push_synthetic DedentToken from None st) (\<lambda>s. owing n s \<and> kept st s \<and> scan_position s = from \<and> indentation s = indentation st)"
    using push_dedent [OF assms(1)] assms(2) by simp
next
  fix s1 assume s1: "owing n s1 \<and> kept st s1 \<and> scan_position s1 = from \<and> indentation s1 = indentation st"
  have nl: "ensures (push_physical NewlineToken from till (Some PhysicalNewline) False (s1\<lparr>scan_position := till\<rparr>))
      (\<lambda>s. owing n s \<and> kept s1 s \<and> scan_position s = till)"
    using newline_token_onward [of n s1 till] s1 assms by (simp add: kept_def)
  show "ensures (and_then (push_physical NewlineToken from till (Some PhysicalNewline) False (s1\<lparr>scan_position := till\<rparr>))
      (push_dedents n from till False)) (\<lambda>s. onward st s \<and> from < scan_position s)"
  proof (rule ensures_then [OF nl], elim conjE)
    fix s2 assume s2: "owing n s2" "kept s1 s2" "scan_position s2 = till"
    show "ensures (push_dedents n from till False s2) (\<lambda>s. onward st s \<and> from < scan_position s)"
    proof (rule ensures_mono [OF push_dedents_after [OF s2(1,3)]])
      fix s assume "onward s2 s"
      with s1 s2 assms(2,4) show "onward st s \<and> from < scan_position s" by (simp add: onward_def kept_def)
    qed
  qed
qed

lemma owing_closed:
  assumes "good st" and "k < length (indentation st)"
  shows "owing k (st\<lparr>indentation := take (length (indentation st) - k) (indentation st)\<rparr>)"
  using assms by (cases "indentation st") (auto simp: owing_def at_text_def hd_take)

lemma close_lines_onward:
  assumes st: "good st" and l: "line_indentation next < last (indentation st)"
    and b: "boundary (scan_text st) till" "scan_position st < till"
  shows "ensures (close_lines next (scan_position st) till st) (\<lambda>s. onward st s \<and> scan_position st < scan_position s)"
proof -
  let ?st = "st\<lparr>hanging_header_continuation := False\<rparr>" and ?ind = "indentation st"
  have ne: "?ind \<noteq> []" "length ?ind > 1" using st l by (cases ?ind; auto simp: owing_def)+
  have closed: "ensures (close_levels (\<lambda>top. top > line_indentation next) ok 0 ?st) (\<lambda>(s, k). 0 < k \<and> owing k s \<and> kept st s \<and> scan_position s = scan_position st)"
    by (rule ensures_mono [OF ensures_close_silent]) (use ne l owing_closed [of ?st] st in \<open>auto simp: kept_def\<close>)
  show ?thesis
    unfolding close_lines_def
  proof (rule ensures_then [OF closed])
    fix x assume "case x of (s, k) \<Rightarrow> 0 < k \<and> owing k s \<and> kept st s \<and> scan_position s = scan_position st"
    then obtain s k where x: "x = (s, Suc k)" and s: "owing (Suc k) s" "kept st s" "scan_position s = scan_position st"
      by (cases x) (auto simp: gr0_conv_Suc)
    have dedents: "ensures (push_dedents (Suc k) (scan_position st) till True (s\<lparr>sink := y\<rparr>)) (\<lambda>s'. onward st s' \<and> scan_position st < scan_position s')" for y
    proof (rule ensures_mono [OF push_dedents_onward])
      show "boundary (scan_text (s\<lparr>sink := y\<rparr>)) till" using b s by (simp add: kept_def)
      fix s' assume "onward (s\<lparr>sink := y\<rparr>) s' \<and> scan_position st < scan_position s'"
      then show "onward st s' \<and> scan_position st < scan_position s'" using s by (auto simp: onward_def kept_def)
    qed (use s b in simp_all)
    show "ensures (case x of (st', closed) \<Rightarrow>
     and_then (current_indentation st') (\<lambda>reached.
     and_then (report_if (reached \<noteq> line_indentation next) st' ''syntax-inconsistent-dedent'' (prefix_start next) (prefix_end next)
       (str ''dedent does not match an earlier indentation level'')) (\<lambda>st''.
     and_then (push_dedents closed (scan_position st) till True st'') (\<lambda>st.
       ok (st\<lparr>prepared_dedent_at := code_offset next\<rparr>))))) (\<lambda>s'. onward st s' \<and> scan_position st < scan_position s')"
      unfolding x prod.case current_indentation_good [OF s(1)] and_then_ok
      by (rule ensures_then [OF ensures_report_if]) (use dedents in \<open>auto simp: ensures_then_iff\<close>)
  qed
qed

lemma scan_newline_onward:
  assumes st: "good st" and b: "boundary (scan_text st) (scan_position st + width)" "0 < width"
  shows "ensures (scan_newline width st) (\<lambda>s. onward st s \<and> scan_position st < scan_position s)"
proof -
  let ?from = "scan_position st" and ?till = "scan_position st + width"
  have suppressed: "ensures (push_trivia SuppressedPhysicalNewline ?from ?till (s\<lparr>scan_position := ?till\<rparr>)) (\<lambda>s'. onward st s' \<and> ?from < scan_position s')"
    if "polled st s" for s
  proof -
    have s: "good s" "boundary (scan_text s) ?till" "scan_position s = ?from" using st b polledD [OF that] by simp_all
    have "onward st s'" if "onward s s'" for s' using that \<open>polled st s\<close> s(3) by (auto simp: onward_def kept_def dest: polledD)
    with note_onward [OF s(1,2), of SuppressedPhysicalNewline] s(3) b(2) show ?thesis by (auto elim!: ensures_mono)
  qed
  have plain: "ensures (push_physical NewlineToken ?from ?till (Some PhysicalNewline) False (s\<lparr>hanging_header_continuation := False, scan_position := ?till\<rparr>))
      (\<lambda>s'. onward st s' \<and> ?from < scan_position s')" if "polled st s" for s
    using newline_token_onward [of 0 "s\<lparr>hanging_header_continuation := False\<rparr>" ?till] st b polledD [OF that]
    by (auto simp: onward_def kept_def elim!: ensures_mono)
  have closing: "ensures (close_lines l ?from ?till s) (\<lambda>s'. onward st s' \<and> ?from < scan_position s')"
    if "polled st s" "line_indentation l < last (indentation s)" for l s
    using close_lines_onward [OF _ that(2), of ?till] st b polledD [OF that(1)] by (auto simp: onward_def kept_def elim!: ensures_mono)
  show ?thesis
    unfolding scan_newline_def Let_def ensures_then_iff [of "if _ then _ else _"] ensures_ok
  proof (intro ensures_if)
    show "ensures (push_trivia SuppressedPhysicalNewline ?from ?till (st\<lparr>scan_position := ?till\<rparr>))
      (\<lambda>s. onward st (s\<lparr>at_line_start := True\<rparr>) \<and> ?from < scan_position (s\<lparr>at_line_start := True\<rparr>))" using suppressed [of st] by simp
  next
    show "ensures (and_then (next_significant_line ?till st) (\<lambda>(next, st).
           and_then (current_indentation st) (\<lambda>current.
           and_then (is_hanging_header next current st) (\<lambda>(hanging, st).
           if hanging then
             and_then (push_trivia SuppressedPhysicalNewline ?from ?till (st\<lparr>scan_position := ?till\<rparr>)) (\<lambda>st.
             ok (st\<lparr>hanging_header_at := code_offset next, hanging_header_continuation := True\<rparr>))
           else if line_indentation next < current then close_lines next ?from ?till st
           else push_physical NewlineToken ?from ?till (Some PhysicalNewline) False
             (st\<lparr>hanging_header_continuation := False, scan_position := ?till\<rparr>)))))
      (\<lambda>s. onward st (s\<lparr>at_line_start := True\<rparr>) \<and> ?from < scan_position (s\<lparr>at_line_start := True\<rparr>))"
    proof (rule ensures_then [OF next_line_polled])
      show "?till \<le> length (scan_text st)" using b by (simp add: boundary_def)
      fix x :: "significant_line \<times> scanner" assume "case x of (l, s) \<Rightarrow> polled st s"
      then obtain l s where x: "x = (l, s)" and s: "polled st s" by (cases x) auto
      have g: "current_indentation s = ok (last (indentation s))" using st polledD [OF s] by (intro current_indentation_good) simp
      show "ensures (case x of (next, st) \<Rightarrow>
           and_then (current_indentation st) (\<lambda>current.
           and_then (is_hanging_header next current st) (\<lambda>(hanging, st).
           if hanging then
             and_then (push_trivia SuppressedPhysicalNewline ?from ?till (st\<lparr>scan_position := ?till\<rparr>)) (\<lambda>st.
             ok (st\<lparr>hanging_header_at := code_offset next, hanging_header_continuation := True\<rparr>))
           else if line_indentation next < current then close_lines next ?from ?till st
           else push_physical NewlineToken ?from ?till (Some PhysicalNewline) False
             (st\<lparr>hanging_header_continuation := False, scan_position := ?till\<rparr>))))
        (\<lambda>s. onward st (s\<lparr>at_line_start := True\<rparr>) \<and> ?from < scan_position (s\<lparr>at_line_start := True\<rparr>))"
        unfolding x prod.case g and_then_ok
      proof (rule ensures_then [OF hanging_polled])
        fix y assume "case y of (hanging :: bool, s') \<Rightarrow> polled s s'"
        then obtain h s' where y: "y = (h, s')" and s': "polled s s'" by (cases y) auto
        have p: "polled st s'" by (rule polled_trans [OF s s'])
        show "ensures (case y of (hanging, st) \<Rightarrow>
           if hanging then
             and_then (push_trivia SuppressedPhysicalNewline ?from ?till (st\<lparr>scan_position := ?till\<rparr>)) (\<lambda>st.
             ok (st\<lparr>hanging_header_at := code_offset l, hanging_header_continuation := True\<rparr>))
           else if line_indentation l < last (indentation s) then close_lines l ?from ?till st
           else push_physical NewlineToken ?from ?till (Some PhysicalNewline) False
             (st\<lparr>hanging_header_continuation := False, scan_position := ?till\<rparr>))
          (\<lambda>s. onward st (s\<lparr>at_line_start := True\<rparr>) \<and> ?from < scan_position (s\<lparr>at_line_start := True\<rparr>))"
          unfolding y prod.case using suppressed [OF p] plain [OF p] closing [OF p, of l] polledD(3) [OF s']
          by (simp add: ensures_then_iff)
      qed
    qed
  qed
qed

end
