(* ===== verification/Scanner_Correct.thy ===== *)
theory Scanner_Correct
  imports Scanner_Newlines
begin

text \<open>
  The scan as a whole: it always ends, in a table or in a refusal, and the table it makes is one the validator
  seals; a sealed table gives back the source text; and the layout tokens nest.
\<close>

subsection \<open>Rounds\<close>

lemma scan_token_onward:
  assumes st: "good st" and l: "scan_position st < length (scan_text st)"
  shows "ensures (scan_token U st) (\<lambda>s. onward st s \<and> scan_position st < scan_position s)"
proof -
  have t: "at_token st" by (rule good_token [OF st l])
  have b: "boundary (scan_text st) (scan_position st)" using t by (rule at_token_boundary)
  show ?thesis
  proof (rule moved_past_char [OF t])
    fix c assume c: "utf8_step (drop (scan_position st) (scan_text st)) = Some (c, drop (scan_position st + len_utf8 c) (scan_text st))"
      and char: "current_char st = ok c"
    have byte: "scan_text st ! scan_position st = word_of_nat c" if "c < 0x80" using char_byte [OF c that] by simp
    have blank: "ensures (scan_horizontal_space st) (\<lambda>s. onward st s \<and> scan_position st < scan_position s)" if "c = 0x20 \<or> c = 0x09"
      by (rule blanks.onward [OF st l]) (use byte that in \<open>auto simp: at_byte_def\<close>)
    have comment: "ensures (scan_comment st) (\<lambda>s. onward st s \<and> scan_position st < scan_position s)" if "c = code_point (CHR ''#'')"
      by (rule comments.onward [OF st l]) (use byte that in \<open>auto simp: at_byte_def\<close>)
    have nl1: "ensures (scan_newline 1 st) (\<lambda>s. onward st s \<and> scan_position st < scan_position s)" if "c = 0x0A"
      by (rule scan_newline_onward [OF st]) (use boundary_ascii [OF b l] byte that in auto)
    have nl2: "ensures (scan_newline 2 st) (\<lambda>s. onward st s \<and> scan_position st < scan_position s)" if "looking_at st [0x0D, 0x0A]"
      by (rule scan_newline_onward [OF st]) (use boundary_prefix [OF b, of "[0x0D, 0x0A]"] that in \<open>auto simp: looking_at_def\<close>)
    have rest: "ensures
     (if c = code_point (CHR ''b'') \<and> looking_at st [0x62, 0x22] then scan_quoted ByteStringLiteral 1 True st
      else if c = code_point (CHR ''f'') \<and> looking_at st [0x66, 0x22] then scan_interpolated U (interpolation_fuel st) st
      else if c = 0x22 \<and> looking_at st triple_quote then scan_reserved_triple_quoted st
      else if c = 0x22 then scan_quoted StringLiteral 0 False st
      else if c = 0x27 then scan_quoted CharacterLiteral 0 False st
      else if code_point (CHR ''0'') \<le> c \<and> c \<le> code_point (CHR ''9'') then scan_number st
      else if c = code_point (CHR ''_'') \<or> is_xid_start U c then scan_identifier U st
      else if is_forbidden_raw_character c then push_physical ErrorToken (scan_position st) (scan_position st + len_utf8 c) None True (advance st (len_utf8 c))
      else scan_punctuation_or_error st) (stepped st)"
      by (rule common_token_steps [OF t char c strings.steps [OF t conjI [OF good_nests [OF st]]]])
    show ?thesis
      unfolding scan_token_def Let_def char and_then_ok
      using blank comment nl1 nl2 ensures_stepped [OF st rest]
      by (simp only: split: if_split) blast
  qed
qed

lemma scan_round_onward:
  assumes st: "good st" and l: "scan_position st < length (scan_text st)"
  shows "ensures (scan_round U (u, st)) (\<lambda>r. case r of Inl (u', s) \<Rightarrow> onward st s \<and> scan_position st < scan_position s
    | Inr s \<Rightarrow> onward st s \<and> scan_position s = length (scan_text s))"
proof -
  let ?ok = "\<lambda>r. case r of Inl (u' :: unit, s) \<Rightarrow> onward st s \<and> scan_position st < scan_position s
    | Inr s \<Rightarrow> onward st s \<and> scan_position s = length (scan_text s)"
  have prefix: "ensures (if at_line_start s then scan_line_prefix s else ok (False, s)) (prefix_ok st)" if "polled st s" for s
  proof -
    have s: "good s" "scan_position s < length (scan_text s)" "onward st s"
      using st l polledD [OF that] by (auto simp: onward_def)
    have "prefix_ok st x" if "prefix_ok s x" for x using that s(3) onward_trans by (auto simp: prefix_ok_def onward_def)
    with scan_line_prefix_ok [OF s(1,2)] have "ensures (scan_line_prefix s) (prefix_ok st)" by (rule ensures_mono)
    with s(3) show ?thesis by (simp add: prefix_ok_def)
  qed
  have tokens: "ensures (case x of (blank, s) \<Rightarrow> if blank then ok (Inl ((), s))
     else if scan_position s \<ge> length (scan_text s) then ok (Inr s)
     else and_then (scan_token U s) (\<lambda>s. ok (Inl ((), s)))) ?ok" if x: "prefix_ok st x" for x
  proof (cases x)
    case (Pair blank s)
    with x have s: "onward st s" "blank \<longrightarrow> scan_position st < scan_position s" by (simp_all add: prefix_ok_def)
    have g: "good s" "scan_position st \<le> scan_position s" using s(1) by (auto simp: onward_def)
    have tok: "ensures (scan_token U s) (\<lambda>s'. onward st s' \<and> scan_position st < scan_position s')" if "scan_position s < length (scan_text s)"
      by (rule ensures_mono [OF scan_token_onward [OF g(1) that]]) (use s(1) g(2) onward_trans in auto)
    show ?thesis
      unfolding Pair prod.case using s good_length [OF g(1)] tok by (intro ensures_if) (auto simp: ensures_then_iff)
  qed
  show ?thesis
    unfolding scan_round_def prod.case
    by (rule ensures_then [OF ensures_polled], rule ensures_then [OF prefix], assumption, rule tokens)
qed

lemma rounds_onward:
  assumes st: "good st"
  shows "ensures (while_text (scan_round U) snd ((), st)) (\<lambda>s. onward st s \<and> scan_position s = length (scan_text s))"
proof (rule ensures_while [where I = "\<lambda>_ s. onward st s" and t = "scan_text st"])
  fix u s assume s: "onward st s" and "scan_position s < length (scan_text st)"
  then have "ensures (scan_round U (u, s)) (\<lambda>r. case r of Inl (u', s') \<Rightarrow> onward s s' \<and> scan_position s < scan_position s'
    | Inr s' \<Rightarrow> onward s s' \<and> scan_position s' = length (scan_text s'))"
    by (intro scan_round_onward onward_good [OF s]) (simp add: onward_source)
  then show "ensures (scan_round U (u, s)) (\<lambda>r. case r of Inl (u', s') \<Rightarrow> onward st s' \<and> scan_position s < scan_position s'
    | Inr s' \<Rightarrow> onward st s' \<and> scan_position s' = length (scan_text s'))"
    by (rule ensures_mono) (use onward_trans [OF s] in \<open>auto split: sum.splits\<close>)
next
  fix u s assume s: "onward st s"
  show "scan_text s = scan_text st \<and> scan_position s \<le> length (scan_text st)"
    using onward_source [OF s] good_length [OF onward_good [OF s]] by simp
qed (use st onward_refl in \<open>auto simp: onward_source\<close>)

subsection \<open>The ends of the scan\<close>

lemma preflight_polled:
  "ensures (preflight_forbidden_characters st) (\<lambda>s. onward st s)" if "good st"
proof -
  have "ensures (for_each (\<lambda>st (offset, c).
       and_then (work st) (\<lambda>st.
       report_if (is_forbidden_raw_character c) st ''syntax-forbidden-code-point'' offset (offset + len_utf8 c)
         (str ''raw Unicode code point U+'' @ hex4_text c @
          str '' is forbidden; use an explicit escape inside strings or comments''))) s cs) (onward st)" if "onward st s" for s cs
    using that
  proof (induction cs arbitrary: s)
    case (Cons x cs)
    obtain offset c where x: "x = (offset, c)" by (cases x)
    have step: "ensures (and_then (work s) (\<lambda>st.
       report_if (is_forbidden_raw_character c) st ''syntax-forbidden-code-point'' offset (offset + len_utf8 c)
         (str ''raw Unicode code point U+'' @ hex4_text c @
          str '' is forbidden; use an explicit escape inside strings or comments''))) (onward st)"
    proof (rule ensures_then [OF ensures_work], elim exE)
      fix s1 n assume "s1 = s\<lparr>poll_work := n\<rparr>"
      with Cons.prems have "onward st s1" by simp
      then show "ensures (report_if (is_forbidden_raw_character c) s1 ''syntax-forbidden-code-point'' offset (offset + len_utf8 c)
         (str ''raw Unicode code point U+'' @ hex4_text c @
          str '' is forbidden; use an explicit escape inside strings or comments'')) (onward st)"
        by (intro ensures_mono [OF ensures_report_if_onward]) auto
    qed
    show ?case unfolding for_each.simps x prod.case by (rule ensures_then [OF step Cons.IH])
  qed simp
  with onward_refl [OF that] show ?thesis unfolding preflight_forbidden_characters_def by blast
qed

lemma report_unclosed_onward: "onward st s \<Longrightarrow> ensures (report_unclosed ds s) (\<lambda>s'. onward st s' \<and> scan_position s' = scan_position s)"
proof (induction ds arbitrary: s)
  case (Cons d ds)
  show ?case
    unfolding report_unclosed.simps
  proof (rule ensures_then [OF ensures_report_onward [OF Cons.prems]], elim conjE)
    fix s1 assume s1: "onward st s1" "scan_position s1 = scan_position s"
    from Cons.IH [OF s1(1)] show "ensures (report_unclosed ds s1) (\<lambda>s'. onward st s' \<and> scan_position s' = scan_position s)"
      by (simp add: s1(2))
  qed
qed simp

text \<open>A table that is closed: its levels are, its last token before the end is a newline, and the end is the end.\<close>

definition sealed_tokens :: "token list \<Rightarrow> bool" where
  "sealed_tokens ts \<longleftrightarrow> (\<exists>us e. ts = us @ [e] \<and> token_kind e = EndOfFileToken \<and> us \<noteq> [] \<and> token_kind (last us) = NewlineToken \<and>
     (\<forall>t \<in> set us. token_kind t \<noteq> EndOfFileToken) \<and> open_levels us = Some 0)"

definition at_end :: "scanner \<Rightarrow> scanner \<Rightarrow> bool" where
  "at_end st s \<longleftrightarrow> onward st s \<and> scan_position s = length (scan_text s)"

definition line_ended :: "scanner \<Rightarrow> bool" where
  "line_ended s \<longleftrightarrow> scan_tokens s \<noteq> [] \<and> token_kind (last (scan_tokens s)) = NewlineToken"

lemma newline_line_ended: "ensures (push_synthetic NewlineToken at origin st) line_ended"
  unfolding push_synthetic_def by (rule ensures_then [OF ensures_capacity]) (simp add: push_token_def Let_def line_ended_def)

lemma synthetic_order:
  "ensures (push_synthetic kind at origin st) (\<lambda>s. scan_order s = scan_order st @ [TokenElement (word_of_nat (length (scan_tokens st)))])"
  unfolding push_synthetic_def by (rule ensures_then [OF ensures_capacity]) (simp add: push_token_def Let_def)

lemma end_newline:
  assumes "at_end st s"
  shows "ensures (push_synthetic NewlineToken (length (scan_text s)) (Some EndOfFileNewline) s)
    (\<lambda>s'. at_end st s' \<and> line_ended s' \<and> indentation s' = indentation s)"
proof -
  have e: "good s" "length (scan_text s) = scan_position s" using assms by (auto simp: at_end_def onward_def)
  from ensures_conj [OF push_newline [OF e(1), of EndOfFileNewline] newline_line_ended] show ?thesis
    unfolding e(2) by (rule ensures_mono) (use assms in \<open>auto simp: at_end_def onward_def kept_def\<close>)
qed

lemma end_levels:
  assumes "at_end st s" and "length (indentation s) > 1"
  shows "ensures (close_levels (\<lambda>_. True) (\<lambda>st.
      and_then (push_synthetic DedentToken (length (scan_text s)) None st) (push_synthetic NewlineToken (length (scan_text s)) (Some EndOfFileNewline))) 0 s)
    (\<lambda>(s', k). at_end st s' \<and> line_ended s' \<and> length (indentation s') = 1)"
proof -
  let ?act = "\<lambda>st. and_then (push_synthetic DedentToken (length (scan_text s)) None st) (push_synthetic NewlineToken (length (scan_text s)) (Some EndOfFileNewline))"
  let ?I = "\<lambda>k s'. at_end st s' \<and> (k = (0 :: nat) \<longrightarrow> s' = s) \<and> (k \<noteq> 0 \<longrightarrow> line_ended s')"
  have same_text: "scan_text s = scan_text st" if "at_end st s" for s using that onward_source by (auto simp: at_end_def)
  have act: "ensures (?act (s'\<lparr>indentation := butlast (indentation s')\<rparr>)) (\<lambda>s''. ?I (k + 1) s'' \<and> length (indentation s'') < length (indentation s'))"
    if I: "?I k s'" and l: "length (indentation s') > 1" for k s'
  proof -
    let ?s = "s'\<lparr>indentation := butlast (indentation s')\<rparr>"
    have g: "good s'" "length (scan_text s) = scan_position ?s"
      using I same_text [OF assms(1)] same_text [of s'] by (auto simp: at_end_def onward_def)
    have s': "at_end st s'" using I by simp
    show ?thesis
    proof (rule ensures_then [OF push_dedent [OF owing_close [OF g(1) l], folded g(2)]])
      fix s1 assume s1: "good s1 \<and> kept ?s s1 \<and> scan_position s1 = length (scan_text s) \<and> indentation s1 = indentation ?s"
      have e: "at_end st s1" using s1 s' g(2) by (auto simp: at_end_def onward_def kept_def)
      have "length (scan_text s) = length (scan_text s1)" using same_text [OF e] same_text [OF assms(1)] by simp
      from end_newline [OF e, folded this] show "ensures (push_synthetic NewlineToken (length (scan_text s)) (Some EndOfFileNewline) s1)
          (\<lambda>s''. ?I (k + 1) s'' \<and> length (indentation s'') < length (indentation s'))"
        by (rule ensures_mono) (use s1 l in auto)
    qed
  qed
  have "ensures (close_levels (\<lambda>_. True) ?act 0 s) (\<lambda>(s', k). ?I k s' \<and> \<not> (length (indentation s') > 1 \<and> True))"
    by (rule ensures_close_levels [where I = ?I]) (use assms act in auto)
  then show ?thesis
  proof (rule ensures_mono)
    fix x :: "scanner \<times> nat" assume x: "case x of (s', k) \<Rightarrow> ?I k s' \<and> \<not> (length (indentation s') > 1 \<and> True)"
    obtain s' k where p: "x = (s', k)" by (cases x)
    have "k \<noteq> 0" using x p assms(2) by auto
    moreover have "indentation s' \<noteq> []" using x p by (auto simp: at_end_def onward_def owing_def)
    ultimately show "case x of (s', k) \<Rightarrow> at_end st s' \<and> line_ended s' \<and> length (indentation s') = 1"
      using x p by (cases "indentation s'") auto
  qed
qed

definition finished :: "scanner \<Rightarrow> scanner \<Rightarrow> bool" where
  "finished st s \<longleftrightarrow> kept st s \<and> lexed s (length (scan_text s)) \<and> sealed_tokens (scan_tokens s) \<and>
     scan_order s \<noteq> [] \<and> last (scan_order s) = TokenElement (word_of_nat (length (scan_tokens s) - 1))"

lemma end_of_file:
  assumes e: "at_end st s" and l: "line_ended s" and i: "length (indentation s) = 1"
  shows "ensures (push_synthetic EndOfFileToken (length (scan_text s)) None s) (finished st)"
proof -
  have g: "good s" "length (scan_text s) = scan_position s" "kept st s" using e by (auto simp: at_end_def onward_def)
  have "ensures (push_synthetic EndOfFileToken (length (scan_text s)) None s) (pushed EndOfFileToken (length (scan_text s)) s)"
    by (rule ensures_push_synthetic) (use g in \<open>auto simp: owing_def at_text_def layout_kinds\<close>)
  from ensures_conj [OF this synthetic_order] show ?thesis
  proof (rule ensures_mono, elim conjE)
    fix s' assume p: "pushed EndOfFileToken (length (scan_text s)) s s'"
      and o: "scan_order s' = scan_order s @ [TokenElement (word_of_nat (length (scan_tokens s)))]"
    obtain t where t: "scan_tokens s' = scan_tokens s @ [t]" "token_kind t = EndOfFileToken" using p by (auto simp: pushed_def)
    have "sealed_tokens (scan_tokens s')"
      unfolding sealed_tokens_def t(1) using t(2) l g(1) i
      by (intro exI [of _ "scan_tokens s"] exI [of _ t]) (auto simp: line_ended_def owing_def)
    with o t g(3) pushedD [OF p] show "finished st s'" by (simp add: finished_def kept_def)
  qed
qed

lemma finish_layout_finished:
  assumes "at_end st s"
  shows "ensures (finish_layout s) (finished st)"
proof -
  have s: "onward st s" "scan_position s = length (scan_text s)" using assms by (simp_all add: at_end_def)
  let ?ready = "\<lambda>s'. at_end st s' \<and> line_ended s' \<and> length (indentation s') = 1"
  have same_text: "scan_text s' = scan_text s''" if "at_end st s'" "at_end st s''" for s' s'' using that onward_source by (auto simp: at_end_def)
  have root: "length (indentation s') = 1" if "at_end st s'" "\<not> length (indentation s') > 1" for s'
    using that by (cases "indentation s'") (auto simp: at_end_def onward_def owing_def)
  have close: "ensures (if length (indentation s1) > 1 then
          and_then (close_levels (\<lambda>_. True) (\<lambda>st.
              and_then (push_synthetic DedentToken (length (scan_text s1)) None st) (push_synthetic NewlineToken (length (scan_text s1)) (Some EndOfFileNewline))) 0 s1) (\<lambda>(st, _). ok st)
        else if scan_tokens s1 \<noteq> [] \<and> token_kind (last (scan_tokens s1)) = NewlineToken then ok s1
        else push_synthetic NewlineToken (length (scan_text s1)) (Some EndOfFileNewline) s1) ?ready" if e: "at_end st s1" for s1
  proof (intro ensures_if)
    assume "length (indentation s1) > 1"
    then show "ensures (and_then (close_levels (\<lambda>_. True) (\<lambda>st.
              and_then (push_synthetic DedentToken (length (scan_text s1)) None st) (push_synthetic NewlineToken (length (scan_text s1)) (Some EndOfFileNewline))) 0 s1) (\<lambda>(st, _). ok st)) ?ready"
      by (rule ensures_then [OF end_levels [OF e]]) auto
  next
    assume "\<not> length (indentation s1) > 1" and "scan_tokens s1 \<noteq> [] \<and> token_kind (last (scan_tokens s1)) = NewlineToken"
    then show "ensures (ok s1) ?ready" using e root [OF e] by (simp add: line_ended_def)
  next
    assume "\<not> length (indentation s1) > 1"
    from root [OF e this] end_newline [OF e]
    show "ensures (push_synthetic NewlineToken (length (scan_text s1)) (Some EndOfFileNewline) s1) ?ready" by (auto elim: ensures_mono)
  qed
  show ?thesis
    unfolding finish_layout_def Let_def
  proof (rule ensures_then [OF report_unclosed_onward [OF s(1)]])
    fix s1 assume "onward st s1 \<and> scan_position s1 = scan_position s"
    with s have e: "at_end st s1" by (auto simp: at_end_def onward_source)
    show "ensures (and_then (if length (indentation s1) > 1 then
          and_then (close_levels (\<lambda>_. True) (\<lambda>st.
              and_then (push_synthetic DedentToken (length (scan_text s1)) None st) (push_synthetic NewlineToken (length (scan_text s1)) (Some EndOfFileNewline))) 0 s1) (\<lambda>(st, _). ok st)
        else if scan_tokens s1 \<noteq> [] \<and> token_kind (last (scan_tokens s1)) = NewlineToken then ok s1
        else push_synthetic NewlineToken (length (scan_text s1)) (Some EndOfFileNewline) s1)
      (push_synthetic EndOfFileToken (length (scan_text s1)) None)) (finished st)"
    proof (rule ensures_then [OF close [OF e]], elim conjE)
      fix s2 assume s2: "at_end st s2" "line_ended s2" "length (indentation s2) = 1"
      from end_of_file [OF s2] show "ensures (push_synthetic EndOfFileToken (length (scan_text s1)) None s2) (finished st)"
        by (simp add: same_text [OF s2(1) e])
    qed
  qed
qed

subsection \<open>The scan\<close>

lemma start_good:
  assumes "sound_file f"
  shows "good (scanner_start f l s)"
  using assms by (simp add: scanner_start_def owing_def at_text_def lexical_prefix_def boundary_def sound_file_def open_levels_def)

definition scanned :: "source_file \<Rightarrow> parse_limits \<Rightarrow> lexical_table \<Rightarrow> bool" where
  "scanned f l x \<longleftrightarrow> (\<exists>b. lexical_prefix f l (table_tokens x) (table_trivia x) (table_order x) b (length (source_text f))) \<and>
     sealed_tokens (table_tokens x) \<and> table_order x \<noteq> [] \<and>
     last (table_order x) = TokenElement (word_of_nat (length (table_tokens x) - 1))"

lemma ensures_scan:
  assumes f: "sound_file f"
  shows "ensures (scan U f l s) (\<lambda>(x, s'). scanned f l x)"
proof -
  let ?st = "scanner_start f l s"
  have src: "scan_source ?st = f" "scan_limits ?st = l" by (simp_all add: scanner_start_def)
  show ?thesis
    unfolding scan_def
  proof (rule ensures_then [OF preflight_polled [OF start_good [OF f]]])
    fix s1 assume s1: "onward ?st s1"
    have rounds: "ensures (while_text (scan_round U) snd ((), s1)) (at_end ?st)"
      by (rule ensures_mono [OF rounds_onward [OF onward_good [OF s1]]]) (use onward_trans [OF s1] in \<open>auto simp: at_end_def\<close>)
    show "ensures (and_then (while_text (scan_round U) snd ((), s1)) (\<lambda>st.
     and_then (finish_layout st) (\<lambda>st.
     and_then (ask (Failure ParseCancelled)) (\<lambda>_.
       ok (\<lparr>table_tokens = scan_tokens st, table_trivia = scan_trivia st, table_order = scan_order st\<rparr>, sink st))))) (\<lambda>(x, s'). scanned f l x)"
      by (rule ensures_then [OF rounds], rule ensures_then [OF finish_layout_finished], assumption)
        (auto simp: ensures_then_iff finished_def scanned_def kept_def src)
  qed
qed

end
