(* ===== verification/Scanner_Properties.thy ===== *)
theory Scanner_Properties
  imports Scanner_Correct
begin

text \<open>
  What the scan promises: a table that the validator of the parser's output accepts and that spells the whole
  source; an end for every source; and layout tokens that nest. With the sample on which the promises are
  seen at work.
\<close>

subsection \<open>Accepted tables\<close>

definition range_text :: "source_file \<Rightarrow> text_range \<Rightarrow> text_bytes" where
  "range_text f r = take (unat (range_end r) - unat (start r)) (drop (unat (start r)) (source_text f))"

definition element_text :: "source_file \<Rightarrow> token list \<Rightarrow> trivia list \<Rightarrow> lexical_element \<Rightarrow> text_bytes" where
  "element_text f ts us e =
     (case e of TokenElement i \<Rightarrow> range_text f (span_range (token_span (ts ! unat i)))
      | TriviaElement i \<Rightarrow> range_text f (span_range (trivia_span (us ! unat i))))"

definition span_within :: "source_file \<Rightarrow> span \<Rightarrow> bool" where
  "span_within f s \<longleftrightarrow> unat (start (span_range s)) \<le> unat (range_end (span_range s)) \<and> unat (range_end (span_range s)) \<le> length (source_text f)"

lemma valid_span_within: "outcome (valid_span f s) = Inr True \<Longrightarrow> span_within f s"
  by (auto simp: valid_span_def source_slice_def slice_def slice_get_def Let_def span_within_def split: if_splits option.splits sum.splits)

lemma check_tokens_within:
  "outcome (for_each (check_token f l) b (enumerate n ts)) = Inr b' \<Longrightarrow> \<forall>t \<in> set ts. span_within f (token_span t)"
proof (induction ts arbitrary: b n)
  case (Cons t ts)
  from Cons.prems obtain b1 where one: "outcome (check_token f l b (n, t)) = Inr b1" and rest: "outcome (for_each (check_token f l) b1 (enumerate (Suc n) ts)) = Inr b'"
    by (auto simp: and_then_Inr simp del: outcome_and_then)
  from one have "outcome (valid_span f (token_span t)) = Inr True"
    by (auto simp: check_token_def and_then_Inr guard_err_def split: if_splits simp del: outcome_and_then)
  with valid_span_within Cons.IH [OF rest] show ?case by simp
qed simp

lemma good_trivia_within: "outcome (bad_trivia f n us) = Inr False \<Longrightarrow> \<forall>u \<in> set us. span_within f (trivia_span u)"
proof (induction us arbitrary: n)
  case (Cons u us)
  then have "outcome (valid_span f (trivia_span u)) = Inr True" "outcome (bad_trivia f (Suc n) us) = Inr False"
    by (auto simp: and_then_Inr split: if_splits simp del: outcome_and_then)
  with valid_span_within Cons.IH show ?case by simp
qed simp

lemma slices_append:
  assumes "a \<le> b" "b \<le> c"
  shows "take (b - a) (drop a xs) @ take (c - b) (drop b xs) = take (c - a) (drop a xs)"
proof -
  have "take (c - a) (drop a xs) = take ((b - a) + (c - b)) (drop a xs)" using assms by simp
  also have "\<dots> = take (b - a) (drop a xs) @ take (c - b) (drop (b - a) (drop a xs))" by (rule take_add)
  also have "drop (b - a) (drop a xs) = drop b xs" using assms by simp
  finally show ?thesis by simp
qed

lemma cover_lossless:
  assumes "\<forall>t \<in> set ts. span_within f (token_span t)" and "\<forall>u \<in> set us. span_within f (trivia_span u)"
    and "outcome (for_each (cover_element ts us) (a, b, c) es) = Inr (a', b', c')"
  shows "unat c \<le> unat c' \<and> concat (map (element_text f ts us) es) = take (unat c' - unat c) (drop (unat c) (source_text f))"
  using assms(3)
proof (induction es arbitrary: a b c)
  case (Cons e es)
  from Cons.prems obtain s where one: "outcome (cover_element ts us (a, b, c) e) = Inr s" and rest: "outcome (for_each (cover_element ts us) s es) = Inr (a', b', c')"
    by (auto simp: and_then_Inr simp del: outcome_and_then)
  from one have s: "unat c \<le> unat (snd (snd s)) \<and> element_text f ts us e = take (unat (snd (snd s)) - unat c) (drop (unat c) (source_text f))"
    using assms(1,2)
    by (cases e) (auto simp: cover_element_def and_then_Inr guard_err_def or_err_def list_get_def element_text_def range_text_def span_within_def
      split: if_splits simp del: outcome_and_then)
  obtain a1 b1 c1 where s3: "s = (a1, b1, c1)" by (metis prod_cases3)
  from Cons.IH [OF rest [unfolded s3]] s s3 slices_append [of "unat c" "unat c1" "unat c'" "source_text f"] show ?case by auto
qed simp

lemma scanned_lossless:
  assumes "scanned f l x" and "sound_file f"
  shows "concat (map (element_text f (table_tokens x) (table_trivia x)) (table_order x)) = source_text f"
proof -
  have n: "unat (word_of_nat (length (source_text f)) :: u32) = length (source_text f)"
    using assms(2) by (intro unat_of_nat_u32) (simp add: sound_file_def)
  from assms(1) obtain b where p: "lexical_prefix f l (table_tokens x) (table_trivia x) (table_order x) b (length (source_text f))"
    by (auto simp: scanned_def)
  then have "\<forall>t \<in> set (table_tokens x). span_within f (token_span t)" "\<forall>u \<in> set (table_trivia x). span_within f (trivia_span u)"
    unfolding lexical_prefix_def using check_tokens_within good_trivia_within by blast+
  from cover_lossless [OF this] p n show ?thesis unfolding lexical_prefix_def by fastforce
qed

lemma points_each: "(\<And>s x. points (f s x) = []) \<Longrightarrow> points (for_each f s xs) = []"
  using points_for_each [of f "{}" s xs] by simp

lemma points_bad_trivia: "points (bad_trivia f n us) = []"
  by (induction us arbitrary: n) (auto simp: points_and_then valid_span_def source_slice_def split: sum.splits)

lemma points_validate: "points (validate_lexical_table x f r l) = []"
proof -
  have span: "points (valid_span f s) = []" for s
    by (simp add: valid_span_def source_slice_def points_and_then split: sum.splits)
  have token: "points (check_token f l b p) = []" for b p
    by (cases p) (auto simp: check_token_def check_spelling_def source_slice_def points_and_then span Let_def split: sum.splits option.splits)
  have cover: "points (cover_element ts us s e) = []" for ts us s e
    by (cases s; cases e) (auto simp: cover_element_def points_and_then split: sum.splits)
  show ?thesis
    unfolding validate_lexical_table_def Let_def
    by (auto simp: points_and_then points_each [OF token] points_each [OF cover] points_bad_trivia split: sum.splits)
qed

lemma scanned_accepted:
  assumes s: "scanned f l x" and f: "sound_file f"
  shows "\<exists>b. outcome (validate_lexical_table x f True l) = Inr (word_of_nat (length (table_tokens x)), b) \<and> b \<le> max_literal_bytes l"
proof -
  let ?ts = "table_tokens x" and ?us = "table_trivia x" and ?n = "length (source_text f)"
  from s obtain b where p: "length ?ts \<le> unat (max_tokens l)" "b \<le> max_literal_bytes l"
      "outcome (for_each (check_token f l) 0 (enumerate 0 ?ts)) = Inr b" "outcome (bad_trivia f 0 ?us) = Inr False"
      "outcome (for_each (cover_element ?ts ?us) (0, 0, 0) (table_order x)) = Inr (length ?ts, length ?us, word_of_nat ?n)"
    and sealed: "sealed_tokens ?ts" and order: "table_order x \<noteq> []" "last (table_order x) = TokenElement (word_of_nat (length ?ts - 1))"
    by (auto simp: scanned_def lexical_prefix_def)
  from sealed have eof: "length (filter (\<lambda>t. token_kind t = EndOfFileToken) ?ts) = 1" "token_kind (last ?ts) = EndOfFileToken" "?ts \<noteq> []"
    by (auto simp: sealed_tokens_def filter_empty_conv)
  have n: "length ?ts < 2 ^ 32" using p(1) u32_bound [of "max_tokens l"] by simp
  then have n32: "u32_try_from (length ?ts - 1) = Some (word_of_nat (length ?ts - 1))" "u32_try_from (length ?ts) = Some (word_of_nat (length ?ts))"
      "u32_try_from ?n = Some (word_of_nat ?n)"
    using f by (auto simp: u32_try_from_def sound_file_def)
  show ?thesis
    using p eof order n32 by (auto simp: validate_lexical_table_def Let_def not_less)
qed

subsection \<open>The promises\<close>

lemma scan_ensures:
  assumes "sound_file f" and "exec h (scan U f l s) = Inr (x, s')"
  shows "scanned f l x"
  using ensures_exec [OF ensures_scan [OF assms(1), where U = U and l = l and s = s], where h = h] assms(2) by simp

lemma levels_prefix: "open_levels ts = Some n \<Longrightarrow> open_levels (take k ts) \<noteq> None"
proof -
  have none: "foldl level_after None us = None" for us
    by (induction us) (simp_all add: level_after_def split: token_kind.splits)
  assume "open_levels ts = Some n"
  then have "foldl level_after (open_levels (take k ts)) (drop k ts) = Some n"
    by (metis append_take_drop_id open_levels_append)
  with none [of "drop k ts"] show "open_levels (take k ts) \<noteq> None" by (cases "open_levels (take k ts)") auto
qed

text \<open>C2. The scanner and the validator of its output agree: for every source text that is well-formed UTF-8 below
  four gigabytes, every limit and every host, a table that the scan returns is accepted by
  \<open>validate_lexical_table\<close> as complete, so that sealing the output never fails on the table, and the texts of
  its elements, tokens and trivia in their order, make up the source text with nothing lost or doubled.\<close>

theorem scan_table_sealed:
  assumes "sound_file f" and "exec h (scan U f l s) = Inr (x, s')"
  shows "(\<exists>bytes. exec h' (validate_lexical_table x f True l) = Inr (word_of_nat (length (table_tokens x)), bytes) \<and> bytes \<le> max_literal_bytes l) \<and>
    concat (map (element_text f (table_tokens x) (table_trivia x)) (table_order x)) = source_text f"
proof -
  have x: "scanned f l x" by (rule scan_ensures [OF assms])
  have "exec h' (validate_lexical_table x f True l) = outcome (validate_lexical_table x f True l)"
    by (simp add: exec_def points_validate)
  with scanned_accepted [OF x assms(1)] scanned_lossless [OF x assms(1)] show ?thesis by simp
qed

text \<open>C3. The scan always ends, whatever the source text, and it ends well: in a table, or in the refusal to go on
  because the host cancelled or a limit or an allocation failed. It never panics on a slice inside a character or
  an index out of range, never meets one of its internal invariants broken, and none of its loops runs without
  end: each round moves on in the text, and strings nest no deeper than the limit.\<close>

theorem scan_total:
  assumes "sound_file f"
  shows "(\<exists>x s'. exec h (scan U f l s) = Inr (x, s')) \<or> exec h (scan U f l s) = Inl (Failure ParseCancelled) \<or>
    (\<exists>resource limit. exec h (scan U f l s) = Inl (Failure (ParseResourceLimit resource limit)))"
  using ensures_exec [OF ensures_scan [OF assms, where U = U and l = l and s = s], where h = h] by (auto simp: proper_def split: sum.splits prod.splits)

text \<open>C4. Layout nests: in every table the scan returns, each dedent closes a level that an indent before it opened,
  every level is closed at the end, the last token before the end of file is a newline, and the end of file is
  the last token and occurs once. It holds for malformed indentation and unclosed delimiters too.\<close>

theorem scan_layout_nests:
  assumes "sound_file f" and "exec h (scan U f l s) = Inr (x, s')"
  shows "\<exists>ts e. table_tokens x = ts @ [e] \<and> token_kind e = EndOfFileToken \<and> ts \<noteq> [] \<and> token_kind (last ts) = NewlineToken \<and>
    (\<forall>t \<in> set ts. token_kind t \<noteq> EndOfFileToken) \<and> open_levels ts = Some 0 \<and> (\<forall>k. open_levels (take k ts) \<noteq> None)"
  using scan_ensures [OF assms] levels_prefix unfolding scanned_def sealed_tokens_def by blast

subsection \<open>A sample\<close>

text \<open>Four blanks and a semicolon: a level that opens, a line that ends, and a level that closes with the file.
  The letters stand for the identifier classes.\<close>

definition plain_unicode :: unicode where
  "plain_unicode = \<lparr>is_xid_start = (\<lambda>c. 97 \<le> c \<and> c \<le> 122), is_xid_continue = (\<lambda>c. 97 \<le> c \<and> c \<le> 122), nfc = (\<lambda>cs. cs)\<rparr>"

definition blank_file :: source_file where
  "blank_file = \<lparr>ident = 1, path = [], source_text = [0x20, 0x20, 0x20, 0x20, 0x3B], digest = [], line_starts = []\<rparr>"

abbreviation sample_sink :: diagnostic_sink where
  "sample_sink \<equiv> sink_start 1 parse_limits_standard"

definition sample_start :: scanner where
  "sample_start = scanner_start blank_file parse_limits_standard sample_sink"

definition sample_token :: "token_id \<Rightarrow> token_kind \<Rightarrow> u32 \<Rightarrow> u32 \<Rightarrow> newline_origin option \<Rightarrow> token" where
  "sample_token i kind from till origin = \<lparr>token_ident = i, token_kind = kind,
     token_span = \<lparr>span_file = 1, span_range = \<lparr>start = from, range_end = till\<rparr>\<rparr>, newline_origin = origin, spelling = None, synthetic = (from = till)\<rparr>"

definition sample_tokens :: "token list" where
  "sample_tokens = [sample_token 0 IndentToken 4 4 None, sample_token 1 NewlineToken 4 5 (Some SemicolonNewline)]"

definition sample_trivia :: "trivia list" where
  "sample_trivia = [\<lparr>trivia_ident = 0, trivia_kind = SpacesTrivia, trivia_span = \<lparr>span_file = 1, span_range = \<lparr>start = 0, range_end = 4\<rparr>\<rparr>\<rparr>]"

definition sample_scanned :: scanner where
  "sample_scanned = sample_start\<lparr>poll_work := 6, scan_position := 5, at_line_start := False, indentation := [0, 4],
     scan_tokens := sample_tokens, scan_trivia := sample_trivia, scan_order := [TriviaElement 0, TokenElement 0, TokenElement 1]\<rparr>"

definition sample_table :: lexical_table where
  "sample_table = \<lparr>table_tokens = sample_tokens @ [sample_token 2 DedentToken 5 5 None, sample_token 3 NewlineToken 5 5 (Some EndOfFileNewline), sample_token 4 EndOfFileToken 5 5 None],
     table_trivia = sample_trivia,
     table_order = [TriviaElement 0, TokenElement 0, TokenElement 1, TokenElement 2, TokenElement 3, TokenElement 4]\<rparr>"

lemma sample_preflight: "outcome (preflight_forbidden_characters sample_start) = Inr (sample_start\<lparr>poll_work := 5\<rparr>)"
  by (simp add: preflight_forbidden_characters_def sample_start_def scanner_start_def blank_file_def utf8_step.simps work_def
    CANCELLATION_POLL_INTERVAL_def report_if_def is_forbidden_raw_character_def char_indices.simps)

lemmas sample_defs = sample_scanned_def sample_start_def scanner_start_def blank_file_def sample_tokens_def sample_token_def sample_trivia_def parse_limits_standard_def
  MAX_PARSE_NESTING_DEPTH_def span_at_def push_token_def push_synthetic_def push_trivia_def check_token_capacity_def

lemma sample_depth: "\<not> (1024 :: u32) \<le> 1"
  by (simp add: word_le_nat_alt)

lemma sample_prefix: "outcome (scan_line_prefix (sample_start\<lparr>poll_work := 6\<rparr>)) =
    Inr (False, sample_start\<lparr>poll_work := 6, scan_position := 4, at_line_start := False, indentation := [0, 4], scan_tokens := [sample_token 0 IndentToken 4 4 None],
      scan_trivia := sample_trivia, scan_order := [TriviaElement 0, TokenElement 0]\<rparr>)"
  by (simp add: sample_depth sample_defs Let_def scan_line_prefix_def remaining_def is_char_boundary_def is_continuation_def byte_in_def starts_with_def str_def settle_line_start_def
    apply_indentation_def current_indentation_def report_if_def tab_stop_def)

lemma sample_semicolon: "outcome (scan_token plain_unicode (sample_start\<lparr>poll_work := 6, scan_position := 4, at_line_start := False, indentation := [0, 4],
     scan_tokens := [sample_token 0 IndentToken 4 4 None],
     scan_trivia := sample_trivia, scan_order := [TriviaElement 0, TokenElement 0]\<rparr>)) = Inr sample_scanned"
  by (simp add: sample_defs scan_token_def Let_def current_char_def remaining_def is_char_boundary_def is_continuation_def byte_in_def utf8_step.simps
   plain_unicode_def is_forbidden_raw_character_def scan_punctuation_or_error_def multi_operators_def starts_with_def str_def push_physical_def advance_def len_utf8_def)

lemma sample_rounds: "outcome (while_text (scan_round plain_unicode) snd ((), sample_start\<lparr>poll_work := 5\<rparr>)) = Inr sample_scanned"
proof -
  have start: "at_line_start sample_start" "scan_position sample_start = 0" "scan_text sample_start = [0x20, 0x20, 0x20, 0x20, 0x3B]"
    "scan_position sample_scanned = 5" "scan_text sample_scanned = [0x20, 0x20, 0x20, 0x20, 0x3B]"
    by (simp_all add: sample_scanned_def sample_start_def scanner_start_def blank_file_def)
  have "outcome (scan_round plain_unicode ((), sample_start\<lparr>poll_work := 5\<rparr>)) = Inr (Inl ((), sample_scanned))"
    by (simp add: scan_round_def work_def CANCELLATION_POLL_INTERVAL_def start sample_prefix sample_semicolon)
  then show ?thesis by (simp add: while_text_def start)
qed

lemma sample_finish: "outcome (finish_layout sample_scanned) = Inr (sample_scanned\<lparr>indentation := [0], scan_tokens := table_tokens sample_table, scan_order := table_order sample_table\<rparr>)"
  by (simp add: sample_defs sample_table_def finish_layout_def Let_def close_levels.simps)

lemma sample_scan: "exec (\<lambda>_. False) (scan plain_unicode blank_file parse_limits_standard sample_sink) = Inr (sample_table, sample_sink)"
proof -
  have "sink sample_scanned = sample_sink" by (simp add: sample_scanned_def sample_start_def scanner_start_def)
  moreover have "scan_trivia sample_scanned = table_trivia sample_table" by (simp add: sample_scanned_def sample_table_def)
  ultimately show ?thesis
    unfolding exec_quiet scan_def sample_start_def [symmetric] by (simp add: sample_preflight sample_rounds sample_finish)
qed

lemma sample_sound: "sound_file blank_file"
  by (simp add: sound_file_def blank_file_def valid_utf8_step utf8_step.simps)

theorem scan_table_sealed_witness:
  "sound_file blank_file \<and> exec (\<lambda>_. False) (scan plain_unicode blank_file parse_limits_standard sample_sink) = Inr (sample_table, sample_sink) \<and>
   (\<exists>bytes. exec (\<lambda>_. True) (validate_lexical_table sample_table blank_file True parse_limits_standard) = Inr (5, bytes)) \<and>
   concat (map (element_text blank_file (table_tokens sample_table) (table_trivia sample_table)) (table_order sample_table)) = [0x20, 0x20, 0x20, 0x20, 0x3B]"
proof -
  have "length (table_tokens sample_table) = 5" "source_text blank_file = [0x20, 0x20, 0x20, 0x20, 0x3B]"
    by (simp_all add: sample_table_def sample_tokens_def blank_file_def)
  with scan_table_sealed [OF sample_sound sample_scan, of "\<lambda>_. True"] sample_sound sample_scan show ?thesis by auto
qed

theorem scan_total_witness:
  "sound_file blank_file \<and>
   ((\<exists>x s'. exec (\<lambda>n. n = 3) (scan plain_unicode blank_file parse_limits_standard sample_sink) = Inr (x, s')) \<or>
    exec (\<lambda>n. n = 3) (scan plain_unicode blank_file parse_limits_standard sample_sink) = Inl (Failure ParseCancelled) \<or>
    (\<exists>resource limit. exec (\<lambda>n. n = 3) (scan plain_unicode blank_file parse_limits_standard sample_sink) = Inl (Failure (ParseResourceLimit resource limit))))"
  using sample_sound scan_total [OF sample_sound] by blast

theorem scan_layout_nests_witness:
  "sound_file blank_file \<and> exec (\<lambda>_. False) (scan plain_unicode blank_file parse_limits_standard sample_sink) = Inr (sample_table, sample_sink) \<and>
   (\<exists>ts e. table_tokens sample_table = ts @ [e] \<and> token_kind e = EndOfFileToken \<and> open_levels ts = Some 0 \<and> (\<forall>k. open_levels (take k ts) \<noteq> None))"
  using scan_layout_nests [OF sample_sound sample_scan] sample_sound sample_scan by blast

end
