(* ===== verification/Syntax_Output.thy ===== *)
theory Syntax_Output
  imports Scanner_Properties
begin

text \<open>
  What follows the scan in \<open>crates/wrela-syntax\<close>: the values that the spellings of literals decode to
  (\<open>parser.rs\<close>) and the validation of the diagnostics of a parse before its output is sealed (\<open>lib.rs\<close>).
\<close>

subsection \<open>The values of literals\<close>

datatype (plugins only: code size) literal_kind =
    LiteralInteger | LiteralFloat | LiteralString | LiteralByteString | LiteralCharacter | LiteralBoolean | LiteralUnit

text \<open>A string of the code is the list of its scalars here.\<close>

datatype (plugins only: code size) literal_value =
    IntegerSpelling | FloatSpelling | TextValue "nat list" | BytesValue "u8 list" | CharacterValue nat | BooleanValue bool | UnitValue | InvalidValue

definition strip_prefix :: "text_bytes \<Rightarrow> text_bytes \<Rightarrow> text_bytes option" where
  "strip_prefix p t = (if starts_with t p then Some (drop (length p) t) else None)"

definition strip_suffix :: "text_bytes \<Rightarrow> text_bytes \<Rightarrow> text_bytes option" where
  "strip_suffix p t =
     (if length p \<le> length t \<and> drop (length t - length p) t = p then Some (take (length t - length p) t) else None)"

text \<open>The loop over the body of a literal, for texts and for byte strings: \<open>keep_escape\<close> and \<open>keep_char\<close> say what
  is pushed, and nothing makes the value invalid. \<open>tick\<close> is the callback \<open>work\<close> with its state.\<close>

function decode_body ::
  "bool \<Rightarrow> (escape_value \<Rightarrow> 'v option) \<Rightarrow> (nat \<Rightarrow> 'v option) \<Rightarrow> ('w \<Rightarrow> 'w scomp) \<Rightarrow> text_bytes \<Rightarrow> nat \<Rightarrow> 'v list \<Rightarrow> bool \<Rightarrow> 'w \<Rightarrow> ('v list option \<times> 'w) scomp" where
  "decode_body byte_string keep_escape keep_char tick body at decoded valid w =
     (if at < length body then
        and_then (tick w) (\<lambda>w.
        and_then (guard_err (\<not> is_char_boundary body at) ParsePanic) (\<lambda>_.
        case utf8_step (drop at body) of
          None \<Rightarrow> err (invariant_fault ''literal cursor split UTF-8'')
        | Some (c, _) \<Rightarrow>
            if c = 0x5C then
              let e = decode_escape body at byte_string;
                  v = (if escape_problem e = None then Option.bind (escape_value e) keep_escape else None) in
              decode_body byte_string keep_escape keep_char tick body (max (escape_end e) (at + 1))
                (case v of None \<Rightarrow> decoded | Some x \<Rightarrow> decoded @ [x]) (valid \<and> v \<noteq> None) w
            else
              decode_body byte_string keep_escape keep_char tick body (at + len_utf8 c)
                (case keep_char c of None \<Rightarrow> decoded | Some x \<Rightarrow> decoded @ [x]) (valid \<and> keep_char c \<noteq> None) w))
      else ok (if valid then Some decoded else None, w))"
  by pat_completeness auto
termination
  by (relation "measure (\<lambda>(b, ke, kc, tick, body, at, ds, v, w). length body - at)") (auto simp: max_def intro: diff_less_mono2)

declare decode_body.simps [simp del]

definition decode_text_body :: "('w \<Rightarrow> 'w scomp) \<Rightarrow> text_bytes \<Rightarrow> u64 \<Rightarrow> 'w \<Rightarrow> (nat list option \<times> 'w) scomp" where
  "decode_text_body tick body limit w =
     and_then (ask (limit_fault ''literal bytes'' limit)) (\<lambda>_.
     decode_body False (\<lambda>e. case e of ScalarEscape v \<Rightarrow> Some v | _ \<Rightarrow> None) Some tick body 0 [] True w)"

definition decode_byte_body :: "('w \<Rightarrow> 'w scomp) \<Rightarrow> text_bytes \<Rightarrow> u64 \<Rightarrow> 'w \<Rightarrow> (u8 list option \<times> 'w) scomp" where
  "decode_byte_body tick body limit w =
     and_then (ask (limit_fault ''literal bytes'' limit)) (\<lambda>_.
     decode_body True (\<lambda>e. case e of ByteEscape v \<Rightarrow> Some v | _ \<Rightarrow> None)
       (\<lambda>c. if char_is_ascii c then Some (word_of_nat c) else None) tick body 0 [] True w)"

definition decode_literal_spelling :: "('w \<Rightarrow> 'w scomp) \<Rightarrow> literal_kind \<Rightarrow> text_bytes \<Rightarrow> u64 \<Rightarrow> 'w \<Rightarrow> (literal_value \<times> 'w) scomp" where
  "decode_literal_spelling tick kind s limit w =
     (case kind of
        LiteralInteger \<Rightarrow> ok (IntegerSpelling, w)
      | LiteralFloat \<Rightarrow> ok (FloatSpelling, w)
      | LiteralBoolean \<Rightarrow>
          ok (if s = str ''true'' then BooleanValue True else if s = str ''false'' then BooleanValue False else InvalidValue, w)
      | LiteralUnit \<Rightarrow> ok (if s = str ''unit'' then UnitValue else InvalidValue, w)
      | LiteralString \<Rightarrow>
          (case Option.bind (strip_prefix [0x22] s) (strip_suffix [0x22]) of
             None \<Rightarrow> ok (InvalidValue, w)
           | Some body \<Rightarrow> and_then (decode_text_body tick body limit w) (\<lambda>(v, w).
               ok (case v of None \<Rightarrow> InvalidValue | Some cs \<Rightarrow> TextValue cs, w)))
      | LiteralByteString \<Rightarrow>
          (case Option.bind (strip_prefix [0x62, 0x22] s) (strip_suffix [0x22]) of
             None \<Rightarrow> ok (InvalidValue, w)
           | Some body \<Rightarrow> and_then (decode_byte_body tick body limit w) (\<lambda>(v, w).
               ok (case v of None \<Rightarrow> InvalidValue | Some bs \<Rightarrow> BytesValue bs, w)))
      | LiteralCharacter \<Rightarrow>
          (case Option.bind (strip_prefix [0x27] s) (strip_suffix [0x27]) of
             None \<Rightarrow> ok (InvalidValue, w)
           | Some body \<Rightarrow> and_then (decode_text_body tick body limit w) (\<lambda>(v, w).
               ok (case v of Some [c] \<Rightarrow> CharacterValue c | _ \<Rightarrow> InvalidValue, w))))"

subsection \<open>The diagnostics of a parse\<close>

definition or_comp :: "bool scomp \<Rightarrow> bool scomp \<Rightarrow> bool scomp" where
  "or_comp a b = and_then a (\<lambda>x. if x then ok True else b)"

primrec any_comp :: "('a \<Rightarrow> bool scomp) \<Rightarrow> 'a list \<Rightarrow> bool scomp" where
  "any_comp p [] = ok False"
| "any_comp p (x # xs) = or_comp (p x) (any_comp p xs)"

definition blank_message :: "text_bytes \<Rightarrow> bool" where
  "blank_message m = list_all char_is_whitespace (utf8_chars m)"

definition invalid_span :: "source_file \<Rightarrow> span \<Rightarrow> bool scomp" where
  "invalid_span f s = and_then (valid_span f s) (\<lambda>v. ok (\<not> v))"

definition bad_code :: "text_bytes \<Rightarrow> bool" where
  "bad_code c \<longleftrightarrow> c = [] \<or> \<not> list_all (\<lambda>b. byte_of (CHR ''a'') \<le> b \<and> b \<le> byte_of (CHR ''z'') \<or> is_ascii_digit b \<or> b = byte_of (CHR ''-'')) c"

definition edits_overlap :: "source_edit list \<Rightarrow> bool" where
  "edits_overlap es \<longleftrightarrow>
     \<not> list_all (\<lambda>(a, b). range_end (span_range (edit_span a)) \<le> start (span_range (edit_span b))) (zip es (tl es))"

definition malformed_diagnostic :: "source_file \<Rightarrow> diagnostic \<Rightarrow> bool scomp" where
  "malformed_diagnostic f d =
     or_comp (ok (blank_message (message d)))
     (or_comp (invalid_span f (primary d))
     (or_comp (ok (case code d of None \<Rightarrow> False | Some c \<Rightarrow> bad_code c))
     (or_comp (any_comp (\<lambda>l. or_comp (ok (blank_message (label_message l))) (invalid_span f (label_span l))) (labels d))
     (or_comp (any_comp (\<lambda>r. or_comp (ok (blank_message (related_message r))) (invalid_span f (related_span r))) (related d))
     (any_comp (\<lambda>r. or_comp (ok (blank_message (repair_message r) \<or> edits r = [] \<or> edits_overlap (edits r)))
       (any_comp (\<lambda>e. invalid_span f (edit_span e)) (edits r))) (repairs d))))))"

definition parse_diagnostic_texts :: "diagnostic \<Rightarrow> text_bytes list" where
  "parse_diagnostic_texts d =
     message d # (case code d of None \<Rightarrow> [] | Some c \<Rightarrow> [c]) @ map label_message (labels d) @ notes_of d @ help_of d @
     map related_message (related d) @ map repair_message (repairs d) @
     map replacement (concat (map edits (repairs d)))"

definition count_text :: "parse_limits \<Rightarrow> u64 \<Rightarrow> text_bytes \<Rightarrow> u64 scomp" where
  "count_text l bytes t =
     and_then (ask (Failure ParseCancelled)) (\<lambda>_.
     and_then (or_err (u64_try_from (length t)) (invariant_fault ''diagnostic byte count does not fit u64'')) (\<lambda>n.
     or_err (checked_add_u64 bytes n) (limit_fault ''diagnostic bytes'' (max_diagnostic_bytes l))))"

definition check_diagnostic :: "source_file \<Rightarrow> parse_limits \<Rightarrow> u64 \<Rightarrow> diagnostic \<Rightarrow> u64 scomp" where
  "check_diagnostic f l bytes d =
     and_then (ask (Failure ParseCancelled)) (\<lambda>_.
     and_then (malformed_diagnostic f d) (\<lambda>bad.
     and_then (guard_err bad (invariant_fault ''parser diagnostic is malformed or refers outside its source'')) (\<lambda>_.
     for_each (count_text l) bytes (parse_diagnostic_texts d))))"

definition sort_fault :: "parse_limits \<Rightarrow> diagnostic_sort_error \<Rightarrow> parse_fault" where
  "sort_fault l e = (case e of Cancelled \<Rightarrow> Failure ParseCancelled
     | Allocation \<Rightarrow> limit_fault ''diagnostics'' (u64_of_u32 (max_diagnostics l)))"

definition validate_parse_diagnostics :: "diagnostic list \<Rightarrow> source_file \<Rightarrow> parse_limits \<Rightarrow> (diagnostic list \<times> u32 \<times> u64) scomp" where
  "validate_parse_diagnostics ds f l =
     (let count_fault = limit_fault ''diagnostics'' (u64_of_u32 (max_diagnostics l)) in
      and_then (guard_err (length ds > unat (max_diagnostics l)) count_fault) (\<lambda>_.
      and_then (for_each (check_diagnostic f l) 0 ds) (\<lambda>bytes.
      and_then (guard_err (bytes > max_diagnostic_bytes l) (limit_fault ''diagnostic bytes'' (max_diagnostic_bytes l))) (\<lambda>_.
      and_then (map_err (sort_fault l) (canonicalize_diagnostics ds)) (\<lambda>sorted.
      and_then (or_err (u32_try_from (length sorted)) count_fault) (\<lambda>n.
        ok (sorted, n, bytes)))))))"

subsection \<open>Decoding ends\<close>

lemma ensures_decode_body:
  assumes tick: "\<And>w. ensures (tick w) (\<lambda>_. True)" and "boundary body at"
  shows "ensures (decode_body byte_string ke kc tick body at decoded valid w) (\<lambda>_. True)"
  using assms(2)
proof (induction "length body - at" arbitrary: at decoded valid w rule: less_induct)
  case less
  show ?case
  proof (cases "at < length body")
    case True
    from boundary_step [OF less.prems True] obtain c where
      c: "utf8_step (drop at body) = Some (c, drop (at + len_utf8 c) body)" "boundary body (at + len_utf8 c)" .
    let ?e = "decode_escape body at byte_string"
    have esc: "at < escape_end ?e \<and> boundary body (escape_end ?e)" if "c = 0x5C"
      by (rule decode_escape_boundary [OF less.prems True]) (use char_byte [OF c(1)] that in simp)
    have next_char: "ensures (decode_body byte_string ke kc tick body (at + len_utf8 c) ds v w') (\<lambda>_. True)" for ds v w'
      by (rule less.hyps [OF _ c(2)]) (use True in \<open>simp add: diff_less_mono2\<close>)
    have next_escape: "ensures (decode_body byte_string ke kc tick body (max (escape_end ?e) (at + 1)) ds v w') (\<lambda>_. True)" if "c = 0x5C" for ds v w'
      by (rule less.hyps) (use True esc [OF that] in \<open>auto simp: max.absorb1 Suc_le_eq\<close>)
    show ?thesis
      unfolding decode_body.simps [of byte_string ke kc tick body at decoded valid w] if_P [OF True]
      by (rule ensures_then [OF tick])
        (use boundary_char [OF less.prems] c(1) next_char next_escape in \<open>auto simp: ensures_then_iff Let_def\<close>)
  next
    case False
    then show ?thesis by (simp add: decode_body.simps [of byte_string ke kc tick body at decoded valid w])
  qed
qed

lemma char_indices_shift: "map snd (char_indices i bs) = map snd (char_indices j bs)"
proof (induction bs arbitrary: i j rule: measure_induct_rule [where f = length])
  case (less bs)
  show ?case
  proof (cases "utf8_step bs")
    case (Some x)
    obtain c r where x: "x = (c, r)" by (cases x)
    with Some less [of r] utf8_step_shorter [of bs c r] show ?thesis by (simp add: char_indices.simps [of _ bs])
  qed (simp add: char_indices.simps [of _ bs])
qed

lemma utf8_chars_step: "utf8_step bs = Some (c, r) \<Longrightarrow> utf8_chars bs = c # utf8_chars r"
  unfolding utf8_chars_def char_indices.simps [of 0 bs] using char_indices_shift [of "length bs - length r" r 0] by simp

text \<open>A body without a backslash is its own value.\<close>

lemma decode_plain:
  assumes "boundary body at" and "0x5C \<notin> set (utf8_chars (drop at body))" and "\<And>w. outcome (tick w) = Inr w"
  shows "outcome (decode_body False ke Some tick body at decoded True w) = Inr (Some (decoded @ utf8_chars (drop at body)), w)"
  using assms(1,2)
proof (induction "length body - at" arbitrary: at decoded rule: less_induct)
  case less
  show ?case
  proof (cases "at < length body")
    case True
    from boundary_step [OF less.prems(1) True] obtain c where
      c: "utf8_step (drop at body) = Some (c, drop (at + len_utf8 c) body)" "boundary body (at + len_utf8 c)" .
    then have chars: "utf8_chars (drop at body) = c # utf8_chars (drop (at + len_utf8 c) body)" by (simp add: utf8_chars_step)
    show ?thesis
      using less.hyps [OF _ c(2), of "decoded @ [c]"] True less.prems boundary_char [OF less.prems(1)] c(1) chars assms(3)
      by (simp add: decode_body.simps [of False ke Some tick body at decoded True w] diff_less_mono2)
  next
    case False
    then have "utf8_chars (drop at body) = []" by (simp add: utf8_chars_def char_indices.simps)
    with False show ?thesis by (simp add: decode_body.simps [of False ke Some tick body at decoded True w])
  qed
qed

lemma strip_prefix_Some: "strip_prefix p s = Some t \<Longrightarrow> s = p @ t"
  unfolding strip_prefix_def starts_with_def by (auto split: if_splits) (metis append_take_drop_id)

lemma strip_suffix_Some: "strip_suffix q t = Some b \<Longrightarrow> t = b @ q"
  unfolding strip_suffix_def by (auto split: if_splits) (metis append_take_drop_id)

lemma literal_body_valid:
  assumes s: "valid_utf8 s" and b: "Option.bind (strip_prefix p s) (strip_suffix [q]) = Some body"
    and ascii: "\<forall>x \<in> set p. x < 0x80" "q < 0x80"
  shows "valid_utf8 body"
proof -
  have eq: "s = p @ body @ [q]" using b by (auto simp: bind_eq_Some_conv dest!: strip_prefix_Some strip_suffix_Some)
  have "valid_utf8 (body @ [q])" using s valid_utf8_append [OF valid_utf8_ascii [OF ascii(1)], of "body @ [q]"] by (simp add: eq)
  then show ?thesis
    by (rule valid_utf8_cut) (use ascii(2) in \<open>simp add: is_continuation_unat word_less_nat_alt\<close>)
qed

lemma literal_case:
  assumes "\<And>x. b = Some x \<Longrightarrow> ensures (d x) (\<lambda>_. True)"
  shows "ensures (case b of None \<Rightarrow> ok (v0, w) | Some x \<Rightarrow> and_then (d x) (\<lambda>(v, w). ok (g v, w))) (\<lambda>_. True)"
proof (cases b)
  case (Some x)
  with ensures_then [OF assms, of x "\<lambda>(v, w). ok (g v, w)" "\<lambda>_. True"] show ?thesis by auto
qed simp

text \<open>The decoding of a well-formed spelling returns: the callback apart, only an allocation can fail.\<close>

lemma ensures_decode_literal:
  assumes tick: "\<And>w. ensures (tick w) (\<lambda>_. True)" and s: "valid_utf8 s"
  shows "ensures (decode_literal_spelling tick kind s limit w) (\<lambda>_. True)"
proof -
  have body: "ensures (decode_body bs ke kc tick b 0 [] True w) (\<lambda>_. True)"
    if "Option.bind (strip_prefix p s) (strip_suffix [q]) = Some b" "\<forall>x \<in> set p. x < 0x80" "q < 0x80" for bs ke kc b p q
    by (rule ensures_decode_body [OF tick]) (use literal_body_valid [OF s that] in \<open>simp add: boundary_def\<close>)
  have str_lit: "ensures (decode_text_body tick b limit w) (\<lambda>_. True)" if "Option.bind (strip_prefix [0x22] s) (strip_suffix [0x22]) = Some b" for b
    using body [OF that] by (simp add: decode_text_body_def ensures_then_iff)
  have bytes_lit: "ensures (decode_byte_body tick b limit w) (\<lambda>_. True)" if "Option.bind (strip_prefix [0x62, 0x22] s) (strip_suffix [0x22]) = Some b" for b
    using body [OF that] by (simp add: decode_byte_body_def ensures_then_iff)
  have char_lit: "ensures (decode_text_body tick b limit w) (\<lambda>_. True)" if "Option.bind (strip_prefix [0x27] s) (strip_suffix [0x27]) = Some b" for b
    using body [OF that] by (simp add: decode_text_body_def ensures_then_iff)
  show ?thesis
    unfolding decode_literal_spelling_def using literal_case [OF str_lit] literal_case [OF bytes_lit] literal_case [OF char_lit] by (cases kind) simp_all
qed

subsection \<open>A diagnostic that the seal refuses\<close>

text \<open>A comment with a letter of two bytes, and a line indented by a blank, a tab and a blank: five columns, but three
  bytes, so the span of the diagnostic starts two bytes before the line, inside the letter.\<close>

definition tab_file :: source_file where
  "tab_file = \<lparr>ident = 1, path = [], source_text = [0x23, 0xC3, 0xA9, 0x0A, 0x20, 0x09, 0x20, 0x3B], digest = [], line_starts = []\<rparr>"

definition tab_start :: scanner where
  "tab_start = scanner_start tab_file parse_limits_standard sample_sink"

lemma tab_preflight: "outcome (preflight_forbidden_characters tab_start) = Inr (tab_start\<lparr>poll_work := 7\<rparr>)"
  by (simp add: preflight_forbidden_characters_def tab_start_def scanner_start_def tab_file_def utf8_step.simps work_def byte_in_def is_continuation_def
    CANCELLATION_POLL_INTERVAL_def report_if_def is_forbidden_raw_character_def char_indices.simps)

text \<open>The two diagnostics of the scan, for the tab and for the columns.\<close>

definition tab_diagnostic :: "string \<Rightarrow> u32 \<Rightarrow> u32 \<Rightarrow> text_bytes \<Rightarrow> diagnostic" where
  "tab_diagnostic c from till m = (diagnostic_error SYNTAX \<lparr>span_file = 1, span_range = \<lparr>start = from, range_end = till\<rparr>\<rparr> m)\<lparr>code := Some (str c)\<rparr>"

definition tab_sink1 :: diagnostic_sink where
  "tab_sink1 = sample_sink\<lparr>sink_text_bytes := 59, sink_diagnostics :=
     [tab_diagnostic ''syntax-leading-tab'' 5 6 (str ''tabs are forbidden in leading indentation'')]\<rparr>"

definition tab_sink2 :: diagnostic_sink where
  "tab_sink2 = sample_sink\<lparr>sink_text_bytes := 147, sink_diagnostics :=
     [tab_diagnostic ''syntax-leading-tab'' 5 6 (str ''tabs are forbidden in leading indentation''),
      tab_diagnostic ''syntax-invalid-indentation'' 2 7 (str ''indentation must increase by exactly four spaces from column '' @ decimal_text (Suc 0))]\<rparr>"

lemma decimal_one: "length (decimal_text (Suc 0)) = Suc 0"
  by (simp add: decimal_text.simps)

lemma tab_error1: "outcome (sink_error sample_sink ''syntax-leading-tab'' 5 6 (str ''tabs are forbidden in leading indentation'')) = Inr tab_sink1"
  by (simp add: sink_error_def Let_def sink_start_def tab_sink1_def tab_diagnostic_def parse_limits_standard_def u64_try_from_def checked_add_u64_def str_def)

lemma tab_error2: "outcome (sink_error tab_sink1 ''syntax-invalid-indentation'' 2 7 (str ''indentation must increase by exactly four spaces from column '' @ decimal_text (Suc 0))) = Inr tab_sink2"
  by (simp add: sink_error_def Let_def sink_start_def tab_sink1_def tab_sink2_def tab_diagnostic_def parse_limits_standard_def u64_try_from_def checked_add_u64_def str_def decimal_one)

definition tab_line :: scanner where
  "tab_line = tab_start\<lparr>poll_work := 10, scan_position := 4,
     scan_trivia := [\<lparr>trivia_ident = 0, trivia_kind = CommentTrivia, trivia_span = \<lparr>span_file = 1, span_range = \<lparr>start = 0, range_end = 3\<rparr>\<rparr>\<rparr>,
       \<lparr>trivia_ident = 1, trivia_kind = BlankLine, trivia_span = \<lparr>span_file = 1, span_range = \<lparr>start = 3, range_end = 4\<rparr>\<rparr>\<rparr>],
     scan_order := [TriviaElement 0, TriviaElement 1]\<rparr>"

lemma tab_comment: "outcome (scan_line_prefix (tab_start\<lparr>poll_work := 8\<rparr>)) = Inr (True, tab_line)"
  by (simp add: tab_line_def tab_start_def tab_file_def scanner_start_def scan_line_prefix_def scan_comment_def while_text_def current_char_def remaining_def
    is_char_boundary_def is_continuation_def byte_in_def starts_with_def str_def utf8_step.simps len_utf8_def advance_def work_def CANCELLATION_POLL_INTERVAL_def
    push_newline_trivia_def push_trivia_def span_at_def Let_def)

definition tab_indented :: scanner where
  "tab_indented = tab_line\<lparr>sink := tab_sink2, poll_work := 11, scan_position := 7, at_line_start := False, indentation := [0, 5],
     scan_tokens := [sample_token 0 IndentToken 7 7 None],
     scan_trivia := scan_trivia tab_line @ [\<lparr>trivia_ident = 2, trivia_kind = SpacesTrivia, trivia_span = \<lparr>span_file = 1, span_range = \<lparr>start = 4, range_end = 7\<rparr>\<rparr>\<rparr>],
     scan_order := [TriviaElement 0, TriviaElement 1, TriviaElement 2, TokenElement 0]\<rparr>"

lemma tab_indent: "outcome (scan_line_prefix (tab_line\<lparr>poll_work := 11\<rparr>)) = Inr (False, tab_indented)"
proof -
  have hash: "str ''#'' = [0x23]" by (simp add: str_def)
  have max: "max_tokens parse_limits_standard = 16000000" "max_nesting_depth parse_limits_standard = 1024"
    by (simp_all add: parse_limits_standard_def MAX_PARSE_NESTING_DEPTH_def)
  show ?thesis
    by (simp add: tab_indented_def tab_line_def tab_start_def tab_file_def scanner_start_def scan_line_prefix_def remaining_def hash max sample_depth
      is_char_boundary_def is_continuation_def byte_in_def starts_with_def push_trivia_def span_at_def Let_def settle_line_start_def tab_stop_def
      apply_indentation_def current_indentation_def report_if_def report_def tab_error1 tab_error2 push_synthetic_def push_token_def check_token_capacity_def sample_token_def)
qed

definition tab_scanned :: scanner where
  "tab_scanned = tab_indented\<lparr>scan_position := 8, scan_tokens := scan_tokens tab_indented @ [sample_token 1 NewlineToken 7 8 (Some SemicolonNewline)],
     scan_order := scan_order tab_indented @ [TokenElement 1]\<rparr>"

lemma tab_semicolon: "outcome (scan_token plain_unicode tab_indented) = Inr tab_scanned"
  by (simp add: tab_scanned_def tab_indented_def tab_line_def tab_start_def tab_file_def scanner_start_def scan_token_def Let_def current_char_def remaining_def
    is_char_boundary_def is_continuation_def byte_in_def utf8_step.simps plain_unicode_def is_forbidden_raw_character_def scan_punctuation_or_error_def
    multi_operators_def starts_with_def str_def push_physical_def advance_def len_utf8_def push_token_def check_token_capacity_def sample_token_def span_at_def
    parse_limits_standard_def)

lemma iterate_numeral:
  "iterate (numeral k) body s = and_then (body s) (\<lambda>x. case x of Inl s \<Rightarrow> iterate (pred_numeral k) body s | Inr r \<Rightarrow> ok r)"
  by (simp add: numeral_eq_Suc)

lemma tab_rounds: "outcome (while_text (scan_round plain_unicode) snd ((), tab_start\<lparr>poll_work := 7\<rparr>)) = Inr tab_scanned"
proof -
  have at: "at_line_start tab_start" "scan_position tab_start = 0" "length (scan_text tab_start) = 8"
    "at_line_start tab_line" "scan_position tab_line = 4" "length (scan_text tab_line) = 8" "poll_work tab_line = 10"
    "scan_position tab_indented = 7" "length (scan_text tab_indented) = 8" "scan_position tab_scanned = 8" "length (scan_text tab_scanned) = 8"
    by (simp_all add: tab_scanned_def tab_indented_def tab_line_def tab_start_def scanner_start_def tab_file_def)
  have "outcome (scan_round plain_unicode ((), tab_start\<lparr>poll_work := 7\<rparr>)) = Inr (Inl ((), tab_line))"
    by (simp add: scan_round_def work_def CANCELLATION_POLL_INTERVAL_def at tab_comment)
  moreover have "outcome (scan_round plain_unicode ((), tab_line)) = Inr (Inl ((), tab_scanned))"
    by (simp add: scan_round_def work_def CANCELLATION_POLL_INTERVAL_def at tab_indent tab_semicolon)
  ultimately show ?thesis by (simp add: while_text_def at iterate_numeral)
qed

lemma tab_finish: "\<exists>st. outcome (finish_layout tab_scanned) = Inr st \<and> sink st = tab_sink2"
  by (simp add: tab_scanned_def tab_indented_def tab_line_def tab_start_def tab_file_def scanner_start_def finish_layout_def Let_def close_levels.simps
    push_synthetic_def push_token_def check_token_capacity_def parse_limits_standard_def)

lemma visible_message: "a < 0x80 \<Longrightarrow> \<not> char_is_whitespace (unat a) \<Longrightarrow> \<not> blank_message (a # bs)"
  by (simp add: blank_message_def utf8_chars_step [of "a # bs" "unat a" bs] utf8_step.simps)

lemma tab_refused:
  "outcome (validate_parse_diagnostics (sink_diagnostics tab_sink2) tab_file parse_limits_standard) =
   Inl (invariant_fault ''parser diagnostic is malformed or refers outside its source'')"
proof -
  have "\<not> blank_message (str (CHR ''t'' # cs))" "\<not> blank_message (str (CHR ''i'' # cs) @ m)" for cs m
    using visible_message [of "0x74"] visible_message [of "0x69"] by (simp_all add: str_def char_is_whitespace_def)
  then show ?thesis
    by (simp add: validate_parse_diagnostics_def tab_sink2_def tab_diagnostic_def diagnostic_error_def check_diagnostic_def malformed_diagnostic_def or_comp_def
      invalid_span_def valid_span_def source_slice_def slice_def slice_get_def tab_file_def is_char_boundary_def is_continuation_def byte_in_def Let_def
      parse_diagnostic_texts_def count_text_def u64_try_from_def checked_add_u64_def bad_code_def str_def is_ascii_digit_def parse_limits_standard_def)
qed

text \<open>The source is refused with an internal invariant, where the two diagnostics should be reported.\<close>

theorem tab_indentation_refused:
  "\<exists>x s. exec (\<lambda>_. False) (scan plain_unicode tab_file parse_limits_standard (sink_start 1 parse_limits_standard)) = Inr (x, s) \<and>
     exec (\<lambda>_. False) (validate_parse_diagnostics (sink_diagnostics s) tab_file parse_limits_standard) =
       Inl (invariant_fault ''parser diagnostic is malformed or refers outside its source'')"
proof -
  from tab_finish obtain st where "outcome (finish_layout tab_scanned) = Inr st" "sink st = tab_sink2" by blast
  then show ?thesis
    unfolding exec_quiet scan_def tab_start_def [symmetric] by (simp add: tab_preflight tab_rounds tab_refused)
qed

end
