(* ===== verification/Spec2Isabelle.thy ===== *)
theory Spec2Isabelle
  imports Event_Stream Backend_Process Sha256 Lint Package_Canonical Scalar_Exact Flow_Properties Syntax_Output
begin

text \<open>
  A verification of the wrela toolchain: the compiler of a language whose compilation unit is a sealed,
  bootable machine image.

  \<^bold>\<open>The program.\<close> A build reads sources into a database (\<open>crates/wrela-source\<close>), loads and orders packages
  (\<open>wrela-package\<close>, \<open>wrela-package-loader\<close>), scans and parses each file (\<open>wrela-syntax\<close>), analyses and lowers
  (\<open>wrela-hir\<close>, \<open>wrela-sema\<close>, \<open>wrela-semantic-lower\<close>, \<open>wrela-flow-lower\<close>) to a typed SSA form
  (\<open>wrela-flow-wir\<close>), optimises it (\<open>wrela-flow-opt\<close>) and hands it over a framed pipe (\<open>wrela-backend-protocol\<close>)
  to a private backend, which emits and links the image. Full-image tests run in an emulator and report to the
  host over a framed event stream (\<open>wrela-test-protocol\<close>). Diagnostics and lint findings are put into a
  canonical order before they leave a stage (\<open>wrela-diagnostics\<close>, \<open>wrela-lint\<close>), and everything is identified
  by SHA-256 digests and a canonical build profile (\<open>wrela-build-model\<close>).

  \<^bold>\<open>The library.\<close> A long-running function of the code takes a callback \<open>is_cancelled\<close> and reserves memory
  fallibly. \<open>Wrela_Prelude\<close> models such a function as a computation \<open>comp\<close>: its interruption points, each with
  the error it returns when the host interrupts there, and the outcome it has when no point is interrupted;
  \<open>exec h\<close> runs it against a host \<open>h\<close>. A theorem about \<open>exec h\<close> for every \<open>h\<close> therefore covers cancellation and
  allocation failure at every point. Machine integers are words of their width with checked arithmetic written
  out; \<open>usize\<close> is a natural number. \<open>Utf8\<close> is Rust's \<open>str\<close>: a text is a list of bytes, with characters,
  boundaries and validity. \<open>Comparators\<close> and \<open>Run_Sort\<close> hold the comparison functions and the merge sort that
  diagnostics and findings share, \<open>Byte_Codec\<close> the contracts of byte formats.

  \<^bold>\<open>Components.\<close> State and operations have the names of the code; the manifest maps each to its lines.
  \<^item> \<open>Source\<close>: \<open>wrela-source/src/lib.rs\<close>. The database as a record, \<open>add_source\<close> with path validation,
    normalisation (a parameter) and case-insensitive uniqueness, the line index, \<open>slice\<close> and \<open>position\<close>. The
    database stays canonical, positions are exact, slices are well-formed text, and columns are
    one-based everywhere but at the largest offset of a text on one line, where they wrap.
  \<^item> \<open>Test_Events\<close>, \<open>Event_Wire\<close>, \<open>Crc32c\<close>, \<open>Event_Frame\<close>, \<open>Test_Table\<close>, \<open>Event_Stream\<close>:
    \<open>wrela-test-protocol/src/lib.rs\<close> and the event types of \<open>wrela-test-model\<close>. Bounded writer and reader of
    payloads (locale \<open>wire_field\<close>, interpreted on every field), checksum, frames (locale \<open>lawful_codec\<close>), the
    open-addressing table of test states (locale \<open>state_table\<close>), and the checker of event streams. Encoding is
    canonical and total within its bounds, the checksum detects bursts, the table refines a map, and the checker
    accepts exactly the runs an abstract description allows.
  \<^item> \<open>Build_Model\<close>, \<open>Backend_Protocol\<close>, \<open>Backend_Process\<close>: profiles, their validation and injective canonical
    bytes, the sealing of configurations, the request and response messages with canonical round trips and
    disjoint frames (locales \<open>prefix_code\<close> and \<open>byte_field\<close>), and how \<open>wrela-backend/src/main.rs\<close> receives a
    request: it admits exactly canonical frames whose build carries the digest of its profile.
  \<^item> \<open>Sha256\<close>: the two implementations of \<open>wrela-package-loader\<close> and \<open>wrela-test-runner\<close>, against FIPS 180-4 and
    against each other (locale \<open>content_digest\<close>).
  \<^item> \<open>Diagnostics\<close>, \<open>Lint\<close>: records, total orders (locale \<open>comparator_on\<close>), canonicalisation as a stable sort, the
    lint registry, and the exact condition under which \<open>seal_lint_output\<close> accepts findings.
  \<^item> \<open>Package_Graph\<close>, \<open>Package_Cycles\<close>, \<open>Package_Canonical\<close>: the graph builder of \<open>wrela-package\<close>; which builders
    \<open>finish\<close> accepts, that it keeps their content, and that the result does not depend on discovery order.
  \<^item> \<open>Syntax_Tokens\<close>, \<open>Scanner\<close>, \<open>Syntax_Output\<close>: the scanner of \<open>wrela-syntax/src/parser.rs\<close> as a whole (layout,
    hanging headers, literals, nested interpolation, delimiters, recovery), and from \<open>lib.rs\<close> the limits, the
    validator of lexical tables, the decoding of literals and the validation of diagnostics. \<open>Scanner_Laws\<close> has
    the rules (\<open>ensures\<close>: every interruption is a proper refusal and the outcome satisfies a condition),
    \<open>Scanner_Words\<close>, \<open>Scanner_Interpolation\<close> and \<open>Scanner_Strings\<close> the scans of tokens (locale \<open>token_scan\<close>,
    interpreted on them in \<open>Scanner_Layout\<close>), \<open>Scanner_Layout\<close>, \<open>Scanner_Lines\<close> and \<open>Scanner_Newlines\<close> the
    layout, \<open>Scanner_Correct\<close> and \<open>Scanner_Properties\<close> the whole: every scan ends properly, its table is accepted
    by the validator and spells the source, and its layout nests.
  \<^item> \<open>Scalar_Fold\<close>, \<open>Scalar_Exact\<close>: the folding of scalar operations in \<open>wrela-flow-opt/src/development.rs\<close> and
    its exactness for the arithmetic of the language at every width.
  \<^item> \<open>Flow_Wir\<close>, \<open>Flow_Meter\<close>, \<open>Flow_Profile\<close>, \<open>Flow_Passes\<close>, \<open>Flow_Pipeline\<close>: the representation, the work meter,
    the policy, and the canonical pipeline: folding, constant control flow, unreachable blocks, proven checks,
    dead pure instructions, compaction, with verification after each pass. \<open>Flow_Semantics\<close> gives functions a
    meaning in which all operations but the scalar ones are arbitrary (locale \<open>block_simulation\<close>);
    \<open>Flow_Constants\<close>, \<open>Flow_Folding\<close>, \<open>Flow_Renaming\<close>, \<open>Flow_Compaction\<close>, \<open>Flow_Verified\<close>, \<open>Flow_Reach\<close>,
    \<open>Flow_Budget\<close>, \<open>Flow_Correct\<close> and \<open>Flow_Optimizer\<close> prove the passes, and \<open>Flow_Properties\<close> states the result:
    behaviour is preserved, the output is verified, folding leaves nothing to fold, and the search ends within
    a budget known from the function.

  \<^bold>\<open>Bounds and fuel.\<close> Loops are recursive functions with a termination proof, or folds over lists. Two kinds of
  loop have fuel. A \<open>while\<close> loop of the scanner has the length of the text plus one, and every round is proved to
  move on, so that the fuel never runs out (\<open>scan_total\<close>); the recursion into nested strings has the nesting
  limit plus one, which the code's own check bounds. The rounds of folding have no fuel: they are counted in 32 bits
  as in the code and end at the latest at the maximum of the profile. Runs of a function in \<open>Flow_Semantics\<close> are counted in blocks, and
  the theorems hold for every count, so that divergence is preserved too.

  \<^bold>\<open>Parameters.\<close> Code outside the repository is an argument: Unicode normalisation and identifier classes, the
  file system that \<open>digest_file\<close> reads, and the digest function where a component only passes digests on.

  \<^bold>\<open>Not modelled.\<close> The recursive descent parser and the tree with its validator (\<open>wrela-syntax\<close> from \<open>Parser\<close> on),
  name resolution, semantic analysis and the lowerings (\<open>wrela-hir\<close>, \<open>wrela-hir-lower\<close>, \<open>wrela-sema\<close>,
  \<open>wrela-semantic-wir\<close>, \<open>wrela-semantic-lower\<close>, \<open>wrela-flow-lower\<close>, \<open>wrela-machine-wir\<close>, \<open>wrela-machine-lower\<close>):
  about two hundred thousand lines over large trees, whose correctness would need a formal semantics of the whole
  language that the repository states in prose only. \<open>wrela-flow-wir-codec\<close> and the validator of untrusted
  modules in \<open>wrela-flow-wir\<close>: the plans and image records they cover are not part of the model.
  \<open>wrela-codegen-llvm\<close>, \<open>wrela-link-efi\<close>, \<open>wrela-lld-sys\<close>, \<open>wrela-backend\<close> beyond the receipt of a request: they drive LLVM and the linker.
  \<open>wrela-driver\<close>, \<open>wrela-compiler\<close>, \<open>wrela-cli\<close>, \<open>wrela-toolchain\<close>, \<open>wrela-test-runner\<close> beyond its digest, and
  \<open>wrela-package-loader\<close> beyond its digest: composition, processes and the file system.
  \<open>wrela-target\<close>, \<open>wrela-runtime-abi\<close>, \<open>wrela-image-report\<close>, \<open>wrela-format\<close>, the plans and scenarios of
  \<open>wrela-test-model\<close>, and the spelling rules of names, versions and manifests in \<open>wrela-package\<close> are left out.
\<close>

end
